(* ===== verification/Prelude.thy ===== *)
theory Prelude
  imports
    Main
    "HOL-Library.Char_ord"
    "HOL-Library.List_Lexorder"
    "HOL-Library.AList"
    "HOL-Library.Sublist"
    "HOL-Library.Multiset"
begin

text \<open>
  The shared vocabulary of the development: Go's byte strings, maps, 64-bit integers, errors as
  values, and the pieces of the packages \<^verbatim>\<open>strings\<close>, \<^verbatim>\<open>sort\<close>, \<^verbatim>\<open>io\<close> and \<^verbatim>\<open>unicode/utf8\<close> that the
  modelled code calls.

  \<^item> A Go \<^verbatim>\<open>string\<close> and a Go \<^verbatim>\<open>[]byte\<close> are sequences of bytes; both are \<^typ>\<open>string\<close>, whose
    characters are bytes, and \<^const>\<open>length\<close> counts bytes as \<^verbatim>\<open>len\<close> does.  Strings are ordered
    bytewise (theories \<^verbatim>\<open>Char_ord\<close> and \<^verbatim>\<open>List_Lexorder\<close>), as Go orders them.
  \<^item> A Go map is an association list with distinct keys.  Go leaves the iteration order of a map
    open; a theorem that holds for every association list holds for every order.
  \<^item> An \<^verbatim>\<open>int64\<close> is an \<^typ>\<open>int\<close>; additions that the code guards against overflow are written
    with \<open>add64\<close>, which wraps around as Go does.
  \<^item> A function that returns \<^verbatim>\<open>(T, error)\<close> returns a value of \<open>'a res\<close>: \<^const>\<open>Inl\<close> an error or
    \<^const>\<open>Inr\<close> a result, sequenced by \<open>rbind\<close>.
\<close>

named_theorems gomap_simps
named_theorems res_simps
named_theorems sys_defs

section \<open>Types\<close>

type_synonym bytes = string
type_synonym digest = string
type_synonym ('k, 'v) gomap = "('k \<times> 'v) list"
type_synonym time = int

text \<open>
  The errors of package \<^verbatim>\<open>capability\<close> that callers can tell apart: the sentinel errors, the
  classified package failure with its code and path, and any other error.  The text wrapped inside
  an error is left out.
\<close>

datatype error =
    PackageError (errCode: string) (errPath: string)
  | ErrRegistryClosed
  | ErrCapabilityNotFound
  | ErrOperationNotFound
  | ErrCapabilityDuplicate
  | ErrCatalogCursorInvalid
  | ErrCatalogCursorStale
  | ErrDescribeRequestInvalid
  | ErrDescribeCursorInvalid
  | ErrDescribeCursorStale
  | ErrServiceQuota
  | ErrServiceClosed
  | ErrReadRequestInvalid
  | ErrArtifactReferenceStale
  | ErrContinuationInvalid
  | ErrContinuationStale
  | ErrContinuationConflict
  | ErrHandleGeneration
  | ErrSearchQueryInvalid
  | ErrSearchQueryLimit
  | ErrSearchPathInvalid
  | ErrSearchPathLimit
  | ErrSearchLimitInvalid
  | ErrHierarchyPathNotFound
  | OtherError string

type_synonym 'a res = "error + 'a"

section \<open>Errors as values\<close>

fun rbind :: "('e + 'a) \<Rightarrow> ('a \<Rightarrow> 'e + 'b) \<Rightarrow> 'e + 'b" where
  "rbind (Inl e) f = Inl e"
| "rbind (Inr x) f = f x"

definition rfail_if :: "bool \<Rightarrow> 'e \<Rightarrow> 'e + unit" where
  "rfail_if b e = (if b then Inl e else Inr ())"

definition of_option :: "'e \<Rightarrow> 'a option \<Rightarrow> 'e + 'a" where
  "of_option e x = (case x of None \<Rightarrow> Inl e | Some y \<Rightarrow> Inr y)"

fun rmap :: "('a \<Rightarrow> 'e + 'b) \<Rightarrow> 'a list \<Rightarrow> 'e + 'b list" where
  "rmap f [] = Inr []"
| "rmap f (x # xs) = rbind (f x) (\<lambda>y. rbind (rmap f xs) (\<lambda>ys. Inr (y # ys)))"

lemma rbind_eq_Inr [res_simps]: "rbind m f = Inr y \<longleftrightarrow> (\<exists>x. m = Inr x \<and> f x = Inr y)"
  by (cases m) auto

lemma rbind_eq_Inl [res_simps]:
  "rbind m f = Inl e \<longleftrightarrow> m = Inl e \<or> (\<exists>x. m = Inr x \<and> f x = Inl e)"
  by (cases m) auto

lemma rfail_if_eq_Inr [res_simps]: "rfail_if b e = Inr u \<longleftrightarrow> \<not> b"
  by (simp add: rfail_if_def)

lemma rfail_if_eq_Inl [res_simps]: "rfail_if b e = Inl e' \<longleftrightarrow> b \<and> e' = e"
  by (auto simp: rfail_if_def)

lemma rbind_rfail_if [simp]: "rbind (rfail_if b e) f = (if b then Inl e else f ())"
  by (simp add: rfail_if_def)

lemma of_option_eq_Inr [res_simps]: "of_option e x = Inr y \<longleftrightarrow> x = Some y"
  by (simp add: of_option_def split: option.splits)

lemma rmap_Inr_length: "rmap f xs = Inr ys \<Longrightarrow> length ys = length xs"
  by (induction xs arbitrary: ys) (auto simp: res_simps)

lemma rmap_Inr_set: "rmap f xs = Inr ys \<Longrightarrow> y \<in> set ys \<Longrightarrow> \<exists>x \<in> set xs. f x = Inr y"
  by (induction xs arbitrary: ys) (auto simp: res_simps)

section \<open>Maps\<close>

abbreviation get :: "('k, 'v) gomap \<Rightarrow> 'k \<Rightarrow> 'v option" where
  "get m k \<equiv> map_of m k"

abbreviation put :: "'k \<Rightarrow> 'v \<Rightarrow> ('k, 'v) gomap \<Rightarrow> ('k, 'v) gomap" where
  "put \<equiv> AList.update"

abbreviation del :: "'k \<Rightarrow> ('k, 'v) gomap \<Rightarrow> ('k, 'v) gomap" where
  "del \<equiv> AList.delete"

definition keys :: "('k, 'v) gomap \<Rightarrow> 'k list" where
  "keys m = map fst m"

definition keys_ok :: "('k, 'v) gomap \<Rightarrow> bool" where
  "keys_ok m \<longleftrightarrow> distinct (map fst m)"

definition msum :: "('v \<Rightarrow> int) \<Rightarrow> ('k, 'v) gomap \<Rightarrow> int" where
  "msum f m = sum_list (map (\<lambda>(k, v). f v) m)"

text \<open>An address of a heap of \<^verbatim>\<open>nat\<close>-addressed structs that is not in use.\<close>

definition fresh :: "(nat, 'v) gomap \<Rightarrow> nat" where
  "fresh m = fold (\<lambda>(k, v) n. max (Suc k) n) m 0"

lemma get_put [gomap_simps]: "get (put k v m) k' = (if k' = k then Some v else get m k')"
  by (simp add: update_conv)

lemma get_del [gomap_simps]: "get (del k m) k' = (if k' = k then None else get m k')"
  by (simp add: delete_conv)

lemma keys_ok_Nil [simp]: "keys_ok []"
  by (simp add: keys_ok_def)

lemma keys_ok_put [gomap_simps, intro]: "keys_ok m \<Longrightarrow> keys_ok (put k v m)"
  by (simp add: keys_ok_def distinct_update)

lemma keys_ok_del [gomap_simps, intro]: "keys_ok m \<Longrightarrow> keys_ok (del k m)"
  by (simp add: keys_ok_def distinct_delete)

lemma keys_ok_get: "keys_ok m \<Longrightarrow> (k, v) \<in> set m \<longleftrightarrow> get m k = Some v"
  by (auto simp: keys_ok_def dest: map_of_SomeD)

lemma set_keys: "set (keys m) = dom (map_of m)"
  by (simp add: keys_def dom_map_of_conv_image_fst)

lemma msum_Nil [simp]: "msum f [] = 0"
  by (simp add: msum_def)

lemma msum_Cons [simp]: "msum f ((k, v) # m) = f v + msum f m"
  by (simp add: msum_def)

lemma del_notin: "get m k = None \<Longrightarrow> del k m = m"
  by (induction m) (auto split: if_splits)

lemma msum_del:
  "keys_ok m \<Longrightarrow> msum f (del k m) = msum f m - (case get m k of None \<Rightarrow> 0 | Some v \<Rightarrow> f v)"
proof (induction m)
  case (Cons p m)
  obtain k' v' where p: "p = (k', v')" by force
  show ?case
  proof (cases "k' = k")
    case True
    with Cons.prems p have "get m k = None"
      by (auto simp: keys_ok_def map_of_eq_None_iff)
    with True p show ?thesis by (simp add: del_notin)
  next
    case False
    with Cons p show ?thesis by (auto simp: keys_ok_def)
  qed
qed simp

lemma msum_put:
  "keys_ok m \<Longrightarrow> msum f (put k v m) = msum f m - (case get m k of None \<Rightarrow> 0 | Some w \<Rightarrow> f w) + f v"
proof (induction m)
  case (Cons p m)
  obtain k' v' where p: "p = (k', v')" by force
  with Cons show ?case by (auto simp: keys_ok_def)
qed simp

lemma msum_nonneg: "(\<And>k v. (k, v) \<in> set m \<Longrightarrow> 0 \<le> f v) \<Longrightarrow> 0 \<le> msum f m"
  unfolding msum_def by (rule sum_list_nonneg) auto

lemma msum_ge:
  assumes "get m k = Some v" and "\<And>k v. (k, v) \<in> set m \<Longrightarrow> 0 \<le> f v"
  shows "f v \<le> msum f m"
  using assms
proof (induction m)
  case (Cons p m)
  obtain k' v' where p: "p = (k', v')" by force
  have "0 \<le> f v'" and "0 \<le> msum f m"
    using Cons.prems(2) p by (auto intro!: msum_nonneg)
  with Cons p show ?case by (fastforce split: if_splits)
qed simp

lemma msum_cong: "(\<And>k v. (k, v) \<in> set m \<Longrightarrow> f v = g v) \<Longrightarrow> msum f m = msum g m"
  unfolding msum_def by (rule arg_cong [where f = sum_list]) auto

lemma msum_zero: "(\<And>k v. (k, v) \<in> set m \<Longrightarrow> f v = 0) \<Longrightarrow> msum f m = 0"
proof -
  assume "\<And>k v. (k, v) \<in> set m \<Longrightarrow> f v = 0"
  then have "map (\<lambda>(k, v). f v) m = map (\<lambda>_. 0) m" by auto
  then show ?thesis unfolding msum_def by (simp only: sum_list_0)
qed

lemma fresh_greater: "k \<in> fst ` set m \<or> k < n \<Longrightarrow> k < fold (\<lambda>(k, v) n. max (Suc k) n) m n"
proof (induction m arbitrary: n)
  case (Cons p m)
  have "k \<in> fst ` set m \<or> k < (case p of (k, v) \<Rightarrow> max (Suc k)) n"
    using Cons.prems by (cases p) auto
  then show ?case using Cons.IH by simp
qed simp

lemma get_fresh [simp]: "get m (fresh m) = None"
proof (rule ccontr)
  assume "get m (fresh m) \<noteq> None"
  then have "fresh m \<in> fst ` set m" by (auto simp: map_of_eq_None_iff)
  then have "fresh m < fresh m" unfolding fresh_def by (intro fresh_greater) simp
  then show False by simp
qed

section \<open>Signed 64-bit integers\<close>

definition max_int64 :: int where
  "max_int64 = 2 ^ 63 - 1"

definition wrap64 :: "int \<Rightarrow> int" where
  "wrap64 x = (x + 2 ^ 63) mod 2 ^ 64 - 2 ^ 63"

definition add64 :: "int \<Rightarrow> int \<Rightarrow> int" where
  "add64 a b = wrap64 (a + b)"

lemma wrap64_id: "- (2 ^ 63) \<le> x \<Longrightarrow> x < 2 ^ 63 \<Longrightarrow> wrap64 x = x"
  by (simp add: wrap64_def)

lemma wrap64_range: "- (2 ^ 63) \<le> wrap64 x \<and> wrap64 x < 2 ^ 63"
proof -
  have "0 \<le> (x + 2 ^ 63) mod 2 ^ 64" and "(x + 2 ^ 63) mod 2 ^ 64 < (2 ^ 64 :: int)"
    by simp_all
  then show ?thesis by (simp add: wrap64_def)
qed

lemma add64_id: "- (2 ^ 63) \<le> a + b \<Longrightarrow> a + b < 2 ^ 63 \<Longrightarrow> add64 a b = a + b"
  unfolding add64_def by (rule wrap64_id)

lemma add64_nonneg_id: "0 \<le> a \<Longrightarrow> 0 \<le> b \<Longrightarrow> a + b \<le> max_int64 \<Longrightarrow> add64 a b = a + b"
  by (rule add64_id) (auto simp: max_int64_def)

text \<open>Where the sum of two nonnegative values does not fit, the wrapped sum is below both.\<close>

lemma add64_overflow:
  assumes "0 \<le> a" "a \<le> max_int64" "0 \<le> b" "b \<le> max_int64" "max_int64 < a + b"
  shows "add64 a b < a"
proof -
  have "a + b + 2 ^ 63 = (a + b - 2 ^ 63) + 2 ^ 64" by simp
  then have "(a + b + 2 ^ 63) mod 2 ^ 64 = (a + b - 2 ^ 63) mod (2 ^ 64 :: int)"
    by (metis mod_add_self2)
  also have "\<dots> = a + b - 2 ^ 63"
    using assms by (intro mod_pos_pos_trivial) (auto simp: max_int64_def)
  finally show ?thesis
    using assms by (auto simp: add64_def wrap64_def max_int64_def)
qed

section \<open>Readers\<close>

text \<open>
  An \<^verbatim>\<open>io.Reader\<close> is the bytes it still delivers and the error, if any, that follows them.
  \<open>readAllLimited\<close> is \<^verbatim>\<open>io.ReadAll(io.LimitReader(r, n))\<close>: at most \<open>n\<close> bytes, and the reader's
  error only when the limit was not reached first.  \<open>readFull\<close> is \<^verbatim>\<open>io.ReadFull\<close>.
\<close>

type_synonym reader = "bytes \<times> error option"

definition readAllLimited :: "int \<Rightarrow> reader \<Rightarrow> bytes res" where
  "readAllLimited n r =
     (if int (length (fst r)) \<ge> n then Inr (take (nat n) (fst r))
      else case snd r of None \<Rightarrow> Inr (fst r) | Some e \<Rightarrow> Inl e)"

definition readFull :: "nat \<Rightarrow> bytes \<Rightarrow> (bytes \<times> bytes) res" where
  "readFull n src = (if length src < n then Inl (OtherError ''unexpected EOF'')
                     else Inr (take n src, drop n src))"

lemma readAllLimited_prefix: "readAllLimited n rd = Inr data \<Longrightarrow> take (length data) (fst rd) = data"
  by (auto simp: readAllLimited_def split: if_splits option.splits)

end
