(* ===== verification/Limits.thy ===== *)
theory Limits
  imports Prelude
begin

text \<open>
  The numeric limits of the package: \<^verbatim>\<open>internal/capability/limits.go\<close> and \<^verbatim>\<open>service_limits.go\<close>,
  with the two validators of configurable limits and \<^verbatim>\<open>minTime\<close>.  Times and durations are counted
  in nanoseconds.
\<close>

section \<open>Package limits\<close>

definition ManifestMaxBytes :: int where "ManifestMaxBytes = 1048576"
definition ManifestMaxDepth :: int where "ManifestMaxDepth = 64"
definition ManifestMaxNodes :: int where "ManifestMaxNodes = 16384"
definition SkillMaxBytes :: int where "SkillMaxBytes = 1048576"
definition SkillFrontmatterMax :: int where "SkillFrontmatterMax = 65536"
definition ArtifactMaxBytes :: int where "ArtifactMaxBytes = 4194304"
definition PackageArtifactMax :: int where "PackageArtifactMax = 67108864"
definition MaxSkills :: int where "MaxSkills = 32"
definition MaxSkillResources :: int where "MaxSkillResources = 128"
definition MaxResourcesPerSkill :: int where "MaxResourcesPerSkill = 32"
definition MaxOperations :: int where "MaxOperations = 128"
definition MaxContextReferences :: int where "MaxContextReferences = 128"
definition MaxProviders :: int where "MaxProviders = 32"
definition MaxStructureItemBytes :: int where "MaxStructureItemBytes = 4096"
definition MaxStructureBytes :: int where "MaxStructureBytes = 524288"
definition MaxCapabilityIDBytes :: int where "MaxCapabilityIDBytes = 128"
definition MaxNameBytes :: int where "MaxNameBytes = 128"
definition MaxVersionBytes :: int where "MaxVersionBytes = 64"
definition MaxDescriptionBytes :: int where "MaxDescriptionBytes = 1024"
definition MaxHierarchyPathBytes :: int where "MaxHierarchyPathBytes = 256"
definition MaxTags :: int where "MaxTags = 16"
definition MaxTagBytes :: int where "MaxTagBytes = 64"
definition MaxAllTagsBytes :: int where "MaxAllTagsBytes = 512"
definition MaxBaseCardBytes :: int where "MaxBaseCardBytes = 4096"
definition MaxSkillPathBytes :: int where "MaxSkillPathBytes = 512"
definition MaxSkillNameBytes :: int where "MaxSkillNameBytes = 128"
definition MaxSkillDescription :: int where "MaxSkillDescription = 1024"
definition MaxResourceIDBytes :: int where "MaxResourceIDBytes = 128"
definition MaxResourceKindBytes :: int where "MaxResourceKindBytes = 32"
definition MaxResourcePathBytes :: int where "MaxResourcePathBytes = 512"
definition MaxOperationIDBytes :: int where "MaxOperationIDBytes = 128"
definition MaxOperationDescription :: int where "MaxOperationDescription = 1024"
definition MaxProviderAliasBytes :: int where "MaxProviderAliasBytes = 128"
definition MaxOperationTargetBytes :: int where "MaxOperationTargetBytes = 256"
definition MaxContextIDBytes :: int where "MaxContextIDBytes = 128"
definition MaxContextPathBytes :: int where "MaxContextPathBytes = 512"
definition MaxProviderIDBytes :: int where "MaxProviderIDBytes = 128"
definition MaxProviderTypeBytes :: int where "MaxProviderTypeBytes = 32"
definition MaxServerRefBytes :: int where "MaxServerRefBytes = 256"

section \<open>Service limits\<close>

definition DescribeLimitMax :: int where "DescribeLimitMax = 100"
definition DescribeIncludeMaxBytes :: int where "DescribeIncludeMaxBytes = 64"
definition ReadChunkMax :: int where "ReadChunkMax = 65536"
definition BrokerResponseMaxBytes :: int where "BrokerResponseMaxBytes = 1048576"
definition OpaqueReferenceMaxBytes :: int where "OpaqueReferenceMaxBytes = 2048"
definition ReadAttemptMaxBytes :: int where "ReadAttemptMaxBytes = 128"
definition ReadReplayReservation :: int where "ReadReplayReservation = 131072"
definition ProjectionCountMax :: int where "ProjectionCountMax = 128"
definition ProjectionBytesMax :: int where "ProjectionBytesMax = 67108864"
definition ReadLeaseCountMax :: int where "ReadLeaseCountMax = 256"
definition PinnedArtifactBytesMax :: int where "PinnedArtifactBytesMax = 536870912"
definition ReplayBytesMax :: int where "ReplayBytesMax = 33554432"

definition minute :: time where "minute = 60000000000"
definition hour :: time where "hour = 3600000000000"

record ProjectionLimits =
  pl_MaxCount :: int
  pl_MaxBytes :: int
  pl_Idle :: time
  pl_Absolute :: time

definition DefaultProjectionLimits :: ProjectionLimits where
  "DefaultProjectionLimits =
     \<lparr>pl_MaxCount = ProjectionCountMax, pl_MaxBytes = ProjectionBytesMax,
      pl_Idle = 5 * minute, pl_Absolute = hour\<rparr>"

record ReadLeaseLimits =
  rl_MaxCount :: int
  rl_MaxPinnedBytes :: int
  rl_MaxReplayBytes :: int
  rl_Idle :: time
  rl_Absolute :: time
  rl_FinalReplay :: time

definition DefaultReadLeaseLimits :: ReadLeaseLimits where
  "DefaultReadLeaseLimits =
     \<lparr>rl_MaxCount = ReadLeaseCountMax, rl_MaxPinnedBytes = PinnedArtifactBytesMax,
      rl_MaxReplayBytes = ReplayBytesMax, rl_Idle = 5 * minute, rl_Absolute = hour,
      rl_FinalReplay = 5 * minute\<rparr>"

definition validateProjectionLimits :: "ProjectionLimits \<Rightarrow> unit res" where
  "validateProjectionLimits l =
     (if pl_MaxCount l \<le> 0 \<or> pl_MaxCount l > ProjectionCountMax \<or> pl_MaxBytes l \<le> 0 \<or> pl_MaxBytes l > ProjectionBytesMax
      then Inl (OtherError ''projection count or byte limit is outside the supported range'')
      else if pl_Idle l \<le> 0 \<or> pl_Absolute l < pl_Idle l \<or> pl_Absolute l > hour
      then Inl (OtherError ''projection lifetimes are invalid'')
      else Inr ())"

definition validateReadLeaseLimits :: "ReadLeaseLimits \<Rightarrow> unit res" where
  "validateReadLeaseLimits l =
     (if rl_MaxCount l \<le> 0 \<or> rl_MaxCount l > ReadLeaseCountMax \<or> rl_MaxPinnedBytes l \<le> 0 \<or>
         rl_MaxPinnedBytes l > PinnedArtifactBytesMax \<or> rl_MaxReplayBytes l \<le> 0 \<or> rl_MaxReplayBytes l > ReplayBytesMax
      then Inl (OtherError ''read lease count or byte limit is outside the supported range'')
      else if rl_Idle l \<le> 0 \<or> rl_Absolute l < rl_Idle l \<or> rl_Absolute l > hour \<or> rl_FinalReplay l \<le> 0 \<or>
         rl_FinalReplay l > 5 * minute
      then Inl (OtherError ''read lease lifetimes are invalid'')
      else Inr ())"

definition minTime :: "time \<Rightarrow> time \<Rightarrow> time" where
  "minTime first second = (if first < second then first else second)"

section \<open>The defaults are accepted\<close>

lemmas service_limit_defs =
  ProjectionCountMax_def ProjectionBytesMax_def ReadLeaseCountMax_def PinnedArtifactBytesMax_def
  ReplayBytesMax_def minute_def hour_def ReadReplayReservation_def ReadChunkMax_def
  OpaqueReferenceMaxBytes_def BrokerResponseMaxBytes_def ReadAttemptMaxBytes_def

lemma minTime_eq_min [simp]: "minTime a b = min a b"
  by (simp add: minTime_def min_def)

lemma DefaultProjectionLimits_ok: "validateProjectionLimits DefaultProjectionLimits = Inr ()"
  by (simp add: validateProjectionLimits_def DefaultProjectionLimits_def service_limit_defs)

lemma DefaultReadLeaseLimits_ok: "validateReadLeaseLimits DefaultReadLeaseLimits = Inr ()"
  by (simp add: validateReadLeaseLimits_def DefaultReadLeaseLimits_def service_limit_defs)

end
