(* ===== verification/Codec.thy ===== *)
theory Codec
  imports Prelude
begin

text \<open>
  The encodings of Go's standard library that the broker's opaque values pass through:
  \<^verbatim>\<open>hex.EncodeToString\<close>, \<^verbatim>\<open>base64.StdEncoding\<close> and \<^verbatim>\<open>base64.RawURLEncoding\<close>.  The decoder follows
  \<^verbatim>\<open>Encoding.DecodeString\<close> in its default (non-strict) mode: carriage returns and line feeds are
  skipped, any other foreign character is an error, a lone trailing character is an error and the
  unused low bits of the last character are ignored.
\<close>

section \<open>Definitions\<close>

definition byte_val :: "char \<Rightarrow> nat" where
  "byte_val c = of_char c"

definition byte_of :: "nat \<Rightarrow> char" where
  "byte_of n = char_of n"

definition hexDigits :: string where "hexDigits = ''0123456789abcdef''"

definition hexEncode :: "bytes \<Rightarrow> string" where
  "hexEncode bs = concat (map (\<lambda>b. [hexDigits ! (byte_val b div 16), hexDigits ! (byte_val b mod 16)]) bs)"

definition stdAlphabet :: string where
  "stdAlphabet = ''ABCDEFGHIJKLMNOPQRSTUVWXYZabcdefghijklmnopqrstuvwxyz0123456789+/''"

definition urlAlphabet :: string where
  "urlAlphabet = ''ABCDEFGHIJKLMNOPQRSTUVWXYZabcdefghijklmnopqrstuvwxyz0123456789-_''"

text \<open>Bytes to sextets, three bytes at a time; the last group may be short.\<close>

fun sextets :: "nat list \<Rightarrow> nat list" where
  "sextets [] = []"
| "sextets [a] = [a div 4, a mod 4 * 16]"
| "sextets [a, b] = [a div 4, a mod 4 * 16 + b div 16, b mod 16 * 4]"
| "sextets (a # b # c # r) =
     a div 4 # (a mod 4 * 16 + b div 16) # (b mod 16 * 4 + c div 64) # c mod 64 # sextets r"

fun unsextets :: "nat list \<Rightarrow> nat list option" where
  "unsextets [] = Some []"
| "unsextets [a] = None"
| "unsextets [a, b] = Some [a * 4 + b div 16]"
| "unsextets [a, b, c] = Some [a * 4 + b div 16, b mod 16 * 16 + c div 4]"
| "unsextets (a # b # c # d # r) =
     map_option (\<lambda>t. (a * 4 + b div 16) # (b mod 16 * 16 + c div 4) # (c mod 4 * 64 + d) # t) (unsextets r)"

fun index_of :: "char \<Rightarrow> string \<Rightarrow> nat option" where
  "index_of c [] = None"
| "index_of c (x # xs) = (if x = c then Some 0 else map_option Suc (index_of c xs))"

fun traverse :: "('a \<Rightarrow> 'b option) \<Rightarrow> 'a list \<Rightarrow> 'b list option" where
  "traverse f [] = Some []"
| "traverse f (x # xs) = (case f x of None \<Rightarrow> None | Some y \<Rightarrow> map_option (\<lambda>ys. y # ys) (traverse f xs))"

definition rawURLEncode :: "bytes \<Rightarrow> string" where
  "rawURLEncode bs = map (\<lambda>n. urlAlphabet ! n) (sextets (map byte_val bs))"

definition rawURLDecode :: "string \<Rightarrow> bytes option" where
  "rawURLDecode s =
     (case traverse (\<lambda>c. index_of c urlAlphabet) (filter (\<lambda>c. c \<noteq> CHR 0x0A \<and> c \<noteq> CHR 0x0D) s) of
        None \<Rightarrow> None
      | Some ns \<Rightarrow> map_option (map byte_of) (unsextets ns))"

definition stdEncode :: "bytes \<Rightarrow> string" where
  "stdEncode bs = map (\<lambda>n. stdAlphabet ! n) (sextets (map byte_val bs)) @
                  replicate ((3 - length bs mod 3) mod 3) (CHR ''='')"

section \<open>Round trips\<close>

lemma byte_val_less [simp]: "byte_val c < 256"
  unfolding byte_val_def by (metis of_char_mod_256 mod_less_divisor zero_less_numeral)

lemma byte_of_val [simp]: "byte_of (byte_val c) = c"
  by (simp add: byte_of_def byte_val_def)

lemma byte_val_inj: "byte_val a = byte_val b \<Longrightarrow> a = b"
  by (metis byte_of_val)

lemma length_stdAlphabet [simp]: "length stdAlphabet = 64"
  by (simp add: stdAlphabet_def)

lemma length_urlAlphabet [simp]: "length urlAlphabet = 64"
  by (simp add: urlAlphabet_def)

lemma distinct_urlAlphabet: "distinct urlAlphabet"
  by (simp add: urlAlphabet_def)

lemma index_of_nth: "distinct xs \<Longrightarrow> i < length xs \<Longrightarrow> index_of (xs ! i) xs = Some i"
proof (induction xs arbitrary: i)
  case (Cons x xs)
  then show ?case by (cases i) (auto simp: nth_mem)
qed simp

lemma index_of_Some: "index_of c xs = Some i \<Longrightarrow> i < length xs \<and> xs ! i = c"
  by (induction xs arbitrary: i) (auto split: if_splits)

lemma sextets_bound: "\<forall>b \<in> set bs. b < 256 \<Longrightarrow> \<forall>n \<in> set (sextets bs). n < 64"
proof (induction bs rule: sextets.induct)
  case (4 a b c r)
  then show ?case by auto
qed auto

lemma unsextets_sextets: "\<forall>b \<in> set bs. b < 256 \<Longrightarrow> unsextets (sextets bs) = Some bs"
proof (induction bs rule: sextets.induct)
  case (2 a)
  then show ?case by simp
next
  case (3 a b)
  then have "a div 4 * 4 + (a mod 4 * 16 + b div 16) div 16 = a" by auto
  moreover have "(a mod 4 * 16 + b div 16) mod 16 * 16 + b mod 16 * 4 div 4 = b" using "3" by auto
  ultimately show ?case by simp
next
  case (4 a b c r)
  have "a div 4 * 4 + (a mod 4 * 16 + b div 16) div 16 = a" using "4.prems" by auto
  moreover have "(a mod 4 * 16 + b div 16) mod 16 * 16 + (b mod 16 * 4 + c div 64) div 4 = b"
    using "4.prems" by auto
  moreover have "(b mod 16 * 4 + c div 64) mod 4 * 64 + c mod 64 = c" using "4.prems" by auto
  ultimately show ?case using "4" by simp
qed simp

lemma traverse_map: "(\<And>x. x \<in> set xs \<Longrightarrow> f (g x) = Some x) \<Longrightarrow> traverse f (map g xs) = Some xs"
  by (induction xs) auto

lemma filter_newlines_urlAlphabet:
  assumes "\<forall>n \<in> set ns. n < 64"
  shows "filter (\<lambda>c. c \<noteq> CHR 0x0A \<and> c \<noteq> CHR 0x0D) (map (\<lambda>n. urlAlphabet ! n) ns) = map (\<lambda>n. urlAlphabet ! n) ns"
proof -
  have "CHR 0x0A \<notin> set urlAlphabet" "CHR 0x0D \<notin> set urlAlphabet"
    by (simp_all add: urlAlphabet_def)
  then have "urlAlphabet ! n \<noteq> CHR 0x0A \<and> urlAlphabet ! n \<noteq> CHR 0x0D" if "n < 64" for n
    using that nth_mem [of n urlAlphabet] by (metis length_urlAlphabet)
  with assms show ?thesis by (auto simp: filter_id_conv)
qed

text \<open>Decoding an encoded value gives the value back: the law every opaque token rests on.\<close>

lemma rawURLDecode_Encode: "rawURLDecode (rawURLEncode bs) = Some bs"
proof -
  have b: "\<forall>b \<in> set (map byte_val bs). b < 256" by simp
  note n = sextets_bound [OF b]
  have "traverse (\<lambda>c. index_of c urlAlphabet) (map (\<lambda>n. urlAlphabet ! n) (sextets (map byte_val bs)))
          = Some (sextets (map byte_val bs))"
    using n by (intro traverse_map) (simp add: index_of_nth distinct_urlAlphabet)
  then show ?thesis
    using n b
    by (simp add: rawURLDecode_def rawURLEncode_def filter_newlines_urlAlphabet unsextets_sextets comp_def)
qed

lemma rawURLEncode_inj: "rawURLEncode a = rawURLEncode b \<longleftrightarrow> a = b"
  by (metis rawURLDecode_Encode option.inject)

lemma set_rawURLEncode: "set (rawURLEncode bs) \<subseteq> set urlAlphabet"
proof -
  have "\<forall>n \<in> set (sextets (map byte_val bs)). n < 64" by (intro sextets_bound) simp
  then show ?thesis by (auto simp: rawURLEncode_def intro!: nth_mem)
qed

lemma colon_notin_rawURLEncode: "CHR '':'' \<notin> set (rawURLEncode bs)"
proof -
  have "CHR '':'' \<notin> set urlAlphabet" by (simp add: urlAlphabet_def)
  with set_rawURLEncode show ?thesis by blast
qed

section \<open>Sizes and injectivity\<close>

lemma length_sextets: "length (sextets bs) = (4 * length bs + 2) div 3"
  by (induction bs rule: sextets.induct) auto

lemma length_rawURLEncode: "length (rawURLEncode bs) = (4 * length bs + 2) div 3"
  by (simp add: rawURLEncode_def length_sextets)

lemma length_sextets_padded:
  "length (sextets bs) + (3 - length bs mod 3) mod 3 = 4 * ((length bs + 2) div 3)"
proof (induction bs rule: sextets.induct)
  case (4 a b c r)
  have m: "(length r + 3) mod 3 = length r mod 3" by (rule mod_add_self2)
  have d: "(length r + 2 + 3) div 3 = Suc ((length r + 2) div 3)" by simp
  have l: "length (a # b # c # r) = length r + 3" by simp
  show ?case
    unfolding l m using "4" d by (simp add: add.commute)
qed simp_all

lemma length_stdEncode: "length (stdEncode bs) = 4 * ((length bs + 2) div 3)"
  using length_sextets_padded [of "map byte_val bs"] by (simp add: stdEncode_def)

lemma sextets_inj:
  "\<forall>b \<in> set a. b < 256 \<Longrightarrow> \<forall>b \<in> set b'. b < 256 \<Longrightarrow> sextets a = sextets b' \<Longrightarrow> a = b'"
  by (metis option.inject unsextets_sextets)

lemma hexEncode_Nil [simp]: "hexEncode [] = []"
  by (simp add: hexEncode_def)

lemma hexEncode_Cons [simp]:
  "hexEncode (b # bs) = hexDigits ! (byte_val b div 16) # hexDigits ! (byte_val b mod 16) # hexEncode bs"
  by (simp add: hexEncode_def)

lemma length_hexEncode: "length (hexEncode bs) = 2 * length bs"
  by (induction bs) auto

lemma hexDigits_inj: "i < 16 \<Longrightarrow> j < 16 \<Longrightarrow> hexDigits ! i = hexDigits ! j \<longleftrightarrow> i = j"
proof -
  assume "i < 16" "j < 16"
  moreover have "distinct hexDigits" and "length hexDigits = 16" by (simp_all add: hexDigits_def)
  ultimately show ?thesis using nth_eq_iff_index_eq by metis
qed

lemma hex_digits_byte:
  assumes "hexDigits ! (byte_val x div 16) = hexDigits ! (byte_val y div 16)"
    and "hexDigits ! (byte_val x mod 16) = hexDigits ! (byte_val y mod 16)"
  shows "x = y"
proof -
  have "byte_val x div 16 < 16" "byte_val y div 16 < 16"
    using byte_val_less [of x] byte_val_less [of y] by linarith+
  with assms have "byte_val x div 16 = byte_val y div 16" and "byte_val x mod 16 = byte_val y mod 16"
    by (simp_all add: hexDigits_inj)
  then have "byte_val x = byte_val y" by (metis div_mult_mod_eq)
  then show ?thesis by (rule byte_val_inj)
qed

lemma hexEncode_inj: "hexEncode a = hexEncode b \<longleftrightarrow> a = b"
proof (induction a arbitrary: b)
  case Nil
  then show ?case by (cases b) auto
next
  case (Cons x a)
  then show ?case by (cases b) (auto dest: hex_digits_byte)
qed

end
