(* ===== verification/Snapshot.thy ===== *)
theory Snapshot
  imports Limits Codec
begin

text \<open>
  The content-addressed snapshot store, \<^verbatim>\<open>internal/capability/snapshot.go\<close>.  A staging transaction
  reserves quota, copies artifact bytes and either aborts or commits them into reference-counted
  immutable objects keyed by their SHA-256 digest.  Snapshots (one per package generation) and
  artifact leases (one per open read) each hold references; an object disappears when the last
  reference is released.

  SHA-256 is the parameter \<open>sha256\<close>.  The mutexed store, the open transactions, the snapshots and
  the leases live at addresses of a \<open>snapshot_system\<close>; each operation that takes the store's mutex is
  one atomic function on it.
\<close>

section \<open>The store and its objects\<close>

record StoreLimits =
  StagingBytes :: int
  SnapshotBytes :: int

definition DefaultStoreLimits :: StoreLimits where
  "DefaultStoreLimits = \<lparr>StagingBytes = 268435456, SnapshotBytes = 1073741824\<rparr>"

record snapshotObject =
  ob_data :: bytes
  ob_refs :: int

record SnapshotStore =
  st_limits :: StoreLimits
  st_stagingReserved :: int
  st_snapshotReserved :: int
  st_snapshotUsed :: int
  st_objects :: "(digest, snapshotObject) gomap"

record stagedArtifact =
  sa_data :: bytes
  sa_digest :: digest

record stagingTransaction =
  tx_reserved :: int
  tx_artifacts :: "(string, stagedArtifact) gomap"
  tx_closed :: bool
  tx_packageSize :: int

text \<open>The \<^verbatim>\<open>sync.Once\<close> of a snapshot or a lease is the flag that says whether it has run.\<close>

record Snapshot =
  sn_digests :: "(string, digest) gomap"
  sn_once :: bool

record artifactLease =
  al_digest :: digest
  al_once :: bool

definition NewSnapshotStore :: "StoreLimits \<Rightarrow> SnapshotStore res" where
  "NewSnapshotStore l =
     (if StagingBytes l \<le> 0 \<or> SnapshotBytes l \<le> 0
      then Inl (OtherError ''snapshot store limits must be positive'')
      else Inr \<lparr>st_limits = l, st_stagingReserved = 0, st_snapshotReserved = 0, st_snapshotUsed = 0,
                st_objects = []\<rparr>)"

section \<open>Staging transactions\<close>

definition begin_transaction :: stagingTransaction where
  "begin_transaction = \<lparr>tx_reserved = 0, tx_artifacts = [], tx_closed = False, tx_packageSize = 0\<rparr>"

definition reserve :: "int \<Rightarrow> SnapshotStore \<Rightarrow> stagingTransaction \<Rightarrow> (SnapshotStore \<times> stagingTransaction) res" where
  "reserve sz st t =
     (if sz < 0 then Inl (OtherError ''negative artifact size'')
      else if add64 (tx_packageSize t) sz > PackageArtifactMax
      then Inl (OtherError ''package artifacts exceed limit'')
      else if add64 (st_stagingReserved st) sz > StagingBytes (st_limits st)
      then Inl (OtherError ''staging quota exhausted'')
      else if add64 (add64 (st_snapshotUsed st) (st_snapshotReserved st)) sz > SnapshotBytes (st_limits st)
      then Inl (OtherError ''snapshot quota exhausted'')
      else Inr (st\<lparr>st_stagingReserved := add64 (st_stagingReserved st) sz,
                   st_snapshotReserved := add64 (st_snapshotReserved st) sz\<rparr>,
                t\<lparr>tx_reserved := add64 (tx_reserved t) sz,
                  tx_packageSize := add64 (tx_packageSize t) sz\<rparr>))"

definition stageReserved ::
  "(bytes \<Rightarrow> digest) \<Rightarrow> string \<Rightarrow> reader \<Rightarrow> int \<Rightarrow> int \<Rightarrow> stagingTransaction \<Rightarrow> stagingTransaction res" where
  "stageReserved sha256 name rd declaredSize maximum t =
     (if tx_closed t then Inl (OtherError ''staging transaction is closed'')
      else if declaredSize < 0 \<or> declaredSize > maximum
      then Inl (OtherError ''declared artifact size exceeds limit'')
      else if get (tx_artifacts t) name \<noteq> None
      then Inl (OtherError ''artifact path is staged more than once'')
      else rbind (readAllLimited (add64 declaredSize 1) rd) (\<lambda>data.
        if int (length data) \<noteq> declaredSize
        then (if int (length data) > declaredSize
              then Inl (OtherError ''artifact grew beyond its reservation'')
              else Inl (OtherError ''artifact changed size during staging''))
        else if int (length data) > maximum then Inl (OtherError ''artifact exceeds limit'')
        else Inr (t\<lparr>tx_artifacts := put name \<lparr>sa_data = data, sa_digest = sha256 data\<rparr> (tx_artifacts t)\<rparr>)))"

definition transaction_bytes :: "string \<Rightarrow> stagingTransaction \<Rightarrow> bytes option" where
  "transaction_bytes name t = map_option sa_data (get (tx_artifacts t) name)"

text \<open>\<^verbatim>\<open>abort\<close> clears and deletes every staged artifact.\<close>

definition abort_transaction :: "SnapshotStore \<Rightarrow> stagingTransaction \<Rightarrow> SnapshotStore \<times> stagingTransaction" where
  "abort_transaction st t =
     (if tx_closed t then (st, t)
      else (st\<lparr>st_stagingReserved := st_stagingReserved st - tx_reserved t,
               st_snapshotReserved := st_snapshotReserved st - tx_reserved t\<rparr>,
            t\<lparr>tx_closed := True, tx_artifacts := []\<rparr>))"

section \<open>Commit\<close>

fun commit_new_bytes :: "(digest, snapshotObject) gomap \<Rightarrow> (string \<times> stagedArtifact) list \<Rightarrow> int" where
  "commit_new_bytes objs [] = 0"
| "commit_new_bytes objs ((name, a) # as) =
     (if get objs (sa_digest a) = None then int (length (sa_data a)) else 0) + commit_new_bytes objs as"

text \<open>\<^verbatim>\<open>clear(data)\<close> overwrites the bytes with zeros.\<close>

definition clear_bytes :: "bytes \<Rightarrow> bytes" where
  "clear_bytes d = replicate (length d) (CHR 0x00)"

definition retain_object :: "digest \<Rightarrow> bytes \<Rightarrow> SnapshotStore \<Rightarrow> SnapshotStore" where
  "retain_object d data st =
     (case get (st_objects st) d of
        None \<Rightarrow> st\<lparr>st_objects := put d \<lparr>ob_data = data, ob_refs = 1\<rparr> (st_objects st),
                   st_snapshotUsed := st_snapshotUsed st + int (length data)\<rparr>
      | Some ob \<Rightarrow> st\<lparr>st_objects := put d (ob\<lparr>ob_refs := ob_refs ob + 1\<rparr>) (st_objects st)\<rparr>)"

fun commit_objects ::
  "(string \<times> stagedArtifact) list \<Rightarrow> SnapshotStore \<Rightarrow> SnapshotStore \<times> (string \<times> stagedArtifact) list" where
  "commit_objects [] st = (st, [])"
| "commit_objects ((name, a) # as) st =
     (let a' = (if get (st_objects st) (sa_digest a) = None then a
                else a\<lparr>sa_data := clear_bytes (sa_data a)\<rparr>);
          (st', as') = commit_objects as (retain_object (sa_digest a) (sa_data a) st)
      in (st', (name, a') # as'))"

definition commit :: "SnapshotStore \<Rightarrow> stagingTransaction \<Rightarrow> Snapshot res \<times> SnapshotStore \<times> stagingTransaction" where
  "commit st t =
     (if tx_closed t then (Inl (OtherError ''staging transaction is closed''), st, t)
      else let t' = t\<lparr>tx_closed := True\<rparr>;
               unreserved = (\<lambda>s. s\<lparr>st_stagingReserved := st_stagingReserved s - tx_reserved t,
                                   st_snapshotReserved := st_snapshotReserved s - tx_reserved t\<rparr>)
           in if st_snapshotUsed st + commit_new_bytes (st_objects st) (tx_artifacts t) > SnapshotBytes (st_limits st)
              then (Inl (OtherError ''snapshot quota exhausted at commit''), unreserved st, t')
              else let (st', arts) = commit_objects (tx_artifacts t) st
                   in (Inr \<lparr>sn_digests = map (\<lambda>(name, a). (name, sa_digest a)) (tx_artifacts t), sn_once = False\<rparr>,
                       unreserved st', t'\<lparr>tx_artifacts := arts\<rparr>))"

section \<open>Reading, leasing and releasing\<close>

definition snapshot_Read :: "SnapshotStore \<Rightarrow> Snapshot \<Rightarrow> string \<Rightarrow> bytes option" where
  "snapshot_Read st s name =
     (case get (sn_digests s) name of None \<Rightarrow> None
      | Some d \<Rightarrow> map_option ob_data (get (st_objects st) d))"

definition acquireArtifact ::
  "SnapshotStore \<Rightarrow> Snapshot \<Rightarrow> string \<Rightarrow> int \<Rightarrow> string \<Rightarrow> (SnapshotStore \<times> artifactLease) option" where
  "acquireArtifact st s name expectedBytes expectedSHA256 =
     (case get (sn_digests s) name of None \<Rightarrow> None
      | Some d \<Rightarrow>
        (case get (st_objects st) d of None \<Rightarrow> None
         | Some ob \<Rightarrow>
           if int (length (ob_data ob)) \<noteq> expectedBytes \<or> hexEncode d \<noteq> expectedSHA256 then None
           else Some (st\<lparr>st_objects := put d (ob\<lparr>ob_refs := ob_refs ob + 1\<rparr>) (st_objects st)\<rparr>,
                      \<lparr>al_digest = d, al_once = False\<rparr>)))"

definition readRange :: "SnapshotStore \<Rightarrow> artifactLease \<Rightarrow> int \<Rightarrow> int \<Rightarrow> bytes option" where
  "readRange st l offset maxBytes =
     (if offset < 0 \<or> maxBytes < 0 then None
      else case get (st_objects st) (al_digest l) of None \<Rightarrow> None
      | Some ob \<Rightarrow>
        if offset > int (length (ob_data ob)) then None
        else let e = add64 offset maxBytes;
                 stop = (if e < offset \<or> e > int (length (ob_data ob)) then int (length (ob_data ob)) else e)
             in Some (take (nat (stop - offset)) (drop (nat offset) (ob_data ob))))"

text \<open>
  The body that \<^verbatim>\<open>artifactLease.release\<close> runs once and \<^verbatim>\<open>Snapshot.release\<close> runs for every digest.
\<close>

definition release_object :: "digest \<Rightarrow> SnapshotStore \<Rightarrow> SnapshotStore" where
  "release_object d st =
     (case get (st_objects st) d of None \<Rightarrow> st
      | Some ob \<Rightarrow>
        if ob_refs ob - 1 = 0
        then st\<lparr>st_snapshotUsed := st_snapshotUsed st - int (length (ob_data ob)),
                st_objects := del d (st_objects st)\<rparr>
        else st\<lparr>st_objects := put d (ob\<lparr>ob_refs := ob_refs ob - 1\<rparr>) (st_objects st)\<rparr>)"

definition lease_release :: "SnapshotStore \<Rightarrow> artifactLease \<Rightarrow> SnapshotStore \<times> artifactLease" where
  "lease_release st l =
     (if al_once l then (st, l) else (release_object (al_digest l) st, l\<lparr>al_once := True\<rparr>))"

definition snapshot_release :: "SnapshotStore \<Rightarrow> Snapshot \<Rightarrow> SnapshotStore \<times> Snapshot" where
  "snapshot_release st s =
     (if sn_once s then (st, s)
      else (fold release_object (map snd (sn_digests s)) st, s\<lparr>sn_once := True\<rparr>))"

record StoreStats =
  ss_StagingReserved :: int
  ss_SnapshotReserved :: int
  ss_SnapshotUsed :: int
  ss_Objects :: int

definition store_Stats :: "SnapshotStore \<Rightarrow> StoreStats" where
  "store_Stats st = \<lparr>ss_StagingReserved = st_stagingReserved st, ss_SnapshotReserved = st_snapshotReserved st,
                     ss_SnapshotUsed = st_snapshotUsed st, ss_Objects = int (length (st_objects st))\<rparr>"

section \<open>Reference counts\<close>

text \<open>
  \<open>store_ok sha256 R st\<close> says that the object table is exactly the table of the digests with a
  positive reference count \<open>R\<close>, that every object holds bytes of its digest, and that
  \<^verbatim>\<open>snapshotUsed\<close> is the number of bytes held.
\<close>

definition store_ok :: "(bytes \<Rightarrow> digest) \<Rightarrow> (digest \<Rightarrow> int) \<Rightarrow> SnapshotStore \<Rightarrow> bool" where
  "store_ok sha256 R st \<longleftrightarrow>
     keys_ok (st_objects st) \<and>
     (\<forall>d. 0 \<le> R d) \<and>
     (\<forall>d. get (st_objects st) d = None \<longleftrightarrow> R d = 0) \<and>
     (\<forall>d ob. get (st_objects st) d = Some ob \<longrightarrow> ob_refs ob = R d \<and> sha256 (ob_data ob) = d) \<and>
     st_snapshotUsed st = msum (\<lambda>ob. int (length (ob_data ob))) (st_objects st)"

lemma store_ok_object:
  "store_ok sha256 R st \<Longrightarrow> 0 < R d \<Longrightarrow>
     \<exists>ob. get (st_objects st) d = Some ob \<and> ob_refs ob = R d \<and> sha256 (ob_data ob) = d"
  unfolding store_ok_def by (metis less_irrefl not_None_eq)

lemma store_ok_used_nonneg: "store_ok sha256 R st \<Longrightarrow> 0 \<le> st_snapshotUsed st"
  by (auto simp: store_ok_def intro!: msum_nonneg)

lemma release_object_ok:
  assumes ok: "store_ok sha256 R st" and pos: "0 < R d"
  shows "store_ok sha256 (R(d := R d - 1)) (release_object d st)"
proof -
  obtain ob where ob: "get (st_objects st) d = Some ob" "ob_refs ob = R d"
    using store_ok_object [OF assms] by blast
  show ?thesis
    using assms ob
    by (auto simp: store_ok_def release_object_def msum_del msum_put gomap_simps)
qed

lemma retain_object_ok:
  assumes ok: "store_ok sha256 R st" and h: "sha256 data = d"
  shows "store_ok sha256 (R(d := R d + 1)) (retain_object d data st)"
proof (cases "get (st_objects st) d")
  case None
  then have eq: "retain_object d data st =
      st\<lparr>st_objects := put d \<lparr>ob_data = data, ob_refs = 1\<rparr> (st_objects st),
         st_snapshotUsed := st_snapshotUsed st + int (length data)\<rparr>"
    by (simp add: retain_object_def)
  have "R d = 0" and "keys_ok (st_objects st)" using ok None by (simp_all add: store_ok_def)
  moreover from this(2) None have "msum f (put d ob (st_objects st)) = msum f (st_objects st) + f ob" for f ob
    by (simp add: msum_put)
  ultimately show ?thesis
    using ok h unfolding eq store_ok_def by (auto simp: gomap_simps)
next
  case (Some ob)
  then have eq: "retain_object d data st =
      st\<lparr>st_objects := put d (ob\<lparr>ob_refs := ob_refs ob + 1\<rparr>) (st_objects st)\<rparr>"
    by (simp add: retain_object_def)
  have "0 \<le> R d" and "ob_refs ob = R d" and "sha256 (ob_data ob) = d"
    using ok Some by (simp_all add: store_ok_def)
  moreover from this have "R d + 1 \<noteq> 0" by linarith
  ultimately show ?thesis using ok Some
    unfolding eq store_ok_def by (auto simp: msum_put gomap_simps)
qed

lemma release_objects_ok:
  assumes "store_ok sha256 R st" and "\<And>d. int (count_list ds d) \<le> R d"
  shows "store_ok sha256 (\<lambda>d. R d - int (count_list ds d)) (fold release_object ds st)"
  using assms
proof (induction ds arbitrary: R st)
  case (Cons x ds)
  have "0 < R x" using Cons.prems(2) [of x] by simp
  then have "store_ok sha256 (R(x := R x - 1)) (release_object x st)"
    by (rule release_object_ok [OF Cons.prems(1)])
  moreover have "int (count_list ds d) \<le> (R(x := R x - 1)) d" for d
    using Cons.prems(2) [of d] by (auto split: if_splits)
  ultimately have "store_ok sha256 (\<lambda>d. (R(x := R x - 1)) d - int (count_list ds d))
      (fold release_object ds (release_object x st))"
    by (rule Cons.IH)
  moreover have "(\<lambda>d. (R(x := R x - 1)) d - int (count_list ds d)) = (\<lambda>d. R d - int (count_list (x # ds) d))"
    by auto
  ultimately show ?case by (metis fold_simps(2))
qed simp

lemma commit_objects_ok:
  assumes "store_ok sha256 R st" and "\<And>n a. (n, a) \<in> set as \<Longrightarrow> sha256 (sa_data a) = sa_digest a"
  shows "store_ok sha256 (\<lambda>d. R d + int (count_list (map (sa_digest \<circ> snd) as) d)) (fst (commit_objects as st))"
  using assms
proof (induction as arbitrary: R st)
  case (Cons p as)
  obtain n a where p: "p = (n, a)" by force
  let ?R = "R(sa_digest a := R (sa_digest a) + 1)"
  have "store_ok sha256 ?R (retain_object (sa_digest a) (sa_data a) st)"
    by (rule retain_object_ok [OF Cons.prems(1)], rule Cons.prems(2) [of n]) (simp add: p)
  then have "store_ok sha256 (\<lambda>d. ?R d + int (count_list (map (sa_digest \<circ> snd) as) d))
      (fst (commit_objects as (retain_object (sa_digest a) (sa_data a) st)))"
    by (rule Cons.IH) (meson Cons.prems(2) list.set_intros(2))
  moreover have "(\<lambda>d. ?R d + int (count_list (map (sa_digest \<circ> snd) as) d))
      = (\<lambda>d. R d + int (count_list (map (sa_digest \<circ> snd) (p # as)) d))"
    by (auto simp: p)
  ultimately show ?case
    by (simp add: p case_prod_beta comp_def)
qed simp

lemma acquireArtifact_ok:
  assumes "store_ok sha256 R st" and "acquireArtifact st s name b h = Some (st', l)"
  shows "store_ok sha256 (R(al_digest l := R (al_digest l) + 1)) st' \<and> al_once l = False \<and>
         get (sn_digests s) name = Some (al_digest l)"
proof -
  obtain d ob where d: "get (sn_digests s) name = Some d" "get (st_objects st) d = Some ob"
    "st' = st\<lparr>st_objects := put d (ob\<lparr>ob_refs := ob_refs ob + 1\<rparr>) (st_objects st)\<rparr>"
    "l = \<lparr>al_digest = d, al_once = False\<rparr>"
    using assms(2) by (auto simp: acquireArtifact_def split: option.splits if_splits)
  then have "st' = retain_object d (ob_data ob) st" by (simp add: retain_object_def)
  moreover have "sha256 (ob_data ob) = d" using assms(1) d by (simp add: store_ok_def)
  ultimately show ?thesis
    using retain_object_ok [OF assms(1), of "ob_data ob" d] d by simp
qed

end
