(* ===== verification/Interfaces.thy ===== *)
theory Interfaces
  imports Prelude
begin

text \<open>
  The contracts between components, as locales.  \<open>artifact_leases\<close> is what the read service relies on
  when it holds a lease on immutable bytes; it is interpreted on the snapshot system in theory
  \<^verbatim>\<open>Store_System\<close>.  \<open>pager\<close> is what a client relies on that follows cursors; it is interpreted on the pages
  of a description in \<^verbatim>\<open>Describe_Props\<close> and on the children of a catalog path in \<^verbatim>\<open>Catalog_Props\<close>.
\<close>

section \<open>Leases on immutable bytes\<close>

locale artifact_leases =
  fixes inv :: "'s \<Rightarrow> bool"
    and step :: "'s \<Rightarrow> 's \<Rightarrow> bool"
    and live :: "'s \<Rightarrow> nat \<Rightarrow> bool"
    and content :: "'s \<Rightarrow> nat \<Rightarrow> bytes"
    and read :: "'s \<Rightarrow> nat \<Rightarrow> int \<Rightarrow> int \<Rightarrow> bytes option"
  assumes step_inv: "inv s \<Longrightarrow> step s s' \<Longrightarrow> inv s'"
    and step_content: "inv s \<Longrightarrow> step s s' \<Longrightarrow> live s l \<Longrightarrow> live s' l \<Longrightarrow> content s' l = content s l"
    and read_spec: "inv s \<Longrightarrow> live s l \<Longrightarrow> 0 \<le> off \<Longrightarrow> off \<le> int (length (content s l)) \<Longrightarrow>
        0 \<le> mx \<Longrightarrow> mx \<le> max_int64 \<Longrightarrow>
        read s l off mx = Some (take (nat mx) (drop (nat off) (content s l)))"
begin

text \<open>A run of steps by anyone, during all of which the lease stays live.\<close>

inductive keeps :: "nat \<Rightarrow> 's \<Rightarrow> 's \<Rightarrow> bool" for l where
  keeps_refl: "live s l \<Longrightarrow> keeps l s s"
| keeps_step: "keeps l s s' \<Longrightarrow> step s' s'' \<Longrightarrow> live s'' l \<Longrightarrow> keeps l s s''"

lemma keeps_content:
  "keeps l s s' \<Longrightarrow> inv s \<Longrightarrow> inv s' \<and> live s' l \<and> content s' l = content s l"
  by (induction rule: keeps.induct) (auto simp: step_content intro: step_inv)

text \<open>Consecutive reads, each in the state that the other users of the store have reached by then.\<close>

fun reads :: "nat \<Rightarrow> int \<Rightarrow> ('s \<times> int) list \<Rightarrow> bytes option" where
  "reads l off [] = Some []"
| "reads l off ((s, mx) # rest) =
     (case read s l off mx of None \<Rightarrow> None
      | Some c \<Rightarrow> map_option ((@) c) (reads l (off + int (length c)) rest))"

lemma reads_content:
  assumes inv: "inv s0"
    and ok: "\<forall>r \<in> set rs. keeps l s0 (fst r) \<and> 0 \<le> snd r \<and> snd r \<le> max_int64"
    and off: "0 \<le> off" "off \<le> int (length (content s0 l))"
  shows "reads l off rs = Some (take (nat (sum_list (map snd rs))) (drop (nat off) (content s0 l)))"
  using ok off
proof (induction rs arbitrary: off)
  case (Cons p rs)
  obtain s mx where p: "p = (s, mx)" by force
  have k: "keeps l s0 s" and mx: "0 \<le> mx" "mx \<le> max_int64"
    using Cons.prems(1) p by auto
  have s: "inv s \<and> live s l \<and> content s l = content s0 l" using k inv by (rule keeps_content)
  let ?c = "take (nat mx) (drop (nat off) (content s0 l))"
  let ?n = "sum_list (map snd rs)"
  have n: "0 \<le> ?n" using Cons.prems(1) by (intro sum_list_nonneg) auto
  have "read s l off mx = Some ?c"
    using read_spec [of s l off mx] s Cons.prems mx by auto
  moreover have "reads l (off + int (length ?c)) rs =
      Some (take (nat ?n) (drop (nat (off + int (length ?c))) (content s0 l)))"
    using Cons.prems by (intro Cons.IH) auto
  moreover have "drop (nat (off + int (length ?c))) (content s0 l) = drop (nat mx) (drop (nat off) (content s0 l))"
    using Cons.prems(2,3) mx by (simp add: nat_add_distrib min_def add.commute)
  moreover have "nat (mx + ?n) = nat mx + nat ?n" using mx n by (simp add: nat_add_distrib)
  ultimately show ?case by (simp add: p take_add)
qed simp

lemma reads_all:
  assumes "inv s0" and "\<forall>r \<in> set rs. keeps l s0 (fst r) \<and> 0 \<le> snd r \<and> snd r \<le> max_int64"
    and "int (length (content s0 l)) \<le> sum_list (map snd rs)"
  shows "reads l 0 rs = Some (content s0 l)"
  using reads_content [OF assms(1,2), where off = 0] assms(3) by simp

end

section \<open>Paging\<close>

text \<open>
  \<open>served s p off c\<close>: in state \<open>s\<close> the cursor \<open>c\<close> stands for the items of \<open>p\<close> from \<open>off\<close> on.  \<open>page\<close> is a successful
  request with a cursor, \<open>other\<close> any step of anyone else.  A page is a nonempty window that ends where its next
  cursor starts, and only the last page has no cursor.
\<close>

locale pager =
  fixes items :: "'p \<Rightarrow> 'i list"
    and page_items :: "'r \<Rightarrow> 'i list"
    and next_cursor :: "'r \<Rightarrow> 'c option"
    and served :: "'s \<Rightarrow> 'p \<Rightarrow> nat \<Rightarrow> 'c \<Rightarrow> bool"
    and page :: "'c \<Rightarrow> 's \<Rightarrow> 'r \<Rightarrow> 's \<Rightarrow> bool"
    and other :: "'s \<Rightarrow> 's \<Rightarrow> bool"
  assumes page_law: "served s p off c \<Longrightarrow> page c s r s' \<Longrightarrow>
      \<exists>n. 0 < n \<and> off + n \<le> length (items p) \<and> page_items r = take n (drop off (items p)) \<and>
        (case next_cursor r of None \<Rightarrow> off + n = length (items p)
         | Some c' \<Rightarrow> off + n < length (items p) \<and> served s' p (off + n) c')"
    and other_law: "served s p off c \<Longrightarrow> other s s' \<Longrightarrow> served s' p off c"
begin

text \<open>A client that follows the cursors to the end, between the steps of others.\<close>

inductive walk :: "'s \<Rightarrow> 'c option \<Rightarrow> 'r list \<Rightarrow> 's \<Rightarrow> bool" where
  walk_done: "walk s None [] s"
| walk_page: "page c s r s1 \<Longrightarrow> walk s1 (next_cursor r) rs s' \<Longrightarrow> walk s (Some c) (r # rs) s'"
| walk_other: "other s s1 \<Longrightarrow> walk s1 c rs s' \<Longrightarrow> walk s c rs s'"

lemma walk_None: "walk s c rs s' \<Longrightarrow> c = None \<Longrightarrow> rs = []"
  by (induction rule: walk.induct) auto

lemma walk_items:
  "walk s c rs s' \<Longrightarrow> c = Some t \<Longrightarrow> served s p off t \<Longrightarrow>
    concat (map page_items rs) = drop off (items p) \<and> length rs \<le> length (items p) - off"
proof (induction arbitrary: t off rule: walk.induct)
  case (walk_page c s r s1 rs s')
  obtain n where n: "0 < n" "off + n \<le> length (items p)" "page_items r = take n (drop off (items p))"
    "case next_cursor r of None \<Rightarrow> off + n = length (items p)
     | Some c' \<Rightarrow> off + n < length (items p) \<and> served s1 p (off + n) c'"
    using page_law [OF walk_page.prems(2)] walk_page.hyps(1) walk_page.prems(1) by blast
  show ?case
  proof (cases "next_cursor r")
    case None
    then have "rs = []" using walk_None [OF walk_page.hyps(2)] by blast
    then show ?thesis using n None by simp
  next
    case (Some c')
    then have IH: "concat (map page_items rs) = drop (off + n) (items p) \<and> length rs \<le> length (items p) - (off + n)"
      using walk_page.IH n(4) by simp
    have "drop off (items p) = take n (drop off (items p)) @ drop (off + n) (items p)"
      using append_take_drop_id [of n "drop off (items p)"] by (simp add: add.commute)
    moreover have "Suc (length rs) \<le> length (items p) - off" using IH n(1,2) by linarith
    ultimately show ?thesis using IH n(3) by simp
  qed
qed (auto dest: other_law)

end

end
