(* ===== verification/Store_System.thy ===== *)
theory Store_System
  imports Snapshot Interfaces
begin

text \<open>
  The snapshot store together with everything that points into it: open transactions, snapshots and
  artifact leases, each at an address.  The step relation \<open>sys_step\<close> interleaves the atomic
  operations of \<^verbatim>\<open>snapshot.go\<close> in any order, and \<open>sys_inv\<close> is shown to hold in every reachable
  state: the quotas are respected, every reserved byte belongs to an open transaction, and the
  reference count of every object is the number of references that live snapshots and leases hold.
\<close>

section \<open>State and operations\<close>

record snapshot_system =
  sys_store :: SnapshotStore
  sys_txns :: "(nat, stagingTransaction) gomap"
  sys_snaps :: "(nat, Snapshot) gomap"
  sys_leases :: "(nat, artifactLease) gomap"

definition sys_init :: "SnapshotStore \<Rightarrow> snapshot_system" where
  "sys_init st = \<lparr>sys_store = st, sys_txns = [], sys_snaps = [], sys_leases = []\<rparr>"

definition sys_begin :: "snapshot_system \<Rightarrow> snapshot_system \<times> nat" where
  "sys_begin s = (let a = fresh (sys_txns s) in (s\<lparr>sys_txns := put a begin_transaction (sys_txns s)\<rparr>, a))"

definition sys_reserve :: "nat \<Rightarrow> int \<Rightarrow> snapshot_system \<Rightarrow> snapshot_system res" where
  "sys_reserve a sz s =
     rbind (of_option (OtherError ''nil transaction'') (get (sys_txns s) a)) (\<lambda>t.
     rbind (reserve sz (sys_store s) t) (\<lambda>(st, t').
       Inr (s\<lparr>sys_store := st, sys_txns := put a t' (sys_txns s)\<rparr>)))"

definition sys_stage ::
  "(bytes \<Rightarrow> digest) \<Rightarrow> nat \<Rightarrow> string \<Rightarrow> reader \<Rightarrow> int \<Rightarrow> int \<Rightarrow> snapshot_system \<Rightarrow> snapshot_system res" where
  "sys_stage sha256 a name rd declaredSize maximum s =
     rbind (of_option (OtherError ''nil transaction'') (get (sys_txns s) a)) (\<lambda>t.
     rbind (stageReserved sha256 name rd declaredSize maximum t) (\<lambda>t'.
       Inr (s\<lparr>sys_txns := put a t' (sys_txns s)\<rparr>)))"

definition sys_abort :: "nat \<Rightarrow> snapshot_system \<Rightarrow> snapshot_system" where
  "sys_abort a s =
     (case get (sys_txns s) a of None \<Rightarrow> s
      | Some t \<Rightarrow> let (st, t') = abort_transaction (sys_store s) t
                 in s\<lparr>sys_store := st, sys_txns := put a t' (sys_txns s)\<rparr>)"

definition sys_commit :: "nat \<Rightarrow> snapshot_system \<Rightarrow> nat res \<times> snapshot_system" where
  "sys_commit a s =
     (case get (sys_txns s) a of None \<Rightarrow> (Inl (OtherError ''nil transaction''), s)
      | Some t \<Rightarrow>
        let (r, st, t') = commit (sys_store s) t;
            s' = s\<lparr>sys_store := st, sys_txns := put a t' (sys_txns s)\<rparr>
        in case r of Inl e \<Rightarrow> (Inl e, s')
           | Inr sn \<Rightarrow> let b = fresh (sys_snaps s)
                      in (Inr b, s'\<lparr>sys_snaps := put b sn (sys_snaps s)\<rparr>))"

definition sys_Read :: "snapshot_system \<Rightarrow> nat \<Rightarrow> string \<Rightarrow> bytes option" where
  "sys_Read s a name =
     (case get (sys_snaps s) a of None \<Rightarrow> None | Some sn \<Rightarrow> snapshot_Read (sys_store s) sn name)"

definition sys_acquire :: "nat \<Rightarrow> string \<Rightarrow> int \<Rightarrow> string \<Rightarrow> snapshot_system \<Rightarrow> (snapshot_system \<times> nat) option" where
  "sys_acquire a name expectedBytes expectedSHA256 s =
     (case get (sys_snaps s) a of None \<Rightarrow> None
      | Some sn \<Rightarrow>
        (case acquireArtifact (sys_store s) sn name expectedBytes expectedSHA256 of None \<Rightarrow> None
         | Some (st, l) \<Rightarrow>
           let b = fresh (sys_leases s)
           in Some (s\<lparr>sys_store := st, sys_leases := put b l (sys_leases s)\<rparr>, b)))"

definition sys_readRange :: "snapshot_system \<Rightarrow> nat \<Rightarrow> int \<Rightarrow> int \<Rightarrow> bytes option" where
  "sys_readRange s b offset maxBytes =
     (case get (sys_leases s) b of None \<Rightarrow> None | Some l \<Rightarrow> readRange (sys_store s) l offset maxBytes)"

definition sys_release_lease :: "nat \<Rightarrow> snapshot_system \<Rightarrow> snapshot_system" where
  "sys_release_lease b s =
     (case get (sys_leases s) b of None \<Rightarrow> s
      | Some l \<Rightarrow> let (st, l') = lease_release (sys_store s) l
                 in s\<lparr>sys_store := st, sys_leases := put b l' (sys_leases s)\<rparr>)"

definition sys_release_snapshot :: "nat \<Rightarrow> snapshot_system \<Rightarrow> snapshot_system" where
  "sys_release_snapshot a s =
     (case get (sys_snaps s) a of None \<Rightarrow> s
      | Some sn \<Rightarrow> let (st, sn') = snapshot_release (sys_store s) sn
                  in s\<lparr>sys_store := st, sys_snaps := put a sn' (sys_snaps s)\<rparr>)"

section \<open>The invariant\<close>

definition snap_refs :: "digest \<Rightarrow> Snapshot \<Rightarrow> int" where
  "snap_refs d sn = (if sn_once sn then 0 else int (count_list (map snd (sn_digests sn)) d))"

definition lease_refs :: "digest \<Rightarrow> artifactLease \<Rightarrow> int" where
  "lease_refs d l = (if al_once l \<or> al_digest l \<noteq> d then 0 else 1)"

definition total_refs :: "snapshot_system \<Rightarrow> digest \<Rightarrow> int" where
  "total_refs s d = msum (snap_refs d) (sys_snaps s) + msum (lease_refs d) (sys_leases s)"

definition tx_staged :: "stagingTransaction \<Rightarrow> int" where
  "tx_staged t = msum (\<lambda>a. int (length (sa_data a))) (tx_artifacts t)"

definition open_reserved :: "stagingTransaction \<Rightarrow> int" where
  "open_reserved t = (if tx_closed t then 0 else tx_reserved t)"

definition tx_ok :: "(bytes \<Rightarrow> digest) \<Rightarrow> stagingTransaction \<Rightarrow> bool" where
  "tx_ok sha256 t \<longleftrightarrow>
     keys_ok (tx_artifacts t) \<and> 0 \<le> tx_reserved t \<and> tx_packageSize t = tx_reserved t \<and>
     tx_reserved t \<le> PackageArtifactMax \<and>
     (\<not> tx_closed t \<longrightarrow> tx_staged t \<le> tx_reserved t \<and>
        (\<forall>n a. (n, a) \<in> set (tx_artifacts t) \<longrightarrow> sha256 (sa_data a) = sa_digest a))"

definition limits_ok :: "StoreLimits \<Rightarrow> bool" where
  "limits_ok l \<longleftrightarrow> 0 < StagingBytes l \<and> StagingBytes l \<le> 2 ^ 62 \<and> 0 < SnapshotBytes l \<and> SnapshotBytes l \<le> 2 ^ 62"

definition quota_ok :: "snapshot_system \<Rightarrow> bool" where
  "quota_ok s \<longleftrightarrow>
     st_stagingReserved (sys_store s) = msum open_reserved (sys_txns s) \<and>
     st_snapshotReserved (sys_store s) = msum open_reserved (sys_txns s) \<and>
     st_stagingReserved (sys_store s) \<le> StagingBytes (st_limits (sys_store s)) \<and>
     st_snapshotUsed (sys_store s) + st_snapshotReserved (sys_store s) \<le> SnapshotBytes (st_limits (sys_store s))"

definition heaps_ok :: "(bytes \<Rightarrow> digest) \<Rightarrow> snapshot_system \<Rightarrow> bool" where
  "heaps_ok sha256 s \<longleftrightarrow>
     keys_ok (sys_txns s) \<and> keys_ok (sys_snaps s) \<and> keys_ok (sys_leases s) \<and>
     (\<forall>a t. get (sys_txns s) a = Some t \<longrightarrow> tx_ok sha256 t)"

definition sys_inv :: "(bytes \<Rightarrow> digest) \<Rightarrow> snapshot_system \<Rightarrow> bool" where
  "sys_inv sha256 s \<longleftrightarrow>
     limits_ok (st_limits (sys_store s)) \<and> heaps_ok sha256 s \<and> quota_ok s \<and>
     store_ok sha256 (total_refs s) (sys_store s)"

section \<open>Steps\<close>

text \<open>
  One step per atomic operation.  \<open>reserve\<close> is called on open transactions with sizes far below the
  64-bit range, and \<open>stage\<close> within the bytes reserved so far: this is what the loader does, and
  theory \<^verbatim>\<open>Loader\<close> discharges both.
\<close>

inductive sys_step :: "(bytes \<Rightarrow> digest) \<Rightarrow> snapshot_system \<Rightarrow> snapshot_system \<Rightarrow> bool" for sha256 where
  step_begin: "sys_step sha256 s (fst (sys_begin s))"
| step_reserve: "get (sys_txns s) a = Some t \<Longrightarrow> \<not> tx_closed t \<Longrightarrow> sz \<le> 2 ^ 61 \<Longrightarrow>
     sys_reserve a sz s = Inr s' \<Longrightarrow> sys_step sha256 s s'"
| step_stage: "get (sys_txns s) a = Some t \<Longrightarrow> tx_staged t + declared \<le> tx_reserved t \<Longrightarrow>
     sys_stage sha256 a name rd declared maximum s = Inr s' \<Longrightarrow> sys_step sha256 s s'"
| step_abort: "sys_step sha256 s (sys_abort a s)"
| step_commit: "sys_step sha256 s (snd (sys_commit a s))"
| step_acquire: "sys_acquire a name b h s = Some (s', l) \<Longrightarrow> sys_step sha256 s s'"
| step_release_lease: "sys_step sha256 s (sys_release_lease b s)"
| step_release_snapshot: "sys_step sha256 s (sys_release_snapshot a s)"

inductive sys_reachable :: "(bytes \<Rightarrow> digest) \<Rightarrow> StoreLimits \<Rightarrow> snapshot_system \<Rightarrow> bool" for sha256 l where
  reach_init: "NewSnapshotStore l = Inr st \<Longrightarrow> sys_reachable sha256 l (sys_init st)"
| reach_step: "sys_reachable sha256 l s \<Longrightarrow> sys_step sha256 s s' \<Longrightarrow> sys_reachable sha256 l s'"

section \<open>What each operation leaves alone\<close>

lemma release_object_frame [simp]:
  "st_limits (release_object d st) = st_limits st"
  "st_stagingReserved (release_object d st) = st_stagingReserved st"
  "st_snapshotReserved (release_object d st) = st_snapshotReserved st"
  by (auto simp: release_object_def split: option.splits)

lemma fold_release_object_frame [simp]:
  "st_limits (fold release_object ds st) = st_limits st"
  "st_stagingReserved (fold release_object ds st) = st_stagingReserved st"
  "st_snapshotReserved (fold release_object ds st) = st_snapshotReserved st"
  by (induction ds arbitrary: st) auto

lemma retain_object_frame [simp]:
  "st_limits (retain_object d data st) = st_limits st"
  "st_stagingReserved (retain_object d data st) = st_stagingReserved st"
  "st_snapshotReserved (retain_object d data st) = st_snapshotReserved st"
  by (auto simp: retain_object_def split: option.splits)

lemma commit_objects_frame [simp]:
  "st_limits (fst (commit_objects as st)) = st_limits st"
  "st_stagingReserved (fst (commit_objects as st)) = st_stagingReserved st"
  "st_snapshotReserved (fst (commit_objects as st)) = st_snapshotReserved st"
  by (induction as arbitrary: st) (auto simp: case_prod_beta)

lemma release_object_used: "st_snapshotUsed (release_object d st) \<le> st_snapshotUsed st"
  by (auto simp: release_object_def split: option.splits)

lemma fold_release_object_used: "st_snapshotUsed (fold release_object ds st) \<le> st_snapshotUsed st"
proof (induction ds arbitrary: st)
  case (Cons d ds)
  show ?case using Cons [of "release_object d st"] release_object_used [of d st] by simp
qed simp

lemma commit_new_bytes_mono:
  "(\<And>d. get objs' d = None \<Longrightarrow> get objs d = None) \<Longrightarrow> commit_new_bytes objs' as \<le> commit_new_bytes objs as"
  by (induction as) (auto intro: add_mono)

text \<open>The bytes a commit adds are at most those it counted: equal digests are stored once.\<close>

lemma commit_objects_used:
  "st_snapshotUsed (fst (commit_objects as st)) \<le> st_snapshotUsed st + commit_new_bytes (st_objects st) as"
proof (induction as arbitrary: st)
  case (Cons p as)
  obtain n a where p: "p = (n, a)" by force
  let ?st = "retain_object (sa_digest a) (sa_data a) st"
  have "commit_new_bytes (st_objects ?st) as \<le> commit_new_bytes (st_objects st) as"
    by (rule commit_new_bytes_mono) (auto simp: retain_object_def gomap_simps split: option.splits if_splits)
  moreover have "st_snapshotUsed ?st = st_snapshotUsed st +
      (if get (st_objects st) (sa_digest a) = None then int (length (sa_data a)) else 0)"
    by (auto simp: retain_object_def split: option.splits)
  ultimately show ?case
    using Cons [of ?st] by (simp add: p case_prod_beta)
qed simp

lemma commit_new_bytes_staged: "commit_new_bytes objs (tx_artifacts t) \<le> tx_staged t"
proof -
  have "commit_new_bytes objs as \<le> msum (\<lambda>a. int (length (sa_data a))) as" for as
    by (induction as) auto
  then show ?thesis by (simp add: tx_staged_def)
qed

lemma acquireArtifact_frame:
  assumes "acquireArtifact st sn n b h = Some (st', l)"
  shows "st_limits st' = st_limits st \<and> st_stagingReserved st' = st_stagingReserved st \<and>
    st_snapshotReserved st' = st_snapshotReserved st \<and> st_snapshotUsed st' = st_snapshotUsed st"
  using assms by (auto simp: acquireArtifact_def split: option.splits if_splits)

section \<open>Every operation keeps the invariant\<close>

lemma total_refs_put_snap:
  "keys_ok (sys_snaps s) \<Longrightarrow>
   total_refs (s\<lparr>sys_snaps := put a sn (sys_snaps s)\<rparr>) d =
   total_refs s d - (case get (sys_snaps s) a of None \<Rightarrow> 0 | Some o' \<Rightarrow> snap_refs d o') + snap_refs d sn"
  by (simp add: total_refs_def msum_put)

lemma total_refs_put_lease:
  "keys_ok (sys_leases s) \<Longrightarrow>
   total_refs (s\<lparr>sys_leases := put b l (sys_leases s)\<rparr>) d =
   total_refs s d - (case get (sys_leases s) b of None \<Rightarrow> 0 | Some o' \<Rightarrow> lease_refs d o') + lease_refs d l"
  by (simp add: total_refs_def msum_put)

lemma total_refs_other [simp]:
  "total_refs (s\<lparr>sys_store := st\<rparr>) = total_refs s"
  "total_refs (s\<lparr>sys_txns := ts\<rparr>) = total_refs s"
  by (simp_all add: total_refs_def fun_eq_iff)

lemma open_reserved_nonneg: "heaps_ok sha256 s \<Longrightarrow> 0 \<le> msum open_reserved (sys_txns s)"
  by (rule msum_nonneg) (auto simp: heaps_ok_def keys_ok_get open_reserved_def tx_ok_def)

lemma open_reserved_le:
  assumes "heaps_ok sha256 s" and "get (sys_txns s) a = Some t"
  shows "open_reserved t \<le> msum open_reserved (sys_txns s)"
  by (rule msum_ge [OF assms(2)])
    (use assms in \<open>auto simp: heaps_ok_def keys_ok_get open_reserved_def tx_ok_def\<close>)

lemma heaps_ok_put_tx:
  "heaps_ok sha256 s \<Longrightarrow> tx_ok sha256 t \<Longrightarrow>
   heaps_ok sha256 (s\<lparr>sys_store := st, sys_txns := put a t (sys_txns s)\<rparr>)"
  by (auto simp: heaps_ok_def gomap_simps)

lemma begin_transaction_ok: "tx_ok sha256 begin_transaction"
  by (simp add: tx_ok_def begin_transaction_def tx_staged_def PackageArtifactMax_def)

lemma sys_init_inv:
  "NewSnapshotStore l = Inr st \<Longrightarrow> limits_ok l \<Longrightarrow> sys_inv sha256 (sys_init st)"
  by (auto simp: NewSnapshotStore_def sys_init_def sys_inv_def limits_ok_def heaps_ok_def quota_ok_def
      store_ok_def total_refs_def split: if_splits)

lemma sys_begin_inv:
  assumes "sys_inv sha256 s"
  shows "sys_inv sha256 (fst (sys_begin s))"
proof -
  have "open_reserved begin_transaction = 0"
    by (simp add: open_reserved_def begin_transaction_def)
  then have "quota_ok (fst (sys_begin s))"
    using assms by (simp add: sys_begin_def Let_def sys_inv_def heaps_ok_def quota_ok_def msum_put)
  moreover have "heaps_ok sha256 (fst (sys_begin s))"
    using assms begin_transaction_ok
    by (auto simp: sys_begin_def Let_def sys_inv_def heaps_ok_def gomap_simps)
  ultimately show ?thesis
    using assms by (simp add: sys_inv_def sys_begin_def Let_def)
qed

lemma reserve_exact:
  assumes "reserve sz st t = Inr (st', t')" and "sz \<le> 2 ^ 61"
    and "0 \<le> tx_packageSize t" "tx_packageSize t \<le> PackageArtifactMax" "tx_reserved t = tx_packageSize t"
    and "0 \<le> st_stagingReserved st" "st_stagingReserved st \<le> 2 ^ 62"
    and "0 \<le> st_snapshotUsed st" "0 \<le> st_snapshotReserved st" "st_snapshotUsed st + st_snapshotReserved st \<le> 2 ^ 62"
  shows "0 \<le> sz \<and> tx_packageSize t + sz \<le> PackageArtifactMax \<and>
     st_stagingReserved st + sz \<le> StagingBytes (st_limits st) \<and>
     st_snapshotUsed st + st_snapshotReserved st + sz \<le> SnapshotBytes (st_limits st) \<and>
     st' = st\<lparr>st_stagingReserved := st_stagingReserved st + sz, st_snapshotReserved := st_snapshotReserved st + sz\<rparr> \<and>
     t' = t\<lparr>tx_reserved := tx_reserved t + sz, tx_packageSize := tx_packageSize t + sz\<rparr>"
proof -
  have nn: "0 \<le> sz" using assms(1) by (auto simp: reserve_def split: if_splits)
  have e1: "add64 (tx_packageSize t) sz = tx_packageSize t + sz"
    using assms nn by (intro add64_id) (auto simp: PackageArtifactMax_def)
  have e2: "add64 (st_stagingReserved st) sz = st_stagingReserved st + sz"
    using assms nn by (intro add64_id) auto
  have e3: "add64 (st_snapshotUsed st) (st_snapshotReserved st) = st_snapshotUsed st + st_snapshotReserved st"
    using assms by (intro add64_id) auto
  have e4: "add64 (st_snapshotUsed st + st_snapshotReserved st) sz = st_snapshotUsed st + st_snapshotReserved st + sz"
    using assms nn by (intro add64_id) auto
  have e5: "add64 (st_snapshotReserved st) sz = st_snapshotReserved st + sz"
    using assms nn by (intro add64_id) auto
  show ?thesis
    using assms(1,5) nn unfolding reserve_def by (auto simp: e1 e2 e3 e4 e5 split: if_splits)
qed

lemma sys_reserve_inv:
  assumes inv: "sys_inv sha256 s" and t: "get (sys_txns s) a = Some t" "\<not> tx_closed t"
    and sz: "sz \<le> 2 ^ 61" and r: "sys_reserve a sz s = Inr s'"
  shows "sys_inv sha256 s' \<and> 0 \<le> sz \<and> sys_snaps s' = sys_snaps s \<and> sys_leases s' = sys_leases s \<and>
    get (sys_txns s') a = Some (t\<lparr>tx_reserved := tx_reserved t + sz, tx_packageSize := tx_packageSize t + sz\<rparr>)"
proof -
  from r t obtain st' t' where r': "reserve sz (sys_store s) t = Inr (st', t')"
    and s': "s' = s\<lparr>sys_store := st', sys_txns := put a t' (sys_txns s)\<rparr>"
    by (auto simp: sys_reserve_def res_simps)
  have h: "heaps_ok sha256 s" and q: "quota_ok s" and lim: "limits_ok (st_limits (sys_store s))"
    and ok: "store_ok sha256 (total_refs s) (sys_store s)"
    using inv by (simp_all add: sys_inv_def)
  have tok: "tx_ok sha256 t" using h t by (simp add: heaps_ok_def)
  have used: "0 \<le> st_snapshotUsed (sys_store s)" using ok by (rule store_ok_used_nonneg)
  have e: "0 \<le> sz \<and> tx_packageSize t + sz \<le> PackageArtifactMax \<and>
     st_stagingReserved (sys_store s) + sz \<le> StagingBytes (st_limits (sys_store s)) \<and>
     st_snapshotUsed (sys_store s) + st_snapshotReserved (sys_store s) + sz \<le> SnapshotBytes (st_limits (sys_store s)) \<and>
     st' = (sys_store s)\<lparr>st_stagingReserved := st_stagingReserved (sys_store s) + sz,
       st_snapshotReserved := st_snapshotReserved (sys_store s) + sz\<rparr> \<and>
     t' = t\<lparr>tx_reserved := tx_reserved t + sz, tx_packageSize := tx_packageSize t + sz\<rparr>"
    using r' sz
    by (rule reserve_exact)
      (use tok q lim used open_reserved_nonneg [OF h] in \<open>auto simp: tx_ok_def quota_ok_def limits_ok_def\<close>)
  have "tx_ok sha256 t'"
    using tok e by (auto simp: tx_ok_def tx_staged_def)
  then have "heaps_ok sha256 s'"
    unfolding s' by (rule heaps_ok_put_tx [OF h])
  moreover have "quota_ok s'"
    using q e t h unfolding s' by (auto simp: quota_ok_def msum_put heaps_ok_def open_reserved_def)
  moreover have "store_ok sha256 (total_refs s') (sys_store s')"
    using ok e unfolding s' by (auto simp: store_ok_def total_refs_def)
  ultimately show ?thesis
    using lim e unfolding s' by (auto simp: sys_inv_def gomap_simps)
qed

lemma stageReserved_Inr:
  assumes "stageReserved sha256 name rd declared maximum t = Inr t'"
  obtains data where "\<not> tx_closed t" "int (length data) = declared" "declared \<le> maximum"
    "get (tx_artifacts t) name = None" "take (length data) (fst rd) = data"
    "t' = t\<lparr>tx_artifacts := put name \<lparr>sa_data = data, sa_digest = sha256 data\<rparr> (tx_artifacts t)\<rparr>"
proof -
  obtain data where "readAllLimited (add64 declared 1) rd = Inr data" "\<not> tx_closed t"
    "int (length data) = declared" "declared \<le> maximum" "get (tx_artifacts t) name = None"
    "t' = t\<lparr>tx_artifacts := put name \<lparr>sa_data = data, sa_digest = sha256 data\<rparr> (tx_artifacts t)\<rparr>"
    using assms by (auto simp: stageReserved_def res_simps split: if_splits)
  with readAllLimited_prefix show ?thesis by (metis that)
qed

lemma sys_stage_inv:
  assumes inv: "sys_inv sha256 s" and t: "get (sys_txns s) a = Some t"
    and fits: "tx_staged t + declared \<le> tx_reserved t"
    and r: "sys_stage sha256 a name rd declared maximum s = Inr s'"
  shows "sys_inv sha256 s'"
proof -
  from r t obtain t' where r': "stageReserved sha256 name rd declared maximum t = Inr t'"
    and s': "s' = s\<lparr>sys_txns := put a t' (sys_txns s)\<rparr>"
    by (auto simp: sys_stage_def res_simps)
  obtain data where d: "\<not> tx_closed t" "int (length data) = declared" "get (tx_artifacts t) name = None"
    "t' = t\<lparr>tx_artifacts := put name \<lparr>sa_data = data, sa_digest = sha256 data\<rparr> (tx_artifacts t)\<rparr>"
    using r' by (rule stageReserved_Inr)
  have h: "heaps_ok sha256 s" using inv by (simp add: sys_inv_def)
  then have tok: "tx_ok sha256 t" using t by (simp add: heaps_ok_def)
  then have "keys_ok (tx_artifacts t)" by (simp add: tx_ok_def)
  then have "tx_staged t' = tx_staged t + declared" and k: "keys_ok (tx_artifacts t')"
    using d by (simp_all add: tx_staged_def msum_put keys_ok_put)
  moreover have "sha256 (sa_data x) = sa_digest x" if "(n, x) \<in> set (tx_artifacts t')" for n x
  proof (cases "n = name")
    case True
    then show ?thesis using that k d by (auto simp: keys_ok_get gomap_simps)
  next
    case False
    then have "(n, x) \<in> set (tx_artifacts t)"
      using that k d \<open>keys_ok (tx_artifacts t)\<close> by (auto simp: keys_ok_get gomap_simps)
    then show ?thesis using tok d by (auto simp: tx_ok_def)
  qed
  ultimately have "tx_ok sha256 t'"
    using tok d fits by (simp add: tx_ok_def)
  then have "heaps_ok sha256 s'"
    using h unfolding s' by (auto simp: heaps_ok_def gomap_simps)
  moreover have "open_reserved t' = open_reserved t" using d by (simp add: open_reserved_def)
  ultimately show ?thesis
    using inv t unfolding s' by (simp add: sys_inv_def quota_ok_def msum_put heaps_ok_def)
qed

lemma sys_abort_inv:
  assumes inv: "sys_inv sha256 s"
  shows "sys_inv sha256 (sys_abort a s)"
proof (cases "get (sys_txns s) a")
  case (Some t)
  have h: "heaps_ok sha256 s" and q: "quota_ok s"
    and ok: "store_ok sha256 (total_refs s) (sys_store s)" using inv by (simp_all add: sys_inv_def)
  have tok: "tx_ok sha256 t" using h Some by (simp add: heaps_ok_def)
  obtain st' t' where st': "abort_transaction (sys_store s) t = (st', t')" by force
  then have s': "sys_abort a s = s\<lparr>sys_store := st', sys_txns := put a t' (sys_txns s)\<rparr>"
    using Some by (simp add: sys_abort_def)
  have e: "st_stagingReserved st' = st_stagingReserved (sys_store s) - open_reserved t \<and>
     st_snapshotReserved st' = st_snapshotReserved (sys_store s) - open_reserved t \<and>
     st_limits st' = st_limits (sys_store s) \<and> st_objects st' = st_objects (sys_store s) \<and>
     st_snapshotUsed st' = st_snapshotUsed (sys_store s) \<and> open_reserved t' = 0 \<and> tx_ok sha256 t'"
    using st' tok by (auto simp: abort_transaction_def open_reserved_def tx_ok_def tx_staged_def split: if_splits)
  have "0 \<le> open_reserved t" using tok by (auto simp: open_reserved_def tx_ok_def)
  then have "quota_ok (sys_abort a s)"
    using q e h Some unfolding s' by (auto simp: quota_ok_def msum_put heaps_ok_def)
  moreover have "heaps_ok sha256 (sys_abort a s)"
    unfolding s' using h e by (auto intro: heaps_ok_put_tx)
  moreover have "store_ok sha256 (total_refs s) st'"
    using ok e by (simp add: store_ok_def)
  ultimately show ?thesis
    using inv e unfolding s' by (simp add: sys_inv_def)
qed (use inv in \<open>simp add: sys_abort_def\<close>)

text \<open>
  A commit within its reservation never runs out of quota, and the snapshot it returns holds one
  reference for every staged artifact.
\<close>

lemma commit_Inr:
  assumes inv: "sys_inv sha256 s" and t: "get (sys_txns s) a = Some t" "\<not> tx_closed t"
  shows "commit (sys_store s) t =
    (Inr \<lparr>sn_digests = map (\<lambda>(name, a). (name, sa_digest a)) (tx_artifacts t), sn_once = False\<rparr>,
     (fst (commit_objects (tx_artifacts t) (sys_store s)))\<lparr>
        st_stagingReserved := st_stagingReserved (sys_store s) - tx_reserved t,
        st_snapshotReserved := st_snapshotReserved (sys_store s) - tx_reserved t\<rparr>,
     t\<lparr>tx_closed := True, tx_artifacts := snd (commit_objects (tx_artifacts t) (sys_store s))\<rparr>)"
proof -
  have h: "heaps_ok sha256 s" and q: "quota_ok s" using inv by (simp_all add: sys_inv_def)
  then have "tx_ok sha256 t" using t by (simp add: heaps_ok_def)
  then have "tx_staged t \<le> open_reserved t" using t by (simp add: tx_ok_def open_reserved_def)
  with commit_new_bytes_staged [of "st_objects (sys_store s)" t] open_reserved_le [OF h t(1)] q
  have "st_snapshotUsed (sys_store s) + commit_new_bytes (st_objects (sys_store s)) (tx_artifacts t)
      \<le> SnapshotBytes (st_limits (sys_store s))"
    by (simp add: quota_ok_def)
  then show ?thesis
    using t by (simp add: commit_def Let_def case_prod_beta)
qed

lemma keys_commit_objects: "map fst (snd (commit_objects as st)) = map fst as"
  by (induction as arbitrary: st) (auto simp: case_prod_beta Let_def)

lemma sys_commit_eq:
  assumes "sys_inv sha256 s" and "get (sys_txns s) a = Some t" "\<not> tx_closed t"
  shows "sys_commit a s =
    (Inr (fresh (sys_snaps s)),
     s\<lparr>sys_store := (fst (commit_objects (tx_artifacts t) (sys_store s)))\<lparr>
          st_stagingReserved := st_stagingReserved (sys_store s) - tx_reserved t,
          st_snapshotReserved := st_snapshotReserved (sys_store s) - tx_reserved t\<rparr>,
       sys_txns := put a (t\<lparr>tx_closed := True, tx_artifacts := snd (commit_objects (tx_artifacts t) (sys_store s))\<rparr>)
         (sys_txns s),
       sys_snaps := put (fresh (sys_snaps s))
         \<lparr>sn_digests = map (\<lambda>(name, a). (name, sa_digest a)) (tx_artifacts t), sn_once = False\<rparr> (sys_snaps s)\<rparr>)"
  using commit_Inr [OF assms] assms(2) by (simp add: sys_commit_def Let_def)

lemma sys_commit_inv:
  assumes inv: "sys_inv sha256 s"
  shows "sys_inv sha256 (snd (sys_commit a s))"
proof (cases "get (sys_txns s) a")
  case (Some t)
  have h: "heaps_ok sha256 s" and q: "quota_ok s"
    and ok: "store_ok sha256 (total_refs s) (sys_store s)" using inv by (simp_all add: sys_inv_def)
  have tok: "tx_ok sha256 t" using h Some by (simp add: heaps_ok_def)
  show ?thesis
  proof (cases "tx_closed t")
    case True
    then have "snd (sys_commit a s) = s\<lparr>sys_txns := put a t (sys_txns s)\<rparr>"
      using Some by (simp add: sys_commit_def commit_def)
    with inv Some tok show ?thesis
      by (simp add: sys_inv_def quota_ok_def msum_put heaps_ok_def gomap_simps)
  next
    case False
    let ?st = "fst (commit_objects (tx_artifacts t) (sys_store s))"
    let ?sn = "\<lparr>sn_digests = map (\<lambda>(name, a). (name, sa_digest a)) (tx_artifacts t), sn_once = False\<rparr>"
    let ?s' = "snd (sys_commit a s)"
    note eq = sys_commit_eq [OF inv Some False]
    have "tx_ok sha256 (t\<lparr>tx_closed := True, tx_artifacts := snd (commit_objects (tx_artifacts t) (sys_store s))\<rparr>)"
      using tok by (simp add: tx_ok_def keys_ok_def keys_commit_objects)
    then have heaps: "heaps_ok sha256 ?s'"
      using h unfolding eq by (auto simp: heaps_ok_def gomap_simps)
    have le: "open_reserved t \<le> msum open_reserved (sys_txns s)" using h Some by (rule open_reserved_le)
    have or: "open_reserved t = tx_reserved t" using False by (simp add: open_reserved_def)
    have staged: "tx_staged t \<le> tx_reserved t" and nonneg: "0 \<le> tx_reserved t"
      using tok False by (simp_all add: tx_ok_def)
    have "st_snapshotUsed ?st \<le> st_snapshotUsed (sys_store s) + tx_reserved t"
      using commit_objects_used [of "tx_artifacts t" "sys_store s"] staged
        commit_new_bytes_staged [of "st_objects (sys_store s)" t] by linarith
    then have quota: "quota_ok ?s'"
      using q h Some False nonneg or unfolding eq
      by (auto simp: quota_ok_def msum_put heaps_ok_def open_reserved_def)
    have "store_ok sha256 (\<lambda>d. total_refs s d + int (count_list (map (sa_digest \<circ> snd) (tx_artifacts t)) d)) ?st"
      using tok False by (intro commit_objects_ok [OF ok]) (auto simp: tx_ok_def)
    moreover have "total_refs ?s' d = total_refs s d + int (count_list (map (sa_digest \<circ> snd) (tx_artifacts t)) d)" for d
      using h unfolding eq
      by (simp add: total_refs_def msum_put heaps_ok_def snap_refs_def case_prod_beta comp_def)
    ultimately have "store_ok sha256 (total_refs ?s') (sys_store ?s')"
      unfolding eq by (simp add: store_ok_def)
    with heaps quota inv show ?thesis
      unfolding sys_inv_def by (simp add: eq)
  qed
qed (use inv in \<open>simp add: sys_commit_def\<close>)

lemma sys_acquire_inv:
  assumes inv: "sys_inv sha256 s" and r: "sys_acquire a name b h s = Some (s', l)"
  shows "sys_inv sha256 s'"
proof -
  obtain sn st' al where sn: "get (sys_snaps s) a = Some sn"
    and acq: "acquireArtifact (sys_store s) sn name b h = Some (st', al)"
    and l: "l = fresh (sys_leases s)"
    and s': "s' = s\<lparr>sys_store := st', sys_leases := put l al (sys_leases s)\<rparr>"
    using r by (auto simp: sys_acquire_def Let_def split: option.splits)
  have hp: "heaps_ok sha256 s" and q: "quota_ok s" and ok: "store_ok sha256 (total_refs s) (sys_store s)"
    using inv by (simp_all add: sys_inv_def)
  note fr = acquireArtifact_frame [OF acq]
  note ak = acquireArtifact_ok [OF ok acq]
  have "total_refs s' = (total_refs s)(al_digest al := total_refs s (al_digest al) + 1)"
    using hp ak unfolding s' l
    by (auto simp: total_refs_def msum_put heaps_ok_def lease_refs_def fun_eq_iff)
  then have "store_ok sha256 (total_refs s') (sys_store s')"
    using ak by (simp add: s')
  with inv fr show ?thesis
    unfolding s' by (auto simp: sys_inv_def quota_ok_def heaps_ok_def gomap_simps)
qed

lemma sys_release_lease_inv:
  assumes inv: "sys_inv sha256 s"
  shows "sys_inv sha256 (sys_release_lease b s)"
proof (cases "get (sys_leases s) b")
  case (Some l)
  have hp: "heaps_ok sha256 s" and ok: "store_ok sha256 (total_refs s) (sys_store s)"
    using inv by (simp_all add: sys_inv_def)
  show ?thesis
  proof (cases "al_once l")
    case True
    then have "sys_release_lease b s = s\<lparr>sys_leases := put b l (sys_leases s)\<rparr>"
      using Some by (simp add: sys_release_lease_def lease_release_def)
    moreover have "total_refs (s\<lparr>sys_leases := put b l (sys_leases s)\<rparr>) = total_refs s"
      using hp Some by (simp add: fun_eq_iff total_refs_put_lease heaps_ok_def)
    ultimately show ?thesis
      using inv by (simp add: sys_inv_def quota_ok_def heaps_ok_def gomap_simps)
  next
    case False
    let ?s' = "sys_release_lease b s"
    have eq: "?s' = s\<lparr>sys_store := release_object (al_digest l) (sys_store s),
        sys_leases := put b (l\<lparr>al_once := True\<rparr>) (sys_leases s)\<rparr>"
      using Some False by (simp add: sys_release_lease_def lease_release_def)
    have "lease_refs (al_digest l) l \<le> msum (lease_refs (al_digest l)) (sys_leases s)"
      by (rule msum_ge [OF Some]) (simp add: lease_refs_def)
    moreover have "0 \<le> msum (snap_refs (al_digest l)) (sys_snaps s)"
      by (rule msum_nonneg) (simp add: snap_refs_def)
    ultimately have pos: "0 < total_refs s (al_digest l)"
      using False by (simp add: total_refs_def lease_refs_def)
    have "total_refs ?s' = (total_refs s)(al_digest l := total_refs s (al_digest l) - 1)"
      using hp Some False unfolding eq
      by (auto simp: total_refs_def msum_put heaps_ok_def lease_refs_def fun_eq_iff)
    then have "store_ok sha256 (total_refs ?s') (sys_store ?s')"
      using release_object_ok [OF ok pos] by (simp add: eq)
    with inv release_object_used [of "al_digest l" "sys_store s"] show ?thesis
      unfolding eq by (auto simp: sys_inv_def quota_ok_def heaps_ok_def gomap_simps)
  qed
qed (use inv in \<open>simp add: sys_release_lease_def\<close>)

lemma sys_release_snapshot_inv:
  assumes inv: "sys_inv sha256 s"
  shows "sys_inv sha256 (sys_release_snapshot a s)"
proof (cases "get (sys_snaps s) a")
  case (Some sn)
  have hp: "heaps_ok sha256 s" and ok: "store_ok sha256 (total_refs s) (sys_store s)"
    using inv by (simp_all add: sys_inv_def)
  show ?thesis
  proof (cases "sn_once sn")
    case True
    then have "sys_release_snapshot a s = s\<lparr>sys_snaps := put a sn (sys_snaps s)\<rparr>"
      using Some by (simp add: sys_release_snapshot_def snapshot_release_def)
    moreover have "total_refs (s\<lparr>sys_snaps := put a sn (sys_snaps s)\<rparr>) = total_refs s"
      using hp Some by (simp add: fun_eq_iff total_refs_put_snap heaps_ok_def)
    ultimately show ?thesis
      using inv by (simp add: sys_inv_def quota_ok_def heaps_ok_def gomap_simps)
  next
    case False
    let ?s' = "sys_release_snapshot a s"
    let ?ds = "map snd (sn_digests sn)"
    have eq: "?s' = s\<lparr>sys_store := fold release_object ?ds (sys_store s),
        sys_snaps := put a (sn\<lparr>sn_once := True\<rparr>) (sys_snaps s)\<rparr>"
      using Some False by (simp add: sys_release_snapshot_def snapshot_release_def)
    have le: "int (count_list ?ds d) \<le> total_refs s d" for d
    proof -
      have "snap_refs d sn \<le> msum (snap_refs d) (sys_snaps s)"
        by (rule msum_ge [OF Some]) (simp add: snap_refs_def)
      moreover have "0 \<le> msum (lease_refs d) (sys_leases s)"
        by (rule msum_nonneg) (simp add: lease_refs_def)
      ultimately show ?thesis using False by (simp add: total_refs_def snap_refs_def)
    qed
    have "total_refs ?s' = (\<lambda>d. total_refs s d - int (count_list ?ds d))"
      using hp Some False unfolding eq
      by (auto simp: total_refs_def msum_put heaps_ok_def snap_refs_def fun_eq_iff)
    then have "store_ok sha256 (total_refs ?s') (sys_store ?s')"
      using release_objects_ok [OF ok le] by (simp add: eq)
    with inv fold_release_object_used [of ?ds "sys_store s"] show ?thesis
      unfolding eq by (auto simp: sys_inv_def quota_ok_def heaps_ok_def gomap_simps)
  qed
qed (use inv in \<open>simp add: sys_release_snapshot_def\<close>)

lemma sys_step_inv: "sys_step sha256 s s' \<Longrightarrow> sys_inv sha256 s \<Longrightarrow> sys_inv sha256 s'"
  by (induction rule: sys_step.induct)
    (auto intro: sys_begin_inv sys_stage_inv sys_abort_inv sys_commit_inv sys_acquire_inv
      sys_release_lease_inv sys_release_snapshot_inv dest: sys_reserve_inv)

lemma sys_reachable_inv: "sys_reachable sha256 l s \<Longrightarrow> limits_ok l \<Longrightarrow> sys_inv sha256 s"
  by (induction rule: sys_reachable.induct) (auto intro: sys_init_inv sys_step_inv)

section \<open>Live leases keep their bytes\<close>

definition sys_live :: "snapshot_system \<Rightarrow> nat \<Rightarrow> bool" where
  "sys_live s b = (case get (sys_leases s) b of None \<Rightarrow> False | Some l \<Rightarrow> \<not> al_once l)"

definition object_data :: "SnapshotStore \<Rightarrow> digest \<Rightarrow> bytes option" where
  "object_data st d = map_option ob_data (get (st_objects st) d)"

definition sys_content :: "snapshot_system \<Rightarrow> nat \<Rightarrow> bytes" where
  "sys_content s b =
     (case get (sys_leases s) b of None \<Rightarrow> []
      | Some l \<Rightarrow> (case object_data (sys_store s) (al_digest l) of None \<Rightarrow> [] | Some x \<Rightarrow> x))"

text \<open>
  No operation rewrites the bytes of an object: \<open>data_kept st st'\<close> says that an object present before
  and after has the same bytes.
\<close>

definition data_kept :: "SnapshotStore \<Rightarrow> SnapshotStore \<Rightarrow> bool" where
  "data_kept st st' \<longleftrightarrow>
     (\<forall>d x y. object_data st d = Some x \<longrightarrow> object_data st' d = Some y \<longrightarrow> y = x)"

lemma object_data_release: "object_data (release_object d st) d' = Some x \<Longrightarrow> object_data st d' = Some x"
  by (auto simp: object_data_def release_object_def gomap_simps split: option.splits if_splits)

lemma object_data_fold_release:
  "object_data (fold release_object ds st) d = Some x \<Longrightarrow> object_data st d = Some x"
  by (induction ds arbitrary: st) (auto dest: object_data_release)

lemma object_data_retain: "object_data st d' = Some x \<Longrightarrow> object_data (retain_object d data st) d' = Some x"
  by (auto simp: object_data_def retain_object_def gomap_simps split: option.splits if_splits)

lemma object_data_commit: "object_data st d = Some x \<Longrightarrow> object_data (fst (commit_objects as st)) d = Some x"
  by (induction as arbitrary: st) (auto simp: case_prod_beta Let_def object_data_retain)

lemma object_data_reserved [simp]:
  "object_data (st\<lparr>st_stagingReserved := a\<rparr>) d = object_data st d"
  "object_data (st\<lparr>st_snapshotReserved := a\<rparr>) d = object_data st d"
  by (simp_all add: object_data_def)

lemma object_data_acquire:
  "acquireArtifact st sn n b h = Some (st', l) \<Longrightarrow> object_data st' d = object_data st d"
  by (auto simp: acquireArtifact_def object_data_def gomap_simps split: option.splits if_splits)

lemma data_kept_refl: "data_kept st st"
  by (simp add: data_kept_def)

lemma data_kept_commit: "data_kept st (fst (snd (commit st t)))"
  by (auto simp: data_kept_def commit_def Let_def case_prod_beta)
    (metis object_data_commit option.inject)

lemma sys_step_kept:
  assumes "sys_step sha256 s s'"
  shows "data_kept (sys_store s) (sys_store s') \<and>
    (\<forall>b l. get (sys_leases s) b = Some l \<longrightarrow>
       (\<exists>l'. get (sys_leases s') b = Some l' \<and> al_digest l' = al_digest l \<and> (al_once l \<longrightarrow> al_once l')))"
  using assms
proof cases
  case step_begin
  then show ?thesis by (auto simp: sys_begin_def Let_def data_kept_refl)
next
  case (step_reserve a t sz)
  then show ?thesis
    by (auto simp: sys_reserve_def reserve_def res_simps data_kept_def split: if_splits)
next
  case (step_stage a t declared name rd maximum)
  then show ?thesis by (auto simp: sys_stage_def res_simps data_kept_refl)
next
  case (step_abort a)
  then show ?thesis
    by (auto simp: sys_abort_def abort_transaction_def data_kept_def split: option.splits)
next
  case (step_commit a)
  have "data_kept (sys_store s) (sys_store s')"
    using step_commit data_kept_commit [of "sys_store s"]
    by (fastforce simp: sys_commit_def data_kept_refl Let_def case_prod_beta split: option.splits sum.splits)
  moreover have "sys_leases s' = sys_leases s"
    using step_commit by (auto simp: sys_commit_def Let_def case_prod_beta split: option.splits sum.splits)
  ultimately show ?thesis by simp
next
  case (step_acquire a name b h l)
  then obtain sn st' al where "acquireArtifact (sys_store s) sn name b h = Some (st', al)"
    "s' = s\<lparr>sys_store := st', sys_leases := put (fresh (sys_leases s)) al (sys_leases s)\<rparr>"
    by (auto simp: sys_acquire_def Let_def split: option.splits)
  then show ?thesis
    by (auto simp: data_kept_def object_data_acquire gomap_simps)
next
  case (step_release_lease b)
  then show ?thesis
    by (auto simp: sys_release_lease_def lease_release_def data_kept_def gomap_simps
        dest: object_data_release split: option.splits)
next
  case (step_release_snapshot a)
  then show ?thesis
    by (auto simp: sys_release_snapshot_def snapshot_release_def data_kept_def
        dest: object_data_fold_release split: option.splits)
qed

lemma sys_live_object:
  assumes "sys_inv sha256 s" and "sys_live s b"
  obtains l ob where "get (sys_leases s) b = Some l" "\<not> al_once l"
    "get (st_objects (sys_store s)) (al_digest l) = Some ob" "sha256 (ob_data ob) = al_digest l"
    "sys_content s b = ob_data ob"
proof -
  obtain l where l: "get (sys_leases s) b = Some l" "\<not> al_once l"
    using assms(2) by (auto simp: sys_live_def split: option.splits)
  have "lease_refs (al_digest l) l \<le> msum (lease_refs (al_digest l)) (sys_leases s)"
    by (rule msum_ge [OF l(1)]) (simp add: lease_refs_def)
  moreover have "0 \<le> msum (snap_refs (al_digest l)) (sys_snaps s)"
    by (rule msum_nonneg) (simp add: snap_refs_def)
  ultimately have pos: "0 < total_refs s (al_digest l)"
    using l by (simp add: total_refs_def lease_refs_def)
  obtain ob where "get (st_objects (sys_store s)) (al_digest l) = Some ob" "sha256 (ob_data ob) = al_digest l"
    using store_ok_object [where R = "total_refs s", OF _ pos] assms(1) by (auto simp: sys_inv_def)
  with l show ?thesis
    by (intro that) (auto simp: sys_content_def object_data_def)
qed

lemma object_size_bound:
  assumes "sys_inv sha256 s" and ob: "get (st_objects (sys_store s)) d = Some ob"
  shows "int (length (ob_data ob)) \<le> 2 ^ 62"
proof -
  have "int (length (ob_data ob)) \<le> msum (\<lambda>ob. int (length (ob_data ob))) (st_objects (sys_store s))"
    by (rule msum_ge [OF ob]) simp
  moreover have "0 \<le> msum open_reserved (sys_txns s)"
    by (rule open_reserved_nonneg [of sha256]) (use assms(1) in \<open>simp add: sys_inv_def\<close>)
  ultimately show ?thesis
    using assms(1) by (auto simp: sys_inv_def store_ok_def quota_ok_def limits_ok_def)
qed

text \<open>
  \<^verbatim>\<open>readRange\<close> returns the requested range of the object cut off at its end, also where
  \<^verbatim>\<open>offset + maxBytes\<close> overflows.
\<close>

lemma readRange_exact:
  assumes ob: "get (st_objects st) (al_digest l) = Some ob" and "int (length (ob_data ob)) \<le> max_int64"
    and "0 \<le> off" "off \<le> int (length (ob_data ob))" "0 \<le> mx" "mx \<le> max_int64"
  shows "readRange st l off mx = Some (take (nat mx) (drop (nat off) (ob_data ob)))"
proof (cases "off + mx \<le> int (length (ob_data ob))")
  case True
  then have "add64 off mx = off + mx" using assms by (intro add64_nonneg_id) auto
  with True assms show ?thesis by (simp add: readRange_def Let_def)
next
  case False
  then have "add64 off mx < off \<or> add64 off mx > int (length (ob_data ob))"
  proof (cases "off + mx \<le> max_int64")
    case True
    with False assms show ?thesis by (simp add: add64_nonneg_id)
  next
    case no: False
    then show ?thesis using assms add64_overflow [of off mx] by auto
  qed
  then have "readRange st l off mx =
      Some (take (nat (int (length (ob_data ob)) - off)) (drop (nat off) (ob_data ob)))"
    using assms by (simp add: readRange_def Let_def)
  with False assms show ?thesis by simp
qed

interpretation store_leases: artifact_leases
  "sys_inv sha256" "sys_step sha256" sys_live sys_content sys_readRange for sha256
proof unfold_locales
  show "sys_inv sha256 s'" if "sys_inv sha256 s" "sys_step sha256 s s'" for s s'
    using that by (blast intro: sys_step_inv)
next
  fix s s' l
  assume inv: "sys_inv sha256 s" and st: "sys_step sha256 s s'" and live: "sys_live s l" "sys_live s' l"
  have inv': "sys_inv sha256 s'" using st inv by (rule sys_step_inv)
  obtain al ob where a: "get (sys_leases s) l = Some al"
    "get (st_objects (sys_store s)) (al_digest al) = Some ob" "sys_content s l = ob_data ob"
    using sys_live_object [OF inv live(1)] .
  obtain al' ob' where a': "get (sys_leases s') l = Some al'"
    "get (st_objects (sys_store s')) (al_digest al') = Some ob'" "sys_content s' l = ob_data ob'"
    using sys_live_object [OF inv' live(2)] .
  have "al_digest al' = al_digest al" using sys_step_kept [OF st] a(1) a'(1) by fastforce
  then have "ob_data ob' = ob_data ob"
    using sys_step_kept [OF st] a a' by (auto simp: data_kept_def object_data_def)
  with a a' show "sys_content s' l = sys_content s l" by simp
next
  fix s l off mx
  assume inv: "sys_inv sha256 s" and live: "sys_live s l"
    and b: "0 \<le> off" "off \<le> int (length (sys_content s l))" "0 \<le> mx" "mx \<le> max_int64"
  obtain al ob where a: "get (sys_leases s) l = Some al"
    "get (st_objects (sys_store s)) (al_digest al) = Some ob" "sys_content s l = ob_data ob"
    using sys_live_object [OF inv live] .
  have "int (length (ob_data ob)) \<le> max_int64"
    using object_size_bound [OF inv a(2)] by (simp add: max_int64_def)
  then show "sys_readRange s l off mx = Some (take (nat mx) (drop (nat off) (sys_content s l)))"
    using a b readRange_exact [OF a(2)] by (simp add: sys_readRange_def)
qed

section \<open>Properties of the store\<close>

lemma sys_step_limits: "sys_step sha256 s s' \<Longrightarrow> st_limits (sys_store s') = st_limits (sys_store s)"
  by (induction rule: sys_step.induct)
    (auto simp: sys_begin_def sys_reserve_def reserve_def sys_stage_def sys_abort_def abort_transaction_def
      sys_commit_def commit_def sys_acquire_def sys_release_lease_def lease_release_def
      sys_release_snapshot_def snapshot_release_def res_simps Let_def case_prod_beta
      dest: acquireArtifact_frame split: option.splits if_splits sum.splits)

lemma sys_reachable_limits: "sys_reachable sha256 l s \<Longrightarrow> st_limits (sys_store s) = l"
  by (induction rule: sys_reachable.induct)
    (auto simp: NewSnapshotStore_def sys_init_def sys_step_limits split: if_splits)

lemma snapshot_refs_pos:
  assumes "get (sys_snaps s) a = Some sn" "\<not> sn_once sn" "get (sn_digests sn) name = Some d"
  shows "0 < total_refs s d"
proof -
  have "d \<in> set (map snd (sn_digests sn))" using map_of_SomeD [OF assms(3)] by force
  then have "count_list (map snd (sn_digests sn)) d \<noteq> 0" by (simp only: count_list_0_iff) simp
  then have "0 < snap_refs d sn" using assms(2) by (simp add: snap_refs_def)
  also have "snap_refs d sn \<le> msum (snap_refs d) (sys_snaps s)"
    by (rule msum_ge [OF assms(1)]) (simp add: snap_refs_def)
  moreover have "0 \<le> msum (lease_refs d) (sys_leases s)"
    by (rule msum_nonneg) (simp add: lease_refs_def)
  ultimately show ?thesis by (simp add: total_refs_def)
qed

text \<open>A small run, used by the witnesses: one package of one artifact is staged and committed.\<close>

definition demo_limits :: StoreLimits where
  "demo_limits = \<lparr>StagingBytes = 100, SnapshotBytes = 100\<rparr>"

definition demo_staged :: snapshot_system where
  "demo_staged =
     \<lparr>sys_store = \<lparr>st_limits = demo_limits, st_stagingReserved = 3, st_snapshotReserved = 3,
                   st_snapshotUsed = 0, st_objects = []\<rparr>,
      sys_txns = [(0, \<lparr>tx_reserved = 3, tx_artifacts = [(''a'', \<lparr>sa_data = ''xyz'', sa_digest = ''xyz''\<rparr>)],
                       tx_closed = False, tx_packageSize = 3\<rparr>)],
      sys_snaps = [], sys_leases = []\<rparr>"

definition demo_committed :: snapshot_system where
  "demo_committed =
     \<lparr>sys_store = \<lparr>st_limits = demo_limits, st_stagingReserved = 0, st_snapshotReserved = 0,
                   st_snapshotUsed = 3, st_objects = [(''xyz'', \<lparr>ob_data = ''xyz'', ob_refs = 1\<rparr>)]\<rparr>,
      sys_txns = [(0, \<lparr>tx_reserved = 3, tx_artifacts = [(''a'', \<lparr>sa_data = ''xyz'', sa_digest = ''xyz''\<rparr>)],
                       tx_closed = True, tx_packageSize = 3\<rparr>)],
      sys_snaps = [(0, \<lparr>sn_digests = [(''a'', ''xyz'')], sn_once = False\<rparr>)], sys_leases = []\<rparr>"

definition demo_released :: snapshot_system where
  "demo_released = sys_release_snapshot 0 demo_committed"

definition demo_leased :: snapshot_system where
  "demo_leased = demo_committed\<lparr>
     sys_store := (sys_store demo_committed)\<lparr>st_objects := [(''xyz'', \<lparr>ob_data = ''xyz'', ob_refs = 2\<rparr>)]\<rparr>,
     sys_leases := [(0, \<lparr>al_digest = ''xyz'', al_once = False\<rparr>)]\<rparr>"

lemma demo_limits_ok: "limits_ok demo_limits"
  by (simp add: demo_limits_def limits_ok_def)

lemma demo_staged_reachable: "sys_reachable (\<lambda>x. x) demo_limits demo_staged"
proof -
  let ?st = "\<lparr>st_limits = demo_limits, st_stagingReserved = 0, st_snapshotReserved = 0, st_snapshotUsed = 0, st_objects = []\<rparr>"
  have "NewSnapshotStore demo_limits = Inr ?st" by (simp add: NewSnapshotStore_def demo_limits_def)
  then have r0: "sys_reachable (\<lambda>x. x) demo_limits (sys_init ?st)" by (rule reach_init)
  let ?s1 = "fst (sys_begin (sys_init ?st))"
  have r1: "sys_reachable (\<lambda>x. x) demo_limits ?s1" using r0 step_begin by (rule reach_step)
  let ?s2 = "demo_staged\<lparr>sys_txns := [(0, \<lparr>tx_reserved = 3, tx_artifacts = [], tx_closed = False, tx_packageSize = 3\<rparr>)]\<rparr>"
  have "sys_step (\<lambda>x. x) ?s1 ?s2"
    by (rule step_reserve [where a = 0 and sz = 3])
      (auto simp: sys_begin_def sys_init_def fresh_def begin_transaction_def sys_reserve_def reserve_def
        of_option_def demo_staged_def demo_limits_def PackageArtifactMax_def add64_def wrap64_def)
  with r1 have r2: "sys_reachable (\<lambda>x. x) demo_limits ?s2" by (rule reach_step)
  have "sys_step (\<lambda>x. x) ?s2 demo_staged"
    by (rule step_stage [where a = 0 and name = "''a''" and rd = "(''xyz'', None)" and declared = 3 and maximum = 3])
      (auto simp: sys_stage_def stageReserved_def readAllLimited_def of_option_def demo_staged_def demo_limits_def
        tx_staged_def add64_def wrap64_def)
  with r2 show ?thesis by (rule reach_step)
qed

lemma demo_committed_reachable: "sys_reachable (\<lambda>x. x) demo_limits demo_committed"
proof -
  have "snd (sys_commit 0 demo_staged) = demo_committed"
    by (simp add: sys_commit_def commit_def demo_staged_def demo_committed_def demo_limits_def
        retain_object_def fresh_def Let_def)
  then show ?thesis
    using reach_step [OF demo_staged_reachable step_commit, of 0] by simp
qed

lemma demo_released_reachable: "sys_reachable (\<lambda>x. x) demo_limits demo_released"
  unfolding demo_released_def by (rule reach_step [OF demo_committed_reachable step_release_snapshot])

lemma demo_leased_acquire:
  "sys_acquire 0 ''a'' 3 (hexEncode ''xyz'') demo_committed = Some (demo_leased, 0)"
  by (simp add: sys_acquire_def acquireArtifact_def demo_committed_def demo_leased_def fresh_def Let_def)

text \<open>C25: In every state the store can reach, the staging and snapshot counters stay between zero and
  the configured limits, and the bytes in use plus the bytes promised to open transactions never
  exceed the snapshot quota.\<close>

theorem store_quota:
  assumes "sys_reachable sha256 l s" and "limits_ok l"
  shows "0 \<le> ss_StagingReserved (store_Stats (sys_store s)) \<and>
    ss_StagingReserved (store_Stats (sys_store s)) \<le> StagingBytes l \<and>
    0 \<le> ss_SnapshotReserved (store_Stats (sys_store s)) \<and>
    0 \<le> ss_SnapshotUsed (store_Stats (sys_store s)) \<and>
    ss_SnapshotUsed (store_Stats (sys_store s)) + ss_SnapshotReserved (store_Stats (sys_store s)) \<le> SnapshotBytes l"
proof -
  have inv: "sys_inv sha256 s" using assms by (rule sys_reachable_inv)
  then have h: "heaps_ok sha256 s" by (simp add: sys_inv_def)
  show ?thesis
    using inv open_reserved_nonneg [OF h] store_ok_used_nonneg [of sha256 "total_refs s" "sys_store s"]
      sys_reachable_limits [OF assms(1)]
    by (simp add: sys_inv_def quota_ok_def store_Stats_def)
qed

theorem store_quota_witness:
  "ss_SnapshotUsed (store_Stats (sys_store demo_committed)) = 3 \<and>
   ss_SnapshotUsed (store_Stats (sys_store demo_committed)) \<le> SnapshotBytes demo_limits"
  using store_quota [OF demo_committed_reachable demo_limits_ok]
  by (simp add: demo_committed_def store_Stats_def)

text \<open>C3: Whatever other packages, leases and releases do to the store, a snapshot that has not been
  released can read every artifact it names, and the bytes it reads hash to the digest it recorded.\<close>

theorem live_snapshot_readable:
  assumes "sys_reachable sha256 l s" and "limits_ok l"
    and "get (sys_snaps s) a = Some sn" and "\<not> sn_once sn" and "get (sn_digests sn) name = Some d"
  shows "\<exists>data. sys_Read s a name = Some data \<and> sha256 data = d"
proof -
  have "sys_inv sha256 s" using assms(1,2) by (rule sys_reachable_inv)
  then have "store_ok sha256 (total_refs s) (sys_store s)" by (simp add: sys_inv_def)
  then obtain ob where "get (st_objects (sys_store s)) d = Some ob" "sha256 (ob_data ob) = d"
    using store_ok_object snapshot_refs_pos [OF assms(3-5)] by blast
  with assms(3,5) show ?thesis by (simp add: sys_Read_def snapshot_Read_def)
qed

theorem live_snapshot_readable_witness:
  "\<exists>data. sys_Read demo_committed 0 ''a'' = Some data \<and> data = ''xyz''"
  by (rule live_snapshot_readable [OF demo_committed_reachable demo_limits_ok,
        where sn = "\<lparr>sn_digests = [(''a'', ''xyz'')], sn_once = False\<rparr>"])
    (simp_all add: demo_committed_def)

text \<open>Committing an open transaction whose bytes were staged within its reservations cannot fail:
  the quota check inside \<^verbatim>\<open>commit\<close> never rejects a package that was staged this way.\<close>

theorem commit_never_fails:
  assumes "sys_reachable sha256 l s" and "limits_ok l"
    and "get (sys_txns s) a = Some t" and "\<not> tx_closed t"
  shows "\<exists>b sn. fst (sys_commit a s) = Inr b \<and> get (sys_snaps (snd (sys_commit a s))) b = Some sn \<and>
    sn_digests sn = map (\<lambda>(name, x). (name, sa_digest x)) (tx_artifacts t) \<and> \<not> sn_once sn"
proof -
  have inv: "sys_inv sha256 s" using assms(1,2) by (rule sys_reachable_inv)
  show ?thesis
    using sys_commit_eq [OF inv assms(3,4)] by (simp add: gomap_simps)
qed

theorem commit_never_fails_witness:
  "\<exists>b sn. fst (sys_commit 0 demo_staged) = Inr b \<and>
     get (sys_snaps (snd (sys_commit 0 demo_staged))) b = Some sn \<and>
     sn_digests sn = [(''a'', ''xyz'')] \<and> \<not> sn_once sn"
  using commit_never_fails [OF demo_staged_reachable demo_limits_ok, of 0
      "\<lparr>tx_reserved = 3, tx_artifacts = [(''a'', \<lparr>sa_data = ''xyz'', sa_digest = ''xyz''\<rparr>)],
        tx_closed = False, tx_packageSize = 3\<rparr>"]
  by (simp add: demo_staged_def)

text \<open>C32: Nothing leaks: once every transaction is closed and every snapshot and lease released, all
  counters are zero and no object is left.\<close>

theorem store_no_leak:
  assumes "sys_reachable sha256 l s" and "limits_ok l"
    and "\<forall>a t. get (sys_txns s) a = Some t \<longrightarrow> tx_closed t"
    and "\<forall>a sn. get (sys_snaps s) a = Some sn \<longrightarrow> sn_once sn"
    and "\<forall>b al. get (sys_leases s) b = Some al \<longrightarrow> al_once al"
  shows "store_Stats (sys_store s) =
    \<lparr>ss_StagingReserved = 0, ss_SnapshotReserved = 0, ss_SnapshotUsed = 0, ss_Objects = 0\<rparr>"
proof -
  have inv: "sys_inv sha256 s" using assms(1,2) by (rule sys_reachable_inv)
  then have k: "keys_ok (sys_txns s)" "keys_ok (sys_snaps s)" "keys_ok (sys_leases s)"
    by (simp_all add: sys_inv_def heaps_ok_def)
  have "msum open_reserved (sys_txns s) = 0"
    using assms(3) k by (intro msum_zero) (auto simp: keys_ok_get open_reserved_def)
  moreover have "total_refs s d = 0" for d
  proof -
    have "msum (snap_refs d) (sys_snaps s) = 0" using assms(4) k by (intro msum_zero) (auto simp: keys_ok_get snap_refs_def)
    moreover have "msum (lease_refs d) (sys_leases s) = 0"
      using assms(5) k by (intro msum_zero) (auto simp: keys_ok_get lease_refs_def)
    ultimately show ?thesis by (simp add: total_refs_def)
  qed
  then have "\<forall>d. get (st_objects (sys_store s)) d = None" using inv by (simp add: sys_inv_def store_ok_def)
  then have "st_objects (sys_store s) = []" by (metis ext map_of_eq_empty_iff)
  ultimately show ?thesis
    using inv by (simp add: store_Stats_def sys_inv_def quota_ok_def store_ok_def)
qed

theorem store_no_leak_witness:
  "store_Stats (sys_store demo_released) =
    \<lparr>ss_StagingReserved = 0, ss_SnapshotReserved = 0, ss_SnapshotUsed = 0, ss_Objects = 0\<rparr>"
  by (rule store_no_leak [OF demo_released_reachable demo_limits_ok])
    (auto simp: demo_released_def demo_committed_def sys_release_snapshot_def snapshot_release_def
      release_object_def gomap_simps split: if_splits)

text \<open>Reading a leased artifact in consecutive ranges, while other users of the store take any steps
  in between, returns exactly the leased bytes as soon as the ranges cover them, including ranges
  whose end would overflow a 64-bit integer.\<close>

theorem leased_reads_reassemble:
  assumes "sys_inv sha256 s0"
    and "\<forall>r \<in> set rs. store_leases.keeps sha256 l s0 (fst r) \<and> 0 \<le> snd r \<and> snd r \<le> max_int64"
    and "int (length (sys_content s0 l)) \<le> sum_list (map snd rs)"
  shows "store_leases.reads l 0 rs = Some (sys_content s0 l)"
  using assms by (rule store_leases.reads_all)

theorem leased_reads_reassemble_witness:
  "store_leases.reads 0 0 [(demo_leased, 2), (demo_leased, max_int64)] = Some ''xyz''"
proof -
  have inv: "sys_inv (\<lambda>x. x) demo_committed"
    using demo_committed_reachable demo_limits_ok by (rule sys_reachable_inv)
  have inv': "sys_inv (\<lambda>x. x) demo_leased"
    using inv demo_leased_acquire by (rule sys_acquire_inv)
  have live: "store_leases.keeps (\<lambda>x. x) 0 demo_leased demo_leased"
    by (rule store_leases.keeps_refl) (simp add: sys_live_def demo_leased_def)
  have c: "sys_content demo_leased 0 = ''xyz''"
    by (simp add: sys_content_def object_data_def demo_leased_def demo_committed_def)
  show ?thesis
    using leased_reads_reassemble [OF inv', of "[(demo_leased, 2), (demo_leased, max_int64)]" 0] live c
    by (simp add: max_int64_def)
qed

lemma object_data_commit_source:
  "object_data (fst (commit_objects as st)) d = Some y \<Longrightarrow>
     object_data st d = Some y \<or> (\<exists>n z. (n, z) \<in> set as \<and> sa_data z = y \<and> sa_digest z = d)"
proof (induction as arbitrary: st)
  case (Cons p as)
  obtain n a where p: "p = (n, a)" by force
  let ?st = "retain_object (sa_digest a) (sa_data a) st"
  have "object_data ?st d = Some y \<or> (\<exists>n z. (n, z) \<in> set as \<and> sa_data z = y \<and> sa_digest z = d)"
    using Cons p by (simp add: case_prod_beta)
  moreover have "object_data ?st d = Some y \<Longrightarrow> object_data st d = Some y \<or> (sa_data a = y \<and> sa_digest a = d)"
    by (auto simp: object_data_def retain_object_def gomap_simps split: option.splits if_splits)
  ultimately show ?case by (auto simp: p)
qed simp

lemma get_digests: "get (map (\<lambda>(n, x). (n, sa_digest x)) as) name = map_option sa_digest (get as name)"
  by (induction as) auto

text \<open>C33: Bytes survive the store: an artifact staged under a name reads back unchanged from the
  snapshot that committing its transaction returns, provided SHA-256 does not collide between this
  artifact and the bytes already stored or staged with it.\<close>

theorem commit_read_roundtrip:
  assumes inv: "sys_inv sha256 s" and t: "get (sys_txns s) a = Some t" "\<not> tx_closed t"
    and x: "get (tx_artifacts t) name = Some x"
    and no_collision: "\<forall>y. ((\<exists>d. object_data (sys_store s) d = Some y) \<or>
        (\<exists>n z. (n, z) \<in> set (tx_artifacts t) \<and> sa_data z = y)) \<longrightarrow> sha256 y = sha256 (sa_data x) \<longrightarrow> y = sa_data x"
  shows "\<exists>b. fst (sys_commit a s) = Inr b \<and> sys_Read (snd (sys_commit a s)) b name = Some (sa_data x)"
proof -
  let ?b = "fresh (sys_snaps s)" and ?s' = "snd (sys_commit a s)"
  let ?sn = "\<lparr>sn_digests = map (\<lambda>(name, a). (name, sa_digest a)) (tx_artifacts t), sn_once = False\<rparr>"
  note eq = sys_commit_eq [OF inv t]
  have inv': "sys_inv sha256 ?s'" using inv by (rule sys_commit_inv)
  have sn: "get (sys_snaps ?s') ?b = Some ?sn" by (simp add: eq gomap_simps)
  have "0 < total_refs ?s' (sa_digest x)"
    using sn by (rule snapshot_refs_pos [where name = name]) (simp_all add: get_digests x)
  then obtain ob where ob: "get (st_objects (sys_store ?s')) (sa_digest x) = Some ob" "sha256 (ob_data ob) = sa_digest x"
    using store_ok_object [of sha256 "total_refs ?s'"] inv' by (auto simp: sys_inv_def)
  have "tx_ok sha256 t" using inv t by (auto simp: sys_inv_def heaps_ok_def)
  then have "sha256 (sa_data x) = sa_digest x" using t x by (auto simp: tx_ok_def dest: map_of_SomeD)
  moreover have "object_data (fst (commit_objects (tx_artifacts t) (sys_store s))) (sa_digest x) = Some (ob_data ob)"
    using ob(1) by (simp add: eq object_data_def)
  then have "(\<exists>d. object_data (sys_store s) d = Some (ob_data ob)) \<or>
      (\<exists>n z. (n, z) \<in> set (tx_artifacts t) \<and> sa_data z = ob_data ob)"
    using object_data_commit_source by blast
  ultimately have "ob_data ob = sa_data x" using no_collision ob(2) by auto
  then have "sys_Read ?s' ?b name = Some (sa_data x)"
    using sn ob(1) by (simp add: sys_Read_def snapshot_Read_def get_digests x)
  then show ?thesis by (simp add: eq)
qed

theorem commit_read_roundtrip_witness:
  "\<exists>b. fst (sys_commit 0 demo_staged) = Inr b \<and> sys_Read (snd (sys_commit 0 demo_staged)) b ''a'' = Some ''xyz''"
  using commit_read_roundtrip [OF sys_reachable_inv [OF demo_staged_reachable demo_limits_ok], of 0
      "\<lparr>tx_reserved = 3, tx_artifacts = [(''a'', \<lparr>sa_data = ''xyz'', sa_digest = ''xyz''\<rparr>)],
        tx_closed = False, tx_packageSize = 3\<rparr>" "''a''" "\<lparr>sa_data = ''xyz'', sa_digest = ''xyz''\<rparr>"]
  by (simp add: demo_staged_def)

end
