(* ===== verification/GoStrings.thy ===== *)
theory GoStrings
  imports Prelude
begin

text \<open>
  The functions of Go's packages \<^verbatim>\<open>strings\<close>, \<^verbatim>\<open>path\<close>, \<^verbatim>\<open>path/filepath\<close> and \<^verbatim>\<open>unicode/utf8\<close> that the
  modelled code calls, on byte strings, with the laws of splitting and joining dotted paths.
\<close>

section \<open>Definitions\<close>

definition dot :: char where "dot = CHR ''.''"
definition slash :: char where "slash = CHR ''/''"

definition hasPrefix :: "string \<Rightarrow> string \<Rightarrow> bool" where
  "hasPrefix s p \<longleftrightarrow> take (length p) s = p"

definition hasSuffix :: "string \<Rightarrow> string \<Rightarrow> bool" where
  "hasSuffix s p \<longleftrightarrow> length p \<le> length s \<and> drop (length s - length p) s = p"

definition trimPrefix :: "string \<Rightarrow> string \<Rightarrow> string" where
  "trimPrefix s p = (if hasPrefix s p then drop (length p) s else s)"

definition trimSuffix :: "string \<Rightarrow> string \<Rightarrow> string" where
  "trimSuffix s p = (if hasSuffix s p then take (length s - length p) s else s)"

fun containsString :: "string \<Rightarrow> string \<Rightarrow> bool" where
  "containsString [] p = (p = [])"
| "containsString (x # xs) p = (hasPrefix (x # xs) p \<or> containsString xs p)"

text \<open>\<^verbatim>\<open>strings.Split(s, sep)\<close> for a separator of one byte, and \<^verbatim>\<open>strings.Join\<close>.\<close>

fun splitOn :: "char \<Rightarrow> string \<Rightarrow> string list" where
  "splitOn c [] = [[]]"
| "splitOn c (x # xs) =
     (if x = c then [] # splitOn c xs
      else case splitOn c xs of [] \<Rightarrow> [[x]] | y # ys \<Rightarrow> (x # y) # ys)"

fun joinWith :: "char \<Rightarrow> string list \<Rightarrow> string" where
  "joinWith c [] = []"
| "joinWith c [x] = x"
| "joinWith c (x # y # ys) = x @ c # joinWith c (y # ys)"

text \<open>\<^verbatim>\<open>strings.LastIndexByte\<close>, with \<open>-1\<close> for no occurrence.\<close>

fun lastIndexByte :: "string \<Rightarrow> char \<Rightarrow> int" where
  "lastIndexByte [] c = -1"
| "lastIndexByte (x # xs) c =
     (let i = lastIndexByte xs c in if i \<ge> 0 then i + 1 else if x = c then 0 else -1)"

text \<open>\<^verbatim>\<open>bytes.IndexByte\<close>.\<close>

fun indexByte :: "string \<Rightarrow> char \<Rightarrow> int" where
  "indexByte [] c = -1"
| "indexByte (x # xs) c = (if x = c then 0 else let i = indexByte xs c in if i < 0 then -1 else i + 1)"

text \<open>\<^verbatim>\<open>strings.Trim(s, cutset)\<close> for a cutset of one byte.\<close>

definition trimByte :: "char \<Rightarrow> string \<Rightarrow> string" where
  "trimByte c s = rev (dropWhile (\<lambda>x. x = c) (rev (dropWhile (\<lambda>x. x = c) s)))"

text \<open>\<^verbatim>\<open>filepath.Ext\<close>: from the last dot of the last path element.\<close>

definition filepathExt :: "string \<Rightarrow> string" where
  "filepathExt p =
     (let base = rev (takeWhile (\<lambda>c. c \<noteq> slash) (rev p)); i = lastIndexByte base dot
      in if i < 0 then [] else drop (nat i) base)"

text \<open>
  \<^verbatim>\<open>path.Clean\<close> on slash-separated elements: empty and \<^verbatim>\<open>.\<close> elements vanish, \<^verbatim>\<open>..\<close> removes the element
  before it or, at the front of a relative path, stays.
\<close>

fun clean_elems :: "bool \<Rightarrow> string list \<Rightarrow> string list \<Rightarrow> string list" where
  "clean_elems rooted acc [] = rev acc"
| "clean_elems rooted acc (e # es) =
     (if e = [] \<or> e = ''.'' then clean_elems rooted acc es
      else if e = ''..''
      then (case acc of
              [] \<Rightarrow> if rooted then clean_elems rooted [] es else clean_elems rooted [''..''] es
            | a # as \<Rightarrow> if a = ''..'' then clean_elems rooted (''..'' # acc) es else clean_elems rooted as es)
      else clean_elems rooted (e # acc) es)"

definition pathClean :: "string \<Rightarrow> string" where
  "pathClean p =
     (if p = [] then ''.''
      else let rooted = (hd p = slash);
               body = joinWith slash (clean_elems rooted [] (splitOn slash p));
               out = (if rooted then slash # body else body)
           in if out = [] then ''.'' else out)"

definition pathJoin :: "string \<Rightarrow> string \<Rightarrow> string" where
  "pathJoin a b =
     (if a = [] \<and> b = [] then []
      else pathClean (if a = [] then b else if b = [] then a else a @ slash # b))"

text \<open>\<^verbatim>\<open>path.Base\<close>.\<close>

definition pathBase :: "string \<Rightarrow> string" where
  "pathBase p =
     (if p = [] then ''.''
      else let q = rev (dropWhile (\<lambda>c. c = slash) (rev p));
               b = rev (takeWhile (\<lambda>c. c \<noteq> slash) (rev q))
           in if b = [] then ''/'' else b)"

section \<open>UTF-8\<close>

text \<open>
  \<^verbatim>\<open>utf8.DecodeRune\<close>: the code point at the front of a byte string and its width, with
  \<^const>\<open>None\<close> for an invalid encoding (for which Go returns U+FFFD and width one).
\<close>

definition byteN :: "char \<Rightarrow> nat" where
  "byteN c = of_char c"

definition is_cont :: "nat \<Rightarrow> bool" where
  "is_cont b \<longleftrightarrow> 128 \<le> b \<and> b \<le> 191"

definition second_ok :: "nat \<Rightarrow> nat \<Rightarrow> bool" where
  "second_ok b0 b1 \<longleftrightarrow>
     (if b0 = 224 then 160 else if b0 = 240 then 144 else 128) \<le> b1 \<and>
     b1 \<le> (if b0 = 237 then 159 else if b0 = 244 then 143 else 191)"

fun decodeRune :: "nat list \<Rightarrow> (nat \<times> nat) option" where
  "decodeRune [] = None"
| "decodeRune (b0 # bs) =
     (if b0 < 128 then Some (b0, 1)
      else case bs of [] \<Rightarrow> None
      | b1 # cs \<Rightarrow>
        if 194 \<le> b0 \<and> b0 \<le> 223
        then (if is_cont b1 then Some ((b0 - 192) * 64 + (b1 - 128), 2) else None)
        else if b0 < 224 \<or> 244 < b0 \<or> \<not> second_ok b0 b1 then None
        else (case cs of [] \<Rightarrow> None
              | b2 # ds \<Rightarrow>
                if \<not> is_cont b2 then None
                else if b0 < 240 then Some ((b0 - 224) * 4096 + (b1 - 128) * 64 + (b2 - 128), 3)
                else (case ds of [] \<Rightarrow> None
                      | b3 # es \<Rightarrow>
                        if is_cont b3
                        then Some ((b0 - 240) * 262144 + (b1 - 128) * 4096 + (b2 - 128) * 64 + (b3 - 128), 4)
                        else None)))"

definition runeError :: nat where "runeError = 65533"

text \<open>\<^verbatim>\<open>[]rune(s)\<close>: the code points, with U+FFFD for every invalid byte; and \<^verbatim>\<open>utf8.Valid\<close>.\<close>

function runes_of :: "nat list \<Rightarrow> nat list" where
  "runes_of [] = []"
| "runes_of (b # bs) =
     (case decodeRune (b # bs) of
        None \<Rightarrow> runeError # runes_of bs
      | Some (r, w) \<Rightarrow> r # runes_of (drop (w - 1) bs))"
  by pat_completeness auto
termination
  by (relation "measure length") auto

function utf8_valid :: "nat list \<Rightarrow> bool" where
  "utf8_valid [] = True"
| "utf8_valid (b # bs) =
     (case decodeRune (b # bs) of None \<Rightarrow> False | Some (r, w) \<Rightarrow> utf8_valid (drop (w - 1) bs))"
  by pat_completeness auto
termination
  by (relation "measure length") auto

definition runes :: "string \<Rightarrow> nat list" where
  "runes s = runes_of (map byteN s)"

definition validString :: "string \<Rightarrow> bool" where
  "validString s = utf8_valid (map byteN s)"

text \<open>\<^verbatim>\<open>string(r)\<close> for a code point, and \<^verbatim>\<open>string(rs)\<close> for a slice of them.\<close>

definition encodeRune :: "nat \<Rightarrow> nat list" where
  "encodeRune r =
     (if r < 128 then [r]
      else if r < 2048 then [192 + r div 64, 128 + r mod 64]
      else if 1114111 < r \<or> (55296 \<le> r \<and> r \<le> 57343) then [239, 191, 189]
      else if r < 65536 then [224 + r div 4096, 128 + r div 64 mod 64, 128 + r mod 64]
      else [240 + r div 262144, 128 + r div 4096 mod 64, 128 + r div 64 mod 64, 128 + r mod 64])"

definition stringOfRunes :: "nat list \<Rightarrow> string" where
  "stringOfRunes rs = map char_of (concat (map encodeRune rs))"

text \<open>The white space of \<^verbatim>\<open>unicode.IsSpace\<close>.\<close>

definition isSpace :: "nat \<Rightarrow> bool" where
  "isSpace r \<longleftrightarrow> (9 \<le> r \<and> r \<le> 13) \<or> r = 32 \<or> r = 133 \<or> r = 160 \<or> r = 5760 \<or> (8192 \<le> r \<and> r \<le> 8202) \<or>
     r = 8232 \<or> r = 8233 \<or> r = 8239 \<or> r = 8287 \<or> r = 12288"

text \<open>The runes of a byte string, each with its bytes; \<^verbatim>\<open>strings.TrimFunc\<close>, which is
  \<^verbatim>\<open>TrimSpace\<close> when it is applied to \<^verbatim>\<open>unicode.IsSpace\<close>.\<close>

function runeChunks :: "nat list \<Rightarrow> (nat \<times> nat list) list" where
  "runeChunks [] = []"
| "runeChunks (b # bs) =
     (case decodeRune (b # bs) of
        None \<Rightarrow> (runeError, [b]) # runeChunks bs
      | Some (r, w) \<Rightarrow> (r, take w (b # bs)) # runeChunks (drop (w - 1) bs))"
  by pat_completeness auto
termination
  by (relation "measure length") auto

definition trimFunc :: "(nat \<Rightarrow> bool) \<Rightarrow> string \<Rightarrow> string" where
  "trimFunc f s =
     map char_of (concat (map snd
       (rev (dropWhile (\<lambda>c. f (fst c)) (rev (dropWhile (\<lambda>c. f (fst c)) (runeChunks (map byteN s))))))))"

section \<open>Splitting and joining\<close>

lemma splitOn_nonempty [simp]: "splitOn c s \<noteq> []"
  by (induction s) (auto split: list.splits)

lemma joinWith_Cons: "ys \<noteq> [] \<Longrightarrow> joinWith c (x # ys) = x @ c # joinWith c ys"
  by (cases ys) auto

lemma joinWith_Cons_hd: "joinWith c ((x # y) # ys) = x # joinWith c (y # ys)"
  by (cases ys) auto

lemma join_split [simp]: "joinWith c (splitOn c s) = s"
proof (induction s)
  case (Cons x s)
  then show ?case
    by (auto simp: joinWith_Cons joinWith_Cons_hd split: list.splits)
qed simp

lemma split_parts: "p \<in> set (splitOn c s) \<Longrightarrow> c \<notin> set p"
proof (induction s arbitrary: p)
  case (Cons x s)
  then show ?case by (auto split: if_splits list.splits)
qed simp

lemma splitOn_no_sep: "c \<notin> set s \<Longrightarrow> splitOn c s = [s]"
  by (induction s) auto

lemma splitOn_append: "c \<notin> set a \<Longrightarrow> splitOn c (a @ c # s) = a # splitOn c s"
  by (induction a) auto

lemma split_join: "ps \<noteq> [] \<Longrightarrow> \<forall>p \<in> set ps. c \<notin> set p \<Longrightarrow> splitOn c (joinWith c ps) = ps"
  by (induction ps rule: joinWith.induct) (auto simp: splitOn_no_sep splitOn_append)

lemma joinWith_inj:
  assumes "joinWith c ps = joinWith c qs" and "ps \<noteq> []" "qs \<noteq> []"
    and "\<forall>p \<in> set ps. c \<notin> set p" "\<forall>p \<in> set qs. c \<notin> set p"
  shows "ps = qs"
  using assms split_join by metis

lemma joinWith_snoc: "ps \<noteq> [] \<Longrightarrow> joinWith c (ps @ [x]) = joinWith c ps @ c # x"
  by (induction ps rule: joinWith.induct) auto

lemma hasPrefix_append [simp]: "hasPrefix (p @ s) p"
  by (simp add: hasPrefix_def)

lemma hasPrefix_iff: "hasPrefix s p \<longleftrightarrow> (\<exists>t. s = p @ t)"
  by (metis append_take_drop_id append_eq_conv_conj hasPrefix_def)

lemma trimPrefix_append [simp]: "trimPrefix (p @ s) p = s"
  by (simp add: trimPrefix_def)

lemma lastIndexByte_ge: "-1 \<le> lastIndexByte s c"
  by (induction s) (auto simp: Let_def)

lemma lastIndexByte_none: "c \<notin> set s \<longleftrightarrow> lastIndexByte s c = -1"
proof (induction s)
  case (Cons x s)
  then show ?case using lastIndexByte_ge [of s c] by (auto simp: Let_def)
qed simp

lemma lastIndexByte_append:
  "c \<notin> set t \<Longrightarrow> lastIndexByte (s @ c # t) c = int (length s)"
proof (induction s)
  case Nil
  then have "lastIndexByte t c = -1" by (simp flip: lastIndexByte_none)
  then show ?case by simp
qed simp

end
