(* ===== verification/Records.thy ===== *)
theory Records
  imports Store_System GoStrings
begin

text \<open>
  The data of a package: the manifest types of \<^verbatim>\<open>internal/capability/types.go\<close> and the immutable
  capability record of \<^verbatim>\<open>record.go\<close> with its accessors.  Go copies slices and maps when it hands them
  out; values are immutable here, so a copy is the value itself.  The snapshot of a record is the
  address of a snapshot of the store, or \<^const>\<open>None\<close> for a nil pointer.
\<close>

section \<open>Manifest types\<close>

record Metadata =
  md_ID :: string
  md_Name :: string
  md_Version :: string
  md_Description :: string
  md_Tags :: "string list"

record SkillResource =
  sr_ID :: string
  sr_Kind :: string
  sr_Path :: string

record SkillDeclaration =
  sd_Path :: string
  sd_Resources :: "SkillResource list"

record Operation =
  op_ID :: string
  op_Description :: string
  op_Provider :: string
  op_Target :: string

record ContextReference =
  cr_ID :: string
  cr_Path :: string

record ProviderBinding =
  pb_ID :: string
  pb_Type :: string
  pb_ServerRef :: string

record Spec =
  sp_Parent :: string
  sp_Skills :: "SkillDeclaration list"
  sp_Operations :: "Operation list"
  sp_Context :: "ContextReference list"
  sp_Providers :: "ProviderBinding list"

record Manifest =
  mf_APIVersion :: string
  mf_Kind :: string
  mf_Metadata :: Metadata
  mf_Spec :: Spec

record SkillMetadata =
  sm_Name :: string
  sm_Description :: string
  sm_License :: string
  sm_AllowedTools :: string
  sm_Compatibility :: string
  sm_Metadata :: "(string, string) gomap option"

record SkillDocument =
  doc_Metadata :: SkillMetadata
  doc_Body :: string

section \<open>Capability records\<close>

datatype ArtifactKind = ArtifactManifest | ArtifactSkill | ArtifactSkillResource | ArtifactContext

fun kindString :: "ArtifactKind \<Rightarrow> string" where
  "kindString ArtifactManifest = ''manifest''"
| "kindString ArtifactSkill = ''skill''"
| "kindString ArtifactSkillResource = ''skill_resource''"
| "kindString ArtifactContext = ''context''"

record Artifact =
  ar_Ref :: string
  ar_Kind :: ArtifactKind
  ar_ID :: string
  ar_Path :: string
  ar_MediaType :: string
  ar_Bytes :: int
  ar_SHA256 :: string

record Skill =
  sk_Path :: string
  sk_Metadata :: SkillMetadata
  sk_Artifact :: Artifact
  sk_Resources :: "Artifact list"

record Record =
  rc_metadata :: Metadata
  rc_parent :: string
  rc_manifestDigest :: string
  rc_skills :: "Skill list"
  rc_operations :: "Operation list"
  rc_context :: "Artifact list"
  rc_providers :: "ProviderBinding list"
  rc_artifacts :: "(string, Artifact) gomap"
  rc_snapshot :: "nat option"

definition cloneStringMap :: "(string, string) gomap option \<Rightarrow> (string, string) gomap option" where
  "cloneStringMap source = (case source of None \<Rightarrow> None | Some m \<Rightarrow> Some (map (\<lambda>(k, v). (k, v)) m))"

definition cloneSkill :: "Skill \<Rightarrow> Skill" where
  "cloneSkill skill =
     skill\<lparr>sk_Metadata := (sk_Metadata skill)\<lparr>sm_Metadata := cloneStringMap (sm_Metadata (sk_Metadata skill))\<rparr>,
           sk_Resources := [] @ sk_Resources skill\<rparr>"

definition Record_Metadata :: "Record \<Rightarrow> Metadata" where
  "Record_Metadata r = (rc_metadata r)\<lparr>md_Tags := [] @ md_Tags (rc_metadata r)\<rparr>"

definition Record_Skills :: "Record \<Rightarrow> Skill list" where
  "Record_Skills r = map cloneSkill (rc_skills r)"

definition Record_Artifact :: "Record \<Rightarrow> string \<Rightarrow> Artifact option" where
  "Record_Artifact r ref = get (rc_artifacts r) ref"

definition Record_ReadArtifact :: "snapshot_system \<Rightarrow> Record \<Rightarrow> string \<Rightarrow> bytes option" where
  "Record_ReadArtifact s r ref =
     (case get (rc_artifacts r) ref of None \<Rightarrow> None
      | Some artifact \<Rightarrow>
        (case rc_snapshot r of None \<Rightarrow> None | Some sid \<Rightarrow> sys_Read s sid (ar_Path artifact)))"

definition Record_acquireArtifact ::
  "Record \<Rightarrow> string \<Rightarrow> snapshot_system \<Rightarrow> (Artifact \<times> nat \<times> snapshot_system) option" where
  "Record_acquireArtifact r ref s =
     (case get (rc_artifacts r) ref of None \<Rightarrow> None
      | Some artifact \<Rightarrow>
        (case rc_snapshot r of None \<Rightarrow> None
         | Some sid \<Rightarrow>
           (case sys_acquire sid (ar_Path artifact) (ar_Bytes artifact) (ar_SHA256 artifact) s of None \<Rightarrow> None
            | Some (s', l) \<Rightarrow> Some (artifact, l, s'))))"

definition Record_release :: "Record \<Rightarrow> snapshot_system \<Rightarrow> snapshot_system" where
  "Record_release r s = (case rc_snapshot r of None \<Rightarrow> s | Some sid \<Rightarrow> sys_release_snapshot sid s)"

text \<open>
  \<^verbatim>\<open>newArtifact\<close>: the reference of an artifact is a hash over the identity of its package version
  and its content, separated by NUL bytes.  \<^verbatim>\<open>mime.TypeByExtension\<close> reads the system's tables and is
  the parameter \<open>mime\<close>.
\<close>

definition refSource :: "Manifest \<Rightarrow> string \<Rightarrow> ArtifactKind \<Rightarrow> string \<Rightarrow> string \<Rightarrow> string" where
  "refSource manifest manifestDigest kind aid hexDigest =
     joinWith (CHR 0x00)
       [md_ID (mf_Metadata manifest), md_Version (mf_Metadata manifest), manifestDigest, kindString kind, aid, hexDigest]"

definition newArtifact ::
  "(bytes \<Rightarrow> digest) \<Rightarrow> (string \<Rightarrow> string) \<Rightarrow> Manifest \<Rightarrow> string \<Rightarrow> ArtifactKind \<Rightarrow> string \<Rightarrow> string \<Rightarrow> stagedArtifact \<Rightarrow> Artifact" where
  "newArtifact sha256 mime manifest manifestDigest kind aid packagePath staged =
     (let digest = hexEncode (sa_digest staged);
          refDigest = sha256 (refSource manifest manifestDigest kind aid digest);
          mt = mime (filepathExt packagePath)
      in \<lparr>ar_Ref = ''artifact:v1:'' @ hexEncode refDigest, ar_Kind = kind, ar_ID = aid, ar_Path = packagePath,
          ar_MediaType = (if mt = [] then ''text/plain; charset=utf-8'' else mt),
          ar_Bytes = int (length (sa_data staged)), ar_SHA256 = digest\<rparr>)"

definition sortRecord :: "Record \<Rightarrow> Record" where
  "sortRecord r =
     r\<lparr>rc_skills := map (\<lambda>s. s\<lparr>sk_Resources := sort_key ar_ID (sk_Resources s)\<rparr>) (sort_key sk_Path (rc_skills r)),
       rc_operations := sort_key op_ID (rc_operations r),
       rc_context := sort_key ar_ID (rc_context r),
       rc_providers := sort_key pb_ID (rc_providers r)\<rparr>"

section \<open>Copies are the values themselves\<close>

lemma cloneStringMap_id [simp]: "cloneStringMap m = m"
  by (auto simp: cloneStringMap_def split: option.splits)

lemma cloneSkill_id [simp]: "cloneSkill s = s"
  by (simp add: cloneSkill_def)

lemma Record_Skills_eq [simp]: "Record_Skills r = rc_skills r"
  by (simp add: Record_Skills_def map_idI)

lemma Record_Metadata_eq [simp]: "Record_Metadata r = rc_metadata r"
  by (simp add: Record_Metadata_def)

lemma sortRecord_simps [simp]:
  "rc_metadata (sortRecord r) = rc_metadata r" "rc_parent (sortRecord r) = rc_parent r"
  "rc_artifacts (sortRecord r) = rc_artifacts r" "rc_snapshot (sortRecord r) = rc_snapshot r"
  "rc_manifestDigest (sortRecord r) = rc_manifestDigest r"
  by (simp_all add: sortRecord_def)

section \<open>Records backed by a snapshot\<close>

text \<open>
  A record is backed when its snapshot is live and every artifact it lists is in that snapshot with
  the digest and size it advertises: what the loader establishes and what the registry must keep
  while a lease is held.
\<close>

definition snapshot_live :: "snapshot_system \<Rightarrow> nat \<Rightarrow> bool" where
  "snapshot_live s sid = (case get (sys_snaps s) sid of None \<Rightarrow> False | Some sn \<Rightarrow> \<not> sn_once sn)"

definition artifact_in :: "SnapshotStore \<Rightarrow> Snapshot \<Rightarrow> Artifact \<Rightarrow> bool" where
  "artifact_in st sn a =
     (case get (sn_digests sn) (ar_Path a) of None \<Rightarrow> False
      | Some d \<Rightarrow> ar_SHA256 a = hexEncode d \<and>
          (case object_data st d of None \<Rightarrow> False | Some x \<Rightarrow> ar_Bytes a = int (length x)))"

definition record_backed :: "snapshot_system \<Rightarrow> Record \<Rightarrow> bool" where
  "record_backed s r =
     (case rc_snapshot r of None \<Rightarrow> False
      | Some sid \<Rightarrow>
        (case get (sys_snaps s) sid of None \<Rightarrow> False
         | Some sn \<Rightarrow> \<not> sn_once sn \<and> list_all (\<lambda>(ref, a). artifact_in (sys_store s) sn a) (rc_artifacts r)))"

lemma record_backed_live: "record_backed s r \<Longrightarrow> \<exists>sid. rc_snapshot r = Some sid \<and> snapshot_live s sid"
  by (auto simp: record_backed_def snapshot_live_def split: option.splits)

text \<open>Every artifact of a backed record can be read and leased, with the bytes its digest names.\<close>

lemma record_backed_read:
  assumes inv: "sys_inv sha256 s" and "record_backed s r" and "get (rc_artifacts r) ref = Some a"
  shows "\<exists>x. Record_ReadArtifact s r ref = Some x \<and> hexEncode (sha256 x) = ar_SHA256 a \<and> int (length x) = ar_Bytes a"
proof -
  obtain sid sn where sn: "rc_snapshot r = Some sid" "get (sys_snaps s) sid = Some sn"
    "artifact_in (sys_store s) sn a"
    using assms(2) map_of_SomeD [OF assms(3)]
    by (auto simp: record_backed_def list_all_iff split: option.splits)
  obtain d x where d: "get (sn_digests sn) (ar_Path a) = Some d" "ar_SHA256 a = hexEncode d"
    "object_data (sys_store s) d = Some x" "ar_Bytes a = int (length x)"
    using sn(3) by (auto simp: artifact_in_def split: option.splits)
  then have "sha256 x = d" using inv by (auto simp: sys_inv_def store_ok_def object_data_def)
  with sn d assms(3) show ?thesis
    by (auto simp: Record_ReadArtifact_def sys_Read_def snapshot_Read_def object_data_def)
qed

lemma record_backed_acquire:
  assumes "record_backed s r" and "get (rc_artifacts r) ref = Some a"
  shows "\<exists>l s'. Record_acquireArtifact r ref s = Some (a, l, s')"
proof -
  obtain sid sn where sn: "rc_snapshot r = Some sid" "get (sys_snaps s) sid = Some sn"
    "artifact_in (sys_store s) sn a"
    using assms(1) map_of_SomeD [OF assms(2)]
    by (auto simp: record_backed_def list_all_iff split: option.splits)
  obtain d ob where d: "get (sn_digests sn) (ar_Path a) = Some d" "ar_SHA256 a = hexEncode d"
    "get (st_objects (sys_store s)) d = Some ob" "ar_Bytes a = int (length (ob_data ob))"
    using sn(3) by (auto simp: artifact_in_def object_data_def split: option.splits)
  with sn assms(2) show ?thesis
    by (simp add: Record_acquireArtifact_def sys_acquire_def acquireArtifact_def Let_def)
qed

end
