(* ===== verification/Registry.thy ===== *)
theory Registry
  imports Records
begin

text \<open>
  The capability registry, \<^verbatim>\<open>internal/capability/registry.go\<close>: reference-counted generations of
  installed packages, leases on them, and the dotted hierarchy that browsing shows.

  A \<^verbatim>\<open>*registryGeneration\<close> is an address of \<open>rg_gens\<close>; the registry numbers generations with
  \<^verbatim>\<open>next\<close>, so the number serves as the address.  The counters \<^verbatim>\<open>next\<close> and \<^verbatim>\<open>revision\<close> are natural
  numbers (a \<^verbatim>\<open>uint64\<close> that is incremented once per publication does not wrap).  \<open>rg_reclaimed\<close>
  records the calls of \<^verbatim>\<open>onReclaim\<close>.  A lease is a \<^verbatim>\<open>CapabilityLease\<close>, or an \<^verbatim>\<open>InvocationLease\<close> when it
  carries an operation and its binding; its \<^verbatim>\<open>sync.Once\<close> is a flag.
\<close>

section \<open>State\<close>

record registryGeneration =
  gn_id :: nat
  gn_record :: Record
  gn_refs :: int
  gn_retired :: bool

record hierarchyNode =
  hn_capabilityID :: string
  hn_children :: "string list"

record Registry =
  rg_entries :: "(string, nat) gomap"
  rg_gens :: "(nat, registryGeneration) gomap"
  rg_nodes :: "(string, hierarchyNode) gomap"
  rg_next :: nat
  rg_revision :: nat
  rg_closed :: bool
  rg_reclaimed :: "nat list"

record invocation =
  iv_capabilityID :: string
  iv_operation :: Operation
  iv_binding :: ProviderBinding

record lease =
  ls_generation :: nat
  ls_once :: bool
  ls_invocation :: "invocation option"

record world =
  w_reg :: Registry
  w_leases :: "(nat, lease) gomap"
  w_sys :: snapshot_system

section \<open>The hierarchy\<close>

definition emptyNode :: hierarchyNode where
  "emptyNode = \<lparr>hn_capabilityID = [], hn_children = []\<rparr>"

text \<open>\<^verbatim>\<open>ensurePath\<close>: a node for every prefix of the path and an edge from each prefix to the next.\<close>

type_synonym nodes_edges = "(string, hierarchyNode) gomap \<times> (string, string list) gomap"

fun ensureParts :: "string \<Rightarrow> string list \<Rightarrow> string list \<Rightarrow> nodes_edges \<Rightarrow> nodes_edges" where
  "ensureParts parent done [] ne = ne"
| "ensureParts parent done (p # ps) (nodes, edges) =
     (let current = joinWith dot (done @ [p]);
          nodes' = (if get nodes current = None then put current emptyNode nodes else nodes);
          children = (case get edges parent of None \<Rightarrow> [] | Some cs \<Rightarrow> cs);
          edges' = put parent (if current \<in> set children then children else children @ [current]) edges
      in ensureParts current (done @ [p]) ps (nodes', edges'))"

definition ensurePath :: "string \<Rightarrow> nodes_edges \<Rightarrow> nodes_edges" where
  "ensurePath hierarchyPath ne =
     (if hierarchyPath = [] then ne else ensureParts [] [] (splitOn dot hierarchyPath) ne)"

fun addEntryPaths :: "(string \<times> Record) list \<Rightarrow> nodes_edges \<Rightarrow> nodes_edges" where
  "addEntryPaths [] ne = ne"
| "addEntryPaths ((cid, r) # es) ne =
     (let (nodes, edges) = ensurePath cid (ensurePath (rc_parent r) ne);
          node = (case get nodes cid of None \<Rightarrow> emptyNode | Some n \<Rightarrow> n)
      in addEntryPaths es (put cid (node\<lparr>hn_capabilityID := cid\<rparr>) nodes, edges))"

fun attachChildren :: "(string, string list) gomap \<Rightarrow> (string, hierarchyNode) gomap \<Rightarrow> (string, hierarchyNode) gomap" where
  "attachChildren [] nodes = nodes"
| "attachChildren ((parent, children) # es) nodes =
     (let node = (case get nodes parent of None \<Rightarrow> emptyNode | Some n \<Rightarrow> n)
      in attachChildren es (put parent (node\<lparr>hn_children := sort (hn_children node @ children)\<rparr>) nodes))"

definition rebuildHierarchy :: "(string \<times> Record) list \<Rightarrow> (string, hierarchyNode) gomap" where
  "rebuildHierarchy es =
     (let (nodes, edges) = addEntryPaths es ([([], emptyNode)], []) in attachChildren edges nodes)"

text \<open>The installed records, in the order of the entries.\<close>

definition entryRecords :: "Registry \<Rightarrow> (string \<times> Record) list" where
  "entryRecords r = List.map_filter (\<lambda>(cid, a). map_option (\<lambda>g. (cid, gn_record g)) (get (rg_gens r) a)) (rg_entries r)"

definition rebuildHierarchyLocked :: "Registry \<Rightarrow> Registry" where
  "rebuildHierarchyLocked r = r\<lparr>rg_nodes := rebuildHierarchy (entryRecords r)\<rparr>"

section \<open>Generations\<close>

definition reclaimLocked :: "nat \<Rightarrow> world \<Rightarrow> world" where
  "reclaimLocked a w =
     (case get (rg_gens (w_reg w)) a of None \<Rightarrow> w
      | Some g \<Rightarrow> w\<lparr>w_sys := Record_release (gn_record g) (w_sys w),
                    w_reg := (w_reg w)\<lparr>rg_reclaimed := rg_reclaimed (w_reg w) @ [gn_id g]\<rparr>\<rparr>)"

definition setGen :: "nat \<Rightarrow> registryGeneration \<Rightarrow> world \<Rightarrow> world" where
  "setGen a g w = w\<lparr>w_reg := (w_reg w)\<lparr>rg_gens := put a g (rg_gens (w_reg w))\<rparr>\<rparr>"

definition retireLocked :: "nat \<Rightarrow> world \<Rightarrow> world" where
  "retireLocked a w =
     (case get (rg_gens (w_reg w)) a of None \<Rightarrow> w
      | Some g \<Rightarrow>
        let w' = setGen a (g\<lparr>gn_retired := True, gn_refs := gn_refs g - 1\<rparr>) w
        in if gn_refs g - 1 = 0 then reclaimLocked a w' else w')"

definition releaseGeneration :: "nat \<Rightarrow> world \<Rightarrow> world" where
  "releaseGeneration a w =
     (case get (rg_gens (w_reg w)) a of None \<Rightarrow> w
      | Some g \<Rightarrow>
        if gn_refs g \<le> 0 then w
        else let w' = setGen a (g\<lparr>gn_refs := gn_refs g - 1\<rparr>) w
             in if gn_refs g - 1 = 0 \<and> gn_retired g then reclaimLocked a w' else w')"

definition publish :: "string \<Rightarrow> Record \<Rightarrow> Registry \<Rightarrow> Registry" where
  "publish cid rec r =
     (let n = Suc (rg_next r)
      in r\<lparr>rg_next := n, rg_entries := put cid n (rg_entries r),
           rg_gens := put n \<lparr>gn_id = n, gn_record = rec, gn_refs = 1, gn_retired = False\<rparr> (rg_gens r)\<rparr>)"

definition addLocked :: "Record option \<Rightarrow> Registry \<Rightarrow> Registry res" where
  "addLocked rec r =
     (case rec of None \<Rightarrow> Inl (OtherError ''normalized capability record is required'')
      | Some x \<Rightarrow>
        if rc_snapshot x = None then Inl (OtherError ''normalized capability record is required'')
        else if get (rg_entries r) (md_ID (rc_metadata x)) \<noteq> None then Inl ErrCapabilityDuplicate
        else Inr (publish (md_ID (rc_metadata x)) x r))"

definition emptyRegistry :: Registry where
  "emptyRegistry = \<lparr>rg_entries = [], rg_gens = [], rg_nodes = [], rg_next = 0, rg_revision = 0,
                    rg_closed = False, rg_reclaimed = []\<rparr>"

definition bumpRevision :: "Registry \<Rightarrow> Registry" where
  "bumpRevision r = (rebuildHierarchyLocked r)\<lparr>rg_revision := rg_revision r + 1\<rparr>"

definition closeLocked :: "world \<Rightarrow> world" where
  "closeLocked w =
     (if rg_closed (w_reg w) then w
      else let w1 = w\<lparr>w_reg := (w_reg w)\<lparr>rg_closed := True\<rparr>\<rparr>;
               w2 = fold retireLocked (map snd (rg_entries (w_reg w))) w1
           in w2\<lparr>w_reg := (w_reg w2)\<lparr>rg_entries := [], rg_nodes := []\<rparr>\<rparr>)"

fun addAll :: "Record option list \<Rightarrow> Registry \<Rightarrow> error option \<times> Registry" where
  "addAll [] r = (None, r)"
| "addAll (x # xs) r = (case addLocked x r of Inl e \<Rightarrow> (Some e, r) | Inr r' \<Rightarrow> addAll xs r')"

definition NewRegistry :: "Record option list \<Rightarrow> snapshot_system \<Rightarrow> error option \<times> world" where
  "NewRegistry records s =
     (let (e, r) = addAll records emptyRegistry
      in case e of
           Some err \<Rightarrow> (Some err, closeLocked \<lparr>w_reg = r, w_leases = [], w_sys = s\<rparr>)
         | None \<Rightarrow> (None, \<lparr>w_reg = rebuildHierarchyLocked r, w_leases = [], w_sys = s\<rparr>))"

section \<open>Publishing operations\<close>

definition Add :: "Record option \<Rightarrow> world \<Rightarrow> world res" where
  "Add rec w =
     (if rg_closed (w_reg w) then Inl ErrRegistryClosed
      else rbind (addLocked rec (w_reg w)) (\<lambda>r. Inr (w\<lparr>w_reg := bumpRevision r\<rparr>)))"

definition Reinstall :: "Record option \<Rightarrow> world \<Rightarrow> world res" where
  "Reinstall rec w =
     (case rec of None \<Rightarrow> Inl (OtherError ''normalized capability record is required'')
      | Some x \<Rightarrow>
        if rc_snapshot x = None then Inl (OtherError ''normalized capability record is required'')
        else if rg_closed (w_reg w) then Inl ErrRegistryClosed
        else case get (rg_entries (w_reg w)) (md_ID (rc_metadata x)) of
               None \<Rightarrow> Inl ErrCapabilityNotFound
             | Some current \<Rightarrow>
               let w1 = w\<lparr>w_reg := publish (md_ID (rc_metadata x)) x (w_reg w)\<rparr>;
                   w2 = retireLocked current w1
               in Inr (w2\<lparr>w_reg := bumpRevision (w_reg w2)\<rparr>))"

definition Uninstall :: "string \<Rightarrow> world \<Rightarrow> world res" where
  "Uninstall cid w =
     (if rg_closed (w_reg w) then Inl ErrRegistryClosed
      else case get (rg_entries (w_reg w)) cid of
             None \<Rightarrow> Inl ErrCapabilityNotFound
           | Some current \<Rightarrow>
             let w1 = w\<lparr>w_reg := (w_reg w)\<lparr>rg_entries := del cid (rg_entries (w_reg w))\<rparr>\<rparr>;
                 w2 = retireLocked current w1
             in Inr (w2\<lparr>w_reg := bumpRevision (w_reg w2)\<rparr>))"

definition Close :: "world \<Rightarrow> world" where
  "Close w = closeLocked w"

section \<open>Leases\<close>

definition newLease :: "nat \<Rightarrow> registryGeneration \<Rightarrow> invocation option \<Rightarrow> world \<Rightarrow> world \<times> nat" where
  "newLease a g iv w =
     (let b = fresh (w_leases w)
      in ((setGen a (g\<lparr>gn_refs := gn_refs g + 1\<rparr>) w)\<lparr>w_leases :=
            put b \<lparr>ls_generation = a, ls_once = False, ls_invocation = iv\<rparr> (w_leases w)\<rparr>, b))"

definition liveGeneration :: "string \<Rightarrow> Registry \<Rightarrow> (nat \<times> registryGeneration) res" where
  "liveGeneration cid r =
     (if rg_closed r then Inl ErrRegistryClosed
      else case get (rg_entries r) cid of None \<Rightarrow> Inl ErrCapabilityNotFound
      | Some a \<Rightarrow>
        (case get (rg_gens r) a of None \<Rightarrow> Inl ErrCapabilityNotFound
         | Some g \<Rightarrow> if gn_retired g then Inl ErrCapabilityNotFound else Inr (a, g)))"

definition Lookup :: "string \<Rightarrow> world \<Rightarrow> (world \<times> nat) res" where
  "Lookup cid w = rbind (liveGeneration cid (w_reg w)) (\<lambda>(a, g). Inr (newLease a g None w))"

definition ResolveOperation :: "string \<Rightarrow> string \<Rightarrow> world \<Rightarrow> (world \<times> nat) res" where
  "ResolveOperation cid operationID w =
     rbind (liveGeneration cid (w_reg w)) (\<lambda>(a, g).
       case find (\<lambda>x. op_ID x = operationID) (rc_operations (gn_record g)) of
         None \<Rightarrow> Inl ErrOperationNotFound
       | Some operation \<Rightarrow>
         (case find (\<lambda>p. pb_ID p = op_Provider operation) (rc_providers (gn_record g)) of
            None \<Rightarrow> Inl (PackageError ''operation_generation_invalid'' (cid @ ''/'' @ operationID))
          | Some binding \<Rightarrow>
            Inr (newLease a g (Some \<lparr>iv_capabilityID = cid, iv_operation = operation, iv_binding = binding\<rparr>) w)))"

definition leaseRelease :: "nat \<Rightarrow> world \<Rightarrow> world" where
  "leaseRelease b w =
     (case get (w_leases w) b of None \<Rightarrow> w
      | Some l \<Rightarrow>
        if ls_once l then w
        else releaseGeneration (ls_generation l)
               (w\<lparr>w_leases := put b (l\<lparr>ls_once := True\<rparr>) (w_leases w)\<rparr>))"

text \<open>\<^verbatim>\<open>Record()\<close> of a lease.\<close>

definition leaseRecord :: "nat \<Rightarrow> world \<Rightarrow> Record option" where
  "leaseRecord b w =
     (case get (w_leases w) b of None \<Rightarrow> None
      | Some l \<Rightarrow> map_option gn_record (get (rg_gens (w_reg w)) (ls_generation l)))"

section \<open>Dotted tool paths\<close>

definition legacyPath :: "Record \<Rightarrow> Operation \<Rightarrow> string" where
  "legacyPath r x = (if rc_parent r \<noteq> [] then rc_parent r @ ''.'' @ op_Target x else op_Target x)"

definition legacyMatch :: "string \<Rightarrow> Registry \<Rightarrow> string \<times> nat \<Rightarrow> (string \<times> string) option" where
  "legacyMatch toolPath r e =
     (case get (rg_gens r) (snd e) of None \<Rightarrow> None
      | Some g \<Rightarrow>
        if gn_retired g \<or> length (rc_operations (gn_record g)) \<noteq> 1 then None
        else let x = hd (rc_operations (gn_record g)); lp = legacyPath (gn_record g) x
             in if toolPath = lp \<or> toolPath = lp @ ''.'' @ op_Target x then Some (fst e, op_ID x) else None)"

definition lastSegment :: "string \<Rightarrow> string" where
  "lastSegment p = (let i = lastIndexByte p dot in if i \<ge> 0 then drop (nat (i + 1)) p else p)"

definition ResolveToolPath :: "string \<Rightarrow> world \<Rightarrow> (world \<times> nat) res" where
  "ResolveToolPath toolPath w =
     (let r = w_reg w; matches = List.map_filter (legacyMatch toolPath r) (rg_entries r)
      in if length matches = 1 then ResolveOperation (fst (hd matches)) (snd (hd matches)) w
         else if length matches > 1 then Inl ErrOperationNotFound
         else let split = (let i = lastIndexByte toolPath dot
                           in if i \<le> 0 \<or> i = int (length toolPath) - 1 then Inl ErrOperationNotFound
                              else ResolveOperation (take (nat i) toolPath) (drop (nat (i + 1)) toolPath) w)
              in case get (rg_entries r) toolPath of None \<Rightarrow> split
                 | Some a \<Rightarrow>
                   (case get (rg_gens r) a of None \<Rightarrow> split
                    | Some g \<Rightarrow>
                      if \<not> gn_retired g \<and> length (rc_operations (gn_record g)) = 1 \<and>
                         op_ID (hd (rc_operations (gn_record g))) = lastSegment toolPath
                      then ResolveOperation toolPath (op_ID (hd (rc_operations (gn_record g)))) w
                      else split))"

section \<open>Listing and browsing\<close>

definition CapabilityIDs :: "Registry \<Rightarrow> string list" where
  "CapabilityIDs r = (if rg_closed r then [] else sort (map fst (rg_entries r)))"

record HierarchyEntry =
  he_Path :: string
  he_CapabilityID :: string
  he_Name :: string
  he_Description :: string
  he_Operations :: int

record HierarchyView =
  hv_Path :: string
  hv_CapabilityID :: string
  hv_Children :: "HierarchyEntry list"

definition childEntry :: "Registry \<Rightarrow> string \<Rightarrow> HierarchyEntry" where
  "childEntry r childPath =
     (let node = (case get (rg_nodes r) childPath of None \<Rightarrow> emptyNode | Some n \<Rightarrow> n);
          cid = hn_capabilityID node;
          bare = \<lparr>he_Path = childPath, he_CapabilityID = cid, he_Name = [], he_Description = [], he_Operations = 0\<rparr>
      in if cid = [] then bare
         else case get (rg_entries r) cid of None \<Rightarrow> bare
         | Some a \<Rightarrow>
           (case get (rg_gens r) a of None \<Rightarrow> bare
            | Some g \<Rightarrow> bare\<lparr>he_Name := md_Name (rc_metadata (gn_record g)),
                            he_Description := md_Description (rc_metadata (gn_record g)),
                            he_Operations := int (length (rc_operations (gn_record g)))\<rparr>))"

definition browseLocked :: "Registry \<Rightarrow> string \<Rightarrow> HierarchyView res" where
  "browseLocked r hierarchyPath =
     (case get (rg_nodes r) hierarchyPath of None \<Rightarrow> Inl ErrHierarchyPathNotFound
      | Some node \<Rightarrow> Inr \<lparr>hv_Path = hierarchyPath, hv_CapabilityID = hn_capabilityID node,
                         hv_Children = map (childEntry r) (hn_children node)\<rparr>)"

definition Browse :: "Registry \<Rightarrow> string \<Rightarrow> HierarchyView res" where
  "Browse r hierarchyPath =
     (let p = trimByte dot hierarchyPath; q = (if p = ''/'' then [] else p)
      in if rg_closed r then Inl ErrRegistryClosed else browseLocked r q)"

end
