(* ===== verification/Registry_Inv.thy ===== *)
theory Registry_Inv
  imports Registry
begin

text \<open>
  The ownership discipline of the registry.  \<open>gens_inv\<close> counts the references of every generation:
  one from the registry while it is installed and one from every lease that has not been released.
  A generation with a reference left is backed by its snapshot; one without is reclaimed, exactly
  once.  The steps \<open>reg_step\<close> interleave all registry operations with those of the snapshot store.
\<close>

section \<open>Snapshots under steps of the store\<close>

lemma sys_step_snaps:
  assumes "sys_step sha256 s s'" and "get (sys_snaps s) a = Some sn"
  shows "\<exists>sn'. get (sys_snaps s') a = Some sn' \<and> sn_digests sn' = sn_digests sn \<and> (sn_once sn \<longrightarrow> sn_once sn')"
  using assms
proof cases
  case step_begin
  with assms show ?thesis by (auto simp: sys_begin_def Let_def)
next
  case (step_reserve a t sz)
  with assms show ?thesis by (auto simp: sys_reserve_def res_simps)
next
  case (step_stage a t declared name rd maximum)
  with assms show ?thesis by (auto simp: sys_stage_def res_simps)
next
  case (step_abort a)
  with assms show ?thesis by (auto simp: sys_abort_def case_prod_beta split: option.splits)
next
  case (step_commit a)
  with assms show ?thesis
    by (auto simp: sys_commit_def Let_def case_prod_beta gomap_simps split: option.splits sum.splits)
next
  case (step_acquire a name b h l)
  with assms show ?thesis by (auto simp: sys_acquire_def Let_def split: option.splits)
next
  case (step_release_lease b)
  with assms show ?thesis by (auto simp: sys_release_lease_def case_prod_beta split: option.splits)
next
  case (step_release_snapshot b)
  with assms show ?thesis
    by (auto simp: sys_release_snapshot_def snapshot_release_def gomap_simps split: option.splits)
qed

lemma record_backed_step:
  assumes inv: "sys_inv sha256 s" and st: "sys_step sha256 s s'" and b: "record_backed s r"
    and live: "\<And>sid. rc_snapshot r = Some sid \<Longrightarrow> snapshot_live s' sid"
  shows "record_backed s' r"
proof -
  have inv': "sys_inv sha256 s'" using st inv by (rule sys_step_inv)
  obtain sid sn where sn: "rc_snapshot r = Some sid" "get (sys_snaps s) sid = Some sn"
    "list_all (\<lambda>(ref, a). artifact_in (sys_store s) sn a) (rc_artifacts r)"
    using b by (auto simp: record_backed_def split: option.splits)
  obtain sn' where sn': "get (sys_snaps s') sid = Some sn'" "sn_digests sn' = sn_digests sn"
    using sys_step_snaps [OF st sn(2)] by blast
  have nonce: "\<not> sn_once sn'" using live [OF sn(1)] sn' by (simp add: snapshot_live_def)
  have "artifact_in (sys_store s') sn' a" if art: "artifact_in (sys_store s) sn a" for a
  proof -
    obtain d x where d: "get (sn_digests sn) (ar_Path a) = Some d" "ar_SHA256 a = hexEncode d"
      "object_data (sys_store s) d = Some x" "ar_Bytes a = int (length x)"
      using art by (auto simp: artifact_in_def split: option.splits)
    have "0 < total_refs s' d"
      using sn'(1) nonce by (rule snapshot_refs_pos [where name = "ar_Path a"]) (simp add: sn' d)
    then obtain ob where "get (st_objects (sys_store s')) d = Some ob"
      using store_ok_object [of sha256 "total_refs s'"] inv' by (auto simp: sys_inv_def)
    then have "object_data (sys_store s') d = Some (ob_data ob)" by (simp add: object_data_def)
    moreover from this have "ob_data ob = x"
      using sys_step_kept [OF st] d(3) by (auto simp: data_kept_def)
    ultimately show ?thesis using d sn' by (simp add: artifact_in_def)
  qed
  then show ?thesis
    using sn sn' nonce by (auto simp: record_backed_def list_all_iff)
qed

lemma record_backed_release_other:
  assumes inv: "sys_inv sha256 s" and b: "record_backed s r" and "rc_snapshot r \<noteq> Some sid"
  shows "record_backed (sys_release_snapshot sid s) r"
  using inv step_release_snapshot b
proof (rule record_backed_step)
  fix sid' assume "rc_snapshot r = Some sid'"
  then show "snapshot_live (sys_release_snapshot sid s) sid'"
    using assms(3) record_backed_live [OF b]
    by (auto simp: snapshot_live_def sys_release_snapshot_def snapshot_release_def gomap_simps split: option.splits)
qed

definition snapshot_dead :: "snapshot_system \<Rightarrow> Record \<Rightarrow> bool" where
  "snapshot_dead s r =
     (case rc_snapshot r of None \<Rightarrow> False
      | Some sid \<Rightarrow> (case get (sys_snaps s) sid of None \<Rightarrow> False | Some sn \<Rightarrow> sn_once sn))"

lemma snapshot_dead_step: "sys_step sha256 s s' \<Longrightarrow> snapshot_dead s r \<Longrightarrow> snapshot_dead s' r"
  by (auto simp: snapshot_dead_def split: option.splits dest!: sys_step_snaps)

lemma snapshot_dead_release:
  assumes "record_backed s r" and "rc_snapshot r = Some sid"
  shows "snapshot_dead (sys_release_snapshot sid s) r"
  using assms
  by (auto simp: record_backed_def snapshot_dead_def sys_release_snapshot_def snapshot_release_def gomap_simps
      split: option.splits)

section \<open>The invariant\<close>

definition lease_on :: "nat \<Rightarrow> lease \<Rightarrow> int" where
  "lease_on a l = (if ls_once l \<or> ls_generation l \<noteq> a then 0 else 1)"

definition gen_refs :: "nat set \<Rightarrow> world \<Rightarrow> nat \<Rightarrow> int" where
  "gen_refs E w a = (if a \<in> E then 1 else 0) + msum (lease_on a) (w_leases w)"

definition gen_ok :: "nat set \<Rightarrow> world \<Rightarrow> nat \<Rightarrow> registryGeneration \<Rightarrow> bool" where
  "gen_ok E w a g \<longleftrightarrow>
     gn_id g = a \<and> a \<le> rg_next (w_reg w) \<and> gn_refs g = gen_refs E w a \<and> (gn_retired g \<longleftrightarrow> a \<notin> E) \<and>
     (0 < gn_refs g \<longrightarrow> record_backed (w_sys w) (gn_record g)) \<and>
     (gn_refs g = 0 \<longrightarrow> snapshot_dead (w_sys w) (gn_record g)) \<and>
     (a \<in> set (rg_reclaimed (w_reg w)) \<longleftrightarrow> gn_refs g = 0)"

definition owners_ok :: "world \<Rightarrow> bool" where
  "owners_ok w \<longleftrightarrow>
     (\<forall>a g a' g'. get (rg_gens (w_reg w)) a = Some g \<longrightarrow> get (rg_gens (w_reg w)) a' = Some g' \<longrightarrow>
        0 < gn_refs g \<longrightarrow> 0 < gn_refs g' \<longrightarrow> rc_snapshot (gn_record g) = rc_snapshot (gn_record g') \<longrightarrow> a = a')"

definition gens_inv :: "(bytes \<Rightarrow> digest) \<Rightarrow> nat set \<Rightarrow> world \<Rightarrow> bool" where
  "gens_inv sha256 E w \<longleftrightarrow>
     sys_inv sha256 (w_sys w) \<and> keys_ok (rg_gens (w_reg w)) \<and> keys_ok (w_leases w) \<and>
     (\<forall>a g. get (rg_gens (w_reg w)) a = Some g \<longrightarrow> gen_ok E w a g) \<and>
     (\<forall>b l. get (w_leases w) b = Some l \<longrightarrow> get (rg_gens (w_reg w)) (ls_generation l) \<noteq> None) \<and>
     (\<forall>a \<in> E. get (rg_gens (w_reg w)) a \<noteq> None) \<and>
     (\<forall>a \<in> set (rg_reclaimed (w_reg w)). get (rg_gens (w_reg w)) a \<noteq> None) \<and>
     owners_ok w \<and> distinct (rg_reclaimed (w_reg w))"

definition entries_ok :: "world \<Rightarrow> bool" where
  "entries_ok w \<longleftrightarrow>
     keys_ok (rg_entries (w_reg w)) \<and>
     (\<forall>cid a. get (rg_entries (w_reg w)) cid = Some a \<longrightarrow>
        (\<exists>g. get (rg_gens (w_reg w)) a = Some g \<and> md_ID (rc_metadata (gn_record g)) = cid)) \<and>
     (rg_closed (w_reg w) \<longrightarrow> rg_entries (w_reg w) = [])"

definition nodes_ok :: "world \<Rightarrow> bool" where
  "nodes_ok w \<longleftrightarrow>
     rg_nodes (w_reg w) = (if rg_closed (w_reg w) then [] else rebuildHierarchy (entryRecords (w_reg w)))"

abbreviation installed :: "world \<Rightarrow> nat set" where
  "installed w \<equiv> snd ` set (rg_entries (w_reg w))"

definition reg_inv :: "(bytes \<Rightarrow> digest) \<Rightarrow> world \<Rightarrow> bool" where
  "reg_inv sha256 w \<longleftrightarrow> gens_inv sha256 (installed w) w \<and> entries_ok w \<and> nodes_ok w"

lemma lease_on_nonneg: "0 \<le> msum (lease_on a) ls"
  by (rule msum_nonneg) (simp add: lease_on_def)

lemma gen_refs_nonneg: "0 \<le> gen_refs E w a"
  using lease_on_nonneg [of a "w_leases w"] by (simp add: gen_refs_def)

section \<open>Reclaiming a generation\<close>

lemma setGen_simps [simp]:
  "w_sys (setGen a g w) = w_sys w" "w_leases (setGen a g w) = w_leases w"
  "rg_gens (w_reg (setGen a g w)) = put a g (rg_gens (w_reg w))"
  "rg_next (w_reg (setGen a g w)) = rg_next (w_reg w)"
  "rg_reclaimed (w_reg (setGen a g w)) = rg_reclaimed (w_reg w)"
  "rg_entries (w_reg (setGen a g w)) = rg_entries (w_reg w)"
  "rg_closed (w_reg (setGen a g w)) = rg_closed (w_reg w)"
  "rg_nodes (w_reg (setGen a g w)) = rg_nodes (w_reg w)"
  by (simp_all add: setGen_def)

lemma reclaimLocked_simps [simp]:
  "w_leases (reclaimLocked a w) = w_leases w"
  "rg_gens (w_reg (reclaimLocked a w)) = rg_gens (w_reg w)"
  "rg_next (w_reg (reclaimLocked a w)) = rg_next (w_reg w)"
  "rg_entries (w_reg (reclaimLocked a w)) = rg_entries (w_reg w)"
  "rg_closed (w_reg (reclaimLocked a w)) = rg_closed (w_reg w)"
  "rg_nodes (w_reg (reclaimLocked a w)) = rg_nodes (w_reg w)"
  by (auto simp: reclaimLocked_def split: option.splits)

lemma gen_refs_cong: "w_leases w' = w_leases w \<Longrightarrow> gen_refs E w' a = gen_refs E w a"
  by (simp add: gen_refs_def)

text \<open>
  One reference of a generation goes away: either the registry's own (the generation is retired) or
  a lease's.  \<open>E\<close> and the leases are those after the change.
\<close>

lemma drop_reference:
  assumes sys: "sys_inv sha256 (w_sys w)"
    and keys: "keys_ok (rg_gens (w_reg w))" "keys_ok (w_leases w)"
    and g: "get (rg_gens (w_reg w)) a = Some g" "0 < gn_refs g" "gn_id g = a" "a \<le> rg_next (w_reg w)"
      "a \<notin> set (rg_reclaimed (w_reg w))" "record_backed (w_sys w) (gn_record g)"
    and refs: "gn_refs g - 1 = gen_refs E w a"
    and others: "\<And>a' g'. get (rg_gens (w_reg w)) a' = Some g' \<Longrightarrow> a' \<noteq> a \<Longrightarrow> gen_ok E w a' g'"
    and leases: "\<forall>b l. get (w_leases w) b = Some l \<longrightarrow> get (rg_gens (w_reg w)) (ls_generation l) \<noteq> None"
    and E: "\<forall>a \<in> E. get (rg_gens (w_reg w)) a \<noteq> None"
    and recl: "\<forall>a \<in> set (rg_reclaimed (w_reg w)). get (rg_gens (w_reg w)) a \<noteq> None" "distinct (rg_reclaimed (w_reg w))"
    and own: "owners_ok w"
    and g': "gn_refs g' = gn_refs g - 1" "gn_id g' = a" "gn_record g' = gn_record g" "gn_retired g' \<longleftrightarrow> a \<notin> E"
  shows "gens_inv sha256 E
    (if gn_refs g - 1 = 0 then reclaimLocked a (setGen a g' w) else setGen a g' w)"
proof -
  let ?w1 = "setGen a g' w"
  have own1: "owners_ok ?w1"
    unfolding owners_ok_def
  proof (intro allI impI)
    fix b h b' h'
    assume "get (rg_gens (w_reg ?w1)) b = Some h" "get (rg_gens (w_reg ?w1)) b' = Some h'"
      "0 < gn_refs h" "0 < gn_refs h'" "rc_snapshot (gn_record h) = rc_snapshot (gn_record h')"
    then obtain k k' where "get (rg_gens (w_reg w)) b = Some k" "gn_record k = gn_record h" "0 < gn_refs k"
      "get (rg_gens (w_reg w)) b' = Some k'" "gn_record k' = gn_record h'" "0 < gn_refs k'"
      using g(1,2) g' by (auto simp: gomap_simps split: if_splits)
    then show "b = b'"
      using own \<open>rc_snapshot (gn_record h) = rc_snapshot (gn_record h')\<close> unfolding owners_ok_def by metis
  qed
  show ?thesis
  proof (cases "gn_refs g - 1 = 0")
    case False
    have "gen_ok E ?w1 b h" if "get (rg_gens (w_reg ?w1)) b = Some h" for b h
    proof (cases "b = a")
      case True
      then show ?thesis
        using that g g' refs False by (auto simp: gen_ok_def gomap_simps gen_refs_def)
    next
      case no: False
      then have "gen_ok E w b h" using that others by (auto simp: gomap_simps)
      then show ?thesis by (simp add: gen_ok_def gen_refs_def)
    qed
    then show ?thesis
      using False sys keys leases E recl own1
      by (auto simp: gens_inv_def gomap_simps)
  next
    case True
    obtain sid where sid: "rc_snapshot (gn_record g) = Some sid" using record_backed_live [OF g(6)] by blast
    let ?w2 = "reclaimLocked a ?w1"
    have eq: "w_sys ?w2 = sys_release_snapshot sid (w_sys w)" "rg_reclaimed (w_reg ?w2) = rg_reclaimed (w_reg w) @ [a]"
      using g' sid by (simp_all add: reclaimLocked_def gomap_simps Record_release_def)
    have "gen_ok E ?w2 b h" if h: "get (rg_gens (w_reg ?w2)) b = Some h" for b h
    proof (cases "b = a")
      case yes: True
      then have "h = g'" using h by (simp add: gomap_simps)
      then show ?thesis
        using yes g' g(4) refs True snapshot_dead_release [OF g(6) sid] by (simp add: gen_ok_def gen_refs_def eq)
    next
      case no: False
      then have h': "get (rg_gens (w_reg w)) b = Some h" and ok: "gen_ok E w b h"
        using h others by (auto simp: gomap_simps)
      have "record_backed (w_sys ?w2) (gn_record h)" if "0 < gn_refs h"
        unfolding eq
      proof (rule record_backed_release_other [OF sys])
        show "record_backed (w_sys w) (gn_record h)" using ok that by (simp add: gen_ok_def)
        show "rc_snapshot (gn_record h) \<noteq> Some sid"
          using own h' g(1,2) that no sid unfolding owners_ok_def by metis
      qed
      moreover have "snapshot_dead (w_sys ?w2) (gn_record h)" if "gn_refs h = 0"
        unfolding eq using step_release_snapshot by (rule snapshot_dead_step) (use ok that in \<open>simp add: gen_ok_def\<close>)
      ultimately show ?thesis using ok no by (auto simp: gen_ok_def gen_refs_def eq)
    qed
    moreover have "owners_ok ?w2" using own1 by (simp add: owners_ok_def)
    moreover have "sys_inv sha256 (w_sys ?w2)" unfolding eq using sys by (rule sys_release_snapshot_inv)
    ultimately show ?thesis
      using True keys leases E recl g(1,5) by (auto simp: gens_inv_def gomap_simps eq)
  qed
qed

section \<open>Every operation keeps the invariant\<close>

lemma gens_invD:
  assumes "gens_inv sha256 E w" and "get (rg_gens (w_reg w)) a = Some g"
  shows "gn_id g = a" "a \<le> rg_next (w_reg w)" "gn_refs g = gen_refs E w a" "gn_retired g \<longleftrightarrow> a \<notin> E"
    "0 < gn_refs g \<Longrightarrow> record_backed (w_sys w) (gn_record g)"
    "gn_refs g = 0 \<Longrightarrow> snapshot_dead (w_sys w) (gn_record g)"
    "a \<in> set (rg_reclaimed (w_reg w)) \<longleftrightarrow> gn_refs g = 0"
  using assms by (auto simp: gens_inv_def gen_ok_def)

lemma retireLocked_inv:
  assumes inv: "gens_inv sha256 E w" and a: "a \<in> E"
  shows "gens_inv sha256 (E - {a}) (retireLocked a w)"
proof -
  obtain g where g: "get (rg_gens (w_reg w)) a = Some g" using inv a by (auto simp: gens_inv_def)
  have refs: "gn_refs g = 1 + msum (lease_on a) (w_leases w)"
    using gens_invD(3) [OF inv g] a by (simp add: gen_refs_def)
  then have pos: "0 < gn_refs g" using lease_on_nonneg [of a "w_leases w"] by simp
  let ?g = "g\<lparr>gn_retired := True, gn_refs := gn_refs g - 1\<rparr>"
  have "gens_inv sha256 (E - {a})
     (if gn_refs g - 1 = 0 then reclaimLocked a (setGen a ?g w) else setGen a ?g w)"
  proof (rule drop_reference [where g = g])
    show "gen_ok (E - {a}) w a' g'" if "get (rg_gens (w_reg w)) a' = Some g'" "a' \<noteq> a" for a' g'
      using inv that by (auto simp: gens_inv_def gen_ok_def gen_refs_def)
  qed (use inv g pos refs gens_invD [OF inv g] in \<open>auto simp: gens_inv_def gen_refs_def\<close>)
  then show ?thesis using g by (simp add: retireLocked_def Let_def)
qed

lemma leaseRelease_inv:
  assumes inv: "gens_inv sha256 E w"
  shows "gens_inv sha256 E (leaseRelease b w)"
proof (cases "get (w_leases w) b")
  case (Some l)
  show ?thesis
  proof (cases "ls_once l")
    case False
    let ?a = "ls_generation l" and ?w = "w\<lparr>w_leases := put b (l\<lparr>ls_once := True\<rparr>) (w_leases w)\<rparr>"
    obtain g where g: "get (rg_gens (w_reg w)) ?a = Some g" using inv Some unfolding gens_inv_def by blast
    have k: "keys_ok (w_leases w)" using inv by (simp add: gens_inv_def)
    have new: "gen_refs E ?w a = gen_refs E w a - (if a = ?a then 1 else 0)" for a
      using k Some False by (simp add: gen_refs_def msum_put lease_on_def)
    have "lease_on ?a l \<le> msum (lease_on ?a) (w_leases w)"
      by (rule msum_ge [OF Some]) (simp add: lease_on_def)
    then have pos: "0 < gn_refs g" and ret: "gn_refs g - 1 = 0 \<Longrightarrow> gn_retired g"
      using gens_invD(3,4) [OF inv g] False by (auto simp: gen_refs_def lease_on_def split: if_splits)
    let ?g = "g\<lparr>gn_refs := gn_refs g - 1\<rparr>"
    have "gens_inv sha256 E
       (if gn_refs g - 1 = 0 then reclaimLocked ?a (setGen ?a ?g ?w) else setGen ?a ?g ?w)"
    proof (rule drop_reference [where g = g])
      show "gen_ok E ?w a' g'" if "get (rg_gens (w_reg ?w)) a' = Some g'" "a' \<noteq> ?a" for a' g'
        using inv that new [of a'] by (auto simp: gens_inv_def gen_ok_def)
    qed (use inv g pos new gens_invD [OF inv g] Some in
        \<open>auto simp: gens_inv_def owners_ok_def gomap_simps split: if_splits\<close>)
    then show ?thesis
      using Some False g pos ret by (auto simp: leaseRelease_def releaseGeneration_def Let_def split: if_splits)
  qed (use Some inv in \<open>simp add: leaseRelease_def\<close>)
qed (use inv in \<open>simp add: leaseRelease_def\<close>)

lemma newLease_inv:
  assumes inv: "gens_inv sha256 E w" and g: "get (rg_gens (w_reg w)) a = Some g" "0 < gn_refs g"
  shows "gens_inv sha256 E (fst (newLease a g iv w))"
proof -
  let ?w = "fst (newLease a g iv w)"
  have k: "keys_ok (w_leases w)" using inv by (simp add: gens_inv_def)
  have new: "gen_refs E ?w a' = gen_refs E w a' + (if a' = a then 1 else 0)" for a'
    using k by (simp add: newLease_def Let_def gen_refs_def msum_put lease_on_def)
  have gens: "rg_gens (w_reg ?w) = put a (g\<lparr>gn_refs := gn_refs g + 1\<rparr>) (rg_gens (w_reg w))"
    and same: "w_sys ?w = w_sys w" "rg_next (w_reg ?w) = rg_next (w_reg w)" "rg_reclaimed (w_reg ?w) = rg_reclaimed (w_reg w)"
    by (simp_all add: newLease_def Let_def)
  have "gen_ok E ?w a' g'" if "get (rg_gens (w_reg ?w)) a' = Some g'" for a' g'
  proof (cases "a' = a")
    case True
    then have "g' = g\<lparr>gn_refs := gn_refs g + 1\<rparr>" using that by (simp add: gens gomap_simps)
    then show ?thesis
      using True gens_invD [OF inv g(1)] g(2) new [of a] by (simp add: gen_ok_def same)
  next
    case False
    then have "gen_ok E w a' g'" using that inv by (simp add: gens gomap_simps gens_inv_def)
    then show ?thesis using False new [of a'] by (simp add: gen_ok_def same)
  qed
  moreover have "owners_ok ?w"
    unfolding owners_ok_def
  proof (intro allI impI)
    fix b h b' h'
    assume h: "get (rg_gens (w_reg ?w)) b = Some h" "get (rg_gens (w_reg ?w)) b' = Some h'"
      "0 < gn_refs h" "0 < gn_refs h'" "rc_snapshot (gn_record h) = rc_snapshot (gn_record h')"
    then obtain k k' where "get (rg_gens (w_reg w)) b = Some k" "gn_record k = gn_record h" "0 < gn_refs k"
      "get (rg_gens (w_reg w)) b' = Some k'" "gn_record k' = gn_record h'" "0 < gn_refs k'"
      using g by (auto simp: gens gomap_simps split: if_splits)
    then show "b = b'"
      using inv h(5) unfolding gens_inv_def owners_ok_def by metis
  qed
  ultimately show ?thesis
    using inv g(1) by (auto simp: gens_inv_def gens same newLease_def Let_def gomap_simps)
qed

lemma publish_simps [simp]:
  "rg_gens (publish cid x r) = put (Suc (rg_next r))
     \<lparr>gn_id = Suc (rg_next r), gn_record = x, gn_refs = 1, gn_retired = False\<rparr> (rg_gens r)"
  "rg_next (publish cid x r) = Suc (rg_next r)" "rg_reclaimed (publish cid x r) = rg_reclaimed r"
  "rg_entries (publish cid x r) = put cid (Suc (rg_next r)) (rg_entries r)"
  "rg_closed (publish cid x r) = rg_closed r" "rg_revision (publish cid x r) = rg_revision r"
  by (simp_all add: publish_def Let_def)

lemma publish_inv:
  assumes inv: "gens_inv sha256 E w" and b: "record_backed (w_sys w) x"
    and own: "\<And>a g. get (rg_gens (w_reg w)) a = Some g \<Longrightarrow> 0 < gn_refs g \<Longrightarrow> rc_snapshot (gn_record g) \<noteq> rc_snapshot x"
  shows "gens_inv sha256 (insert (Suc (rg_next (w_reg w))) E) (w\<lparr>w_reg := publish cid x (w_reg w)\<rparr>)"
proof -
  let ?n = "Suc (rg_next (w_reg w))" and ?w = "w\<lparr>w_reg := publish cid x (w_reg w)\<rparr>"
  let ?E = "insert ?n E" and ?g = "\<lparr>gn_id = ?n, gn_record = x, gn_refs = 1, gn_retired = False\<rparr>"
  have none: "get (rg_gens (w_reg w)) ?n = None"
    using gens_invD(2) [OF inv, of ?n] by (cases "get (rg_gens (w_reg w)) ?n") auto
  have gens: "rg_gens (w_reg ?w) = put ?n ?g (rg_gens (w_reg w))"
    and same: "rg_next (w_reg ?w) = ?n" "rg_reclaimed (w_reg ?w) = rg_reclaimed (w_reg w)"
    by simp_all
  have "?n \<notin> E" "?n \<notin> set (rg_reclaimed (w_reg w))" using inv none by (auto simp: gens_inv_def)
  moreover have "msum (lease_on ?n) (w_leases w) = 0"
  proof (rule msum_zero)
    fix k l assume "(k, l) \<in> set (w_leases w)"
    then have "get (rg_gens (w_reg w)) (ls_generation l) \<noteq> None"
      using inv by (auto simp: gens_inv_def keys_ok_get)
    with none show "lease_on ?n l = 0" by (auto simp: lease_on_def)
  qed
  ultimately have "gen_ok ?E ?w a g" if "get (rg_gens (w_reg ?w)) a = Some g" for a g
  proof (cases "a = ?n")
    case True
    then have "g = ?g" using that by (simp add: gens gomap_simps)
    with True b \<open>?n \<notin> set _\<close> \<open>msum _ _ = 0\<close> show ?thesis by (simp add: gen_ok_def same gen_refs_def)
  next
    case False
    then have "gen_ok E w a g" using that inv by (simp add: gens gomap_simps gens_inv_def)
    with False show ?thesis by (auto simp: gen_ok_def same gen_refs_def)
  qed
  moreover have "owners_ok ?w"
    unfolding owners_ok_def
  proof (intro allI impI)
    fix c h c' h'
    assume h: "get (rg_gens (w_reg ?w)) c = Some h" "get (rg_gens (w_reg ?w)) c' = Some h'"
      "0 < gn_refs h" "0 < gn_refs h'" "rc_snapshot (gn_record h) = rc_snapshot (gn_record h')"
    show "c = c'"
    proof (cases "c = ?n \<or> c' = ?n")
      case True
      with h own show ?thesis by (auto simp: gens gomap_simps split: if_splits dest: sym)
    next
      case False
      with h inv show ?thesis unfolding gens_inv_def owners_ok_def by (auto simp: gens gomap_simps)
    qed
  qed
  ultimately show ?thesis
    using inv by (auto simp: gens_inv_def gens same gomap_simps)
qed

lemma gens_inv_sys_step:
  assumes inv: "gens_inv sha256 E w" and st: "sys_step sha256 (w_sys w) s'"
    and keep: "\<And>a g sid. get (rg_gens (w_reg w)) a = Some g \<Longrightarrow> 0 < gn_refs g \<Longrightarrow>
      rc_snapshot (gn_record g) = Some sid \<Longrightarrow> snapshot_live s' sid"
  shows "gens_inv sha256 E (w\<lparr>w_sys := s'\<rparr>)"
proof -
  have sys: "sys_inv sha256 (w_sys w)" using inv by (simp add: gens_inv_def)
  have "gen_ok E (w\<lparr>w_sys := s'\<rparr>) a g" if g: "get (rg_gens (w_reg w)) a = Some g" for a g
  proof -
    have "record_backed s' (gn_record g)" if "0 < gn_refs g"
      using sys st gens_invD(5) [OF inv g that] by (rule record_backed_step) (rule keep [OF g that])
    moreover have "snapshot_dead s' (gn_record g)" if "gn_refs g = 0"
      using st gens_invD(6) [OF inv g that] by (rule snapshot_dead_step)
    ultimately show ?thesis using inv g by (auto simp: gens_inv_def gen_ok_def gen_refs_def)
  qed
  moreover have "sys_inv sha256 s'" using st sys by (rule sys_step_inv)
  ultimately show ?thesis using inv by (auto simp: gens_inv_def owners_ok_def)
qed

section \<open>Frames\<close>

abbreviation record_at :: "world \<Rightarrow> nat \<Rightarrow> Record option" where
  "record_at w a \<equiv> map_option gn_record (get (rg_gens (w_reg w)) a)"

lemma retireLocked_frame [simp]:
  "w_leases (retireLocked a w) = w_leases w"
  "rg_entries (w_reg (retireLocked a w)) = rg_entries (w_reg w)"
  "rg_closed (w_reg (retireLocked a w)) = rg_closed (w_reg w)"
  "rg_next (w_reg (retireLocked a w)) = rg_next (w_reg w)"
  "record_at (retireLocked a w) a' = record_at w a'"
  by (auto simp: retireLocked_def Let_def gomap_simps split: option.splits)

lemma fold_retireLocked_frame [simp]:
  "w_leases (fold retireLocked as w) = w_leases w"
  "rg_closed (w_reg (fold retireLocked as w)) = rg_closed (w_reg w)"
  "record_at (fold retireLocked as w) a' = record_at w a'"
  by (induction as arbitrary: w) auto

lemma leaseRelease_frame [simp]:
  "rg_entries (w_reg (leaseRelease b w)) = rg_entries (w_reg w)"
  "rg_closed (w_reg (leaseRelease b w)) = rg_closed (w_reg w)"
  "rg_nodes (w_reg (leaseRelease b w)) = rg_nodes (w_reg w)"
  "record_at (leaseRelease b w) a' = record_at w a'"
  by (auto simp: leaseRelease_def releaseGeneration_def Let_def gomap_simps split: option.splits)

lemma newLease_frame:
  assumes "get (rg_gens (w_reg w)) a = Some g" and "newLease a g iv w = (w', b)"
  shows "rg_entries (w_reg w') = rg_entries (w_reg w)" "rg_closed (w_reg w') = rg_closed (w_reg w)"
    "rg_nodes (w_reg w') = rg_nodes (w_reg w)" "record_at w' a' = record_at w a'"
    "b = fresh (w_leases w)" "w_sys w' = w_sys w"
    "w_leases w' = put b \<lparr>ls_generation = a, ls_once = False, ls_invocation = iv\<rparr> (w_leases w)"
  using assms by (auto simp: newLease_def Let_def gomap_simps)

lemma bumpRevision_simps [simp]:
  "rg_gens (bumpRevision r) = rg_gens r" "rg_entries (bumpRevision r) = rg_entries r"
  "rg_closed (bumpRevision r) = rg_closed r" "rg_next (bumpRevision r) = rg_next r"
  "rg_reclaimed (bumpRevision r) = rg_reclaimed r" "rg_nodes (bumpRevision r) = rebuildHierarchy (entryRecords r)"
  "rg_revision (bumpRevision r) = rg_revision r + 1"
  by (simp_all add: bumpRevision_def rebuildHierarchyLocked_def)

lemma entryRecords_cong:
  assumes "rg_entries r' = rg_entries r"
    and "\<And>a. map_option gn_record (get (rg_gens r') a) = map_option gn_record (get (rg_gens r) a)"
  shows "entryRecords r' = entryRecords r"
proof -
  have "map_option (\<lambda>g. (c, gn_record g)) (get (rg_gens r') a) = map_option (\<lambda>g. (c, gn_record g)) (get (rg_gens r) a)" for c :: string and a
    using assms(2) [of a] by (cases "get (rg_gens r') a"; cases "get (rg_gens r) a") auto
  then have "(\<lambda>(c :: string, a). map_option (\<lambda>g. (c, gn_record g)) (get (rg_gens r') a)) =
    (\<lambda>(c, a). map_option (\<lambda>g. (c, gn_record g)) (get (rg_gens r) a))" by (intro ext) auto
  then show ?thesis using assms(1) by (simp only: entryRecords_def)
qed

lemma entries_ok_cong:
  assumes "rg_entries (w_reg w') = rg_entries (w_reg w)" "rg_closed (w_reg w') = rg_closed (w_reg w)"
    and "\<And>a. record_at w' a = record_at w a" and "entries_ok w"
  shows "entries_ok w'"
proof -
  have "\<exists>g. get (rg_gens (w_reg w')) a = Some g \<and> md_ID (rc_metadata (gn_record g)) = c"
    if ca: "get (rg_entries (w_reg w)) c = Some a" for c a
  proof -
    obtain g where "get (rg_gens (w_reg w)) a = Some g" "md_ID (rc_metadata (gn_record g)) = c"
      using assms(4) ca unfolding entries_ok_def by blast
    then show ?thesis using assms(3) [of a] by auto
  qed
  then show ?thesis using assms(1,2,4) by (simp add: entries_ok_def)
qed

lemma gens_inv_cong:
  assumes "w_sys w' = w_sys w" "w_leases w' = w_leases w" "rg_gens (w_reg w') = rg_gens (w_reg w)"
    "rg_next (w_reg w') = rg_next (w_reg w)" "rg_reclaimed (w_reg w') = rg_reclaimed (w_reg w)"
  shows "gens_inv sha256 E w' = gens_inv sha256 E w"
  using assms by (simp add: gens_inv_def gen_ok_def gen_refs_def owners_ok_def)

lemma installed_ran: "keys_ok (rg_entries (w_reg w)) \<Longrightarrow> installed w = ran (map_of (rg_entries (w_reg w)))"
  by (simp add: keys_ok_def ran_distinct)

lemma entries_inj:
  "entries_ok w \<Longrightarrow> get (rg_entries (w_reg w)) c = Some a \<Longrightarrow> get (rg_entries (w_reg w)) c' = Some a \<Longrightarrow> c = c'"
  unfolding entries_ok_def by (metis option.inject)

lemma set_put_subset: "set (put k v m) \<subseteq> insert (k, v) (set m)"
  by (induction m) auto

lemma snd_put:
  assumes "keys_ok m" shows "snd ` set (put k v m) = insert v (ran ((map_of m)(k := None)))"
proof -
  have "snd ` set (put k v m) = ran ((map_of m)(k \<mapsto> v))"
    using assms by (metis keys_ok_put keys_ok_def ran_distinct update_conv')
  then show ?thesis by (auto simp: ran_def)
qed

lemma snd_del:
  assumes "keys_ok m" shows "snd ` set (del k m) = ran ((map_of m)(k := None))"
  using assms by (metis keys_ok_del keys_ok_def ran_distinct delete_conv')

lemma entries_without:
  assumes "entries_ok w" and "get (rg_entries (w_reg w)) c = Some a"
  shows "ran ((map_of (rg_entries (w_reg w)))(c := None)) = installed w - {a}"
proof -
  have "keys_ok (rg_entries (w_reg w))" using assms(1) by (simp add: entries_ok_def)
  then have i: "installed w = ran (map_of (rg_entries (w_reg w)))" by (rule installed_ran)
  have "(\<exists>c'. c' \<noteq> c \<and> get (rg_entries (w_reg w)) c' = Some b) \<longleftrightarrow>
      (\<exists>c'. get (rg_entries (w_reg w)) c' = Some b) \<and> b \<noteq> a" for b
    using assms(2) entries_inj [OF assms(1)] by (metis option.inject)
  then show ?thesis unfolding i by (auto simp: ran_def)
qed

section \<open>Registry operations\<close>

definition unowned :: "world \<Rightarrow> Record \<Rightarrow> bool" where
  "unowned w x = list_all (\<lambda>(a, g). 0 < gn_refs g \<longrightarrow> rc_snapshot (gn_record g) \<noteq> rc_snapshot x) (rg_gens (w_reg w))"

lemma unownedD:
  "unowned w x \<Longrightarrow> get (rg_gens (w_reg w)) a = Some g \<Longrightarrow> 0 < gn_refs g \<Longrightarrow> rc_snapshot (gn_record g) \<noteq> rc_snapshot x"
  by (auto simp: unowned_def list_all_iff dest: map_of_SomeD)

lemma publish_entries_ok:
  assumes "entries_ok w" and "\<not> rg_closed (w_reg w)" and "\<forall>a g. get (rg_gens (w_reg w)) a = Some g \<longrightarrow> a \<le> rg_next (w_reg w)"
  shows "entries_ok (w\<lparr>w_reg := publish (md_ID (rc_metadata x)) x (w_reg w)\<rparr>)"
proof -
  have "get (rg_gens (w_reg w)) (Suc (rg_next (w_reg w))) = None"
    using assms(3) by (metis not_None_eq not_less_eq_eq order_refl)
  then show ?thesis
    using assms(1,2) unfolding entries_ok_def by (auto simp: gomap_simps) force
qed

lemma gens_le_next: "gens_inv sha256 E w \<Longrightarrow> \<forall>a g. get (rg_gens (w_reg w)) a = Some g \<longrightarrow> a \<le> rg_next (w_reg w)"
  by (auto simp: gens_inv_def gen_ok_def)

lemma reg_inv_bump:
  assumes "gens_inv sha256 (installed w) w" and "entries_ok w" and "\<not> rg_closed (w_reg w)"
  shows "reg_inv sha256 (w\<lparr>w_reg := bumpRevision (w_reg w)\<rparr>)"
proof -
  have "entryRecords (bumpRevision (w_reg w)) = entryRecords (w_reg w)" by (rule entryRecords_cong) simp_all
  moreover have "gens_inv sha256 (installed w) (w\<lparr>w_reg := bumpRevision (w_reg w)\<rparr>)"
    using assms(1) by (subst gens_inv_cong [where w = w]) simp_all
  ultimately show ?thesis
    using assms by (auto simp: reg_inv_def entries_ok_def nodes_ok_def)
qed

lemma publish_installed:
  assumes inv: "reg_inv sha256 w" and opened: "\<not> rg_closed (w_reg w)"
    and b: "record_backed (w_sys w) x" and own: "unowned w x"
  defines "w1 \<equiv> w\<lparr>w_reg := publish (md_ID (rc_metadata x)) x (w_reg w)\<rparr>"
  shows "gens_inv sha256 (insert (Suc (rg_next (w_reg w))) (installed w)) w1" and "entries_ok w1"
proof -
  have g: "gens_inv sha256 (installed w) w" and e: "entries_ok w" using inv by (simp_all add: reg_inv_def)
  show "gens_inv sha256 (insert (Suc (rg_next (w_reg w))) (installed w)) w1"
    unfolding w1_def using g b by (rule publish_inv) (rule unownedD [OF own])
  show "entries_ok w1"
    unfolding w1_def using e opened gens_le_next [OF g] by (rule publish_entries_ok)
qed

lemma Add_inv:
  assumes inv: "reg_inv sha256 w" and r: "Add (Some x) w = Inr w'"
    and b: "record_backed (w_sys w) x" and own: "unowned w x"
  shows "reg_inv sha256 w'"
proof -
  let ?c = "md_ID (rc_metadata x)"
  let ?w1 = "w\<lparr>w_reg := publish ?c x (w_reg w)\<rparr>"
  have c: "\<not> rg_closed (w_reg w)" "get (rg_entries (w_reg w)) ?c = None"
    and w': "w' = ?w1\<lparr>w_reg := bumpRevision (w_reg ?w1)\<rparr>"
    using r by (auto simp: Add_def addLocked_def res_simps split: if_splits)
  have "keys_ok (rg_entries (w_reg w))" using inv by (simp add: reg_inv_def entries_ok_def)
  then have "installed ?w1 = insert (Suc (rg_next (w_reg w))) (installed w)"
    using c by (simp add: snd_put installed_ran fun_upd_idem)
  then show ?thesis
    unfolding w' using publish_installed [OF inv c(1) b own] c(1) by (intro reg_inv_bump) simp_all
qed

lemma Reinstall_inv:
  assumes inv: "reg_inv sha256 w" and r: "Reinstall (Some x) w = Inr w'"
    and b: "record_backed (w_sys w) x" and own: "unowned w x"
  shows "reg_inv sha256 w'"
proof -
  let ?c = "md_ID (rc_metadata x)" and ?n = "Suc (rg_next (w_reg w))"
  let ?w1 = "w\<lparr>w_reg := publish ?c x (w_reg w)\<rparr>"
  obtain cur where c: "\<not> rg_closed (w_reg w)" "get (rg_entries (w_reg w)) ?c = Some cur"
    and w': "w' = (retireLocked cur ?w1)\<lparr>w_reg := bumpRevision (w_reg (retireLocked cur ?w1))\<rparr>"
    using r by (auto simp: Reinstall_def Let_def split: if_splits option.splits)
  have g: "gens_inv sha256 (installed w) w" and e: "entries_ok w" using inv by (simp_all add: reg_inv_def)
  have k: "keys_ok (rg_entries (w_reg w))" using e by (simp add: entries_ok_def)
  note p = publish_installed [OF inv c(1) b own]
  have cur: "cur \<in> installed w" using k c(2) by (auto simp: installed_ran ran_def)
  have "cur \<noteq> ?n" using gens_le_next [OF g] e c(2) by (force simp: entries_ok_def)
  then have "insert ?n (installed w) - {cur} = insert ?n (installed w - {cur})" by auto
  also have "\<dots> = installed (retireLocked cur ?w1)"
    using k entries_without [OF e c(2)] by (simp add: snd_put)
  finally have "gens_inv sha256 (installed (retireLocked cur ?w1)) (retireLocked cur ?w1)"
    using retireLocked_inv [OF p(1), of cur] cur by simp
  moreover have "entries_ok (retireLocked cur ?w1)"
    by (rule entries_ok_cong [OF _ _ _ p(2)]) simp_all
  ultimately show ?thesis
    unfolding w' using c(1) by (intro reg_inv_bump) simp_all
qed

lemma Uninstall_inv:
  assumes inv: "reg_inv sha256 w" and r: "Uninstall cid w = Inr w'"
  shows "reg_inv sha256 w'"
proof -
  let ?w1 = "w\<lparr>w_reg := (w_reg w)\<lparr>rg_entries := del cid (rg_entries (w_reg w))\<rparr>\<rparr>"
  obtain cur where c: "\<not> rg_closed (w_reg w)" "get (rg_entries (w_reg w)) cid = Some cur"
    and w': "w' = (retireLocked cur ?w1)\<lparr>w_reg := bumpRevision (w_reg (retireLocked cur ?w1))\<rparr>"
    using r by (auto simp: Uninstall_def Let_def split: if_splits option.splits)
  have g: "gens_inv sha256 (installed w) w" and e: "entries_ok w" using inv by (simp_all add: reg_inv_def)
  have k: "keys_ok (rg_entries (w_reg w))" using e by (simp add: entries_ok_def)
  have "gens_inv sha256 (installed w) ?w1" using g by (subst gens_inv_cong [where w = w]) simp_all
  moreover have "cur \<in> installed w" using k c(2) by (auto simp: installed_ran ran_def)
  moreover have "installed (retireLocked cur ?w1) = installed w - {cur}"
    using k entries_without [OF e c(2)] by (simp add: snd_del)
  ultimately have "gens_inv sha256 (installed (retireLocked cur ?w1)) (retireLocked cur ?w1)"
    using retireLocked_inv [of sha256 "installed w" ?w1 cur] by simp
  moreover have "entries_ok ?w1" using e c(1) by (auto simp: entries_ok_def gomap_simps)
  then have "entries_ok (retireLocked cur ?w1)" by (rule entries_ok_cong [rotated -1]) simp_all
  ultimately show ?thesis
    unfolding w' using c(1) by (intro reg_inv_bump) simp_all
qed

lemma reg_inv_frame:
  assumes "reg_inv sha256 w" and "gens_inv sha256 (installed w) w'"
    and "rg_entries (w_reg w') = rg_entries (w_reg w)" "rg_closed (w_reg w') = rg_closed (w_reg w)"
    and "rg_nodes (w_reg w') = rg_nodes (w_reg w)" and "\<And>a. record_at w' a = record_at w a"
  shows "reg_inv sha256 w'"
proof -
  have "entryRecords (w_reg w') = entryRecords (w_reg w)" using assms(3,6) by (intro entryRecords_cong)
  moreover have "entries_ok w'" using assms(3,4,6)
  proof (rule entries_ok_cong)
    show "entries_ok w" using assms(1) by (simp add: reg_inv_def)
  qed
  ultimately show ?thesis using assms(1-5) by (simp add: reg_inv_def nodes_ok_def)
qed

lemma leaseRelease_reg_inv: "reg_inv sha256 w \<Longrightarrow> reg_inv sha256 (leaseRelease b w)"
  by (rule reg_inv_frame) (simp_all add: reg_inv_def leaseRelease_inv)

lemma sys_step_reg_inv:
  assumes inv: "reg_inv sha256 w" and st: "sys_step sha256 (w_sys w) s'"
    and keep: "\<And>a g sid. get (rg_gens (w_reg w)) a = Some g \<Longrightarrow> 0 < gn_refs g \<Longrightarrow>
      rc_snapshot (gn_record g) = Some sid \<Longrightarrow> snapshot_live s' sid"
  shows "reg_inv sha256 (w\<lparr>w_sys := s'\<rparr>)"
proof (rule reg_inv_frame [OF inv])
  have "gens_inv sha256 (installed w) w" using inv by (simp add: reg_inv_def)
  then show "gens_inv sha256 (installed w) (w\<lparr>w_sys := s'\<rparr>)" using st keep by (rule gens_inv_sys_step)
qed simp_all

lemma find_SomeD: "find P xs = Some x \<Longrightarrow> P x \<and> x \<in> set xs"
  by (induction xs) (auto split: if_splits)

text \<open>The three ways to a lease all end in \<open>newLease\<close> on an installed generation.\<close>

definition leased :: "string \<Rightarrow> invocation option \<Rightarrow> world \<Rightarrow> world \<Rightarrow> nat \<Rightarrow> bool" where
  "leased cid iv w w' b \<longleftrightarrow>
     (\<exists>a g. \<not> rg_closed (w_reg w) \<and> get (rg_entries (w_reg w)) cid = Some a \<and>
        get (rg_gens (w_reg w)) a = Some g \<and> \<not> gn_retired g \<and> newLease a g iv w = (w', b))"

lemma liveGeneration_Inr:
  "liveGeneration cid r = Inr (a, g) \<longleftrightarrow>
     \<not> rg_closed r \<and> get (rg_entries r) cid = Some a \<and> get (rg_gens r) a = Some g \<and> \<not> gn_retired g"
  by (auto simp: liveGeneration_def split: option.splits)

lemma Lookup_leased: "Lookup cid w = Inr (w', b) \<longleftrightarrow> leased cid None w w' b"
  by (force simp: Lookup_def leased_def res_simps liveGeneration_Inr)

lemma ResolveOperation_leased:
  assumes "ResolveOperation cid oid w = Inr (w', b)"
  shows "\<exists>iv. leased cid (Some iv) w w' b \<and> iv_capabilityID iv = cid \<and>
    op_ID (iv_operation iv) = oid \<and> pb_ID (iv_binding iv) = op_Provider (iv_operation iv) \<and>
    (\<exists>g. get (rg_gens (w_reg w)) (the (get (rg_entries (w_reg w)) cid)) = Some g \<and>
       iv_operation iv \<in> set (rc_operations (gn_record g)) \<and> iv_binding iv \<in> set (rc_providers (gn_record g)))"
proof -
  obtain a g x p where l: "liveGeneration cid (w_reg w) = Inr (a, g)"
    and x: "find (\<lambda>x. op_ID x = oid) (rc_operations (gn_record g)) = Some x"
    and p: "find (\<lambda>p. pb_ID p = op_Provider x) (rc_providers (gn_record g)) = Some p"
    and n: "newLease a g (Some \<lparr>iv_capabilityID = cid, iv_operation = x, iv_binding = p\<rparr>) w = (w', b)"
    using assms by (auto simp: ResolveOperation_def res_simps split: option.splits)
  from l have "leased cid (Some \<lparr>iv_capabilityID = cid, iv_operation = x, iv_binding = p\<rparr>) w w' b"
    using n by (auto simp: leased_def liveGeneration_Inr)
  moreover have "get (rg_gens (w_reg w)) (the (get (rg_entries (w_reg w)) cid)) = Some g"
    using l by (simp add: liveGeneration_Inr)
  moreover have "op_ID x = oid \<and> x \<in> set (rc_operations (gn_record g))"
    "pb_ID p = op_Provider x \<and> p \<in> set (rc_providers (gn_record g))"
    using find_SomeD [OF x] find_SomeD [OF p] by simp_all
  ultimately show ?thesis
    by (intro exI [of _ "\<lparr>iv_capabilityID = cid, iv_operation = x, iv_binding = p\<rparr>"]) auto
qed

lemma ResolveToolPath_leased:
  assumes "ResolveToolPath path w = Inr (w', b)"
  shows "\<exists>cid oid. ResolveOperation cid oid w = Inr (w', b)"
  using assms unfolding ResolveToolPath_def Let_def by (auto split: if_splits option.splits)

lemma leased_inv:
  assumes inv: "reg_inv sha256 w" and l: "leased cid iv w w' b"
  shows "reg_inv sha256 w'"
proof -
  obtain a g where e: "get (rg_entries (w_reg w)) cid = Some a" and g: "get (rg_gens (w_reg w)) a = Some g"
    and n: "newLease a g iv w = (w', b)" and r: "\<not> gn_retired g"
    using l by (auto simp: leased_def)
  have gi: "gens_inv sha256 (installed w) w" using inv by (simp add: reg_inv_def)
  have "0 < gn_refs g"
    using gens_invD(3,4) [OF gi g] r lease_on_nonneg [of a "w_leases w"] by (simp add: gen_refs_def)
  then have "gens_inv sha256 (installed w) w'" using newLease_inv [OF gi g] n by (metis fst_conv)
  then show ?thesis by (rule reg_inv_frame [OF inv]) (use newLease_frame [OF g n] in simp_all)
qed

lemma fold_retireLocked_inv:
  assumes "gens_inv sha256 E w" and "set as \<subseteq> E" and "distinct as"
  shows "gens_inv sha256 (E - set as) (fold retireLocked as w)"
  using assms
proof (induction as arbitrary: E w)
  case (Cons a as)
  have "gens_inv sha256 (E - {a}) (retireLocked a w)" using Cons.prems by (intro retireLocked_inv) auto
  then have "gens_inv sha256 (E - {a} - set as) (fold retireLocked as (retireLocked a w))"
    using Cons.prems by (intro Cons.IH) auto
  then show ?case by (simp add: Diff_insert2 [symmetric])
qed simp

lemma entries_distinct:
  assumes "entries_ok w" shows "distinct (map snd (rg_entries (w_reg w)))"
proof -
  have k: "keys_ok (rg_entries (w_reg w))" using assms by (simp add: entries_ok_def)
  then have "inj_on snd (set (rg_entries (w_reg w)))"
    using entries_inj [OF assms] by (auto intro!: inj_onI simp: keys_ok_get [symmetric]) 
  moreover have "distinct (rg_entries (w_reg w))" using k by (auto simp: keys_ok_def distinct_map)
  ultimately show ?thesis by (simp add: distinct_map)
qed

lemma closeLocked_inv:
  assumes g: "gens_inv sha256 (installed w) w" and e: "entries_ok w"
    and n: "rg_closed (w_reg w) \<longrightarrow> rg_nodes (w_reg w) = []"
  shows "reg_inv sha256 (closeLocked w)"
proof (cases "rg_closed (w_reg w)")
  case True
  then show ?thesis using assms by (simp add: closeLocked_def reg_inv_def nodes_ok_def)
next
  case False
  let ?as = "map snd (rg_entries (w_reg w))" and ?w1 = "w\<lparr>w_reg := (w_reg w)\<lparr>rg_closed := True\<rparr>\<rparr>"
  let ?w2 = "fold retireLocked ?as ?w1"
  let ?w3 = "?w2\<lparr>w_reg := (w_reg ?w2)\<lparr>rg_entries := [], rg_nodes := []\<rparr>\<rparr>"
  have "gens_inv sha256 (installed w) ?w1" using g by (subst gens_inv_cong [where w = w]) simp_all
  then have "gens_inv sha256 (installed w - set ?as) ?w2"
    using entries_distinct [OF e] by (intro fold_retireLocked_inv) auto
  then have "gens_inv sha256 {} ?w3" by (subst gens_inv_cong [where w = ?w2]) simp_all
  moreover have "entries_ok ?w3" "nodes_ok ?w3" by (simp_all add: entries_ok_def nodes_ok_def keys_ok_def)
  ultimately show ?thesis using False by (simp add: closeLocked_def Let_def reg_inv_def)
qed

lemma Close_inv: "reg_inv sha256 w \<Longrightarrow> reg_inv sha256 (Close w)"
  unfolding Close_def by (rule closeLocked_inv) (simp_all add: reg_inv_def nodes_ok_def)

text \<open>The records given to \<^verbatim>\<open>NewRegistry\<close>: normalised, live, and no two of them on one snapshot.\<close>

definition fresh_records :: "snapshot_system \<Rightarrow> Record option list \<Rightarrow> bool" where
  "fresh_records s records \<longleftrightarrow>
     list_all (\<lambda>x. case x of None \<Rightarrow> True | Some r \<Rightarrow> rc_snapshot r \<noteq> None \<longrightarrow> record_backed s r) records \<and>
     distinct (List.map_filter (\<lambda>x. Option.bind x rc_snapshot) records)"

lemma addAll_inv:
  assumes "gens_inv sha256 (installed w) w" and "entries_ok w" and "\<not> rg_closed (w_reg w)"
    and "fresh_records (w_sys w) records"
    and "\<forall>x \<in> set records. \<forall>r. x = Some r \<longrightarrow> rc_snapshot r \<noteq> None \<longrightarrow> unowned w r"
  shows "gens_inv sha256 (installed (w\<lparr>w_reg := snd (addAll records (w_reg w))\<rparr>)) (w\<lparr>w_reg := snd (addAll records (w_reg w))\<rparr>)
    \<and> entries_ok (w\<lparr>w_reg := snd (addAll records (w_reg w))\<rparr>)
    \<and> \<not> rg_closed (snd (addAll records (w_reg w)))"
  using assms
proof (induction records arbitrary: w)
  case (Cons x records)
  show ?case
  proof (cases "addLocked x (w_reg w)")
    case (Inl e)
    then show ?thesis using Cons.prems by simp
  next
    case (Inr r')
    then obtain r where x: "x = Some r" and sn: "rc_snapshot r \<noteq> None"
      and none: "get (rg_entries (w_reg w)) (md_ID (rc_metadata r)) = None"
      and r': "r' = publish (md_ID (rc_metadata r)) r (w_reg w)"
      by (auto simp: addLocked_def split: option.splits if_splits)
    let ?w = "w\<lparr>w_reg := r'\<rparr>"
    have b: "record_backed (w_sys w) r" using Cons.prems(4) x sn by (auto simp: fresh_records_def)
    have own: "unowned w r" using Cons.prems(5) x sn by auto
    have g: "gens_inv sha256 (insert (Suc (rg_next (w_reg w))) (installed w)) ?w"
      unfolding r' using Cons.prems(1) b by (rule publish_inv) (rule unownedD [OF own])
    have e: "entries_ok ?w"
      unfolding r' using Cons.prems(2,3) gens_le_next [OF Cons.prems(1)] by (rule publish_entries_ok)
    have "keys_ok (rg_entries (w_reg w))" using Cons.prems(2) by (simp add: entries_ok_def)
    then have i: "installed ?w = insert (Suc (rg_next (w_reg w))) (installed w)"
      using none by (simp add: r' snd_put installed_ran fun_upd_idem)
    have f: "fresh_records (w_sys w) records"
      using Cons.prems(4) x sn unfolding fresh_records_def by auto
    have nw: "rc_snapshot r \<notin> (\<lambda>y. Option.bind y rc_snapshot) ` set records"
      using Cons.prems(4) x sn by (force simp: fresh_records_def List.map_filter_def image_iff split: option.splits)
    have "\<forall>y \<in> set records. \<forall>q. y = Some q \<longrightarrow> rc_snapshot q \<noteq> None \<longrightarrow> unowned ?w q"
    proof (intro ballI allI impI)
      fix y q assume y: "y \<in> set records" "y = Some q" "rc_snapshot q \<noteq> None"
      then have "unowned w q" using Cons.prems(5) by auto
      moreover have "rc_snapshot r \<noteq> rc_snapshot q" using nw y by (metis bind.bind_lunit image_eqI)
      ultimately show "unowned ?w q"
        using gens_le_next [OF Cons.prems(1)]
        by (auto simp: unowned_def r' list_all_iff dest!: set_put_subset [THEN subsetD])
    qed
    then show ?thesis
      using Cons.IH [of ?w] g e i f Inr Cons.prems(3) by (simp add: r')
  qed
qed simp

lemma NewRegistry_inv:
  assumes "sys_inv sha256 s" and "fresh_records s records"
  shows "reg_inv sha256 (snd (NewRegistry records s))"
proof -
  let ?w = "\<lparr>w_reg = emptyRegistry, w_leases = [], w_sys = s\<rparr>"
  obtain e r where er: "addAll records emptyRegistry = (e, r)" by force
  let ?w1 = "\<lparr>w_reg = r, w_leases = [], w_sys = s\<rparr>"
  have "gens_inv sha256 (installed ?w) ?w"
    using assms(1) by (simp add: gens_inv_def emptyRegistry_def keys_ok_def owners_ok_def)
  moreover have "entries_ok ?w" by (simp add: entries_ok_def emptyRegistry_def keys_ok_def)
  moreover have "\<forall>x \<in> set records. \<forall>r. x = Some r \<longrightarrow> rc_snapshot r \<noteq> None \<longrightarrow> unowned ?w r"
    by (simp add: unowned_def emptyRegistry_def)
  ultimately have i: "gens_inv sha256 (installed ?w1) ?w1 \<and> entries_ok ?w1 \<and> \<not> rg_closed r"
    using addAll_inv [of sha256 ?w records] assms(2) er by (simp add: emptyRegistry_def)
  show ?thesis
  proof (cases e)
    case None
    let ?w2 = "\<lparr>w_reg = rebuildHierarchyLocked r, w_leases = [], w_sys = s\<rparr>"
    have "entryRecords (rebuildHierarchyLocked r) = entryRecords r"
      by (rule entryRecords_cong) (simp_all add: rebuildHierarchyLocked_def)
    moreover have "gens_inv sha256 (installed ?w1) ?w2"
      using i by (subst gens_inv_cong [where w = ?w1]) (simp_all add: rebuildHierarchyLocked_def)
    ultimately have "reg_inv sha256 ?w2"
      using i by (simp add: reg_inv_def nodes_ok_def entries_ok_def rebuildHierarchyLocked_def)
    then show ?thesis using None er by (simp add: NewRegistry_def)
  next
    case (Some err)
    have "reg_inv sha256 (closeLocked ?w1)" using i by (intro closeLocked_inv) simp_all
    then show ?thesis using Some er by (simp add: NewRegistry_def)
  qed
qed

end
