(* ===== verification/Registry_Steps.thy ===== *)
theory Registry_Steps
  imports Registry_Inv
begin

text \<open>
  Runs of the registry.  \<open>reg_step\<close> interleaves, in any order, every operation of the registry with
  every operation of the snapshot store below it; \<open>reg_reachable\<close> starts from \<^verbatim>\<open>NewRegistry\<close>.  The
  properties say what a lease is for: the record it pins stays the same and stays readable, whatever
  is reinstalled, uninstalled or closed meanwhile, and its generation is reclaimed exactly once, when
  it is retired and the last lease on it is gone.
\<close>

section \<open>Steps\<close>

text \<open>
  Two conditions bind the caller: a record handed to the registry is backed by a live snapshot that no
  generation of the registry owns already, and only the registry releases the snapshots it owns.
\<close>

definition owned_live :: "world \<Rightarrow> snapshot_system \<Rightarrow> bool" where
  "owned_live w s' =
     list_all (\<lambda>(a, g). 0 < gn_refs g \<longrightarrow>
       (case rc_snapshot (gn_record g) of None \<Rightarrow> True | Some sid \<Rightarrow> snapshot_live s' sid)) (rg_gens (w_reg w))"

inductive reg_step :: "(bytes \<Rightarrow> digest) \<Rightarrow> world \<Rightarrow> world \<Rightarrow> bool" for sha256 where
  step_Add: "Add (Some x) w = Inr w' \<Longrightarrow> record_backed (w_sys w) x \<Longrightarrow> unowned w x \<Longrightarrow> reg_step sha256 w w'"
| step_Reinstall: "Reinstall (Some x) w = Inr w' \<Longrightarrow> record_backed (w_sys w) x \<Longrightarrow> unowned w x \<Longrightarrow> reg_step sha256 w w'"
| step_Uninstall: "Uninstall cid w = Inr w' \<Longrightarrow> reg_step sha256 w w'"
| step_Lookup: "Lookup cid w = Inr (w', b) \<Longrightarrow> reg_step sha256 w w'"
| step_ResolveOperation: "ResolveOperation cid oid w = Inr (w', b) \<Longrightarrow> reg_step sha256 w w'"
| step_ResolveToolPath: "ResolveToolPath p w = Inr (w', b) \<Longrightarrow> reg_step sha256 w w'"
| step_Release: "reg_step sha256 w (leaseRelease b w)"
| step_Close: "reg_step sha256 w (Close w)"
| step_store: "sys_step sha256 (w_sys w) s' \<Longrightarrow> owned_live w s' \<Longrightarrow> reg_step sha256 w (w\<lparr>w_sys := s'\<rparr>)"

inductive reg_reachable :: "(bytes \<Rightarrow> digest) \<Rightarrow> world \<Rightarrow> bool" for sha256 where
  reg_start: "sys_reachable sha256 l s \<Longrightarrow> limits_ok l \<Longrightarrow> fresh_records s records \<Longrightarrow> reg_reachable sha256 (snd (NewRegistry records s))"
| reg_next: "reg_reachable sha256 w \<Longrightarrow> reg_step sha256 w w' \<Longrightarrow> reg_reachable sha256 w'"

lemma owned_liveD:
  "owned_live w s' \<Longrightarrow> get (rg_gens (w_reg w)) a = Some g \<Longrightarrow> 0 < gn_refs g \<Longrightarrow>
    rc_snapshot (gn_record g) = Some sid \<Longrightarrow> snapshot_live s' sid"
  by (force simp: owned_live_def list_all_iff dest: map_of_SomeD)

lemma reg_step_inv:
  assumes "reg_step sha256 w w'" and "reg_inv sha256 w" shows "reg_inv sha256 w'"
  using assms
proof cases
  case (step_ResolveOperation cid oid b)
  with assms(2) show ?thesis using ResolveOperation_leased leased_inv by blast
next
  case (step_ResolveToolPath p b)
  with assms(2) show ?thesis using ResolveToolPath_leased ResolveOperation_leased leased_inv by meson
next
  case (step_store s')
  with assms(2) show ?thesis using sys_step_reg_inv owned_liveD by blast
qed (auto simp: Lookup_leased intro: Add_inv Reinstall_inv Uninstall_inv leased_inv leaseRelease_reg_inv Close_inv)

lemma reg_reachable_inv: "reg_reachable sha256 w \<Longrightarrow> reg_inv sha256 w"
  by (induction rule: reg_reachable.induct) (auto intro: NewRegistry_inv reg_step_inv sys_reachable_inv)

section \<open>What steps never change\<close>

definition lease_live :: "world \<Rightarrow> nat \<Rightarrow> bool" where
  "lease_live w b = (case get (w_leases w) b of None \<Rightarrow> False | Some l \<Rightarrow> \<not> ls_once l)"

definition kept_lease :: "world \<Rightarrow> world \<Rightarrow> bool" where
  "kept_lease w w' \<longleftrightarrow>
     (\<forall>b l. get (w_leases w) b = Some l \<longrightarrow>
        (\<exists>l'. get (w_leases w') b = Some l' \<and> ls_generation l' = ls_generation l \<and>
           ls_invocation l' = ls_invocation l \<and> (ls_once l \<longrightarrow> ls_once l')))"

definition kept_records :: "world \<Rightarrow> world \<Rightarrow> bool" where
  "kept_records w w' \<longleftrightarrow> (\<forall>a r. record_at w a = Some r \<longrightarrow> record_at w' a = Some r)"

lemma kept_refl [simp]: "kept_lease w w" "kept_records w w"
  by (simp_all add: kept_lease_def kept_records_def)

lemma kept_lease_eq: "w_leases w' = w_leases w \<Longrightarrow> kept_lease w w'"
  by (simp add: kept_lease_def)

lemma kept_records_eq: "(\<And>a. record_at w' a = record_at w a) \<Longrightarrow> kept_records w w'"
  by (simp add: kept_records_def)

lemma kept_trans:
  "kept_lease w w' \<Longrightarrow> kept_lease w' w'' \<Longrightarrow> kept_lease w w''"
  "kept_records w w' \<Longrightarrow> kept_records w' w'' \<Longrightarrow> kept_records w w''"
  unfolding kept_lease_def kept_records_def by metis+

lemma leased_kept:
  assumes "leased cid iv w w' b" shows "kept_lease w w'" "kept_records w w'"
proof -
  obtain a g where g: "get (rg_gens (w_reg w)) a = Some g" and n: "newLease a g iv w = (w', b)"
    using assms by (auto simp: leased_def)
  note f = newLease_frame [OF g n]
  show "kept_lease w w'"
    unfolding kept_lease_def f(5,7) using get_fresh [of "w_leases w"] by (auto simp: gomap_simps)
  show "kept_records w w'" using f(4) by (rule kept_records_eq)
qed

lemma publish_kept:
  assumes "gens_inv sha256 E w"
  shows "kept_records w (w\<lparr>w_reg := publish cid x (w_reg w)\<rparr>)"
  using gens_le_next [OF assms] by (auto simp: kept_records_def gomap_simps)

lemma retire_kept: "kept_lease w (retireLocked a w)" "kept_records w (retireLocked a w)"
  by (simp_all add: kept_lease_eq kept_records_eq)

lemma leaseRelease_leases:
  "w_leases (leaseRelease b w) =
     (case get (w_leases w) b of None \<Rightarrow> w_leases w
      | Some l \<Rightarrow> if ls_once l then w_leases w else put b (l\<lparr>ls_once := True\<rparr>) (w_leases w))"
  by (auto simp: leaseRelease_def releaseGeneration_def Let_def split: option.splits)

lemma closeLocked_frame:
  "w_leases (closeLocked w) = w_leases w" "record_at (closeLocked w) a = record_at w a"
  "rg_closed (w_reg (closeLocked w))"
  using fold_retireLocked_frame [of "map snd (rg_entries (w_reg w))" "w\<lparr>w_reg := (w_reg w)\<lparr>rg_closed := True\<rparr>\<rparr>"]
  by (simp_all add: closeLocked_def Let_def)

lemma reg_step_kept:
  assumes st: "reg_step sha256 w w'" and inv: "reg_inv sha256 w"
  shows "kept_lease w w' \<and> kept_records w w'"
  using st
proof cases
  case (step_Add x)
  have g: "gens_inv sha256 (installed w) w" using inv by (simp add: reg_inv_def)
  show ?thesis using step_Add publish_kept [OF g]
    by (auto simp: Add_def addLocked_def res_simps kept_lease_def kept_records_def split: if_splits)
next
  case (step_Reinstall x)
  let ?w1 = "w\<lparr>w_reg := publish (md_ID (rc_metadata x)) x (w_reg w)\<rparr>"
  obtain cur where w': "w' = (retireLocked cur ?w1)\<lparr>w_reg := bumpRevision (w_reg (retireLocked cur ?w1))\<rparr>"
    using step_Reinstall by (auto simp: Reinstall_def Let_def split: if_splits option.splits)
  have "kept_records w ?w1" using inv by (auto simp: reg_inv_def intro: publish_kept)
  moreover have "kept_records ?w1 w'" by (rule kept_records_eq) (simp add: w' del: publish_simps)
  moreover have "kept_lease w w'" by (rule kept_lease_eq) (simp add: w')
  ultimately show ?thesis using kept_trans by blast
next
  case (step_Uninstall cid)
  let ?w1 = "w\<lparr>w_reg := (w_reg w)\<lparr>rg_entries := del cid (rg_entries (w_reg w))\<rparr>\<rparr>"
  obtain cur where w': "w' = (retireLocked cur ?w1)\<lparr>w_reg := bumpRevision (w_reg (retireLocked cur ?w1))\<rparr>"
    using step_Uninstall by (auto simp: Uninstall_def Let_def split: if_splits option.splits)
  have "kept_records ?w1 w'" by (rule kept_records_eq) (simp add: w')
  moreover have "kept_lease w w'" by (rule kept_lease_eq) (simp add: w')
  ultimately show ?thesis by (simp add: kept_records_def)
next
  case (step_Lookup cid b)
  then show ?thesis using leased_kept by (simp add: Lookup_leased)
next
  case (step_ResolveOperation cid oid b)
  then show ?thesis using ResolveOperation_leased leased_kept by blast
next
  case (step_ResolveToolPath p b)
  then show ?thesis using ResolveToolPath_leased ResolveOperation_leased leased_kept by meson
next
  case (step_Release b)
  have "kept_lease w (leaseRelease b w)"
    unfolding kept_lease_def leaseRelease_leases by (auto simp: gomap_simps split: option.splits)
  then show ?thesis using step_Release kept_records_eq [OF leaseRelease_frame(4)] by simp
next
  case step_Close
  then show ?thesis by (simp add: Close_def kept_lease_eq kept_records_eq closeLocked_frame)
next
  case (step_store s')
  then show ?thesis by (simp add: kept_lease_def kept_records_def)
qed

lemma reg_run_kept:
  assumes "(reg_step sha256)\<^sup>*\<^sup>* w w'" and "reg_inv sha256 w"
  shows "reg_inv sha256 w' \<and> kept_lease w w' \<and> kept_records w w'"
  using assms
proof (induction rule: rtranclp_induct)
  case (step y z)
  then show ?case using reg_step_inv reg_step_kept kept_trans by blast
qed simp

section \<open>A small registry to evaluate\<close>

text \<open>
  One package with one operation, on the snapshot of \<open>demo_committed\<close>; the hash is the identity.
\<close>

definition demo_artifact :: Artifact where
  "demo_artifact = \<lparr>ar_Ref = ''ref'', ar_Kind = ArtifactContext, ar_ID = ''doc'', ar_Path = ''a'',
     ar_MediaType = ''text/plain'', ar_Bytes = 3, ar_SHA256 = hexEncode ''xyz''\<rparr>"

definition demo_record :: Record where
  "demo_record = \<lparr>rc_metadata = \<lparr>md_ID = ''git.log'', md_Name = ''Log'', md_Version = ''1'', md_Description = ''d'', md_Tags = []\<rparr>,
     rc_parent = ''git'', rc_manifestDigest = ''m'', rc_skills = [],
     rc_operations = [\<lparr>op_ID = ''log'', op_Description = ''d'', op_Provider = ''p'', op_Target = ''git_log''\<rparr>],
     rc_context = [demo_artifact], rc_providers = [\<lparr>pb_ID = ''p'', pb_Type = ''mcp'', pb_ServerRef = ''git''\<rparr>],
     rc_artifacts = [(''ref'', demo_artifact)], rc_snapshot = Some 0\<rparr>"

definition demo_world :: world where
  "demo_world = snd (NewRegistry [Some demo_record] demo_committed)"

definition demo_lookup :: world where
  "demo_lookup = (case Lookup ''git.log'' demo_world of Inr (w, b) \<Rightarrow> w | Inl e \<Rightarrow> demo_world)"

definition demo_uninstalled :: world where
  "demo_uninstalled = (case Uninstall ''git.log'' demo_lookup of Inr w \<Rightarrow> w | Inl e \<Rightarrow> demo_lookup)"

definition demo_closed :: world where
  "demo_closed = leaseRelease 0 (Close demo_uninstalled)"

lemmas demo_defs = demo_world_def demo_lookup_def demo_uninstalled_def demo_closed_def demo_record_def
  demo_artifact_def demo_committed_def demo_limits_def

lemma demo_record_backed: "record_backed demo_committed demo_record"
  by code_simp

lemma demo_world_reachable: "reg_reachable (\<lambda>x. x) demo_world"
  unfolding demo_world_def
proof (rule reg_start [OF demo_committed_reachable demo_limits_ok])
  show "fresh_records demo_committed [Some demo_record]" by code_simp
qed

lemma demo_lookup_step: "reg_step (\<lambda>x. x) demo_world demo_lookup"
proof -
  have "Lookup ''git.log'' demo_world = Inr (demo_lookup, 0)" by code_simp
  then show ?thesis by (rule step_Lookup)
qed

lemma demo_uninstalled_step: "reg_step (\<lambda>x. x) demo_lookup demo_uninstalled"
proof -
  have "Uninstall ''git.log'' demo_lookup = Inr demo_uninstalled" by code_simp
  then show ?thesis by (rule step_Uninstall)
qed

lemma demo_lookup_reachable: "reg_reachable (\<lambda>x. x) demo_lookup"
  using demo_world_reachable demo_lookup_step by (rule reg_next)

lemma demo_closed_reachable: "reg_reachable (\<lambda>x. x) demo_closed"
  unfolding demo_closed_def
  by (intro reg_next [OF _ step_Release] reg_next [OF _ step_Close]
      reg_next [OF demo_lookup_reachable demo_uninstalled_step])

section \<open>What a lease guarantees\<close>

lemma lease_live_backed:
  assumes inv: "reg_inv sha256 w" and live: "lease_live w b"
  shows "\<exists>r. leaseRecord b w = Some r \<and> record_backed (w_sys w) r"
proof -
  have gi: "gens_inv sha256 (installed w) w" using inv by (simp add: reg_inv_def)
  obtain l where l: "get (w_leases w) b = Some l" "\<not> ls_once l"
    using live by (auto simp: lease_live_def split: option.splits)
  then obtain g where g: "get (rg_gens (w_reg w)) (ls_generation l) = Some g"
    using gi unfolding gens_inv_def by blast
  have "lease_on (ls_generation l) l \<le> msum (lease_on (ls_generation l)) (w_leases w)"
    by (rule msum_ge [OF l(1)]) (simp add: lease_on_def)
  then have "0 < gn_refs g" using gens_invD(3) [OF gi g] l(2) by (simp add: gen_refs_def lease_on_def split: if_splits)
  then show ?thesis using gens_invD(5) [OF gi g] l g by (simp add: leaseRecord_def)
qed

text \<open>C1: A lease pins its generation: whatever the registry and the store do after the lease was taken
  (reinstalling or uninstalling the capability, closing the registry, other transactions and
  releases), as long as the lease itself is not released its record stays the same and every artifact
  of the record still reads as bytes with the advertised digest and size.\<close>

theorem lease_pins_record:
  assumes reach: "reg_reachable sha256 w" and r: "leaseRecord b w = Some r"
    and run: "(reg_step sha256)\<^sup>*\<^sup>* w w'" and live: "lease_live w' b"
    and a: "Record_Artifact r ref = Some a"
  shows "leaseRecord b w' = Some r \<and>
    (\<exists>x. Record_ReadArtifact (w_sys w') r ref = Some x \<and> hexEncode (sha256 x) = ar_SHA256 a \<and> int (length x) = ar_Bytes a)"
proof -
  have k: "reg_inv sha256 w'" "kept_lease w w'" "kept_records w w'"
    using reg_run_kept [OF run reg_reachable_inv [OF reach]] by simp_all
  obtain l where l: "get (w_leases w) b = Some l" "record_at w (ls_generation l) = Some r"
    using r by (auto simp: leaseRecord_def split: option.splits)
  then have same: "leaseRecord b w' = Some r"
    using k(2,3) unfolding kept_lease_def kept_records_def leaseRecord_def by (metis option.simps(5))
  then have "record_backed (w_sys w') r" using lease_live_backed [OF k(1) live] by simp
  moreover have "sys_inv sha256 (w_sys w')" using k(1) by (simp add: reg_inv_def gens_inv_def)
  ultimately show ?thesis
    using same a record_backed_read by (simp add: Record_Artifact_def)
qed

theorem lease_pins_record_witness:
  "leaseRecord 0 demo_uninstalled = Some demo_record \<and>
   Record_ReadArtifact (w_sys demo_uninstalled) demo_record ''ref'' = Some ''xyz''"
proof -
  have a: "leaseRecord 0 demo_lookup = Some demo_record" by code_simp
  have b: "lease_live demo_uninstalled 0" by code_simp
  have c: "Record_Artifact demo_record ''ref'' = Some demo_artifact" by code_simp
  have run: "(reg_step (\<lambda>x. x))\<^sup>*\<^sup>* demo_lookup demo_uninstalled" using demo_uninstalled_step by (rule r_into_rtranclp)
  have d: "ar_SHA256 demo_artifact = hexEncode ''xyz''" by (simp add: demo_artifact_def)
  show ?thesis
    using lease_pins_record [OF demo_lookup_reachable a run b c]
    unfolding d hexEncode_inj by blast
qed

text \<open>C26: A generation is reclaimed exactly once, and exactly when it has been retired (by Reinstall,
  Uninstall or Close) and no lease on it is left; its snapshot has been released then and not before.\<close>

theorem generation_reclaimed_iff:
  assumes "reg_reachable sha256 w" and g: "get (rg_gens (w_reg w)) a = Some g"
  shows "distinct (rg_reclaimed (w_reg w)) \<and>
    (a \<in> set (rg_reclaimed (w_reg w)) \<longleftrightarrow>
       gn_retired g \<and> list_all (\<lambda>(b, l). ls_generation l = a \<longrightarrow> ls_once l) (w_leases w)) \<and>
    (a \<in> set (rg_reclaimed (w_reg w)) \<longleftrightarrow> snapshot_dead (w_sys w) (gn_record g))"
proof -
  have gi: "gens_inv sha256 (installed w) w" using assms(1) reg_reachable_inv by (simp add: reg_inv_def)
  note d = gens_invD [OF gi g]
  have k: "keys_ok (w_leases w)" using gi by (simp add: gens_inv_def)
  have "list_all (\<lambda>(b, l). ls_generation l = a \<longrightarrow> ls_once l) (w_leases w)" if z: "msum (lease_on a) (w_leases w) = 0"
    unfolding list_all_iff
  proof (clarify)
    fix b l assume l: "(b, l) \<in> set (w_leases w)" "a = ls_generation l"
    then have "get (w_leases w) b = Some l" using k by (simp add: keys_ok_get)
    then have "lease_on a l \<le> 0"
      using msum_ge [of "w_leases w" b l "lease_on a"] z by (simp add: lease_on_def)
    then show "ls_once l" using l(2) by (simp add: lease_on_def split: if_splits)
  qed
  moreover have "msum (lease_on a) (w_leases w) = 0" if "list_all (\<lambda>(b, l). ls_generation l = a \<longrightarrow> ls_once l) (w_leases w)"
    using that by (intro msum_zero) (auto simp: list_all_iff lease_on_def)
  ultimately have z: "msum (lease_on a) (w_leases w) = 0 \<longleftrightarrow> list_all (\<lambda>(b, l). ls_generation l = a \<longrightarrow> ls_once l) (w_leases w)"
    by blast
  have "gn_refs g = 0 \<longleftrightarrow> gn_retired g \<and> msum (lease_on a) (w_leases w) = 0"
    using d(3,4) lease_on_nonneg [of a "w_leases w"] by (auto simp: gen_refs_def)
  moreover have "gn_refs g = 0 \<longleftrightarrow> snapshot_dead (w_sys w) (gn_record g)"
  proof (cases "gn_refs g = 0")
    case False
    then have "0 < gn_refs g" using d(3) gen_refs_nonneg [of "installed w" w a] by simp
    then show ?thesis
      using d(5) False by (auto simp: record_backed_def snapshot_dead_def split: option.splits)
  qed (simp add: d(6))
  ultimately show ?thesis using d(7) z gi by (simp add: gens_inv_def)
qed

theorem generation_reclaimed_iff_witness:
  "1 \<in> set (rg_reclaimed (w_reg demo_closed)) \<and> snapshot_dead (w_sys demo_closed) demo_record"
proof -
  obtain g where g: "get (rg_gens (w_reg demo_closed)) 1 = Some g" "gn_retired g" "gn_record g = demo_record"
  proof -
    have "map_option (\<lambda>g. (gn_retired g, gn_record g)) (get (rg_gens (w_reg demo_closed)) 1) = Some (True, demo_record)"
      by code_simp
    then show ?thesis using that by auto
  qed
  have "list_all (\<lambda>(b, l). ls_generation l = 1 \<longrightarrow> ls_once l) (w_leases demo_closed)" by code_simp
  with generation_reclaimed_iff [OF demo_closed_reachable g(1)] g(2) show ?thesis unfolding g(3) by blast
qed

text \<open>C35: Closing drains: when the registry has been closed and every lease handed out has been
  released, every generation ever published has been reclaimed and its snapshot released.\<close>

theorem closed_registry_drains:
  assumes reach: "reg_reachable sha256 w" and closed: "rg_closed (w_reg w)"
    and rel: "list_all (\<lambda>(b, l). ls_once l) (w_leases w)"
  shows "set (rg_reclaimed (w_reg w)) = fst ` set (rg_gens (w_reg w)) \<and>
    list_all (\<lambda>(a, g). snapshot_dead (w_sys w) (gn_record g)) (rg_gens (w_reg w))"
proof -
  have inv: "reg_inv sha256 w" using reach by (rule reg_reachable_inv)
  then have empty: "rg_entries (w_reg w) = []" using closed by (simp add: reg_inv_def entries_ok_def)
  have gi: "gens_inv sha256 {} w" using inv empty by (simp add: reg_inv_def)
  have k: "keys_ok (rg_gens (w_reg w))" using gi by (simp add: gens_inv_def)
  have z: "msum (lease_on a) (w_leases w) = 0" for a
    using rel by (intro msum_zero) (auto simp: list_all_iff lease_on_def)
  have dead: "a \<in> set (rg_reclaimed (w_reg w)) \<and> snapshot_dead (w_sys w) (gn_record g)"
    if "get (rg_gens (w_reg w)) a = Some g" for a g
    using gens_invD(3,6,7) [OF gi that] z [of a] by (simp add: gen_refs_def)
  have "set (rg_reclaimed (w_reg w)) \<subseteq> fst ` set (rg_gens (w_reg w))"
    using gi by (auto simp: gens_inv_def map_of_eq_None_iff)
  then show ?thesis using dead k by (auto simp: list_all_iff keys_ok_get)
qed

theorem closed_registry_drains_witness:
  "rg_closed (w_reg demo_closed) \<and> set (rg_reclaimed (w_reg demo_closed)) = fst ` set (rg_gens (w_reg demo_closed))"
proof -
  have c: "rg_closed (w_reg demo_closed)" by code_simp
  have "list_all (\<lambda>(b, l). ls_once l) (w_leases demo_closed)" by code_simp
  with closed_registry_drains [OF demo_closed_reachable c] c show ?thesis by blast
qed

section \<open>The registry as a map from identifiers to records\<close>

text \<open>
  The contract of the publishing operations: a finite map from capability identifiers to records and a
  closed flag.  \<open>run_op\<close> runs an operation of the registry, \<open>spec_op\<close> is the same operation on the map.
\<close>

datatype reg_op = OpAdd "Record option" | OpReinstall "Record option" | OpUninstall string | OpClose

fun run_op :: "reg_op \<Rightarrow> world \<Rightarrow> world res" where
  "run_op (OpAdd x) w = Add x w"
| "run_op (OpReinstall x) w = Reinstall x w"
| "run_op (OpUninstall cid) w = Uninstall cid w"
| "run_op OpClose w = Inr (Close w)"

type_synonym reg_spec = "bool \<times> (string \<Rightarrow> Record option)"

definition normalized :: "Record option \<Rightarrow> Record res" where
  "normalized x =
     (case x of None \<Rightarrow> Inl (OtherError ''normalized capability record is required'')
      | Some r \<Rightarrow> if rc_snapshot r = None then Inl (OtherError ''normalized capability record is required'') else Inr r)"

fun spec_op :: "reg_op \<Rightarrow> reg_spec \<Rightarrow> reg_spec res" where
  "spec_op (OpAdd x) (closed, m) =
     (if closed then Inl ErrRegistryClosed
      else rbind (normalized x) (\<lambda>r.
        if m (md_ID (rc_metadata r)) \<noteq> None then Inl ErrCapabilityDuplicate
        else Inr (closed, m(md_ID (rc_metadata r) \<mapsto> r))))"
| "spec_op (OpReinstall x) (closed, m) =
     rbind (normalized x) (\<lambda>r.
       if closed then Inl ErrRegistryClosed
       else if m (md_ID (rc_metadata r)) = None then Inl ErrCapabilityNotFound
       else Inr (closed, m(md_ID (rc_metadata r) \<mapsto> r)))"
| "spec_op (OpUninstall cid) (closed, m) =
     (if closed then Inl ErrRegistryClosed
      else if m cid = None then Inl ErrCapabilityNotFound else Inr (closed, m(cid := None)))"
| "spec_op OpClose (closed, m) = Inr (True, \<lambda>_. None)"

definition reg_map :: "world \<Rightarrow> string \<Rightarrow> Record option" where
  "reg_map w cid = Option.bind (get (rg_entries (w_reg w)) cid) (record_at w)"

definition reg_abs :: "world \<Rightarrow> reg_spec" where
  "reg_abs w = (rg_closed (w_reg w), reg_map w)"

lemma reg_map_None:
  assumes "entries_ok w" shows "reg_map w cid = None \<longleftrightarrow> get (rg_entries (w_reg w)) cid = None"
  using assms by (cases "get (rg_entries (w_reg w)) cid") (auto simp: reg_map_def entries_ok_def)

lemma reg_map_cong:
  "rg_entries (w_reg w') = rg_entries (w_reg w) \<Longrightarrow> (\<And>a. record_at w' a = record_at w a) \<Longrightarrow> reg_map w' = reg_map w"
  by (rule ext) (simp add: reg_map_def)

lemma reg_map_bump [simp]: "reg_map (w\<lparr>w_reg := bumpRevision r\<rparr>) = reg_map (w\<lparr>w_reg := r\<rparr>)"
  by (rule reg_map_cong) simp_all

lemma reg_map_retire [simp]: "reg_map (retireLocked a w) = reg_map w"
  by (rule reg_map_cong) simp_all

lemma reg_map_publish:
  assumes "gens_inv sha256 E w" and "entries_ok w"
  shows "reg_map (w\<lparr>w_reg := publish cid x (w_reg w)\<rparr>) = (reg_map w)(cid \<mapsto> x)"
proof
  fix c
  have "a \<noteq> Suc (rg_next (w_reg w))" if c: "get (rg_entries (w_reg w)) c = Some a" for a
  proof -
    obtain g where "get (rg_gens (w_reg w)) a = Some g" using assms(2) c unfolding entries_ok_def by blast
    then show ?thesis using gens_le_next [OF assms(1)] by auto
  qed
  then show "reg_map (w\<lparr>w_reg := publish cid x (w_reg w)\<rparr>) c = ((reg_map w)(cid \<mapsto> x)) c"
    by (cases "get (rg_entries (w_reg w)) c") (auto simp: reg_map_def gomap_simps)
qed

lemma reg_map_uninstall:
  "reg_map (w\<lparr>w_reg := (w_reg w)\<lparr>rg_entries := del cid (rg_entries (w_reg w))\<rparr>\<rparr>) = (reg_map w)(cid := None)"
  by (rule ext) (simp add: reg_map_def gomap_simps)

lemma Close_abs:
  assumes "entries_ok w" shows "reg_abs (Close w) = (True, \<lambda>_. None)"
  using assms by (auto simp: reg_abs_def Close_def closeLocked_def Let_def reg_map_def entries_ok_def)

text \<open>C19: Publishing refines a map: seen as a map from identifiers to installed records with a closed
  flag, Add, Reinstall, Uninstall and Close do exactly what the map operations do, and fail in exactly
  the same cases with the same errors.\<close>

theorem registry_refines_map:
  assumes "reg_reachable sha256 w"
  shows "map_sum id reg_abs (run_op opn w) = spec_op opn (reg_abs w)"
proof -
  have g: "gens_inv sha256 (installed w) w" and e: "entries_ok w"
    using reg_reachable_inv [OF assms] by (simp_all add: reg_inv_def)
  show ?thesis
  proof (cases opn)
    case (OpAdd x)
    then show ?thesis
      using reg_map_None [OF e] reg_map_publish [OF g e]
      by (auto simp: Add_def addLocked_def normalized_def reg_abs_def split: option.splits)
  next
    case (OpReinstall x)
    then show ?thesis
      using reg_map_None [OF e] reg_map_publish [OF g e]
      by (auto simp: Reinstall_def normalized_def reg_abs_def Let_def split: option.splits)
  next
    case (OpUninstall cid)
    then show ?thesis
      using reg_map_None [OF e] reg_map_uninstall
      by (auto simp: Uninstall_def reg_abs_def Let_def split: option.splits)
  next
    case OpClose
    then show ?thesis using Close_abs [OF e] by (cases "reg_abs w") simp
  qed
qed

theorem registry_refines_map_witness:
  "map_sum id reg_abs (run_op (OpUninstall ''git.log'') demo_lookup) = Inr (False, (\<lambda>_. None)(''git.log'' := None))"
proof -
  have "reg_abs demo_lookup = (False, [''git.log'' \<mapsto> demo_record])"
  proof -
    have "rg_entries (w_reg demo_lookup) = [(''git.log'', 1)]" "record_at demo_lookup 1 = Some demo_record"
      "\<not> rg_closed (w_reg demo_lookup)" by code_simp+
    then show ?thesis by (auto simp: reg_abs_def reg_map_def fun_eq_iff)
  qed
  then show ?thesis using registry_refines_map [OF demo_lookup_reachable, of "OpUninstall ''git.log''"] by simp
qed

end
