(* ===== verification/Hierarchy.thy ===== *)
theory Hierarchy
  imports Registry
begin

text \<open>
  What \<^verbatim>\<open>rebuildHierarchyLocked\<close> computes: the dotted prefixes of the identifiers and parents of the
  installed packages, each with the sorted list of the prefixes one segment longer, whatever the order
  in which Go enumerates the map of entries.
\<close>

section \<open>Dotted prefixes\<close>

definition path_nodes :: "string \<Rightarrow> string set" where
  "path_nodes p = (if p = [] then {} else
     (\<lambda>k. joinWith dot (take (Suc k) (splitOn dot p))) ` {..<length (splitOn dot p)})"

definition path_edges :: "string \<Rightarrow> (string \<times> string) set" where
  "path_edges p = (if p = [] then {} else
     (\<lambda>k. (joinWith dot (take k (splitOn dot p)), joinWith dot (take (Suc k) (splitOn dot p)))) `
       {..<length (splitOn dot p)})"

definition record_nodes :: "(string \<times> Record) set \<Rightarrow> string set" where
  "record_nodes es = (\<Union>(cid, r) \<in> es. path_nodes (rc_parent r) \<union> path_nodes cid \<union> {cid})"

definition record_edges :: "(string \<times> Record) set \<Rightarrow> (string \<times> string) set" where
  "record_edges es = (\<Union>(cid, r) \<in> es. path_edges (rc_parent r) \<union> path_edges cid)"

section \<open>Building the nodes and edges\<close>

definition edge_list :: "(string, string list) gomap \<Rightarrow> string \<Rightarrow> string list" where
  "edge_list edges p = (case get edges p of None \<Rightarrow> [] | Some cs \<Rightarrow> cs)"

definition edge_set :: "(string, string list) gomap \<Rightarrow> (string \<times> string) set" where
  "edge_set edges = {(p, c). c \<in> set (edge_list edges p)}"

text \<open>
  \<open>built N C S ne\<close>: the maps hold exactly the nodes \<open>N\<close>, of which those in \<open>C\<close> name themselves as
  capabilities, and the edges \<open>S\<close>, without duplicates.
\<close>

definition built :: "string set \<Rightarrow> string set \<Rightarrow> (string \<times> string) set \<Rightarrow> nodes_edges \<Rightarrow> bool" where
  "built N C S ne \<longleftrightarrow>
     keys_ok (fst ne) \<and> keys_ok (snd ne) \<and>
     (\<forall>p. get (fst ne) p = (if p \<in> N then Some \<lparr>hn_capabilityID = (if p \<in> C then p else []), hn_children = []\<rparr> else None)) \<and>
     edge_set (snd ne) = S \<and> (\<forall>p. distinct (edge_list (snd ne) p)) \<and> (\<forall>p. get (snd ne) p \<noteq> Some [])"

lemma edge_list_put: "edge_list (put p cs edges) q = (if q = p then cs else edge_list edges q)"
  by (simp add: edge_list_def gomap_simps)

definition add_child :: "string \<Rightarrow> string list \<Rightarrow> string list" where
  "add_child c cs = (if c \<in> set cs then cs else cs @ [c])"

definition add_node :: "string \<Rightarrow> (string, hierarchyNode) gomap \<Rightarrow> (string, hierarchyNode) gomap" where
  "add_node c nodes = (if get nodes c = None then put c emptyNode nodes else nodes)"

lemma add_child_simps: "set (add_child c cs) = insert c (set cs)" "distinct (add_child c cs) \<longleftrightarrow> distinct cs"
  by (auto simp: add_child_def)

lemma built_add_edge:
  assumes "built N C S (nodes, edges)" and "C \<subseteq> N"
  shows "built (insert c N) C (insert (p, c) S) (add_node c nodes, put p (add_child c (edge_list edges p)) edges)"
proof -
  have g: "get nodes q = (if q \<in> N then Some \<lparr>hn_capabilityID = (if q \<in> C then q else []), hn_children = []\<rparr> else None)" for q
    using assms by (simp add: built_def)
  have k: "keys_ok nodes" "keys_ok edges" and e: "edge_set edges = S" "\<And>q. distinct (edge_list edges q)"
      "\<And>q. get edges q \<noteq> Some []"
    using assms by (simp_all add: built_def)
  have "get (add_node c nodes) q =
      (if q \<in> insert c N then Some \<lparr>hn_capabilityID = (if q \<in> C then q else []), hn_children = []\<rparr> else None)" for q
    using assms(2) by (auto simp: add_node_def g gomap_simps emptyNode_def)
  moreover have "keys_ok (add_node c nodes)" using k by (simp add: add_node_def gomap_simps)
  moreover have "edge_set (put p (add_child c (edge_list edges p)) edges) = insert (p, c) S"
    using e(1) by (auto simp: edge_set_def edge_list_put add_child_simps split: if_splits)
  moreover have "add_child c cs \<noteq> []" for cs by (auto simp: add_child_def)
  ultimately show ?thesis
    using k e by (simp add: built_def edge_list_put add_child_simps gomap_simps)
qed

lemma ensureParts_step:
  "ensureParts parent pre (p # ps) (nodes, edges) =
     ensureParts (joinWith dot (pre @ [p])) (pre @ [p]) ps
       (add_node (joinWith dot (pre @ [p])) nodes,
        put parent (add_child (joinWith dot (pre @ [p])) (edge_list edges parent)) edges)"
  by (simp add: Let_def add_node_def add_child_def edge_list_def)

lemma ensureParts_built:
  assumes "built N C S ne" and "C \<subseteq> N" and "parent = joinWith dot pre"
  shows "built (N \<union> (\<lambda>k. joinWith dot (pre @ take (Suc k) ps)) ` {..<length ps}) C
    (S \<union> (\<lambda>k. (joinWith dot (pre @ take k ps), joinWith dot (pre @ take (Suc k) ps))) ` {..<length ps})
    (ensureParts parent pre ps ne)"
  using assms
proof (induction ps arbitrary: parent pre N S ne)
  case (Cons p ps)
  obtain nodes edges where ne: "ne = (nodes, edges)" by force
  let ?c = "joinWith dot (pre @ [p])"
  have b: "built (insert ?c N) C (insert (parent, ?c) S)
      (add_node ?c nodes, put parent (add_child ?c (edge_list edges parent)) edges)"
    using Cons.prems built_add_edge ne by blast
  have idx: "{..<length (p # ps)} = insert 0 (Suc ` {..<length ps})" by (auto simp: lessThan_Suc_eq_insert_0)
  have "built (insert ?c N \<union> (\<lambda>k. joinWith dot ((pre @ [p]) @ take (Suc k) ps)) ` {..<length ps}) C
    (insert (parent, ?c) S \<union> (\<lambda>k. (joinWith dot ((pre @ [p]) @ take k ps), joinWith dot ((pre @ [p]) @ take (Suc k) ps))) ` {..<length ps})
    (ensureParts parent pre (p # ps) ne)"
    unfolding ne ensureParts_step by (rule Cons.IH [OF b]) (use Cons.prems(2) in auto)
  then show ?case
    unfolding idx using Cons.prems(3) by (simp add: image_image insert_commute Un_insert_right)
qed simp

lemma ensurePath_built:
  assumes "built N C S ne" and "C \<subseteq> N"
  shows "built (N \<union> path_nodes p) C (S \<union> path_edges p) (ensurePath p ne)"
  using ensureParts_built [OF assms, of "[]" "[]" "splitOn dot p"] assms
  by (simp add: ensurePath_def path_nodes_def path_edges_def)

lemma addEntryPaths_built:
  assumes "built N C S ne" and "C \<subseteq> N"
  shows "built (N \<union> record_nodes (set es)) (C \<union> fst ` set es) (S \<union> record_edges (set es)) (addEntryPaths es ne)"
  using assms
proof (induction es arbitrary: N C S ne)
  case (Cons e es)
  obtain cid r where e: "e = (cid, r)" by force
  obtain nodes edges where ne: "ensurePath cid (ensurePath (rc_parent r) ne) = (nodes, edges)" by force
  let ?N = "N \<union> path_nodes (rc_parent r) \<union> path_nodes cid" and ?S = "S \<union> path_edges (rc_parent r) \<union> path_edges cid"
  have "built ?N C ?S (nodes, edges)"
    unfolding ne [symmetric] by (intro ensurePath_built Cons.prems le_supI1)
  then have "built (insert cid ?N) (insert cid C) ?S
    (put cid ((case get nodes cid of None \<Rightarrow> emptyNode | Some n \<Rightarrow> n)\<lparr>hn_capabilityID := cid\<rparr>) nodes, edges)"
    unfolding built_def by (auto simp: gomap_simps emptyNode_def split: option.splits)
  note Cons.IH [OF this]
  moreover have "insert cid C \<subseteq> insert cid ?N" using Cons.prems(2) by auto
  ultimately show ?case
    by (simp add: e ne Let_def record_nodes_def record_edges_def Un_assoc insert_commute Un_left_commute Un_commute)
qed (simp add: record_nodes_def record_edges_def)

section \<open>Attaching the children\<close>

definition node_at :: "(string, hierarchyNode) gomap \<Rightarrow> string \<Rightarrow> hierarchyNode" where
  "node_at nodes p = (case get nodes p of None \<Rightarrow> emptyNode | Some n \<Rightarrow> n)"

lemma attachChildren_get:
  assumes "keys_ok edges" and "\<forall>p \<in> set (keys edges). hn_children (node_at nodes p) = []"
  shows "get (attachChildren edges nodes) p =
    (case get edges p of None \<Rightarrow> get nodes p | Some cs \<Rightarrow> Some ((node_at nodes p)\<lparr>hn_children := sort cs\<rparr>))"
  using assms
proof (induction edges arbitrary: nodes)
  case (Cons e es)
  obtain q cs where e: "e = (q, cs)" by force
  let ?nodes = "put q ((node_at nodes q)\<lparr>hn_children := sort cs\<rparr>) nodes"
  have "attachChildren (e # es) nodes = attachChildren es ?nodes"
    using Cons.prems(2) by (simp add: e node_at_def Let_def keys_def)
  moreover have q: "q \<notin> set (keys es)" "keys_ok es" using Cons.prems(1) by (simp_all add: e keys_ok_def keys_def)
  moreover have at: "node_at ?nodes r = node_at nodes r" if "r \<noteq> q" for r
    using that by (simp add: node_at_def gomap_simps)
  moreover have "\<forall>r \<in> set (keys es). hn_children (node_at ?nodes r) = []"
  proof
    fix r assume r: "r \<in> set (keys es)"
    then have "r \<noteq> q" using q(1) by blast
    then show "hn_children (node_at ?nodes r) = []" using Cons.prems(2) at [of r] r by (auto simp: e keys_def)
  qed
  ultimately have "get (attachChildren (e # es) nodes) p =
    (case get es p of None \<Rightarrow> get ?nodes p | Some cs \<Rightarrow> Some ((node_at ?nodes p)\<lparr>hn_children := sort cs\<rparr>))"
    using Cons.IH [of ?nodes] by simp
  moreover have "get es q = None" using q(1) by (simp add: keys_def map_of_eq_None_iff)
  ultimately show ?case using at by (auto simp: e gomap_simps split: option.splits)
qed simp

lemma path_edges_source: "(p, c) \<in> path_edges q \<Longrightarrow> p = [] \<or> p \<in> path_nodes q"
proof (cases "q = []")
  case False
  assume "(p, c) \<in> path_edges q"
  then obtain k where k: "k < length (splitOn dot q)" "p = joinWith dot (take k (splitOn dot q))"
    using False by (auto simp: path_edges_def)
  show ?thesis
  proof (cases k)
    case (Suc i)
    then show ?thesis using k False by (auto simp: path_nodes_def)
  qed (simp add: k)
qed (simp add: path_edges_def)

lemma record_edges_source: "(p, c) \<in> record_edges es \<Longrightarrow> p = [] \<or> p \<in> record_nodes es"
  unfolding record_edges_def record_nodes_def using path_edges_source by blast

lemma sort_distinct_set: "distinct xs \<Longrightarrow> sort xs = sorted_list_of_set (set xs)"
  by (simp add: sorted_list_of_set_sort_remdups distinct_remdups_id)

text \<open>The hierarchy of a list of entries, in closed form.\<close>

lemma rebuildHierarchy_get:
  "get (rebuildHierarchy es) p =
     (if p = [] \<or> p \<in> record_nodes (set es) then
        Some \<lparr>hn_capabilityID = (if p \<in> fst ` set es then p else []),
              hn_children = sorted_list_of_set {c. (p, c) \<in> record_edges (set es)}\<rparr>
      else None)"
proof -
  obtain nodes edges where ne: "addEntryPaths es ([([], emptyNode)], []) = (nodes, edges)" by force
  have "built {[]} {} {} ([([], emptyNode)], [])"
    by (auto simp: built_def keys_ok_def emptyNode_def edge_set_def edge_list_def)
  then have b: "built (insert [] (record_nodes (set es))) (fst ` set es) (record_edges (set es)) (nodes, edges)"
    using addEntryPaths_built [of "{[]}" "{}" "{}" "([([], emptyNode)], [])" es] by (simp add: ne)
  have g: "get nodes q = (if q = [] \<or> q \<in> record_nodes (set es)
      then Some \<lparr>hn_capabilityID = (if q \<in> fst ` set es then q else []), hn_children = []\<rparr> else None)" for q
    using b by (simp add: built_def)
  have k: "keys_ok edges" and e: "edge_set edges = record_edges (set es)" and ne0: "\<And>q. get edges q \<noteq> Some []"
    and d: "\<And>q. distinct (edge_list edges q)"
    using b by (simp_all add: built_def)
  have children: "sort (edge_list edges p) = sorted_list_of_set {c. (p, c) \<in> record_edges (set es)}"
    using d e [symmetric] by (simp add: sort_distinct_set edge_set_def)
  have node: "p = [] \<or> p \<in> record_nodes (set es)" if cs: "get edges p = Some cs" for cs
  proof -
    obtain c cs' where "cs = c # cs'" using cs ne0 [of p] by (cases cs) auto
    then have "(p, c) \<in> edge_set edges" using cs by (simp add: edge_set_def edge_list_def)
    then show ?thesis using record_edges_source e by blast
  qed
  have "get (rebuildHierarchy es) p =
    (case get edges p of None \<Rightarrow> get nodes p | Some cs \<Rightarrow> Some ((node_at nodes p)\<lparr>hn_children := sort cs\<rparr>))"
    unfolding rebuildHierarchy_def ne Let_def prod.case
    by (rule attachChildren_get [OF k]) (simp add: node_at_def g emptyNode_def)
  also have "\<dots> = (if p = [] \<or> p \<in> record_nodes (set es) then
        Some \<lparr>hn_capabilityID = (if p \<in> fst ` set es then p else []), hn_children = sort (edge_list edges p)\<rparr>
      else None)"
    using node by (auto simp: g node_at_def edge_list_def split: option.splits)
  finally show ?thesis unfolding children .
qed

end
