(* ===== verification/Registry_Props.thy ===== *)
theory Registry_Props
  imports Registry_Steps Hierarchy
begin

text \<open>
  Lookups and browsing as functions of the map of installed records: what \<^verbatim>\<open>Lookup\<close>, \<^verbatim>\<open>ResolveOperation\<close>,
  \<^verbatim>\<open>ResolveToolPath\<close> and \<^verbatim>\<open>Browse\<close> answer does not depend on the order of the entries, on retired
  generations or on anything else but the installed records.
\<close>

section \<open>Leases\<close>

text \<open>What the holder of a lease sees: the record, the resolved invocation, that the lease is live.\<close>

definition lease_view :: "world \<times> nat \<Rightarrow> Record option \<times> invocation option \<times> bool \<times> reg_spec" where
  "lease_view = (\<lambda>(w, b). (leaseRecord b w, Option.bind (get (w_leases w) b) ls_invocation, lease_live w b, reg_abs w))"

fun lookup_spec :: "string \<Rightarrow> reg_spec \<Rightarrow> Record res" where
  "lookup_spec cid (closed, m) =
     (if closed then Inl ErrRegistryClosed else of_option ErrCapabilityNotFound (m cid))"

definition resolve_spec :: "string \<Rightarrow> string \<Rightarrow> reg_spec \<Rightarrow> (Record \<times> invocation) res" where
  "resolve_spec cid oid s =
     rbind (lookup_spec cid s) (\<lambda>r.
     rbind (of_option ErrOperationNotFound (find (\<lambda>x. op_ID x = oid) (rc_operations r))) (\<lambda>x.
     rbind (of_option (PackageError ''operation_generation_invalid'' (cid @ ''/'' @ oid))
              (find (\<lambda>p. pb_ID p = op_Provider x) (rc_providers r))) (\<lambda>p.
     Inr (r, \<lparr>iv_capabilityID = cid, iv_operation = x, iv_binding = p\<rparr>))))"

lemma liveGeneration_spec:
  assumes "reg_inv sha256 w"
  shows "liveGeneration cid (w_reg w) =
    rbind (lookup_spec cid (reg_abs w)) (\<lambda>r. Inr (the (get (rg_entries (w_reg w)) cid),
      the (get (rg_gens (w_reg w)) (the (get (rg_entries (w_reg w)) cid)))))"
    and "reg_map w cid = Some r \<Longrightarrow> \<exists>a g. get (rg_entries (w_reg w)) cid = Some a \<and>
      get (rg_gens (w_reg w)) a = Some g \<and> \<not> gn_retired g \<and> gn_record g = r"
proof -
  have gi: "gens_inv sha256 (installed w) w" and e: "entries_ok w" using assms by (simp_all add: reg_inv_def)
  have live: "\<exists>g. get (rg_gens (w_reg w)) a = Some g \<and> \<not> gn_retired g" if a: "get (rg_entries (w_reg w)) cid = Some a" for a
  proof -
    obtain g where g: "get (rg_gens (w_reg w)) a = Some g" using e a unfolding entries_ok_def by blast
    have "a \<in> installed w" using map_of_SomeD [OF a] by force
    then show ?thesis using gens_invD(4) [OF gi g] g by blast
  qed
  then show "reg_map w cid = Some r \<Longrightarrow> \<exists>a g. get (rg_entries (w_reg w)) cid = Some a \<and>
      get (rg_gens (w_reg w)) a = Some g \<and> \<not> gn_retired g \<and> gn_record g = r"
    by (cases "get (rg_entries (w_reg w)) cid") (auto simp: reg_map_def)
  show "liveGeneration cid (w_reg w) =
    rbind (lookup_spec cid (reg_abs w)) (\<lambda>r. Inr (the (get (rg_entries (w_reg w)) cid),
      the (get (rg_gens (w_reg w)) (the (get (rg_entries (w_reg w)) cid)))))"
    using live by (cases "get (rg_entries (w_reg w)) cid")
      (auto simp: liveGeneration_def reg_abs_def reg_map_def of_option_def)
qed

lemma newLease_view:
  assumes "get (rg_gens (w_reg w)) a = Some g"
  shows "lease_view (newLease a g iv w) = (Some (gn_record g), iv, True, reg_abs w)"
proof -
  obtain w' b where n: "newLease a g iv w = (w', b)" by force
  note f = newLease_frame [OF assms n]
  have "reg_abs w' = reg_abs w" using f reg_map_cong [of w' w] by (simp add: reg_abs_def)
  then show ?thesis
    using f(4) [of a] assms unfolding n by (simp add: lease_view_def leaseRecord_def lease_live_def f(7) gomap_simps)
qed

lemma lookup_spec_Inr: "lookup_spec cid (reg_abs w) = Inr r \<longleftrightarrow> \<not> rg_closed (w_reg w) \<and> reg_map w cid = Some r"
  by (auto simp: reg_abs_def of_option_def split: option.splits)

text \<open>Lookup answers from the installed records: on an open registry it leases exactly the record
  installed under the identifier, live and with no effect on what is installed; otherwise it fails
  with ErrCapabilityNotFound or, on a closed registry, ErrRegistryClosed.\<close>

theorem Lookup_spec:
  assumes "reg_reachable sha256 w"
  shows "map_sum id lease_view (Lookup cid w) =
    map_sum id (\<lambda>r. (Some r, None, True, reg_abs w)) (lookup_spec cid (reg_abs w))"
proof -
  note inv = reg_reachable_inv [OF assms]
  show ?thesis
  proof (cases "lookup_spec cid (reg_abs w)")
    case (Inr r)
    then obtain a g where "get (rg_entries (w_reg w)) cid = Some a" "get (rg_gens (w_reg w)) a = Some g" "gn_record g = r"
      using liveGeneration_spec(2) [OF inv, of cid r] by (auto simp: lookup_spec_Inr)
    with Inr show ?thesis by (simp add: Lookup_def liveGeneration_spec(1) [OF inv] newLease_view)
  qed (simp add: Lookup_def liveGeneration_spec(1) [OF inv])
qed

theorem Lookup_spec_witness:
  "map_sum id (\<lambda>v. fst (lease_view v)) (Lookup ''git.log'' demo_world) = Inr (Some demo_record) \<and>
   Lookup ''git'' demo_world = Inl ErrCapabilityNotFound"
proof -
  have m: "lookup_spec ''git.log'' (reg_abs demo_world) = Inr demo_record"
    "lookup_spec ''git'' (reg_abs demo_world) = Inl ErrCapabilityNotFound" by code_simp+
  show ?thesis
    using Lookup_spec [OF demo_world_reachable, of "''git.log''"] Lookup_spec [OF demo_world_reachable, of "''git''"] m
    by (cases "Lookup ''git.log'' demo_world"; cases "Lookup ''git'' demo_world") auto
qed

text \<open>ResolveOperation answers from the installed records: the lease carries the first operation of
  the installed record with the requested identifier and the first binding of the provider that the
  operation names; every other case fails with the error of the first missing piece.\<close>

theorem ResolveOperation_spec:
  assumes "reg_reachable sha256 w"
  shows "map_sum id lease_view (ResolveOperation cid oid w) =
    map_sum id (\<lambda>(r, iv). (Some r, Some iv, True, reg_abs w)) (resolve_spec cid oid (reg_abs w))"
proof -
  note inv = reg_reachable_inv [OF assms]
  show ?thesis
  proof (cases "lookup_spec cid (reg_abs w)")
    case (Inr r)
    then obtain a g where "get (rg_entries (w_reg w)) cid = Some a" "get (rg_gens (w_reg w)) a = Some g" "gn_record g = r"
      using liveGeneration_spec(2) [OF inv, of cid r] by (auto simp: lookup_spec_Inr)
    with Inr show ?thesis
      by (simp add: ResolveOperation_def resolve_spec_def liveGeneration_spec(1) [OF inv] newLease_view of_option_def
          split: option.splits)
  qed (simp add: ResolveOperation_def resolve_spec_def liveGeneration_spec(1) [OF inv])
qed

theorem ResolveOperation_spec_witness:
  "ResolveOperation ''git.log'' ''push'' demo_world = Inl ErrOperationNotFound"
proof -
  have "resolve_spec ''git.log'' ''push'' (reg_abs demo_world) = Inl ErrOperationNotFound" by code_simp
  then show ?thesis
    using ResolveOperation_spec [OF demo_world_reachable, of "''git.log''" "''push''"]
    by (cases "ResolveOperation ''git.log'' ''push'' demo_world") auto
qed

section \<open>Dotted tool paths\<close>

text \<open>The operations that a dotted tool path names through its record's parent and target.\<close>

definition legacy_matches :: "string \<Rightarrow> (string \<Rightarrow> Record option) \<Rightarrow> (string \<times> string) set" where
  "legacy_matches p m =
     {(cid, oid). \<exists>r x. m cid = Some r \<and> rc_operations r = [x] \<and> oid = op_ID x \<and>
        (p = legacyPath r x \<or> p = legacyPath r x @ ''.'' @ op_Target x)}"

definition split_spec :: "string \<Rightarrow> reg_spec \<Rightarrow> (Record \<times> invocation) res" where
  "split_spec p s =
     (let i = lastIndexByte p dot
      in if i \<le> 0 \<or> i = int (length p) - 1 then Inl ErrOperationNotFound
         else resolve_spec (take (nat i) p) (drop (nat (i + 1)) p) s)"

definition toolpath_spec :: "string \<Rightarrow> reg_spec \<Rightarrow> (Record \<times> invocation) res" where
  "toolpath_spec p s =
     (let M = legacy_matches p (snd s)
      in if card M = 1 then resolve_spec (fst (the_elem M)) (snd (the_elem M)) s
         else if card M > 1 then Inl ErrOperationNotFound
         else case snd s p of
                Some r \<Rightarrow>
                  (case rc_operations r of
                     [x] \<Rightarrow> if op_ID x = lastSegment p then resolve_spec p (op_ID x) s else split_spec p s
                   | _ \<Rightarrow> split_spec p s)
              | None \<Rightarrow> split_spec p s)"

lemma length_one: "length xs = Suc 0 \<longleftrightarrow> (\<exists>x. xs = [x])"
  by (cases xs) auto

lemma legacyMatch_iff:
  assumes inv: "reg_inv sha256 w" and a: "get (rg_entries (w_reg w)) cid = Some a"
  shows "legacyMatch p (w_reg w) (cid, a) = Some (c, oid) \<longleftrightarrow> c = cid \<and> (c, oid) \<in> legacy_matches p (reg_map w)"
proof -
  obtain r where r: "reg_map w cid = Some r"
    using inv a reg_map_None [of w cid] by (auto simp: reg_inv_def)
  then obtain g where g: "get (rg_gens (w_reg w)) a = Some g" "\<not> gn_retired g" "gn_record g = r"
    using liveGeneration_spec(2) [OF inv r] a by auto
  then show ?thesis
    using r by (auto simp: legacyMatch_def legacy_matches_def Let_def length_one split: if_splits)
qed

lemma legacyMatch_fst: "legacyMatch p r e = Some x \<Longrightarrow> fst x = fst e"
  by (auto simp: legacyMatch_def Let_def split: option.splits if_splits)

lemma set_map_filter: "x \<in> set (List.map_filter f es) \<longleftrightarrow> (\<exists>e \<in> set es. f e = Some x)"
  by (induction es) (auto split: option.splits)

lemma distinct_map_filter_fst:
  assumes "\<And>e x. f e = Some x \<Longrightarrow> fst x = fst e" and "distinct (map fst es)"
  shows "distinct (List.map_filter f es)"
  using assms(2)
proof (induction es)
  case (Cons e es)
  have "x \<notin> set (List.map_filter f es)" if "f e = Some x" for x
  proof
    assume "x \<in> set (List.map_filter f es)"
    then obtain e' where "e' \<in> set es" "f e' = Some x" by (auto simp: set_map_filter)
    then have "fst e = fst e'" using assms(1) that by metis
    then show False using Cons.prems \<open>e' \<in> set es\<close> by auto
  qed
  then show ?case using Cons by (simp split: option.splits)
qed simp

lemma matches_spec:
  assumes inv: "reg_inv sha256 w"
  shows "set (List.map_filter (legacyMatch p (w_reg w)) (rg_entries (w_reg w))) = legacy_matches p (reg_map w)"
    and "distinct (List.map_filter (legacyMatch p (w_reg w)) (rg_entries (w_reg w)))"
proof -
  have k: "keys_ok (rg_entries (w_reg w))" using inv by (simp add: reg_inv_def entries_ok_def)
  then have dk: "distinct (map fst (rg_entries (w_reg w)))" by (simp add: keys_ok_def)
  show "distinct (List.map_filter (legacyMatch p (w_reg w)) (rg_entries (w_reg w)))"
    by (rule distinct_map_filter_fst [OF _ dk]) (rule legacyMatch_fst)
  have dom: "\<exists>a. get (rg_entries (w_reg w)) cid = Some a" if "(cid, oid) \<in> legacy_matches p (reg_map w)" for cid oid
    using that by (cases "get (rg_entries (w_reg w)) cid") (auto simp: legacy_matches_def reg_map_def)
  have "(\<exists>e \<in> set (rg_entries (w_reg w)). legacyMatch p (w_reg w) e = Some (c, oid)) \<longleftrightarrow>
      (c, oid) \<in> legacy_matches p (reg_map w)" for c oid
  proof
    assume "\<exists>e \<in> set (rg_entries (w_reg w)). legacyMatch p (w_reg w) e = Some (c, oid)"
    then obtain cid a where "get (rg_entries (w_reg w)) cid = Some a" "legacyMatch p (w_reg w) (cid, a) = Some (c, oid)"
      using k by (auto simp: keys_ok_get)
    then show "(c, oid) \<in> legacy_matches p (reg_map w)" using legacyMatch_iff [OF inv] by blast
  next
    assume m: "(c, oid) \<in> legacy_matches p (reg_map w)"
    then obtain a where a: "get (rg_entries (w_reg w)) c = Some a" using dom by blast
    then show "\<exists>e \<in> set (rg_entries (w_reg w)). legacyMatch p (w_reg w) e = Some (c, oid)"
      using legacyMatch_iff [OF inv a] m map_of_SomeD [OF a] by blast
  qed
  then show "set (List.map_filter (legacyMatch p (w_reg w)) (rg_entries (w_reg w))) = legacy_matches p (reg_map w)"
    by (auto simp: set_map_filter)
qed

lemma ResolveToolPath_view:
  assumes reach: "reg_reachable sha256 w"
  shows "map_sum id lease_view (ResolveToolPath p w) =
    map_sum id (\<lambda>(r, iv). (Some r, Some iv, True, reg_abs w)) (toolpath_spec p (reg_abs w))"
proof -
  note inv = reg_reachable_inv [OF reach]
  let ?ms = "List.map_filter (legacyMatch p (w_reg w)) (rg_entries (w_reg w))" and ?M = "legacy_matches p (reg_map w)"
  have card: "length ?ms = card ?M" using matches_spec [OF inv] by (metis distinct_card)
  have one: "the_elem ?M = hd ?ms" if M1: "card ?M = 1"
  proof -
    obtain x where x: "?ms = [x]" using M1 card length_one [of ?ms] by auto
    then have "?M = {x}" using matches_spec(1) [OF inv, of p] by simp
    then show ?thesis using x by simp
  qed
  note R = ResolveOperation_spec [OF reach]
  have split: "map_sum id lease_view (let i = lastIndexByte p dot
        in if i \<le> 0 \<or> i = int (length p) - 1 then Inl ErrOperationNotFound
           else ResolveOperation (take (nat i) p) (drop (nat (i + 1)) p) w) =
      map_sum id (\<lambda>(r, iv). (Some r, Some iv, True, reg_abs w)) (split_spec p (reg_abs w))"
    using R by (simp add: split_spec_def Let_def)
  consider (one) "card ?M = 1" | (many) "card ?M > 1" | (none) "card ?M = 0" by linarith
  then show ?thesis
  proof cases
    case none
    show ?thesis
    proof (cases "reg_map w p")
      case None
      then have "get (rg_entries (w_reg w)) p = None" using inv by (simp add: reg_inv_def reg_map_None)
      then show ?thesis using none None card split
        by (simp add: ResolveToolPath_def toolpath_spec_def reg_abs_def Let_def)
    next
      case (Some r)
      then obtain a g where g: "get (rg_entries (w_reg w)) p = Some a" "get (rg_gens (w_reg w)) a = Some g"
        "\<not> gn_retired g" "gn_record g = r"
        using liveGeneration_spec(2) [OF inv] by blast
      then show ?thesis using none Some card split R
        by (auto simp: ResolveToolPath_def toolpath_spec_def reg_abs_def Let_def split: list.splits)
    qed
  qed (use card one R in \<open>simp_all add: ResolveToolPath_def toolpath_spec_def Let_def reg_abs_def\<close>)
qed

text \<open>ResolveToolPath does not depend on the iteration order of the entries: it resolves the unique
  single-operation record whose parent and target spell the path, refuses an ambiguous path, and
  otherwise falls back to the record of that identifier and then to the split at the last dot.\<close>

theorem ResolveToolPath_spec:
  assumes reach: "reg_reachable sha256 w"
  shows "map_sum id lease_view (ResolveToolPath p w) =
    map_sum id (\<lambda>(r, iv). (Some r, Some iv, True, reg_abs w)) (toolpath_spec p (reg_abs w))"
  using assms by (rule ResolveToolPath_view)

theorem ResolveToolPath_spec_witness:
  "map_sum id (\<lambda>v. fst (snd (lease_view v))) (ResolveToolPath ''git.git_log'' demo_world) =
     Inr (Some \<lparr>iv_capabilityID = ''git.log'',
       iv_operation = \<lparr>op_ID = ''log'', op_Description = ''d'', op_Provider = ''p'', op_Target = ''git_log''\<rparr>,
       iv_binding = \<lparr>pb_ID = ''p'', pb_Type = ''mcp'', pb_ServerRef = ''git''\<rparr>\<rparr>)"
proof -
  have "rg_entries (w_reg demo_world) = [(''git.log'', 1)]" "record_at demo_world 1 = Some demo_record"
    "\<not> rg_closed (w_reg demo_world)" by code_simp+
  then have m: "reg_abs demo_world = (False, [''git.log'' \<mapsto> demo_record])"
    by (auto simp: reg_abs_def reg_map_def fun_eq_iff)
  have "legacy_matches ''git.git_log'' [''git.log'' \<mapsto> demo_record] = {(''git.log'', ''log'')}"
    by (auto simp: legacy_matches_def demo_record_def legacyPath_def split: if_splits)
  then have "toolpath_spec ''git.git_log'' (reg_abs demo_world) = resolve_spec ''git.log'' ''log'' (reg_abs demo_world)"
    by (simp add: toolpath_spec_def m)
  then show ?thesis
    using ResolveToolPath_spec [OF demo_world_reachable, of "''git.git_log''"]
    by (cases "ResolveToolPath ''git.git_log'' demo_world")
      (auto simp: m resolve_spec_def of_option_def demo_record_def)
qed

section \<open>Browsing\<close>

definition map_records :: "(string \<Rightarrow> Record option) \<Rightarrow> (string \<times> Record) set" where
  "map_records m = {(cid, r). m cid = Some r}"

definition entry_spec :: "(string \<Rightarrow> Record option) \<Rightarrow> string \<Rightarrow> HierarchyEntry" where
  "entry_spec m c =
     (case (if c = [] then None else m c) of
        None \<Rightarrow> \<lparr>he_Path = c, he_CapabilityID = [], he_Name = [], he_Description = [], he_Operations = 0\<rparr>
      | Some r \<Rightarrow> \<lparr>he_Path = c, he_CapabilityID = c, he_Name = md_Name (rc_metadata r),
                   he_Description = md_Description (rc_metadata r), he_Operations = int (length (rc_operations r))\<rparr>)"

definition browse_spec :: "string \<Rightarrow> reg_spec \<Rightarrow> HierarchyView res" where
  "browse_spec p s =
     (let q = (if trimByte dot p = ''/'' then [] else trimByte dot p); es = map_records (snd s)
      in if fst s then Inl ErrRegistryClosed
         else if q = [] \<or> q \<in> record_nodes es then
           Inr \<lparr>hv_Path = q, hv_CapabilityID = (if snd s q = None then [] else q),
                hv_Children = map (entry_spec (snd s)) (sorted_list_of_set {c. (q, c) \<in> record_edges es})\<rparr>
         else Inl ErrHierarchyPathNotFound)"

lemma entryRecords_set:
  assumes "reg_inv sha256 w"
  shows "set (entryRecords (w_reg w)) = map_records (reg_map w)"
proof -
  have k: "keys_ok (rg_entries (w_reg w))" using assms by (simp add: reg_inv_def entries_ok_def)
  have "(c, r) \<in> set (entryRecords (w_reg w)) \<longleftrightarrow> reg_map w c = Some r" for c r
    using k by (cases "get (rg_entries (w_reg w)) c")
      (auto simp: entryRecords_def reg_map_def keys_ok_get set_map_filter intro!: bexI [of _ "(c, a)" for a])
  then show ?thesis by (auto simp: map_records_def)
qed

lemma map_records_fst: "p \<in> fst ` map_records m \<longleftrightarrow> m p \<noteq> None"
  by (force simp: map_records_def)

lemma childEntry_spec:
  assumes inv: "reg_inv sha256 w" and opened: "\<not> rg_closed (w_reg w)"
  shows "childEntry (w_reg w) c = entry_spec (reg_map w) c"
proof -
  have n: "rg_nodes (w_reg w) = rebuildHierarchy (entryRecords (w_reg w))"
    using inv opened by (simp add: reg_inv_def nodes_ok_def)
  note get = rebuildHierarchy_get [of "entryRecords (w_reg w)" c, folded n, unfolded entryRecords_set [OF inv] map_records_fst]
  show ?thesis
  proof (cases "c = [] \<or> reg_map w c = None")
    case True
    then show ?thesis by (auto simp: childEntry_def entry_spec_def get Let_def emptyNode_def)
  next
    case False
    then obtain r where r: "reg_map w c = Some r" by auto
    then have "c \<in> record_nodes (map_records (reg_map w))" by (auto simp: record_nodes_def map_records_def)
    moreover obtain a g where "get (rg_entries (w_reg w)) c = Some a" "get (rg_gens (w_reg w)) a = Some g" "gn_record g = r"
      using liveGeneration_spec(2) [OF inv r] by blast
    ultimately show ?thesis using False r by (simp add: childEntry_def entry_spec_def get Let_def)
  qed
qed

lemma Browse_view:
  assumes reach: "reg_reachable sha256 w"
  shows "Browse (w_reg w) p = browse_spec p (reg_abs w)"
proof -
  note inv = reg_reachable_inv [OF reach]
  show ?thesis
  proof (cases "rg_closed (w_reg w)")
    case False
    have n: "rg_nodes (w_reg w) = rebuildHierarchy (entryRecords (w_reg w))"
      using inv False by (simp add: reg_inv_def nodes_ok_def)
    note get = rebuildHierarchy_get [of "entryRecords (w_reg w)", folded n, unfolded entryRecords_set [OF inv] map_records_fst]
    have "childEntry (w_reg w) = entry_spec (reg_map w)"
      using childEntry_spec [OF inv False] by (rule ext)
    then show ?thesis
      using False by (simp add: Browse_def browseLocked_def browse_spec_def reg_abs_def Let_def get)
  qed (simp add: Browse_def browse_spec_def reg_abs_def)
qed

text \<open>C31: Browse shows the dotted hierarchy of the installed records: the paths that exist are the root
  and the dotted prefixes of installed identifiers and of their parents, each with its direct
  successors, sorted and without duplicates, and the metadata of a capability installed there.\<close>

theorem Browse_spec:
  assumes reach: "reg_reachable sha256 w"
  shows "Browse (w_reg w) p = browse_spec p (reg_abs w)"
  using assms by (rule Browse_view)

theorem Browse_spec_witness:
  "Browse (w_reg demo_world) ''svn'' = Inl ErrHierarchyPathNotFound"
proof -
  have "rg_entries (w_reg demo_world) = [(''git.log'', 1)]" "record_at demo_world 1 = Some demo_record"
    "\<not> rg_closed (w_reg demo_world)" by code_simp+
  then have m: "reg_abs demo_world = (False, [''git.log'' \<mapsto> demo_record])"
    by (auto simp: reg_abs_def reg_map_def fun_eq_iff)
  have r: "map_records [''git.log'' \<mapsto> demo_record] = {(''git.log'', demo_record)}"
    by (auto simp: map_records_def split: if_splits)
  have "''svn'' \<notin> record_nodes {(''git.log'', demo_record)}" "trimByte dot ''svn'' = ''svn''" by code_simp+
  then show ?thesis
    using Browse_spec [OF demo_world_reachable, of "''svn''"] by (simp add: browse_spec_def m r)
qed

end
