(* ===== verification/Json.thy ===== *)
theory Json
  imports GoStrings Codec
begin

text \<open>
  The part of Go's standard library that turns values into text and back: decimal integers
  (\<^verbatim>\<open>strconv\<close>), \<^verbatim>\<open>json.Marshal\<close> with its default HTML escaping, \<^verbatim>\<open>json.Unmarshal\<close> up to the choice of
  the target type, and \<^verbatim>\<open>time.RFC3339Nano\<close>.  Response sizes are the lengths of these encodings, and the
  paging cursors are such encodings under a MAC.

  A number is kept as its literal, as the decoder does until it knows the target type.  The decoder's
  nesting limit of 10000 is not modelled: the texts decoded here are at most a few kilobytes.
\<close>

section \<open>Decimal integers\<close>

fun natText :: "nat \<Rightarrow> string" where
  "natText n = (if n < 10 then [char_of (48 + n)] else natText (n div 10) @ [char_of (48 + n mod 10)])"

declare natText.simps [simp del]

definition intText :: "int \<Rightarrow> string" where
  "intText i = (if i < 0 then ''-'' @ natText (nat (- i)) else natText (nat i))"

definition is_digit :: "char \<Rightarrow> bool" where
  "is_digit c \<longleftrightarrow> 48 \<le> byteN c \<and> byteN c \<le> 57"

definition digit_val :: "char \<Rightarrow> nat" where
  "digit_val c = byteN c - 48"

definition parseNat :: "string \<Rightarrow> nat" where
  "parseNat s = foldl (\<lambda>a c. 10 * a + digit_val c) 0 s"

text \<open>\<^verbatim>\<open>strconv.ParseInt(s, 10, 64)\<close> and \<^verbatim>\<open>ParseUint\<close> on a number literal.\<close>

definition parseInt64 :: "string \<Rightarrow> int option" where
  "parseInt64 s =
     (let neg = hasPrefix s ''-''; ds = (if neg then tl s else s);
          v = (if neg then - int (parseNat ds) else int (parseNat ds))
      in if ds = [] \<or> \<not> list_all is_digit ds then None
         else if v < - max_int64 - 1 \<or> v > max_int64 then None else Some v)"

definition parseUint64 :: "string \<Rightarrow> nat option" where
  "parseUint64 s =
     (if s = [] \<or> \<not> list_all is_digit s then None
      else if parseNat s \<ge> 2 ^ 64 then None else Some (parseNat s))"

section \<open>Encoding\<close>

datatype json = JNull | JBool bool | JNum string | JStr string | JArr "json list" | JObj "(string \<times> json) list"

definition hex4 :: "nat \<Rightarrow> string" where
  "hex4 n = [hexDigits ! (n div 4096 mod 16), hexDigits ! (n div 256 mod 16), hexDigits ! (n div 16 mod 16), hexDigits ! (n mod 16)]"

definition uesc :: "nat \<Rightarrow> string" where
  "uesc n = CHR 0x5C # CHR ''u'' # hex4 n"

definition escAscii :: "nat \<Rightarrow> string" where
  "escAscii b =
     (if b = 34 \<or> b = 92 then [CHR 0x5C, char_of b]
      else if b = 8 then [CHR 0x5C, CHR ''b''] else if b = 12 then [CHR 0x5C, CHR ''f'']
      else if b = 10 then [CHR 0x5C, CHR ''n''] else if b = 13 then [CHR 0x5C, CHR ''r'']
      else if b = 9 then [CHR 0x5C, CHR ''t'']
      else if b < 32 \<or> b = 60 \<or> b = 62 \<or> b = 38 then uesc b
      else [char_of b])"

function escapeBytes :: "nat list \<Rightarrow> string" where
  "escapeBytes [] = []"
| "escapeBytes (b # bs) =
     (if b < 128 then escAscii b @ escapeBytes bs
      else case decodeRune (b # bs) of
             None \<Rightarrow> uesc 65533 @ escapeBytes bs
           | Some (r, w) \<Rightarrow>
             (if r = 8232 \<or> r = 8233 then uesc r else map char_of (take w (b # bs))) @ escapeBytes (drop (w - 1) bs))"
  by pat_completeness auto
termination
  by (relation "measure length") auto

definition jsonString :: "string \<Rightarrow> string" where
  "jsonString s = CHR 0x22 # escapeBytes (map byteN s) @ [CHR 0x22]"

fun jsonText :: "json \<Rightarrow> string" and jsonItems :: "json list \<Rightarrow> string" and jsonMembers :: "(string \<times> json) list \<Rightarrow> string" where
  "jsonText JNull = ''null''"
| "jsonText (JBool b) = (if b then ''true'' else ''false'')"
| "jsonText (JNum s) = s"
| "jsonText (JStr s) = jsonString s"
| "jsonText (JArr xs) = ''['' @ jsonItems xs @ '']''"
| "jsonText (JObj ms) = ''{'' @ jsonMembers ms @ ''}''"
| "jsonItems [] = []"
| "jsonItems [x] = jsonText x"
| "jsonItems (x # y # xs) = jsonText x @ '','' @ jsonItems (y # xs)"
| "jsonMembers [] = []"
| "jsonMembers [(k, v)] = jsonString k @ '':'' @ jsonText v"
| "jsonMembers ((k, v) # m # ms) = jsonString k @ '':'' @ jsonText v @ '','' @ jsonMembers (m # ms)"

definition JInt :: "int \<Rightarrow> json" where
  "JInt i = JNum (intText i)"

text \<open>A member with \<^verbatim>\<open>omitempty\<close>.\<close>

definition omitStr :: "string \<Rightarrow> string \<Rightarrow> (string \<times> json) list" where
  "omitStr k s = (if s = [] then [] else [(k, JStr s)])"

definition omitArr :: "string \<Rightarrow> json list \<Rightarrow> (string \<times> json) list" where
  "omitArr k xs = (if xs = [] then [] else [(k, JArr xs)])"

section \<open>Decoding\<close>

definition is_ws :: "char \<Rightarrow> bool" where
  "is_ws c \<longleftrightarrow> byteN c \<in> {32, 9, 10, 13}"

definition skipws :: "string \<Rightarrow> string" where
  "skipws s = dropWhile is_ws s"

definition hexVal :: "char \<Rightarrow> nat option" where
  "hexVal c =
     (let b = byteN c
      in if 48 \<le> b \<and> b \<le> 57 then Some (b - 48)
         else if 97 \<le> b \<and> b \<le> 102 then Some (b - 87)
         else if 65 \<le> b \<and> b \<le> 70 then Some (b - 55) else None)"

fun getu4 :: "string \<Rightarrow> (nat \<times> string) option" where
  "getu4 (a # b # c # d # r) =
     (case traverse hexVal [a, b, c, d] of
        Some [w, x, y, z] \<Rightarrow> Some (w * 4096 + x * 256 + y * 16 + z, r)
      | _ \<Rightarrow> None)"
| "getu4 _ = None"

definition isSurrogate :: "nat \<Rightarrow> bool" where
  "isSurrogate r \<longleftrightarrow> 55296 \<le> r \<and> r < 57344"

text \<open>The code point of \<^verbatim>\<open>\uXXXX\<close>, joined with a low surrogate that follows; a lone surrogate is U+FFFD.\<close>

definition joinSurrogate :: "nat \<Rightarrow> string \<Rightarrow> nat \<times> string" where
  "joinSurrogate r s =
     (if \<not> isSurrogate r then (r, s)
      else case (if hasPrefix s [CHR 0x5C, CHR ''u''] then getu4 (drop 2 s) else None) of
             Some (r2, t) \<Rightarrow>
               if r < 56320 \<and> 56320 \<le> r2 \<and> r2 < 57344
               then ((r - 55296) * 1024 + (r2 - 56320) + 65536, t) else (runeError, s)
           | None \<Rightarrow> (runeError, s))"

definition escChar :: "char \<Rightarrow> char option" where
  "escChar c =
     (if c = CHR 0x22 \<or> c = CHR 0x5C \<or> c = CHR ''/'' then Some c
      else if c = CHR ''b'' then Some (char_of (8 :: nat)) else if c = CHR ''f'' then Some (char_of (12 :: nat))
      else if c = CHR ''n'' then Some (char_of (10 :: nat)) else if c = CHR ''r'' then Some (char_of (13 :: nat))
      else if c = CHR ''t'' then Some (char_of (9 :: nat)) else None)"

text \<open>The rest of a string after its opening quote; \<open>n\<close> bounds the number of characters left.\<close>

fun parseStr :: "nat \<Rightarrow> string \<Rightarrow> (string \<times> string) option" where
  "parseStr 0 s = None"
| "parseStr (Suc n) [] = None"
| "parseStr (Suc n) (c # s) =
     (if c = CHR 0x22 then Some ([], s)
      else if c = CHR 0x5C then
        (case s of [] \<Rightarrow> None
         | d # t \<Rightarrow>
           if d = CHR ''u'' then
             (case getu4 t of None \<Rightarrow> None
              | Some (r, u) \<Rightarrow>
                let (r', u') = joinSurrogate r u
                in map_option (\<lambda>(x, y). (map char_of (encodeRune r') @ x, y)) (parseStr n u'))
           else (case escChar d of None \<Rightarrow> None
                 | Some e \<Rightarrow> map_option (\<lambda>(x, y). (e # x, y)) (parseStr n t)))
      else if byteN c < 32 then None
      else if byteN c < 128 then map_option (\<lambda>(x, y). (c # x, y)) (parseStr n s)
      else (case decodeRune (map byteN (c # s)) of
              None \<Rightarrow> map_option (\<lambda>(x, y). (map char_of (encodeRune runeError) @ x, y)) (parseStr n s)
            | Some (r, w) \<Rightarrow>
              map_option (\<lambda>(x, y). (take w (c # s) @ x, y)) (parseStr n (drop (w - 1) s))))"

definition digits :: "string \<Rightarrow> string \<times> string" where
  "digits s = (takeWhile is_digit s, dropWhile is_digit s)"

definition parseFrac :: "string \<Rightarrow> (string \<times> string) option" where
  "parseFrac s =
     (case s of c # t \<Rightarrow>
        if c = CHR ''.'' then (let (d, u) = digits t in if d = [] then None else Some (c # d, u)) else Some ([], s)
      | [] \<Rightarrow> Some ([], []))"

definition parseExp :: "string \<Rightarrow> (string \<times> string) option" where
  "parseExp s =
     (case s of c # t \<Rightarrow>
        if c = CHR ''e'' \<or> c = CHR ''E'' then
          (let sign = take 1 (takeWhile (\<lambda>x. x = CHR ''+'' \<or> x = CHR ''-'') t);
               (d, u) = digits (drop (length sign) t)
           in if d = [] then None else Some (c # sign @ d, u))
        else Some ([], s)
      | [] \<Rightarrow> Some ([], []))"

definition parseNum :: "string \<Rightarrow> (string \<times> string) option" where
  "parseNum s =
     (let sign = (if hasPrefix s ''-'' then ''-'' else []); (d, t) = digits (drop (length sign) s);
          whole = (if hasPrefix d ''0'' then (''0'', drop 1 d @ t) else (d, t))
      in if d = [] then None
         else case parseFrac (snd whole) of None \<Rightarrow> None
              | Some (f, u) \<Rightarrow>
                (case parseExp u of None \<Rightarrow> None | Some (e, v) \<Rightarrow> Some (sign @ fst whole @ f @ e, v)))"

fun parseValue :: "nat \<Rightarrow> string \<Rightarrow> (json \<times> string) option"
  and parseItems :: "nat \<Rightarrow> string \<Rightarrow> (json list \<times> string) option"
  and parseMembers :: "nat \<Rightarrow> string \<Rightarrow> ((string \<times> json) list \<times> string) option" where
  "parseValue 0 s = None"
| "parseValue (Suc n) s =
     (case skipws s of [] \<Rightarrow> None
      | c # t \<Rightarrow>
        if c = CHR 0x22 then map_option (\<lambda>(x, r). (JStr x, r)) (parseStr (Suc (length t)) t)
        else if c = CHR ''{'' then
          (if hasPrefix (skipws t) ''}'' then Some (JObj [], tl (skipws t))
           else map_option (\<lambda>(ms, r). (JObj ms, r)) (parseMembers n t))
        else if c = CHR ''['' then
          (if hasPrefix (skipws t) '']'' then Some (JArr [], tl (skipws t))
           else map_option (\<lambda>(xs, r). (JArr xs, r)) (parseItems n t))
        else if hasPrefix (c # t) ''null'' then Some (JNull, drop 4 (c # t))
        else if hasPrefix (c # t) ''true'' then Some (JBool True, drop 4 (c # t))
        else if hasPrefix (c # t) ''false'' then Some (JBool False, drop 5 (c # t))
        else map_option (\<lambda>(x, r). (JNum x, r)) (parseNum (c # t)))"
| "parseItems 0 s = None"
| "parseItems (Suc n) s =
     (case parseValue n s of None \<Rightarrow> None
      | Some (v, t) \<Rightarrow>
        (case skipws t of [] \<Rightarrow> None
         | c # u \<Rightarrow>
           if c = CHR '']'' then Some ([v], u)
           else if c = CHR '','' then map_option (\<lambda>(vs, r). (v # vs, r)) (parseItems n u)
           else None))"
| "parseMembers 0 s = None"
| "parseMembers (Suc n) s =
     (case skipws s of [] \<Rightarrow> None
      | q # s' \<Rightarrow>
        if q \<noteq> CHR 0x22 then None
        else case parseStr (Suc (length s')) s' of None \<Rightarrow> None
        | Some (k, t) \<Rightarrow>
          (case skipws t of [] \<Rightarrow> None
           | c # u \<Rightarrow>
             if c \<noteq> CHR '':'' then None
             else case parseValue n u of None \<Rightarrow> None
             | Some (v, x) \<Rightarrow>
               (case skipws x of [] \<Rightarrow> None
                | d # y \<Rightarrow>
                  if d = CHR ''}'' then Some ([(k, v)], y)
                  else if d = CHR '','' then map_option (\<lambda>(ms, r). ((k, v) # ms, r)) (parseMembers n y)
                  else None)))"

definition parseJson :: "string \<Rightarrow> json option" where
  "parseJson s =
     (case parseValue (2 * length s + 2) s of None \<Rightarrow> None
      | Some (v, r) \<Rightarrow> if skipws r = [] then Some v else None)"

text \<open>
  Decoding into the fields of a struct: later members win, names match up to ASCII case, \<^verbatim>\<open>null\<close> and
  unknown members are skipped, and a member of the wrong type fails the whole decoding.  \<open>step\<close> is
  the assignment for one member, \<^const>\<open>None\<close> when its type is wrong.
\<close>

definition lowerByte :: "char \<Rightarrow> char" where
  "lowerByte c = (if 65 \<le> byteN c \<and> byteN c \<le> 90 then char_of (byteN c + 32) else c)"

fun decodeMembers :: "(string \<Rightarrow> json \<Rightarrow> 'a \<Rightarrow> 'a option) \<Rightarrow> (string \<times> json) list \<Rightarrow> 'a \<Rightarrow> 'a option" where
  "decodeMembers step [] x = Some x"
| "decodeMembers step ((k, v) # ms) x =
     (if v = JNull then decodeMembers step ms x
      else case step (map lowerByte k) v x of None \<Rightarrow> None | Some y \<Rightarrow> decodeMembers step ms y)"

definition decodeStruct :: "(string \<Rightarrow> json \<Rightarrow> 'a \<Rightarrow> 'a option) \<Rightarrow> 'a \<Rightarrow> string \<Rightarrow> 'a option" where
  "decodeStruct step zero s =
     (case parseJson s of
        Some (JObj ms) \<Rightarrow> decodeMembers step ms zero
      | Some JNull \<Rightarrow> Some zero
      | _ \<Rightarrow> None)"

section \<open>Times\<close>

text \<open>\<^verbatim>\<open>time.Time.UTC().Format(time.RFC3339Nano)\<close> of a time given in nanoseconds since the epoch.\<close>

definition padTo :: "nat \<Rightarrow> string \<Rightarrow> string" where
  "padTo k s = replicate (k - length s) (CHR ''0'') @ s"

definition civil :: "int \<Rightarrow> int \<times> int \<times> int" where
  "civil day =
     (let z = day + 719468; era = z div 146097; doe = z mod 146097;
          yoe = (doe - doe div 1460 + doe div 36524 - doe div 146096) div 365;
          doy = doe - (365 * yoe + yoe div 4 - yoe div 100); mp = (5 * doy + 2) div 153;
          d = doy - (153 * mp + 2) div 5 + 1; m = (if mp < 10 then mp + 3 else mp - 9);
          y = yoe + era * 400 + (if m \<le> 2 then 1 else 0)
      in (y, m, d))"

definition formatRFC3339Nano :: "time \<Rightarrow> string" where
  "formatRFC3339Nano t =
     (let sec = t div 1000000000; ns = t mod 1000000000; (y, mo, d) = civil (sec div 86400); s = sec mod 86400;
          two = (\<lambda>i. padTo 2 (intText i));
          frac = rev (dropWhile (\<lambda>c. c = CHR ''0'') (rev (padTo 9 (intText ns))))
      in padTo 4 (intText y) @ ''-'' @ two mo @ ''-'' @ two d @ ''T'' @
         two (s div 3600) @ '':'' @ two (s mod 3600 div 60) @ '':'' @ two (s mod 60) @
         (if frac = [] then [] else ''.'' @ frac) @ ''Z'')"

end
