(* ===== verification/Read_Lease.thy ===== *)
theory Read_Lease
  imports Registry_Steps Json Limits
begin

text \<open>
  Chunked artifact reads, \<^verbatim>\<open>internal/capability/read.go\<close>.  A service state couples the lease store
  with the registry and the snapshot system below it.  Every reading of the clock is an argument, the
  random source is the list of bytes still to come, and \<^verbatim>\<open>sha256\<close> is a parameter.

  \<^verbatim>\<open>readInitial\<close> drops the lock between looking for an earlier attempt and publishing the new lease;
  it is modelled by the three parts that run without interruption (\<open>readAttempt\<close>, \<open>readAcquire\<close>,
  \<open>readPublish\<close>) and by their composition \<open>readInitial\<close>.
\<close>

section \<open>State\<close>

definition readHandleCollisionAttempts :: nat where "readHandleCollisionAttempts = 4"

record ReadRequest =
  rq_CapabilityID :: string
  rq_Ref :: string
  rq_AttemptID :: string
  rq_Offset :: int
  rq_MaxBytes :: int

record ReadResponse =
  rr_Ref :: string
  rr_ContinuationRef :: string
  rr_Offset :: int
  rr_DataBase64 :: string
  rr_NextOffset :: int
  rr_Complete :: bool
  rr_MediaType :: string
  rr_StoredBytes :: int
  rr_SHA256 :: string
  rr_ExpiresAt :: string

record readReplay =
  rp_inputRef :: string
  rp_offset :: int
  rp_maxBytes :: int
  rp_response :: ReadResponse
  rp_encoded :: string

record readLease =
  rd_id :: string
  rd_scopeDigest :: digest
  rd_attemptKey :: digest
  rd_artifact :: Artifact
  rd_object :: nat
  rd_created :: time
  rd_idleUntil :: time
  rd_expiresAt :: time
  rd_final :: bool
  rd_replay :: readReplay

record ReadLeaseStore =
  rs_limits :: ReadLeaseLimits
  rs_random :: bytes
  rs_closed :: bool
  rs_reads :: "(string, readLease) gomap"
  rs_attempts :: "(digest, string) gomap"
  rs_pinnedBytes :: int
  rs_replayBytes :: int

record service =
  sv_world :: world
  sv_reads :: ReadLeaseStore

definition newReadLeaseStore :: "ReadLeaseLimits \<Rightarrow> bytes \<Rightarrow> ReadLeaseStore res" where
  "newReadLeaseStore limits random =
     rbind (validateReadLeaseLimits limits) (\<lambda>_.
       Inr \<lparr>rs_limits = limits, rs_random = random, rs_closed = False, rs_reads = [], rs_attempts = [],
            rs_pinnedBytes = 0, rs_replayBytes = 0\<rparr>)"

section \<open>Requests\<close>

definition validateReadBounds :: "string \<Rightarrow> ReadRequest \<Rightarrow> unit res" where
  "validateReadBounds scope request =
     (if scope = [] \<or> length scope > 256 then Inl ErrReadRequestInvalid
      else if rq_Ref request = [] \<or> int (length (rq_Ref request)) > OpaqueReferenceMaxBytes then Inl ErrReadRequestInvalid
      else if rq_Offset request < 0 \<or> rq_MaxBytes request \<le> 0 \<or> rq_MaxBytes request > ReadChunkMax
      then Inl ErrReadRequestInvalid
      else if rq_Offset request > max_int64 - rq_MaxBytes request then Inl ErrReadRequestInvalid
      else if int (length (rq_AttemptID request)) > ReadAttemptMaxBytes then Inl ErrReadRequestInvalid
      else Inr ())"

text \<open>\<^verbatim>\<open>attemptIDPattern\<close>: the prefix \<^verbatim>\<open>read:\<close> and 22 to 123 characters of the URL alphabet.\<close>

definition attemptIDPattern :: "string \<Rightarrow> bool" where
  "attemptIDPattern s =
     (hasPrefix s ''read:'' \<and>
      (let t = trimPrefix s ''read:''
       in list_all (\<lambda>c. c \<in> set urlAlphabet) t \<and> 22 \<le> length t \<and> length t \<le> 123))"

definition readableArtifactKind :: "ArtifactKind \<Rightarrow> bool" where
  "readableArtifactKind kind = (kind = ArtifactSkill \<or> kind = ArtifactSkillResource \<or> kind = ArtifactContext)"

fun bigEndian :: "nat \<Rightarrow> nat \<Rightarrow> bytes" where
  "bigEndian 0 n = []"
| "bigEndian (Suc k) n = bigEndian k (n div 256) @ [byte_of (n mod 256)]"

definition attemptKeySource :: "string \<Rightarrow> ReadRequest \<Rightarrow> bytes" where
  "attemptKeySource scope request =
     concat (map (\<lambda>v. bigEndian 8 (length v) @ v)
       [scope, rq_CapabilityID request, rq_Ref request, rq_AttemptID request,
        intText (rq_Offset request), intText (rq_MaxBytes request)])"

definition readAttemptKey :: "(bytes \<Rightarrow> digest) \<Rightarrow> string \<Rightarrow> ReadRequest \<Rightarrow> digest" where
  "readAttemptKey sha256 scope request = sha256 (attemptKeySource scope request)"

definition randomOpaqueID :: "bytes \<Rightarrow> (string \<times> bytes) res" where
  "randomOpaqueID random = rbind (readFull 16 random) (\<lambda>(v, rest). Inr (rawURLEncode v, rest))"

text \<open>
  \<^verbatim>\<open>newUniqueIDLocked\<close>: up to \<open>n\<close> identifiers are drawn until one is not in use.  A source that runs dry
  is left empty.
\<close>

fun drawID :: "nat \<Rightarrow> (string \<Rightarrow> bool) \<Rightarrow> bytes \<Rightarrow> string res \<times> bytes" where
  "drawID 0 used random = (Inl ErrHandleGeneration, random)"
| "drawID (Suc n) used random =
     (case randomOpaqueID random of
        Inl e \<Rightarrow> (Inl ErrHandleGeneration, [])
      | Inr (i, rest) \<Rightarrow> if used i then drawID n used rest else (Inr i, rest))"

definition parseReadHandle :: "string \<Rightarrow> string option" where
  "parseReadHandle ref =
     (if int (length ref) > OpaqueReferenceMaxBytes \<or> \<not> hasPrefix ref ''read:v1:'' then None
      else let i = trimPrefix ref ''read:v1:''
           in case rawURLDecode i of None \<Rightarrow> None | Some d \<Rightarrow> if length d = 16 then Some i else None)"

section \<open>Expiry\<close>

definition dropLocked :: "string \<Rightarrow> readLease \<Rightarrow> service \<Rightarrow> service" where
  "dropLocked i lease v =
     v\<lparr>sv_reads := (sv_reads v)\<lparr>
         rs_reads := del i (rs_reads (sv_reads v)),
         rs_attempts := del (rd_attemptKey lease) (rs_attempts (sv_reads v)),
         rs_pinnedBytes := rs_pinnedBytes (sv_reads v) - ar_Bytes (rd_artifact lease),
         rs_replayBytes := rs_replayBytes (sv_reads v) - ReadReplayReservation\<rparr>,
       sv_world := (sv_world v)\<lparr>w_sys := sys_release_lease (rd_object lease) (w_sys (sv_world v))\<rparr>\<rparr>"

definition dropAll :: "(string \<times> readLease) list \<Rightarrow> service \<Rightarrow> service" where
  "dropAll ls v = fold (\<lambda>(i, lease). dropLocked i lease) ls v"

definition read_expired :: "time \<Rightarrow> readLease \<Rightarrow> bool" where
  "read_expired now lease = (\<not> now < rd_expiresAt lease)"

definition read_sweepLocked :: "time \<Rightarrow> service \<Rightarrow> service" where
  "read_sweepLocked now v = dropAll (filter (\<lambda>(i, lease). read_expired now lease) (rs_reads (sv_reads v))) v"

definition read_Close :: "service \<Rightarrow> service" where
  "read_Close v =
     (if rs_closed (sv_reads v) then v
      else let v' = v\<lparr>sv_reads := (sv_reads v)\<lparr>rs_closed := True\<rparr>\<rparr>
           in dropAll (rs_reads (sv_reads v)) v')"

record ReadLeaseStats =
  rt_Leases :: int
  rt_Attempts :: int
  rt_PinnedBytes :: int
  rt_ReplayBytes :: int

definition read_Stats :: "time \<Rightarrow> service \<Rightarrow> ReadLeaseStats \<times> service" where
  "read_Stats now v =
     (let v' = read_sweepLocked now v; s = sv_reads v'
      in (\<lparr>rt_Leases = int (length (rs_reads s)), rt_Attempts = int (length (rs_attempts s)),
           rt_PinnedBytes = rs_pinnedBytes s, rt_ReplayBytes = rs_replayBytes s\<rparr>, v'))"

section \<open>Preparing a chunk\<close>

definition responseJson :: "ReadResponse \<Rightarrow> json" where
  "responseJson r =
     JObj ([(''ref'', JStr (rr_Ref r))] @ omitStr ''continuation_ref'' (rr_ContinuationRef r) @
       [(''offset'', JInt (rr_Offset r)), (''data_base64'', JStr (rr_DataBase64 r)),
        (''next_offset'', JInt (rr_NextOffset r)), (''complete'', JBool (rr_Complete r)),
        (''media_type'', JStr (rr_MediaType r)), (''stored_bytes'', JInt (rr_StoredBytes r)),
        (''sha256'', JStr (rr_SHA256 r)), (''expires_at'', JStr (rr_ExpiresAt r))])"

text \<open>The response to a chunk and the lease after it, before the size of the response is checked.\<close>

definition chunkResponse :: "readLease \<Rightarrow> int \<Rightarrow> bytes \<Rightarrow> time \<Rightarrow> ReadResponse" where
  "chunkResponse lease offset chunk expiresAt =
     (let next = offset + int (length chunk); complete = (next = ar_Bytes (rd_artifact lease))
      in \<lparr>rr_Ref = ar_Ref (rd_artifact lease),
          rr_ContinuationRef = (if complete then [] else ''read:v1:'' @ rd_id lease),
          rr_Offset = offset, rr_DataBase64 = stdEncode chunk, rr_NextOffset = next, rr_Complete = complete,
          rr_MediaType = ar_MediaType (rd_artifact lease), rr_StoredBytes = ar_Bytes (rd_artifact lease),
          rr_SHA256 = ar_SHA256 (rd_artifact lease), rr_ExpiresAt = formatRFC3339Nano expiresAt\<rparr>)"

definition prepareLocked ::
  "time \<Rightarrow> snapshot_system \<Rightarrow> ReadLeaseLimits \<Rightarrow> readLease \<Rightarrow> string \<Rightarrow> int \<Rightarrow> int \<Rightarrow> (ReadResponse \<times> readLease) res" where
  "prepareLocked now s limits lease inputRef offset maxBytes =
     (case sys_readRange s (rd_object lease) offset maxBytes of
        None \<Rightarrow> Inl ErrArtifactReferenceStale
      | Some chunk \<Rightarrow>
        let next = offset + int (length chunk);
            complete = (next = ar_Bytes (rd_artifact lease));
            absolute = rd_created lease + rl_Absolute limits;
            idleUntil = (if complete then rd_idleUntil lease else now + rl_Idle limits);
            expiresAt = (if complete then minTime (now + rl_FinalReplay limits) absolute else minTime idleUntil absolute);
            response = chunkResponse lease offset chunk expiresAt;
            encoded = jsonText (responseJson response)
        in if int (length encoded) > BrokerResponseMaxBytes \<or> int (length encoded) > ReadReplayReservation
           then Inl ErrServiceQuota
           else Inr (response,
             lease\<lparr>rd_final := complete, rd_idleUntil := idleUntil, rd_expiresAt := expiresAt,
                   rd_replay := \<lparr>rp_inputRef = inputRef, rp_offset = offset, rp_maxBytes = maxBytes,
                                 rp_response = response, rp_encoded = encoded\<rparr>\<rparr>))"

section \<open>Reads\<close>

text \<open>An attempt that was seen before replays its response, or conflicts.\<close>

definition replayAttempt :: "ReadLeaseStore \<Rightarrow> ReadRequest \<Rightarrow> digest \<Rightarrow> ReadResponse res option" where
  "replayAttempt s request key =
     (case get (rs_attempts s) key of None \<Rightarrow> None
      | Some i \<Rightarrow>
        Some (case get (rs_reads s) i of
                None \<Rightarrow> Inl ErrContinuationConflict
              | Some lease \<Rightarrow>
                let p = rd_replay lease
                in if rp_inputRef p = rq_Ref request \<and> rp_offset p = rq_Offset request \<and> rp_maxBytes p = rq_MaxBytes request
                   then Inr (rp_response p) else Inl ErrContinuationConflict))"

definition readAttempt ::
  "(bytes \<Rightarrow> digest) \<Rightarrow> string \<Rightarrow> ReadRequest \<Rightarrow> time \<Rightarrow> service \<Rightarrow> ReadResponse res option \<times> service" where
  "readAttempt sha256 scope request now v =
     (if rq_CapabilityID request = [] \<or> int (length (rq_CapabilityID request)) > MaxCapabilityIDBytes \<or>
         \<not> attemptIDPattern (rq_AttemptID request)
      then (Some (Inl ErrReadRequestInvalid), v)
      else if \<not> hasPrefix (rq_Ref request) ''artifact:v1:'' then (Some (Inl ErrArtifactReferenceStale), v)
      else if rs_closed (sv_reads v) then (Some (Inl ErrServiceClosed), v)
      else let v' = read_sweepLocked now v
           in (replayAttempt (sv_reads v') request (readAttemptKey sha256 scope request), v'))"

text \<open>Looking the capability up, leasing the artifact and releasing the capability again.\<close>

definition readAcquire :: "ReadRequest \<Rightarrow> world \<Rightarrow> (Artifact \<times> nat) res \<times> world" where
  "readAcquire request w =
     (case Lookup (rq_CapabilityID request) w of
        Inl e \<Rightarrow> (Inl e, w)
      | Inr (w1, b) \<Rightarrow>
        (case Option.bind (leaseRecord b w1) (\<lambda>r. Record_acquireArtifact r (rq_Ref request) (w_sys w1)) of
           None \<Rightarrow> (Inl ErrArtifactReferenceStale, leaseRelease b w1)
         | Some (artifact, object, s) \<Rightarrow>
           let w2 = leaseRelease b (w1\<lparr>w_sys := s\<rparr>);
               w3 = w2\<lparr>w_sys := sys_release_lease object (w_sys w2)\<rparr>
           in if \<not> readableArtifactKind (ar_Kind artifact) then (Inl ErrArtifactReferenceStale, w3)
              else if rq_Offset request > ar_Bytes artifact then (Inl ErrReadRequestInvalid, w3)
              else (Inr (artifact, object), w2)))"

definition releaseObject :: "nat \<Rightarrow> service \<Rightarrow> service" where
  "releaseObject object v =
     v\<lparr>sv_world := (sv_world v)\<lparr>w_sys := sys_release_lease object (w_sys (sv_world v))\<rparr>\<rparr>"

definition readPublish ::
  "(bytes \<Rightarrow> digest) \<Rightarrow> string \<Rightarrow> ReadRequest \<Rightarrow> time \<Rightarrow> time \<Rightarrow> Artifact \<Rightarrow> nat \<Rightarrow> service \<Rightarrow> ReadResponse res \<times> service" where
  "readPublish sha256 scope request now now2 artifact object v =
     (if rs_closed (sv_reads v) then (Inl ErrServiceClosed, releaseObject object v)
      else let v1 = read_sweepLocked now v; s = sv_reads v1; limits = rs_limits s;
               key = readAttemptKey sha256 scope request
           in case replayAttempt s request key of
                Some r \<Rightarrow> (r, releaseObject object v1)
              | None \<Rightarrow>
                if int (length (rs_reads s)) \<ge> rl_MaxCount limits \<or>
                   rs_pinnedBytes s + ar_Bytes artifact > rl_MaxPinnedBytes limits \<or>
                   rs_replayBytes s + ReadReplayReservation > rl_MaxReplayBytes limits
                then (Inl ErrServiceQuota, releaseObject object v1)
                else let (drawn, rest) = drawID readHandleCollisionAttempts (\<lambda>i. get (rs_reads s) i \<noteq> None) (rs_random s);
                         v2 = v1\<lparr>sv_reads := s\<lparr>rs_random := rest\<rparr>\<rparr>
                     in case drawn of
                          Inl e \<Rightarrow> (Inl e, releaseObject object v2)
                        | Inr i \<Rightarrow>
                          let lease = \<lparr>rd_id = i, rd_scopeDigest = sha256 scope, rd_attemptKey = key,
                                rd_artifact = artifact, rd_object = object, rd_created = now,
                                rd_idleUntil = now + rl_Idle limits, rd_expiresAt = 0, rd_final = False,
                                rd_replay = \<lparr>rp_inputRef = [], rp_offset = 0, rp_maxBytes = 0,
                                  rp_response = \<lparr>rr_Ref = [], rr_ContinuationRef = [], rr_Offset = 0,
                                    rr_DataBase64 = [], rr_NextOffset = 0, rr_Complete = False, rr_MediaType = [],
                                    rr_StoredBytes = 0, rr_SHA256 = [], rr_ExpiresAt = []\<rparr>,
                                  rp_encoded = []\<rparr>\<rparr>
                          in case prepareLocked now2 (w_sys (sv_world v2)) limits lease
                                    (rq_Ref request) (rq_Offset request) (rq_MaxBytes request) of
                               Inl e \<Rightarrow> (Inl e, releaseObject object v2)
                             | Inr (response, lease') \<Rightarrow>
                               (Inr response,
                                v2\<lparr>sv_reads := (sv_reads v2)\<lparr>
                                   rs_reads := put i lease' (rs_reads s),
                                   rs_attempts := put key i (rs_attempts s),
                                   rs_pinnedBytes := rs_pinnedBytes s + ar_Bytes artifact,
                                   rs_replayBytes := rs_replayBytes s + ReadReplayReservation\<rparr>\<rparr>))"

definition readInitial ::
  "(bytes \<Rightarrow> digest) \<Rightarrow> string \<Rightarrow> ReadRequest \<Rightarrow> time \<times> time \<times> time \<Rightarrow> service \<Rightarrow> ReadResponse res \<times> service" where
  "readInitial sha256 scope request clock v =
     (case readAttempt sha256 scope request (fst clock) v of
        (Some r, v1) \<Rightarrow> (r, v1)
      | (None, v1) \<Rightarrow>
        (case readAcquire request (sv_world v1) of
           (Inl e, w) \<Rightarrow> (Inl e, v1\<lparr>sv_world := w\<rparr>)
         | (Inr (artifact, object), w) \<Rightarrow>
           readPublish sha256 scope request (fst (snd clock)) (snd (snd clock)) artifact object (v1\<lparr>sv_world := w\<rparr>)))"

definition readContinuation ::
  "(bytes \<Rightarrow> digest) \<Rightarrow> string \<Rightarrow> ReadRequest \<Rightarrow> time \<Rightarrow> time \<Rightarrow> service \<Rightarrow> ReadResponse res \<times> service" where
  "readContinuation sha256 scope request now now2 v =
     (if rq_CapabilityID request \<noteq> [] \<or> rq_AttemptID request \<noteq> [] then (Inl ErrReadRequestInvalid, v)
      else case parseReadHandle (rq_Ref request) of None \<Rightarrow> (Inl ErrContinuationInvalid, v)
      | Some i \<Rightarrow>
        if rs_closed (sv_reads v) then (Inl ErrServiceClosed, v)
        else let v1 = read_sweepLocked now v; s = sv_reads v1
             in case get (rs_reads s) i of None \<Rightarrow> (Inl ErrContinuationStale, v1)
                | Some lease \<Rightarrow>
                  let p = rd_replay lease
                  in if rd_scopeDigest lease \<noteq> sha256 scope then (Inl ErrContinuationStale, v1)
                     else if rq_Offset request = rp_offset p then
                       (if rp_inputRef p = rq_Ref request \<and> rp_maxBytes p = rq_MaxBytes request
                        then Inr (rp_response p) else Inl ErrContinuationConflict, v1)
                     else if rd_final lease \<or> rq_Offset request \<noteq> rr_NextOffset (rp_response p)
                     then (Inl ErrContinuationConflict, v1)
                     else case prepareLocked now2 (w_sys (sv_world v1)) (rs_limits s) lease
                                 (rq_Ref request) (rq_Offset request) (rq_MaxBytes request) of
                            Inl e \<Rightarrow> (Inl e, v1)
                          | Inr (response, lease') \<Rightarrow>
                            (Inr response, v1\<lparr>sv_reads := s\<lparr>rs_reads := put i lease' (rs_reads s)\<rparr>\<rparr>))"

definition Read ::
  "(bytes \<Rightarrow> digest) \<Rightarrow> string \<Rightarrow> ReadRequest \<Rightarrow> time \<times> time \<times> time \<Rightarrow> service \<Rightarrow> ReadResponse res \<times> service" where
  "Read sha256 scope request clock v =
     (case validateReadBounds scope request of Inl e \<Rightarrow> (Inl e, v)
      | Inr _ \<Rightarrow>
        if hasPrefix (rq_Ref request) ''read:''
        then readContinuation sha256 scope request (fst clock) (fst (snd clock)) v
        else readInitial sha256 scope request clock v)"

definition encodedReplay :: "string \<Rightarrow> service \<Rightarrow> string option" where
  "encodedReplay ref v =
     (case parseReadHandle ref of None \<Rightarrow> None
      | Some i \<Rightarrow> map_option (\<lambda>lease. rp_encoded (rd_replay lease)) (get (rs_reads (sv_reads v)) i))"

end
