(* ===== verification/Read_Inv.thy ===== *)
theory Read_Inv
  imports Read_Lease
begin

text \<open>
  The invariant of the read service.  \<open>table_inv\<close> is the bookkeeping of the lease store alone: byte
  counters, limits, and the pairing of attempts with leases.  \<open>leases_inv\<close> ties each lease to the bytes
  it pins in the snapshot store and each remembered response to those bytes.  \<open>svc_step\<close> interleaves
  the atomic parts of all reads with every step of the registry and the store; the artifacts that a
  read has acquired and not yet published are the second component of its state.
\<close>

section \<open>Runs of the store\<close>

lemma sys_run_inv: "(sys_step sha256)\<^sup>*\<^sup>* s s' \<Longrightarrow> sys_inv sha256 s \<Longrightarrow> sys_inv sha256 s'"
  by (induction rule: rtranclp_induct) (auto intro: sys_step_inv)

lemma sys_step_live_back:
  assumes "sys_step sha256 s s'" and "sys_live s' b" and "get (sys_leases s) b \<noteq> None"
  shows "sys_live s b"
  using sys_step_kept [OF assms(1)] assms(2,3) by (fastforce simp: sys_live_def split: option.splits)

lemma sys_live_get: "sys_live s b \<Longrightarrow> get (sys_leases s) b \<noteq> None"
  by (auto simp: sys_live_def split: option.splits)

lemma sys_run_live_back:
  assumes "(sys_step sha256)\<^sup>*\<^sup>* s s'" and "get (sys_leases s) b \<noteq> None" and "sys_live s' b"
  shows "sys_live s b"
  using assms
proof (induction rule: converse_rtranclp_induct)
  case (step x y)
  have "get (sys_leases y) b \<noteq> None" using sys_step_kept [OF step(1)] step(4) by fastforce
  then show ?case using step sys_step_live_back by blast
qed simp

lemma sys_run_keeps:
  assumes "(sys_step sha256)\<^sup>*\<^sup>* s s'" and "sys_live s b" and "sys_live s' b"
  shows "store_leases.keeps sha256 b s s'"
  using assms(1,3)
proof (induction rule: rtranclp_induct)
  case base
  then show ?case by (rule store_leases.keeps_refl)
next
  case (step y z)
  have "get (sys_leases y) b \<noteq> None"
    using step(1) assms(2)
  proof (induction rule: rtranclp_induct)
    case (step y z)
    then show ?case using sys_step_kept [OF step(2)] by fastforce
  qed (simp add: sys_live_get)
  then have "sys_live y b" using sys_step_live_back [OF step(2,4)] by blast
  then show ?case using step store_leases.keeps_step by blast
qed

lemma sys_run_content:
  assumes "(sys_step sha256)\<^sup>*\<^sup>* s s'" "sys_live s b" "sys_live s' b" "sys_inv sha256 s"
  shows "sys_content s' b = sys_content s b"
  using store_leases.keeps_content [OF sys_run_keeps [OF assms(1-3)] assms(4)] by simp

lemma release_snapshot_leases [simp]: "sys_leases (sys_release_snapshot a s) = sys_leases s"
  by (auto simp: sys_release_snapshot_def case_prod_beta split: option.splits)

text \<open>What the registry does to the store is a run of its steps, and only acquiring and releasing touch leases.\<close>

lemma reclaimLocked_sys:
  "(sys_step sha256)\<^sup>*\<^sup>* (w_sys w) (w_sys (reclaimLocked a w)) \<and> sys_leases (w_sys (reclaimLocked a w)) = sys_leases (w_sys w)"
  by (auto simp: reclaimLocked_def Record_release_def intro: step_release_snapshot split: option.splits)

lemma retireLocked_sys:
  "(sys_step sha256)\<^sup>*\<^sup>* (w_sys w) (w_sys (retireLocked a w)) \<and> sys_leases (w_sys (retireLocked a w)) = sys_leases (w_sys w)"
proof (cases "get (rg_gens (w_reg w)) a")
  case (Some g)
  have "(sys_step sha256)\<^sup>*\<^sup>* (w_sys w) (w_sys (reclaimLocked a (setGen a h w))) \<and>
      sys_leases (w_sys (reclaimLocked a (setGen a h w))) = sys_leases (w_sys w)" for h
    using reclaimLocked_sys [of sha256 "setGen a h w" a] by simp
  then show ?thesis using Some by (simp add: retireLocked_def Let_def)
qed (simp add: retireLocked_def)

lemma leaseRelease_sys:
  "(sys_step sha256)\<^sup>*\<^sup>* (w_sys w) (w_sys (leaseRelease b w)) \<and> sys_leases (w_sys (leaseRelease b w)) = sys_leases (w_sys w)"
proof (cases "get (w_leases w) b")
  case (Some l)
  let ?w = "w\<lparr>w_leases := put b (l\<lparr>ls_once := True\<rparr>) (w_leases w)\<rparr>"
  show ?thesis
  proof (cases "get (rg_gens (w_reg w)) (ls_generation l)")
    case g: (Some g)
    have "(sys_step sha256)\<^sup>*\<^sup>* (w_sys w) (w_sys (reclaimLocked a (setGen a h ?w))) \<and>
        sys_leases (w_sys (reclaimLocked a (setGen a h ?w))) = sys_leases (w_sys w)" for a h
      using reclaimLocked_sys [of sha256 "setGen a h ?w" a] by simp
    then show ?thesis using Some g by (simp add: leaseRelease_def releaseGeneration_def Let_def)
  qed (use Some in \<open>simp add: leaseRelease_def releaseGeneration_def\<close>)
qed (simp add: leaseRelease_def)

lemma fold_retireLocked_sys:
  "(sys_step sha256)\<^sup>*\<^sup>* (w_sys w) (w_sys (fold retireLocked as w))"
proof (induction as arbitrary: w)
  case (Cons a as)
  then show ?case using retireLocked_sys [of sha256 w a] by (auto intro: rtranclp_trans)
qed simp

lemma leased_sys: "leased cid iv w w' b \<Longrightarrow> w_sys w' = w_sys w"
  using newLease_frame(6) by (auto simp: leased_def)

lemma reg_step_sys:
  assumes "reg_step sha256 w w'" shows "(sys_step sha256)\<^sup>*\<^sup>* (w_sys w) (w_sys w')"
  using assms
proof cases
  case (step_Add x)
  then show ?thesis by (auto simp: Add_def res_simps split: if_splits)
next
  case (step_Reinstall x)
  then obtain cur w1 where "w_sys w' = w_sys (retireLocked cur w1)" "w_sys w1 = w_sys w"
    by (auto simp: Reinstall_def Let_def split: if_splits option.splits)
  then show ?thesis using retireLocked_sys by metis
next
  case (step_Uninstall cid)
  then obtain cur w1 where "w_sys w' = w_sys (retireLocked cur w1)" "w_sys w1 = w_sys w"
    by (auto simp: Uninstall_def Let_def split: if_splits option.splits)
  then show ?thesis using retireLocked_sys by metis
next
  case (step_Lookup cid b)
  then show ?thesis by (simp add: Lookup_leased leased_sys)
next
  case (step_ResolveOperation cid oid b)
  then show ?thesis using ResolveOperation_leased leased_sys by (metis rtranclp.rtrancl_refl)
next
  case (step_ResolveToolPath p b)
  then show ?thesis using ResolveToolPath_leased ResolveOperation_leased leased_sys by (metis rtranclp.rtrancl_refl)
next
  case (step_Release b)
  then show ?thesis using leaseRelease_sys by blast
next
  case step_Close
  have "(sys_step sha256)\<^sup>*\<^sup>* (w_sys w) (w_sys (fold retireLocked as (w\<lparr>w_reg := r\<rparr>)))" for as r
    using fold_retireLocked_sys [of sha256 "w\<lparr>w_reg := r\<rparr>" as] by simp
  then show ?thesis using step_Close by (simp add: Close_def closeLocked_def Let_def)
next
  case (step_store s')
  then show ?thesis by auto
qed

section \<open>The invariant\<close>

definition table_inv :: "ReadLeaseStore \<Rightarrow> bool" where
  "table_inv s \<longleftrightarrow>
     keys_ok (rs_reads s) \<and> keys_ok (rs_attempts s) \<and> validateReadLeaseLimits (rs_limits s) = Inr () \<and>
     (rs_closed s \<longrightarrow> rs_reads s = []) \<and>
     rs_pinnedBytes s = msum (\<lambda>l. ar_Bytes (rd_artifact l)) (rs_reads s) \<and>
     rs_replayBytes s = ReadReplayReservation * int (length (rs_reads s)) \<and>
     int (length (rs_reads s)) \<le> rl_MaxCount (rs_limits s) \<and>
     rs_pinnedBytes s \<le> rl_MaxPinnedBytes (rs_limits s) \<and> rs_replayBytes s \<le> rl_MaxReplayBytes (rs_limits s) \<and>
     (\<forall>i l. get (rs_reads s) i = Some l \<longrightarrow>
        rd_id l = i \<and> get (rs_attempts s) (rd_attemptKey l) = Some i \<and> 0 \<le> ar_Bytes (rd_artifact l)) \<and>
     (\<forall>k i. get (rs_attempts s) k = Some i \<longrightarrow> (\<exists>l. get (rs_reads s) i = Some l \<and> rd_attemptKey l = k))"

text \<open>The lease on an object of the store holds the bytes that the artifact advertises.\<close>

definition obj_ok :: "(bytes \<Rightarrow> digest) \<Rightarrow> snapshot_system \<Rightarrow> Artifact \<Rightarrow> nat \<Rightarrow> bool" where
  "obj_ok sha256 s a ob \<longleftrightarrow>
     sys_live s ob \<and> int (length (sys_content s ob)) = ar_Bytes a \<and> hexEncode (sha256 (sys_content s ob)) = ar_SHA256 a"

definition chunk_of :: "bytes \<Rightarrow> int \<Rightarrow> int \<Rightarrow> bytes" where
  "chunk_of c off mx = take (nat mx) (drop (nat off) c)"

definition replay_ok :: "ReadLeaseLimits \<Rightarrow> bytes \<Rightarrow> readLease \<Rightarrow> bool" where
  "replay_ok limits c l \<longleftrightarrow>
     (let p = rd_replay l
      in 0 \<le> rp_offset p \<and> rp_offset p \<le> int (length c) \<and> 0 < rp_maxBytes p \<and>
         rp_response p = chunkResponse l (rp_offset p) (chunk_of c (rp_offset p) (rp_maxBytes p)) (rd_expiresAt l) \<and>
         rd_final l = rr_Complete (rp_response p) \<and>
         rp_encoded p = jsonText (responseJson (rp_response p)) \<and>
         int (length (rp_encoded p)) \<le> ReadReplayReservation \<and>
         rd_expiresAt l \<le> rd_created l + rl_Absolute limits)"

type_synonym pending = "(nat, Artifact) gomap"

definition leases_inv :: "(bytes \<Rightarrow> digest) \<Rightarrow> ReadLeaseLimits \<Rightarrow> (string, readLease) gomap \<Rightarrow> pending \<Rightarrow> snapshot_system \<Rightarrow> bool" where
  "leases_inv sha256 limits reads P s \<longleftrightarrow>
     (\<forall>i l. get reads i = Some l \<longrightarrow>
        obj_ok sha256 s (rd_artifact l) (rd_object l) \<and> replay_ok limits (sys_content s (rd_object l)) l \<and>
        get P (rd_object l) = None) \<and>
     (\<forall>i l i' l'. get reads i = Some l \<longrightarrow> get reads i' = Some l' \<longrightarrow> rd_object l = rd_object l' \<longrightarrow> i = i') \<and>
     (\<forall>ob a. get P ob = Some a \<longrightarrow> obj_ok sha256 s a ob)"

definition svc_inv :: "(bytes \<Rightarrow> digest) \<Rightarrow> service \<Rightarrow> pending \<Rightarrow> bool" where
  "svc_inv sha256 v P \<longleftrightarrow>
     reg_inv sha256 (sv_world v) \<and> table_inv (sv_reads v) \<and>
     leases_inv sha256 (rs_limits (sv_reads v)) (rs_reads (sv_reads v)) P (w_sys (sv_world v))"

definition objects_live :: "service \<Rightarrow> pending \<Rightarrow> snapshot_system \<Rightarrow> bool" where
  "objects_live v P s' =
     (list_all (\<lambda>(i, l). sys_live s' (rd_object l)) (rs_reads (sv_reads v)) \<and> list_all (\<lambda>(ob, a). sys_live s' ob) P)"

lemma objects_liveD:
  "objects_live v P s' \<Longrightarrow> get (rs_reads (sv_reads v)) i = Some l \<Longrightarrow> sys_live s' (rd_object l)"
  "objects_live v P s' \<Longrightarrow> get P ob = Some a \<Longrightarrow> sys_live s' ob"
  by (auto simp: objects_live_def list_all_iff dest: map_of_SomeD)

lemma reg_inv_sys: "reg_inv sha256 w \<Longrightarrow> sys_inv sha256 (w_sys w)"
  by (simp add: reg_inv_def gens_inv_def)

section \<open>Steps of the world below\<close>

lemma obj_ok_run:
  assumes "(sys_step sha256)\<^sup>*\<^sup>* s s'" "sys_inv sha256 s" "obj_ok sha256 s a ob" "sys_live s' ob"
  shows "obj_ok sha256 s' a ob" and "sys_content s' ob = sys_content s ob"
  using sys_run_content [OF assms(1) _ assms(4,2)] assms(3,4) by (simp_all add: obj_ok_def)

lemma leases_inv_run:
  assumes inv: "leases_inv sha256 limits reads P s" and run: "(sys_step sha256)\<^sup>*\<^sup>* s s'" and sys: "sys_inv sha256 s"
    and "\<And>i l. get reads i = Some l \<Longrightarrow> sys_live s' (rd_object l)" and "\<And>ob a. get P ob = Some a \<Longrightarrow> sys_live s' ob"
  shows "leases_inv sha256 limits reads P s'"
  unfolding leases_inv_def
proof (intro conjI allI impI)
  fix i l assume l: "get reads i = Some l"
  have ob: "obj_ok sha256 s (rd_artifact l) (rd_object l)" "replay_ok limits (sys_content s (rd_object l)) l"
    and P: "get P (rd_object l) = None"
    using inv l unfolding leases_inv_def by blast+
  note run' = obj_ok_run [OF run sys ob(1) assms(4) [OF l]]
  show "obj_ok sha256 s' (rd_artifact l) (rd_object l)" by (rule run'(1))
  show "replay_ok limits (sys_content s' (rd_object l)) l" unfolding run'(2) by (rule ob(2))
  show "get P (rd_object l) = None" by (rule P)
next
  fix i l i' l' assume "get reads i = Some l" "get reads i' = Some l'" "rd_object l = rd_object l'"
  then show "i = i'" using inv unfolding leases_inv_def by blast
next
  fix ob a assume P: "get P ob = Some a"
  then have "obj_ok sha256 s a ob" using inv unfolding leases_inv_def by blast
  then show "obj_ok sha256 s' a ob" by (rule obj_ok_run(1) [OF run sys _ assms(5) [OF P]])
qed

lemma svc_inv_world:
  assumes inv: "svc_inv sha256 v P" and reg: "reg_inv sha256 w'"
    and run: "(sys_step sha256)\<^sup>*\<^sup>* (w_sys (sv_world v)) (w_sys w')" and live: "objects_live v P (w_sys w')"
  shows "svc_inv sha256 (v\<lparr>sv_world := w'\<rparr>) P"
proof -
  have "sys_inv sha256 (w_sys (sv_world v))" using inv reg_inv_sys by (auto simp: svc_inv_def)
  then have "leases_inv sha256 (rs_limits (sv_reads v)) (rs_reads (sv_reads v)) P (w_sys w')"
    using inv by (intro leases_inv_run [OF _ run _ objects_liveD(1) [OF live] objects_liveD(2) [OF live]])
      (simp_all add: svc_inv_def)
  then show ?thesis using inv reg by (simp add: svc_inv_def)
qed

lemma svc_inv_objects_live: "svc_inv sha256 v P \<Longrightarrow> keys_ok P \<Longrightarrow> objects_live v P (w_sys (sv_world v))"
  by (auto simp: svc_inv_def leases_inv_def objects_live_def list_all_iff table_inv_def keys_ok_get obj_ok_def)

section \<open>Dropping leases\<close>

lemma release_lease_live:
  "sys_live (sys_release_lease ob s) b \<longleftrightarrow> sys_live s b \<and> b \<noteq> ob"
  by (auto simp: sys_live_def sys_release_lease_def lease_release_def gomap_simps case_prod_beta split: option.splits)

lemma release_lease_reg_inv:
  assumes "reg_inv sha256 w" shows "reg_inv sha256 (w\<lparr>w_sys := sys_release_lease ob (w_sys w)\<rparr>)"
proof (rule sys_step_reg_inv [OF assms step_release_lease])
  fix a g sid
  assume g: "get (rg_gens (w_reg w)) a = Some g" "0 < gn_refs g" "rc_snapshot (gn_record g) = Some sid"
  have "record_backed (w_sys w) (gn_record g)" using assms g by (auto simp: reg_inv_def intro: gens_invD(5))
  then have "snapshot_live (w_sys w) sid" using g(3) record_backed_live by fastforce
  then show "snapshot_live (sys_release_lease ob (w_sys w)) sid"
    by (auto simp: snapshot_live_def sys_release_lease_def case_prod_beta split: option.splits)
qed

lemma length_del:
  assumes "keys_ok m" and "get m k = Some v" shows "int (length (del k m)) = int (length m) - 1"
proof -
  have "int (length m') = msum (\<lambda>_. 1) m'" for m' :: "('a, 'b) gomap" by (induction m') (auto simp: msum_def)
  then show ?thesis using assms by (simp add: msum_del)
qed

lemma table_inv_drop:
  assumes inv: "table_inv s" and l: "get (rs_reads s) i = Some l"
  shows "table_inv (s\<lparr>rs_reads := del i (rs_reads s), rs_attempts := del (rd_attemptKey l) (rs_attempts s),
    rs_pinnedBytes := rs_pinnedBytes s - ar_Bytes (rd_artifact l), rs_replayBytes := rs_replayBytes s - ReadReplayReservation\<rparr>)"
proof -
  have k: "keys_ok (rs_reads s)" using inv by (simp add: table_inv_def)
  have b: "0 \<le> ar_Bytes (rd_artifact l)" using inv l by (simp add: table_inv_def)
  have le: "rs_pinnedBytes s - ar_Bytes (rd_artifact l) \<le> rl_MaxPinnedBytes (rs_limits s)"
    using inv b by (simp add: table_inv_def)
  have n: "int (length (del i (rs_reads s))) = int (length (rs_reads s)) - 1" by (rule length_del [OF k l])
  have key: "rd_attemptKey l' \<noteq> rd_attemptKey l" if "get (rs_reads s) i' = Some l'" "i' \<noteq> i" for i' l'
    using inv l that unfolding table_inv_def by (metis option.inject)
  have rev: "\<exists>l'. get (rs_reads s) j = Some l' \<and> rd_attemptKey l' = k' \<and> j \<noteq> i"
    if "get (rs_attempts s) k' = Some j" "k' \<noteq> rd_attemptKey l" for k' j
    using inv l that unfolding table_inv_def by (metis option.inject)
  show ?thesis
    using inv k l n le key rev unfolding table_inv_def
    by (auto simp: gomap_simps msum_del service_limit_defs right_diff_distrib)
qed

lemma leases_inv_drop:
  assumes "leases_inv sha256 limits reads P s" "get reads i = Some l" "sys_inv sha256 s"
  shows "leases_inv sha256 limits (del i reads) P (sys_release_lease (rd_object l) s)"
proof (rule leases_inv_run)
  show "leases_inv sha256 limits (del i reads) P s"
    using assms(1) unfolding leases_inv_def by (auto simp: get_del split: if_splits)
  show "(sys_step sha256)\<^sup>*\<^sup>* s (sys_release_lease (rd_object l) s)" using step_release_lease by blast
  show "sys_live (sys_release_lease (rd_object l) s) (rd_object l')" if "get (del i reads) j = Some l'" for j l'
    using assms(1,2) that unfolding leases_inv_def obj_ok_def release_lease_live get_del by (metis option.distinct(1))
  show "sys_live (sys_release_lease (rd_object l) s) ob" if "get P ob = Some a" for ob a
    using assms(1,2) that unfolding leases_inv_def obj_ok_def release_lease_live by (metis option.distinct(1))
qed fact

lemma dropLocked_inv:
  assumes inv: "svc_inv sha256 v P" and l: "get (rs_reads (sv_reads v)) i = Some l"
  shows "svc_inv sha256 (dropLocked i l v) P"
proof -
  have "leases_inv sha256 (rs_limits (sv_reads v)) (del i (rs_reads (sv_reads v))) P
      (sys_release_lease (rd_object l) (w_sys (sv_world v)))"
    using inv l reg_inv_sys by (intro leases_inv_drop) (auto simp: svc_inv_def)
  moreover have "table_inv (sv_reads (dropLocked i l v))"
    using inv l table_inv_drop by (simp add: svc_inv_def dropLocked_def)
  ultimately show ?thesis
    using inv release_lease_reg_inv by (simp add: svc_inv_def dropLocked_def)
qed

lemma dropAll_inv:
  assumes "svc_inv sha256 v P" and "\<And>i l. (i, l) \<in> set ls \<Longrightarrow> get (rs_reads (sv_reads v)) i = Some l" and "distinct (map fst ls)"
  shows "svc_inv sha256 (dropAll ls v) P \<and>
    (\<forall>i. get (rs_reads (sv_reads (dropAll ls v))) i = (if i \<in> fst ` set ls then None else get (rs_reads (sv_reads v)) i))"
  using assms
proof (induction ls arbitrary: v)
  case (Cons p ls)
  obtain i l where p: "p = (i, l)" by force
  have l: "get (rs_reads (sv_reads v)) i = Some l" using Cons.prems(2) p by simp
  have g: "get (rs_reads (sv_reads (dropLocked i l v))) j = (if j = i then None else get (rs_reads (sv_reads v)) j)" for j
    by (simp add: dropLocked_def get_del)
  have "svc_inv sha256 (dropLocked i l v) P" using dropLocked_inv Cons.prems(1) l .
  moreover have "get (rs_reads (sv_reads (dropLocked i l v))) j = Some k" if "(j, k) \<in> set ls" for j k
    using that Cons.prems(2,3) p g [of j] by (force simp: image_iff)
  ultimately show ?case using Cons.IH [of "dropLocked i l v"] Cons.prems(3) p g by (auto simp: dropAll_def)
qed (simp add: dropAll_def)

lemma sweep_inv:
  assumes "svc_inv sha256 v P"
  shows "svc_inv sha256 (read_sweepLocked now v) P \<and>
    (\<forall>i. get (rs_reads (sv_reads (read_sweepLocked now v))) i =
       (case get (rs_reads (sv_reads v)) i of None \<Rightarrow> None | Some l \<Rightarrow> if read_expired now l then None else Some l))"
proof -
  let ?ls = "filter (\<lambda>(i, l). read_expired now l) (rs_reads (sv_reads v))"
  have k: "keys_ok (rs_reads (sv_reads v))" using assms by (simp add: svc_inv_def table_inv_def)
  have d: "svc_inv sha256 (dropAll ?ls v) P \<and>
    (\<forall>i. get (rs_reads (sv_reads (dropAll ?ls v))) i = (if i \<in> fst ` set ?ls then None else get (rs_reads (sv_reads v)) i))"
    using assms
  proof (rule dropAll_inv)
    show "get (rs_reads (sv_reads v)) i = Some l" if "(i, l) \<in> set ?ls" for i l
      using that k by (simp add: keys_ok_get)
    show "distinct (map fst ?ls)" using k by (simp add: keys_ok_def distinct_map_filter)
  qed
  moreover have "i \<in> fst ` set ?ls \<longleftrightarrow> (\<exists>l. get (rs_reads (sv_reads v)) i = Some l \<and> read_expired now l)" for i
    using k by (force simp: keys_ok_get)
  ultimately show ?thesis by (auto simp: read_sweepLocked_def split: option.splits)
qed

section \<open>Acquiring and publishing\<close>

lemma acquire_obj_ok:
  assumes inv: "sys_inv sha256 s" and acq: "Record_acquireArtifact r ref s = Some (a, ob, s')"
  shows "obj_ok sha256 s' a ob" and "sys_step sha256 s s'" and "get (sys_leases s) ob = None"
    and "\<And>c. sys_live s c \<Longrightarrow> sys_live s' c" and "sys_snaps s' = sys_snaps s"
proof -
  obtain sid where q: "sys_acquire sid (ar_Path a) (ar_Bytes a) (ar_SHA256 a) s = Some (s', ob)"
    using acq by (auto simp: Record_acquireArtifact_def split: option.splits)
  show st: "sys_step sha256 s s'" using q by (rule step_acquire)
  have inv': "sys_inv sha256 s'" using st inv by (rule sys_step_inv)
  obtain sn st' l where l: "acquireArtifact (sys_store s) sn (ar_Path a) (ar_Bytes a) (ar_SHA256 a) = Some (st', l)"
    "ob = fresh (sys_leases s)" "s' = s\<lparr>sys_store := st', sys_leases := put ob l (sys_leases s)\<rparr>"
    using q by (auto simp: sys_acquire_def Let_def split: option.splits)
  show "sys_snaps s' = sys_snaps s" by (simp add: l(3))
  show none: "get (sys_leases s) ob = None" using l(2) by (simp add: get_fresh)
  show "sys_live s' c" if "sys_live s c" for c
    using that none by (auto simp: sys_live_def l(3) gomap_simps split: option.splits)
  obtain d obj where d: "al_digest l = d" "\<not> al_once l" "get (st_objects (sys_store s)) d = Some obj"
    "int (length (ob_data obj)) = ar_Bytes a" "hexEncode d = ar_SHA256 a"
    using l(1) by (auto simp: acquireArtifact_def Let_def split: option.splits if_splits)
  have live: "sys_live s' ob" using d(2) by (simp add: sys_live_def l(3) gomap_simps)
  obtain l' obj' where l': "get (sys_leases s') ob = Some l'" "get (st_objects (sys_store s')) (al_digest l') = Some obj'"
    "sha256 (ob_data obj') = al_digest l'" "sys_content s' ob = ob_data obj'"
    using sys_live_object [OF inv' live] .
  then have "l' = l" by (simp add: l(3) gomap_simps)
  then have "ob_data obj' = ob_data obj"
    using sys_step_kept [OF st] l'(2) d(1,3) by (auto simp: data_kept_def object_data_def)
  then show "obj_ok sha256 s' a ob" using live l' d \<open>l' = l\<close> by (simp add: obj_ok_def)
qed

text \<open>The parts of \<^verbatim>\<open>readInitial\<close> between its two critical sections.\<close>

lemma acquire_reg_inv:
  assumes inv: "reg_inv sha256 w" and acq: "Record_acquireArtifact r ref (w_sys w) = Some (a, ob, s)"
  shows "reg_inv sha256 (w\<lparr>w_sys := s\<rparr>)"
proof (rule sys_step_reg_inv [OF inv acquire_obj_ok(2) [OF reg_inv_sys [OF inv] acq]])
  fix g' g sid
  assume g: "get (rg_gens (w_reg w)) g' = Some g" "0 < gn_refs g" "rc_snapshot (gn_record g) = Some sid"
  have "record_backed (w_sys w) (gn_record g)" using inv g by (auto simp: reg_inv_def intro: gens_invD(5))
  then show "snapshot_live s sid"
    using g(3) record_backed_live acquire_obj_ok(5) [OF reg_inv_sys [OF inv] acq] by (fastforce simp: snapshot_live_def)
qed

definition world_kept :: "(bytes \<Rightarrow> digest) \<Rightarrow> world \<Rightarrow> world \<Rightarrow> bool" where
  "world_kept sha256 w w' \<longleftrightarrow>
     reg_inv sha256 w' \<and> (sys_step sha256)\<^sup>*\<^sup>* (w_sys w) (w_sys w') \<and> (\<forall>c. sys_live (w_sys w) c \<longrightarrow> sys_live (w_sys w') c)"

lemma leaseRelease_kept:
  assumes "world_kept sha256 w w1" shows "world_kept sha256 w (leaseRelease b w1)"
  using assms leaseRelease_sys [of sha256 w1 b] leaseRelease_reg_inv [of sha256 w1 b]
  by (auto simp: world_kept_def sys_live_def intro: rtranclp_trans)

lemma readAcquire_kept:
  assumes acq: "readAcquire request w = (r, w')" and inv: "reg_inv sha256 w"
  shows "world_kept sha256 w w' \<and>
    (case r of Inl e \<Rightarrow> True
     | Inr (a, ob) \<Rightarrow> obj_ok sha256 (w_sys w') a ob \<and> get (sys_leases (w_sys w)) ob = None \<and>
         readableArtifactKind (ar_Kind a) \<and> rq_Offset request \<le> ar_Bytes a)"
proof (cases "Lookup (rq_CapabilityID request) w")
  case (Inl e)
  then show ?thesis using acq inv by (auto simp: readAcquire_def world_kept_def)
next
  case (Inr p)
  obtain w1 b where p: "p = (w1, b)" by force
  then have l: "leased (rq_CapabilityID request) None w w1 b" using Inr by (simp add: Lookup_leased)
  have inv1: "reg_inv sha256 w1" and sys1: "w_sys w1 = w_sys w" using leased_inv [OF inv l] leased_sys [OF l] .
  then have k1: "world_kept sha256 w w1" by (simp add: world_kept_def)
  show ?thesis
  proof (cases "Option.bind (leaseRecord b w1) (\<lambda>r. Record_acquireArtifact r (rq_Ref request) (w_sys w1))")
    case None
    then show ?thesis using acq Inr p leaseRelease_kept [OF k1] by (auto simp: readAcquire_def)
  next
    case (Some q)
    obtain a ob s where q: "q = (a, ob, s)" by (metis prod_cases3)
    then obtain r0 where r0: "Record_acquireArtifact r0 (rq_Ref request) (w_sys w1) = Some (a, ob, s)"
      using Some by (auto simp: bind_eq_Some_conv)
    note o = acquire_obj_ok [OF reg_inv_sys [OF inv1] r0]
    let ?w2 = "leaseRelease b (w1\<lparr>w_sys := s\<rparr>)"
    let ?w3 = "?w2\<lparr>w_sys := sys_release_lease ob (w_sys ?w2)\<rparr>"
    have "world_kept sha256 w (w1\<lparr>w_sys := s\<rparr>)"
      using acquire_reg_inv [OF inv1 r0] o(2,4) sys1 by (auto simp: world_kept_def)
    then have k2: "world_kept sha256 w ?w2" by (rule leaseRelease_kept)
    have ob2: "obj_ok sha256 (w_sys ?w2) a ob"
    proof (rule obj_ok_run(1))
      show "(sys_step sha256)\<^sup>*\<^sup>* s (w_sys ?w2)" using leaseRelease_sys [of sha256 "w1\<lparr>w_sys := s\<rparr>" b] by simp
      show "sys_inv sha256 s" using o(2) reg_inv_sys [OF inv1] by (rule sys_step_inv)
      show "obj_ok sha256 s a ob" by (rule o(1))
      then show "sys_live (w_sys ?w2) ob"
        using leaseRelease_sys [of sha256 "w1\<lparr>w_sys := s\<rparr>" b] by (simp add: obj_ok_def sys_live_def)
    qed
    have none: "get (sys_leases (w_sys w)) ob = None" using o(3) sys1 by simp
    then have "sys_live (w_sys w) c \<Longrightarrow> c \<noteq> ob" for c using sys_live_get by blast
    then have k3: "world_kept sha256 w ?w3"
      using k2 release_lease_reg_inv [of sha256 ?w2 ob] step_release_lease [of sha256 "w_sys ?w2" ob]
      by (auto simp: world_kept_def release_lease_live intro: rtranclp.rtrancl_into_rtrancl)
    show ?thesis
      using acq Inr p Some q k2 k3 ob2 none by (auto simp: readAcquire_def Let_def split: if_splits)
  qed
qed

lemma chunkResponse_cong:
  "rd_artifact l' = rd_artifact l \<Longrightarrow> rd_id l' = rd_id l \<Longrightarrow> chunkResponse l' off c e = chunkResponse l off c e"
  by (simp add: chunkResponse_def Let_def)

lemma chunkResponse_simps [simp]:
  "rr_Offset (chunkResponse l off c e) = off" "rr_DataBase64 (chunkResponse l off c e) = stdEncode c"
  "rr_NextOffset (chunkResponse l off c e) = off + int (length c)"
  "rr_Complete (chunkResponse l off c e) = (off + int (length c) = ar_Bytes (rd_artifact l))"
  "rr_StoredBytes (chunkResponse l off c e) = ar_Bytes (rd_artifact l)"
  "rr_SHA256 (chunkResponse l off c e) = ar_SHA256 (rd_artifact l)"
  "rr_Ref (chunkResponse l off c e) = ar_Ref (rd_artifact l)"
  "rr_ExpiresAt (chunkResponse l off c e) = formatRFC3339Nano e"
  "rr_ContinuationRef (chunkResponse l off c e) =
     (if off + int (length c) = ar_Bytes (rd_artifact l) then [] else ''read:v1:'' @ rd_id l)"
  by (simp_all add: chunkResponse_def Let_def)

definition same_lease :: "readLease \<Rightarrow> readLease \<Rightarrow> bool" where
  "same_lease l l' \<longleftrightarrow>
     rd_id l' = rd_id l \<and> rd_scopeDigest l' = rd_scopeDigest l \<and> rd_attemptKey l' = rd_attemptKey l \<and>
     rd_artifact l' = rd_artifact l \<and> rd_object l' = rd_object l \<and> rd_created l' = rd_created l"

lemma prepareLocked_spec:
  assumes sys: "sys_inv sha256 s" and ob: "obj_ok sha256 s (rd_artifact l) (rd_object l)"
    and b: "0 \<le> off" "off \<le> ar_Bytes (rd_artifact l)" "0 < mx" "mx \<le> max_int64"
  defines "c \<equiv> sys_content s (rd_object l)"
  shows "prepareLocked now s limits l ref off mx = Inl ErrServiceQuota \<or>
    (\<exists>resp l'. prepareLocked now s limits l ref off mx = Inr (resp, l') \<and> same_lease l l' \<and> replay_ok limits c l' \<and>
       resp = chunkResponse l off (chunk_of c off mx) (rd_expiresAt l') \<and>
       rd_replay l' = \<lparr>rp_inputRef = ref, rp_offset = off, rp_maxBytes = mx, rp_response = resp,
                       rp_encoded = jsonText (responseJson resp)\<rparr>)"
proof -
  have len: "int (length c) = ar_Bytes (rd_artifact l)" and live: "sys_live s (rd_object l)"
    using ob by (simp_all add: obj_ok_def c_def)
  have rd: "sys_readRange s (rd_object l) off mx = Some (chunk_of c off mx)"
    using store_leases.read_spec [OF sys live] b len by (simp add: chunk_of_def c_def)
  let ?complete = "off + int (length (chunk_of c off mx)) = ar_Bytes (rd_artifact l)"
  let ?absolute = "rd_created l + rl_Absolute limits"
  let ?idle = "if ?complete then rd_idleUntil l else now + rl_Idle limits"
  let ?exp = "if ?complete then min (now + rl_FinalReplay limits) ?absolute else min ?idle ?absolute"
  let ?resp = "chunkResponse l off (chunk_of c off mx) ?exp"
  let ?l = "l\<lparr>rd_final := ?complete, rd_idleUntil := ?idle, rd_expiresAt := ?exp,
    rd_replay := \<lparr>rp_inputRef = ref, rp_offset = off, rp_maxBytes = mx, rp_response = ?resp,
      rp_encoded = jsonText (responseJson ?resp)\<rparr>\<rparr>"
  let ?big = "int (length (jsonText (responseJson ?resp))) > BrokerResponseMaxBytes \<or>
    int (length (jsonText (responseJson ?resp))) > ReadReplayReservation"
  have eq: "prepareLocked now s limits l ref off mx = (if ?big then Inl ErrServiceQuota else Inr (?resp, ?l))"
    by (simp only: prepareLocked_def rd option.case Let_def minTime_eq_min)
  show ?thesis
  proof (cases ?big)
    case False
    have "same_lease l ?l" by (simp add: same_lease_def)
    moreover have "?resp = chunkResponse ?l off (chunk_of c off mx) ?exp" by (rule chunkResponse_cong) simp_all
    then have "replay_ok limits c ?l"
      using b(1-3) len False by (simp add: replay_ok_def Let_def del: if_split)
    ultimately show ?thesis unfolding eq using False by (intro disjI2 exI [of _ ?resp] exI [of _ ?l]) simp
  qed (simp add: eq)
qed

lemma releaseObject_inv:
  assumes inv: "svc_inv sha256 v P" and P: "get P ob = Some a"
  shows "svc_inv sha256 (releaseObject ob v) (del ob P)"
proof -
  let ?s = "w_sys (sv_world v)"
  have l: "leases_inv sha256 (rs_limits (sv_reads v)) (rs_reads (sv_reads v)) P ?s"
    and sys: "sys_inv sha256 ?s" using inv reg_inv_sys by (auto simp: svc_inv_def)
  have "leases_inv sha256 (rs_limits (sv_reads v)) (rs_reads (sv_reads v)) (del ob P) (sys_release_lease ob ?s)"
  proof (rule leases_inv_run)
    show "leases_inv sha256 (rs_limits (sv_reads v)) (rs_reads (sv_reads v)) (del ob P) ?s"
      using l unfolding leases_inv_def by (simp add: get_del)
    show "(sys_step sha256)\<^sup>*\<^sup>* ?s (sys_release_lease ob ?s)" using step_release_lease by blast
    show "sys_live (sys_release_lease ob ?s) (rd_object l')" if "get (rs_reads (sv_reads v)) j = Some l'" for j l'
      using l P that unfolding leases_inv_def obj_ok_def release_lease_live by (metis option.distinct(1))
    show "sys_live (sys_release_lease ob ?s) c" if "get (del ob P) c = Some a'" for c a'
      using l that unfolding leases_inv_def obj_ok_def release_lease_live get_del by (metis option.distinct(1))
  qed (rule sys)
  then show ?thesis using inv release_lease_reg_inv by (simp add: svc_inv_def releaseObject_def)
qed

lemma length_put:
  assumes "keys_ok m" and "get m k = None" shows "int (length (put k v m)) = int (length m) + 1"
proof -
  have "int (length m') = msum (\<lambda>_. 1) m'" for m' :: "('a, 'b) gomap" by (induction m') (auto simp: msum_def)
  then show ?thesis using assms by (simp add: msum_put)
qed

lemma table_inv_publish:
  assumes inv: "table_inv s" and new: "get (rs_reads s) i = None" "get (rs_attempts s) (rd_attemptKey l) = None"
    and l: "rd_id l = i" "0 \<le> ar_Bytes (rd_artifact l)" and opened: "\<not> rs_closed s"
    and fit: "int (length (rs_reads s)) < rl_MaxCount (rs_limits s)"
      "rs_pinnedBytes s + ar_Bytes (rd_artifact l) \<le> rl_MaxPinnedBytes (rs_limits s)"
      "rs_replayBytes s + ReadReplayReservation \<le> rl_MaxReplayBytes (rs_limits s)"
  shows "table_inv (s\<lparr>rs_reads := put i l (rs_reads s), rs_attempts := put (rd_attemptKey l) i (rs_attempts s),
    rs_pinnedBytes := rs_pinnedBytes s + ar_Bytes (rd_artifact l), rs_replayBytes := rs_replayBytes s + ReadReplayReservation\<rparr>)"
proof -
  have k: "keys_ok (rs_reads s)" using inv by (simp add: table_inv_def)
  have n: "int (length (put i l (rs_reads s))) = int (length (rs_reads s)) + 1" by (rule length_put [OF k new(1)])
  have key: "rd_attemptKey l' \<noteq> rd_attemptKey l" if "get (rs_reads s) i' = Some l'" for i' l'
    using inv new(2) that unfolding table_inv_def by (metis option.distinct(1))
  have rev: "\<exists>l'. get (rs_reads s) j = Some l' \<and> rd_attemptKey l' = k' \<and> j \<noteq> i"
    if "get (rs_attempts s) k' = Some j" for k' j
    using inv new(1) that unfolding table_inv_def by (metis option.distinct(1))
  have pin: "rs_pinnedBytes s = msum (\<lambda>l. ar_Bytes (rd_artifact l)) (rs_reads s)"
    and rpl: "rs_replayBytes s = ReadReplayReservation * int (length (rs_reads s))"
    using inv by (simp_all add: table_inv_def)
  show ?thesis
    using inv k new l opened fit n key rev pin rpl unfolding table_inv_def
    by (auto simp: gomap_simps msum_put distrib_left)
qed

lemma leases_inv_publish:
  assumes inv: "leases_inv sha256 limits reads P s" and P: "get P (rd_object l) = Some (rd_artifact l)"
    and r: "replay_ok limits (sys_content s (rd_object l)) l"
  shows "leases_inv sha256 limits (put i l reads) (del (rd_object l) P) s"
proof -
  have "obj_ok sha256 s (rd_artifact l) (rd_object l)" using inv P unfolding leases_inv_def by blast
  moreover have "rd_object l' \<noteq> rd_object l" if "get reads j = Some l'" for j l'
    using inv P that unfolding leases_inv_def by (metis option.distinct(1))
  ultimately show ?thesis
    using inv r unfolding leases_inv_def by (auto simp: gomap_simps split: if_splits) blast+
qed

end
