(* ===== verification/Read_Steps.thy ===== *)
theory Read_Steps
  imports Read_Inv
begin

text \<open>
  The read service keeps its invariant through every interleaving, and what follows from it: correct
  chunks, byte-exact retries, bounded memory, isolation of caller scopes, expiry.
\<close>

section \<open>Publishing a lease\<close>

lemma table_inv_random [simp]: "table_inv (s\<lparr>rs_random := r\<rparr>) = table_inv s"
  by (simp add: table_inv_def)

lemma drawID_unused: "drawID n used random = (Inr i, rest) \<Longrightarrow> \<not> used i"
  by (induction n arbitrary: random) (auto split: sum.splits if_splits)

definition newReadLease :: "string \<Rightarrow> digest \<Rightarrow> digest \<Rightarrow> Artifact \<Rightarrow> nat \<Rightarrow> time \<Rightarrow> time \<Rightarrow> readLease" where
  "newReadLease i scope key artifact object now idle =
     \<lparr>rd_id = i, rd_scopeDigest = scope, rd_attemptKey = key, rd_artifact = artifact, rd_object = object,
      rd_created = now, rd_idleUntil = idle, rd_expiresAt = 0, rd_final = False,
      rd_replay = \<lparr>rp_inputRef = [], rp_offset = 0, rp_maxBytes = 0,
        rp_response = \<lparr>rr_Ref = [], rr_ContinuationRef = [], rr_Offset = 0, rr_DataBase64 = [], rr_NextOffset = 0,
          rr_Complete = False, rr_MediaType = [], rr_StoredBytes = 0, rr_SHA256 = [], rr_ExpiresAt = []\<rparr>,
        rp_encoded = []\<rparr>\<rparr>"

text \<open>
  The outcomes of \<open>readPublish\<close>: a refusal or a replay, which release the object, or a new lease.
\<close>

definition published :: "(bytes \<Rightarrow> digest) \<Rightarrow> string \<Rightarrow> ReadRequest \<Rightarrow> Artifact \<Rightarrow> service \<Rightarrow> string \<Rightarrow> bytes \<Rightarrow> readLease \<Rightarrow> service" where
  "published sha256 scope request artifact v1 i rest lease =
     v1\<lparr>sv_reads := (sv_reads v1)\<lparr>rs_random := rest, rs_reads := put i lease (rs_reads (sv_reads v1)),
         rs_attempts := put (readAttemptKey sha256 scope request) i (rs_attempts (sv_reads v1)),
         rs_pinnedBytes := rs_pinnedBytes (sv_reads v1) + ar_Bytes artifact,
         rs_replayBytes := rs_replayBytes (sv_reads v1) + ReadReplayReservation\<rparr>\<rparr>"

lemma readPublish_cases:
  assumes "readPublish sha256 scope request now now2 artifact object v = (r, v')"
  defines "v1 \<equiv> read_sweepLocked now v" and "key \<equiv> readAttemptKey sha256 scope request"
  obtains (closed) "rs_closed (sv_reads v)" "r = Inl ErrServiceClosed" "v' = releaseObject object v"
  | (replay) "\<not> rs_closed (sv_reads v)" "replayAttempt (sv_reads v1) request key = Some r" "v' = releaseObject object v1"
  | (refused) e rest where "\<not> rs_closed (sv_reads v)" "replayAttempt (sv_reads v1) request key = None" "r = Inl e"
      "v' = releaseObject object (v1\<lparr>sv_reads := (sv_reads v1)\<lparr>rs_random := rest\<rparr>\<rparr>)"
  | (new) i rest response lease where "\<not> rs_closed (sv_reads v)" "replayAttempt (sv_reads v1) request key = None"
      "int (length (rs_reads (sv_reads v1))) < rl_MaxCount (rs_limits (sv_reads v1))"
      "rs_pinnedBytes (sv_reads v1) + ar_Bytes artifact \<le> rl_MaxPinnedBytes (rs_limits (sv_reads v1))"
      "rs_replayBytes (sv_reads v1) + ReadReplayReservation \<le> rl_MaxReplayBytes (rs_limits (sv_reads v1))"
      "get (rs_reads (sv_reads v1)) i = None"
      "prepareLocked now2 (w_sys (sv_world v1)) (rs_limits (sv_reads v1))
         (newReadLease i (sha256 scope) key artifact object now (now + rl_Idle (rs_limits (sv_reads v1))))
         (rq_Ref request) (rq_Offset request) (rq_MaxBytes request) = Inr (response, lease)"
      "r = Inr response" "v' = published sha256 scope request artifact v1 i rest lease"
proof -
  have id: "v1 = v1\<lparr>sv_reads := (sv_reads v1)\<lparr>rs_random := rs_random (sv_reads v1)\<rparr>\<rparr>" by simp
  consider (a) "rs_closed (sv_reads v)"
    | (b) q where "\<not> rs_closed (sv_reads v)" "replayAttempt (sv_reads v1) request key = Some q"
    | (c) "\<not> rs_closed (sv_reads v)" "replayAttempt (sv_reads v1) request key = None"
        "int (length (rs_reads (sv_reads v1))) \<ge> rl_MaxCount (rs_limits (sv_reads v1)) \<or>
         rs_pinnedBytes (sv_reads v1) + ar_Bytes artifact > rl_MaxPinnedBytes (rs_limits (sv_reads v1)) \<or>
         rs_replayBytes (sv_reads v1) + ReadReplayReservation > rl_MaxReplayBytes (rs_limits (sv_reads v1))"
    | (d) "\<not> rs_closed (sv_reads v)" "replayAttempt (sv_reads v1) request key = None"
        "\<not> (int (length (rs_reads (sv_reads v1))) \<ge> rl_MaxCount (rs_limits (sv_reads v1)) \<or>
         rs_pinnedBytes (sv_reads v1) + ar_Bytes artifact > rl_MaxPinnedBytes (rs_limits (sv_reads v1)) \<or>
         rs_replayBytes (sv_reads v1) + ReadReplayReservation > rl_MaxReplayBytes (rs_limits (sv_reads v1)))"
    by (cases "replayAttempt (sv_reads v1) request key") blast+
  then show thesis
  proof cases
    case a
    then show ?thesis using assms(1) closed by (simp add: readPublish_def)
  next
    case b
    then show ?thesis using assms(1) replay by (simp add: readPublish_def Let_def v1_def [symmetric] key_def [symmetric])
  next
    case c
    then show ?thesis using assms(1) refused [of _ "rs_random (sv_reads v1)"]
      by (auto simp add: readPublish_def Let_def v1_def [symmetric] key_def [symmetric])
  next
    case d
    obtain drawn rest where dr: "drawID readHandleCollisionAttempts (\<lambda>i. get (rs_reads (sv_reads v1)) i \<noteq> None) (rs_random (sv_reads v1)) = (drawn, rest)"
      by force
    show ?thesis
    proof (cases drawn)
      case (Inl e)
      then show ?thesis using assms(1) d dr refused [of e rest]
        by (simp add: readPublish_def Let_def v1_def [symmetric] key_def [symmetric])
    next
      case (Inr i)
      have free: "get (rs_reads (sv_reads v1)) i = None" using drawID_unused [of _ _ _ i rest] dr Inr by blast
      let ?l = "newReadLease i (sha256 scope) key artifact object now (now + rl_Idle (rs_limits (sv_reads v1)))"
      show ?thesis
      proof (cases "prepareLocked now2 (w_sys (sv_world v1)) (rs_limits (sv_reads v1)) ?l (rq_Ref request) (rq_Offset request) (rq_MaxBytes request)")
        case e: (Inl e)
        then show ?thesis using assms(1) d dr Inr refused [of e rest]
          by (simp add: readPublish_def Let_def v1_def [symmetric] key_def [symmetric] newReadLease_def)
      next
        case p: (Inr p)
        obtain response lease where "p = (response, lease)" by force
        then show ?thesis using assms(1) d dr Inr free p new [of i response lease rest]
          by (simp add: readPublish_def Let_def v1_def [symmetric] key_def [symmetric] newReadLease_def published_def not_le not_less)
      qed
    qed
  qed
qed

definition range_ok :: "ReadRequest \<Rightarrow> Artifact \<Rightarrow> bool" where
  "range_ok request a \<longleftrightarrow>
     0 \<le> rq_Offset request \<and> rq_Offset request \<le> ar_Bytes a \<and> 0 < rq_MaxBytes request \<and> rq_MaxBytes request \<le> max_int64"

lemma sweep_svc_inv: "svc_inv sha256 v P \<Longrightarrow> svc_inv sha256 (read_sweepLocked now v) P"
  using sweep_inv by blast

lemma dropAll_frame [simp]:
  "rs_limits (sv_reads (dropAll ls v)) = rs_limits (sv_reads v)" "rs_closed (sv_reads (dropAll ls v)) = rs_closed (sv_reads v)"
  "rs_random (sv_reads (dropAll ls v)) = rs_random (sv_reads v)"
  by (induction ls arbitrary: v) (auto simp: dropAll_def dropLocked_def)

lemma sweep_frame [simp]:
  "rs_limits (sv_reads (read_sweepLocked now v)) = rs_limits (sv_reads v)"
  "rs_closed (sv_reads (read_sweepLocked now v)) = rs_closed (sv_reads v)"
  "rs_random (sv_reads (read_sweepLocked now v)) = rs_random (sv_reads v)"
  by (simp_all add: read_sweepLocked_def)

lemma svc_inv_random: "svc_inv sha256 (v\<lparr>sv_reads := (sv_reads v)\<lparr>rs_random := r\<rparr>\<rparr>) P = svc_inv sha256 v P"
  by (simp add: svc_inv_def)

lemma replayAttempt_None: "replayAttempt s request key = None \<longleftrightarrow> get (rs_attempts s) key = None"
  by (simp add: replayAttempt_def split: option.splits)

lemma newReadLease_simps [simp]:
  "rd_id (newReadLease i sc key a ob now idle) = i" "rd_attemptKey (newReadLease i sc key a ob now idle) = key"
  "rd_artifact (newReadLease i sc key a ob now idle) = a" "rd_object (newReadLease i sc key a ob now idle) = ob"
  "rd_scopeDigest (newReadLease i sc key a ob now idle) = sc" "rd_created (newReadLease i sc key a ob now idle) = now"
  by (simp_all add: newReadLease_def)

text \<open>A lease that is published answers with the requested range of the bytes it pins.\<close>

lemma prepared_new:
  assumes inv: "svc_inv sha256 v P" and P: "get P object = Some artifact" and rng: "range_ok request artifact"
    and prep: "prepareLocked now2 (w_sys (sv_world v)) limits (newReadLease i sc key artifact object now idle)
      (rq_Ref request) (rq_Offset request) (rq_MaxBytes request) = Inr (response, lease)"
  defines "c \<equiv> sys_content (w_sys (sv_world v)) object"
  shows "obj_ok sha256 (w_sys (sv_world v)) artifact object" "rd_id lease = i" "rd_attemptKey lease = key"
    "rd_artifact lease = artifact" "rd_object lease = object" "rd_scopeDigest lease = sc" "replay_ok limits c lease"
    "rd_replay lease = \<lparr>rp_inputRef = rq_Ref request, rp_offset = rq_Offset request, rp_maxBytes = rq_MaxBytes request,
       rp_response = response, rp_encoded = jsonText (responseJson response)\<rparr>"
    "response = chunkResponse lease (rq_Offset request) (chunk_of c (rq_Offset request) (rq_MaxBytes request)) (rd_expiresAt lease)"
proof -
  have sys: "sys_inv sha256 (w_sys (sv_world v))" using inv reg_inv_sys by (auto simp: svc_inv_def)
  show ob: "obj_ok sha256 (w_sys (sv_world v)) artifact object"
    using inv P unfolding svc_inv_def leases_inv_def by blast
  let ?l = "newReadLease i sc key artifact object now idle"
  have "obj_ok sha256 (w_sys (sv_world v)) (rd_artifact ?l) (rd_object ?l)" using ob by simp
  note s = prepareLocked_spec [OF sys this, of "rq_Offset request" "rq_MaxBytes request" now2 limits "rq_Ref request"]
  have "same_lease ?l lease \<and> replay_ok limits c lease \<and>
      response = chunkResponse ?l (rq_Offset request) (chunk_of c (rq_Offset request) (rq_MaxBytes request)) (rd_expiresAt lease) \<and>
      rd_replay lease = \<lparr>rp_inputRef = rq_Ref request, rp_offset = rq_Offset request, rp_maxBytes = rq_MaxBytes request,
        rp_response = response, rp_encoded = jsonText (responseJson response)\<rparr>"
    using s rng prep by (simp add: range_ok_def c_def)
  then show "rd_id lease = i" "rd_attemptKey lease = key" "rd_artifact lease = artifact" "rd_object lease = object"
    "rd_scopeDigest lease = sc" "replay_ok limits c lease"
    "rd_replay lease = \<lparr>rp_inputRef = rq_Ref request, rp_offset = rq_Offset request, rp_maxBytes = rq_MaxBytes request,
       rp_response = response, rp_encoded = jsonText (responseJson response)\<rparr>"
    "response = chunkResponse lease (rq_Offset request) (chunk_of c (rq_Offset request) (rq_MaxBytes request)) (rd_expiresAt lease)"
    by (simp_all add: same_lease_def chunkResponse_cong)
qed

lemma readPublish_inv:
  assumes inv: "svc_inv sha256 v P" and P: "get P object = Some artifact" and rng: "range_ok request artifact"
    and r: "readPublish sha256 scope request now now2 artifact object v = (r, v')"
  shows "svc_inv sha256 v' (del object P)"
proof -
  let ?v1 = "read_sweepLocked now v"
  have inv1: "svc_inv sha256 ?v1 P" using inv by (rule sweep_svc_inv)
  from r show ?thesis
  proof (cases rule: readPublish_cases)
    case closed
    then show ?thesis using releaseObject_inv [OF inv P] by simp
  next
    case replay
    then show ?thesis using releaseObject_inv [OF inv1 P] by simp
  next
    case (refused e rest)
    then show ?thesis using releaseObject_inv [OF _ P] inv1 svc_inv_random by metis
  next
    case (new i rest response lease)
    note p = prepared_new [OF inv1 P rng new(7)]
    have pos: "0 \<le> ar_Bytes (rd_artifact lease)" using rng p(4) by (simp add: range_ok_def)
    have t: "table_inv (sv_reads ?v1)" using inv1 by (simp add: svc_inv_def)
    have none: "get (rs_attempts (sv_reads ?v1)) (rd_attemptKey lease) = None"
      using new(2) p(3) by (simp add: replayAttempt_None)
    have op: "\<not> rs_closed (sv_reads ?v1)" using new(1) by simp
    have "table_inv ((sv_reads ?v1)\<lparr>rs_reads := put i lease (rs_reads (sv_reads ?v1)),
        rs_attempts := put (rd_attemptKey lease) i (rs_attempts (sv_reads ?v1)),
        rs_pinnedBytes := rs_pinnedBytes (sv_reads ?v1) + ar_Bytes (rd_artifact lease),
        rs_replayBytes := rs_replayBytes (sv_reads ?v1) + ReadReplayReservation\<rparr>)"
      using t new(6) none p(2) pos op by (rule table_inv_publish) (use new(3-5) p(4) in simp_all)
    then have "table_inv (sv_reads v')" by (simp add: new(9) published_def table_inv_def p(3,4))
    moreover have "leases_inv sha256 (rs_limits (sv_reads ?v1)) (put i lease (rs_reads (sv_reads ?v1))) (del (rd_object lease) P) (w_sys (sv_world ?v1))"
      using inv1 P p by (intro leases_inv_publish) (simp_all add: svc_inv_def)
    ultimately show ?thesis using inv1 p(5) by (simp add: svc_inv_def new(9) published_def)
  qed
qed

section \<open>Continuing a lease\<close>

definition replayed :: "ReadRequest \<Rightarrow> readLease \<Rightarrow> bool" where
  "replayed request l \<longleftrightarrow>
     rq_Offset request = rp_offset (rd_replay l) \<and> rp_inputRef (rd_replay l) = rq_Ref request \<and>
     rp_maxBytes (rd_replay l) = rq_MaxBytes request"

lemma readContinuation_cases:
  assumes r: "readContinuation sha256 scope request now now2 v = (r, v')"
  defines "v1 \<equiv> read_sweepLocked now v"
  obtains (early) e where "r = Inl e" "v' = v"
  | (fail) e where "r = Inl e" "v' = v1"
  | (replay) i l where "parseReadHandle (rq_Ref request) = Some i" "get (rs_reads (sv_reads v1)) i = Some l"
      "rd_scopeDigest l = sha256 scope" "replayed request l" "r = Inr (rp_response (rd_replay l))" "v' = v1"
      "\<not> rs_closed (sv_reads v)"
  | (advance) i l response l' where "parseReadHandle (rq_Ref request) = Some i" "get (rs_reads (sv_reads v1)) i = Some l"
      "rd_scopeDigest l = sha256 scope" "\<not> rd_final l" "rq_Offset request = rr_NextOffset (rp_response (rd_replay l))"
      "prepareLocked now2 (w_sys (sv_world v1)) (rs_limits (sv_reads v1)) l (rq_Ref request) (rq_Offset request)
         (rq_MaxBytes request) = Inr (response, l')"
      "r = Inr response" "v' = v1\<lparr>sv_reads := (sv_reads v1)\<lparr>rs_reads := put i l' (rs_reads (sv_reads v1))\<rparr>\<rparr>"
      "\<not> rs_closed (sv_reads v)"
proof (cases "rq_CapabilityID request \<noteq> [] \<or> rq_AttemptID request \<noteq> [] \<or> parseReadHandle (rq_Ref request) = None \<or> rs_closed (sv_reads v)")
  case True
  then show thesis using r early unfolding readContinuation_def by (auto split: option.splits if_splits)
next
  case False
  then obtain i where i: "parseReadHandle (rq_Ref request) = Some i" by auto
  show thesis
  proof (cases "get (rs_reads (sv_reads v1)) i")
    case None
    then show thesis using r False i fail [of ErrContinuationStale] unfolding readContinuation_def by (simp add: Let_def v1_def)
  next
    case (Some l)
    note eq = r [unfolded readContinuation_def Let_def v1_def [symmetric]]
    consider (a) "rd_scopeDigest l \<noteq> sha256 scope"
      | (b) "rd_scopeDigest l = sha256 scope" "rq_Offset request = rp_offset (rd_replay l)"
      | (c) "rd_scopeDigest l = sha256 scope" "rq_Offset request \<noteq> rp_offset (rd_replay l)"
          "rd_final l \<or> rq_Offset request \<noteq> rr_NextOffset (rp_response (rd_replay l))"
      | (d) "rd_scopeDigest l = sha256 scope" "rq_Offset request \<noteq> rp_offset (rd_replay l)"
          "\<not> rd_final l" "rq_Offset request = rr_NextOffset (rp_response (rd_replay l))" by blast
    then show thesis
    proof cases
      case a
      then show thesis using eq False i Some fail [of ErrContinuationStale] by simp
    next
      case b
      show thesis
      proof (cases "replayed request l")
        case True
        then have "rp_inputRef (rd_replay l) = rq_Ref request \<and> rp_maxBytes (rd_replay l) = rq_MaxBytes request"
          by (simp add: replayed_def)
        then have "r = Inr (rp_response (rd_replay l))" "v' = v1" using eq False i Some b by simp_all
        then show thesis using replay [OF i Some b(1) True] False by blast
      next
        case no: False
        then have "\<not> (rp_inputRef (rd_replay l) = rq_Ref request \<and> rp_maxBytes (rd_replay l) = rq_MaxBytes request)"
          using b by (simp add: replayed_def)
        then have "r = Inl ErrContinuationConflict" "v' = v1" using eq False i Some b by (auto split: if_splits)
        then show thesis by (rule fail)
      qed
    next
      case c
      then show thesis using eq False i Some fail [of ErrContinuationConflict] by simp
    next
      case d
      show thesis
      proof (cases "prepareLocked now2 (w_sys (sv_world v1)) (rs_limits (sv_reads v1)) l (rq_Ref request) (rq_Offset request) (rq_MaxBytes request)")
        case (Inl e)
        then show thesis using eq False i Some d fail [of e] by simp
      next
        case (Inr p)
        obtain response l' where "p = (response, l')" by force
        then show thesis using eq False i Some d Inr advance [of i l response l'] by simp
      qed
    qed
  qed
qed

lemma leases_inv_update:
  assumes inv: "leases_inv sha256 limits reads P s" and l: "get reads i = Some l" and same: "same_lease l l'"
    and r: "replay_ok limits (sys_content s (rd_object l)) l'"
  shows "leases_inv sha256 limits (put i l' reads) P s"
proof -
  have o: "rd_object l' = rd_object l" "rd_artifact l' = rd_artifact l" using same by (simp_all add: same_lease_def)
  have ok: "obj_ok sha256 s (rd_artifact l) (rd_object l)" "get P (rd_object l) = None"
    using inv l unfolding leases_inv_def by blast+
  have uniq: "j = i" if "get reads j = Some m" "rd_object m = rd_object l" for j m
    using inv l that unfolding leases_inv_def by blast
  show ?thesis
    unfolding leases_inv_def
  proof (intro conjI allI impI)
    fix j m assume m: "get (put i l' reads) j = Some m"
    have "obj_ok sha256 s (rd_artifact m) (rd_object m) \<and> replay_ok limits (sys_content s (rd_object m)) m \<and> get P (rd_object m) = None"
    proof (cases "j = i")
      case True
      then have "m = l'" using m by (simp add: gomap_simps)
      then show ?thesis using ok r o by simp
    next
      case False
      then show ?thesis using inv m unfolding leases_inv_def by (simp add: gomap_simps)
    qed
    then show "obj_ok sha256 s (rd_artifact m) (rd_object m)" "replay_ok limits (sys_content s (rd_object m)) m"
      "get P (rd_object m) = None" by blast+
  next
    fix j m j' m' assume "get (put i l' reads) j = Some m" "get (put i l' reads) j' = Some m'" "rd_object m = rd_object m'"
    then show "j = j'" using uniq o inv unfolding leases_inv_def by (auto simp: gomap_simps split: if_splits)
  next
    fix ob a assume "get P ob = Some a"
    then show "obj_ok sha256 s a ob" using inv unfolding leases_inv_def by blast
  qed
qed

lemma table_inv_update:
  assumes inv: "table_inv s" and l: "get (rs_reads s) i = Some l" and same: "same_lease l l'"
  shows "table_inv (s\<lparr>rs_reads := put i l' (rs_reads s)\<rparr>)"
proof -
  have k: "keys_ok (rs_reads s)" using inv by (simp add: table_inv_def)
  have "int (length m') = msum (\<lambda>_. 1) m'" for m' :: "(string, readLease) gomap" by (induction m') (auto simp: msum_def)
  then have n: "length (put i l' (rs_reads s)) = length (rs_reads s)"
    using k l by (metis (no_types, lifting) add.commute diff_add_cancel msum_put nat_int option.simps(5))
  have o: "rd_id l' = rd_id l" "rd_attemptKey l' = rd_attemptKey l" "rd_artifact l' = rd_artifact l"
    using same by (simp_all add: same_lease_def)
  have nn: "put i l' (rs_reads s) \<noteq> []" using n l by (cases "rs_reads s") auto
  show ?thesis
    unfolding table_inv_def
  proof (intro conjI)
    show "\<forall>j m. get (rs_reads (s\<lparr>rs_reads := put i l' (rs_reads s)\<rparr>)) j = Some m \<longrightarrow>
        rd_id m = j \<and> get (rs_attempts (s\<lparr>rs_reads := put i l' (rs_reads s)\<rparr>)) (rd_attemptKey m) = Some j \<and> 0 \<le> ar_Bytes (rd_artifact m)"
      using inv l o by (auto simp: table_inv_def gomap_simps split: if_splits)
    show "\<forall>k' j. get (rs_attempts (s\<lparr>rs_reads := put i l' (rs_reads s)\<rparr>)) k' = Some j \<longrightarrow>
        (\<exists>m. get (rs_reads (s\<lparr>rs_reads := put i l' (rs_reads s)\<rparr>)) j = Some m \<and> rd_attemptKey m = k')"
    proof (intro allI impI)
      fix k' j assume "get (rs_attempts (s\<lparr>rs_reads := put i l' (rs_reads s)\<rparr>)) k' = Some j"
      then have "get (rs_attempts s) k' = Some j" by simp
      then obtain m where "get (rs_reads s) j = Some m" "rd_attemptKey m = k'" using inv unfolding table_inv_def by blast
      then show "\<exists>m. get (rs_reads (s\<lparr>rs_reads := put i l' (rs_reads s)\<rparr>)) j = Some m \<and> rd_attemptKey m = k'"
        using l o by (auto simp: gomap_simps)
    qed
  qed (use inv k l n o nn in \<open>auto simp: table_inv_def gomap_simps msum_put\<close>)
qed

lemma replay_next:
  assumes "replay_ok limits c l" and "int (length c) = ar_Bytes (rd_artifact l)"
  shows "0 \<le> rr_NextOffset (rp_response (rd_replay l))" "rr_NextOffset (rp_response (rd_replay l)) \<le> int (length c)"
proof -
  let ?p = "rd_replay l"
  have n: "rr_NextOffset (rp_response ?p) = rp_offset ?p + int (length (chunk_of c (rp_offset ?p) (rp_maxBytes ?p)))"
    and o: "0 \<le> rp_offset ?p" "rp_offset ?p \<le> int (length c)"
    using assms by (auto simp: replay_ok_def Let_def)
  show "0 \<le> rr_NextOffset (rp_response ?p)" "rr_NextOffset (rp_response ?p) \<le> int (length c)"
    unfolding n using o by (auto simp: chunk_of_def)
qed

text \<open>A continuation that advances answers with the next range of the bytes its lease pins.\<close>

lemma prepared_next:
  assumes inv: "svc_inv sha256 v P" and l: "get (rs_reads (sv_reads v)) i = Some l"
    and mx: "0 < rq_MaxBytes request" "rq_MaxBytes request \<le> max_int64"
    and off: "rq_Offset request = rr_NextOffset (rp_response (rd_replay l))"
    and prep: "prepareLocked now2 (w_sys (sv_world v)) (rs_limits (sv_reads v)) l
      (rq_Ref request) (rq_Offset request) (rq_MaxBytes request) = Inr (response, l')"
  defines "c \<equiv> sys_content (w_sys (sv_world v)) (rd_object l)"
  shows "obj_ok sha256 (w_sys (sv_world v)) (rd_artifact l) (rd_object l)" "same_lease l l'"
    "replay_ok (rs_limits (sv_reads v)) c l'"
    "rd_replay l' = \<lparr>rp_inputRef = rq_Ref request, rp_offset = rq_Offset request, rp_maxBytes = rq_MaxBytes request,
       rp_response = response, rp_encoded = jsonText (responseJson response)\<rparr>"
    "response = chunkResponse l (rq_Offset request) (chunk_of c (rq_Offset request) (rq_MaxBytes request)) (rd_expiresAt l')"
    "0 \<le> rq_Offset request" "rq_Offset request \<le> int (length c)"
proof -
  have sys: "sys_inv sha256 (w_sys (sv_world v))" using inv reg_inv_sys by (auto simp: svc_inv_def)
  show ob: "obj_ok sha256 (w_sys (sv_world v)) (rd_artifact l) (rd_object l)"
    using inv l unfolding svc_inv_def leases_inv_def by blast
  have "replay_ok (rs_limits (sv_reads v)) c l" using inv l unfolding svc_inv_def leases_inv_def c_def by blast
  then show o: "0 \<le> rq_Offset request" "rq_Offset request \<le> int (length c)"
    using replay_next ob unfolding off by (auto simp: obj_ok_def c_def)
  then have "rq_Offset request \<le> ar_Bytes (rd_artifact l)" using ob by (simp add: obj_ok_def c_def)
  note s = prepareLocked_spec [OF sys ob o(1) this mx, of now2 "rs_limits (sv_reads v)" "rq_Ref request"]
  show "same_lease l l'" "replay_ok (rs_limits (sv_reads v)) c l'"
    "rd_replay l' = \<lparr>rp_inputRef = rq_Ref request, rp_offset = rq_Offset request, rp_maxBytes = rq_MaxBytes request,
       rp_response = response, rp_encoded = jsonText (responseJson response)\<rparr>"
    "response = chunkResponse l (rq_Offset request) (chunk_of c (rq_Offset request) (rq_MaxBytes request)) (rd_expiresAt l')"
    using s prep by (simp_all add: c_def)
qed

lemma readContinuation_inv:
  assumes inv: "svc_inv sha256 v P" and mx: "0 < rq_MaxBytes request" "rq_MaxBytes request \<le> max_int64"
    and r: "readContinuation sha256 scope request now now2 v = (r, v')"
  shows "svc_inv sha256 v' P"
proof -
  have inv1: "svc_inv sha256 (read_sweepLocked now v) P" using inv by (rule sweep_svc_inv)
  from r show ?thesis
  proof (cases rule: readContinuation_cases)
    case (advance i l response l')
    note p = prepared_next [OF inv1 advance(2) mx advance(5,6)]
    show ?thesis
      using inv1 table_inv_update [OF _ advance(2) p(2)] leases_inv_update [OF _ advance(2) p(2)] p(3)
      by (simp add: svc_inv_def advance(8))
  qed (use inv inv1 in simp_all)
qed

section \<open>Every interleaving\<close>

lemma read_Close_inv:
  assumes "svc_inv sha256 v P" shows "svc_inv sha256 (read_Close v) P \<and> rs_reads (sv_reads (read_Close v)) = []"
proof (cases "rs_closed (sv_reads v)")
  case True
  moreover from this have "rs_reads (sv_reads v) = []" using assms unfolding svc_inv_def table_inv_def by blast
  ultimately show ?thesis using assms by (simp add: read_Close_def)
next
  case False
  let ?ls = "rs_reads (sv_reads v)" and ?v = "v\<lparr>sv_reads := (sv_reads v)\<lparr>rs_closed := True\<rparr>\<rparr>"
  have k: "keys_ok ?ls" using assms by (simp add: svc_inv_def table_inv_def)
  have d: "svc_inv sha256 (dropAll ?ls v) P \<and>
    (\<forall>i. get (rs_reads (sv_reads (dropAll ?ls v))) i = (if i \<in> fst ` set ?ls then None else get ?ls i))"
    using assms
  proof (rule dropAll_inv)
    show "get ?ls i = Some l" if "(i, l) \<in> set ?ls" for i l using that k by (simp add: keys_ok_get)
    show "distinct (map fst ?ls)" using k by (simp add: keys_ok_def)
  qed
  have one: "dropLocked i l (u\<lparr>sv_reads := (sv_reads u)\<lparr>rs_closed := True\<rparr>\<rparr>) =
      (dropLocked i l u)\<lparr>sv_reads := (sv_reads (dropLocked i l u))\<lparr>rs_closed := True\<rparr>\<rparr>" for i l u
    by (simp add: dropLocked_def)
  have eq: "dropAll ls (u\<lparr>sv_reads := (sv_reads u)\<lparr>rs_closed := True\<rparr>\<rparr>) =
      (dropAll ls u)\<lparr>sv_reads := (sv_reads (dropAll ls u))\<lparr>rs_closed := True\<rparr>\<rparr>" for ls u
    by (induction ls arbitrary: u) (auto simp: dropAll_def one)
  have "get (rs_reads (sv_reads (dropAll ?ls v))) i = None" for i
    using d map_of_SomeD [of ?ls i] by (cases "get ?ls i") force+
  then have "rs_reads (sv_reads (dropAll ?ls v)) = []" by (metis map_of_eq_empty_iff ext)
  then show ?thesis using d False by (simp add: read_Close_def Let_def eq svc_inv_def table_inv_def)
qed

text \<open>
  One step: an atomic part of some read (with its clock readings), the other operations of the lease
  store, or a step of the registry and the store below that leaves the leased objects alone.
\<close>

inductive svc_step :: "(bytes \<Rightarrow> digest) \<Rightarrow> service \<times> pending \<Rightarrow> service \<times> pending \<Rightarrow> bool" for sha256 where
  svc_attempt: "validateReadBounds scope request = Inr () \<Longrightarrow>
     readAttempt sha256 scope request now v = (r, v') \<Longrightarrow> svc_step sha256 (v, P) (v', P)"
| svc_acquire_fail: "readAcquire request (sv_world v) = (Inl e, w') \<Longrightarrow> svc_step sha256 (v, P) (v\<lparr>sv_world := w'\<rparr>, P)"
| svc_acquire: "readAcquire request (sv_world v) = (Inr (a, ob), w') \<Longrightarrow> svc_step sha256 (v, P) (v\<lparr>sv_world := w'\<rparr>, put ob a P)"
| svc_publish: "validateReadBounds scope request = Inr () \<Longrightarrow> get P ob = Some a \<Longrightarrow> rq_Offset request \<le> ar_Bytes a \<Longrightarrow>
     readPublish sha256 scope request now now2 a ob v = (r, v') \<Longrightarrow> svc_step sha256 (v, P) (v', del ob P)"
| svc_continue: "validateReadBounds scope request = Inr () \<Longrightarrow>
     readContinuation sha256 scope request now now2 v = (r, v') \<Longrightarrow> svc_step sha256 (v, P) (v', P)"
| svc_close: "svc_step sha256 (v, P) (read_Close v, P)"
| svc_stats: "svc_step sha256 (v, P) (snd (read_Stats now v), P)"
| svc_world: "reg_step sha256 (sv_world v) w' \<Longrightarrow> objects_live v P (w_sys w') \<Longrightarrow> svc_step sha256 (v, P) (v\<lparr>sv_world := w'\<rparr>, P)"

inductive svc_reachable :: "(bytes \<Rightarrow> digest) \<Rightarrow> service \<times> pending \<Rightarrow> bool" for sha256 where
  svc_start: "reg_reachable sha256 w \<Longrightarrow> newReadLeaseStore limits random = Inr s \<Longrightarrow>
     svc_reachable sha256 (\<lparr>sv_world = w, sv_reads = s\<rparr>, [])"
| svc_next: "svc_reachable sha256 x \<Longrightarrow> svc_step sha256 x y \<Longrightarrow> svc_reachable sha256 y"

definition full_inv :: "(bytes \<Rightarrow> digest) \<Rightarrow> service \<times> pending \<Rightarrow> bool" where
  "full_inv sha256 x \<longleftrightarrow> svc_inv sha256 (fst x) (snd x) \<and> keys_ok (snd x)"

lemma validateReadBounds_Inr:
  "validateReadBounds scope request = Inr () \<Longrightarrow>
     0 \<le> rq_Offset request \<and> 0 < rq_MaxBytes request \<and> rq_MaxBytes request \<le> ReadChunkMax \<and> rq_MaxBytes request \<le> max_int64"
  by (auto simp: validateReadBounds_def ReadChunkMax_def max_int64_def split: if_splits)

lemma svc_inv_acquire:
  assumes inv: "svc_inv sha256 v P" and k: "keys_ok P" and acq: "readAcquire request (sv_world v) = (r, w')"
  shows "svc_inv sha256 (v\<lparr>sv_world := w'\<rparr>) P" and "r = Inr (a, ob) \<Longrightarrow> svc_inv sha256 (v\<lparr>sv_world := w'\<rparr>) (put ob a P)"
proof -
  have reg: "reg_inv sha256 (sv_world v)" using inv by (simp add: svc_inv_def)
  note kept = readAcquire_kept [OF acq reg]
  have "objects_live v P (w_sys w')"
    using svc_inv_objects_live [OF inv k] kept by (auto simp: objects_live_def list_all_iff world_kept_def)
  then show inv': "svc_inv sha256 (v\<lparr>sv_world := w'\<rparr>) P"
    using inv kept by (intro svc_inv_world) (auto simp: world_kept_def)
  assume r: "r = Inr (a, ob)"
  have none: "get (sys_leases (w_sys (sv_world v))) ob = None" and ok: "obj_ok sha256 (w_sys w') a ob"
    using kept r by auto
  have "rd_object l \<noteq> ob" if "get (rs_reads (sv_reads v)) i = Some l" for i l
  proof -
    have "sys_live (w_sys (sv_world v)) (rd_object l)"
      using inv that unfolding svc_inv_def leases_inv_def obj_ok_def by blast
    then show ?thesis using sys_live_get none by metis
  qed
  then show "svc_inv sha256 (v\<lparr>sv_world := w'\<rparr>) (put ob a P)"
    using inv' ok unfolding svc_inv_def leases_inv_def by (auto simp: gomap_simps split: if_splits)
qed

lemma svc_step_inv:
  assumes "svc_step sha256 x y" and "full_inv sha256 x" shows "full_inv sha256 y"
  using assms
proof cases
  case (svc_attempt scope request now v r v' P)
  then show ?thesis using assms(2) sweep_svc_inv
    by (auto simp: full_inv_def readAttempt_def Let_def split: if_splits)
next
  case (svc_acquire_fail request v e w' P)
  then show ?thesis using assms(2) svc_inv_acquire(1) by (auto simp: full_inv_def)
next
  case (svc_acquire request v a ob w' P)
  then show ?thesis using assms(2) svc_inv_acquire(2) by (auto simp: full_inv_def gomap_simps)
next
  case (svc_publish scope request P ob a now now2 v r v')
  have "range_ok request a"
    using svc_publish(3,5) validateReadBounds_Inr by (auto simp: range_ok_def)
  then have "svc_inv sha256 v' (del ob P)"
    using assms(2) svc_publish by (intro readPublish_inv) (auto simp: full_inv_def)
  then show ?thesis using assms(2) svc_publish by (simp add: full_inv_def gomap_simps)
next
  case (svc_continue scope request now now2 v r v' P)
  then show ?thesis using assms(2) readContinuation_inv validateReadBounds_Inr by (fastforce simp: full_inv_def)
next
  case (svc_close v P)
  then show ?thesis using assms(2) read_Close_inv by (auto simp: full_inv_def)
next
  case (svc_stats v P now)
  then show ?thesis using assms(2) sweep_svc_inv by (auto simp: full_inv_def read_Stats_def Let_def)
next
  case (svc_world v w' P)
  have "reg_inv sha256 w'" using svc_world(3) assms(2) svc_world(1) by (auto simp: full_inv_def svc_inv_def intro: reg_step_inv)
  then show ?thesis
    using assms(2) svc_world reg_step_sys svc_inv_world by (fastforce simp: full_inv_def)
qed

lemma svc_reachable_inv: "svc_reachable sha256 x \<Longrightarrow> full_inv sha256 x"
proof (induction rule: svc_reachable.induct)
  case (svc_start w limits random s)
  have "validateReadLeaseLimits limits = Inr () \<Longrightarrow> 0 \<le> rl_MaxCount limits \<and> 0 \<le> rl_MaxPinnedBytes limits \<and> 0 \<le> rl_MaxReplayBytes limits"
    by (auto simp: validateReadLeaseLimits_def split: if_splits)
  then show ?case
    using svc_start reg_reachable_inv
    by (auto simp: full_inv_def svc_inv_def table_inv_def leases_inv_def newReadLeaseStore_def res_simps keys_ok_def)
qed (rule svc_step_inv)

end
