(* ===== verification/Read_Props.thy ===== *)
theory Read_Props
  imports Read_Steps
begin

text \<open>
  What a caller of \<^verbatim>\<open>ReadLeaseStore.Read\<close> can rely on, from the invariant of theory \<^verbatim>\<open>Read_Steps\<close>.
\<close>

section \<open>Complete reads\<close>

lemma svc_inv_pending_cong: "(\<And>ob. get P ob = get Q ob) \<Longrightarrow> svc_inv sha256 v P \<Longrightarrow> svc_inv sha256 v Q"
  by (simp add: svc_inv_def leases_inv_def)

text \<open>
  The lease that a successful read leaves behind: it remembers this request and its answer, and the
  next request of the same kind will find it.
\<close>

definition remembers :: "(bytes \<Rightarrow> digest) \<Rightarrow> string \<Rightarrow> ReadRequest \<Rightarrow> ReadResponse \<Rightarrow> service \<Rightarrow> string \<Rightarrow> readLease \<Rightarrow> bool" where
  "remembers sha256 scope request response v i l \<longleftrightarrow>
     get (rs_reads (sv_reads v)) i = Some l \<and> replayed request l \<and> rp_response (rd_replay l) = response \<and>
     (if hasPrefix (rq_Ref request) ''read:''
      then rq_CapabilityID request = [] \<and> rq_AttemptID request = [] \<and>
           parseReadHandle (rq_Ref request) = Some i \<and> rd_scopeDigest l = sha256 scope
      else \<not> (rq_CapabilityID request = [] \<or> int (length (rq_CapabilityID request)) > MaxCapabilityIDBytes \<or>
               \<not> attemptIDPattern (rq_AttemptID request)) \<and>
           hasPrefix (rq_Ref request) ''artifact:v1:'' \<and> rd_attemptKey l = readAttemptKey sha256 scope request)"

lemma releaseObject_reads [simp]: "sv_reads (releaseObject ob v) = sv_reads v"
  by (simp add: releaseObject_def)

lemma replayAttempt_Some:
  assumes "table_inv s" and "replayAttempt s request key = Some (Inr response)"
  obtains i l where "get (rs_reads s) i = Some l" "rd_attemptKey l = key" "replayed request l" "rp_response (rd_replay l) = response"
proof -
  obtain i where i: "get (rs_attempts s) key = Some i" using assms(2) by (auto simp: replayAttempt_def split: option.splits)
  then obtain l where l: "get (rs_reads s) i = Some l" "rd_attemptKey l = key" using assms(1) unfolding table_inv_def by blast
  then show thesis using assms(2) i that by (auto simp: replayAttempt_def replayed_def Let_def split: if_splits)
qed

lemma svc_inv_table: "svc_inv sha256 v P \<Longrightarrow> table_inv (sv_reads v)"
  by (simp add: svc_inv_def)

text \<open>The request is a continuation, or an attempt that the store has not seen before.\<close>

definition fresh_attempt :: "(bytes \<Rightarrow> digest) \<Rightarrow> string \<Rightarrow> ReadRequest \<Rightarrow> service \<Rightarrow> bool" where
  "fresh_attempt sha256 scope request v \<longleftrightarrow>
     hasPrefix (rq_Ref request) ''read:'' \<or> get (rs_attempts (sv_reads v)) (readAttemptKey sha256 scope request) = None"

lemma sweep_attempts:
  assumes inv: "svc_inv sha256 v P" and k: "get (rs_attempts (sv_reads (read_sweepLocked now v))) key = Some i"
  shows "get (rs_attempts (sv_reads v)) key = Some i"
proof -
  have "table_inv (sv_reads (read_sweepLocked now v))" using sweep_svc_inv [OF inv] by (rule svc_inv_table)
  then obtain l where l: "get (rs_reads (sv_reads (read_sweepLocked now v))) i = Some l" "rd_attemptKey l = key"
    using k unfolding table_inv_def by blast
  then have "get (rs_reads (sv_reads v)) i = Some l"
    using sweep_inv [OF inv, of now] by (auto split: option.splits if_splits)
  then show ?thesis using svc_inv_table [OF inv] l(2) unfolding table_inv_def by blast
qed

lemma replayAttempt_seen:
  "svc_inv sha256 v P \<Longrightarrow> replayAttempt (sv_reads (read_sweepLocked now v)) request key = Some r \<Longrightarrow>
    get (rs_attempts (sv_reads v)) key \<noteq> None"
  using sweep_attempts by (fastforce simp: replayAttempt_def split: option.splits)

lemma readInitial_ok:
  assumes inv: "svc_inv sha256 v P" and k: "keys_ok P" and bounds: "validateReadBounds scope request = Inr ()"
    and ref: "\<not> hasPrefix (rq_Ref request) ''read:''"
    and r: "readInitial sha256 scope request clock v = (r, v')"
  shows "svc_inv sha256 v' P \<and> rs_closed (sv_reads v') = rs_closed (sv_reads v) \<and>
    (\<forall>response. r = Inr response \<longrightarrow> \<not> rs_closed (sv_reads v) \<and>
       (\<exists>i l. remembers sha256 scope request response v' i l \<and>
          (fresh_attempt sha256 scope request v \<longrightarrow> rd_scopeDigest l = sha256 scope)))"
proof -
  let ?key = "readAttemptKey sha256 scope request" and ?v1 = "read_sweepLocked (fst clock) v"
  have inv1: "svc_inv sha256 ?v1 P" using inv by (rule sweep_svc_inv)
  let ?static = "\<not> (rq_CapabilityID request = [] \<or> int (length (rq_CapabilityID request)) > MaxCapabilityIDBytes \<or>
    \<not> attemptIDPattern (rq_AttemptID request)) \<and> hasPrefix (rq_Ref request) ''artifact:v1:'' \<and> \<not> rs_closed (sv_reads v)"
  show ?thesis
  proof (cases "?static \<and> replayAttempt (sv_reads ?v1) request ?key = None")
    case False
    then have c: "(\<exists>e. r = Inl e \<and> v' = v) \<or> (?static \<and> replayAttempt (sv_reads ?v1) request ?key = Some r \<and> v' = ?v1)"
      using r by (auto simp: readInitial_def readAttempt_def Let_def split: if_splits option.splits)
    have hit: "\<exists>i l. remembers sha256 scope request response v' i l \<and> \<not> fresh_attempt sha256 scope request v"
      if ra: "?static" "replayAttempt (sv_reads ?v1) request ?key = Some (Inr response)" "v' = ?v1" for response
    proof -
      obtain i l where "get (rs_reads (sv_reads ?v1)) i = Some l" "rd_attemptKey l = ?key" "replayed request l"
        "rp_response (rd_replay l) = response" using replayAttempt_Some [OF svc_inv_table [OF inv1] ra(2)] .
      moreover have "\<not> fresh_attempt sha256 scope request v"
        using ref replayAttempt_seen [OF inv ra(2)] by (simp add: fresh_attempt_def)
      ultimately show ?thesis using ra ref by (intro exI [of _ i] exI [of _ l]) (simp add: remembers_def)
    qed
    from c show ?thesis
    proof
      assume "\<exists>e. r = Inl e \<and> v' = v"
      then show ?thesis using inv by auto
    next
      assume d: "?static \<and> replayAttempt (sv_reads ?v1) request ?key = Some r \<and> v' = ?v1"
      then show ?thesis using inv1 hit by fastforce
    qed
  next
    case True
    then have at: "readAttempt sha256 scope request (fst clock) v = (None, ?v1)" by (simp add: readAttempt_def Let_def)
    obtain q w where acq: "readAcquire request (sv_world ?v1) = (q, w)" by force
    show ?thesis
    proof (cases q)
      case (Inl e)
      then show ?thesis using r at acq svc_inv_acquire(1) [OF inv1 k acq] by (auto simp: readInitial_def)
    next
      case (Inr p)
      obtain a ob where p: "p = (a, ob)" by force
      let ?v2 = "?v1\<lparr>sv_world := w\<rparr>"
      have pub: "readPublish sha256 scope request (fst (snd clock)) (snd (snd clock)) a ob ?v2 = (r, v')"
        using r at acq Inr p by (simp add: readInitial_def)
      have inv2: "svc_inv sha256 ?v2 (put ob a P)" using svc_inv_acquire(2) [OF inv1 k acq] Inr p by simp
      have reg: "reg_inv sha256 (sv_world ?v1)" using inv1 by (simp add: svc_inv_def)
      note kept = readAcquire_kept [OF acq reg]
      have P: "get (put ob a P) ob = Some a" by (simp add: gomap_simps)
      have rng: "range_ok request a" using kept Inr p validateReadBounds_Inr [OF bounds] by (auto simp: range_ok_def)
      have none: "get P ob = None"
      proof (cases "get P ob")
        case (Some a')
        then have "sys_live (w_sys (sv_world ?v1)) ob" using inv1 unfolding svc_inv_def leases_inv_def obj_ok_def by blast
        then show ?thesis using kept Inr p sys_live_get by fastforce
      qed simp
      have inv': "svc_inv sha256 v' P"
        by (rule svc_inv_pending_cong [OF _ readPublish_inv [OF inv2 P rng pub]]) (simp add: get_del gomap_simps none)
      have st: "?static" using True by blast
      let ?v3 = "read_sweepLocked (fst (snd clock)) ?v2"
      have inv3: "svc_inv sha256 ?v3 (put ob a P)" using inv2 by (rule sweep_svc_inv)
      from pub show ?thesis
      proof (cases rule: readPublish_cases)
        case closed
        then show ?thesis using st by simp
      next
        case replay
        have seen: "\<not> fresh_attempt sha256 scope request v"
        proof -
          have "get (rs_attempts (sv_reads ?v2)) ?key \<noteq> None" using replayAttempt_seen [OF inv2 replay(2)] .
          then show ?thesis using sweep_attempts [OF inv, of "fst clock" ?key] ref by (auto simp: fresh_attempt_def)
        qed
        have "\<exists>i l. remembers sha256 scope request response v' i l" if ra: "r = Inr response" for response
        proof -
          obtain i l where "get (rs_reads (sv_reads ?v3)) i = Some l" "rd_attemptKey l = ?key" "replayed request l"
            "rp_response (rd_replay l) = response" using replayAttempt_Some [OF svc_inv_table [OF inv3]] replay(2) ra by metis
          then show ?thesis using st ref replay(3) by (intro exI [of _ i] exI [of _ l]) (simp add: remembers_def)
        qed
        then show ?thesis using inv' st seen replay(3) by auto
      next
        case (refused e rest)
        then show ?thesis using inv' by simp
      next
        case (new i rest response lease)
        note p' = prepared_new [OF inv3 P rng new(7)]
        have "remembers sha256 scope request response v' i lease"
          using p' st ref by (simp add: remembers_def replayed_def new(9) published_def gomap_simps)
        then show ?thesis using inv' new st p'(6) by (auto simp: published_def)
      qed
    qed
  qed
qed

lemma Read_ok:
  assumes inv: "svc_inv sha256 v P" and k: "keys_ok P" and r: "Read sha256 scope request clock v = (r, v')"
  shows "svc_inv sha256 v' P \<and> rs_closed (sv_reads v') = rs_closed (sv_reads v) \<and>
    (\<forall>response. r = Inr response \<longrightarrow> validateReadBounds scope request = Inr () \<and> \<not> rs_closed (sv_reads v) \<and>
       (\<exists>i l. remembers sha256 scope request response v' i l \<and>
          (fresh_attempt sha256 scope request v \<longrightarrow> rd_scopeDigest l = sha256 scope)))"
proof (cases "validateReadBounds scope request")
  case (Inl e)
  then show ?thesis using r inv by (auto simp: Read_def)
next
  case (Inr u)
  then have bounds: "validateReadBounds scope request = Inr ()" by simp
  show ?thesis
  proof (cases "hasPrefix (rq_Ref request) ''read:''")
    case False
    then have "readInitial sha256 scope request clock v = (r, v')" using r bounds by (simp add: Read_def)
    then show ?thesis using readInitial_ok [OF inv k bounds False] bounds by blast
  next
    case True
    then have c: "readContinuation sha256 scope request (fst clock) (fst (snd clock)) v = (r, v')"
      using r bounds by (simp add: Read_def)
    have mx: "0 < rq_MaxBytes request" "rq_MaxBytes request \<le> max_int64" using validateReadBounds_Inr [OF bounds] by simp_all
    have inv1: "svc_inv sha256 (read_sweepLocked (fst clock) v) P" using inv by (rule sweep_svc_inv)
    have omit: "rq_CapabilityID request = [] \<and> rq_AttemptID request = []" if "r = Inr response" for response
      using c that by (auto simp: readContinuation_def split: if_splits)
    have inv': "svc_inv sha256 v' P" using inv mx c by (rule readContinuation_inv)
    from c show ?thesis
    proof (cases rule: readContinuation_cases)
      case (early e)
      then show ?thesis using inv' by simp
    next
      case (fail e)
      then show ?thesis using inv' by simp
    next
      case (replay i l)
      then show ?thesis using inv' bounds True omit by (auto simp: remembers_def)
    next
      case (advance i l response l')
      note p = prepared_next [OF inv1 advance(2) mx advance(5,6)]
      have "remembers sha256 scope request response v' i l'"
        using p True omit advance by (simp add: remembers_def replayed_def gomap_simps same_lease_def)
      then show ?thesis using inv' bounds advance True by (auto simp: remembers_def)
    qed
  qed
qed

section \<open>A small service to evaluate\<close>

text \<open>One lease of two of the three bytes of \<open>demo_record\<close>'s artifact, at time 0.\<close>

definition demo_read_limits :: ReadLeaseLimits where
  "demo_read_limits = \<lparr>rl_MaxCount = 2, rl_MaxPinnedBytes = 10, rl_MaxReplayBytes = 300000, rl_Idle = 100, rl_Absolute = 1000, rl_FinalReplay = 50\<rparr>"

definition ref_artifact :: Artifact where
  "ref_artifact = demo_artifact\<lparr>ar_Ref := ''artifact:v1:0''\<rparr>"

definition ref_record :: Record where
  "ref_record = demo_record\<lparr>rc_artifacts := [(''artifact:v1:0'', ref_artifact)]\<rparr>"

definition ref_world :: world where
  "ref_world = snd (NewRegistry [Some ref_record] demo_committed)"

definition demo_service :: service where
  "demo_service = \<lparr>sv_world = ref_world,
     sv_reads = \<lparr>rs_limits = demo_read_limits, rs_random = replicate 64 CHR ''r'', rs_closed = False,
       rs_reads = [], rs_attempts = [], rs_pinnedBytes = 0, rs_replayBytes = 0\<rparr>\<rparr>"

definition demo_request :: ReadRequest where
  "demo_request = \<lparr>rq_CapabilityID = ''git.log'', rq_Ref = ''artifact:v1:0'', rq_AttemptID = ''read:abcdefghijklmnopqrstuv'',
     rq_Offset = 0, rq_MaxBytes = 2\<rparr>"

definition demo_next_request :: ReadRequest where
  "demo_next_request = \<lparr>rq_CapabilityID = [], rq_Ref = ''read:v1:'' @ rawURLEncode (replicate 16 CHR ''r''), rq_AttemptID = [],
     rq_Offset = 2, rq_MaxBytes = 2\<rparr>"

lemma ref_world_reachable: "reg_reachable (\<lambda>x. x) ref_world"
  unfolding ref_world_def
proof (rule reg_start [OF demo_committed_reachable demo_limits_ok])
  show "fresh_records demo_committed [Some ref_record]" by code_simp
qed

lemma demo_service_reachable: "svc_reachable (\<lambda>x. x) (demo_service, [])"
  unfolding demo_service_def
proof (rule svc_start [OF ref_world_reachable])
  show "newReadLeaseStore demo_read_limits (replicate 64 CHR ''r'') = Inr \<lparr>rs_limits = demo_read_limits,
    rs_random = replicate 64 CHR ''r'', rs_closed = False, rs_reads = [], rs_attempts = [], rs_pinnedBytes = 0, rs_replayBytes = 0\<rparr>"
    by (simp add: newReadLeaseStore_def validateReadLeaseLimits_def demo_read_limits_def service_limit_defs)
qed

definition demo_acquired :: world where
  "demo_acquired = snd (readAcquire demo_request ref_world)"

definition demo_id :: string where "demo_id = rawURLEncode (replicate 16 CHR ''r'')"

definition demo_response :: ReadResponse where
  "demo_response = \<lparr>rr_Ref = ''artifact:v1:0'', rr_ContinuationRef = ''read:v1:'' @ demo_id, rr_Offset = 0,
     rr_DataBase64 = stdEncode ''xy'', rr_NextOffset = 2, rr_Complete = False, rr_MediaType = ''text/plain'',
     rr_StoredBytes = 3, rr_SHA256 = hexEncode ''xyz'', rr_ExpiresAt = formatRFC3339Nano 100\<rparr>"

definition demo_lease :: readLease where
  "demo_lease = \<lparr>rd_id = demo_id, rd_scopeDigest = ''me'', rd_attemptKey = readAttemptKey (\<lambda>x. x) ''me'' demo_request,
     rd_artifact = ref_artifact, rd_object = 0, rd_created = 0, rd_idleUntil = 100, rd_expiresAt = 100, rd_final = False,
     rd_replay = \<lparr>rp_inputRef = ''artifact:v1:0'', rp_offset = 0, rp_maxBytes = 2, rp_response = demo_response,
       rp_encoded = jsonText (responseJson demo_response)\<rparr>\<rparr>"

definition demo_reading :: service where
  "demo_reading = \<lparr>sv_world = demo_acquired,
     sv_reads = \<lparr>rs_limits = demo_read_limits, rs_random = replicate 48 CHR ''r'', rs_closed = False,
       rs_reads = [(demo_id, demo_lease)], rs_attempts = [(rd_attemptKey demo_lease, demo_id)],
       rs_pinnedBytes = 3, rs_replayBytes = ReadReplayReservation\<rparr>\<rparr>"

lemma demo_pattern: "attemptIDPattern (rq_AttemptID demo_request)" by code_simp

lemma demo_sweep: "read_sweepLocked 0 (demo_service\<lparr>sv_world := w\<rparr>) = demo_service\<lparr>sv_world := w\<rparr>"
  by (simp add: read_sweepLocked_def dropAll_def demo_service_def)

lemma demo_sweep': "read_sweepLocked 0 demo_service = demo_service"
  by (simp add: read_sweepLocked_def dropAll_def demo_service_def)

lemma demo_replay: "replayAttempt (sv_reads demo_service) request key = None"
  by (simp add: replayAttempt_def demo_service_def)

lemma demo_attempt: "readAttempt (\<lambda>x. x) ''me'' demo_request 0 demo_service = (None, demo_service)"
  unfolding readAttempt_def demo_sweep' Let_def demo_replay
  using demo_pattern by (simp add: demo_request_def demo_service_def MaxCapabilityIDBytes_def hasPrefix_def)

lemma demo_acquire: "readAcquire demo_request ref_world = (Inr (ref_artifact, 0), demo_acquired)"
proof -
  have "fst (readAcquire demo_request ref_world) = Inr (ref_artifact, 0)" by code_simp
  then show ?thesis by (simp add: demo_acquired_def prod_eq_iff)
qed

lemma demo_range: "sys_readRange (w_sys demo_acquired) 0 0 2 = Some ''xy''" by code_simp

lemma demo_fits: "int (length (jsonText (responseJson demo_response))) \<le> 1000" by code_simp

lemma demo_draw: "drawID readHandleCollisionAttempts (\<lambda>i. False) (replicate 64 CHR ''r'') = (Inr demo_id, replicate 48 CHR ''r'')"
  by code_simp

lemma demo_prepare:
  "prepareLocked 0 (w_sys demo_acquired) demo_read_limits
     (newReadLease demo_id ''me'' (readAttemptKey (\<lambda>x. x) ''me'' demo_request) ref_artifact 0 0 100) ''artifact:v1:0'' 0 2 =
   Inr (demo_response, demo_lease)"
proof -
  let ?l = "newReadLease demo_id ''me'' (readAttemptKey (\<lambda>x. x) ''me'' demo_request) ref_artifact 0 0 100"
  have b: "ar_Bytes ref_artifact = 3" by (simp add: ref_artifact_def demo_artifact_def)
  have "chunkResponse ?l 0 ''xy'' 100 = demo_response"
    by (simp add: chunkResponse_def Let_def demo_response_def b) (simp add: ref_artifact_def demo_artifact_def)
  then show ?thesis
    using demo_range demo_fits
    by (simp add: prepareLocked_def Let_def b demo_read_limits_def BrokerResponseMaxBytes_def ReadReplayReservation_def demo_lease_def)
qed

lemma demo_read: "Read (\<lambda>x. x) ''me'' demo_request (0, 0, 0) demo_service = (Inr demo_response, demo_reading)"
proof -
  let ?v = "demo_service\<lparr>sv_world := demo_acquired\<rparr>"
  have "sv_world demo_service = ref_world" by (simp add: demo_service_def)
  have "readPublish (\<lambda>x. x) ''me'' demo_request 0 0 ref_artifact 0 ?v = (Inr demo_response, demo_reading)"
    using demo_prepare demo_draw
    by (simp add: readPublish_def Let_def demo_sweep replayAttempt_def)
     (simp add: demo_service_def demo_read_limits_def demo_request_def service_limit_defs newReadLease_def demo_reading_def demo_lease_def ref_artifact_def demo_artifact_def)
  then show ?thesis
    using demo_attempt demo_acquire \<open>sv_world demo_service = ref_world\<close>
    by (simp add: Read_def readInitial_def validateReadBounds_def demo_request_def service_limit_defs hasPrefix_def max_int64_def)
qed

section \<open>Properties of reads\<close>

definition answer_ok :: "(bytes \<Rightarrow> digest) \<Rightarrow> ReadRequest \<Rightarrow> ReadResponse \<Rightarrow> bytes \<Rightarrow> bool" where
  "answer_ok sha256 request response c \<longleftrightarrow>
     hexEncode (sha256 c) = rr_SHA256 response \<and> int (length c) = rr_StoredBytes response \<and>
     rr_Offset response = rq_Offset request \<and>
     rr_DataBase64 response = stdEncode (chunk_of c (rq_Offset request) (rq_MaxBytes request)) \<and>
     rr_NextOffset response = rq_Offset request + int (length (chunk_of c (rq_Offset request) (rq_MaxBytes request))) \<and>
     (rr_Complete response \<longleftrightarrow> rr_NextOffset response = rr_StoredBytes response) \<and>
     (\<not> rr_Complete response \<longrightarrow> rr_NextOffset response = rq_Offset request + rq_MaxBytes request)"

lemma chunk_short:
  assumes "0 \<le> off" "off \<le> int (length c)" "0 < mx" "off + int (length (chunk_of c off mx)) \<noteq> int (length c)"
  shows "int (length (chunk_of c off mx)) = mx"
  using assms by (auto simp: chunk_of_def min_def)

lemma remembers_answer:
  assumes inv: "svc_inv sha256 v P" and r: "remembers sha256 scope request response v i l"
  shows "answer_ok sha256 request response (sys_content (w_sys (sv_world v)) (rd_object l)) \<and>
    rr_ExpiresAt response = formatRFC3339Nano (rd_expiresAt l) \<and>
    rp_encoded (rd_replay l) = jsonText (responseJson response)"
proof -
  let ?c = "sys_content (w_sys (sv_world v)) (rd_object l)"
  have l: "get (rs_reads (sv_reads v)) i = Some l" and rp: "replayed request l" "rp_response (rd_replay l) = response"
    using r by (simp_all add: remembers_def)
  have ob: "obj_ok sha256 (w_sys (sv_world v)) (rd_artifact l) (rd_object l)"
    and ok: "replay_ok (rs_limits (sv_reads v)) ?c l"
    using inv l unfolding svc_inv_def leases_inv_def by blast+
  have off: "0 \<le> rq_Offset request" "rq_Offset request \<le> int (length ?c)" "0 < rq_MaxBytes request"
    and resp: "response = chunkResponse l (rq_Offset request) (chunk_of ?c (rq_Offset request) (rq_MaxBytes request)) (rd_expiresAt l)"
    and enc: "rp_encoded (rd_replay l) = jsonText (responseJson response)"
    using ok rp by (auto simp: replay_ok_def replayed_def Let_def)
  have len: "ar_Bytes (rd_artifact l) = int (length ?c)" using ob by (simp add: obj_ok_def)
  show ?thesis
    using ob off chunk_short [OF off] enc unfolding resp answer_ok_def chunkResponse_simps len
    by (auto simp: obj_ok_def)
qed

text \<open>Every chunk is right: a successful read returns, under the advertised SHA-256 and size, exactly
  the requested range of the artifact cut off at its end, with the offset to continue from; it says
  complete exactly at the end of the artifact, and otherwise the chunk is full, so reading makes
  progress.\<close>

theorem read_chunk_exact:
  assumes "svc_reachable sha256 (v, P)" and r: "Read sha256 scope request clock v = (Inr response, v')"
  shows "\<exists>c. answer_ok sha256 request response c"
proof -
  have inv: "svc_inv sha256 v P" "keys_ok P" using svc_reachable_inv [OF assms(1)] by (simp_all add: full_inv_def)
  show ?thesis using Read_ok [OF inv r] remembers_answer by blast
qed

theorem read_chunk_exact_witness: "\<exists>c. answer_ok (\<lambda>x. x) demo_request demo_response c"
  using demo_service_reachable demo_read by (rule read_chunk_exact)





text \<open>C27: Memory is bounded: in every reachable state the lease store holds at most the configured number of
  leases, its byte counters are exactly the bytes pinned and the replay reservations of the leases it
  holds, both within their limits, and attempts and leases correspond one to one.\<close>

theorem read_store_bounded:
  assumes "svc_reachable sha256 (v, P)"
  defines "s \<equiv> sv_reads v"
  shows "int (length (rs_reads s)) \<le> rl_MaxCount (rs_limits s)
    \<and> rs_pinnedBytes s = msum (\<lambda>l. int (length (sys_content (w_sys (sv_world v)) (rd_object l)))) (rs_reads s)
    \<and> rs_pinnedBytes s \<le> rl_MaxPinnedBytes (rs_limits s)
    \<and> rs_replayBytes s = ReadReplayReservation * int (length (rs_reads s))
    \<and> rs_replayBytes s \<le> rl_MaxReplayBytes (rs_limits s)
    \<and> (\<forall>k i. get (rs_attempts s) k = Some i \<longleftrightarrow> (\<exists>l. get (rs_reads s) i = Some l \<and> rd_attemptKey l = k))"
proof -
  have inv: "svc_inv sha256 v P" using svc_reachable_inv [OF assms(1)] by (simp add: full_inv_def)
  have t: "table_inv s" using inv by (simp add: svc_inv_def s_def)
  have "ar_Bytes (rd_artifact l) = int (length (sys_content (w_sys (sv_world v)) (rd_object l)))"
    if "(i, l) \<in> set (rs_reads s)" for i l
  proof -
    have "get (rs_reads s) i = Some l" using that t by (simp add: table_inv_def keys_ok_get)
    then show ?thesis using inv unfolding svc_inv_def leases_inv_def obj_ok_def s_def by metis
  qed
  then have "msum (\<lambda>l. ar_Bytes (rd_artifact l)) (rs_reads s) =
      msum (\<lambda>l. int (length (sys_content (w_sys (sv_world v)) (rd_object l)))) (rs_reads s)" by (rule msum_cong)
  then show ?thesis using t unfolding table_inv_def by metis
qed

theorem read_store_bounded_witness:
  "rs_pinnedBytes (sv_reads demo_service) \<le> rl_MaxPinnedBytes (rs_limits (sv_reads demo_service))"
  using read_store_bounded [OF demo_service_reachable] by blast

text \<open>C34: Scopes are isolated: a well-formed continuation request under another caller scope (one whose hash
  differs from that of the lease) is answered as if the lease did not exist, and neither advances nor
  extends it: apart from the sweep of expired leases the state is unchanged.\<close>

theorem read_scope_isolated:
  assumes "svc_reachable sha256 (v, P)" and bounds: "validateReadBounds scope request = Inr ()"
    and omit: "rq_CapabilityID request = []" "rq_AttemptID request = []" and pre: "hasPrefix (rq_Ref request) ''read:''"
    and i: "parseReadHandle (rq_Ref request) = Some i" and l: "get (rs_reads (sv_reads v)) i = Some l"
    and other: "rd_scopeDigest l \<noteq> sha256 scope"
  shows "Read sha256 scope request clock v = (Inl ErrContinuationStale, read_sweepLocked (fst clock) v)"
proof -
  have inv: "svc_inv sha256 v P" using svc_reachable_inv [OF assms(1)] by (simp add: full_inv_def)
  have "\<not> rs_closed (sv_reads v)" using inv l unfolding svc_inv_def table_inv_def by auto
  moreover have "get (rs_reads (sv_reads (read_sweepLocked (fst clock) v))) i = (if read_expired (fst clock) l then None else Some l)"
    using sweep_inv [OF inv, of "fst clock"] l by simp
  ultimately show ?thesis
    using bounds omit pre i other by (simp add: Read_def readContinuation_def Let_def)
qed

lemma Read_reachable:
  assumes reach: "svc_reachable sha256 (v, [])" and r: "Read sha256 scope request clock v = (r, v')"
  shows "svc_reachable sha256 (v', [])"
proof (cases "validateReadBounds scope request")
  case (Inl e)
  then show ?thesis using r reach by (simp add: Read_def)
next
  case (Inr u)
  then have b: "validateReadBounds scope request = Inr ()" by simp
  show ?thesis
  proof (cases "hasPrefix (rq_Ref request) ''read:''")
    case True
    then have "readContinuation sha256 scope request (fst clock) (fst (snd clock)) v = (r, v')" using r b by (simp add: Read_def)
    then show ?thesis using svc_next [OF reach svc_continue [OF b]] by blast
  next
    case False
    then have i: "readInitial sha256 scope request clock v = (r, v')" using r b by (simp add: Read_def)
    obtain q v1 where at: "readAttempt sha256 scope request (fst clock) v = (q, v1)" by force
    have r1: "svc_reachable sha256 (v1, [])" using svc_next [OF reach svc_attempt [OF b at]] .
    obtain c w where acq: "readAcquire request (sv_world v1) = (c, w)" by force
    show ?thesis
    proof (cases q)
      case (Some x)
      then show ?thesis using i at r1 by (simp add: readInitial_def)
    next
      case None
      show ?thesis
      proof (cases c)
        case (Inl e)
        then show ?thesis using i at None acq svc_next [OF r1 svc_acquire_fail [of request v1 e w]] by (simp add: readInitial_def)
      next
        case (Inr p)
        obtain a ob where p: "p = (a, ob)" by force
        have r2: "svc_reachable sha256 (v1\<lparr>sv_world := w\<rparr>, put ob a [])"
          using acq Inr p by (intro svc_next [OF r1 svc_acquire]) simp
        have pub: "readPublish sha256 scope request (fst (snd clock)) (snd (snd clock)) a ob (v1\<lparr>sv_world := w\<rparr>) = (r, v')"
          using i at None acq Inr p by (simp add: readInitial_def)
        have "reg_inv sha256 (sv_world v1)" using svc_reachable_inv [OF r1] by (simp add: full_inv_def svc_inv_def)
        then have "rq_Offset request \<le> ar_Bytes a" using readAcquire_kept [OF acq] Inr p by simp
        then have "svc_reachable sha256 (v', del ob (put ob a []))"
          using svc_next [OF r2 svc_publish [OF b _ _ pub]] by simp
        then show ?thesis by simp
      qed
    qed
  qed
qed

lemma demo_reading_reachable: "svc_reachable (\<lambda>x. x) (demo_reading, [])"
  using demo_service_reachable demo_read by (rule Read_reachable)

theorem read_scope_isolated_witness:
  "Read (\<lambda>x. x) ''you'' demo_next_request (5, 5, 5) demo_reading = (Inl ErrContinuationStale, read_sweepLocked 5 demo_reading)"
proof -
  have b: "validateReadBounds ''you'' demo_next_request = Inr ()" by code_simp
  have h: "parseReadHandle (rq_Ref demo_next_request) = Some demo_id" by code_simp
  show ?thesis
    using read_scope_isolated [OF demo_reading_reachable b, of demo_id demo_lease "(5, 5, 5)"] h
    by (simp add: demo_next_request_def hasPrefix_def demo_reading_def demo_lease_def)
qed

text \<open>The objects that a bulk drop releases.\<close>

lemma dropAll_live:
  "sys_live (w_sys (sv_world (dropAll ls v))) ob \<longleftrightarrow>
     sys_live (w_sys (sv_world v)) ob \<and> ob \<notin> (\<lambda>(i, l). rd_object l) ` set ls"
  by (induction ls arbitrary: v) (auto simp: dropAll_def dropLocked_def release_lease_live)

text \<open>Nothing stays pinned: the sweep that starts every operation drops exactly the leases that have
  expired by then, and closing the store drops all of them; a dropped lease's object is released in the
  snapshot store, and no other lease is.\<close>

theorem read_expiry_releases:
  assumes "svc_reachable sha256 (v, P)" and l: "get (rs_reads (sv_reads v)) i = Some l"
  shows "get (rs_reads (sv_reads (read_sweepLocked now v))) i = (if rd_expiresAt l \<le> now then None else Some l)
    \<and> (sys_live (w_sys (sv_world (read_sweepLocked now v))) (rd_object l) \<longleftrightarrow> now < rd_expiresAt l)
    \<and> rs_reads (sv_reads (read_Close v)) = [] \<and> \<not> sys_live (w_sys (sv_world (read_Close v))) (rd_object l)"
proof -
  have inv: "svc_inv sha256 v P" using svc_reachable_inv [OF assms(1)] by (simp add: full_inv_def)
  have k: "keys_ok (rs_reads (sv_reads v))" using inv by (simp add: svc_inv_def table_inv_def)
  have live: "sys_live (w_sys (sv_world v)) (rd_object l)"
    using inv l unfolding svc_inv_def leases_inv_def obj_ok_def by blast
  have uniq: "j = i" if "get (rs_reads (sv_reads v)) j = Some m" "rd_object m = rd_object l" for j m
    using inv l that unfolding svc_inv_def leases_inv_def by blast
  have m: "(i, l) \<in> set (rs_reads (sv_reads v))" using l by (rule map_of_SomeD)
  have "rd_object l \<in> (\<lambda>(i, l). rd_object l) ` set (filter (\<lambda>(i, l). read_expired now l) (rs_reads (sv_reads v)))
      \<longleftrightarrow> read_expired now l"
  proof
    assume "rd_object l \<in> (\<lambda>(i, l). rd_object l) ` set (filter (\<lambda>(i, l). read_expired now l) (rs_reads (sv_reads v)))"
    then obtain j n where n: "(j, n) \<in> set (rs_reads (sv_reads v))" "read_expired now n" "rd_object n = rd_object l" by auto
    then have "get (rs_reads (sv_reads v)) j = Some n" using k by (simp add: keys_ok_get)
    then have "n = l" using uniq n(3) l by force
    with n(2) show "read_expired now l" by simp
  qed (use m in force)
  then have "sys_live (w_sys (sv_world (read_sweepLocked now v))) (rd_object l) \<longleftrightarrow> now < rd_expiresAt l"
    using live by (simp add: read_sweepLocked_def dropAll_live read_expired_def)
  moreover have "\<not> rs_closed (sv_reads v)" using inv l unfolding svc_inv_def table_inv_def by auto
  then have "\<not> sys_live (w_sys (sv_world (read_Close v))) (rd_object l)"
    using m by (force simp: read_Close_def Let_def dropAll_live)
  ultimately show ?thesis
    using sweep_inv [OF inv, of now] read_Close_inv [OF inv] l by (simp add: read_expired_def not_less)
qed

theorem read_expiry_releases_witness:
  "rs_reads (sv_reads (read_sweepLocked 100 demo_reading)) = [] \<and> \<not> sys_live (w_sys (sv_world (read_sweepLocked 100 demo_reading))) 0"
proof -
  have l: "get (rs_reads (sv_reads demo_reading)) demo_id = Some demo_lease" by (simp add: demo_reading_def)
  show ?thesis
    using read_expiry_releases [OF demo_reading_reachable l, of 100]
    by (simp add: demo_lease_def) (simp add: read_sweepLocked_def dropAll_def dropLocked_def demo_reading_def demo_lease_def read_expired_def)
qed

section \<open>Following a read to its end\<close>

text \<open>
  A client that follows the continuation references, \<open>n\<close> at most, with chunks of \<open>mx\<close> bytes; \<open>clock\<close>
  gives the clock readings of each call.
\<close>

fun follow :: "(bytes \<Rightarrow> digest) \<Rightarrow> string \<Rightarrow> int \<Rightarrow> (nat \<Rightarrow> time \<times> time \<times> time) \<Rightarrow> nat \<Rightarrow> ReadResponse \<Rightarrow> service \<Rightarrow> ReadResponse list res" where
  "follow sha256 scope mx clock 0 response v = Inr []"
| "follow sha256 scope mx clock (Suc n) response v =
     (if rr_Complete response then Inr []
      else case Read sha256 scope \<lparr>rq_CapabilityID = [], rq_Ref = rr_ContinuationRef response, rq_AttemptID = [],
                                   rq_Offset = rr_NextOffset response, rq_MaxBytes = mx\<rparr> (clock n) v of
             (Inl e, v') \<Rightarrow> Inl e
           | (Inr r, v') \<Rightarrow> rbind (follow sha256 scope mx clock n r v') (\<lambda>rs. Inr (r # rs)))"

lemma dropAll_run: "(sys_step sha256)\<^sup>*\<^sup>* (w_sys (sv_world v)) (w_sys (sv_world (dropAll ls v)))"
proof (induction ls arbitrary: v)
  case (Cons p ls)
  obtain i l where p: "p = (i, l)" by force
  have "sys_step sha256 (w_sys (sv_world v)) (w_sys (sv_world (dropLocked i l v)))"
    by (simp add: dropLocked_def step_release_lease)
  then show ?case using Cons.IH [of "dropLocked i l v"] by (simp add: p dropAll_def)
qed (simp add: dropAll_def)

text \<open>The lease that a continuation goes through, and the bytes it pins.\<close>

definition reading :: "(bytes \<Rightarrow> digest) \<Rightarrow> string \<Rightarrow> pending \<Rightarrow> ReadResponse \<Rightarrow> bytes \<Rightarrow> service \<Rightarrow> bool" where
  "reading sha256 scope P response c v \<longleftrightarrow>
     svc_inv sha256 v P \<and> keys_ok P \<and>
     (\<exists>i l. get (rs_reads (sv_reads v)) i = Some l \<and> rp_response (rd_replay l) = response \<and>
        rd_scopeDigest l = sha256 scope \<and> sys_content (w_sys (sv_world v)) (rd_object l) = c)"

lemma reading_response:
  assumes "reading sha256 scope P response c v"
  shows "0 \<le> rr_NextOffset response \<and> rr_NextOffset response \<le> int (length c) \<and>
    (rr_Complete response \<longleftrightarrow> rr_NextOffset response = int (length c)) \<and> hexEncode (sha256 c) = rr_SHA256 response \<and>
    (\<not> rr_Complete response \<longrightarrow> rr_Offset response < rr_NextOffset response)"
proof -
  obtain i l where l: "get (rs_reads (sv_reads v)) i = Some l" "rp_response (rd_replay l) = response"
    "sys_content (w_sys (sv_world v)) (rd_object l) = c" and inv: "svc_inv sha256 v P"
    using assms by (auto simp: reading_def)
  then have ob: "obj_ok sha256 (w_sys (sv_world v)) (rd_artifact l) (rd_object l)" and ok: "replay_ok (rs_limits (sv_reads v)) c l"
    unfolding svc_inv_def leases_inv_def by blast+
  let ?p = "rd_replay l"
  have off: "0 \<le> rp_offset ?p" "rp_offset ?p \<le> int (length c)" "0 < rp_maxBytes ?p"
    and resp: "response = chunkResponse l (rp_offset ?p) (chunk_of c (rp_offset ?p) (rp_maxBytes ?p)) (rd_expiresAt l)"
    using ok l(2) by (auto simp: replay_ok_def Let_def)
  have len: "ar_Bytes (rd_artifact l) = int (length c)" using ob l(3) by (simp add: obj_ok_def)
  have "hexEncode (sha256 c) = rr_SHA256 response" using ob l(3) by (simp add: obj_ok_def resp)
  moreover have "\<not> rr_Complete response \<longrightarrow> rr_Offset response < rr_NextOffset response"
    using chunk_short [OF off] off(3) unfolding resp chunkResponse_simps len by linarith
  moreover have "0 \<le> rr_NextOffset response" "rr_NextOffset response \<le> int (length c)"
    using replay_next [OF ok len [symmetric]] l(2) by auto
  ultimately show ?thesis by (simp add: resp len)
qed

lemma reading_step:
  assumes rd: "reading sha256 scope P response c v" and nc: "\<not> rr_Complete response"
    and r: "Read sha256 scope \<lparr>rq_CapabilityID = [], rq_Ref = rr_ContinuationRef response, rq_AttemptID = [],
      rq_Offset = rr_NextOffset response, rq_MaxBytes = mx\<rparr> clock v = (Inr r, v')"
  shows "reading sha256 scope P r c v' \<and> rr_DataBase64 r = stdEncode (chunk_of c (rr_NextOffset response) mx) \<and>
    rr_NextOffset r = rr_NextOffset response + int (length (chunk_of c (rr_NextOffset response) mx))"
proof -
  let ?req = "\<lparr>rq_CapabilityID = [], rq_Ref = rr_ContinuationRef response, rq_AttemptID = [],
    rq_Offset = rr_NextOffset response, rq_MaxBytes = mx\<rparr>" and ?v1 = "read_sweepLocked (fst clock) v"
  obtain i l where l: "get (rs_reads (sv_reads v)) i = Some l" "rp_response (rd_replay l) = response"
    "rd_scopeDigest l = sha256 scope" "sys_content (w_sys (sv_world v)) (rd_object l) = c"
    and inv: "svc_inv sha256 v P" and k: "keys_ok P"
    using rd by (auto simp: reading_def)
  have ok: "replay_ok (rs_limits (sv_reads v)) c l" and idl: "rd_id l = i"
    using inv l unfolding svc_inv_def leases_inv_def table_inv_def by blast+
  have resp: "response = chunkResponse l (rp_offset (rd_replay l)) (chunk_of c (rp_offset (rd_replay l)) (rp_maxBytes (rd_replay l))) (rd_expiresAt l)"
    using ok l(2) by (auto simp: replay_ok_def Let_def)
  then have ref: "rr_ContinuationRef response = ''read:v1:'' @ i" using nc idl by (metis chunkResponse_simps(4,9))
  have b: "validateReadBounds scope ?req = Inr ()" using Read_ok [OF inv k r] by simp
  have mx: "0 < rq_MaxBytes ?req" "rq_MaxBytes ?req \<le> max_int64" using validateReadBounds_Inr [OF b] by simp_all
  have pre: "hasPrefix (rr_ContinuationRef response) ''read:''" by (simp add: ref hasPrefix_def)
  then have c: "readContinuation sha256 scope ?req (fst clock) (fst (snd clock)) v = (Inr r, v')" using r b by (simp add: Read_def)
  have inv1: "svc_inv sha256 ?v1 P" using inv by (rule sweep_svc_inv)
  have inv': "svc_inv sha256 v' P" using inv mx c by (rule readContinuation_inv)
  have handle: "parseReadHandle (''read:v1:'' @ i) = Some j \<Longrightarrow> j = i" for j
    by (auto simp: parseReadHandle_def Let_def trimPrefix_def hasPrefix_def split: option.splits if_splits)
  have same: "m = l" if "get (rs_reads (sv_reads ?v1)) i = Some m" for m
    using sweep_inv [OF inv, of "fst clock"] that l(1) by (auto split: if_splits)
  have content: "sys_content (w_sys (sv_world ?v1)) (rd_object l) = c" if "get (rs_reads (sv_reads ?v1)) i = Some l"
  proof -
    have "sys_live (w_sys (sv_world ?v1)) (rd_object l)" "sys_live (w_sys (sv_world v)) (rd_object l)"
      using inv1 inv that l(1) unfolding svc_inv_def leases_inv_def obj_ok_def by blast+
    moreover have "(sys_step sha256)\<^sup>*\<^sup>* (w_sys (sv_world v)) (w_sys (sv_world ?v1))"
      unfolding read_sweepLocked_def by (rule dropAll_run)
    moreover have "sys_inv sha256 (w_sys (sv_world v))" using inv reg_inv_sys by (auto simp: svc_inv_def)
    ultimately show ?thesis using sys_run_content l(4) by metis
  qed
  from c show ?thesis
  proof (cases rule: readContinuation_cases)
    case (replay j m)
    then have "m = l" using handle same ref by auto
    then have "rr_NextOffset response = rp_offset (rd_replay l)" using replay(4) by (simp add: replayed_def)
    then have "rr_NextOffset response = rr_Offset response" using resp by (metis chunkResponse_simps(1))
    then show ?thesis using reading_response [OF rd] nc by simp
  next
    case (advance j m response' m')
    then have j: "j = i" "m = l" using handle [of j] same ref by auto
    note p = prepared_next [OF inv1 advance(2) mx advance(5,6)]
    have g: "get (rs_reads (sv_reads v')) i = Some m'" using advance(8) j by (simp add: gomap_simps)
    have m': "rp_response (rd_replay m') = r" "rd_scopeDigest m' = sha256 scope" "rd_object m' = rd_object l"
      using p(2,4) advance(7) j l(3) by (simp_all add: same_lease_def)
    have "sys_content (w_sys (sv_world v')) (rd_object m') = c"
      using advance(2,8) j content m'(3) by simp
    then have "reading sha256 scope P r c v'" unfolding reading_def using inv' k g m' by blast
    moreover have "r = chunkResponse l (rr_NextOffset response) (chunk_of c (rr_NextOffset response) mx) (rd_expiresAt m')"
      using p(5) advance(2,7) j content by simp
    ultimately show ?thesis by simp
  qed simp_all
qed

lemma chunk_append: "take m (drop n c) @ drop (n + length (take m (drop n c))) c = drop n c"
proof -
  have "take m xs @ drop (length (take m xs)) xs = xs" for xs :: "'a list" by (cases "m \<le> length xs") simp_all
  then show ?thesis by (metis drop_drop add.commute)
qed

lemma follow_reassembles:
  assumes "reading sha256 scope P response c v" and "follow sha256 scope mx clock n response v = Inr rs"
    and "int (length c) - rr_NextOffset response \<le> int n * mx" and "0 < mx"
  shows "\<exists>cs. map rr_DataBase64 rs = map stdEncode cs \<and> concat cs = drop (nat (rr_NextOffset response)) c \<and>
    rr_Complete (last (response # rs))"
  using assms
proof (induction n arbitrary: response v rs)
  case 0
  then show ?case using reading_response [OF 0(1)] by (intro exI [of _ "[]"]) auto
next
  case (Suc n)
  show ?case
  proof (cases "rr_Complete response")
    case True
    then show ?thesis using reading_response [OF Suc.prems(1)] Suc.prems(2) by (intro exI [of _ "[]"]) auto
  next
    case False
    let ?next = "rr_NextOffset response" and ?d = "chunk_of c (rr_NextOffset response) mx"
    obtain r v' rs' where r: "Read sha256 scope \<lparr>rq_CapabilityID = [], rq_Ref = rr_ContinuationRef response, rq_AttemptID = [],
        rq_Offset = ?next, rq_MaxBytes = mx\<rparr> (clock n) v = (Inr r, v')"
      and f: "follow sha256 scope mx clock n r v' = Inr rs'" "rs = r # rs'"
      using Suc.prems(2) False by (auto simp: res_simps split: prod.splits sum.splits)
    note st = reading_step [OF Suc.prems(1) False r]
    have off: "0 \<le> ?next" "?next \<le> int (length c)" using reading_response [OF Suc.prems(1)] by auto
    have len: "int (length ?d) = min mx (int (length c) - ?next)"
      using off Suc.prems(4) by (auto simp: chunk_of_def min_def)
    have "int (length c) - rr_NextOffset r \<le> int n * mx"
      using st Suc.prems(3,4) len by (auto simp: distrib_right min_def) 
    then obtain cs where cs: "map rr_DataBase64 rs' = map stdEncode cs" "concat cs = drop (nat (rr_NextOffset r)) c"
      "rr_Complete (last (r # rs'))"
      using Suc.IH [of r v' rs'] st f(1) Suc.prems(4) by blast
    have nx: "nat (rr_NextOffset r) = nat ?next + length ?d" using st off by (simp add: nat_add_distrib)
    have "?d @ drop (nat (rr_NextOffset r)) c = drop (nat ?next) c"
      unfolding nx chunk_of_def by (rule chunk_append)
    then show ?thesis using cs st f(2) by (intro exI [of _ "?d # cs"]) auto
  qed
qed

text \<open>A sweep of expired leases leaves the installed records as they are.\<close>

lemma dropAll_reg: "w_reg (sv_world (dropAll ls v)) = w_reg (sv_world v)"
  by (induction ls arbitrary: v) (auto simp: dropAll_def dropLocked_def)

lemma sweep_reg_map: "reg_map (sv_world (read_sweepLocked now v)) = reg_map (sv_world v)"
  by (rule reg_map_cong) (simp_all add: read_sweepLocked_def dropAll_reg)

text \<open>The artifact of a request: the one that the record installed under the capability has under the reference.\<close>

definition requested :: "ReadRequest \<Rightarrow> service \<Rightarrow> Artifact \<Rightarrow> bool" where
  "requested request v a \<longleftrightarrow>
     (\<exists>record. reg_map (sv_world v) (rq_CapabilityID request) = Some record \<and>
        get (rc_artifacts record) (rq_Ref request) = Some a \<and> readableArtifactKind (ar_Kind a))"

lemma readAcquire_requested:
  assumes acq: "readAcquire request (sv_world v) = (Inr (a, ob), w')"
  shows "requested request v a"
proof -
  obtain w1 b where l: "Lookup (rq_CapabilityID request) (sv_world v) = Inr (w1, b)"
    using acq by (cases "Lookup (rq_CapabilityID request) (sv_world v)") (auto simp: readAcquire_def)
  then obtain i g where g: "get (rg_entries (w_reg (sv_world v))) (rq_CapabilityID request) = Some i"
      "get (rg_gens (w_reg (sv_world v))) i = Some g" "newLease i g None (sv_world v) = (w1, b)"
    unfolding Lookup_leased leased_def by blast
  have r: "leaseRecord b w1 = Some (gn_record g)" 
    using newLease_frame(4,7) [OF g(2,3)] g(2) by (simp add: leaseRecord_def gomap_simps)
  obtain s where "Record_acquireArtifact (gn_record g) (rq_Ref request) (w_sys w1) = Some (a, ob, s)" "readableArtifactKind (ar_Kind a)"
    using acq l r by (auto simp: readAcquire_def Let_def split: option.splits if_splits)
  then have "get (rc_artifacts (gn_record g)) (rq_Ref request) = Some a"
    by (auto simp: Record_acquireArtifact_def split: option.splits)
  then show ?thesis using g \<open>readableArtifactKind (ar_Kind a)\<close> by (auto simp: requested_def reg_map_def)
qed

text \<open>What a new read answers is described by the artifact of its request.\<close>

lemma Read_requested:
  assumes inv: "svc_inv sha256 v P" and k: "keys_ok P" and r: "Read sha256 scope request clock v = (Inr response, v')"
    and new: "\<not> hasPrefix (rq_Ref request) ''read:''" and fresh: "fresh_attempt sha256 scope request v"
  shows "\<exists>a. requested request v a \<and> rr_SHA256 response = ar_SHA256 a \<and> rr_StoredBytes response = ar_Bytes a \<and>
    rr_MediaType response = ar_MediaType a"
proof -
  let ?v1 = "read_sweepLocked (fst clock) v" and ?key = "readAttemptKey sha256 scope request"
  have inv1: "svc_inv sha256 ?v1 P" using inv by (rule sweep_svc_inv)
  have none: "get (rs_attempts (sv_reads v)) ?key = None" using fresh new by (simp add: fresh_attempt_def)
  have i: "readInitial sha256 scope request clock v = (Inr response, v')"
    using r new by (cases "validateReadBounds scope request") (auto simp: Read_def)
  have "readAttempt sha256 scope request (fst clock) v = (None, ?v1)"
    using i none replayAttempt_seen [OF inv, of "fst clock" request ?key]
    by (auto simp: readInitial_def readAttempt_def Let_def split: if_splits option.splits)
  moreover obtain q w where acq: "readAcquire request (sv_world ?v1) = (q, w)" by force
  moreover obtain a ob where q: "q = Inr (a, ob)"
    using i calculation by (cases q) (auto simp: readInitial_def)
  ultimately have pub: "readPublish sha256 scope request (fst (snd clock)) (snd (snd clock)) a ob (?v1\<lparr>sv_world := w\<rparr>) = (Inr response, v')"
    using i by (simp add: readInitial_def)
  have req: "requested request v a" 
    using readAcquire_requested [of request ?v1 a ob w] acq q unfolding requested_def sweep_reg_map by simp
  have inv2: "svc_inv sha256 (?v1\<lparr>sv_world := w\<rparr>) (put ob a P)" using svc_inv_acquire(2) [OF inv1 k acq] q by simp
  from pub show ?thesis
  proof (cases rule: readPublish_cases)
    case replay
    then have "get (rs_attempts (sv_reads ?v1)) ?key \<noteq> None" using replayAttempt_seen [OF inv2] by simp
    then show ?thesis using sweep_attempts [OF inv, of "fst clock" ?key] none by auto
  next
    case (new i rest response' lease)
    then show ?thesis using req
      by (auto simp: prepareLocked_def Let_def chunkResponse_def newReadLease_def split: option.splits if_splits)
  qed simp_all
qed

text \<open>C2: Reading to the end returns the artifact that was asked for: a read of an artifact reference at offset 0 that the
  server has not seen before, followed by continuation reads with chunks of any length until one says complete, yields
  chunks whose concatenation has the length and the SHA-256 that the record installed under the capability advertises for
  the artifact under that very reference, provided that none of the continuations fails; as many continuations as there
  are chunks left are enough to be complete.  Followed from an answer to a continuation at offset 0 instead, the chunks
  have the SHA-256 of that answer.\<close>

theorem read_follow_reassembles:
  assumes "svc_reachable sha256 (v, P)" and off: "rq_Offset request = 0"
    and r: "Read sha256 scope request clock v = (Inr response, v')"
    and f: "follow sha256 scope mx clocks n response v' = Inr rs" and mx: "0 < mx"
    and fresh: "fresh_attempt sha256 scope request v"
    and n: "rr_StoredBytes response - rr_NextOffset response \<le> int n * mx"
  shows "\<exists>cs. map rr_DataBase64 (response # rs) = map stdEncode cs \<and> hexEncode (sha256 (concat cs)) = rr_SHA256 response \<and>
    rr_Complete (last (response # rs)) \<and>
    (\<not> hasPrefix (rq_Ref request) ''read:'' \<longrightarrow>
      (\<exists>record a. reg_map (sv_world v) (rq_CapabilityID request) = Some record \<and>
         get (rc_artifacts record) (rq_Ref request) = Some a \<and> readableArtifactKind (ar_Kind a) \<and>
         hexEncode (sha256 (concat cs)) = ar_SHA256 a \<and> int (length (concat cs)) = ar_Bytes a \<and>
         rr_MediaType response = ar_MediaType a))"
proof -
  have inv: "svc_inv sha256 v P" "keys_ok P" using svc_reachable_inv [OF assms(1)] by (simp_all add: full_inv_def)
  obtain i l where i: "remembers sha256 scope request response v' i l" and inv': "svc_inv sha256 v' P"
    and scope: "rd_scopeDigest l = sha256 scope"
    using Read_ok [OF inv r] fresh by auto
  let ?c = "sys_content (w_sys (sv_world v')) (rd_object l)"
  have a: "answer_ok sha256 request response ?c" using remembers_answer [OF inv' i] by simp
  have rd: "reading sha256 scope P response ?c v'"
    using inv' inv(2) i scope unfolding reading_def remembers_def by blast
  have "int (length ?c) - rr_NextOffset response \<le> int n * mx" using n a by (simp add: answer_ok_def)
  then obtain cs where cs: "map rr_DataBase64 rs = map stdEncode cs" "concat cs = drop (nat (rr_NextOffset response)) ?c"
    "rr_Complete (last (response # rs))"
    using follow_reassembles [OF rd f _ mx] by blast
  let ?d = "chunk_of ?c 0 (rq_MaxBytes request)"
  have d: "rr_DataBase64 response = stdEncode ?d" "nat (rr_NextOffset response) = length ?d"
    using a off by (simp_all add: answer_ok_def)
  have "?d @ drop (length ?d) ?c = ?c" using chunk_append [of "nat (rq_MaxBytes request)" 0 ?c] by (simp add: chunk_of_def)
  then have "concat (?d # cs) = ?c" using cs d by simp
  then show ?thesis using cs d a Read_requested [OF inv r _ fresh] unfolding requested_def
    by (intro exI [of _ "?d # cs"]) (auto simp: answer_ok_def)
qed

lemma demo_range_next: "sys_readRange (w_sys demo_acquired) 0 2 2 = Some ''z''" by code_simp

definition demo_last :: ReadResponse where
  "demo_last = \<lparr>rr_Ref = ''artifact:v1:0'', rr_ContinuationRef = [], rr_Offset = 2, rr_DataBase64 = stdEncode ''z'',
     rr_NextOffset = 3, rr_Complete = True, rr_MediaType = ''text/plain'', rr_StoredBytes = 3,
     rr_SHA256 = hexEncode ''xyz'', rr_ExpiresAt = formatRFC3339Nano 51\<rparr>"

lemma demo_last_eq: "chunkResponse demo_lease 2 ''z'' 51 = demo_last"
  by (simp add: chunkResponse_def demo_lease_def ref_artifact_def demo_artifact_def demo_last_def)

lemma demo_last_fits: "int (length (jsonText (responseJson demo_last))) \<le> 1000" by code_simp

lemma demo_next:
  "fst (Read (\<lambda>x. x) ''me'' demo_next_request (1, 1, 1) demo_reading) = Inr demo_last"
proof -
  have b: "validateReadBounds ''me'' demo_next_request = Inr ()" by code_simp
  have h: "parseReadHandle (rq_Ref demo_next_request) = Some demo_id" by code_simp
  have sw: "read_sweepLocked 1 demo_reading = demo_reading"
    by (simp add: demo_reading_def read_sweepLocked_def read_expired_def demo_lease_def dropAll_def)
  have l: "get (rs_reads (sv_reads demo_reading)) demo_id = Some demo_lease" "rs_limits (sv_reads demo_reading) = demo_read_limits"
    "sv_world demo_reading = demo_acquired" "\<not> rs_closed (sv_reads demo_reading)" by (simp_all add: demo_reading_def)
  have f: "rd_object demo_lease = 0" "ar_Bytes (rd_artifact demo_lease) = 3" "rd_created demo_lease = 0" "\<not> rd_final demo_lease"
    "rp_offset (rd_replay demo_lease) = 0" "rr_NextOffset (rp_response (rd_replay demo_lease)) = 2" "rd_scopeDigest demo_lease = ''me''"
    by (simp_all add: demo_lease_def ref_artifact_def demo_artifact_def demo_response_def)
  have p: "\<exists>l. prepareLocked 1 (w_sys demo_acquired) demo_read_limits demo_lease (rq_Ref demo_next_request) 2 2 = Inr (demo_last, l)"
    using demo_last_fits
    by (simp add: prepareLocked_def f demo_range_next Let_def demo_read_limits_def BrokerResponseMaxBytes_def
        ReadReplayReservation_def demo_last_eq)
  have q: "rq_Offset demo_next_request = 2" "rq_MaxBytes demo_next_request = 2" "rq_CapabilityID demo_next_request = []"
    "rq_AttemptID demo_next_request = []" "hasPrefix (rq_Ref demo_next_request) ''read:''"
    by (simp_all add: demo_next_request_def hasPrefix_def)
  show ?thesis
    using p by (auto simp: Read_def b q readContinuation_def h l sw f Let_def)
qed

theorem read_follow_reassembles_witness:
  "\<exists>rs cs record a. follow (\<lambda>x. x) ''me'' 2 (\<lambda>_. (1, 1, 1)) 1 demo_response demo_reading = Inr rs \<and>
     map rr_DataBase64 (demo_response # rs) = map stdEncode cs \<and> concat cs = ''xyz'' \<and>
     reg_map (sv_world demo_service) ''git.log'' = Some record \<and> get (rc_artifacts record) ''artifact:v1:0'' = Some a \<and>
     hexEncode (concat cs) = ar_SHA256 a"
proof -
  have req: "\<lparr>rq_CapabilityID = [], rq_Ref = rr_ContinuationRef demo_response, rq_AttemptID = [],
      rq_Offset = rr_NextOffset demo_response, rq_MaxBytes = 2\<rparr> = demo_next_request"
    by (simp add: demo_response_def demo_next_request_def demo_id_def)
  obtain v where "Read (\<lambda>x. x) ''me'' demo_next_request (1, 1, 1) demo_reading = (Inr demo_last, v)"
    using demo_next by (metis prod.collapse)
  then have f: "follow (\<lambda>x. x) ''me'' 2 (\<lambda>_. (1, 1, 1)) 1 demo_response demo_reading = Inr [demo_last]"
    by (simp add: req) (simp add: demo_response_def)
  have fresh: "fresh_attempt (\<lambda>x. x) ''me'' demo_request demo_service" by (simp add: fresh_attempt_def demo_service_def)
  have c: "rr_StoredBytes demo_response - rr_NextOffset demo_response \<le> int 1 * 2" "rr_SHA256 demo_response = hexEncode ''xyz''"
    "rq_Offset demo_request = 0" by (simp_all add: demo_response_def demo_request_def del: hexEncode_Cons)
  have q: "rq_CapabilityID demo_request = ''git.log''" "rq_Ref demo_request = ''artifact:v1:0''"
    "\<not> hasPrefix ''artifact:v1:0'' ''read:''" "(0 :: int) < 2" by (simp_all add: demo_request_def hasPrefix_def)
  obtain cs where "map rr_DataBase64 (demo_response # [demo_last]) = map stdEncode cs" "concat cs = ''xyz''"
    "\<exists>record a. reg_map (sv_world demo_service) ''git.log'' = Some record \<and> get (rc_artifacts record) ''artifact:v1:0'' = Some a \<and>
       hexEncode (concat cs) = ar_SHA256 a"
    using read_follow_reassembles [OF demo_service_reachable c(3) demo_read f q(4) fresh c(1), unfolded c(2) hexEncode_inj q(1,2)] q(3)
    by blast
  then show ?thesis using f by blast
qed

end
