(* ===== verification/Json_Plain.thy ===== *)
theory Json_Plain
  imports Json
begin

text \<open>
  Round trips through \<^verbatim>\<open>json.Marshal\<close> and \<^verbatim>\<open>json.Unmarshal\<close> for the values that the broker puts into its
  cursors: flat objects of printable strings and non-negative integers.
\<close>

section \<open>Strings\<close>

definition plain :: "char \<Rightarrow> bool" where
  "plain c \<longleftrightarrow> 32 \<le> byteN c \<and> byteN c < 127 \<and> byteN c \<notin> {34, 38, 60, 62, 92}"

lemma char_of_byteN [simp]: "char_of (byteN c) = c"
  by (simp add: byteN_def)

lemma byteN_char [simp]: "n < 256 \<Longrightarrow> byteN (char_of n) = n"
  by (simp add: byteN_def)

lemma plain_ne: "plain c \<Longrightarrow> c \<noteq> CHR 0x22 \<and> c \<noteq> CHR 0x5C"
  by (auto simp: plain_def byteN_def)

lemma escape_plain: "list_all plain s \<Longrightarrow> escapeBytes (map byteN s) = s"
  by (induction s) (auto simp: plain_def escAscii_def)

lemma jsonString_plain: "list_all plain s \<Longrightarrow> jsonString s = CHR 0x22 # s @ [CHR 0x22]"
  by (simp add: jsonString_def escape_plain)

lemma parseStr_plain:
  "list_all plain s \<Longrightarrow> length s < n \<Longrightarrow> parseStr n (s @ CHR 0x22 # r) = Some (s, r)"
proof (induction s arbitrary: n)
  case Nil
  then show ?case by (cases n) auto
next
  case (Cons c s)
  then obtain m where m: "n = Suc m" "length s < m" by (cases n) auto
  have c: "plain c" "c \<noteq> CHR 0x22" "c \<noteq> CHR 0x5C" using Cons.prems plain_ne by auto
  then show ?case using Cons m by (simp add: plain_def)
qed

section \<open>Integers\<close>

lemma zero_char: "char_of (48 :: nat) = CHR ''0''"
  using char_of_byteN [of "CHR ''0''"] by (simp add: byteN_def)

lemma natText_nonempty: "natText n \<noteq> []"
  by (subst natText.simps) auto

lemma digit_char: "n < 10 \<Longrightarrow> is_digit (char_of (48 + n)) \<and> digit_val (char_of (48 + n)) = n"
  by (simp add: is_digit_def digit_val_def)

lemma natText_digits: "list_all is_digit (natText n)"
proof (induction n rule: natText.induct)
  case (1 n)
  then show ?case by (subst natText.simps) (auto simp: digit_char)
qed

lemma parseNat_natText: "parseNat (natText n) = n"
proof (induction n rule: natText.induct)
  case (1 n)
  show ?case
  proof (cases "n < 10")
    case True
    then show ?thesis by (subst natText.simps) (simp add: parseNat_def digit_char)
  next
    case False
    then have "parseNat (natText n) = 10 * parseNat (natText (n div 10)) + n mod 10"
      by (subst natText.simps) (simp add: parseNat_def digit_char)
    then show ?thesis using 1 False by simp
  qed
qed

lemma natText_hd: "natText n = CHR ''0'' # ds \<Longrightarrow> ds = [] \<and> n = 0"
proof (induction n arbitrary: ds rule: natText.induct)
  case (1 n)
  show ?case
  proof (cases "n < 10")
    case True
    have "char_of (48 + n) = CHR ''0'' \<longleftrightarrow> n = 0"
    proof
      assume "char_of (48 + n) = CHR ''0''"
      then have "byteN (char_of (48 + n)) = byteN CHR ''0''" by simp
      then show "n = 0" using True by (simp add: byteN_def)
    qed (simp add: zero_char)
    then show ?thesis using 1(2) True by (subst (asm) natText.simps) auto
  next
    case False
    obtain c cs where c: "natText (n div 10) = c # cs" using natText_nonempty by (cases "natText (n div 10)") auto
    then have "c = CHR ''0''" using 1(2) False by (subst (asm) natText.simps) auto
    then have "n div 10 = 0" using 1(1) [OF False] c by blast
    then show ?thesis using False by simp
  qed
qed

lemma intText_nonneg: "0 \<le> i \<Longrightarrow> intText i = natText (nat i)"
  by (simp add: intText_def)

lemma takeWhile_digits:
  assumes "list_all P ds" and "\<not> P c"
  shows "takeWhile P (ds @ c # r) = ds" and "dropWhile P (ds @ c # r) = c # r"
  using assms by (induction ds) auto

text \<open>A literal ends at the first character that is neither a digit nor the start of a fraction or exponent.\<close>

lemma parseNum_int:
  assumes i: "0 \<le> i" and c: "c \<in> {CHR '','', CHR ''}''}"
  shows "parseNum (intText i @ c # r) = Some (intText i, c # r)"
proof -
  have nd: "\<not> is_digit c" using c by (auto simp: is_digit_def byteN_def)
  let ?n = "natText (nat i)"
  obtain d ds where d: "?n = d # ds" using natText_nonempty by (cases ?n) auto
  have dig: "list_all is_digit ?n" by (rule natText_digits)
  have "is_digit d" using dig d by simp
  then have sign: "d \<noteq> CHR ''-''" by (auto simp: is_digit_def byteN_def)
  have frac: "parseFrac (c # r) = Some ([], c # r)" "parseExp (c # r) = Some ([], c # r)"
    using c by (auto simp: parseFrac_def parseExp_def)
  show ?thesis
    unfolding intText_nonneg [OF i] parseNum_def digits_def
    using takeWhile_digits [OF dig nd] sign d frac natText_hd [of "nat i" ds]
    by (auto simp: Let_def hasPrefix_def)
qed

lemma parseInt64_int:
  assumes "0 \<le> i" "i \<le> max_int64" shows "parseInt64 (intText i) = Some i"
proof -
  have dig: "list_all is_digit (natText (nat i))" by (rule natText_digits)
  have "\<not> hasPrefix (natText (nat i)) ''-''"
    using dig by (cases "natText (nat i)") (auto simp: hasPrefix_def is_digit_def byteN_def)
  then show ?thesis
    using assms dig natText_nonempty by (simp add: parseInt64_def intText_nonneg parseNat_natText Let_def)
qed

lemma parseUint64_nat: "n < 2 ^ 64 \<Longrightarrow> parseUint64 (natText n) = Some n"
  using natText_digits natText_nonempty by (simp add: parseUint64_def parseNat_natText)

section \<open>Flat objects\<close>

definition flatValue :: "json \<Rightarrow> bool" where
  "flatValue v \<longleftrightarrow> (\<exists>s. v = JStr s \<and> list_all plain s) \<or> (\<exists>i. v = JInt i \<and> 0 \<le> i)"

definition flatMembers :: "(string \<times> json) list \<Rightarrow> bool" where
  "flatMembers ms \<longleftrightarrow> (\<forall>(k, v) \<in> set ms. list_all plain k \<and> flatValue v)"

lemma skipws_punct [simp]:
  "skipws (CHR 0x22 # r) = CHR 0x22 # r" "skipws (CHR '':'' # r) = CHR '':'' # r"
  "skipws (CHR '','' # r) = CHR '','' # r" "skipws (CHR ''}'' # r) = CHR ''}'' # r"
  "skipws (CHR ''{'' # r) = CHR ''{'' # r"
  by (simp_all add: skipws_def is_ws_def byteN_def)

lemma parseValue_str:
  assumes "list_all plain s"
  shows "parseValue (Suc n) (jsonText (JStr s) @ r) = Some (JStr s, r)"
  using parseStr_plain [OF assms, of "Suc (length (s @ CHR 0x22 # r))" r]
  by (simp add: jsonString_plain [OF assms])

lemma parseValue_int:
  assumes i: "0 \<le> i" and c: "c \<in> {CHR '','', CHR ''}''}"
  shows "parseValue (Suc n) (jsonText (JInt i) @ c # r) = Some (JInt i, c # r)"
proof -
  obtain d ds where d: "natText (nat i) = d # ds" using natText_nonempty by (cases "natText (nat i)") auto
  have dig: "is_digit d" using natText_digits [of "nat i"] d by simp
  then have ws: "skipws (d # x) = d # x" for x by (auto simp: skipws_def is_ws_def is_digit_def)
  have kw: "d \<noteq> CHR 0x22" "d \<noteq> CHR ''{''" "d \<noteq> CHR ''[''" "d \<noteq> CHR ''n''" "d \<noteq> CHR ''t''" "d \<noteq> CHR ''f''"
    using dig by (auto simp: is_digit_def byteN_def)
  have "parseNum (d # ds @ c # r) = Some (d # ds, c # r)"
    using parseNum_int [OF i c, of r] d by (simp add: intText_nonneg [OF i])
  then show ?thesis using kw d by (simp add: JInt_def intText_nonneg [OF i] ws hasPrefix_def)
qed

lemma parseValue_flat:
  "flatValue v \<Longrightarrow> c \<in> {CHR '','', CHR ''}''} \<Longrightarrow> parseValue (Suc n) (jsonText v @ c # r) = Some (v, c # r)"
  unfolding flatValue_def using parseValue_str parseValue_int by metis

lemma jsonMembers_Cons:
  "jsonMembers ((k, v) # ms) = jsonString k @ '':'' @ jsonText v @ (if ms = [] then [] else '','' @ jsonMembers ms)"
  by (cases ms) auto

lemma parseMembers_flat:
  "flatMembers ms \<Longrightarrow> ms \<noteq> [] \<Longrightarrow> length ms < n \<Longrightarrow> parseMembers n (jsonMembers ms @ CHR ''}'' # r) = Some (ms, r)"
proof (induction ms arbitrary: n)
  case (Cons p ms)
  obtain k v where p: "p = (k, v)" by force
  obtain j where n: "n = Suc (Suc j)" using Cons.prems(3) by (cases n; cases "n - 1") auto
  have k: "list_all plain k" "flatValue v" "flatMembers ms" using Cons.prems(1) p by (auto simp: flatMembers_def)
  show ?case
  proof (cases "ms = []")
    case True
    then show ?thesis
      using parseStr_plain [OF k(1)] parseValue_flat [OF k(2), of "CHR ''}''"]
      by (simp add: p n jsonMembers_Cons jsonString_plain [OF k(1)] del: parseValue.simps)
  next
    case False
    then have "parseMembers (Suc j) (jsonMembers ms @ CHR ''}'' # r) = Some (ms, r)"
      using Cons.prems(3) n by (intro Cons.IH [OF k(3) False]) simp
    then show ?thesis
      using False parseStr_plain [OF k(1)] parseValue_flat [OF k(2), of "CHR '',''"]
      by (subst n, subst parseMembers.simps(2))
         (simp add: p jsonMembers_Cons jsonString_plain [OF k(1)] del: parseValue.simps parseMembers.simps)
  qed
qed simp

lemma jsonMembers_length: "length ms \<le> length (jsonMembers ms)"
proof (induction ms)
  case (Cons p ms)
  then show ?case by (cases p) (simp add: jsonMembers_Cons jsonString_def)
qed simp

text \<open>Decoding the text of a flat object gives its members back.\<close>

lemma parseJson_flat:
  assumes "flatMembers ms" and "ms \<noteq> []"
  shows "parseJson (jsonText (JObj ms)) = Some (JObj ms)"
proof -
  define n where "n = 2 * length (jsonText (JObj ms)) + 1"
  obtain p ms' where p: "ms = p # ms'" using assms(2) by (cases ms) auto
  obtain u where q: "jsonMembers ms @ ''}'' = CHR 0x22 # u"
    unfolding p by (cases p) (simp add: jsonMembers_Cons jsonString_def)
  have "parseMembers n (jsonMembers ms @ ''}'') = Some (ms, [])"
    unfolding n_def using jsonMembers_length [of ms] by (intro parseMembers_flat [OF assms]) simp
  then have "parseValue (Suc n) (CHR ''{'' # jsonMembers ms @ ''}'') = Some (JObj ms, [])"
    unfolding q by (subst parseValue.simps(2)) (simp add: hasPrefix_def del: parseMembers.simps)
  moreover have "2 * length (jsonText (JObj ms)) + 2 = Suc n" by (simp add: n_def)
  moreover have "jsonText (JObj ms) = CHR ''{'' # jsonMembers ms @ ''}''" by simp
  ultimately show ?thesis unfolding parseJson_def by (simp add: skipws_def del: parseValue.simps)
qed

section \<open>Lengths\<close>

lemma decodeRune_width: "decodeRune bs = Some (r, w) \<Longrightarrow> 1 \<le> w \<and> w \<le> length bs"
  by (cases bs) (auto split: list.splits if_splits)

lemma length_escapeBytes: "length (escapeBytes bs) \<le> 6 * length bs"
proof (induction bs rule: escapeBytes.induct)
  case (2 b bs)
  show ?case
  proof (cases "b < 128")
    case True
    have "length (escAscii b) \<le> 6" by (simp add: escAscii_def uesc_def hex4_def)
    then show ?thesis using "2.IH"(1) True by simp
  next
    case False
    show ?thesis
    proof (cases "decodeRune (b # bs)")
      case None
      then show ?thesis using "2.IH"(2) False by (simp add: uesc_def hex4_def del: decodeRune.simps)
    next
      case (Some q)
      obtain r w where q: "q = (r, w)" by force
      have w: "1 \<le> w" "w \<le> Suc (length bs)" using decodeRune_width Some q by fastforce+
      have "length (escapeBytes (drop (w - 1) bs)) \<le> 6 * (length bs - (w - 1))"
        using "2.IH"(3) False Some q by simp
      then show ?thesis using False Some q w by (auto simp: uesc_def hex4_def simp del: decodeRune.simps)
    qed
  qed
qed simp

lemma length_jsonString: "length (jsonString s) \<le> 6 * length s + 2"
  using length_escapeBytes [of "map byteN s"] by (simp add: jsonString_def)

text \<open>A bound on the length of an encoding that needs no look at the characters.\<close>

fun jsonWeight :: "json \<Rightarrow> nat" and itemsWeight :: "json list \<Rightarrow> nat" and membersWeight :: "(string \<times> json) list \<Rightarrow> nat" where
  "jsonWeight JNull = 4"
| "jsonWeight (JBool b) = 5"
| "jsonWeight (JNum s) = length s"
| "jsonWeight (JStr s) = 6 * length s + 2"
| "jsonWeight (JArr xs) = itemsWeight xs + 2"
| "jsonWeight (JObj ms) = membersWeight ms + 2"
| "itemsWeight [] = 0"
| "itemsWeight (x # xs) = jsonWeight x + 1 + itemsWeight xs"
| "membersWeight [] = 0"
| "membersWeight ((k, v) # ms) = 6 * length k + 4 + jsonWeight v + membersWeight ms"

lemma length_jsonText:
  "length (jsonText v) \<le> jsonWeight v" "length (jsonItems xs) \<le> itemsWeight xs" "length (jsonMembers ms) \<le> membersWeight ms"
proof (induction v and xs and ms rule: jsonText_jsonItems_jsonMembers.induct)
  case (4 s)
  then show ?case using length_jsonString [of s] by simp
next
  case (11 k v)
  then show ?case using length_jsonString [of k] by simp
next
  case (12 k v m ms)
  then show ?case using length_jsonString [of k] by simp
qed auto

section \<open>Trimming\<close>

lemma chunks_single: "list_all (\<lambda>b. b < 128) bs \<Longrightarrow> runeChunks bs = map (\<lambda>b. (b, [b])) bs"
  by (induction bs) simp_all

lemma trim_unspaced:
  assumes "list_all (\<lambda>b. b < 128 \<and> \<not> isSpace b) (map byteN s)"
  shows "trimFunc isSpace s = s"
proof -
  have "runeChunks (map byteN s) = map (\<lambda>c. (byteN c, [byteN c])) s"
    using chunks_single [of "map byteN s"] assms by (simp add: list_all_iff comp_def)
  moreover have "dropWhile (\<lambda>c. isSpace (fst c)) (map (\<lambda>c. (byteN c, [byteN c])) t) = map (\<lambda>c. (byteN c, [byteN c])) t"
    if "set t \<subseteq> set s" for t
    using that assms by (cases t) (auto simp: list_all_iff)
  moreover have "concat (map (\<lambda>c. [byteN c]) s) = map byteN s" by (induction s) simp_all
  ultimately show ?thesis by (simp add: trimFunc_def rev_map comp_def o_def byteN_def)
qed

end
