(* ===== verification/Patterns.thy ===== *)
theory Patterns
  imports GoStrings
begin

text \<open>
  The regular expressions of \<^verbatim>\<open>internal/capability/manifest.go\<close>, with a matcher by derivatives in the place of
  package \<^verbatim>\<open>regexp\<close>.  All of them are anchored at both ends and their classes hold ASCII characters only, so
  matching bytes is matching runes.
\<close>

section \<open>Regular expressions\<close>

datatype rexp = Zero | One | Cls "char list" | Seq rexp rexp | Alt rexp rexp | Star rexp

fun nullable :: "rexp \<Rightarrow> bool" where
  "nullable Zero = False"
| "nullable One = True"
| "nullable (Cls cs) = False"
| "nullable (Seq r s) = (nullable r \<and> nullable s)"
| "nullable (Alt r s) = (nullable r \<or> nullable s)"
| "nullable (Star r) = True"

definition seq :: "rexp \<Rightarrow> rexp \<Rightarrow> rexp" where
  "seq r s = (if r = Zero then Zero else if r = One then s else Seq r s)"

definition alt :: "rexp \<Rightarrow> rexp \<Rightarrow> rexp" where
  "alt r s = (if r = Zero then s else if s = Zero then r else if r = s then r else Alt r s)"

fun deriv :: "char \<Rightarrow> rexp \<Rightarrow> rexp" where
  "deriv c Zero = Zero"
| "deriv c One = Zero"
| "deriv c (Cls cs) = (if c \<in> set cs then One else Zero)"
| "deriv c (Seq r s) = (if nullable r then alt (seq (deriv c r) s) (deriv c s) else seq (deriv c r) s)"
| "deriv c (Alt r s) = alt (deriv c r) (deriv c s)"
| "deriv c (Star r) = seq (deriv c r) (Star r)"

definition MatchString :: "rexp \<Rightarrow> string \<Rightarrow> bool" where
  "MatchString r s = nullable (fold deriv s r)"

fun seqs :: "rexp list \<Rightarrow> rexp" where
  "seqs [] = One"
| "seqs [r] = r"
| "seqs (r # rs) = Seq r (seqs rs)"

definition Opt :: "rexp \<Rightarrow> rexp" where "Opt r = Alt One r"
definition Plus :: "rexp \<Rightarrow> rexp" where "Plus r = Seq r (Star r)"

section \<open>The patterns\<close>

definition digitChars :: string where "digitChars = ''0123456789''"
definition lowerChars :: string where "lowerChars = ''abcdefghijklmnopqrstuvwxyz''"
definition upperChars :: string where "upperChars = ''ABCDEFGHIJKLMNOPQRSTUVWXYZ''"

definition idChars :: string where "idChars = lowerChars @ digitChars"
definition idInner :: string where "idInner = idChars @ ''-''"

definition segmentRexp :: rexp where
  "segmentRexp = Seq (Cls idChars) (Opt (Seq (Star (Cls idInner)) (Cls idChars)))"

definition localIDPattern :: "string \<Rightarrow> bool" where
  "localIDPattern s = MatchString segmentRexp s"

definition capabilityIDPattern :: "string \<Rightarrow> bool" where
  "capabilityIDPattern s = MatchString (Seq segmentRexp (Star (Seq (Cls ''.'') segmentRexp))) s"

definition numberRexp :: rexp where
  "numberRexp = Alt (Cls ''0'') (Seq (Cls ''123456789'') (Star (Cls digitChars)))"

definition suffixRexp :: "char \<Rightarrow> rexp" where
  "suffixRexp c =
     (let part = Plus (Cls (digitChars @ upperChars @ lowerChars @ ''-''))
      in Opt (seqs [Cls [c], part, Star (Seq (Cls ''.'') part)]))"

definition semverPattern :: "string \<Rightarrow> bool" where
  "semverPattern s =
     MatchString (seqs [numberRexp, Cls ''.'', numberRexp, Cls ''.'', numberRexp, suffixRexp (CHR ''-''), suffixRexp (CHR ''+'')]) s"

section \<open>Languages\<close>

definition conc :: "string set \<Rightarrow> string set \<Rightarrow> string set" where
  "conc A B = {x @ y | x y. x \<in> A \<and> y \<in> B}"

fun lang :: "rexp \<Rightarrow> string set" where
  "lang Zero = {}"
| "lang One = {[]}"
| "lang (Cls cs) = {[c] | c. c \<in> set cs}"
| "lang (Seq r s) = conc (lang r) (lang s)"
| "lang (Alt r s) = lang r \<union> lang s"
| "lang (Star r) = {concat xs | xs. set xs \<subseteq> lang r}"

lemma nullable_lang: "nullable r \<longleftrightarrow> [] \<in> lang r"
proof (induction r)
  case (Star r)
  have "\<exists>xs. [] = concat xs \<and> set xs \<subseteq> lang r" by (rule exI [of _ "[]"]) simp
  then show ?case by simp
qed (auto simp: conc_def)

lemma lang_seq [simp]: "lang (seq r s) = conc (lang r) (lang s)"
  by (auto simp: seq_def conc_def)

lemma lang_alt [simp]: "lang (alt r s) = lang r \<union> lang s"
  by (auto simp: alt_def)

lemma Cons_conc: "c # w \<in> conc A B \<longleftrightarrow> ([] \<in> A \<and> c # w \<in> B) \<or> (\<exists>x y. w = x @ y \<and> c # x \<in> A \<and> y \<in> B)"
  by (auto simp: conc_def Cons_eq_append_conv)

lemma Cons_star:
  "c # w \<in> {concat xs | xs. set xs \<subseteq> A} \<longleftrightarrow> (\<exists>x y. w = x @ y \<and> c # x \<in> A \<and> y \<in> {concat xs | xs. set xs \<subseteq> A})"
proof
  assume "c # w \<in> {concat xs | xs. set xs \<subseteq> A}"
  then obtain xs where xs: "concat xs = c # w" "set xs \<subseteq> A" by auto
  from xs have "\<exists>x ys. c # x \<in> A \<and> w = x @ concat ys \<and> set ys \<subseteq> A"
    by (induction xs) (auto simp: append_eq_Cons_conv)
  then show "\<exists>x y. w = x @ y \<and> c # x \<in> A \<and> y \<in> {concat xs | xs. set xs \<subseteq> A}" by blast
next
  assume "\<exists>x y. w = x @ y \<and> c # x \<in> A \<and> y \<in> {concat xs | xs. set xs \<subseteq> A}"
  then obtain x xs where "w = x @ concat xs" "c # x \<in> A" "set xs \<subseteq> A" by blast
  then have "c # w = concat ((c # x) # xs) \<and> set ((c # x) # xs) \<subseteq> A" by simp
  then show "c # w \<in> {concat xs | xs. set xs \<subseteq> A}" by blast
qed

lemma deriv_lang: "w \<in> lang (deriv c r) \<longleftrightarrow> c # w \<in> lang r"
proof (induction r arbitrary: w)
  case (Seq r s)
  have "w \<in> conc (lang (deriv c r)) (lang s) \<longleftrightarrow> (\<exists>x y. w = x @ y \<and> c # x \<in> lang r \<and> y \<in> lang s)"
    using Seq.IH(1) by (auto simp: conc_def)
  then show ?case using Seq.IH(2) by (auto simp: Cons_conc nullable_lang)
next
  case (Star r)
  have "w \<in> conc (lang (deriv c r)) B \<longleftrightarrow> (\<exists>x y. w = x @ y \<and> c # x \<in> lang r \<and> y \<in> B)" for B
    using Star.IH by (auto simp: conc_def)
  then show ?case by (simp only: deriv.simps lang_seq lang.simps Cons_star)
qed auto

text \<open>The matcher accepts exactly the language of the expression.\<close>

lemma MatchString_lang: "MatchString r s \<longleftrightarrow> s \<in> lang r"
  unfolding MatchString_def by (induction s arbitrary: r) (simp_all add: nullable_lang deriv_lang)

section \<open>Identifiers\<close>

definition id_segment :: "string \<Rightarrow> bool" where
  "id_segment s \<longleftrightarrow> s \<noteq> [] \<and> set s \<subseteq> set idInner \<and> hd s \<noteq> CHR ''-'' \<and> last s \<noteq> CHR ''-''"

lemma idInner_chars: "c \<in> set idChars \<longleftrightarrow> c \<in> set idInner \<and> c \<noteq> CHR ''-''"
  by (auto simp: idInner_def idChars_def lowerChars_def digitChars_def)

lemma star_class: "{concat xs | xs. set xs \<subseteq> {[c] | c. c \<in> set cs}} = {s. set s \<subseteq> set cs}"
proof (intro set_eqI iffI)
  fix s assume "s \<in> {s. set s \<subseteq> set cs}"
  then have "s = concat (map (\<lambda>c. [c]) s) \<and> set (map (\<lambda>c. [c]) s) \<subseteq> {[c] | c. c \<in> set cs}" by auto
  then show "s \<in> {concat xs | xs. set xs \<subseteq> {[c] | c. c \<in> set cs}}" by blast
qed fastforce

lemma lang_segment: "s \<in> lang segmentRexp \<longleftrightarrow> id_segment s"
proof
  assume "s \<in> lang segmentRexp"
  then obtain c t where s: "s = c # t" "c \<in> set idChars" and
    t: "t = [] \<or> (\<exists>u d. t = u @ [d] \<and> set u \<subseteq> set idInner \<and> d \<in> set idChars)"
    by (auto simp: segmentRexp_def Opt_def conc_def star_class)
  then show "id_segment s" by (auto simp: id_segment_def idInner_chars)
next
  assume seg: "id_segment s"
  then obtain c t where s: "s = c # t" "c \<in> set idChars" by (cases s) (auto simp: id_segment_def idInner_chars)
  show "s \<in> lang segmentRexp"
  proof (cases t rule: rev_cases)
    case Nil
    then show ?thesis using s by (auto simp: segmentRexp_def Opt_def conc_def)
  next
    case (snoc u d)
    then have "set u \<subseteq> set idInner" "d \<in> set idChars" using seg s by (auto simp: id_segment_def idInner_chars)
    then have "t \<in> conc {s. set s \<subseteq> set idInner} {[c] | c. c \<in> set idChars}" using snoc by (auto simp: conc_def)
    then have "[c] @ t \<in> lang segmentRexp"
      using s unfolding segmentRexp_def Opt_def lang.simps star_class conc_def by blast
    then show ?thesis using s by simp
  qed
qed

lemma localIDPattern_iff: "localIDPattern s \<longleftrightarrow> id_segment s"
  by (simp add: localIDPattern_def MatchString_lang lang_segment)

lemma id_segment_no_dot: "id_segment s \<Longrightarrow> dot \<notin> set s"
  by (auto simp: id_segment_def idInner_def idChars_def lowerChars_def digitChars_def dot_def)

lemma joinWith_concat: "joinWith c (x # xs) = x @ concat (map (\<lambda>y. c # y) xs)"
  by (induction xs arbitrary: x) auto

lemma star_dotted:
  "{concat xs | xs. set xs \<subseteq> conc {[c] | c. c \<in> set ''.''} A} = {concat (map (\<lambda>y. dot # y) ys) | ys. set ys \<subseteq> A}"
  (is "?L = ?R")
proof (intro set_eqI iffI)
  fix s assume "s \<in> ?L"
  then obtain xs where xs: "s = concat xs" "\<forall>x \<in> set xs. \<exists>y \<in> A. x = dot # y" by (auto simp: conc_def dot_def)
  from xs(2) have "\<exists>ys. xs = map (\<lambda>y. dot # y) ys \<and> set ys \<subseteq> A"
  proof (induction xs)
    case (Cons x xs)
    then obtain y ys where "x = dot # y" "y \<in> A" "xs = map (\<lambda>y. dot # y) ys" "set ys \<subseteq> A" by auto
    then show ?case by (intro exI [of _ "y # ys"]) simp
  qed simp
  then show "s \<in> ?R" using xs(1) by blast
next
  fix s assume "s \<in> ?R"
  then obtain ys where "s = concat (map (\<lambda>y. dot # y) ys)" "set ys \<subseteq> A" by blast
  then have "s = concat (map (\<lambda>y. dot # y) ys) \<and> set (map (\<lambda>y. dot # y) ys) \<subseteq> conc {[c] | c. c \<in> set ''.''} A"
    by (auto simp: conc_def dot_def)
  then show "s \<in> ?L" by blast
qed

text \<open>A capability identifier is a nonempty sequence of identifier segments joined by dots.\<close>

lemma capabilityIDPattern_iff: "capabilityIDPattern s \<longleftrightarrow> list_all id_segment (splitOn dot s)"
proof -
  have seg: "lang segmentRexp = {s. id_segment s}" using lang_segment by blast
  have "capabilityIDPattern s \<longleftrightarrow> (\<exists>x xs. s = joinWith dot (x # xs) \<and> list_all id_segment (x # xs))"
    unfolding capabilityIDPattern_def MatchString_lang lang.simps star_dotted seg joinWith_concat
    by (auto simp: conc_def list_all_iff)
  also have "\<dots> \<longleftrightarrow> list_all id_segment (splitOn dot s)"
  proof
    assume "\<exists>x xs. s = joinWith dot (x # xs) \<and> list_all id_segment (x # xs)"
    then obtain x xs where x: "s = joinWith dot (x # xs)" "list_all id_segment (x # xs)" by blast
    then have "splitOn dot s = x # xs" using id_segment_no_dot by (auto simp: list_all_iff intro!: split_join)
    then show "list_all id_segment (splitOn dot s)" using x(2) by simp
  next
    assume a: "list_all id_segment (splitOn dot s)"
    obtain x xs where "splitOn dot s = x # xs" using splitOn_nonempty by (cases "splitOn dot s") auto
    then show "\<exists>x xs. s = joinWith dot (x # xs) \<and> list_all id_segment (x # xs)" using a join_split by metis
  qed
  finally show ?thesis .
qed

lemma capabilityIDPattern_chars:
  assumes "capabilityIDPattern s" shows "s \<noteq> [] \<and> set s \<subseteq> insert dot (set idInner)"
proof -
  have join: "set (joinWith c ps) \<subseteq> insert c (\<Union> (set ` set ps))" for c ps
    by (induction ps rule: joinWith.induct) auto
  have seg: "\<forall>p \<in> set (splitOn dot s). p \<noteq> [] \<and> set p \<subseteq> set idInner"
    using assms by (auto simp: capabilityIDPattern_iff list_all_iff id_segment_def)
  have "s \<noteq> []" using seg by auto
  moreover have "set s \<subseteq> insert dot (set idInner)" using seg join [of dot "splitOn dot s"] by auto
  ultimately show ?thesis by blast
qed

end
