(* ===== verification/Tokens.thy ===== *)
theory Tokens
  imports Json_Plain Patterns
begin

text \<open>
  The signed tokens that \<^verbatim>\<open>internal/capability/describe.go\<close> and \<^verbatim>\<open>catalog.go\<close> hand out as cursors: a kind, a
  version, a payload and an HMAC over all three, separated by colons.  \<^verbatim>\<open>crypto/hmac\<close> with SHA-256 is the
  parameter \<open>hmac\<close>, applied to the key and the message.
\<close>

type_synonym hmac = "bytes \<Rightarrow> bytes \<Rightarrow> bytes"

definition tokenPrefix :: "string \<Rightarrow> string" where
  "tokenPrefix kind = kind @ '':v1:''"

definition signToken :: "hmac \<Rightarrow> bytes \<Rightarrow> string \<Rightarrow> bytes \<Rightarrow> string" where
  "signToken hmac key kind payload =
     (let encoded = rawURLEncode payload
      in tokenPrefix kind @ encoded @ '':'' @ rawURLEncode (hmac key (tokenPrefix kind @ encoded)))"

definition openToken :: "hmac \<Rightarrow> bytes \<Rightarrow> string \<Rightarrow> string \<Rightarrow> bytes option" where
  "openToken hmac key kind token =
     (case splitOn (CHR '':'') token of
        [k, v, encoded, mac] \<Rightarrow>
          if k \<noteq> kind \<or> v \<noteq> ''v1'' then None
          else (case rawURLDecode mac of None \<Rightarrow> None
                | Some provided \<Rightarrow>
                  if provided \<noteq> hmac key (tokenPrefix kind @ encoded) then None else rawURLDecode encoded)
      | _ \<Rightarrow> None)"

lemma openToken_sign:
  assumes "CHR '':'' \<notin> set kind"
  shows "openToken hmac key kind (signToken hmac key kind payload) = Some payload"
proof -
  have "splitOn (CHR '':'') (joinWith (CHR '':'') [kind, ''v1'', rawURLEncode payload, m]) =
      [kind, ''v1'', rawURLEncode payload, m]" if "CHR '':'' \<notin> set m" for m
    using assms that colon_notin_rawURLEncode by (intro split_join) auto
  then show ?thesis
    using colon_notin_rawURLEncode
    by (simp add: openToken_def signToken_def tokenPrefix_def Let_def rawURLDecode_Encode)
qed

text \<open>
  Whatever opens carries the MAC of its own prefix and payload: no token opens that was not signed with the key,
  up to finding a second message with the same MAC or guessing one.
\<close>

lemma openToken_authentic:
  assumes "openToken hmac key kind token = Some payload"
  shows "\<exists>encoded mac. token = tokenPrefix kind @ encoded @ '':'' @ mac \<and> rawURLDecode encoded = Some payload \<and>
    rawURLDecode mac = Some (hmac key (tokenPrefix kind @ encoded))"
proof -
  obtain encoded mac where p: "splitOn (CHR '':'') token = [kind, ''v1'', encoded, mac]"
    "rawURLDecode encoded = Some payload" "rawURLDecode mac = Some (hmac key (tokenPrefix kind @ encoded))"
    using assms by (auto simp: openToken_def split: list.splits if_splits option.splits)
  have "token = joinWith (CHR '':'') [kind, ''v1'', encoded, mac]" using p(1) join_split by metis
  then show ?thesis using p by (auto simp: tokenPrefix_def)
qed

lemma signToken_nonempty [simp]: "signToken hmac key kind payload \<noteq> []"
  by (simp add: signToken_def tokenPrefix_def Let_def)

lemma length_signToken:
  "length (signToken hmac key kind payload) =
     length kind + 5 + (4 * length payload + 2) div 3 +
     (4 * length (hmac key (tokenPrefix kind @ rawURLEncode payload)) + 2) div 3"
  by (simp add: signToken_def tokenPrefix_def Let_def length_rawURLEncode)

section \<open>Characters of identifiers\<close>

lemma plain_alphabets: "list_all plain urlAlphabet" "list_all plain (dot # idInner)"
  by (simp_all add: urlAlphabet_def dot_def idInner_def idChars_def lowerChars_def digitChars_def plain_def byteN_def)

lemma plain_rawURLEncode: "list_all plain (rawURLEncode bs)"
  using plain_alphabets(1) set_rawURLEncode [of bs] by (auto simp: list_all_iff)

lemma plain_capabilityID: "capabilityIDPattern s \<Longrightarrow> list_all plain s"
  using plain_alphabets(2) capabilityIDPattern_chars [of s] by (auto simp: list_all_iff)

end
