(* ===== verification/Describe.thy ===== *)
theory Describe
  imports Read_Lease Tokens
begin

text \<open>
  Descriptions of a capability, \<^verbatim>\<open>internal/capability/describe.go\<close>: the projection of a record onto the requested
  sections, and the store that keeps a projection while a client pages through it.  The clock is an argument, the
  random source the list of bytes still to come, \<^verbatim>\<open>hmac\<close> a parameter.

  \<^verbatim>\<open>sort.Slice\<close> is not stable; \<^const>\<open>sort_key\<close> fixes the order of equal keys, which records made by the loader
  do not have.
\<close>

section \<open>Projections\<close>

definition DescribeSkills :: string where "DescribeSkills = ''skills''"
definition DescribeOperations :: string where "DescribeOperations = ''operations''"
definition DescribeReferences :: string where "DescribeReferences = ''references''"

record CapabilityCounts =
  cc_Skills :: int
  cc_Operations :: int
  cc_References :: int

record ArtifactDescription =
  ad_Ref :: string
  ad_MediaType :: string
  ad_Bytes :: int
  ad_SHA256 :: string

record SkillDescription =
  ds_ID :: string
  ds_Name :: string
  ds_Description :: string
  ds_License :: string
  ds_Compatibility :: string
  ds_Artifact :: ArtifactDescription

record OperationDescription =
  dop_ID :: string
  dop_Description :: string
  dop_MetadataState :: string

record ReferenceDescription =
  dr_ID :: string
  dr_Kind :: string
  dr_SkillID :: string
  dr_Artifact :: ArtifactDescription

record Projection =
  pj_CapabilityID :: string
  pj_Name :: string
  pj_Version :: string
  pj_Description :: string
  pj_ManifestSHA256 :: string
  pj_Include :: "string list"
  pj_Counts :: CapabilityCounts
  pj_Skills :: "SkillDescription list"
  pj_Operations :: "OperationDescription list"
  pj_References :: "ReferenceDescription list"
  pj_bytes :: int

definition normalizeIncludes :: "string list \<Rightarrow> string list res" where
  "normalizeIncludes include =
     (if include = [] \<or> length include > 3 then Inl ErrDescribeRequestInvalid
      else rbind
        (foldl (\<lambda>acc section. rbind acc (\<lambda>selected.
            if \<not> validString section \<or> int (length section) > DescribeIncludeMaxBytes then Inl ErrDescribeRequestInvalid
            else if section \<noteq> DescribeSkills \<and> section \<noteq> DescribeOperations \<and> section \<noteq> DescribeReferences
            then Inl ErrDescribeRequestInvalid
            else if section \<in> set selected then Inl ErrDescribeRequestInvalid
            else Inr (section # selected)))
          (Inr []) include)
        (\<lambda>selected. Inr (filter (\<lambda>section. section \<in> set selected) [DescribeSkills, DescribeOperations, DescribeReferences])))"

definition describeArtifact :: "Artifact \<Rightarrow> ArtifactDescription" where
  "describeArtifact a =
     \<lparr>ad_Ref = ar_Ref a, ad_MediaType = ar_MediaType a, ad_Bytes = ar_Bytes a, ad_SHA256 = ar_SHA256 a\<rparr>"

definition describeSkill :: "Skill \<Rightarrow> SkillDescription" where
  "describeSkill skill =
     \<lparr>ds_ID = sk_Path skill, ds_Name = sm_Name (sk_Metadata skill), ds_Description = sm_Description (sk_Metadata skill),
      ds_License = sm_License (sk_Metadata skill), ds_Compatibility = sm_Compatibility (sk_Metadata skill),
      ds_Artifact = describeArtifact (sk_Artifact skill)\<rparr>"

definition describeOperation :: "Operation \<Rightarrow> OperationDescription" where
  "describeOperation operation =
     \<lparr>dop_ID = op_ID operation, dop_Description = op_Description operation, dop_MetadataState = ''unavailable''\<rparr>"

definition contextReferences :: "Record \<Rightarrow> ReferenceDescription list" where
  "contextReferences record =
     map (\<lambda>a. \<lparr>dr_ID = ar_ID a, dr_Kind = ''context'', dr_SkillID = [], dr_Artifact = describeArtifact a\<rparr>) (rc_context record)"

definition skillReferences :: "Record \<Rightarrow> ReferenceDescription list" where
  "skillReferences record =
     concat (map (\<lambda>skill. map (\<lambda>a. \<lparr>dr_ID = sk_Path skill @ ''/'' @ ar_ID a, dr_Kind = ''skill_reference'',
                                    dr_SkillID = sk_Path skill, dr_Artifact = describeArtifact a\<rparr>)
                       (sk_Resources skill)) (Record_Skills record))"

definition addSection :: "Record \<Rightarrow> string \<Rightarrow> Projection \<Rightarrow> Projection" where
  "addSection record section p =
     (if section = DescribeSkills then
        (let skills = sort_key ds_ID (map describeSkill (Record_Skills record))
         in p\<lparr>pj_Skills := skills, pj_Counts := (pj_Counts p)\<lparr>cc_Skills := int (length skills)\<rparr>\<rparr>)
      else if section = DescribeOperations then
        (let operations = map describeOperation (rc_operations record)
         in p\<lparr>pj_Operations := operations, pj_Counts := (pj_Counts p)\<lparr>cc_Operations := int (length operations)\<rparr>\<rparr>)
      else if section = DescribeReferences then
        (let references = sort_key dr_ID (contextReferences record @ skillReferences record)
         in p\<lparr>pj_References := references, pj_Counts := (pj_Counts p)\<lparr>cc_References := int (length references)\<rparr>\<rparr>)
      else p)"

section \<open>Encodings\<close>

definition countsJson :: "CapabilityCounts \<Rightarrow> json" where
  "countsJson c = JObj [(''skills'', JInt (cc_Skills c)), (''operations'', JInt (cc_Operations c)), (''references'', JInt (cc_References c))]"

definition artifactJson :: "ArtifactDescription \<Rightarrow> json" where
  "artifactJson a = JObj [(''ref'', JStr (ad_Ref a)), (''media_type'', JStr (ad_MediaType a)),
                          (''bytes'', JInt (ad_Bytes a)), (''sha256'', JStr (ad_SHA256 a))]"

definition skillJson :: "SkillDescription \<Rightarrow> json" where
  "skillJson s = JObj ([(''id'', JStr (ds_ID s)), (''name'', JStr (ds_Name s)), (''description'', JStr (ds_Description s))] @
     omitStr ''license'' (ds_License s) @ omitStr ''compatibility'' (ds_Compatibility s) @ [(''artifact'', artifactJson (ds_Artifact s))])"

definition operationJson :: "OperationDescription \<Rightarrow> json" where
  "operationJson x = JObj [(''id'', JStr (dop_ID x)), (''description'', JStr (dop_Description x)),
                           (''metadata_state'', JStr (dop_MetadataState x))]"

definition referenceJson :: "ReferenceDescription \<Rightarrow> json" where
  "referenceJson r = JObj ([(''id'', JStr (dr_ID r)), (''kind'', JStr (dr_Kind r))] @ omitStr ''skill_id'' (dr_SkillID r) @
     [(''artifact'', artifactJson (dr_Artifact r))])"

definition projectionMembers :: "Projection \<Rightarrow> (string \<times> json) list" where
  "projectionMembers p =
     [(''capability_id'', JStr (pj_CapabilityID p)), (''name'', JStr (pj_Name p)), (''version'', JStr (pj_Version p)),
      (''description'', JStr (pj_Description p)), (''manifest_sha256'', JStr (pj_ManifestSHA256 p)),
      (''include'', JArr (map JStr (pj_Include p))), (''counts'', countsJson (pj_Counts p))] @
     omitArr ''skills'' (map skillJson (pj_Skills p)) @ omitArr ''operations'' (map operationJson (pj_Operations p)) @
     omitArr ''references'' (map referenceJson (pj_References p))"

definition serializable :: "Projection \<Rightarrow> json" where
  "serializable p = JObj (projectionMembers p)"

definition BuildProjection :: "Record option \<Rightarrow> string list \<Rightarrow> Projection res" where
  "BuildProjection record include =
     (case record of None \<Rightarrow> Inl ErrDescribeRequestInvalid
      | Some r \<Rightarrow>
        rbind (normalizeIncludes include) (\<lambda>canonical.
          let metadata = Record_Metadata r;
              p = foldl (\<lambda>p section. addSection r section p)
                    \<lparr>pj_CapabilityID = md_ID metadata, pj_Name = md_Name metadata, pj_Version = md_Version metadata,
                     pj_Description = md_Description metadata, pj_ManifestSHA256 = rc_manifestDigest r,
                     pj_Include = canonical, pj_Counts = \<lparr>cc_Skills = 0, cc_Operations = 0, cc_References = 0\<rparr>,
                     pj_Skills = [], pj_Operations = [], pj_References = [], pj_bytes = 0\<rparr> canonical
          in Inr (p\<lparr>pj_bytes := int (length (jsonText (serializable p)))\<rparr>)))"

section \<open>Pages\<close>

text \<open>
  A \<^verbatim>\<open>DescribeResponse\<close> is a projection cut to one page, with the cursor of the next page: the fields and their
  encodings are those of \<^verbatim>\<open>projectionWire\<close> and one more.
\<close>

record DescribeRequest =
  dq_CapabilityID :: string
  dq_Include :: "string list"
  dq_Limit :: int
  dq_Cursor :: string

record DescribeResponse = Projection +
  dx_NextCursor :: string

definition describeResponseJson :: "DescribeResponse \<Rightarrow> json" where
  "describeResponseJson r = JObj (projectionMembers (Projection.truncate r) @ omitStr ''next_cursor'' (dx_NextCursor r))"

definition checkDescribeResponseSize :: "DescribeResponse \<Rightarrow> unit res" where
  "checkDescribeResponseSize response =
     (if int (length (jsonText (describeResponseJson response))) > BrokerResponseMaxBytes then Inl ErrServiceQuota else Inr ())"

definition projectionItemCount :: "Projection \<Rightarrow> nat" where
  "projectionItemCount p = length (pj_Skills p) + length (pj_Operations p) + length (pj_References p)"

text \<open>The closure \<^verbatim>\<open>copySection\<close> with its captured variables \<^verbatim>\<open>offset\<close> and \<^verbatim>\<open>remaining\<close>.\<close>

definition copySection :: "'a list \<Rightarrow> nat \<times> nat \<Rightarrow> 'a list \<times> (nat \<times> nat)" where
  "copySection xs = (\<lambda>(offset, remaining).
     if remaining = 0 then ([], (offset, remaining))
     else if offset \<ge> length xs then ([], (offset - length xs, remaining))
     else let stop = (if offset + remaining > length xs then length xs else offset + remaining)
          in (drop offset (take stop xs), (0, remaining - (stop - offset))))"

definition pageProjection :: "Projection \<Rightarrow> nat \<Rightarrow> nat \<Rightarrow> string \<Rightarrow> DescribeResponse" where
  "pageProjection p offset limit next =
     (let (skills, st1) = copySection (pj_Skills p) (offset, limit);
          (operations, st2) = copySection (pj_Operations p) st1;
          (references, st3) = copySection (pj_References p) st2
      in Projection.extend (p\<lparr>pj_Skills := skills, pj_Operations := operations, pj_References := references, pj_bytes := 0\<rparr>)
           \<lparr>dx_NextCursor = next\<rparr>)"

section \<open>Cursors\<close>

record projectionCursor =
  pc_ID :: string
  pc_Offset :: int
  pc_Limit :: int

definition cursorPayload :: "projectionCursor \<Rightarrow> bytes" where
  "cursorPayload c = jsonText (JObj [(''i'', JStr (pc_ID c)), (''o'', JInt (pc_Offset c)), (''l'', JInt (pc_Limit c))])"

definition makeCursor :: "hmac \<Rightarrow> bytes \<Rightarrow> projectionCursor \<Rightarrow> string" where
  "makeCursor hmac key c = signToken hmac key ''describe'' (cursorPayload c)"

fun cursorField :: "string \<Rightarrow> json \<Rightarrow> projectionCursor \<Rightarrow> projectionCursor option" where
  "cursorField k v c =
     (if k = ''i'' then (case v of JStr s \<Rightarrow> Some (c\<lparr>pc_ID := s\<rparr>) | _ \<Rightarrow> None)
      else if k = ''o'' then (case v of JNum n \<Rightarrow> map_option (\<lambda>i. c\<lparr>pc_Offset := i\<rparr>) (parseInt64 n) | _ \<Rightarrow> None)
      else if k = ''l'' then (case v of JNum n \<Rightarrow> map_option (\<lambda>i. c\<lparr>pc_Limit := i\<rparr>) (parseInt64 n) | _ \<Rightarrow> None)
      else Some c)"

definition parseCursor :: "hmac \<Rightarrow> bytes \<Rightarrow> string \<Rightarrow> projectionCursor option" where
  "parseCursor hmac key token =
     (if int (length token) > OpaqueReferenceMaxBytes then None
      else case openToken hmac key ''describe'' token of None \<Rightarrow> None
      | Some payload \<Rightarrow>
        (case decodeStruct cursorField \<lparr>pc_ID = [], pc_Offset = 0, pc_Limit = 0\<rparr> payload of None \<Rightarrow> None
         | Some c \<Rightarrow>
           if pc_ID c = [] \<or> pc_Offset c \<le> 0 \<or> pc_Limit c \<le> 0 \<or> pc_Limit c > DescribeLimitMax then None else Some c))"

section \<open>The store\<close>

record projectionEntry =
  pe_projection :: Projection
  pe_created :: time
  pe_idleUntil :: time

record ProjectionStore =
  ps_limits :: ProjectionLimits
  ps_random :: bytes
  ps_key :: bytes
  ps_closed :: bool
  ps_entries :: "(string, projectionEntry) gomap"
  ps_bytes :: int

definition newProjectionStore :: "ProjectionLimits \<Rightarrow> bytes \<Rightarrow> ProjectionStore res" where
  "newProjectionStore limits random =
     rbind (validateProjectionLimits limits) (\<lambda>_.
     rbind (readFull 32 random) (\<lambda>(key, rest).
       Inr \<lparr>ps_limits = limits, ps_random = rest, ps_key = key, ps_closed = False, ps_entries = [], ps_bytes = 0\<rparr>))"

definition entry_expired :: "ProjectionLimits \<Rightarrow> time \<Rightarrow> projectionEntry \<Rightarrow> bool" where
  "entry_expired limits now entry = (\<not> now < minTime (pe_idleUntil entry) (pe_created entry + pl_Absolute limits))"

definition dropEntry :: "string \<Rightarrow> projectionEntry \<Rightarrow> ProjectionStore \<Rightarrow> ProjectionStore" where
  "dropEntry i entry s = s\<lparr>ps_entries := del i (ps_entries s), ps_bytes := ps_bytes s - pj_bytes (pe_projection entry)\<rparr>"

definition projection_sweepLocked :: "time \<Rightarrow> ProjectionStore \<Rightarrow> ProjectionStore" where
  "projection_sweepLocked now s =
     fold (\<lambda>(i, entry) t. if entry_expired (ps_limits s) now entry then dropEntry i entry t else t) (ps_entries s) s"

text \<open>The loop of \<^verbatim>\<open>boundedPage\<close>: the largest number of items whose page fits into a response.\<close>

fun fittingPage :: "(nat \<Rightarrow> DescribeResponse) \<Rightarrow> nat \<Rightarrow> (DescribeResponse \<times> nat) option" where
  "fittingPage page 0 = None"
| "fittingPage page (Suc n) =
     (if checkDescribeResponseSize (page (Suc n)) = Inr () then Some (page (Suc n), Suc n) else fittingPage page n)"

definition boundedPage ::
  "hmac \<Rightarrow> ProjectionStore \<Rightarrow> Projection \<Rightarrow> nat \<Rightarrow> int \<Rightarrow> string \<Rightarrow> (DescribeResponse \<times> nat) res" where
  "boundedPage hmac s p offset limit i =
     (let count = projectionItemCount p
      in if count \<le> offset then Inl ErrDescribeCursorInvalid
         else let page = (\<lambda>items. pageProjection p offset items
                     (if offset + items < count
                      then makeCursor hmac (ps_key s) \<lparr>pc_ID = i, pc_Offset = int (offset + items), pc_Limit = limit\<rparr>
                      else []))
              in of_option ErrServiceQuota (fittingPage page (min (nat limit) (count - offset))))"

definition firstPage ::
  "hmac \<Rightarrow> Projection \<Rightarrow> int \<Rightarrow> time \<Rightarrow> ProjectionStore \<Rightarrow> DescribeResponse res \<times> ProjectionStore" where
  "firstPage hmac p limit now s0 =
     (if ps_closed s0 then (Inl ErrServiceClosed, s0)
      else let s = projection_sweepLocked now s0;
               count = projectionItemCount p;
               whole = pageProjection p 0 count []
           in if int count \<le> limit \<and> checkDescribeResponseSize whole = Inr () then (Inr whole, s)
              else if int (length (ps_entries s)) \<ge> pl_MaxCount (ps_limits s) \<or>
                      ps_bytes s + pj_bytes p > pl_MaxBytes (ps_limits s) then (Inl ErrServiceQuota, s)
              else (case drawID readHandleCollisionAttempts (\<lambda>i. get (ps_entries s) i \<noteq> None) (ps_random s) of
                      (Inl e, random) \<Rightarrow> (Inl e, s\<lparr>ps_random := random\<rparr>)
                    | (Inr i, random) \<Rightarrow>
                      let entry = \<lparr>pe_projection = p, pe_created = now, pe_idleUntil = now + pl_Idle (ps_limits s)\<rparr>;
                          s1 = s\<lparr>ps_random := random, ps_entries := put i entry (ps_entries s), ps_bytes := ps_bytes s + pj_bytes p\<rparr>
                      in (case boundedPage hmac s1 p 0 limit i of
                            Inl e \<Rightarrow> (Inl e, dropEntry i entry s1)
                          | Inr (response, consumed) \<Rightarrow>
                            (Inr response, if consumed = count then dropEntry i entry s1 else s1))))"

definition cursorPage ::
  "hmac \<Rightarrow> string \<Rightarrow> int \<Rightarrow> time \<Rightarrow> ProjectionStore \<Rightarrow> DescribeResponse res \<times> ProjectionStore" where
  "cursorPage hmac token limit now s0 =
     (case parseCursor hmac (ps_key s0) token of None \<Rightarrow> (Inl ErrDescribeCursorInvalid, s0)
      | Some cursor \<Rightarrow>
        if pc_Limit cursor \<noteq> limit then (Inl ErrDescribeCursorInvalid, s0)
        else if ps_closed s0 then (Inl ErrServiceClosed, s0)
        else let s = projection_sweepLocked now s0
             in case get (ps_entries s) (pc_ID cursor) of None \<Rightarrow> (Inl ErrDescribeCursorStale, s)
                | Some entry \<Rightarrow>
                  if pc_Offset cursor \<le> 0 \<or> pc_Offset cursor \<ge> int (projectionItemCount (pe_projection entry))
                  then (Inl ErrDescribeCursorInvalid, s)
                  else (case boundedPage hmac s (pe_projection entry) (nat (pc_Offset cursor)) limit (pc_ID cursor) of
                          Inl e \<Rightarrow> (Inl e, s)
                        | Inr (response, consumed) \<Rightarrow>
                          (Inr response,
                           s\<lparr>ps_entries := put (pc_ID cursor) (entry\<lparr>pe_idleUntil := now + pl_Idle (ps_limits s)\<rparr>) (ps_entries s)\<rparr>)))"

definition projection_Close :: "ProjectionStore \<Rightarrow> ProjectionStore" where
  "projection_Close s = s\<lparr>ps_closed := True, ps_entries := [], ps_bytes := 0\<rparr>"

record ProjectionStats =
  pt_Projections :: int
  pt_Bytes :: int

definition projection_Stats :: "time \<Rightarrow> ProjectionStore \<Rightarrow> ProjectionStats \<times> ProjectionStore" where
  "projection_Stats now s =
     (let s' = projection_sweepLocked now s
      in (\<lparr>pt_Projections = int (length (ps_entries s')), pt_Bytes = ps_bytes s'\<rparr>, s'))"

section \<open>Requests\<close>

text \<open>
  \<^verbatim>\<open>Describe\<close> on the registry and the store.  The record is leased only while its projection is built; the
  registry and the store are locked one after the other, never together.
\<close>

definition describeRecord :: "DescribeRequest \<Rightarrow> world \<Rightarrow> Projection res \<times> world" where
  "describeRecord request w =
     (if dq_CapabilityID request = [] \<or> int (length (dq_CapabilityID request)) > MaxCapabilityIDBytes \<or>
         \<not> validString (dq_CapabilityID request) \<or> \<not> capabilityIDPattern (dq_CapabilityID request)
      then (Inl ErrDescribeRequestInvalid, w)
      else case normalizeIncludes (dq_Include request) of Inl e \<Rightarrow> (Inl e, w)
      | Inr include \<Rightarrow>
        (case Lookup (dq_CapabilityID request) w of Inl e \<Rightarrow> (Inl e, w)
         | Inr (w1, b) \<Rightarrow> (BuildProjection (leaseRecord b w1) include, leaseRelease b w1)))"

definition Describe ::
  "hmac \<Rightarrow> DescribeRequest \<Rightarrow> time \<Rightarrow> world \<times> ProjectionStore \<Rightarrow> DescribeResponse res \<times> world \<times> ProjectionStore" where
  "Describe hmac request now = (\<lambda>(w, s).
     if dq_Limit request \<le> 0 \<or> dq_Limit request > DescribeLimitMax then (Inl ErrDescribeRequestInvalid, w, s)
     else if ps_closed s then (Inl ErrServiceClosed, w, s)
     else if dq_Cursor request = [] then
       (case describeRecord request w of
          (Inl e, w') \<Rightarrow> (Inl e, w', s)
        | (Inr p, w') \<Rightarrow> (let (r, s') = firstPage hmac p (dq_Limit request) now s in (r, w', s')))
     else if dq_CapabilityID request \<noteq> [] \<or> dq_Include request \<noteq> [] then (Inl ErrDescribeRequestInvalid, w, s)
     else (let (r, s') = cursorPage hmac (dq_Cursor request) (dq_Limit request) now s in (r, w, s')))"

end
