(* ===== verification/Describe_Page.thy ===== *)
theory Describe_Page
  imports Describe
begin

text \<open>
  Pages of a projection and their cursors: a page is a window of the sequence of all items, and a cursor
  that the store made parses back to what was put in.
\<close>

section \<open>Pages are windows\<close>

datatype item = SkillItem SkillDescription | OperationItem OperationDescription | ReferenceItem ReferenceDescription

definition projection_items :: "'a Projection_scheme \<Rightarrow> item list" where
  "projection_items p =
     map SkillItem (pj_Skills p) @ map OperationItem (pj_Operations p) @ map ReferenceItem (pj_References p)"

lemma length_projection_items [simp]: "length (projection_items p) = projectionItemCount p"
  by (simp add: projection_items_def projectionItemCount_def)

lemma copySection_window:
  assumes "copySection xs (off, n) = (ys, (off', n'))"
  shows "ys = take n (drop off xs)" and "n' = n - length ys" and "off' = (if n = 0 then off else off - length xs)"
  using assms by (auto simp: copySection_def Let_def drop_take split: if_splits)

lemma take_drop_append:
  "take n (drop off (xs @ ys)) = take n (drop off xs) @ take (n - length (take n (drop off xs))) (drop (off - length xs) ys)"
  by (auto simp: min_def)

lemma pageProjection_items:
  "projection_items (pageProjection p off n next) = take n (drop off (projection_items p))"
proof -
  obtain sk o1 n1 where s: "copySection (pj_Skills p) (off, n) = (sk, (o1, n1))" by (metis surj_pair)
  obtain ops o2 n2 where o: "copySection (pj_Operations p) (o1, n1) = (ops, (o2, n2))" by (metis surj_pair)
  obtain rs o3 n3 where r: "copySection (pj_References p) (o2, n2) = (rs, (o3, n3))" by (metis surj_pair)
  note S = copySection_window [OF s] and O = copySection_window [OF o] and R = copySection_window [OF r]
  let ?S = "map SkillItem (pj_Skills p)" and ?O = "map OperationItem (pj_Operations p)" and ?R = "map ReferenceItem (pj_References p)"
  have sk: "map SkillItem sk = take n (drop off ?S)" by (simp add: S(1) take_map drop_map)
  have n1: "n1 = n - length (take n (drop off ?S))" unfolding S(2) S(1) by simp
  have z: "n1 = 0" if "n = 0" using that n1 by simp
  have ops: "map OperationItem ops = take n1 (drop (off - length ?S) ?O)"
    unfolding O(1) using S(3) z by (cases "n = 0") (simp_all add: take_map drop_map)
  have n2: "n2 = n1 - length (take n1 (drop (off - length ?S) ?O))"
    unfolding O(2) ops [symmetric] by simp
  have rs: "map ReferenceItem rs = take n2 (drop (off - length ?S - length ?O) ?R)"
  proof (cases "n1 = 0")
    case True
    then show ?thesis unfolding R(1) n2 by simp
  next
    case False
    then have "n \<noteq> 0" using z by blast
    then show ?thesis unfolding R(1) using O(3) S(3) False by (simp add: take_map drop_map)
  qed
  have "projection_items (pageProjection p off n next) = map SkillItem sk @ map OperationItem ops @ map ReferenceItem rs"
    by (simp add: pageProjection_def s o r projection_items_def Projection.defs)
  also have "\<dots> = take n (drop off (?S @ ?O @ ?R))"
    by (simp only: take_drop_append [of n off ?S] take_drop_append [of n1 "off - length ?S" ?O] sk ops rs n2 flip: n1)
  finally show ?thesis by (simp add: projection_items_def)
qed

lemma pageProjection_next [simp]: "dx_NextCursor (pageProjection p off n next) = next"
  by (simp add: pageProjection_def split_beta Projection.defs)

lemma pageProjection_head [simp]:
  "pj_CapabilityID (pageProjection p off n next) = pj_CapabilityID p"
  "pj_Version (pageProjection p off n next) = pj_Version p"
  "pj_ManifestSHA256 (pageProjection p off n next) = pj_ManifestSHA256 p"
  "pj_Counts (pageProjection p off n next) = pj_Counts p"
  by (simp_all add: pageProjection_def split_beta Projection.defs)

section \<open>Cursors\<close>

lemma length_natText: "n < 10 ^ k \<Longrightarrow> 0 < k \<Longrightarrow> length (natText n) \<le> k"
proof (induction k arbitrary: n)
  case (Suc k)
  show ?case
  proof (cases "n < 10")
    case True
    then show ?thesis by (simp add: natText.simps [of n])
  next
    case False
    then have k: "0 < k" using Suc.prems by (cases k) auto
    have "n div 10 < 10 ^ k" using Suc.prems by (simp add: less_mult_imp_div_less mult.commute)
    then show ?thesis using Suc.IH [OF _ k] False by (simp add: natText.simps [of n])
  qed
qed simp

lemma length_intText_int64: "0 \<le> i \<Longrightarrow> i \<le> max_int64 \<Longrightarrow> length (intText i) \<le> 19"
  by (simp add: intText_nonneg max_int64_def length_natText nat_less_iff)

text \<open>An identifier as the store draws it.\<close>

definition opaque_id :: "string \<Rightarrow> bool" where
  "opaque_id i \<longleftrightarrow> (\<exists>b. length b = 16 \<and> i = rawURLEncode b)"

lemma opaque_id_simps: "opaque_id i \<Longrightarrow> list_all plain i \<and> length i = 22 \<and> i \<noteq> []"
proof -
  assume "opaque_id i"
  then obtain b where b: "length b = 16" "i = rawURLEncode b" by (auto simp: opaque_id_def)
  then have "length i = 22" by (simp add: length_rawURLEncode)
  then show ?thesis using b plain_rawURLEncode by auto
qed

text \<open>What the code relies on of \<^verbatim>\<open>crypto/hmac\<close> with SHA-256 besides its being a function.\<close>

definition mac32 :: "hmac \<Rightarrow> bool" where
  "mac32 hmac \<longleftrightarrow> (\<forall>key m. length (hmac key m) = 32)"

lemma cursorPayload_flat:
  assumes "list_all plain (pc_ID c)" "0 \<le> pc_Offset c" "0 \<le> pc_Limit c"
  shows "flatMembers [(''i'', JStr (pc_ID c)), (''o'', JInt (pc_Offset c)), (''l'', JInt (pc_Limit c))]"
  using assms by (auto simp: flatMembers_def flatValue_def plain_def byteN_def)

lemma cursorPayload_decode:
  assumes c: "list_all plain (pc_ID c)" "0 \<le> pc_Offset c" "0 \<le> pc_Limit c" "pc_Offset c \<le> max_int64" "pc_Limit c \<le> max_int64"
  shows "decodeStruct cursorField z (cursorPayload c) =
    Some \<lparr>pc_ID = pc_ID c, pc_Offset = pc_Offset c, pc_Limit = pc_Limit c, \<dots> = projectionCursor.more z\<rparr>"
proof -
  have low: "lowerByte CHR ''i'' = CHR ''i''" "lowerByte CHR ''o'' = CHR ''o''" "lowerByte CHR ''l'' = CHR ''l''"
    by (simp_all add: lowerByte_def byteN_def)
  show ?thesis
    unfolding decodeStruct_def cursorPayload_def parseJson_flat [OF cursorPayload_flat [OF c(1-3)] list.distinct(2)]
    using c by (simp add: low JInt_def parseInt64_int)
qed

lemma length_cursorPayload:
  assumes "opaque_id (pc_ID c)" "0 \<le> pc_Offset c" "0 \<le> pc_Limit c" "pc_Offset c \<le> max_int64" "pc_Limit c \<le> max_int64"
  shows "length (cursorPayload c) \<le> 80"
proof -
  have k: "list_all plain ''i''" "list_all plain ''o''" "list_all plain ''l''" by (simp_all add: plain_def byteN_def)
  note i = opaque_id_simps [OF assms(1)]
  have "length (cursorPayload c) = 18 + length (pc_ID c) + length (intText (pc_Offset c)) + length (intText (pc_Limit c))"
    using i by (simp add: cursorPayload_def jsonString_plain [OF k(1)] jsonString_plain [OF k(2)] jsonString_plain [OF k(3)]
      jsonString_plain JInt_def)
  then show ?thesis using i length_intText_int64 [of "pc_Offset c"] length_intText_int64 [of "pc_Limit c"] assms by simp
qed

lemma parseCursor_makeCursor:
  assumes mac: "mac32 hmac" and c: "opaque_id (pc_ID c)" "0 < pc_Offset c" "pc_Offset c \<le> max_int64"
    "0 < pc_Limit c" "pc_Limit c \<le> DescribeLimitMax"
  shows "parseCursor hmac key (makeCursor hmac key c) = Some (c :: projectionCursor)"
proof -
  have lim: "pc_Limit c \<le> max_int64" using c(5) by (simp add: DescribeLimitMax_def max_int64_def)
  have "length (cursorPayload c) \<le> 80" using c lim by (intro length_cursorPayload) auto
  then have "length (makeCursor hmac key c) \<le> 2048"
    using mac by (simp add: makeCursor_def length_signToken mac32_def)
  moreover have "openToken hmac key ''describe'' (makeCursor hmac key c) = Some (cursorPayload c)"
    unfolding makeCursor_def by (rule openToken_sign) simp
  ultimately show ?thesis
    using c lim opaque_id_simps [OF c(1)] cursorPayload_decode [of c]
    by (simp add: parseCursor_def OpaqueReferenceMaxBytes_def)
qed

lemma parseCursor_range:
  "parseCursor hmac key token = Some c \<Longrightarrow>
    pc_ID c \<noteq> [] \<and> 0 < pc_Offset c \<and> 0 < pc_Limit c \<and> pc_Limit c \<le> DescribeLimitMax"
  by (auto simp: parseCursor_def split: if_splits option.splits)

section \<open>The largest fitting page\<close>

definition describe_fits :: "DescribeResponse \<Rightarrow> bool" where
  "describe_fits r \<longleftrightarrow> checkDescribeResponseSize r = Inr ()"

lemma fittingPage_Some:
  "fittingPage page n = Some (r, k) \<longleftrightarrow>
    1 \<le> k \<and> k \<le> n \<and> r = page k \<and> describe_fits (page k) \<and> (\<forall>j. k < j \<and> j \<le> n \<longrightarrow> \<not> describe_fits (page j))"
proof (induction n)
  case (Suc n)
  show ?case
  proof (cases "describe_fits (page (Suc n))")
    case True
    then show ?thesis using le_Suc_eq by (auto simp: describe_fits_def)
  next
    case False
    then show ?thesis using Suc le_Suc_eq by (auto simp: describe_fits_def)
  qed
qed auto

lemma fittingPage_None: "fittingPage page n = None \<longleftrightarrow> (\<forall>j. 1 \<le> j \<and> j \<le> n \<longrightarrow> \<not> describe_fits (page j))"
  by (induction n) (auto simp: describe_fits_def le_Suc_eq)

text \<open>The page that \<^verbatim>\<open>boundedPage\<close> tries with a given number of items.\<close>

definition candidate :: "hmac \<Rightarrow> bytes \<Rightarrow> Projection \<Rightarrow> nat \<Rightarrow> int \<Rightarrow> string \<Rightarrow> nat \<Rightarrow> DescribeResponse" where
  "candidate hmac key p off limit i n =
     pageProjection p off n
       (if off + n < projectionItemCount p
        then makeCursor hmac key \<lparr>pc_ID = i, pc_Offset = int (off + n), pc_Limit = limit\<rparr> else [])"

lemma boundedPage_candidate:
  "boundedPage hmac s p off limit i =
    (if projectionItemCount p \<le> off then Inl ErrDescribeCursorInvalid
     else of_option ErrServiceQuota
       (fittingPage (candidate hmac (ps_key s) p off limit i) (min (nat limit) (projectionItemCount p - off))))"
  by (simp add: boundedPage_def candidate_def [abs_def] Let_def)

lemma boundedPage_Inr:
  assumes "boundedPage hmac s p off limit i = Inr (r, n)"
  shows "off < projectionItemCount p" and "1 \<le> n" and "int n \<le> limit" and "off + n \<le> projectionItemCount p"
    and "r = candidate hmac (ps_key s) p off limit i n" and "describe_fits r"
    and "\<forall>j. n < j \<and> int j \<le> limit \<and> off + j \<le> projectionItemCount p \<longrightarrow>
           \<not> describe_fits (candidate hmac (ps_key s) p off limit i j)"
proof -
  have a: "off < projectionItemCount p"
    "fittingPage (candidate hmac (ps_key s) p off limit i) (min (nat limit) (projectionItemCount p - off)) = Some (r, n)"
    using assms by (auto simp: boundedPage_candidate of_option_def split: if_splits option.splits)
  note b = a(2) [unfolded fittingPage_Some]
  show "off < projectionItemCount p" "1 \<le> n" "r = candidate hmac (ps_key s) p off limit i n" "describe_fits r"
    using a b by auto
  show "int n \<le> limit" "off + n \<le> projectionItemCount p" using a(1) b by auto
  show "\<forall>j. n < j \<and> int j \<le> limit \<and> off + j \<le> projectionItemCount p \<longrightarrow>
           \<not> describe_fits (candidate hmac (ps_key s) p off limit i j)"
    using b by auto
qed

end
