(* ===== verification/Describe_Store.thy ===== *)
theory Describe_Store
  imports Describe_Page
begin

text \<open>
  The invariant of the projection store: exact byte counts within the limits, and identifiers as drawn; with the
  effect of a sweep on every entry and the possible outcomes of the two kinds of request.
\<close>

section \<open>Invariant\<close>

text \<open>A projection whose items can be counted by an \<^verbatim>\<open>int\<close>.\<close>

definition projection_ok :: "Projection \<Rightarrow> bool" where
  "projection_ok p \<longleftrightarrow> 0 \<le> pj_bytes p \<and> int (projectionItemCount p) \<le> max_int64"

definition entry_bytes :: "projectionEntry \<Rightarrow> int" where
  "entry_bytes e = pj_bytes (pe_projection e)"

definition proj_inv :: "ProjectionStore \<Rightarrow> bool" where
  "proj_inv s \<longleftrightarrow>
     validateProjectionLimits (ps_limits s) = Inr () \<and> keys_ok (ps_entries s) \<and>
     ps_bytes s = msum entry_bytes (ps_entries s) \<and>
     (\<forall>i e. get (ps_entries s) i = Some e \<longrightarrow> opaque_id i \<and> projection_ok (pe_projection e)) \<and>
     int (length (ps_entries s)) \<le> pl_MaxCount (ps_limits s) \<and> ps_bytes s \<le> pl_MaxBytes (ps_limits s)"

lemma proj_invD:
  assumes "proj_inv s"
  shows "validateProjectionLimits (ps_limits s) = Inr ()" and "keys_ok (ps_entries s)"
    and "ps_bytes s = msum entry_bytes (ps_entries s)"
    and "get (ps_entries s) i = Some e \<Longrightarrow> opaque_id i" and "get (ps_entries s) i = Some e \<Longrightarrow> projection_ok (pe_projection e)"
    and "int (length (ps_entries s)) \<le> pl_MaxCount (ps_limits s)" and "ps_bytes s \<le> pl_MaxBytes (ps_limits s)"
  using assms unfolding proj_inv_def by blast+

lemma proj_inv_random [simp]: "proj_inv (s\<lparr>ps_random := r\<rparr>) = proj_inv s"
  by (simp add: proj_inv_def)

lemma length_del_le: "length (del k m) \<le> length m"
  by (induction m) auto

lemma length_put_le: "length (put k v m) \<le> Suc (length m)"
  by (induction m) auto

lemma length_put_mem: "get m k \<noteq> None \<Longrightarrow> length (put k v m) = length m"
  by (induction m) auto

lemma del_put_fresh: "get m k = None \<Longrightarrow> del k (put k v m) = m"
  by (induction m) (auto simp: del_notin split: if_splits)

lemma dropEntry_simps [simp]:
  "ps_limits (dropEntry i e s) = ps_limits s" "ps_key (dropEntry i e s) = ps_key s"
  "ps_closed (dropEntry i e s) = ps_closed s" "ps_random (dropEntry i e s) = ps_random s"
  "get (ps_entries (dropEntry i e s)) j = (if j = i then None else get (ps_entries s) j)"
  by (simp_all add: dropEntry_def gomap_simps)

lemma dropEntry_inv:
  assumes inv: "proj_inv s" and e: "get (ps_entries s) i = Some e"
  shows "proj_inv (dropEntry i e s)"
proof -
  note I = proj_invD [OF inv]
  have b: "0 \<le> entry_bytes e" using I(5) [OF e] by (simp add: entry_bytes_def projection_ok_def)
  have "msum entry_bytes (del i (ps_entries s)) = ps_bytes s - entry_bytes e"
    using msum_del [OF I(2), of entry_bytes i] e I(3) by simp
  then show ?thesis
    unfolding proj_inv_def using I b length_del_le [of i "ps_entries s"]
    by (auto simp: dropEntry_def entry_bytes_def gomap_simps)
qed

section \<open>Sweeping\<close>

lemma sweep_fold:
  fixes limits :: ProjectionLimits and now :: time
  assumes "keys_ok L" and "\<And>i e. get L i = Some e \<Longrightarrow> get (ps_entries t) i = Some e" and "proj_inv t"
  defines "u \<equiv> fold (\<lambda>(i, entry) t. if entry_expired limits now entry then dropEntry i entry t else t) L t"
  shows "proj_inv u \<and> ps_limits u = ps_limits t \<and> ps_key u = ps_key t \<and> ps_closed u = ps_closed t \<and>
    ps_random u = ps_random t \<and>
    (\<forall>j. get (ps_entries u) j =
       (case get L j of None \<Rightarrow> get (ps_entries t) j
        | Some e \<Rightarrow> if entry_expired limits now e then None else get (ps_entries t) j))"
  using assms(1-3) unfolding u_def
proof (induction L arbitrary: t)
  case (Cons p L)
  obtain i e where p: "p = (i, e)" by force
  have L: "keys_ok L" "get L i = None" using Cons.prems(1) p by (auto simp: keys_ok_def map_of_eq_None_iff)
  let ?t = "if entry_expired limits now e then dropEntry i e t else t"
  have e: "get (ps_entries t) i = Some e" using Cons.prems(2) [of i e] p by simp
  have inv: "proj_inv ?t" using dropEntry_inv [OF Cons.prems(3) e] Cons.prems(3) by simp
  have "get (ps_entries ?t) j = Some e'" if "get L j = Some e'" for j e'
    using Cons.prems(2) [of j e'] L(2) p that by auto
  note IH = Cons.IH [OF L(1) this inv]
  then show ?case using L(2) by (auto simp: p split: option.splits)
qed simp

lemma sweep_spec:
  assumes "proj_inv s"
  shows "proj_inv (projection_sweepLocked now s)"
    and "ps_limits (projection_sweepLocked now s) = ps_limits s" "ps_key (projection_sweepLocked now s) = ps_key s"
    and "ps_closed (projection_sweepLocked now s) = ps_closed s" "ps_random (projection_sweepLocked now s) = ps_random s"
    and "get (ps_entries (projection_sweepLocked now s)) i =
      (case get (ps_entries s) i of None \<Rightarrow> None | Some e \<Rightarrow> if entry_expired (ps_limits s) now e then None else Some e)"
  using sweep_fold [OF proj_invD(2) [OF assms] _ assms, where limits = "ps_limits s" and now = now]
  unfolding projection_sweepLocked_def by (auto split: option.splits)

section \<open>Drawing identifiers\<close>

text \<open>The identifiers a random source still has to give.\<close>

fun futureIDs :: "nat \<Rightarrow> bytes \<Rightarrow> string list" where
  "futureIDs 0 random = []"
| "futureIDs (Suc n) random =
     (if length random < 16 then [] else rawURLEncode (take 16 random) # futureIDs n (drop 16 random))"

definition will_draw :: "bytes \<Rightarrow> string set" where
  "will_draw random = set (futureIDs (length random) random)"

lemma futureIDs_enough: "length random \<le> n \<Longrightarrow> futureIDs n random = futureIDs (length random) random"
proof (induction n arbitrary: random rule: less_induct)
  case (less n)
  show ?case
  proof (cases "length random < 16")
    case True
    then show ?thesis by (cases n; cases "length random") auto
  next
    case False
    then obtain m k where m: "n = Suc m" "length random = Suc k" using less.prems by (cases n; cases "length random") auto
    have "futureIDs m (drop 16 random) = futureIDs (length (drop 16 random)) (drop 16 random)"
      using less.prems m by (intro less.IH) auto
    moreover have "futureIDs k (drop 16 random) = futureIDs (length (drop 16 random)) (drop 16 random)"
      using less.prems m by (intro less.IH [of k "drop 16 random"]) auto
    ultimately show ?thesis by (simp add: m False)
  qed
qed

lemma will_draw_Cons:
  "16 \<le> length random \<Longrightarrow> will_draw random = insert (rawURLEncode (take 16 random)) (will_draw (drop 16 random))"
proof -
  assume a: "16 \<le> length random"
  then obtain k where k: "length random = Suc k" by (cases "length random") auto
  have "futureIDs k (drop 16 random) = futureIDs (length (drop 16 random)) (drop 16 random)"
    using k by (intro futureIDs_enough) auto
  then show ?thesis using a by (simp add: will_draw_def k)
qed

lemma will_draw_Nil [simp]: "will_draw [] = {}"
  by (simp add: will_draw_def)

lemma drawID_spec:
  "drawID n used random = (r, rest) \<Longrightarrow>
    will_draw rest \<subseteq> will_draw random \<and> (\<forall>i. r = Inr i \<longrightarrow> i \<in> will_draw random \<and> opaque_id i \<and> \<not> used i)"
proof (induction n arbitrary: random)
  case (Suc n)
  show ?case
  proof (cases "length random < 16")
    case True
    then show ?thesis using Suc.prems by (auto simp: randomOpaqueID_def readFull_def)
  next
    case False
    let ?i = "rawURLEncode (take 16 random)"
    have o: "opaque_id ?i" unfolding opaque_id_def using False by (intro exI [of _ "take 16 random"]) simp
    have w: "will_draw random = insert ?i (will_draw (drop 16 random))" using False by (intro will_draw_Cons) simp
    show ?thesis
    proof (cases "used ?i")
      case True
      then have "drawID n used (drop 16 random) = (r, rest)" using Suc.prems False by (simp add: randomOpaqueID_def readFull_def)
      then show ?thesis using Suc.IH w by blast
    next
      case unused: False
      then have "r = Inr ?i" "rest = drop 16 random" using Suc.prems False by (auto simp: randomOpaqueID_def readFull_def)
      then show ?thesis using w o unused by auto
    qed
  qed
qed auto

section \<open>Outcomes\<close>

definition newEntry :: "Projection \<Rightarrow> time \<Rightarrow> ProjectionStore \<Rightarrow> projectionEntry" where
  "newEntry p now s = \<lparr>pe_projection = p, pe_created = now, pe_idleUntil = now + pl_Idle (ps_limits s)\<rparr>"

definition stored :: "string \<Rightarrow> Projection \<Rightarrow> time \<Rightarrow> bytes \<Rightarrow> ProjectionStore \<Rightarrow> ProjectionStore" where
  "stored i p now rest s =
     s\<lparr>ps_random := rest, ps_entries := put i (newEntry p now s) (ps_entries s), ps_bytes := ps_bytes s + pj_bytes p\<rparr>"

lemma stored_simps [simp]:
  "ps_limits (stored i p now rest s) = ps_limits s" "ps_key (stored i p now rest s) = ps_key s"
  "ps_closed (stored i p now rest s) = ps_closed s" "ps_random (stored i p now rest s) = rest"
  "get (ps_entries (stored i p now rest s)) j = (if j = i then Some (newEntry p now s) else get (ps_entries s) j)"
  by (simp_all add: stored_def gomap_simps)

lemma drop_stored:
  "get (ps_entries s) i = None \<Longrightarrow> dropEntry i (newEntry p now s) (stored i p now rest s) = s\<lparr>ps_random := rest\<rparr>"
  by (simp add: dropEntry_def stored_def newEntry_def del_put_fresh)

lemma stored_inv:
  assumes inv: "proj_inv s" and p: "projection_ok p" and i: "opaque_id i" "get (ps_entries s) i = None"
    and room: "int (length (ps_entries s)) < pl_MaxCount (ps_limits s)" "ps_bytes s + pj_bytes p \<le> pl_MaxBytes (ps_limits s)"
  shows "proj_inv (stored i p now rest s)"
proof -
  note I = proj_invD [OF inv]
  have "msum entry_bytes (put i (newEntry p now s) (ps_entries s)) = ps_bytes s + pj_bytes p"
    using msum_put [OF I(2), of entry_bytes i] i(2) I(3) by (simp add: entry_bytes_def newEntry_def)
  then show ?thesis
    unfolding proj_inv_def using I p i room length_put_le [of i "newEntry p now s" "ps_entries s"]
    by (auto simp: stored_def newEntry_def gomap_simps)
qed

lemma boundedPage_key: "ps_key s = ps_key t \<Longrightarrow> boundedPage hmac s = boundedPage hmac t"
  by (intro ext) (simp add: boundedPage_candidate)

lemma firstPage_cases:
  assumes f: "firstPage hmac p limit now s0 = (r, s')" and inv: "proj_inv s0"
  obtains
    (closed) "ps_closed s0" "r = Inl ErrServiceClosed" "s' = s0"
  | (whole) "\<not> ps_closed s0" "int (projectionItemCount p) \<le> limit" "describe_fits (pageProjection p 0 (projectionItemCount p) [])"
      "r = Inr (pageProjection p 0 (projectionItemCount p) [])" "s' = projection_sweepLocked now s0"
  | (refused) e rest where "\<not> ps_closed s0" "r = Inl e" "s' = (projection_sweepLocked now s0)\<lparr>ps_random := rest\<rparr>"
      "will_draw rest \<subseteq> will_draw (ps_random s0)"
  | (paged) i rest n where "\<not> ps_closed s0" "i \<in> will_draw (ps_random s0)" "will_draw rest \<subseteq> will_draw (ps_random s0)"
      "drawID readHandleCollisionAttempts (\<lambda>i. get (ps_entries (projection_sweepLocked now s0)) i \<noteq> None) (ps_random s0) = (Inr i, rest)"
      "opaque_id i" "get (ps_entries (projection_sweepLocked now s0)) i = None"
      "boundedPage hmac s0 p 0 limit i = Inr (candidate hmac (ps_key s0) p 0 limit i n, n)"
      "r = Inr (candidate hmac (ps_key s0) p 0 limit i n)" "n < projectionItemCount p" "n > 0"
      "s' = stored i p now rest (projection_sweepLocked now s0)" "proj_inv s' \<or> \<not> projection_ok p"
proof (cases "ps_closed s0")
  case True
  then have "r = Inl ErrServiceClosed \<and> s' = s0" using f by (auto simp: firstPage_def)
  then show ?thesis using closed True by blast
next
  case open': False
  let ?s = "projection_sweepLocked now s0" and ?count = "projectionItemCount p"
  note S = sweep_spec [OF inv, where now = now]
  let ?fits = "int ?count \<le> limit \<and> describe_fits (pageProjection p 0 ?count [])"
  let ?full = "int (length (ps_entries ?s)) \<ge> pl_MaxCount (ps_limits ?s) \<or> ps_bytes ?s + pj_bytes p > pl_MaxBytes (ps_limits ?s)"
  have same: "?s\<lparr>ps_random := ps_random s0\<rparr> = ?s" using S(5) by simp
  obtain d rest where d: "drawID readHandleCollisionAttempts (\<lambda>i. get (ps_entries ?s) i \<noteq> None) (ps_random s0) = (d, rest)" by force
  note D = drawID_spec [OF d]
  show ?thesis
  proof (cases ?fits)
    case True
    then have "r = Inr (pageProjection p 0 ?count []) \<and> s' = ?s"
      using f open' by (auto simp: firstPage_def Let_def describe_fits_def)
    then show ?thesis using whole open' True by blast
  next
    case nofit: False
    show ?thesis
    proof (cases ?full)
      case True
      then have "r = Inl ErrServiceQuota \<and> s' = ?s" using f open' nofit by (auto simp: firstPage_def Let_def describe_fits_def)
      then show ?thesis using refused [of ErrServiceQuota "ps_random s0"] open' same by simp
    next
      case room: False
      show ?thesis
      proof (cases d)
        case (Inl e)
        then have "r = Inl e \<and> s' = ?s\<lparr>ps_random := rest\<rparr>"
          using f open' nofit room d S(5) by (auto simp: firstPage_def Let_def describe_fits_def)
        then show ?thesis using refused [of e rest] open' D by blast
      next
        case (Inr i)
        have i: "i \<in> will_draw (ps_random s0)" "opaque_id i" "get (ps_entries ?s) i = None" using D Inr by auto
        let ?s1 = "stored i p now rest ?s"
        have key: "boundedPage hmac ?s1 p 0 limit i = boundedPage hmac s0 p 0 limit i"
          using S(3) by (subst boundedPage_key [of _ s0]) simp_all
        have drop: "dropEntry i (newEntry p now ?s) ?s1 = ?s\<lparr>ps_random := rest\<rparr>" using i(3) by (rule drop_stored)
        have f': "(r, s') = (case boundedPage hmac s0 p 0 limit i of
            Inl e \<Rightarrow> (Inl e, ?s\<lparr>ps_random := rest\<rparr>)
          | Inr (response, consumed) \<Rightarrow> (Inr response, if consumed = ?count then ?s\<lparr>ps_random := rest\<rparr> else ?s1))"
          unfolding key [symmetric] drop [symmetric]
          using f open' nofit room d Inr S(5)
          by (auto simp: firstPage_def Let_def describe_fits_def stored_def newEntry_def split: sum.splits)
        show ?thesis
        proof (cases "boundedPage hmac s0 p 0 limit i")
          case (Inl e)
          then have "r = Inl e \<and> s' = ?s\<lparr>ps_random := rest\<rparr>" using f' by simp
          then show ?thesis using refused [of e rest] open' D by blast
        next
          case res: (Inr q)
          obtain resp n where q: "q = (resp, n)" by force
          note B = boundedPage_Inr [OF res [unfolded q]]
          have less: "n < ?count"
          proof (rule ccontr)
            assume "\<not> n < ?count"
            then have "n = ?count" using B(4) by simp
            then show False using B(3,5,6) nofit by (simp add: candidate_def)
          qed
          have inv': "proj_inv ?s1 \<or> \<not> projection_ok p"
            using stored_inv [OF S(1) _ i(2,3)] room by auto
          have "r = Inr resp \<and> s' = ?s1" using f' res q less by simp
          moreover have "boundedPage hmac s0 p 0 limit i = Inr (candidate hmac (ps_key s0) p 0 limit i n, n)"
            using res q B(5) by simp
          ultimately show ?thesis
            using paged [of i rest n, OF open' i(1) _ _ i(2,3) _ _ less _ _] D d Inr B(2,5) inv' by simp
        qed
      qed
    qed
  qed
qed

lemma cursorPage_cases:
  assumes f: "cursorPage hmac token limit now s0 = (r, s')" and inv: "proj_inv s0"
  obtains
    (early) e where "r = Inl e" "s' = s0"
  | (failed) e where "\<not> ps_closed s0" "r = Inl e" "s' = projection_sweepLocked now s0"
  | (page) c e n where "\<not> ps_closed s0" "parseCursor hmac (ps_key s0) token = Some c" "pc_Limit c = limit"
      "get (ps_entries (projection_sweepLocked now s0)) (pc_ID c) = Some e"
      "0 < pc_Offset c" "pc_Offset c < int (projectionItemCount (pe_projection e))"
      "boundedPage hmac s0 (pe_projection e) (nat (pc_Offset c)) limit (pc_ID c) =
        Inr (candidate hmac (ps_key s0) (pe_projection e) (nat (pc_Offset c)) limit (pc_ID c) n, n)"
      "r = Inr (candidate hmac (ps_key s0) (pe_projection e) (nat (pc_Offset c)) limit (pc_ID c) n)"
      "s' = (projection_sweepLocked now s0)\<lparr>ps_entries :=
        put (pc_ID c) (e\<lparr>pe_idleUntil := now + pl_Idle (ps_limits s0)\<rparr>) (ps_entries (projection_sweepLocked now s0))\<rparr>"
proof (cases "parseCursor hmac (ps_key s0) token")
  case None
  then have "r = Inl ErrDescribeCursorInvalid \<and> s' = s0" using f by (auto simp: cursorPage_def)
  then show ?thesis using early by blast
next
  case (Some c)
  let ?s = "projection_sweepLocked now s0"
  note S = sweep_spec [OF inv, where now = now]
  show ?thesis
  proof (cases "pc_Limit c \<noteq> limit \<or> ps_closed s0")
    case True
    then have "\<exists>e. r = Inl e \<and> s' = s0" using f Some by (auto simp: cursorPage_def split: if_splits)
    then show ?thesis using early by blast
  next
    case False
    show ?thesis
    proof (cases "get (ps_entries ?s) (pc_ID c)")
      case None
      then have "r = Inl ErrDescribeCursorStale \<and> s' = ?s" using f Some False by (auto simp: cursorPage_def Let_def)
      then show ?thesis using failed False by blast
    next
      case e: (Some e)
      let ?p = "pe_projection e"
      have key: "boundedPage hmac ?s ?p (nat (pc_Offset c)) limit (pc_ID c) =
          boundedPage hmac s0 ?p (nat (pc_Offset c)) limit (pc_ID c)"
        using S(3) by (subst boundedPage_key [of _ s0]) simp_all
      show ?thesis
      proof (cases "pc_Offset c \<le> 0 \<or> pc_Offset c \<ge> int (projectionItemCount ?p)")
        case True
        then have "r = Inl ErrDescribeCursorInvalid \<and> s' = ?s" using f Some False e by (auto simp: cursorPage_def Let_def)
        then show ?thesis using failed False by blast
      next
        case range: False
        show ?thesis
        proof (cases "boundedPage hmac s0 ?p (nat (pc_Offset c)) limit (pc_ID c)")
          case (Inl x)
          then have "r = Inl x \<and> s' = ?s" using f Some False e range key by (auto simp: cursorPage_def Let_def)
          then show ?thesis using failed False by blast
        next
          case (Inr q)
          obtain resp n where q: "q = (resp, n)" by force
          note B = boundedPage_Inr [OF Inr [unfolded q]]
          have "r = Inr resp \<and> s' = ?s\<lparr>ps_entries := put (pc_ID c) (e\<lparr>pe_idleUntil := now + pl_Idle (ps_limits s0)\<rparr>) (ps_entries ?s)\<rparr>"
            using f Some False e range key Inr q S(2) by (auto simp: cursorPage_def Let_def)
          then show ?thesis using page [of c e n] Some False e range Inr q B(5) by simp
        qed
      qed
    qed
  qed
qed

lemma touch_inv:
  assumes inv: "proj_inv s" and e: "get (ps_entries s) i = Some e"
  shows "proj_inv (s\<lparr>ps_entries := put i (e\<lparr>pe_idleUntil := t\<rparr>) (ps_entries s)\<rparr>)"
proof -
  note I = proj_invD [OF inv]
  have "msum entry_bytes (put i (e\<lparr>pe_idleUntil := t\<rparr>) (ps_entries s)) = ps_bytes s"
    using msum_put [OF I(2), of entry_bytes i] e I(3) by (simp add: entry_bytes_def)
  then show ?thesis
    unfolding proj_inv_def using I e length_put_mem [of "ps_entries s" i]
    by (auto simp: gomap_simps)
qed

end
