(* ===== verification/Describe_Pager.thy ===== *)
theory Describe_Pager
  imports Describe_Store Interfaces
begin

text \<open>
  The steps of the projection store with what each keeps of an entry, and the store as a \<open>pager\<close>: the promise
  that a client relies on when it follows cursors.
\<close>

section \<open>Steps\<close>

inductive proj_step :: "hmac \<Rightarrow> ProjectionStore \<Rightarrow> ProjectionStore \<Rightarrow> bool" for hmac where
  step_first: "projection_ok p \<Longrightarrow> firstPage hmac p limit now s = (r, s') \<Longrightarrow> proj_step hmac s s'"
| step_cursor: "cursorPage hmac token limit now s = (r, s') \<Longrightarrow> proj_step hmac s s'"
| step_Stats: "proj_step hmac s (snd (projection_Stats now s))"
| step_Close: "proj_step hmac s (projection_Close s)"

inductive proj_reachable :: "hmac \<Rightarrow> ProjectionStore \<Rightarrow> bool" for hmac where
  proj_start: "newProjectionStore limits random = Inr s \<Longrightarrow> proj_reachable hmac s"
| proj_next: "proj_reachable hmac s \<Longrightarrow> proj_step hmac s s' \<Longrightarrow> proj_reachable hmac s'"

lemma Stats_sweep [simp]: "snd (projection_Stats now s) = projection_sweepLocked now s"
  by (simp add: projection_Stats_def Let_def)

lemma new_inv: "newProjectionStore limits random = Inr s \<Longrightarrow> proj_inv s"
  by (auto simp: newProjectionStore_def res_simps proj_inv_def validateProjectionLimits_def split: if_splits)

lemma projection_Close_inv: "proj_inv s \<Longrightarrow> proj_inv (projection_Close s)"
  using proj_invD(1) [of s] by (auto simp: proj_inv_def projection_Close_def validateProjectionLimits_def split: if_splits)

text \<open>
  What a step leaves of the entry with a given identifier: it is the same projection or gone, unless the
  identifier was still to be drawn.
\<close>

lemma proj_step_kept:
  assumes st: "proj_step hmac s s'" and inv: "proj_inv s"
  shows "proj_inv s' \<and> ps_key s' = ps_key s \<and> ps_limits s' = ps_limits s \<and> will_draw (ps_random s') \<subseteq> will_draw (ps_random s) \<and>
    (\<forall>i e'. get (ps_entries s') i = Some e' \<longrightarrow> i \<notin> will_draw (ps_random s) \<longrightarrow>
      (\<exists>e. get (ps_entries s) i = Some e \<and> pe_projection e = pe_projection e' \<and> pe_created e = pe_created e'))"
  using st
proof cases
  case (step_first p limit now r)
  note S = sweep_spec [OF inv, where now = now]
  from step_first(2) inv show ?thesis
  proof (cases rule: firstPage_cases)
    case (paged i rest n)
    then show ?thesis using S step_first(1) by (auto split: option.splits if_splits)
  qed (use inv S in \<open>auto split: option.splits if_splits\<close>)
next
  case (step_cursor token limit now r)
  note S = sweep_spec [OF inv, where now = now]
  from step_cursor inv show ?thesis
  proof (cases rule: cursorPage_cases)
    case (page c e n)
    have "proj_inv s'" unfolding page(9) using S(1) page(4) by (rule touch_inv)
    then show ?thesis using S page(4) unfolding page(9) by (auto simp: gomap_simps split: option.splits if_splits)
  qed (use inv S in \<open>auto split: option.splits if_splits\<close>)
next
  case (step_Stats now)
  then show ?thesis using sweep_spec [OF inv, where now = now] by (auto split: option.splits if_splits)
next
  case step_Close
  then show ?thesis using projection_Close_inv [OF inv] by (auto simp: projection_Close_def)
qed

lemma proj_reachable_inv: "proj_reachable hmac s \<Longrightarrow> proj_inv s"
  by (induction rule: proj_reachable.induct) (use new_inv proj_step_kept in blast)+

section \<open>The store is a pager\<close>

definition next_cursor :: "DescribeResponse \<Rightarrow> string option" where
  "next_cursor r = (if dx_NextCursor r = [] then None else Some (dx_NextCursor r))"

definition serves :: "hmac \<Rightarrow> ProjectionStore \<Rightarrow> Projection \<Rightarrow> nat \<Rightarrow> string \<Rightarrow> bool" where
  "serves hmac s p off token \<longleftrightarrow> mac32 hmac \<and> proj_inv s \<and> projection_ok p \<and>
     (\<exists>i limit. parseCursor hmac (ps_key s) token = Some \<lparr>pc_ID = i, pc_Offset = int off, pc_Limit = limit\<rparr> \<and>
        opaque_id i \<and> i \<notin> will_draw (ps_random s) \<and> (\<forall>e. get (ps_entries s) i = Some e \<longrightarrow> pe_projection e = p))"

definition paged :: "hmac \<Rightarrow> string \<Rightarrow> ProjectionStore \<Rightarrow> DescribeResponse \<Rightarrow> ProjectionStore \<Rightarrow> bool" where
  "paged hmac token s r s' \<longleftrightarrow> (\<exists>limit now. cursorPage hmac token limit now s = (Inr r, s'))"

text \<open>The cursor in a page that is not the last one.\<close>

lemma candidate_next:
  assumes mac: "mac32 hmac" and p: "projection_ok p" and i: "opaque_id i"
    and n: "0 < n" "off + n \<le> projectionItemCount p" and lim: "0 < limit" "limit \<le> DescribeLimitMax"
  shows "case next_cursor (candidate hmac key p off limit i n) of
      None \<Rightarrow> off + n = projectionItemCount p
    | Some t \<Rightarrow> off + n < projectionItemCount p \<and>
        parseCursor hmac key t = Some \<lparr>pc_ID = i, pc_Offset = int (off + n), pc_Limit = limit\<rparr>"
proof (cases "off + n < projectionItemCount p")
  case True
  let ?c = "\<lparr>pc_ID = i, pc_Offset = int (off + n), pc_Limit = limit\<rparr>"
  have "int (off + n) \<le> max_int64" using True p by (simp add: projection_ok_def)
  then have "parseCursor hmac key (makeCursor hmac key ?c) = Some ?c"
    using n lim i by (intro parseCursor_makeCursor [OF mac]) auto
  moreover have "makeCursor hmac key ?c \<noteq> []" by (simp add: makeCursor_def)
  ultimately show ?thesis using True by (simp add: next_cursor_def candidate_def)
next
  case False
  then show ?thesis using n by (simp add: next_cursor_def candidate_def)
qed

lemma candidate_items:
  "projection_items (candidate hmac key p off limit i n) = take n (drop off (projection_items p))"
  by (simp add: candidate_def pageProjection_items)

interpretation describe_pages: pager projection_items projection_items next_cursor "serves hmac" "paged hmac" "proj_step hmac" for hmac
proof
  fix s p off token r s'
  assume sv: "serves hmac s p off token" and pg: "paged hmac token s r s'"
  obtain limit now where f: "cursorPage hmac token limit now s = (Inr r, s')" using pg by (auto simp: paged_def)
  have inv: "proj_inv s" and mac: "mac32 hmac" and p: "projection_ok p" using sv by (simp_all add: serves_def)
  obtain i limit' where c: "parseCursor hmac (ps_key s) token = Some \<lparr>pc_ID = i, pc_Offset = int off, pc_Limit = limit'\<rparr>"
    "opaque_id i" "i \<notin> will_draw (ps_random s)" "\<forall>e. get (ps_entries s) i = Some e \<longrightarrow> pe_projection e = p"
    using sv by (auto simp: serves_def)
  note S = sweep_spec [OF inv, where now = now]
  have st: "proj_step hmac s s'" using f by (rule step_cursor)
  note K = proj_step_kept [OF st inv]
  from f inv show "\<exists>n. 0 < n \<and> off + n \<le> length (projection_items p) \<and>
      projection_items r = take n (drop off (projection_items p)) \<and>
      (case next_cursor r of None \<Rightarrow> off + n = length (projection_items p)
       | Some c' \<Rightarrow> off + n < length (projection_items p) \<and> serves hmac s' p (off + n) c')"
  proof (cases rule: cursorPage_cases)
    case (page d e n)
    have d: "d = \<lparr>pc_ID = i, pc_Offset = int off, pc_Limit = limit\<rparr>" "limit' = limit" using page(2,3) c(1) by auto
    have e: "pe_projection e = p" using page(4) c(4) S(6) d by (auto split: option.splits if_splits)
    have r: "r = candidate hmac (ps_key s) p off limit i n" using page(8) d e by simp
    note B = boundedPage_Inr [OF page(7)]
    have n: "0 < n" "off + n \<le> projectionItemCount p" using B(2,4) d e by simp_all
    have lim: "0 < limit" "limit \<le> DescribeLimitMax" using parseCursor_range [OF page(2)] d by simp_all
    have "get (ps_entries s') i = Some e' \<Longrightarrow> pe_projection e' = p" for e'
      using K c(3,4) by metis
    then have "serves hmac s' p (off + n) t"
      if "parseCursor hmac (ps_key s) t = Some \<lparr>pc_ID = i, pc_Offset = int (off + n), pc_Limit = limit\<rparr>" for t
      using that K mac p c(2,3) unfolding serves_def by auto
    then show ?thesis
      using candidate_next [OF mac p c(2) n lim, of "ps_key s"] n r candidate_items
      by (intro exI [of _ n]) (auto split: option.splits)
  qed auto
next
  fix s p off token s'
  assume sv: "serves hmac s p off token" and st: "proj_step hmac s s'"
  have inv: "proj_inv s" using sv by (simp add: serves_def)
  show "serves hmac s' p off token"
    using sv proj_step_kept [OF st inv] unfolding serves_def by (metis subsetD)
qed

end
