(* ===== verification/Describe_Props.thy ===== *)
theory Describe_Props
  imports Describe_Pager Registry_Props
begin

text \<open>
  The promises of descriptions: paging through a projection is complete and stable, the store stays within its
  limits, cursors cannot be altered, and a description reflects one installed record without holding on to it.
\<close>

section \<open>First pages\<close>

lemma drawID_distinct:
  "distinct (futureIDs (length random) random) \<Longrightarrow> drawID n used random = (Inr i, rest) \<Longrightarrow> i \<notin> will_draw rest"
proof (induction n arbitrary: random)
  case (Suc n)
  have long: "16 \<le> length random" using Suc.prems(2) by (auto simp: randomOpaqueID_def readFull_def split: if_splits)
  then obtain k where k: "length random = Suc k" by (cases "length random") auto
  have f: "futureIDs (length random) random = rawURLEncode (take 16 random) # futureIDs (length (drop 16 random)) (drop 16 random)"
    using long k futureIDs_enough [of "drop 16 random" k] by simp
  then have d: "distinct (futureIDs (length (drop 16 random)) (drop 16 random))"
    and i: "rawURLEncode (take 16 random) \<notin> will_draw (drop 16 random)"
    using Suc.prems(1) by (simp_all add: will_draw_def)
  show ?case
  proof (cases "used (rawURLEncode (take 16 random))")
    case True
    then show ?thesis using Suc.prems(2) Suc.IH [OF d] long by (simp add: randomOpaqueID_def readFull_def)
  next
    case False
    then show ?thesis using Suc.prems(2) i long by (auto simp: randomOpaqueID_def readFull_def)
  qed
qed simp

lemma firstPage_serves:
  assumes mac: "mac32 hmac" and inv: "proj_inv s" and p: "projection_ok p" and lim: "0 < limit" "limit \<le> DescribeLimitMax"
    and d: "distinct (futureIDs (length (ps_random s)) (ps_random s))" and f: "firstPage hmac p limit now s = (Inr r, s1)"
  shows "\<exists>n. projection_items r = take n (projection_items p) \<and>
    (case next_cursor r of None \<Rightarrow> n = projectionItemCount p
     | Some t \<Rightarrow> 0 < n \<and> n < projectionItemCount p \<and> serves hmac s1 p n t)"
  using f inv
proof (cases rule: firstPage_cases)
  case whole
  then show ?thesis
    by (intro exI [of _ "projectionItemCount p"]) (simp add: pageProjection_items next_cursor_def)
next
  case (paged i rest n)
  have "i \<notin> will_draw rest" using drawID_distinct [OF d paged(4)] .
  then have sv: "serves hmac s1 p n t"
    if "parseCursor hmac (ps_key s) t = Some \<lparr>pc_ID = i, pc_Offset = int n, pc_Limit = limit\<rparr>" for t
    using that mac p paged(5,11,12) sweep_spec(3) [OF inv] by (auto simp: serves_def newEntry_def)
  show ?thesis
    using candidate_next [OF mac p paged(5) paged(10) _ lim, of 0 "ps_key s"] paged(8,9,10) sv
    by (intro exI [of _ n]) (auto simp: candidate_items split: option.splits)
qed auto

section \<open>Following cursors in time\<close>

text \<open>A client that follows the cursors at the given clock readings.\<close>

fun followDescribe :: "hmac \<Rightarrow> int \<Rightarrow> time list \<Rightarrow> string \<Rightarrow> ProjectionStore \<Rightarrow> DescribeResponse list res \<times> ProjectionStore" where
  "followDescribe hmac limit ts [] s = (Inr [], s)"
| "followDescribe hmac limit [] (c # cs) s = (Inl (OtherError ''out of time''), s)"
| "followDescribe hmac limit (t # ts) (c # cs) s =
     (case cursorPage hmac (c # cs) limit t s of
        (Inl e, s') \<Rightarrow> (Inl e, s')
      | (Inr r, s') \<Rightarrow>
        (case followDescribe hmac limit ts (dx_NextCursor r) s' of
           (Inl e, s'') \<Rightarrow> (Inl e, s'')
         | (Inr rs, s'') \<Rightarrow> (Inr (r # rs), s'')))"

text \<open>Clock readings that leave no gap longer than the idle time and end before the absolute time.\<close>

fun timely :: "ProjectionLimits \<Rightarrow> time \<Rightarrow> time \<Rightarrow> time list \<Rightarrow> bool" where
  "timely limits created prev [] = True"
| "timely limits created prev (t # ts) =
     (t < prev + pl_Idle limits \<and> t < created + pl_Absolute limits \<and> timely limits created t ts)"

text \<open>A page of one item leaves room for a cursor.\<close>

definition item_fits :: "Projection \<Rightarrow> nat \<Rightarrow> bool" where
  "item_fits p off \<longleftrightarrow> int (length (jsonText (describeResponseJson (pageProjection p off 1 [])))) + 256 \<le> BrokerResponseMaxBytes"

lemma jsonMembers_snoc: "ms \<noteq> [] \<Longrightarrow> jsonMembers (ms @ [(k, v)]) = jsonMembers ms @ '','' @ jsonString k @ '':'' @ jsonText v"
proof (induction ms)
  case (Cons m ms)
  then show ?case by (cases m; cases ms) (simp_all add: jsonMembers_Cons)
qed simp

lemma truncate_page: "Projection.truncate (pageProjection p off n next) = Projection.truncate (pageProjection p off n [])"
  by (simp add: pageProjection_def split_beta Projection.defs)

lemma plain_signToken: "list_all plain kind \<Longrightarrow> list_all plain (signToken hmac key kind payload)"
  using plain_rawURLEncode by (simp add: signToken_def tokenPrefix_def Let_def plain_def byteN_def)

lemma item_fits_candidate:
  assumes mac: "mac32 hmac" and p: "projection_ok p" and i: "opaque_id i" and lim: "0 < limit" "limit \<le> DescribeLimitMax"
    and fit: "item_fits p off" and off: "off < projectionItemCount p"
  shows "describe_fits (candidate hmac key p off limit i 1)"
proof (cases "off + 1 < projectionItemCount p")
  case False
  then show ?thesis
    using fit by (simp add: describe_fits_def checkDescribeResponseSize_def candidate_def item_fits_def)
next
  case True
  let ?c = "\<lparr>pc_ID = i, pc_Offset = int (off + 1), pc_Limit = limit\<rparr>"
  define q where "q = pageProjection p off 1 []"
  define t where "t = makeCursor hmac key ?c"
  define ms where "ms = projectionMembers (Projection.truncate q)"
  have "int (off + 1) \<le> max_int64" "limit \<le> max_int64"
    using True p lim by (simp_all add: projection_ok_def DescribeLimitMax_def max_int64_def)
  then have "length (cursorPayload ?c) \<le> 80" using i lim by (intro length_cursorPayload) auto
  then have t: "length t \<le> 180" using mac by (simp add: t_def makeCursor_def length_signToken mac32_def)
  have "list_all plain t" unfolding t_def makeCursor_def by (rule plain_signToken) (simp add: plain_def byteN_def)
  then have js: "length (jsonString t) = 2 + length t" by (simp add: jsonString_plain)
  have jk: "length (jsonString ''next_cursor'') = 13"
    by (subst jsonString_plain) (simp_all add: plain_def byteN_def)
  have ne: "ms \<noteq> []" "t \<noteq> []" by (simp_all add: ms_def t_def projectionMembers_def makeCursor_def)
  have "candidate hmac key p off limit i 1 = pageProjection p off 1 t" using True by (simp add: candidate_def t_def)
  then have "describeResponseJson (candidate hmac key p off limit i 1) = JObj (ms @ [(''next_cursor'', JStr t)])"
    using ne(2) truncate_page [of p off 1 t] by (simp add: describeResponseJson_def ms_def q_def omitStr_def)
  then have "length (jsonText (describeResponseJson (candidate hmac key p off limit i 1))) = length (jsonText (JObj ms)) + 17 + length t"
    by (simp add: jsonMembers_snoc [OF ne(1)] js jk)
  moreover have "describeResponseJson q = JObj ms" by (simp add: describeResponseJson_def omitStr_def ms_def q_def)
  ultimately show ?thesis
    using fit t by (simp add: describe_fits_def checkDescribeResponseSize_def item_fits_def q_def)
qed

lemma parseCursor_empty: "parseCursor hmac key [] = None"
  by (simp add: parseCursor_def openToken_def OpaqueReferenceMaxBytes_def)

lemma follow_pages:
  assumes mac: "mac32 hmac" and p: "projection_ok p" and i: "opaque_id i" and lim: "0 < limit" "limit \<le> DescribeLimitMax"
    and fit: "\<forall>off < projectionItemCount p. item_fits p off"
  shows "proj_inv s \<Longrightarrow> \<not> ps_closed s \<Longrightarrow> get (ps_entries s) i = Some e \<Longrightarrow> pe_projection e = p \<Longrightarrow>
    pe_idleUntil e = prev + pl_Idle (ps_limits s) \<Longrightarrow> timely (ps_limits s) (pe_created e) prev ts \<Longrightarrow>
    parseCursor hmac (ps_key s) token = Some \<lparr>pc_ID = i, pc_Offset = int off, pc_Limit = limit\<rparr> \<Longrightarrow>
    off < projectionItemCount p \<Longrightarrow> projectionItemCount p - off \<le> length ts \<Longrightarrow>
    \<exists>rs s'. followDescribe hmac limit ts token s = (Inr rs, s') \<and> concat (map projection_items rs) = drop off (projection_items p)"
proof (induction ts arbitrary: s e prev token off)
  case (Cons t ts)
  note inv = Cons.prems(1)
  have tok: "token \<noteq> []" using Cons.prems(7) parseCursor_empty by force
  have off: "0 < int off" using parseCursor_range [OF Cons.prems(7)] by simp
  note S = sweep_spec [OF inv, where now = t]
  have e: "get (ps_entries (projection_sweepLocked t s)) i = Some e"
    using S(6) [of i] Cons.prems(3,5,6) by (simp add: entry_expired_def)
  let ?cand = "candidate hmac (ps_key s) p off limit i"
  have one: "describe_fits (?cand 1)"
    using fit Cons.prems(8) by (intro item_fits_candidate [OF mac p i lim]) auto
  obtain r n where b: "boundedPage hmac s p off limit i = Inr (r, n)"
  proof (cases "fittingPage ?cand (min (nat limit) (projectionItemCount p - off))")
    case None
    then have "\<not> describe_fits (?cand 1)" using lim Cons.prems(8) unfolding fittingPage_None by auto
    then show ?thesis using one by simp
  next
    case (Some q)
    then show ?thesis using that Cons.prems(8) by (cases q) (simp add: boundedPage_candidate of_option_def)
  qed
  note B = boundedPage_Inr [OF b]
  let ?s = "projection_sweepLocked t s" and ?e = "e\<lparr>pe_idleUntil := t + pl_Idle (ps_limits s)\<rparr>"
  let ?s' = "?s\<lparr>ps_entries := put i ?e (ps_entries ?s)\<rparr>"
  have b': "boundedPage hmac ?s p off limit i = Inr (r, n)" using b S(3) boundedPage_key [of ?s s] by simp
  have page: "cursorPage hmac token limit t s = (Inr r, ?s')"
    using Cons.prems e b' off S(2) by (simp add: cursorPage_def Let_def)
  have r: "projection_items r = take n (drop off (projection_items p))" using B(5) by (simp add: candidate_items)
  have split: "drop off (projection_items p) = take n (drop off (projection_items p)) @ drop (off + n) (projection_items p)"
    using append_take_drop_id [of n "drop off (projection_items p)"] by (simp add: add.commute)
  note N = candidate_next [OF mac p i _ B(4) lim, of "ps_key s"]
  show ?case
  proof (cases "next_cursor r")
    case None
    then have "off + n = projectionItemCount p" using N B(2,5) by simp
    moreover have "dx_NextCursor r = []" using None by (simp add: next_cursor_def split: if_splits)
    ultimately show ?thesis using page tok r by (cases token) simp_all
  next
    case (Some t')
    have t': "t' = dx_NextCursor r" using Some by (simp add: next_cursor_def split: if_splits)
    have c: "off + n < projectionItemCount p"
      "parseCursor hmac (ps_key s) t' = Some \<lparr>pc_ID = i, pc_Offset = int (off + n), pc_Limit = limit\<rparr>"
      using N B(2,5) Some by simp_all
    have inv': "proj_inv ?s'" using S(1) e by (rule touch_inv)
    have le: "projectionItemCount p - (off + n) \<le> length ts" using Cons.prems(9) B(2) by simp
    obtain rs s'' where "followDescribe hmac limit ts t' ?s' = (Inr rs, s'')"
      "concat (map projection_items rs) = drop (off + n) (projection_items p)"
      using Cons.IH [OF inv', of ?e t t' "off + n"] Cons.prems S c le by (auto simp: gomap_simps)
    then show ?thesis using page tok r split t' by (cases token) auto
  qed
qed simp

section \<open>A description in two pages to evaluate\<close>

definition demo_hmac :: hmac where "demo_hmac key m = replicate 32 (CHR ''m'')"

definition demo_projection :: Projection where
  "demo_projection =
     \<lparr>pj_CapabilityID = ''git.log'', pj_Name = ''Log'', pj_Version = ''1.0.0'', pj_Description = ''d'', pj_ManifestSHA256 = ''00'',
      pj_Include = [DescribeOperations], pj_Counts = \<lparr>cc_Skills = 0, cc_Operations = 2, cc_References = 0\<rparr>, pj_Skills = [],
      pj_Operations = [\<lparr>dop_ID = ''a'', dop_Description = ''first'', dop_MetadataState = ''unavailable''\<rparr>,
                       \<lparr>dop_ID = ''b'', dop_Description = ''second'', dop_MetadataState = ''unavailable''\<rparr>],
      pj_References = [], pj_bytes = 300\<rparr>"

definition demo_projection_limits :: ProjectionLimits where
  "demo_projection_limits = \<lparr>pl_MaxCount = 2, pl_MaxBytes = 1000, pl_Idle = 100, pl_Absolute = 1000\<rparr>"

definition demo_projections :: ProjectionStore where
  "demo_projections = \<lparr>ps_limits = demo_projection_limits, ps_random = replicate 16 (CHR ''r''), ps_key = replicate 32 (CHR ''k''),
     ps_closed = False, ps_entries = [], ps_bytes = 0\<rparr>"

definition pg_id :: string where "pg_id = rawURLEncode (replicate 16 (CHR ''r''))"

definition pg_token :: string where
  "pg_token = makeCursor demo_hmac (replicate 32 (CHR ''k'')) \<lparr>pc_ID = pg_id, pc_Offset = 1, pc_Limit = 1\<rparr>"

definition pg_stored :: ProjectionStore where
  "pg_stored = demo_projections\<lparr>ps_random := [], ps_bytes := 300,
     ps_entries := [(pg_id, \<lparr>pe_projection = demo_projection, pe_created = 0, pe_idleUntil = 100\<rparr>)]\<rparr>"

definition pg_later :: ProjectionStore where
  "pg_later = demo_projections\<lparr>ps_random := [], ps_bytes := 300,
     ps_entries := [(pg_id, \<lparr>pe_projection = demo_projection, pe_created = 0, pe_idleUntil = 150\<rparr>)]\<rparr>"

lemma pg_count: "projectionItemCount demo_projection = 2"
  by (simp add: projectionItemCount_def demo_projection_def)

lemma pg_items: "off < 2 \<Longrightarrow> item_fits demo_projection off"
proof -
  assume "off < 2"
  then have "jsonWeight (describeResponseJson (pageProjection demo_projection off 1 [])) \<le> 5000"
    by (auto simp: less_2_cases_iff pageProjection_def copySection_def demo_projection_def
      describeResponseJson_def projectionMembers_def Projection.defs omitStr_def omitArr_def operationJson_def countsJson_def
      DescribeOperations_def JInt_def intText_def natText.simps [of 0] natText.simps [of 2])
  then show ?thesis
    using length_jsonText(1) [of "describeResponseJson (pageProjection demo_projection off 1 [])"]
    by (simp add: item_fits_def BrokerResponseMaxBytes_def)
qed

lemma pg_mac: "mac32 demo_hmac" by (simp add: mac32_def demo_hmac_def)

lemma pg_id: "opaque_id pg_id" unfolding opaque_id_def pg_id_def by (intro exI [of _ "replicate 16 (CHR ''r'')"]) simp

lemma pg_ok: "projection_ok demo_projection" by (simp add: projection_ok_def pg_count max_int64_def) (simp add: demo_projection_def)

lemma pg_candidate:
  "candidate demo_hmac (replicate 32 (CHR ''k'')) demo_projection 0 1 pg_id 1 = pageProjection demo_projection 0 1 pg_token"
  "candidate demo_hmac (replicate 32 (CHR ''k'')) demo_projection 1 1 pg_id 1 = pageProjection demo_projection 1 1 []"
  by (simp_all add: candidate_def pg_count pg_token_def)

lemma pg_bounded:
  assumes "ps_key s = replicate 32 (CHR ''k'')" and "off < 2"
  shows "boundedPage demo_hmac s demo_projection off 1 pg_id = Inr (candidate demo_hmac (replicate 32 (CHR ''k'')) demo_projection off 1 pg_id 1, 1)"
proof -
  have "describe_fits (candidate demo_hmac (replicate 32 (CHR ''k'')) demo_projection off 1 pg_id 1)"
    by (rule item_fits_candidate [OF pg_mac pg_ok pg_id]) (simp_all add: pg_items assms pg_count DescribeLimitMax_def)
  moreover have "min (nat 1) (2 - off) = Suc 0" using assms(2) by simp
  ultimately show ?thesis using assms by (simp add: boundedPage_candidate pg_count of_option_def describe_fits_def)
qed

lemma pg_draw: "drawID readHandleCollisionAttempts (\<lambda>i. False) (replicate 16 (CHR ''r'')) = (Inr pg_id, [])"
  by code_simp

lemma pg_first: "firstPage demo_hmac demo_projection 1 0 demo_projections = (Inr (pageProjection demo_projection 0 1 pg_token), pg_stored)"
proof -
  have "pj_bytes demo_projection = 300" by (simp add: demo_projection_def)
  then show ?thesis
    by (simp add: firstPage_def Let_def demo_projections_def projection_sweepLocked_def pg_count demo_projection_limits_def
        pg_draw pg_bounded pg_candidate [unfolded One_nat_def] pg_stored_def)
qed

lemma pg_parse: "parseCursor demo_hmac (replicate 32 (CHR ''k'')) pg_token = Some \<lparr>pc_ID = pg_id, pc_Offset = 1, pc_Limit = 1\<rparr>"
  unfolding pg_token_def
  by (rule parseCursor_makeCursor [OF pg_mac]) (simp_all add: pg_id max_int64_def DescribeLimitMax_def)

lemma pg_sweep: "projection_sweepLocked 50 pg_stored = pg_stored"
  by (simp add: projection_sweepLocked_def pg_stored_def demo_projections_def demo_projection_limits_def entry_expired_def)

lemma pg_second: "cursorPage demo_hmac pg_token 1 50 pg_stored = (Inr (pageProjection demo_projection 1 1 []), pg_later)"
proof -
  have "ps_key pg_stored = replicate 32 (CHR ''k'')" "\<not> ps_closed pg_stored"
    "get (ps_entries pg_stored) pg_id = Some \<lparr>pe_projection = demo_projection, pe_created = 0, pe_idleUntil = 100\<rparr>"
    "projectionItemCount demo_projection = 2"
    by (simp_all add: pg_stored_def demo_projections_def projectionItemCount_def demo_projection_def)
  then show ?thesis
    by (simp add: cursorPage_def pg_parse pg_sweep pg_bounded pg_candidate [unfolded One_nat_def] Let_def)
      (simp add: pg_stored_def pg_later_def demo_projections_def demo_projection_limits_def)
qed

lemma demo_projections_reachable: "proj_reachable demo_hmac demo_projections"
proof (rule proj_start)
  show "newProjectionStore demo_projection_limits (replicate 32 (CHR ''k'') @ replicate 16 (CHR ''r'')) = Inr demo_projections"
    by (simp add: newProjectionStore_def readFull_def validateProjectionLimits_def demo_projection_limits_def demo_projections_def
      service_limit_defs)
qed

lemma pg_reachable: "proj_reachable demo_hmac pg_stored"
  using demo_projections_reachable step_first [OF pg_ok pg_first] by (rule proj_next)

section \<open>Properties\<close>

text \<open>C10: Paging is complete and stable.  Whoever follows the cursors of a description to the end, while
  others open, follow and expire descriptions in between and the registry changes, has received every item of the
  projection exactly once and in order, in at most as many pages as items.  The random source must not
  repeat an identifier; an HMAC of 32 bytes is what crypto/hmac with SHA-256 returns.\<close>

theorem describe_pages_complete:
  assumes mac: "mac32 hmac" and s: "proj_reachable hmac s" and p: "projection_ok p"
    and lim: "0 < limit" "limit \<le> DescribeLimitMax"
    and d: "distinct (futureIDs (length (ps_random s)) (ps_random s))"
    and f: "firstPage hmac p limit now s = (Inr r, s1)" and w: "describe_pages.walk hmac s1 (next_cursor r) rs s2"
  shows "concat (map projection_items (r # rs)) = projection_items p \<and> length rs \<le> projectionItemCount p - 1"
proof -
  obtain n where n: "projection_items r = take n (projection_items p)"
    "case next_cursor r of None \<Rightarrow> n = projectionItemCount p
     | Some t \<Rightarrow> 0 < n \<and> n < projectionItemCount p \<and> serves hmac s1 p n t"
    using firstPage_serves [OF mac proj_reachable_inv [OF s] p lim d f] by blast
  show ?thesis
  proof (cases "next_cursor r")
    case None
    then show ?thesis using n describe_pages.walk_None [OF w] by simp
  next
    case (Some t)
    then have sv: "0 < n" "serves hmac s1 p n t" using n(2) by simp_all
    have "concat (map projection_items rs) = drop n (projection_items p) \<and> length rs \<le> projectionItemCount p - n"
      using describe_pages.walk_items [OF w Some sv(2)] by simp
    then show ?thesis using n(1) sv(1) by auto
  qed
qed

theorem describe_pages_complete_witness:
  "concat (map projection_items [pageProjection demo_projection 0 1 pg_token, pageProjection demo_projection 1 1 []]) =
     projection_items demo_projection \<and> projection_items demo_projection \<noteq> []"
proof -
  have distinct: "distinct (futureIDs (length (ps_random demo_projections)) (ps_random demo_projections))" by code_simp
  have tok: "next_cursor (pageProjection demo_projection 0 1 pg_token) = Some pg_token"
    by (simp add: next_cursor_def pg_token_def makeCursor_def)
  have "describe_pages.walk demo_hmac pg_stored (Some pg_token) [pageProjection demo_projection 1 1 []] pg_later"
    using pg_second by (intro describe_pages.walk_page [of demo_hmac])
      (auto simp: paged_def next_cursor_def intro: describe_pages.walk_done)
  then have "concat (map projection_items [pageProjection demo_projection 0 1 pg_token, pageProjection demo_projection 1 1 []]) =
      projection_items demo_projection"
    using describe_pages_complete [OF pg_mac demo_projections_reachable pg_ok _ _ distinct pg_first, of "[pageProjection demo_projection 1 1 []]"]
      tok by (simp add: DescribeLimitMax_def)
  moreover have "projection_items demo_projection \<noteq> []" by (simp add: projection_items_def demo_projection_def)
  ultimately show ?thesis by blast
qed

text \<open>C28: Paging comes to an end.  A client that follows the cursors of a description, each within the idle time
  after the one before and all within the absolute lifetime, gets all remaining pages, with no error, in at most as many
  requests as there are items left, provided a page of a single item fits into a response.\<close>

theorem describe_follow_ends:
  assumes mac: "mac32 hmac" and s: "proj_reachable hmac s" and p: "projection_ok p"
    and lim: "0 < limit" "limit \<le> DescribeLimitMax" and fit: "\<forall>off < projectionItemCount p. item_fits p off"
    and f: "firstPage hmac p limit now s = (Inr r, s1)"
    and time: "timely (ps_limits s) now now ts" "projectionItemCount p \<le> length ts + 1"
  shows "\<exists>rs s2. followDescribe hmac limit ts (dx_NextCursor r) s1 = (Inr rs, s2) \<and>
    concat (map projection_items (r # rs)) = projection_items p"
  using f proj_reachable_inv [OF s]
proof (cases rule: firstPage_cases)
  case (paged i rest n)
  note S = sweep_spec [OF proj_reachable_inv [OF s], where now = now]
  have r: "r = candidate hmac (ps_key s) p 0 limit i n" using paged(8) by simp
  have c: "dx_NextCursor r \<noteq> []"
    "parseCursor hmac (ps_key s) (dx_NextCursor r) = Some \<lparr>pc_ID = i, pc_Offset = int n, pc_Limit = limit\<rparr>"
    using candidate_next [OF mac p paged(5) paged(10) _ lim, of 0 "ps_key s"] paged(9) r
    by (auto simp: next_cursor_def split: if_splits)
  have "proj_inv s1" using paged(12) p by blast
  have "\<exists>rs s2. followDescribe hmac limit ts (dx_NextCursor r) s1 = (Inr rs, s2) \<and>
      concat (map projection_items rs) = drop n (projection_items p)"
  proof (rule follow_pages [OF mac p paged(5) lim fit \<open>proj_inv s1\<close>])
    show "get (ps_entries s1) i = Some (newEntry p now (projection_sweepLocked now s))" by (simp add: paged(11))
  qed (use c paged(1,9,10,11) S time in \<open>simp_all add: newEntry_def\<close>)
  then show ?thesis using r by (auto simp: candidate_items)
qed (auto simp: pageProjection_items)

theorem describe_follow_ends_witness:
  "\<exists>rs s2. followDescribe demo_hmac 1 [50] pg_token pg_stored = (Inr rs, s2) \<and>
    concat (map projection_items (pageProjection demo_projection 0 1 pg_token # rs)) = projection_items demo_projection"
proof -
  have l: "ps_limits demo_projections = demo_projection_limits" by (simp add: demo_projections_def)
  show ?thesis
    using describe_follow_ends [OF pg_mac demo_projections_reachable pg_ok _ _ _ pg_first, of "[50]"] pg_items pg_count
    by (simp add: DescribeLimitMax_def l demo_projection_limits_def)
qed

text \<open>C30: The projection store keeps to its limits: in every reachable state it holds at most as many projections
  and bytes as configured, counts the bytes exactly, and after a sweep only projections that are neither idle nor
  past their absolute lifetime; statistics report these numbers.\<close>

theorem projection_store_bounded:
  assumes "proj_reachable hmac s" and "projection_Stats now s = (stats, s')"
  shows "pt_Projections stats = int (length (ps_entries s')) \<and> pt_Projections stats \<le> pl_MaxCount (ps_limits s) \<and>
    pt_Projections stats \<le> 128 \<and> pt_Bytes stats = msum entry_bytes (ps_entries s') \<and> pt_Bytes stats \<le> pl_MaxBytes (ps_limits s) \<and>
    (\<forall>i e. get (ps_entries s') i = Some e \<longleftrightarrow>
       get (ps_entries s) i = Some e \<and> now < pe_idleUntil e \<and> now < pe_created e + pl_Absolute (ps_limits s))"
proof -
  have s': "s' = projection_sweepLocked now s" and st: "stats = \<lparr>pt_Projections = int (length (ps_entries s')), pt_Bytes = ps_bytes s'\<rparr>"
    using assms(2) by (auto simp: projection_Stats_def Let_def)
  note S = sweep_spec [OF proj_reachable_inv [OF assms(1)], where now = now, folded s']
  note I = proj_invD [OF S(1)]
  have "pl_MaxCount (ps_limits s) \<le> 128"
    using I(1) S(2) by (auto simp: validateProjectionLimits_def ProjectionCountMax_def split: if_splits)
  moreover have "get (ps_entries s') i = Some e \<longleftrightarrow>
       get (ps_entries s) i = Some e \<and> now < pe_idleUntil e \<and> now < pe_created e + pl_Absolute (ps_limits s)" for i e
    using S(6) [of i] by (auto simp: entry_expired_def split: option.splits if_splits)
  ultimately show ?thesis using I(3,6,7) S(2) st by simp
qed

theorem projection_store_bounded_witness:
  "pt_Bytes (fst (projection_Stats 50 pg_stored)) = 300 \<and> pt_Projections (fst (projection_Stats 50 pg_stored)) \<le> 2"
proof -
  have "projection_Stats 50 pg_stored = (\<lparr>pt_Projections = 1, pt_Bytes = 300\<rparr>, pg_stored)"
    by (simp add: projection_Stats_def pg_sweep) (simp add: pg_stored_def)
  then show ?thesis
    using projection_store_bounded [OF pg_reachable, of 50 "\<lparr>pt_Projections = 1, pt_Bytes = 300\<rparr>" pg_stored]
    by simp
qed

text \<open>Only the broker's own cursors are followed, and only as they were made.  A request with a cursor that is
  answered in any way but ErrDescribeCursorInvalid or ErrServiceClosed carries a MAC over its prefix and payload
  under the store's key, and its payload names the limit of the request; every other cursor leaves the store as it is.\<close>

theorem describe_cursor_authentic:
  assumes "cursorPage hmac token limit now s = (r, s')"
  shows "(r = Inl ErrDescribeCursorInvalid \<and> s' = s) \<or>
    (\<exists>encoded mac payload c. token = ''describe:v1:'' @ encoded @ '':'' @ mac \<and>
       rawURLDecode mac = Some (hmac (ps_key s) (''describe:v1:'' @ encoded)) \<and> rawURLDecode encoded = Some payload \<and>
       decodeStruct cursorField \<lparr>pc_ID = [], pc_Offset = 0, pc_Limit = 0\<rparr> payload = Some c \<and>
       0 < pc_Offset c \<and> pc_Limit c = limit \<and> limit \<le> DescribeLimitMax)"
proof (cases "parseCursor hmac (ps_key s) token")
  case None
  then show ?thesis using assms by (auto simp: cursorPage_def)
next
  case (Some c)
  then obtain payload where o: "openToken hmac (ps_key s) ''describe'' token = Some payload"
    "decodeStruct cursorField \<lparr>pc_ID = [], pc_Offset = 0, pc_Limit = 0\<rparr> payload = Some c"
    by (auto simp: parseCursor_def split: if_splits option.splits)
  show ?thesis
  proof (cases "pc_Limit c = limit")
    case False
    then show ?thesis using assms Some by (auto simp: cursorPage_def)
  next
    case True
    then show ?thesis using openToken_authentic [OF o(1)] o(2) parseCursor_range [OF Some] by (auto simp: tokenPrefix_def)
  qed
qed

theorem describe_cursor_authentic_witness:
  "\<exists>mac. pg_token = ''describe:v1:'' @ mac"
  using describe_cursor_authentic [OF pg_second] by auto

text \<open>A cursor round trip: what the store put into a cursor (an identifier it drew, an offset and a limit) is what
  it reads back from it, whatever the key.\<close>

theorem describe_cursor_roundtrip:
  assumes "mac32 hmac" and "opaque_id (pc_ID c)" and "0 < pc_Offset c" and "pc_Offset c \<le> max_int64"
    and "0 < pc_Limit c" and "pc_Limit c \<le> DescribeLimitMax"
  shows "parseCursor hmac key (makeCursor hmac key c) = Some (c :: projectionCursor)"
  using assms by (rule parseCursor_makeCursor)

theorem describe_cursor_roundtrip_witness:
  "parseCursor demo_hmac [] (makeCursor demo_hmac [] \<lparr>pc_ID = pg_id, pc_Offset = 7, pc_Limit = 3\<rparr>) =
    Some \<lparr>pc_ID = pg_id, pc_Offset = 7, pc_Limit = 3\<rparr>"
  by (rule describe_cursor_roundtrip [OF pg_mac]) (simp_all add: pg_id max_int64_def DescribeLimitMax_def)

end
