(* ===== verification/Describe_Record.thy ===== *)
theory Describe_Record
  imports Describe_Pager Registry_Props
begin

text \<open>
  What a description says of a record, and what \<^verbatim>\<open>Describe\<close> does to the registry: nothing that outlives the request.
\<close>

section \<open>Includes\<close>

definition sections :: "string list" where
  "sections = [DescribeSkills, DescribeOperations, DescribeReferences]"

definition include_ok :: "string list \<Rightarrow> bool" where
  "include_ok inc \<longleftrightarrow> inc \<noteq> [] \<and> distinct inc \<and> set inc \<subseteq> set sections"

lemma section_names:
  "DescribeSkills \<noteq> DescribeOperations" "DescribeSkills \<noteq> DescribeReferences" "DescribeOperations \<noteq> DescribeReferences"
  by (simp_all add: DescribeSkills_def DescribeOperations_def DescribeReferences_def)

lemma section_valid: "x \<in> set sections \<Longrightarrow> validString x \<and> int (length x) \<le> DescribeIncludeMaxBytes"
  by (auto simp: sections_def DescribeSkills_def DescribeOperations_def DescribeReferences_def DescribeIncludeMaxBytes_def
    validString_def byteN_def)

lemma include_ok_length: "include_ok inc \<Longrightarrow> length inc \<le> 3"
proof -
  assume "include_ok inc"
  then have "length inc = card (set inc)" "card (set inc) \<le> card (set sections)"
    by (auto simp: include_ok_def distinct_card [symmetric] simp del: distinct_card intro: card_mono)
  then show ?thesis using card_length [of sections] by (simp add: sections_def)
qed

lemma include_ok_some:
  "include_ok inc \<Longrightarrow> DescribeSkills \<in> set inc \<or> DescribeOperations \<in> set inc \<or> DescribeReferences \<in> set inc"
  by (cases inc) (auto simp: include_ok_def sections_def)

lemma normalizeIncludes_eq:
  "normalizeIncludes inc =
     (if include_ok inc then Inr (filter (\<lambda>x. x \<in> set inc) sections) else Inl ErrDescribeRequestInvalid)"
proof -
  define f where "f = (\<lambda>acc section. rbind acc (\<lambda>selected.
      if \<not> validString section \<or> int (length section) > DescribeIncludeMaxBytes then Inl ErrDescribeRequestInvalid
      else if section \<noteq> DescribeSkills \<and> section \<noteq> DescribeOperations \<and> section \<noteq> DescribeReferences
      then Inl ErrDescribeRequestInvalid
      else if section \<in> set selected then Inl ErrDescribeRequestInvalid
      else Inr (section # selected)))"
  have fail: "foldl f (Inl e) xs = Inl e" for e xs by (induction xs) (auto simp: f_def)
  have step: "f (Inr sel) x = (if x \<in> set sections \<and> x \<notin> set sel then Inr (x # sel) else Inl ErrDescribeRequestInvalid)" for x sel
    using section_valid [of x] by (auto simp: f_def sections_def)
  have fold: "foldl f (Inr sel) xs =
      (if distinct xs \<and> set xs \<subseteq> set sections \<and> set xs \<inter> set sel = {} then Inr (rev xs @ sel) else Inl ErrDescribeRequestInvalid)" for xs sel
  proof (induction xs arbitrary: sel)
    case (Cons x xs)
    then show ?case by (auto simp: step fail)
  qed simp
  have "normalizeIncludes inc = (if inc = [] \<or> length inc > 3 then Inl ErrDescribeRequestInvalid
      else rbind (foldl f (Inr []) inc) (\<lambda>selected. Inr (filter (\<lambda>section. section \<in> set selected) sections)))"
    by (simp only: normalizeIncludes_def f_def sections_def)
  then show ?thesis
    unfolding fold using include_ok_length [of inc]
    by (cases "include_ok inc") (auto simp: include_ok_def)
qed

text \<open>A projection holds exactly what was asked for: of each requested section all items of the record, skills and
  references ordered by identifier, and of every other section nothing; the counts are the numbers of items, the size
  is that of the whole encoding.  A request for no section, an unknown one or one twice is refused.\<close>

theorem BuildProjection_spec:
  "if include_ok inc
   then \<exists>p. BuildProjection (Some r) inc = Inr p \<and> pj_CapabilityID p = md_ID (rc_metadata r) \<and>
     pj_Version p = md_Version (rc_metadata r) \<and> pj_ManifestSHA256 p = rc_manifestDigest r \<and> set (pj_Include p) = set inc \<and>
     pj_Skills p = (if DescribeSkills \<in> set inc then sort_key ds_ID (map describeSkill (rc_skills r)) else []) \<and>
     pj_Operations p = (if DescribeOperations \<in> set inc then map describeOperation (rc_operations r) else []) \<and>
     mset (pj_References p) = (if DescribeReferences \<in> set inc then mset (contextReferences r @ skillReferences r) else {#}) \<and>
     sorted (map dr_ID (pj_References p)) \<and>
     pj_Counts p = \<lparr>cc_Skills = int (length (pj_Skills p)), cc_Operations = int (length (pj_Operations p)),
                    cc_References = int (length (pj_References p))\<rparr> \<and>
     pj_bytes p = int (length (jsonText (serializable p)))
   else BuildProjection (Some r) inc = Inl ErrDescribeRequestInvalid"
proof (cases "include_ok inc")
  case True
  have set: "set (filter (\<lambda>x. x \<in> set inc) sections) = set inc" using True by (auto simp: include_ok_def)
  show ?thesis
    unfolding BuildProjection_def normalizeIncludes_eq
    using True section_names include_ok_some [OF True] set
    by (cases "DescribeSkills \<in> set inc"; cases "DescribeOperations \<in> set inc"; cases "DescribeReferences \<in> set inc")
      (simp_all add: sections_def addSection_def Let_def serializable_def projectionMembers_def)
next
  case False
  then show ?thesis by (simp add: BuildProjection_def normalizeIncludes_eq)
qed

section \<open>The registry under a description\<close>

lemma describeRecord_spec:
  assumes reg: "reg_reachable sha256 w" and d: "describeRecord request w = (q, w')"
  shows "reg_reachable sha256 w' \<and> reg_abs w' = reg_abs w \<and> (\<forall>b. lease_live w' b \<longleftrightarrow> lease_live w b) \<and>
    (\<forall>p. q = Inr p \<longrightarrow> (\<exists>r. lookup_spec (dq_CapabilityID request) (reg_abs w) = Inr r \<and>
       include_ok (dq_Include request) \<and> BuildProjection (Some r) (dq_Include request) = Inr p))"
proof (cases "q = fst (describeRecord request w) \<and> w' = w \<and> (\<forall>p. q \<noteq> Inr p)")
  case True
  then show ?thesis using reg by blast
next
  case False
  note inv = reg_reachable_inv [OF reg]
  obtain w1 b canon where l: "Lookup (dq_CapabilityID request) w = Inr (w1, b)"
    and inc: "normalizeIncludes (dq_Include request) = Inr canon"
    and q: "q = BuildProjection (leaseRecord b w1) canon" "w' = leaseRelease b w1"
    using d False by (auto simp: describeRecord_def split: if_splits sum.splits)
  obtain a g where g: "get (rg_gens (w_reg w)) a = Some g" and n: "newLease a g None w = (w1, b)"
    and e: "\<not> rg_closed (w_reg w)" "get (rg_entries (w_reg w)) (dq_CapabilityID request) = Some a"
    using l by (auto simp: Lookup_leased leased_def)
  note N = newLease_frame [OF g n]
  have r1: "reg_reachable sha256 w1" using reg step_Lookup [OF l] by (rule reg_next)
  then have "reg_reachable sha256 w'" unfolding q using step_Release by (rule reg_next)
  moreover have "reg_abs w' = reg_abs w"
    unfolding reg_abs_def q using N reg_map_cong [of "leaseRelease b w1" w] by simp
  moreover have "lease_live w' c \<longleftrightarrow> lease_live w c" for c
    unfolding q lease_live_def leaseRelease_leases N(7) using N(5) get_fresh [of "w_leases w"]
    by (auto simp: gomap_simps)
  moreover have "\<exists>r. lookup_spec (dq_CapabilityID request) (reg_abs w) = Inr r \<and>
      include_ok (dq_Include request) \<and> BuildProjection (Some r) (dq_Include request) = Inr p" if p: "q = Inr p" for p
  proof -
    have r: "lookup_spec (dq_CapabilityID request) (reg_abs w) = Inr (gn_record g)" "leaseRecord b w1 = Some (gn_record g)"
      using e g n newLease_view [OF g, of None] by (simp_all add: lookup_spec_Inr reg_map_def lease_view_def)
    have ok: "include_ok (dq_Include request)" "canon = filter (\<lambda>x. x \<in> set (dq_Include request)) sections"
      using inc by (auto simp: normalizeIncludes_eq split: if_splits)
    have "normalizeIncludes canon = Inr canon"
      using ok section_names include_ok_some [OF ok(1)] by (auto simp: normalizeIncludes_eq include_ok_def sections_def split: if_splits)
    then have "normalizeIncludes canon = normalizeIncludes (dq_Include request)" using inc by simp
    then have "BuildProjection x canon = BuildProjection x (dq_Include request)" for x
      by (simp only: BuildProjection_def)
    then show ?thesis using r q(1) p ok(1) by metis
  qed
  ultimately show ?thesis by blast
qed

lemma BuildProjection_digest:
  "BuildProjection (Some r) inc = Inr p \<Longrightarrow> pj_ManifestSHA256 p = rc_manifestDigest r"
proof -
  have "pj_ManifestSHA256 (foldl (\<lambda>p section. addSection r section p) p xs) = pj_ManifestSHA256 p" for p xs
    by (induction xs arbitrary: p) (auto simp: addSection_def Let_def)
  then show "BuildProjection (Some r) inc = Inr p \<Longrightarrow> pj_ManifestSHA256 p = rc_manifestDigest r"
    by (auto simp: BuildProjection_def res_simps Let_def)
qed

lemma firstPage_items:
  assumes "firstPage hmac p limit now s = (Inr r, s')" and "proj_inv s"
  shows "\<exists>n. projection_items r = take n (projection_items p)" and "pj_ManifestSHA256 r = pj_ManifestSHA256 p"
    and "pj_Counts r = pj_Counts p" and "pj_CapabilityID r = pj_CapabilityID p"
proof -
  obtain n c where r: "r = pageProjection p 0 n c"
    using assms
  proof (cases rule: firstPage_cases)
    case whole
    then show ?thesis using that by blast
  next
    case (paged i rest n)
    then show ?thesis using that by (simp add: candidate_def)
  qed auto
  then show "\<exists>n. projection_items r = take n (projection_items p)" "pj_ManifestSHA256 r = pj_ManifestSHA256 p"
    "pj_Counts r = pj_Counts p" "pj_CapabilityID r = pj_CapabilityID p"
    by (auto simp: pageProjection_items)
qed

text \<open>C29: A description is a copy of one installed record.  A first request that succeeds returns the first items of
  the projection of the record installed under the identifier at that moment, with its manifest digest and counts; no
  request, whether it succeeds or fails, leaves a lease behind or changes what is installed.\<close>

theorem describe_copies_record:
  assumes reg: "reg_reachable sha256 w" and st: "proj_reachable hmac s"
    and d: "Describe hmac request now (w, s) = (r, w', s')"
  shows "reg_reachable sha256 w' \<and> reg_abs w' = reg_abs w \<and> (\<forall>b. lease_live w' b \<longleftrightarrow> lease_live w b) \<and>
    (dq_Cursor request \<noteq> [] \<longrightarrow> w' = w) \<and>
    (\<forall>response. r = Inr response \<and> dq_Cursor request = [] \<longrightarrow>
      (\<exists>record p. lookup_spec (dq_CapabilityID request) (reg_abs w) = Inr record \<and>
         BuildProjection (Some record) (dq_Include request) = Inr p \<and>
         (\<exists>n. projection_items response = take n (projection_items p)) \<and>
         pj_ManifestSHA256 response = rc_manifestDigest record \<and> pj_Counts response = pj_Counts p))"
proof (cases "dq_Limit request \<le> 0 \<or> dq_Limit request > DescribeLimitMax \<or> ps_closed s \<or> dq_Cursor request \<noteq> []")
  case True
  then have "w' = w \<and> (dq_Cursor request = [] \<longrightarrow> (\<exists>e. r = Inl e))"
    using d by (auto simp: Describe_def split: if_splits prod.splits)
  then show ?thesis using reg by auto
next
  case False
  obtain q w1 where q: "describeRecord request w = (q, w1)" by force
  note D = describeRecord_spec [OF reg q]
  show ?thesis
  proof (cases q)
    case (Inl e)
    then have "r = Inl e \<and> w' = w1" using d q False by (auto simp: Describe_def)
    then show ?thesis using D False by auto
  next
    case (Inr p)
    have f: "firstPage hmac p (dq_Limit request) now s = (r, s')" "w' = w1"
      using d q False Inr by (auto simp: Describe_def split: prod.splits)
    obtain rc where rec: "lookup_spec (dq_CapabilityID request) (reg_abs w) = Inr rc"
      "BuildProjection (Some rc) (dq_Include request) = Inr p" using D Inr by blast
    have "pj_ManifestSHA256 p = rc_manifestDigest rc"
      using BuildProjection_digest [OF rec(2)] .
    moreover have "(\<exists>n. projection_items x = take n (projection_items p)) \<and> pj_ManifestSHA256 x = pj_ManifestSHA256 p \<and>
        pj_Counts x = pj_Counts p" if "r = Inr x" for x
      using firstPage_items [OF f(1) [unfolded that] proj_reachable_inv [OF st]] by blast
    ultimately show ?thesis using D False f(2) rec by auto
  qed
qed

theorem describe_copies_record_witness:
  "let (r, w', s') = Describe (\<lambda>k m. replicate 32 (CHR ''m''))
       \<lparr>dq_CapabilityID = ''git.log'', dq_Include = [DescribeOperations], dq_Limit = 10, dq_Cursor = []\<rparr> 0
       (demo_world, \<lparr>ps_limits = DefaultProjectionLimits, ps_random = [], ps_key = replicate 32 (CHR ''k''), ps_closed = False,
         ps_entries = [], ps_bytes = 0\<rparr>)
   in reg_abs w' = reg_abs demo_world \<and> \<not> lease_live w' 0"
proof -
  let ?s = "\<lparr>ps_limits = DefaultProjectionLimits, ps_random = [], ps_key = replicate 32 (CHR ''k''), ps_closed = False,
         ps_entries = [], ps_bytes = 0\<rparr>"
  have "newProjectionStore DefaultProjectionLimits (replicate 32 (CHR ''k'')) = Inr ?s"
    by (simp add: newProjectionStore_def DefaultProjectionLimits_ok readFull_def)
  then have s: "proj_reachable (\<lambda>k m. replicate 32 (CHR ''m'')) ?s" by (rule proj_start)
  have "\<not> lease_live demo_world 0" by code_simp
  then show ?thesis
    using describe_copies_record [OF demo_world_reachable s] by (auto split: prod.splits)
qed

end
