(* ===== verification/Search.thy ===== *)
theory Search
  imports Describe "HOL-Library.Product_Lexorder"
begin

text \<open>
  Lexical search over the installed packages, \<^verbatim>\<open>internal/capability/search.go\<close>.

  Unicode normalisation and case folding (\<^verbatim>\<open>golang.org/x/text\<close>) and the character classes of package \<^verbatim>\<open>unicode\<close>, which
  are tables of the Unicode version in use, are the fields of a record \<open>text_env\<close>; \<^verbatim>\<open>unicode.IsSpace\<close> is short enough to
  be written out, in theory \<^verbatim>\<open>GoStrings\<close>.  A Go \<^verbatim>\<open>rune\<close> is a natural number.
\<close>

section \<open>Constants and types\<close>

definition SearchRankingVersion :: string where "SearchRankingVersion = ''lexical-v1''"
definition SearchQueryMaxBytes :: int where "SearchQueryMaxBytes = 4096"
definition SearchLimitMax :: int where "SearchLimitMax = 100"
definition searchExactScore :: int where "searchExactScore = 1000000"
definition searchMinimumScore :: int where "searchMinimumScore = 375000"
definition searchQueryWeight :: int where "searchQueryWeight = 500000"
definition searchFieldWeight :: int where "searchFieldWeight = 250000"
definition searchEvidencePerByte :: int where "searchEvidencePerByte = 25000"
definition searchEvidenceMaximum :: int where "searchEvidenceMaximum = 250000"

record text_env =
  tx_NFC :: "string \<Rightarrow> string"
  tx_Fold :: "string \<Rightarrow> string"
  tx_IsLetter :: "nat \<Rightarrow> bool"
  tx_IsNumber :: "nat \<Rightarrow> bool"
  tx_IsUpper :: "nat \<Rightarrow> bool"
  tx_IsLower :: "nat \<Rightarrow> bool"

record SearchRequest =
  sq_Query :: string
  sq_Path :: string
  sq_Limit :: int

record CapabilityCard =
  cd_ID :: string
  cd_Name :: string
  cd_Version :: string
  cd_Description :: string
  cd_Path :: string
  cd_Tags :: "string list"
  cd_Counts :: CapabilityCounts

record SearchResult =
  sx_Card :: CapabilityCard
  sx_Score :: int
  sx_MatchKind :: string
  sx_MatchedField :: string
  sx_Reason :: string

record SearchResponse =
  so_RankingVersion :: string
  so_Results :: "SearchResult list"

record normalizedSearchText =
  nt_exact :: string
  nt_tokens :: "string list"
  nt_tokenSet :: "(string, unit) gomap"
  nt_tokenBytes :: int
  nt_qualifiedIdentifier :: bool

record searchMatch =
  mt_tier :: int
  mt_score :: int
  mt_kind :: string
  mt_matchedField :: string
  mt_reason :: string

record searchField =
  sf_name :: string
  sf_value :: string

record rankedSearchResult =
  rk_result :: SearchResult
  rk_tier :: int

section \<open>Text\<close>

definition normalizeExact :: "text_env \<Rightarrow> string \<Rightarrow> string" where
  "normalizeExact tx value = tx_NFC tx (tx_Fold tx (trimFunc isSpace (tx_NFC tx value)))"

definition preserveGitProductBoundary :: "nat list \<Rightarrow> nat \<Rightarrow> bool" where
  "preserveGitProductBoundary rs index =
     (if index < 3 \<or> index + 3 > length rs then False
      else let product = stringOfRunes (take 6 (drop (index - 3) rs))
           in product = ''GitHub'' \<or> product = ''GitLab'')"

record tokenState =
  tk_start :: int
  tk_tokens :: "string list"
  tk_tokenSet :: "(string, unit) gomap"
  tk_tokenBytes :: int
  tk_tokenCount :: int

definition flushToken :: "text_env \<Rightarrow> nat list \<Rightarrow> nat \<Rightarrow> tokenState \<Rightarrow> tokenState" where
  "flushToken tx rs stop st =
     (if tk_start st < 0 \<or> tk_start st = int stop then st
      else let token = normalizeExact tx (stringOfRunes (take (stop - nat (tk_start st)) (drop (nat (tk_start st)) rs)));
               st' = (if token = [] then st
                      else st\<lparr>tk_tokens := tk_tokens st @ [token], tk_tokenSet := put token () (tk_tokenSet st),
                              tk_tokenBytes := tk_tokenBytes st + int (length token), tk_tokenCount := tk_tokenCount st + 1\<rparr>)
           in st'\<lparr>tk_start := -1\<rparr>)"

definition camelBoundary :: "text_env \<Rightarrow> nat list \<Rightarrow> nat \<Rightarrow> bool" where
  "camelBoundary tx rs index =
     (let current = rs ! index; previous = rs ! (index - 1);
          nextIsLower = (index + 1 < length rs \<and> tx_IsLower tx (rs ! (index + 1)))
      in tx_IsUpper tx current \<and> (tx_IsLower tx previous \<or> tx_IsUpper tx previous \<and> nextIsLower))"

definition tokenizeStep :: "text_env \<Rightarrow> nat list \<Rightarrow> nat \<Rightarrow> tokenState \<Rightarrow> tokenState" where
  "tokenizeStep tx rs index st =
     (if \<not> tx_IsLetter tx (rs ! index) \<and> \<not> tx_IsNumber tx (rs ! index) then flushToken tx rs index st
      else if tk_start st < 0 then st\<lparr>tk_start := int index\<rparr>
      else if camelBoundary tx rs index \<and> \<not> preserveGitProductBoundary rs index
      then (flushToken tx rs index st)\<lparr>tk_start := int index\<rparr>
      else st)"

definition tokenizeSearchText :: "text_env \<Rightarrow> string \<Rightarrow> string list \<times> (string, unit) gomap \<times> int" where
  "tokenizeSearchText tx value =
     (let rs = runes value;
          st = flushToken tx rs (length rs)
            (fold (tokenizeStep tx rs) [0..<length rs]
              \<lparr>tk_start = -1, tk_tokens = [], tk_tokenSet = [], tk_tokenBytes = 0, tk_tokenCount = 0\<rparr>)
      in (tk_tokens st, tk_tokenSet st,
          if tk_tokenCount st > 1 then tk_tokenBytes st + (tk_tokenCount st - 1) else tk_tokenBytes st))"

definition normalizeSearchText :: "text_env \<Rightarrow> string \<Rightarrow> normalizedSearchText" where
  "normalizeSearchText tx value =
     (let value' = trimFunc isSpace (tx_NFC tx value);
          (tokens, tokenSet, tokenBytes) = tokenizeSearchText tx value'
      in \<lparr>nt_exact = normalizeExact tx value', nt_tokens = tokens, nt_tokenSet = tokenSet, nt_tokenBytes = tokenBytes,
          nt_qualifiedIdentifier = False\<rparr>)"

definition normalizeSearchQuery :: "text_env \<Rightarrow> string \<Rightarrow> normalizedSearchText res" where
  "normalizeSearchQuery tx value =
     (if \<not> validString value then Inl ErrSearchQueryInvalid
      else let normalized = normalizeSearchText tx value
           in if int (length (nt_exact normalized)) > SearchQueryMaxBytes \<or> nt_tokenBytes normalized > SearchQueryMaxBytes
              then Inl ErrSearchQueryLimit
              else Inr normalized)"

section \<open>Matching\<close>

definition searchReason :: "string \<Rightarrow> string" where
  "searchReason kind =
     (if kind = ''exact_capability_id'' then ''exact capability ID''
      else if kind = ''exact_operation_id'' then ''exact operation ID''
      else if kind = ''exact_capability_name'' then ''exact capability name''
      else if kind = ''exact_tag'' then ''exact tag''
      else if kind = ''exact_local_operation_id'' then ''exact local operation ID''
      else if kind = ''exact_skill_name'' then ''exact skill name''
      else if kind = ''lexical_capability'' then ''capability metadata overlap''
      else if kind = ''lexical_operation'' then ''operation description overlap''
      else if kind = ''lexical_skill'' then ''skill metadata overlap''
      else [])"

definition exactSearchMatch :: "int \<Rightarrow> string \<Rightarrow> string \<Rightarrow> searchMatch" where
  "exactSearchMatch tier kind field =
     \<lparr>mt_tier = tier, mt_score = searchExactScore, mt_kind = kind, mt_matchedField = field, mt_reason = searchReason kind\<rparr>"

definition searchTokenBytes :: "(string, unit) gomap \<Rightarrow> int" where
  "searchTokenBytes tokens = sum_list (map (\<lambda>(token, u). int (length token)) tokens)"

definition lexicalSearchScore :: "(string, unit) gomap \<Rightarrow> (string, unit) gomap \<Rightarrow> int" where
  "lexicalSearchScore queryTokens fieldTokens =
     (if queryTokens = [] \<or> fieldTokens = [] then 0
      else let queryBytes = searchTokenBytes queryTokens;
               fieldBytes = searchTokenBytes fieldTokens;
               overlapBytes = sum_list (map (\<lambda>(token, u). if get fieldTokens token \<noteq> None then int (length token) else 0) queryTokens)
           in if overlapBytes = 0 then 0
              else let absoluteEvidence = (if overlapBytes * searchEvidencePerByte > searchEvidenceMaximum
                                           then searchEvidenceMaximum else overlapBytes * searchEvidencePerByte)
                   in searchQueryWeight * overlapBytes div queryBytes + searchFieldWeight * overlapBytes div fieldBytes + absoluteEvidence)"

definition bestLexicalMatch ::
  "text_env \<Rightarrow> normalizedSearchText \<Rightarrow> int \<Rightarrow> string \<Rightarrow> searchField list \<Rightarrow> searchMatch option" where
  "bestLexicalMatch tx query tier kind searchFields =
     (let (bestScore, bestField) =
        foldl (\<lambda>(bestScore, bestField) field.
            let score = lexicalSearchScore (nt_tokenSet query) (nt_tokenSet (normalizeSearchText tx (sf_value field)))
            in if score > bestScore then (score, sf_name field) else (bestScore, bestField))
          (0, []) searchFields
      in if bestScore < searchMinimumScore then None
         else Some \<lparr>mt_tier = tier, mt_score = bestScore, mt_kind = kind, mt_matchedField = bestField, mt_reason = searchReason kind\<rparr>)"

definition capabilityFields :: "Record \<Rightarrow> searchField list" where
  "capabilityFields record =
     [\<lparr>sf_name = ''capability_name'', sf_value = md_Name (rc_metadata record)\<rparr>,
      \<lparr>sf_name = ''capability_description'', sf_value = md_Description (rc_metadata record)\<rparr>]"

definition operationFields :: "Record \<Rightarrow> searchField list" where
  "operationFields record =
     map (\<lambda>operation. \<lparr>sf_name = ''operation_description'', sf_value = op_Description operation\<rparr>) (rc_operations record)"

definition skillFields :: "Record \<Rightarrow> searchField list" where
  "skillFields record =
     concat (map (\<lambda>skill. [\<lparr>sf_name = ''skill_name'', sf_value = sm_Name (sk_Metadata skill)\<rparr>,
                           \<lparr>sf_name = ''skill_description'', sf_value = sm_Description (sk_Metadata skill)\<rparr>]) (rc_skills record))"

definition lexicalMatch :: "text_env \<Rightarrow> normalizedSearchText \<Rightarrow> Record \<Rightarrow> searchMatch option" where
  "lexicalMatch tx query record =
     (case bestLexicalMatch tx query 4 ''lexical_capability'' (capabilityFields record) of
        Some match \<Rightarrow> Some match
      | None \<Rightarrow>
        (case bestLexicalMatch tx query 5 ''lexical_operation'' (operationFields record) of
           Some match \<Rightarrow> Some match
         | None \<Rightarrow> bestLexicalMatch tx query 5 ''lexical_skill'' (skillFields record)))"

definition matchCapability :: "text_env \<Rightarrow> normalizedSearchText \<Rightarrow> Record \<Rightarrow> searchMatch option" where
  "matchCapability tx query record =
     (let metadata = rc_metadata record; is = (\<lambda>value. normalizeExact tx value = nt_exact query)
      in if is (md_ID metadata) then Some (exactSearchMatch 1 ''exact_capability_id'' ''capability_id'')
         else if list_ex (\<lambda>operation. is (md_ID metadata @ ''/'' @ op_ID operation)) (rc_operations record)
         then Some (exactSearchMatch 1 ''exact_operation_id'' ''operation_id'')
         else if nt_qualifiedIdentifier query then None
         else if is (md_Name metadata) then Some (exactSearchMatch 2 ''exact_capability_name'' ''capability_name'')
         else if list_ex is (md_Tags metadata) then Some (exactSearchMatch 3 ''exact_tag'' ''tag'')
         else if list_ex (\<lambda>operation. is (op_ID operation)) (rc_operations record)
         then Some (exactSearchMatch 3 ''exact_local_operation_id'' ''local_operation_id'')
         else if list_ex (\<lambda>skill. is (sm_Name (sk_Metadata skill))) (rc_skills record)
         then Some (exactSearchMatch 3 ''exact_skill_name'' ''skill_name'')
         else lexicalMatch tx query record)"

section \<open>Searching\<close>

definition capabilityInPath :: "string \<Rightarrow> string \<Rightarrow> bool" where
  "capabilityInPath capabilityID path \<longleftrightarrow> path = [] \<or> capabilityID = path \<or> hasPrefix capabilityID (path @ ''.'')"

definition capabilityCard :: "Record \<Rightarrow> CapabilityCard" where
  "capabilityCard record =
     (let metadata = Record_Metadata record
      in \<lparr>cd_ID = md_ID metadata, cd_Name = md_Name metadata, cd_Version = md_Version metadata,
          cd_Description = md_Description metadata, cd_Path = rc_parent record, cd_Tags = md_Tags metadata,
          cd_Counts = \<lparr>cc_Skills = int (length (rc_skills record)), cc_Operations = int (length (rc_operations record)),
            cc_References = foldl (\<lambda>n skill. n + int (length (sk_Resources skill))) (int (length (rc_context record))) (rc_skills record)\<rparr>\<rparr>)"

text \<open>The generations of the registry that are not retired, under their identifiers.\<close>

definition liveRecords :: "Registry \<Rightarrow> (string \<times> Record) list" where
  "liveRecords r =
     List.map_filter (\<lambda>(cid, a). case get (rg_gens r) a of None \<Rightarrow> None
       | Some g \<Rightarrow> if gn_retired g then None else Some (cid, gn_record g)) (rg_entries r)"

definition hasExactSearchIdentifierLocked :: "text_env \<Rightarrow> Registry \<Rightarrow> string \<Rightarrow> bool" where
  "hasExactSearchIdentifierLocked tx r query =
     list_ex (\<lambda>(capabilityID, record).
         normalizeExact tx capabilityID = query \<or>
         list_ex (\<lambda>operation. normalizeExact tx (capabilityID @ ''/'' @ op_ID operation) = query) (rc_operations record))
       (liveRecords r)"

definition rankMatch :: "text_env \<Rightarrow> normalizedSearchText \<Rightarrow> string \<Rightarrow> string \<times> Record \<Rightarrow> rankedSearchResult option" where
  "rankMatch tx query path = (\<lambda>(cid, record).
     if \<not> capabilityInPath cid path then None
     else map_option (\<lambda>match.
         \<lparr>rk_result = \<lparr>sx_Card = capabilityCard record, sx_Score = mt_score match, sx_MatchKind = mt_kind match,
                      sx_MatchedField = mt_matchedField match, sx_Reason = mt_reason match\<rparr>,
          rk_tier = mt_tier match\<rparr>) (matchCapability tx query record))"

definition rankKey :: "rankedSearchResult \<Rightarrow> int \<times> int \<times> string" where
  "rankKey r = (rk_tier r, - sx_Score (rk_result r), cd_ID (sx_Card (rk_result r)))"

definition searchLocked :: "text_env \<Rightarrow> normalizedSearchText \<Rightarrow> string \<Rightarrow> int \<Rightarrow> Registry \<Rightarrow> SearchResult list" where
  "searchLocked tx query path limit r =
     (if nt_exact query = [] \<or> nt_tokens query = [] then []
      else let query' = query\<lparr>nt_qualifiedIdentifier := hasExactSearchIdentifierLocked tx r (nt_exact query)\<rparr>
           in map rk_result (take (nat limit) (sort_key rankKey (List.map_filter (rankMatch tx query' path) (liveRecords r)))))"

definition searchAndBrowse ::
  "text_env \<Rightarrow> SearchRequest \<Rightarrow> nat option \<Rightarrow> Registry \<Rightarrow> (SearchResponse \<times> HierarchyView \<times> nat) res" where
  "searchAndBrowse tx request expectedRevision r =
     (if sq_Limit request \<le> 0 \<or> sq_Limit request > SearchLimitMax then Inl ErrSearchLimitInvalid
      else rbind (normalizeSearchQuery tx (sq_Query request)) (\<lambda>query.
        let path = (if sq_Path request = ''/'' then [] else sq_Path request)
        in if \<not> validString path then Inl ErrSearchPathInvalid
           else if int (length path) > MaxHierarchyPathBytes then Inl ErrSearchPathLimit
           else if path \<noteq> [] \<and> \<not> capabilityIDPattern path then Inl ErrSearchPathInvalid
           else if rg_closed r then Inl ErrRegistryClosed
           else if expectedRevision \<noteq> None \<and> expectedRevision \<noteq> Some (rg_revision r) then Inl ErrCatalogCursorStale
           else rbind (browseLocked r path) (\<lambda>view.
             Inr (\<lparr>so_RankingVersion = SearchRankingVersion, so_Results = searchLocked tx query path (sq_Limit request) r\<rparr>,
                  view, rg_revision r))))"

definition Search :: "text_env \<Rightarrow> SearchRequest \<Rightarrow> Registry \<Rightarrow> SearchResponse res" where
  "Search tx request r = rbind (searchAndBrowse tx request None r) (\<lambda>(response, view, revision). Inr response)"

end
