(* ===== verification/Search_Props.thy ===== *)
theory Search_Props
  imports Search Registry_Props
begin

text \<open>
  The promises of search: the answer is a function of the installed records alone, ranked by a strict order; scores
  stay in their range; a query that is an identifier finds identifiers only.
\<close>

section \<open>Live records\<close>

lemma liveRecords_set:
  assumes "reg_inv sha256 w"
  shows "(cid, r) \<in> set (liveRecords (w_reg w)) \<longleftrightarrow> reg_map w cid = Some r"
proof -
  have k: "keys_ok (rg_entries (w_reg w))" and gi: "gens_inv sha256 (installed w) w"
    using assms by (simp_all add: reg_inv_def entries_ok_def)
  have live: "\<not> gn_retired g" if "get (rg_entries (w_reg w)) c = Some a" "get (rg_gens (w_reg w)) a = Some g" for c a g
    using gens_invD(4) [OF gi that(2)] map_of_SomeD [OF that(1)] by force
  show ?thesis
    using k live by (cases "get (rg_entries (w_reg w)) cid")
      (auto simp: liveRecords_def reg_map_def keys_ok_get set_map_filter split: option.splits if_splits
        intro!: bexI [of _ "(cid, a)" for a])
qed

lemma liveRecords_id:
  assumes "reg_inv sha256 w" and "reg_map w cid = Some r" shows "md_ID (rc_metadata r) = cid"
proof -
  obtain a g where "get (rg_entries (w_reg w)) cid = Some a" "get (rg_gens (w_reg w)) a = Some g" "gn_record g = r"
    using assms(2) by (cases "get (rg_entries (w_reg w)) cid") (auto simp: reg_map_def)
  then show ?thesis using assms(1) unfolding reg_inv_def entries_ok_def by fastforce
qed

lemma distinct_fst_map_filter:
  assumes f: "\<And>e x. f e = Some x \<Longrightarrow> fst x = fst e" and "distinct (map fst es)"
  shows "distinct (map fst (List.map_filter f es))"
  using assms(2)
proof (induction es)
  case (Cons e es)
  have "fst x \<notin> fst ` set (List.map_filter f es)" if "f e = Some x" for x
  proof
    assume "fst x \<in> fst ` set (List.map_filter f es)"
    then obtain e' y where y: "e' \<in> set es" "f e' = Some y" "fst y = fst x" by (auto simp: set_map_filter)
    then have "fst e = fst e'" using f [OF that] f [OF y(2)] by simp
    then show False using Cons.prems y(1) by simp
  qed
  then show ?case using Cons by (auto split: option.splits)
qed simp

lemma liveRecords_distinct:
  assumes "reg_inv sha256 w" shows "distinct (map fst (liveRecords (w_reg w)))"
  unfolding liveRecords_def
proof (rule distinct_fst_map_filter)
  show "distinct (map fst (rg_entries (w_reg w)))" using assms by (simp add: reg_inv_def entries_ok_def keys_ok_def)
qed (auto split: option.splits if_splits)

section \<open>Scores\<close>

lemma overlap_le:
  assumes "keys_ok q" and "keys_ok f"
  defines "overlap \<equiv> sum_list (map (\<lambda>(token, u). if get f token \<noteq> None then int (length token) else 0) q)"
  shows "0 \<le> overlap" and "overlap \<le> searchTokenBytes q" and "overlap \<le> searchTokenBytes f"
proof -
  show "0 \<le> overlap" unfolding overlap_def by (rule sum_list_nonneg) auto
  show "overlap \<le> searchTokenBytes q"
    unfolding overlap_def searchTokenBytes_def by (rule sum_list_mono) auto
  let ?g = "\<lambda>t. if get f t \<noteq> None then int (length t) else 0"
  have tokens: "sum_list (map (\<lambda>(t, u). h t) m) = (\<Sum>t \<in> fst ` set m. h t)" if "keys_ok m"
    for m :: "(string, unit) gomap" and h :: "string \<Rightarrow> int"
  proof -
    have "sum_list (map (\<lambda>(t, u). h t) m) = sum_list (map h (map fst m))" by (induction m) auto
    then show ?thesis using that sum_list_distinct_conv_sum_set [of "map fst m" h] by (simp add: keys_ok_def)
  qed
  have "overlap = (\<Sum>t \<in> fst ` set q. ?g t)" unfolding overlap_def using assms(1) by (rule tokens)
  also have "\<dots> = (\<Sum>t \<in> {t \<in> fst ` set q. get f t \<noteq> None}. int (length t))"
    by (simp add: sum.inter_filter [symmetric])
  also have "\<dots> \<le> (\<Sum>t \<in> fst ` set f. int (length t))"
    by (rule sum_mono2) (auto simp: map_of_eq_None_iff)
  finally show "overlap \<le> searchTokenBytes f" using tokens [OF assms(2)] by (simp add: searchTokenBytes_def)
qed

lemma weight_div: "0 \<le> (x :: int) \<Longrightarrow> x \<le> n \<Longrightarrow> 0 \<le> w \<Longrightarrow> w * x div n \<le> w \<and> 0 \<le> w * x div n"
proof -
  assume a: "0 \<le> x" "x \<le> n" "0 \<le> w"
  show ?thesis
  proof (cases "n = 0")
    case False
    then have n: "0 < n" using a by simp
    have "w * x \<le> w * n" using a by (intro mult_left_mono) auto
    then have "w * x div n \<le> w * n div n" using n by (intro zdiv_mono1) auto
    then show ?thesis using n a by (simp add: pos_imp_zdiv_nonneg_iff)
  qed (use a in simp)
qed

lemma lexicalSearchScore_bound:
  assumes "keys_ok q" and "keys_ok f" shows "0 \<le> lexicalSearchScore q f" and "lexicalSearchScore q f \<le> searchExactScore"
proof -
  let ?o = "sum_list (map (\<lambda>(token, u). if get f token \<noteq> None then int (length token) else 0) q)"
  note o = overlap_le [OF assms]
  note a = weight_div [OF o(1,2), of searchQueryWeight] and b = weight_div [OF o(1,3), of searchFieldWeight]
  have "0 \<le> lexicalSearchScore q f \<and> lexicalSearchScore q f \<le> searchExactScore"
    using a b o(1) by (auto simp: lexicalSearchScore_def Let_def searchQueryWeight_def searchFieldWeight_def
      searchEvidencePerByte_def searchEvidenceMaximum_def searchExactScore_def)
  then show "0 \<le> lexicalSearchScore q f" "lexicalSearchScore q f \<le> searchExactScore" by simp_all
qed

section \<open>Tokens\<close>

text \<open>What the loop over the runes maintains: no empty token, the set of the tokens, their total length.\<close>

definition tokens_ok :: "tokenState \<Rightarrow> bool" where
  "tokens_ok st \<longleftrightarrow> [] \<notin> set (tk_tokens st) \<and> keys_ok (tk_tokenSet st) \<and> fst ` set (tk_tokenSet st) = set (tk_tokens st) \<and>
     tk_tokenBytes st = int (length (concat (tk_tokens st))) \<and> tk_tokenCount st = int (length (tk_tokens st))"

lemma fst_set_put: "fst ` set (put k v m) = insert k (fst ` set m)"
  by (induction m) auto

lemma tokens_ok_start [simp]: "tokens_ok (st\<lparr>tk_start := i\<rparr>) = tokens_ok st"
  by (simp add: tokens_ok_def)

lemma flushToken_ok: "tokens_ok st \<Longrightarrow> tokens_ok (flushToken tx rs stop st)"
  by (auto simp: flushToken_def Let_def tokens_ok_def fst_set_put keys_ok_put)

lemma tokenizeStep_ok: "tokens_ok st \<Longrightarrow> tokens_ok (tokenizeStep tx rs i st)"
  by (simp add: tokenizeStep_def flushToken_ok)

lemma fold_tokenizeStep_ok: "tokens_ok st \<Longrightarrow> tokens_ok (fold (tokenizeStep tx rs) is st)"
  by (induction "is" arbitrary: st) (simp_all add: tokenizeStep_ok)

lemma length_joinWith: "length (joinWith c xs) = length (concat xs) + (length xs - 1)"
  by (induction xs rule: joinWith.induct) auto

lemma normalizeSearchText_tokens:
  "[] \<notin> set (nt_tokens (normalizeSearchText tx v)) \<and> keys_ok (nt_tokenSet (normalizeSearchText tx v)) \<and>
   fst ` set (nt_tokenSet (normalizeSearchText tx v)) = set (nt_tokens (normalizeSearchText tx v)) \<and>
   nt_tokenBytes (normalizeSearchText tx v) = int (length (joinWith (CHR '' '') (nt_tokens (normalizeSearchText tx v))))"
proof -
  define rs where "rs = runes (trimFunc isSpace (tx_NFC tx v))"
  define st where "st = flushToken tx rs (length rs) (fold (tokenizeStep tx rs) [0..<length rs]
    \<lparr>tk_start = -1, tk_tokens = [], tk_tokenSet = [], tk_tokenBytes = 0, tk_tokenCount = 0\<rparr>)"
  have ok: "tokens_ok st"
    unfolding st_def by (intro flushToken_ok fold_tokenizeStep_ok) (simp add: tokens_ok_def)
  then have "nt_tokens (normalizeSearchText tx v) = tk_tokens st \<and> nt_tokenSet (normalizeSearchText tx v) = tk_tokenSet st \<and>
      nt_tokenBytes (normalizeSearchText tx v) = int (length (joinWith (CHR '' '') (tk_tokens st)))"
    by (auto simp: normalizeSearchText_def tokenizeSearchText_def rs_def st_def Let_def length_joinWith tokens_ok_def)
  then show ?thesis using ok by (simp add: tokens_ok_def)
qed

section \<open>Matches\<close>

definition identifier_kind :: "string \<Rightarrow> bool" where
  "identifier_kind kind \<longleftrightarrow> kind = ''exact_capability_id'' \<or> kind = ''exact_operation_id''"

lemma bestLexicalMatch_bound:
  assumes q: "keys_ok (nt_tokenSet query)" and m: "bestLexicalMatch tx query tier kind fs = Some match"
  shows "mt_tier match = tier" and "searchMinimumScore \<le> mt_score match" and "mt_score match \<le> searchExactScore"
    and "mt_kind match = kind"
proof -
  let ?score = "\<lambda>field. lexicalSearchScore (nt_tokenSet query) (nt_tokenSet (normalizeSearchText tx (sf_value field)))"
  let ?step = "\<lambda>(bestScore, bestField) field. let score = ?score field
    in if score > bestScore then (score, sf_name field) else (bestScore, bestField)"
  have b: "?score field \<le> searchExactScore" for field
    using lexicalSearchScore_bound(2) q normalizeSearchText_tokens by blast
  have "fst (foldl ?step acc fs) \<le> searchExactScore" if "fst acc \<le> searchExactScore" for acc
    using that
  proof (induction fs arbitrary: acc)
    case (Cons f fs)
    have "fst (?step acc f) \<le> searchExactScore" using Cons.prems b [of f] by (simp add: Let_def split_beta)
    then show ?case unfolding foldl_Cons by (rule Cons.IH)
  qed simp
  from this [of "(0, [])"] have "fst (foldl ?step (0, []) fs) \<le> searchExactScore" by (simp add: searchExactScore_def)
  then show "mt_tier match = tier" "searchMinimumScore \<le> mt_score match" "mt_score match \<le> searchExactScore" "mt_kind match = kind"
    using m by (auto simp: bestLexicalMatch_def split_beta split: if_splits)
qed

lemma matchCapability_bound:
  assumes q: "keys_ok (nt_tokenSet query)" and m: "matchCapability tx query record = Some match"
  shows "searchMinimumScore \<le> mt_score match \<and> mt_score match \<le> searchExactScore \<and> 1 \<le> mt_tier match \<and> mt_tier match \<le> 5 \<and>
    (mt_tier match \<le> 3 \<longrightarrow> mt_score match = searchExactScore) \<and> (mt_tier match = 1 \<longleftrightarrow> identifier_kind (mt_kind match))"
proof -
  have lex: ?thesis if "lexicalMatch tx query record = Some match"
    using that bestLexicalMatch_bound [OF q]
    by (auto simp: lexicalMatch_def identifier_kind_def split: option.splits)
  have ex: "searchMinimumScore \<le> searchExactScore" by (simp add: searchMinimumScore_def searchExactScore_def)
  show ?thesis
  proof (cases "lexicalMatch tx query record = Some match")
    case False
    then show ?thesis
      using m ex by (auto simp: matchCapability_def exactSearchMatch_def identifier_kind_def Let_def split: if_splits)
  qed (rule lex)
qed

lemma matchCapability_qualified:
  assumes "nt_qualifiedIdentifier query" and "matchCapability tx query record = Some match"
  shows "identifier_kind (mt_kind match) \<and> mt_score match = searchExactScore"
  using assms by (auto simp: matchCapability_def exactSearchMatch_def identifier_kind_def Let_def split: if_splits)

section \<open>Answers\<close>

text \<open>Whether the query is an identifier of an installed capability or of one of its operations.\<close>

definition qualified_in :: "text_env \<Rightarrow> (string \<Rightarrow> Record option) \<Rightarrow> string \<Rightarrow> bool" where
  "qualified_in tx m q \<longleftrightarrow>
     (\<exists>cid r. m cid = Some r \<and> (normalizeExact tx cid = q \<or>
        (\<exists>x \<in> set (rc_operations r). normalizeExact tx (cid @ ''/'' @ op_ID x) = q)))"

lemma hasExact_spec:
  assumes "reg_inv sha256 w"
  shows "hasExactSearchIdentifierLocked tx (w_reg w) q \<longleftrightarrow> qualified_in tx (reg_map w) q"
  using liveRecords_set [OF assms] by (fastforce simp: hasExactSearchIdentifierLocked_def qualified_in_def list_ex_iff)

lemma rankMatch_id: "rankMatch tx query path (cid, r) = Some x \<Longrightarrow> cd_ID (sx_Card (rk_result x)) = md_ID (rc_metadata r)"
  by (auto simp: rankMatch_def capabilityCard_def Let_def split: if_splits)

lemma ranked_spec:
  fixes tx :: text_env and query :: normalizedSearchText and path :: string
  assumes inv: "reg_inv sha256 w"
  defines "hits \<equiv> sort_key rankKey (List.map_filter (rankMatch tx query path) (liveRecords (w_reg w)))"
  shows "set hits = {x. \<exists>cid r. reg_map w cid = Some r \<and> rankMatch tx query path (cid, r) = Some x}"
    and "sorted_wrt (\<lambda>a b. rankKey a < rankKey b) hits"
proof -
  let ?f = "rankMatch tx query path" and ?L = "liveRecords (w_reg w)"
  show "set hits = {x. \<exists>cid r. reg_map w cid = Some r \<and> ?f (cid, r) = Some x}"
    using liveRecords_set [OF inv] by (force simp: hits_def set_map_filter)
  have ids: "cd_ID (sx_Card (rk_result x)) = fst e" if "e \<in> set ?L" "?f e = Some x" for e x
    using that rankMatch_id [of tx query path "fst e" "snd e" x] liveRecords_id [OF inv] liveRecords_set [OF inv, of "fst e" "snd e"]
    by simp
  have "distinct (map rankKey (List.map_filter ?f es))" if "distinct (map fst es)" "set es \<subseteq> set ?L" for es
    using that
  proof (induction es)
    case (Cons e es)
    have "rankKey x \<notin> rankKey ` set (List.map_filter ?f es)" if x: "?f e = Some x" for x
    proof
      assume "rankKey x \<in> rankKey ` set (List.map_filter ?f es)"
      then obtain e' y where y: "e' \<in> set es" "?f e' = Some y" "rankKey y = rankKey x" by (auto simp: set_map_filter)
      then have "fst e = fst e'" using ids [of e x] ids [of e' y] x Cons.prems(2) by (auto simp: rankKey_def)
      then show False using Cons.prems(1) y(1) by simp
    qed
    then show ?case using Cons by (auto split: option.splits)
  qed simp
  then have "distinct (map rankKey (List.map_filter ?f ?L))" using liveRecords_distinct [OF inv] by blast
  moreover have "mset (map rankKey hits) = mset (map rankKey (List.map_filter ?f ?L))" by (simp add: hits_def)
  ultimately have "distinct (map rankKey hits)" using mset_eq_imp_distinct_iff by blast
  moreover have "sorted (map rankKey hits)" by (simp add: hits_def)
  ultimately have "sorted_wrt (<) (map rankKey hits)" by (simp add: strict_sorted_iff)
  then show "sorted_wrt (\<lambda>a b. rankKey a < rankKey b) hits" by (simp add: sorted_wrt_map)
qed

lemma distinct_ids:
  assumes inv: "reg_inv sha256 w"
  shows "distinct (map (\<lambda>x. cd_ID (sx_Card (rk_result x)))
    (sort_key rankKey (List.map_filter (rankMatch tx query path) (liveRecords (w_reg w)))))"
proof -
  let ?f = "rankMatch tx query path" and ?id = "\<lambda>x. cd_ID (sx_Card (rk_result x))"
  have "distinct (map ?id (List.map_filter ?f es)) \<and> ?id ` set (List.map_filter ?f es) \<subseteq> fst ` set es"
    if "distinct (map fst es)" "set es \<subseteq> set (liveRecords (w_reg w))" for es
    using that
  proof (induction es)
    case (Cons e es)
    have "?id x = fst e" if "?f e = Some x" for x
      using rankMatch_id [of tx query path "fst e" "snd e" x] that Cons.prems(2)
        liveRecords_id [OF inv] liveRecords_set [OF inv, of "fst e" "snd e"] by simp
    then show ?case using Cons by (auto split: option.splits)
  qed simp
  from this [of "liveRecords (w_reg w)"] have d: "distinct (map ?id (List.map_filter ?f (liveRecords (w_reg w))))"
    using liveRecords_distinct [OF inv] by simp
  have "mset (map ?id (sort_key rankKey xs)) = mset (map ?id xs)" for xs by simp
  then show ?thesis using d mset_eq_imp_distinct_iff by blast
qed

lemma Search_Inr:
  assumes "Search tx request r = Inr response"
  obtains query path where "0 < sq_Limit request" "sq_Limit request \<le> SearchLimitMax"
    "normalizeSearchQuery tx (sq_Query request) = Inr query" "path = (if sq_Path request = ''/'' then [] else sq_Path request)"
    "\<not> rg_closed r" "so_RankingVersion response = SearchRankingVersion"
    "so_Results response = searchLocked tx query path (sq_Limit request) r"
  using assms by (auto simp: Search_def searchAndBrowse_def res_simps Let_def split: if_splits)

section \<open>A search to evaluate\<close>

definition ascii_env :: text_env where
  "ascii_env = \<lparr>tx_NFC = (\<lambda>s. s), tx_Fold = map lowerByte,
     tx_IsLetter = (\<lambda>r. (65 \<le> r \<and> r \<le> 90) \<or> (97 \<le> r \<and> r \<le> 122)), tx_IsNumber = (\<lambda>r. 48 \<le> r \<and> r \<le> 57),
     tx_IsUpper = (\<lambda>r. 65 \<le> r \<and> r \<le> 90), tx_IsLower = (\<lambda>r. 97 \<le> r \<and> r \<le> 122)\<rparr>"

lemma ascii_env_simps [simp]: "tx_NFC ascii_env s = s" "tx_Fold ascii_env s = map lowerByte s"
  "tx_IsLetter ascii_env r = ((65 \<le> r \<and> r \<le> 90) \<or> (97 \<le> r \<and> r \<le> 122))" "tx_IsNumber ascii_env r = (48 \<le> r \<and> r \<le> 57)"
  "tx_IsUpper ascii_env r = (65 \<le> r \<and> r \<le> 90)" "tx_IsLower ascii_env r = (97 \<le> r \<and> r \<le> 122)"
  by (simp_all add: ascii_env_def)

text \<open>Trimming and decoding printable ASCII.\<close>

lemma runeChunks_ascii: "list_all (\<lambda>b. b < 128) bs \<Longrightarrow> runeChunks bs = map (\<lambda>b. (b, [b])) bs"
  by (induction bs) auto

lemma runes_ascii: "list_all (\<lambda>b. b < 128) bs \<Longrightarrow> runes_of bs = bs"
  by (induction bs) auto

lemma space_char: "char_of (32 :: nat) = CHR '' ''"
  using char_of_byteN [of "CHR '' ''"] by (simp add: byteN_def)

lemma trimFunc_plain: "list_all plain s \<Longrightarrow> CHR '' '' \<notin> set s \<Longrightarrow> trimFunc isSpace s = s"
proof -
  assume a: "list_all plain s" "CHR '' '' \<notin> set s"
  have ns: "\<not> isSpace (byteN c)" "byteN c < 128" if "c \<in> set s" for c
  proof -
    have "plain c" "c \<noteq> CHR '' ''" using a that by (auto simp: list_all_iff)
    moreover have "c = CHR '' ''" if "byteN c = 32" using arg_cong [OF that, of "char_of :: nat \<Rightarrow> char"] space_char by simp
    ultimately have p: "32 \<le> byteN c" "byteN c < 127" "byteN c \<noteq> 32" by (auto simp: plain_def)
    then show "\<not> isSpace (byteN c)" "byteN c < 128" by (auto simp: isSpace_def)
  qed
  have "runeChunks (map byteN s) = map (\<lambda>b. (b, [b])) (map byteN s)"
    using ns(2) by (intro runeChunks_ascii) (simp add: list_all_iff)
  moreover have d: "dropWhile (\<lambda>c. isSpace (fst c)) (map (\<lambda>b. (b, [b])) (map byteN t)) = map (\<lambda>b. (b, [b])) (map byteN t)"
    if "set t \<subseteq> set s" for t using that ns(1) by (cases t) auto
  ultimately show ?thesis
    using d [of s] d [of "rev s"] by (simp add: trimFunc_def rev_map [symmetric] comp_def)
qed

definition demo_search :: SearchRequest where
  "demo_search = \<lparr>sq_Query = ''git.log'', sq_Path = [], sq_Limit = 10\<rparr>"

lemma demo_exact: "normalizeExact ascii_env ''git.log'' = ''git.log''"
  unfolding normalizeExact_def ascii_env_simps
  by (subst trimFunc_plain) (simp_all add: plain_def byteN_def lowerByte_def)

lemma demo_word: "normalizeExact ascii_env ''git'' = ''git''" "normalizeExact ascii_env ''log'' = ''log''"
  unfolding normalizeExact_def ascii_env_simps
  by (subst trimFunc_plain; simp add: plain_def byteN_def lowerByte_def)+

lemma demo_text: "normalizeSearchText ascii_env ''git.log'' = \<lparr>nt_exact = ''git.log'', nt_tokens = [''git'', ''log''],
    nt_tokenSet = [(''git'', ()), (''log'', ())], nt_tokenBytes = 7, nt_qualifiedIdentifier = False\<rparr>"
proof -
  have t: "trimFunc isSpace ''git.log'' = ''git.log''" by (rule trimFunc_plain) (simp_all add: plain_def byteN_def)
  have r: "runes ''git.log'' = [103, 105, 116, 46, 108, 111, 103]" by (simp add: runes_def byteN_def)
  have w: "stringOfRunes [103, 105, 116] = ''git''" "stringOfRunes [108, 111, 103] = ''log''"
    by code_simp+
  show ?thesis
    by (simp add: normalizeSearchText_def t demo_exact tokenizeSearchText_def r Let_def upt_rec tokenizeStep_def flushToken_def
      w demo_word camelBoundary_def)
qed

lemma demo_live: "liveRecords (w_reg demo_world) = [(''git.log'', demo_record)]"
  by code_simp

lemma demo_view: "\<exists>v. browseLocked (w_reg demo_world) [] = Inr v"
proof -
  have "(case browseLocked (w_reg demo_world) [] of Inl e \<Rightarrow> False | Inr v \<Rightarrow> True)" by code_simp
  then show ?thesis by (cases "browseLocked (w_reg demo_world) []") auto
qed

definition demo_found :: SearchResult where
  "demo_found = \<lparr>sx_Card = capabilityCard demo_record, sx_Score = searchExactScore, sx_MatchKind = ''exact_capability_id'',
     sx_MatchedField = ''capability_id'', sx_Reason = ''exact capability ID''\<rparr>"

lemma demo_answer: "Search ascii_env demo_search (w_reg demo_world) = Inr \<lparr>so_RankingVersion = SearchRankingVersion, so_Results = [demo_found]\<rparr>"
proof -
  have v: "validString ''git.log''" "validString []" by (simp_all add: validString_def byteN_def)
  have i: "md_ID (rc_metadata demo_record) = ''git.log''" and c: "\<not> rg_closed (w_reg demo_world)" by code_simp+
  have q: "normalizeSearchQuery ascii_env ''git.log'' = Inr (normalizeSearchText ascii_env ''git.log'')"
    using v(1) by (simp add: normalizeSearchQuery_def demo_text SearchQueryMaxBytes_def)
  have "searchLocked ascii_env (normalizeSearchText ascii_env ''git.log'') [] 10 (w_reg demo_world) = [demo_found]"
    by (simp add: searchLocked_def demo_text demo_live hasExactSearchIdentifierLocked_def demo_exact rankMatch_def capabilityInPath_def
      matchCapability_def i exactSearchMatch_def searchReason_def demo_found_def)
  then show ?thesis
    using demo_view v(2) c q by (auto simp: Search_def searchAndBrowse_def demo_search_def SearchLimitMax_def MaxHierarchyPathBytes_def)
qed

section \<open>A specification of the ranking\<close>

text \<open>
  The rank of a record, stated on sets of texts and of tokens: the tier of the best identity that equals the query, or the
  weight of the words that the query and a text share.
\<close>

definition equals_one :: "text_env \<Rightarrow> string \<Rightarrow> string set \<Rightarrow> bool" where
  "equals_one tx q vs \<longleftrightarrow> (\<exists>v \<in> vs. normalizeExact tx v = q)"

definition identifiers :: "Record \<Rightarrow> string set" where
  "identifiers r = insert (md_ID (rc_metadata r)) ((\<lambda>x. md_ID (rc_metadata r) @ ''/'' @ op_ID x) ` set (rc_operations r))"

definition local_names :: "Record \<Rightarrow> string set" where
  "local_names r = set (md_Tags (rc_metadata r)) \<union> op_ID ` set (rc_operations r) \<union> (\<lambda>s. sm_Name (sk_Metadata s)) ` set (rc_skills r)"

definition words :: "text_env \<Rightarrow> string \<Rightarrow> string set" where
  "words tx v = set (nt_tokens (normalizeSearchText tx v))"

definition weight :: "string set \<Rightarrow> int" where
  "weight ts = (\<Sum>t \<in> ts. int (length t))"

definition shared_score :: "string set \<Rightarrow> string set \<Rightarrow> int" where
  "shared_score q f =
     (let shared = weight (q \<inter> f)
      in if shared = 0 then 0
         else 500000 * shared div weight q + 250000 * shared div weight f + min (25000 * shared) 250000)"

definition best_score :: "text_env \<Rightarrow> string set \<Rightarrow> string set \<Rightarrow> int" where
  "best_score tx q vs = Max (insert 0 ((\<lambda>v. shared_score q (words tx v)) ` vs))"

definition capability_texts :: "Record \<Rightarrow> string set" where
  "capability_texts r = {md_Name (rc_metadata r), md_Description (rc_metadata r)}"

definition operation_texts :: "Record \<Rightarrow> string set" where
  "operation_texts r = op_Description ` set (rc_operations r)"

definition skill_texts :: "Record \<Rightarrow> string set" where
  "skill_texts r = (\<lambda>s. sm_Name (sk_Metadata s)) ` set (rc_skills r) \<union> (\<lambda>s. sm_Description (sk_Metadata s)) ` set (rc_skills r)"

text \<open>
  \<open>qualified\<close> says that the query is an identifier of some installed capability; then nothing but identifiers counts.
  The kind says what was met first.
\<close>

definition rank_spec :: "text_env \<Rightarrow> bool \<Rightarrow> string \<Rightarrow> string set \<Rightarrow> Record \<Rightarrow> int \<Rightarrow> int \<Rightarrow> string \<Rightarrow> bool" where
  "rank_spec tx qualified q qwords r tier score kind \<longleftrightarrow>
     (if equals_one tx q (identifiers r)
      then tier = 1 \<and> score = 1000000 \<and>
        kind = (if equals_one tx q {md_ID (rc_metadata r)} then ''exact_capability_id'' else ''exact_operation_id'')
      else if qualified then False
      else if equals_one tx q {md_Name (rc_metadata r)} then tier = 2 \<and> score = 1000000 \<and> kind = ''exact_capability_name''
      else if equals_one tx q (local_names r)
      then tier = 3 \<and> score = 1000000 \<and>
        kind = (if equals_one tx q (set (md_Tags (rc_metadata r))) then ''exact_tag''
                else if equals_one tx q (op_ID ` set (rc_operations r)) then ''exact_local_operation_id'' else ''exact_skill_name'')
      else score \<ge> 375000 \<and>
        (tier = 4 \<and> kind = ''lexical_capability'' \<and> score = best_score tx qwords (capability_texts r) \<or>
         tier = 5 \<and> best_score tx qwords (capability_texts r) < 375000 \<and>
           (kind = ''lexical_operation'' \<and> score = best_score tx qwords (operation_texts r) \<or>
            kind = ''lexical_skill'' \<and> best_score tx qwords (operation_texts r) < 375000 \<and>
            score = best_score tx qwords (skill_texts r))))"

definition below_path :: "string \<Rightarrow> string \<Rightarrow> bool" where
  "below_path path cid \<longleftrightarrow> path = [] \<or> cid = path \<or> (\<exists>rest. cid = path @ ''.'' @ rest)"

text \<open>The hits of a query, and the order of the answer: tier, then higher score, then identifier.\<close>

definition search_hits ::
  "text_env \<Rightarrow> string \<Rightarrow> string set \<Rightarrow> string \<Rightarrow> (string \<Rightarrow> Record option) \<Rightarrow> (int \<times> int \<times> string \<times> string) set" where
  "search_hits tx q qwords path m =
     {(tier, score, cid, kind). \<exists>r. m cid = Some r \<and> below_path path cid \<and>
        rank_spec tx (qualified_in tx m q) q qwords r tier score kind}"

definition ranked_before :: "int \<times> int \<times> string \<times> string \<Rightarrow> int \<times> int \<times> string \<times> string \<Rightarrow> bool" where
  "ranked_before a b \<longleftrightarrow>
     (case (a, b) of ((t, s, c, _), (t', s', c', _)) \<Rightarrow> t < t' \<or> t = t' \<and> (s > s' \<or> s = s' \<and> c < c'))"

section \<open>The ranking meets it\<close>

lemma tokens_sum:
  fixes m :: "(string, unit) gomap" and h :: "string \<Rightarrow> int"
  assumes "keys_ok m"
  shows "sum_list (map (\<lambda>(t, u). h t) m) = (\<Sum>t \<in> fst ` set m. h t)"
proof -
  have "sum_list (map (\<lambda>(t, u). h t) m) = sum_list (map h (map fst m))" by (induction m) auto
  then show ?thesis using assms sum_list_distinct_conv_sum_set [of "map fst m" h] by (simp add: keys_ok_def)
qed

lemma lexicalSearchScore_spec:
  assumes q: "keys_ok q" and f: "keys_ok f" and ne: "[] \<notin> fst ` set q"
  shows "lexicalSearchScore q f = shared_score (fst ` set q) (fst ` set f)"
proof -
  let ?Q = "fst ` set q" and ?F = "fst ` set f"
  have b: "searchTokenBytes q = weight ?Q" "searchTokenBytes f = weight ?F"
    using tokens_sum [OF q, of "\<lambda>t. int (length t)"] tokens_sum [OF f, of "\<lambda>t. int (length t)"] by (simp_all add: searchTokenBytes_def weight_def)
  have "sum_list (map (\<lambda>(token, u). if get f token \<noteq> None then int (length token) else 0) q) =
      (\<Sum>t \<in> ?Q. if get f t \<noteq> None then int (length t) else 0)" by (rule tokens_sum [OF q])
  also have "\<dots> = weight (?Q \<inter> ?F)"
  proof -
    have "?Q \<inter> ?F = {t \<in> ?Q. get f t \<noteq> None}" by (auto simp: map_of_eq_None_iff)
    then show ?thesis by (simp add: weight_def sum.inter_filter [symmetric])
  qed
  finally have o: "sum_list (map (\<lambda>(token, u). if get f token \<noteq> None then int (length token) else 0) q) = weight (?Q \<inter> ?F)" .
  have "weight (?Q \<inter> ?F) = 0" if "q = [] \<or> f = []" using that by (auto simp: weight_def)
  then show ?thesis
    unfolding lexicalSearchScore_def o b shared_score_def
    by (auto simp: Let_def searchQueryWeight_def searchFieldWeight_def searchEvidencePerByte_def searchEvidenceMaximum_def min_def)
qed

lemma best_fold:
  fixes g :: "'a \<Rightarrow> int"
  shows "fst (foldl (\<lambda>(b, x) f. if g f > b then (g f, h f) else (b, x)) acc fs) = Max (insert (fst acc) (g ` set fs))"
proof (induction fs arbitrary: acc)
  case (Cons f fs)
  obtain b x where acc: "acc = (b, x)" by force
  show ?case unfolding foldl_Cons acc prod.case Cons.IH
    by (cases "g ` set fs = {}") (auto simp: max_def Max_insert insert_commute)
qed simp

lemma words_set: "fst ` set (nt_tokenSet (normalizeSearchText tx v)) = words tx v"
  using normalizeSearchText_tokens [of tx v] by (simp add: words_def)

lemma bestLexicalMatch_spec:
  fixes tx :: text_env and fs :: "searchField list"
  assumes q: "keys_ok (nt_tokenSet query)" and ne: "[] \<notin> fst ` set (nt_tokenSet query)"
  defines "best \<equiv> best_score tx (fst ` set (nt_tokenSet query)) (sf_value ` set fs)"
  shows "(if best < 375000 then bestLexicalMatch tx query tier kind fs = None
          else \<exists>m. bestLexicalMatch tx query tier kind fs = Some m \<and> mt_tier m = tier \<and> mt_score m = best \<and> mt_kind m = kind)"
proof -
  let ?g = "\<lambda>field. lexicalSearchScore (nt_tokenSet query) (nt_tokenSet (normalizeSearchText tx (sf_value field)))"
  have g: "?g field = shared_score (fst ` set (nt_tokenSet query)) (words tx (sf_value field))" for field
    using lexicalSearchScore_spec [OF q _ ne] normalizeSearchText_tokens [of tx "sf_value field"] words_set [of tx "sf_value field"] by simp
  have "fst (foldl (\<lambda>(b, x) f. if ?g f > b then (?g f, sf_name f) else (b, x)) (0, []) fs) = best"
    unfolding best_fold by (simp add: best_def best_score_def g image_image)
  then show ?thesis by (auto simp: bestLexicalMatch_def split_beta Let_def searchMinimumScore_def)
qed

lemma equals_simps:
  "equals_one tx q (identifiers r) \<longleftrightarrow> normalizeExact tx (md_ID (rc_metadata r)) = q \<or>
     list_ex (\<lambda>x. normalizeExact tx (md_ID (rc_metadata r) @ ''/'' @ op_ID x) = q) (rc_operations r)"
  "equals_one tx q {v} \<longleftrightarrow> normalizeExact tx v = q"
  "equals_one tx q (set vs) \<longleftrightarrow> list_ex (\<lambda>v. normalizeExact tx v = q) vs"
  "equals_one tx q (op_ID ` set xs) \<longleftrightarrow> list_ex (\<lambda>x. normalizeExact tx (op_ID x) = q) xs"
  "equals_one tx q (local_names r) \<longleftrightarrow> list_ex (\<lambda>v. normalizeExact tx v = q) (md_Tags (rc_metadata r)) \<or>
     list_ex (\<lambda>x. normalizeExact tx (op_ID x) = q) (rc_operations r) \<or>
     list_ex (\<lambda>s. normalizeExact tx (sm_Name (sk_Metadata s)) = q) (rc_skills r)"
  by (auto simp: equals_one_def identifiers_def local_names_def list_ex_iff)

lemma field_texts:
  "sf_value ` set (capabilityFields r) = capability_texts r" "sf_value ` set (operationFields r) = operation_texts r"
  "sf_value ` set (skillFields r) = skill_texts r"
  by (auto simp: capabilityFields_def operationFields_def skillFields_def capability_texts_def operation_texts_def skill_texts_def image_iff)

lemma matchCapability_spec:
  assumes q: "keys_ok (nt_tokenSet query)" and ne: "[] \<notin> fst ` set (nt_tokenSet query)"
  shows "(\<exists>m. matchCapability tx query r = Some m \<and> mt_tier m = tier \<and> mt_score m = score \<and> mt_kind m = kind) \<longleftrightarrow>
    rank_spec tx (nt_qualifiedIdentifier query) (nt_exact query) (fst ` set (nt_tokenSet query)) r tier score kind"
proof -
  let ?W = "fst ` set (nt_tokenSet query)"
  note b = bestLexicalMatch_spec [OF q ne, of tx "capabilityFields r" 4 "''lexical_capability''"]
    bestLexicalMatch_spec [OF q ne, of tx "operationFields r" 5 "''lexical_operation''"]
    bestLexicalMatch_spec [OF q ne, of tx "skillFields r" 5 "''lexical_skill''"]
  have lex: "(\<exists>m. lexicalMatch tx query r = Some m \<and> mt_tier m = tier \<and> mt_score m = score \<and> mt_kind m = kind) \<longleftrightarrow> score \<ge> 375000 \<and>
        (tier = 4 \<and> kind = ''lexical_capability'' \<and> score = best_score tx ?W (capability_texts r) \<or>
         tier = 5 \<and> best_score tx ?W (capability_texts r) < 375000 \<and>
           (kind = ''lexical_operation'' \<and> score = best_score tx ?W (operation_texts r) \<or>
            kind = ''lexical_skill'' \<and> best_score tx ?W (operation_texts r) < 375000 \<and> score = best_score tx ?W (skill_texts r)))"
    using b [unfolded field_texts] by (auto simp: lexicalMatch_def split: if_splits)
  show ?thesis
    unfolding rank_spec_def equals_simps lex [symmetric]
    by (simp add: matchCapability_def Let_def exactSearchMatch_def searchExactScore_def) blast
qed

lemma capabilityInPath_spec: "capabilityInPath cid path \<longleftrightarrow> below_path path cid"
  by (auto simp: capabilityInPath_def below_path_def hasPrefix_iff)

text \<open>The hit that a ranked result stands for.\<close>

definition hit_of :: "rankedSearchResult \<Rightarrow> int \<times> int \<times> string \<times> string" where
  "hit_of x = (rk_tier x, sx_Score (rk_result x), cd_ID (sx_Card (rk_result x)), sx_MatchKind (rk_result x))"

lemma rankKey_order: "rankKey a < rankKey b \<longleftrightarrow> ranked_before (hit_of a) (hit_of b)"
  by (auto simp: rankKey_def hit_of_def ranked_before_def less_prod_def)

lemma rankMatch_spec:
  assumes k: "keys_ok (nt_tokenSet q)" "[] \<notin> fst ` set (nt_tokenSet q)" and c: "cd_ID (capabilityCard r) = cid"
  shows "(\<exists>x. rankMatch tx q path (cid, r) = Some x \<and> hit_of x = (tier, score, cid', kind)) \<longleftrightarrow> cid' = cid \<and> below_path path cid \<and>
    rank_spec tx (nt_qualifiedIdentifier q) (nt_exact q) (fst ` set (nt_tokenSet q)) r tier score kind"
proof -
  have "(\<exists>x. rankMatch tx q path (cid, r) = Some x \<and> hit_of x = (tier, score, cid', kind)) \<longleftrightarrow> cid' = cid \<and> below_path path cid \<and>
      (\<exists>m. matchCapability tx q r = Some m \<and> mt_tier m = tier \<and> mt_score m = score \<and> mt_kind m = kind)"
    unfolding rankMatch_def prod.case capabilityInPath_spec hit_of_def
    using c by (cases "below_path path cid"; cases "matchCapability tx q r") auto
  then show ?thesis using matchCapability_spec [OF k] by simp
qed

lemma rankMatch_card:
  assumes "rankMatch tx q path (cid, r) = Some x" shows "sx_Card (rk_result x) = capabilityCard r"
  using assms by (auto simp: rankMatch_def split: if_splits)

lemma live_card:
  assumes "reg_inv sha256 w" and "reg_map w cid = Some r" shows "cd_ID (capabilityCard r) = cid"
  using liveRecords_id [OF assms] by (simp add: capabilityCard_def Let_def)

text \<open>The list that the server sorts: its hits, their order and their cards.\<close>

lemma ranked_hits:
  fixes tx :: text_env and q :: normalizedSearchText and path :: string
  assumes inv: "reg_inv sha256 w" and k: "keys_ok (nt_tokenSet q)" "[] \<notin> fst ` set (nt_tokenSet q)"
    and qual: "nt_qualifiedIdentifier q = qualified_in tx (reg_map w) (nt_exact q)"
  defines "ranked \<equiv> sort_key rankKey (List.map_filter (rankMatch tx q path) (liveRecords (w_reg w)))"
  shows "set (map hit_of ranked) = search_hits tx (nt_exact q) (fst ` set (nt_tokenSet q)) path (reg_map w)"
    and "sorted_wrt ranked_before (map hit_of ranked)"
    and "\<forall>x \<in> set ranked. map_option capabilityCard (reg_map w (cd_ID (sx_Card (rk_result x)))) = Some (sx_Card (rk_result x))"
proof -
  have el: "x \<in> set ranked \<longleftrightarrow> (\<exists>cid r. reg_map w cid = Some r \<and> rankMatch tx q path (cid, r) = Some x)" for x
    using ranked_spec(1) [OF inv, of tx q path] by (auto simp: ranked_def)
  note spec = rankMatch_spec [OF k live_card [OF inv], of _ _ tx path, unfolded qual]
  show "set (map hit_of ranked) = search_hits tx (nt_exact q) (fst ` set (nt_tokenSet q)) path (reg_map w)"
  proof (rule set_eqI)
    fix h :: "int \<times> int \<times> string \<times> string"
    obtain tier score cid kind where h: "h = (tier, score, cid, kind)" by (metis prod.exhaust)
    have e: "reg_map w cid' = Some r \<and> (\<exists>x. rankMatch tx q path (cid', r) = Some x \<and> hit_of x = (tier, score, cid, kind)) \<longleftrightarrow>
        reg_map w cid' = Some r \<and> cid = cid' \<and> below_path path cid' \<and> rank_spec tx (qualified_in tx (reg_map w) (nt_exact q))
          (nt_exact q) (fst ` set (nt_tokenSet q)) r tier score kind" for cid' r
      using spec [of cid' r tier score cid kind] by blast
    have "h \<in> set (map hit_of ranked) \<longleftrightarrow> (\<exists>cid' r. reg_map w cid' = Some r \<and> (\<exists>x. rankMatch tx q path (cid', r) = Some x \<and> hit_of x = (tier, score, cid, kind)))"
      by (simp add: image_iff Bex_def el h eq_commute) blast
    also have "\<dots> \<longleftrightarrow> h \<in> search_hits tx (nt_exact q) (fst ` set (nt_tokenSet q)) path (reg_map w)"
      unfolding h search_hits_def by (auto simp: e)
    finally show "h \<in> set (map hit_of ranked) \<longleftrightarrow> h \<in> search_hits tx (nt_exact q) (fst ` set (nt_tokenSet q)) path (reg_map w)" .
  qed
  show "sorted_wrt ranked_before (map hit_of ranked)"
    using ranked_spec(2) [OF inv, of tx q path] by (simp add: ranked_def sorted_wrt_map rankKey_order)
  show "\<forall>x \<in> set ranked. map_option capabilityCard (reg_map w (cd_ID (sx_Card (rk_result x)))) = Some (sx_Card (rk_result x))"
    using el live_card [OF inv] by (auto simp: rankMatch_card)
qed

section \<open>Properties\<close>

text \<open>C20: Search is a ranking of the installed records.  Whatever the order of the registry's map and whatever was installed
  and removed before, the answer is the first entries, up to the limit, of the list of all installed records under the path that
  match, each once, by tier, then descending score, then identifier; a blank query finds nothing.  Tier, score and kind are
  those of a specification on sets: tier 1 when the query equals the identifier of the capability or of one of its operations,
  and nothing else when it equals such an identifier of any installed capability; 2 for the name; 3 for a tag, a local
  operation or a skill; else 4 or 5 by the weight of the words that the query shares with the texts of the capability, or of
  its operations, or of its skills.\<close>

theorem search_ranks_installed:
  assumes reg: "reg_reachable sha256 w" and s: "Search tx request (w_reg w) = Inr response"
  shows "\<exists>query path. normalizeSearchQuery tx (sq_Query request) = Inr query \<and>
    path = (if sq_Path request = ''/'' then [] else sq_Path request) \<and>
    (if nt_exact query = [] \<or> nt_tokens query = [] then so_Results response = []
     else \<exists>hits.
       set hits = search_hits tx (nt_exact query) (set (nt_tokens query)) path (reg_map w) \<and>
       sorted_wrt ranked_before hits \<and>
       map (\<lambda>x. (sx_Score x, sx_MatchKind x, Some (sx_Card x))) (so_Results response) =
         map (\<lambda>(tier, score, cid, kind). (score, kind, map_option capabilityCard (reg_map w cid)))
           (take (nat (sq_Limit request)) hits))"
proof -
  note inv = reg_reachable_inv [OF reg]
  from s show ?thesis
  proof (rule Search_Inr)
    fix query path
    assume q: "normalizeSearchQuery tx (sq_Query request) = Inr query" "path = (if sq_Path request = ''/'' then [] else sq_Path request)"
      and r: "so_Results response = searchLocked tx query path (sq_Limit request) (w_reg w)"
    let ?q = "query\<lparr>nt_qualifiedIdentifier := qualified_in tx (reg_map w) (nt_exact query)\<rparr>"
    let ?ranked = "sort_key rankKey (List.map_filter (rankMatch tx ?q path) (liveRecords (w_reg w)))"
    let ?n = "nat (sq_Limit request)"
    have "query = normalizeSearchText tx (sq_Query request)" using q(1) by (auto simp: normalizeSearchQuery_def Let_def split: if_splits)
    then have k: "keys_ok (nt_tokenSet ?q)" "[] \<notin> fst ` set (nt_tokenSet ?q)" "fst ` set (nt_tokenSet ?q) = set (nt_tokens query)"
      using normalizeSearchText_tokens [of tx "sq_Query request"] by auto
    have qual: "nt_qualifiedIdentifier ?q = qualified_in tx (reg_map w) (nt_exact ?q)" by simp
    have e: "nt_exact ?q = nt_exact query" by simp
    note hits = ranked_hits [OF inv k(1,2) qual, of path, unfolded k(3) e]
    have "map (\<lambda>x. (sx_Score x, sx_MatchKind x, Some (sx_Card x))) (so_Results response) =
         map (\<lambda>(tier, score, cid, kind). (score, kind, map_option capabilityCard (reg_map w cid))) (take ?n (map hit_of ?ranked))"
      if "nt_exact query \<noteq> [] \<and> nt_tokens query \<noteq> []"
    proof -
      have "so_Results response = map rk_result (take ?n ?ranked)" using that r by (simp add: searchLocked_def hasExact_spec [OF inv])
      moreover have "Some (sx_Card (rk_result x)) = map_option capabilityCard (reg_map w (cd_ID (sx_Card (rk_result x))))"
        if "x \<in> set (take ?n ?ranked)" for x using hits(3) in_set_takeD [OF that] by (metis (no_types, lifting))
      ultimately show ?thesis by (simp add: take_map hit_of_def)
    qed
    moreover have "so_Results response = []" if "nt_exact query = [] \<or> nt_tokens query = []" using r that by (auto simp: searchLocked_def)
    ultimately have "if nt_exact query = [] \<or> nt_tokens query = [] then so_Results response = []
     else \<exists>hits. set hits = search_hits tx (nt_exact query) (set (nt_tokens query)) path (reg_map w) \<and> sorted_wrt ranked_before hits \<and>
       map (\<lambda>x. (sx_Score x, sx_MatchKind x, Some (sx_Card x))) (so_Results response) =
         map (\<lambda>(tier, score, cid, kind). (score, kind, map_option capabilityCard (reg_map w cid))) (take ?n hits)"
      using hits(1,2) by (cases "nt_exact query = [] \<or> nt_tokens query = []") (simp, subst if_not_P, assumption, blast)
    then show ?thesis using q by blast
  qed
qed

theorem search_ranks_installed_witness:
  "\<exists>hits. set hits = search_hits ascii_env ''git.log'' {''git'', ''log''} [] (reg_map demo_world) \<and>
    [(1000000, ''exact_capability_id'', Some (capabilityCard demo_record))] =
      map (\<lambda>(tier, score, cid, kind). (score, kind, map_option capabilityCard (reg_map demo_world cid))) (take 10 hits)"
proof -
  have q: "normalizeSearchQuery ascii_env ''git.log'' = Inr (normalizeSearchText ascii_env ''git.log'')"
    by (simp add: normalizeSearchQuery_def demo_text SearchQueryMaxBytes_def validString_def byteN_def)
  show ?thesis
    using search_ranks_installed [OF demo_world_reachable demo_answer, unfolded SearchResponse.select_convs] q
    by (auto simp: demo_search_def demo_text demo_found_def searchExactScore_def)
qed

text \<open>A query that is an identifier finds identifiers only.  When the normalized query equals the identifier of an
  installed capability, or of one of its operations, every result is an exact identifier match with the full score,
  and a matching capability under the path is found.\<close>

theorem search_identifier_exact:
  assumes reg: "reg_reachable sha256 w" and s: "Search tx request (w_reg w) = Inr response"
    and q: "normalizeSearchQuery tx (sq_Query request) = Inr query" and qual: "qualified_in tx (reg_map w) (nt_exact query)"
  shows "(\<forall>x \<in> set (so_Results response). identifier_kind (sx_MatchKind x) \<and> sx_Score x = searchExactScore) \<and>
    (\<forall>cid r. reg_map w cid = Some r \<and> normalizeExact tx cid = nt_exact query \<and> nt_exact query \<noteq> [] \<and> nt_tokens query \<noteq> [] \<and>
       capabilityInPath cid (if sq_Path request = ''/'' then [] else sq_Path request) \<longrightarrow> so_Results response \<noteq> [])"
proof -
  note inv = reg_reachable_inv [OF reg]
  let ?q = "query\<lparr>nt_qualifiedIdentifier := True\<rparr>" and ?path = "if sq_Path request = ''/'' then [] else sq_Path request"
  let ?hits = "sort_key rankKey (List.map_filter (rankMatch tx ?q ?path) (liveRecords (w_reg w)))"
  obtain query' where lim: "0 < sq_Limit request" and q': "normalizeSearchQuery tx (sq_Query request) = Inr query'"
    and r': "so_Results response = searchLocked tx query' ?path (sq_Limit request) (w_reg w)"
    using s by (rule Search_Inr) auto
  have r: "so_Results response = searchLocked tx query ?path (sq_Limit request) (w_reg w)" using q q' r' by simp
  have locked: "so_Results response = (if nt_exact query = [] \<or> nt_tokens query = [] then [] else map rk_result (take (nat (sq_Limit request)) ?hits))"
    using r qual by (simp add: searchLocked_def hasExact_spec [OF inv])
  have "identifier_kind (sx_MatchKind (rk_result x)) \<and> sx_Score (rk_result x) = searchExactScore" if x: "x \<in> set ?hits" for x
  proof -
    obtain e where "rankMatch tx ?q ?path e = Some x" using x by (auto simp: set_map_filter)
    then show ?thesis
      using matchCapability_qualified [of ?q tx "snd e"] by (cases e) (auto simp: rankMatch_def split: if_splits)
  qed
  moreover have "so_Results response \<noteq> []"
    if h: "reg_map w cid = Some rc" "normalizeExact tx cid = nt_exact query" "nt_exact query \<noteq> []" "nt_tokens query \<noteq> []"
      "capabilityInPath cid ?path" for cid rc
  proof -
    have "\<exists>x. rankMatch tx ?q ?path (cid, rc) = Some x"
      using h liveRecords_id [OF inv h(1)] by (simp add: rankMatch_def matchCapability_def)
    then have "?hits \<noteq> []" using ranked_spec(1) [OF inv, of tx ?q ?path] h(1) by fastforce
    then show ?thesis using locked h(3,4) lim by (cases ?hits; cases "nat (sq_Limit request)") auto
  qed
  ultimately show ?thesis using locked by (auto dest!: in_set_takeD split: if_splits)
qed

theorem search_identifier_exact_witness:
  "identifier_kind (sx_MatchKind demo_found) \<and> sx_Score demo_found = searchExactScore"
proof -
  have q: "normalizeSearchQuery ascii_env ''git.log'' = Inr (normalizeSearchText ascii_env ''git.log'')"
    by (simp add: normalizeSearchQuery_def demo_text SearchQueryMaxBytes_def validString_def byteN_def)
  have "reg_map demo_world ''git.log'' = Some demo_record"
    using liveRecords_set [OF reg_reachable_inv [OF demo_world_reachable], of "''git.log''" demo_record] demo_live by simp
  then have "qualified_in ascii_env (reg_map demo_world) ''git.log''" using demo_exact unfolding qualified_in_def by blast
  then show ?thesis
    using search_identifier_exact [OF demo_world_reachable demo_answer _, of "normalizeSearchText ascii_env ''git.log''"] q
    by (simp add: demo_search_def demo_text)
qed

text \<open>Answers are bounded and sound: at most the requested number of results and at most 100, each the card of an
  installed capability under the path with a score between the minimum and the exact score, no capability twice.\<close>

theorem search_results_bounded:
  assumes reg: "reg_reachable sha256 w" and s: "Search tx request (w_reg w) = Inr response"
  shows "int (length (so_Results response)) \<le> sq_Limit request \<and> sq_Limit request \<le> 100 \<and>
    distinct (map (\<lambda>x. cd_ID (sx_Card x)) (so_Results response)) \<and>
    (\<forall>x \<in> set (so_Results response). searchMinimumScore \<le> sx_Score x \<and> sx_Score x \<le> searchExactScore \<and>
       (\<exists>r. reg_map w (cd_ID (sx_Card x)) = Some r \<and> sx_Card x = capabilityCard r) \<and>
       capabilityInPath (cd_ID (sx_Card x)) (if sq_Path request = ''/'' then [] else sq_Path request))"
proof -
  note inv = reg_reachable_inv [OF reg]
  let ?path = "if sq_Path request = ''/'' then [] else sq_Path request"
  obtain query where lim: "0 < sq_Limit request" "sq_Limit request \<le> SearchLimitMax"
    and q: "normalizeSearchQuery tx (sq_Query request) = Inr query"
    and r: "so_Results response = searchLocked tx query ?path (sq_Limit request) (w_reg w)"
    using s by (rule Search_Inr) auto
  have keys: "keys_ok (nt_tokenSet query)"
    using q normalizeSearchText_tokens [of tx "sq_Query request"] by (auto simp: normalizeSearchQuery_def Let_def split: if_splits)
  show ?thesis
  proof (cases "nt_exact query = [] \<or> nt_tokens query = []")
    case True
    then show ?thesis using r lim by (simp add: searchLocked_def SearchLimitMax_def)
  next
    case False
    define q' where "q' = query\<lparr>nt_qualifiedIdentifier := hasExactSearchIdentifierLocked tx (w_reg w) (nt_exact query)\<rparr>"
    define hits where "hits = sort_key rankKey (List.map_filter (rankMatch tx q' ?path) (liveRecords (w_reg w)))"
    have res: "so_Results response = map rk_result (take (nat (sq_Limit request)) hits)"
      using r False by (simp add: searchLocked_def hits_def q'_def)
    have hit: "searchMinimumScore \<le> sx_Score (rk_result x) \<and> sx_Score (rk_result x) \<le> searchExactScore \<and>
        reg_map w cid = Some rc \<and> sx_Card (rk_result x) = capabilityCard rc \<and> cd_ID (sx_Card (rk_result x)) = cid \<and> capabilityInPath cid ?path"
      if h: "reg_map w cid = Some rc" "rankMatch tx q' ?path (cid, rc) = Some x" for cid rc x
    proof -
      obtain m where m: "matchCapability tx q' rc = Some m" "sx_Score (rk_result x) = mt_score m" "sx_Card (rk_result x) = capabilityCard rc"
        "capabilityInPath cid ?path" using h(2) by (auto simp: rankMatch_def split: if_splits)
      have "keys_ok (nt_tokenSet q')" using keys by (simp add: q'_def)
      then show ?thesis
        using matchCapability_bound m h(1) rankMatch_id [OF h(2)] liveRecords_id [OF inv h(1)] by metis
    qed
    have mem: "\<exists>cid rc. reg_map w cid = Some rc \<and> rankMatch tx q' ?path (cid, rc) = Some x" if "x \<in> set hits" for x
      using that ranked_spec(1) [OF inv, of tx q' ?path] unfolding hits_def by blast
    have key: "distinct (map (\<lambda>x. cd_ID (sx_Card (rk_result x))) hits)"
      using distinct_ids [OF inv] unfolding hits_def .
    have "\<forall>x \<in> set (so_Results response). searchMinimumScore \<le> sx_Score x \<and> sx_Score x \<le> searchExactScore \<and>
       (\<exists>r. reg_map w (cd_ID (sx_Card x)) = Some r \<and> sx_Card x = capabilityCard r) \<and> capabilityInPath (cd_ID (sx_Card x)) ?path"
      unfolding res using hit mem by (fastforce dest!: in_set_takeD)
    moreover have "distinct (map (\<lambda>x. cd_ID (sx_Card x)) (so_Results response))"
      unfolding res using distinct_take [OF key, of "nat (sq_Limit request)"] by (simp add: take_map comp_def)
    ultimately show ?thesis using lim by (simp add: res SearchLimitMax_def)
  qed
qed

theorem search_results_bounded_witness:
  "searchMinimumScore \<le> sx_Score demo_found \<and> reg_map demo_world (cd_ID (sx_Card demo_found)) \<noteq> None"
  using search_results_bounded [OF demo_world_reachable demo_answer] by auto

end
