(* ===== verification/Catalog.thy ===== *)
theory Catalog
  imports Search
begin

text \<open>
  The catalog, \<^verbatim>\<open>internal/capability/catalog.go\<close>: a search together with one page of the children of a hierarchy path.
  Cursors carry the revision of the registry they were made at.  A nil slice is encoded as \<^verbatim>\<open>null\<close>.
\<close>

section \<open>Types\<close>

record CatalogSearchRequest =
  gq_Query :: string
  gq_Path :: string
  gq_Limit :: int
  gq_ChildLimit :: int
  gq_ChildCursor :: string

record CatalogSearchResponse =
  go_RankingVersion :: string
  go_Results :: "SearchResult list"
  go_Path :: string
  go_Children :: "HierarchyEntry list"
  go_TotalChildren :: int
  go_NextChildCursor :: string

record catalogCursor =
  kc_Path :: string
  kc_Revision :: nat
  kc_Offset :: int

definition newCatalog :: "bytes \<Rightarrow> bytes res" where
  "newCatalog random = rbind (readFull 32 random) (\<lambda>(key, rest). Inr key)"

section \<open>Encodings\<close>

definition nullableArr :: "json list \<Rightarrow> json" where
  "nullableArr xs = (if xs = [] then JNull else JArr xs)"

definition cardJson :: "CapabilityCard \<Rightarrow> json" where
  "cardJson c =
     JObj [(''id'', JStr (cd_ID c)), (''name'', JStr (cd_Name c)), (''version'', JStr (cd_Version c)),
           (''description'', JStr (cd_Description c)), (''path'', JStr (cd_Path c)), (''tags'', nullableArr (map JStr (cd_Tags c))),
           (''counts'', countsJson (cd_Counts c))]"

definition searchResultJson :: "SearchResult \<Rightarrow> json" where
  "searchResultJson x =
     JObj [(''card'', cardJson (sx_Card x)), (''score'', JInt (sx_Score x)), (''match_kind'', JStr (sx_MatchKind x)),
           (''matched_field'', JStr (sx_MatchedField x)), (''reason'', JStr (sx_Reason x))]"

definition hierarchyEntryJson :: "HierarchyEntry \<Rightarrow> json" where
  "hierarchyEntryJson e =
     JObj [(''Path'', JStr (he_Path e)), (''CapabilityID'', JStr (he_CapabilityID e)), (''Name'', JStr (he_Name e)),
           (''Description'', JStr (he_Description e)), (''Operations'', JInt (he_Operations e))]"

definition catalogResponseJson :: "CatalogSearchResponse \<Rightarrow> json" where
  "catalogResponseJson r =
     JObj ([(''ranking_version'', JStr (go_RankingVersion r)), (''results'', JArr (map searchResultJson (go_Results r))),
            (''path'', JStr (go_Path r)), (''children'', nullableArr (map hierarchyEntryJson (go_Children r))),
            (''total_children'', JInt (go_TotalChildren r))] @ omitStr ''next_child_cursor'' (go_NextChildCursor r))"

section \<open>Cursors\<close>

definition catalogPayload :: "catalogCursor \<Rightarrow> bytes" where
  "catalogPayload c =
     jsonText (JObj [(''p'', JStr (kc_Path c)), (''r'', JInt (int (kc_Revision c))), (''o'', JInt (kc_Offset c))])"

definition catalog_makeCursor :: "hmac \<Rightarrow> bytes \<Rightarrow> catalogCursor \<Rightarrow> string" where
  "catalog_makeCursor hmac key c = signToken hmac key ''catalog'' (catalogPayload c)"

fun catalogField :: "string \<Rightarrow> json \<Rightarrow> catalogCursor \<Rightarrow> catalogCursor option" where
  "catalogField k v c =
     (if k = ''p'' then (case v of JStr s \<Rightarrow> Some (c\<lparr>kc_Path := s\<rparr>) | _ \<Rightarrow> None)
      else if k = ''r'' then (case v of JNum n \<Rightarrow> map_option (\<lambda>i. c\<lparr>kc_Revision := i\<rparr>) (parseUint64 n) | _ \<Rightarrow> None)
      else if k = ''o'' then (case v of JNum n \<Rightarrow> map_option (\<lambda>i. c\<lparr>kc_Offset := i\<rparr>) (parseInt64 n) | _ \<Rightarrow> None)
      else Some c)"

definition catalog_parseCursor :: "hmac \<Rightarrow> bytes \<Rightarrow> string \<Rightarrow> catalogCursor option" where
  "catalog_parseCursor hmac key token =
     (case openToken hmac key ''catalog'' token of None \<Rightarrow> None
      | Some payload \<Rightarrow>
        (case decodeStruct catalogField \<lparr>kc_Path = [], kc_Revision = 0, kc_Offset = 0\<rparr> payload of None \<Rightarrow> None
         | Some c \<Rightarrow> if kc_Offset c < 0 then None else Some c))"

section \<open>Search\<close>

text \<open>The position that a request starts from, with the revision it expects.\<close>

definition catalogStart :: "hmac \<Rightarrow> bytes \<Rightarrow> CatalogSearchRequest \<Rightarrow> string \<Rightarrow> (nat option \<times> int) res" where
  "catalogStart hmac key request path =
     (if gq_ChildCursor request = [] then Inr (None, 0)
      else if int (length (gq_ChildCursor request)) > OpaqueReferenceMaxBytes then Inl ErrCatalogCursorInvalid
      else case catalog_parseCursor hmac key (gq_ChildCursor request) of None \<Rightarrow> Inl ErrCatalogCursorInvalid
      | Some c \<Rightarrow>
        if kc_Path c \<noteq> path \<or> kc_Offset c < 0 then Inl ErrCatalogCursorInvalid
        else Inr (Some (kc_Revision c), kc_Offset c))"

definition catalog_Search ::
  "text_env \<Rightarrow> hmac \<Rightarrow> bytes \<Rightarrow> CatalogSearchRequest \<Rightarrow> Registry \<Rightarrow> CatalogSearchResponse res" where
  "catalog_Search tx hmac key request r =
     (if gq_ChildLimit request < 0 \<or> gq_ChildLimit request > SearchLimitMax then Inl ErrSearchLimitInvalid
      else let path = (if gq_Path request = ''/'' then [] else gq_Path request)
      in rbind (catalogStart hmac key request path) (\<lambda>(expectedRevision, offset).
         rbind (searchAndBrowse tx \<lparr>sq_Query = gq_Query request, sq_Path = path, sq_Limit = gq_Limit request\<rparr> expectedRevision r)
           (\<lambda>(search, view, revision).
             let total = int (length (hv_Children view))
             in if offset > total then Inl ErrCatalogCursorInvalid
                else let stop = (if add64 offset (gq_ChildLimit request) > total then total else add64 offset (gq_ChildLimit request));
                         response = \<lparr>go_RankingVersion = so_RankingVersion search, go_Results = so_Results search,
                           go_Path = hv_Path view,
                           go_Children = drop (nat offset) (take (nat stop) (hv_Children view)),
                           go_TotalChildren = total,
                           go_NextChildCursor =
                             (if gq_ChildLimit request > 0 \<and> stop < total
                              then catalog_makeCursor hmac key \<lparr>kc_Path = path, kc_Revision = revision, kc_Offset = stop\<rparr> else [])\<rparr>
                     in if int (length (jsonText (catalogResponseJson response))) > BrokerResponseMaxBytes
                        then Inl ErrServiceQuota else Inr response)))"

end
