(* ===== verification/Catalog_Props.thy ===== *)
theory Catalog_Props
  imports Catalog Registry_Props Interfaces Describe_Page
begin

text \<open>
  The children of a catalog path as a \<open>pager\<close>: cursors name the revision of the registry, so that the pages a client
  collects all come from one revision.
\<close>

section \<open>Revisions\<close>

lemma browseLocked_cong:
  assumes "rg_nodes r' = rg_nodes r" and "rg_entries r' = rg_entries r"
    and "\<And>a. map_option gn_record (get (rg_gens r') a) = map_option gn_record (get (rg_gens r) a)"
  shows "browseLocked r' p = browseLocked r p"
proof -
  have "childEntry r' c = childEntry r c" for c
  proof -
    let ?cid = "hn_capabilityID (case get (rg_nodes r) c of None \<Rightarrow> emptyNode | Some n \<Rightarrow> n)"
    show ?thesis
    proof (cases "get (rg_entries r) ?cid")
      case (Some a)
      then show ?thesis
        using assms(3) [of a]
        by (cases "get (rg_gens r) a"; cases "get (rg_gens r') a") (auto simp: childEntry_def assms(1,2) Let_def)
    qed (simp add: childEntry_def assms(1,2) Let_def)
  qed
  then have ce: "childEntry r' = childEntry r" by (rule ext)
  show ?thesis unfolding browseLocked_def assms(1) ce ..
qed

lemma revision_frame:
  "rg_revision (w_reg (retireLocked a w)) = rg_revision (w_reg w)"
  "rg_revision (w_reg (leaseRelease b w)) = rg_revision (w_reg w)"
  "rg_revision (w_reg (fst (newLease a' g iv w))) = rg_revision (w_reg w)"
  by (auto simp: retireLocked_def reclaimLocked_def setGen_def leaseRelease_def releaseGeneration_def newLease_def Let_def
    split: option.splits)

lemma fold_retire_revision: "rg_revision (w_reg (fold retireLocked as w)) = rg_revision (w_reg w)"
  by (induction as arbitrary: w) (simp_all add: revision_frame)

text \<open>A step either raises the revision or leaves every listing as it is, unless it closes the registry.\<close>

definition same_listing :: "world \<Rightarrow> world \<Rightarrow> bool" where
  "same_listing w w' \<longleftrightarrow> rg_revision (w_reg w') = rg_revision (w_reg w) \<and>
     (\<forall>p v. browseLocked (w_reg w') p = Inr v \<longrightarrow> browseLocked (w_reg w) p = Inr v)"

lemma leased_listing: "leased cid iv w w' b \<Longrightarrow> same_listing w w'"
proof -
  assume "leased cid iv w w' b"
  then obtain a g where g: "get (rg_gens (w_reg w)) a = Some g" and n: "newLease a g iv w = (w', b)" by (auto simp: leased_def)
  note f = newLease_frame [OF g n]
  show ?thesis
    unfolding same_listing_def using revision_frame(3) [of a g iv w] n f by (auto simp: browseLocked_cong [OF f(3,1,4)])
qed

lemma reg_step_revision:
  assumes "reg_step sha256 w w'"
  shows "rg_revision (w_reg w) < rg_revision (w_reg w') \<or> same_listing w w'"
  using assms
proof cases
  case (step_Add x)
  then show ?thesis by (auto simp: Add_def addLocked_def publish_def res_simps Let_def bumpRevision_def rebuildHierarchyLocked_def split: if_splits)
next
  case (step_Reinstall x)
  then show ?thesis
    by (auto simp: Reinstall_def Let_def bumpRevision_def revision_frame publish_def split: if_splits option.splits)
next
  case (step_Uninstall cid)
  then show ?thesis by (auto simp: Uninstall_def Let_def bumpRevision_def revision_frame split: if_splits option.splits)
next
  case (step_Lookup cid b)
  then show ?thesis using leased_listing Lookup_leased by blast
next
  case (step_ResolveOperation cid oid b)
  then show ?thesis using leased_listing ResolveOperation_leased by blast
next
  case (step_ResolveToolPath p b)
  then show ?thesis using leased_listing ResolveToolPath_leased ResolveOperation_leased by meson
next
  case (step_Release b)
  have "browseLocked (w_reg (leaseRelease b w)) p = browseLocked (w_reg w) p" for p by (rule browseLocked_cong) simp_all
  then show ?thesis using revision_frame(2) [of b w] step_Release by (simp add: same_listing_def)
next
  case step_Close
  then show ?thesis
    by (auto simp: Close_def closeLocked_def Let_def same_listing_def browseLocked_def fold_retire_revision)
next
  case (step_store s')
  then show ?thesis by (simp add: same_listing_def)
qed

section \<open>Cursors\<close>

definition list_path :: "string \<Rightarrow> bool" where
  "list_path p \<longleftrightarrow> (p = [] \<or> capabilityIDPattern p) \<and> length p \<le> 256"

lemma list_path_plain: "list_path p \<Longrightarrow> list_all plain p"
  using plain_capabilityID by (auto simp: list_path_def)

lemma parseUint64_int: "n < 2 ^ 64 \<Longrightarrow> parseUint64 (intText (int n)) = Some n"
  by (simp add: intText_nonneg parseUint64_nat)

lemma catalogPayload_decode:
  assumes c: "list_path (kc_Path c)" "kc_Revision c < 2 ^ 64" "0 \<le> kc_Offset c" "kc_Offset c \<le> max_int64"
  shows "decodeStruct catalogField \<lparr>kc_Path = [], kc_Revision = 0, kc_Offset = 0\<rparr> (catalogPayload c) = Some (c :: catalogCursor)"
proof -
  have flat: "flatMembers [(''p'', JStr (kc_Path c)), (''r'', JInt (int (kc_Revision c))), (''o'', JInt (kc_Offset c))]"
    using list_path_plain [OF c(1)] c(3) by (auto simp: flatMembers_def flatValue_def plain_def byteN_def)
  have low: "lowerByte CHR ''p'' = CHR ''p''" "lowerByte CHR ''r'' = CHR ''r''" "lowerByte CHR ''o'' = CHR ''o''"
    by (simp_all add: lowerByte_def byteN_def)
  show ?thesis
    unfolding decodeStruct_def catalogPayload_def parseJson_flat [OF flat list.distinct(2)]
    using c by (simp add: low JInt_def parseInt64_int parseUint64_int del: of_nat_power)
qed

lemma catalog_parse_make:
  assumes c: "list_path (kc_Path c)" "kc_Revision c < 2 ^ 64" "0 \<le> kc_Offset c" "kc_Offset c \<le> max_int64"
  shows "catalog_parseCursor hmac key (catalog_makeCursor hmac key c) = Some (c :: catalogCursor)"
  using catalogPayload_decode [OF c] openToken_sign [of "''catalog''" hmac key "catalogPayload c"] c(3)
  by (simp add: catalog_parseCursor_def catalog_makeCursor_def)

lemma length_catalog_makeCursor:
  assumes mac: "mac32 hmac" and c: "list_path (kc_Path c)" "kc_Revision c < 2 ^ 64" "0 \<le> kc_Offset c" "kc_Offset c \<le> max_int64"
  shows "int (length (catalog_makeCursor hmac key c)) \<le> OpaqueReferenceMaxBytes"
proof -
  have k: "list_all plain ''p''" "list_all plain ''r''" "list_all plain ''o''" by (simp_all add: plain_def byteN_def)
  have "length (natText (kc_Revision c)) \<le> 20" using c(2) by (intro length_natText) simp_all
  then have r: "length (intText (int (kc_Revision c))) \<le> 20" by (simp add: intText_nonneg)
  have o: "length (intText (kc_Offset c)) \<le> 19" using c(3,4) by (rule length_intText_int64)
  have "length (kc_Path c) \<le> 256" using c(1) by (simp add: list_path_def)
  then have "length (catalogPayload c) \<le> 320"
    using r o list_path_plain [OF c(1)]
    by (simp add: catalogPayload_def jsonString_plain [OF k(1)] jsonString_plain [OF k(2)] jsonString_plain [OF k(3)] jsonString_plain JInt_def)
  then show ?thesis
    using mac by (simp add: catalog_makeCursor_def length_signToken mac32_def OpaqueReferenceMaxBytes_def)
qed

section \<open>The catalog is a pager\<close>

definition next_child_cursor :: "CatalogSearchResponse \<Rightarrow> string option" where
  "next_child_cursor r = (if go_NextChildCursor r = [] then None else Some (go_NextChildCursor r))"

definition lists :: "hmac \<Rightarrow> bytes \<Rightarrow> world \<Rightarrow> HierarchyEntry list \<Rightarrow> nat \<Rightarrow> string \<Rightarrow> bool" where
  "lists hmac key w xs off token \<longleftrightarrow> mac32 hmac \<and> off < length xs \<and> int (length xs) + SearchLimitMax \<le> max_int64 \<and>
     (\<exists>p rev. catalog_parseCursor hmac key token = Some \<lparr>kc_Path = p, kc_Revision = rev, kc_Offset = int off\<rparr> \<and>
        list_path p \<and> rev < 2 ^ 64 \<and>
        (rev < rg_revision (w_reg w) \<or>
         (rev = rg_revision (w_reg w) \<and> (\<forall>v. browseLocked (w_reg w) p = Inr v \<longrightarrow> hv_Children v = xs))))"

text \<open>A successful request with a cursor and a positive page size.\<close>

definition listed :: "text_env \<Rightarrow> hmac \<Rightarrow> bytes \<Rightarrow> string \<Rightarrow> world \<Rightarrow> CatalogSearchResponse \<Rightarrow> world \<Rightarrow> bool" where
  "listed tx hmac key token w r w' \<longleftrightarrow> w' = w \<and>
     (\<exists>request. gq_ChildCursor request = token \<and> token \<noteq> [] \<and> 0 < gq_ChildLimit request \<and>
        catalog_Search tx hmac key request (w_reg w) = Inr r)"

lemma searchAndBrowse_Inr:
  assumes "searchAndBrowse tx request rv r = Inr (search, view, revision)"
  shows "list_path (if sq_Path request = ''/'' then [] else sq_Path request)" and "\<not> rg_closed r"
    and "rv = None \<or> rv = Some (rg_revision r)"
    and "browseLocked r (if sq_Path request = ''/'' then [] else sq_Path request) = Inr view" and "revision = rg_revision r"
proof -
  define path where "path = (if sq_Path request = ''/'' then [] else sq_Path request)"
  have "browseLocked r path = Inr view \<and> revision = rg_revision r \<and> \<not> rg_closed r \<and> (rv = None \<or> rv = Some (rg_revision r)) \<and>
      (path = [] \<or> capabilityIDPattern path) \<and> int (length path) \<le> MaxHierarchyPathBytes"
    using assms unfolding searchAndBrowse_def path_def [symmetric] Let_def by (auto simp: res_simps split: if_splits)
  then show "list_path (if sq_Path request = ''/'' then [] else sq_Path request)" "\<not> rg_closed r"
    "rv = None \<or> rv = Some (rg_revision r)"
    "browseLocked r (if sq_Path request = ''/'' then [] else sq_Path request) = Inr view" "revision = rg_revision r"
    unfolding path_def [symmetric] by (auto simp: list_path_def MaxHierarchyPathBytes_def)
qed

lemma catalog_Search_Inr:
  assumes "catalog_Search tx hmac key request r = Inr response"
  obtains rev off path view where "path = (if gq_Path request = ''/'' then [] else gq_Path request)"
    "catalogStart hmac key request path = Inr (rev, off)" "0 \<le> gq_ChildLimit request" "gq_ChildLimit request \<le> SearchLimitMax"
    "list_path path" "\<not> rg_closed r" "rev = None \<or> rev = Some (rg_revision r)" "browseLocked r path = Inr view"
    "off \<le> int (length (hv_Children view))" "go_TotalChildren response = int (length (hv_Children view))" "go_Path response = path"
    "go_Children response = drop (nat off) (take (nat (min (add64 off (gq_ChildLimit request)) (int (length (hv_Children view))))) (hv_Children view))"
    "go_NextChildCursor response = (if gq_ChildLimit request > 0 \<and> add64 off (gq_ChildLimit request) < int (length (hv_Children view))
       then catalog_makeCursor hmac key \<lparr>kc_Path = path, kc_Revision = rg_revision r, kc_Offset = add64 off (gq_ChildLimit request)\<rparr> else [])"
    "int (length (jsonText (catalogResponseJson response))) \<le> BrokerResponseMaxBytes"
proof -
  define path where "path = (if gq_Path request = ''/'' then [] else gq_Path request)"
  note E = assms [unfolded catalog_Search_def path_def [symmetric] Let_def]
  have lim: "0 \<le> gq_ChildLimit request" "gq_ChildLimit request \<le> SearchLimitMax"
    using E by (auto split: if_split_asm simp del: rbind.simps)
  then have g1: "\<not> (gq_ChildLimit request < 0 \<or> gq_ChildLimit request > SearchLimitMax)" by simp
  note E1 = E [unfolded if_not_P [OF g1]]
  obtain rev off where start: "catalogStart hmac key request path = Inr (rev, off)"
    using E1 by (cases "catalogStart hmac key request path") auto
  note E2 = E1 [unfolded start rbind.simps prod.case]
  obtain search view revision
    where sb: "searchAndBrowse tx \<lparr>sq_Query = gq_Query request, sq_Path = path, sq_Limit = gq_Limit request\<rparr> rev r = Inr (search, view, revision)"
    using E2 by (cases "searchAndBrowse tx \<lparr>sq_Query = gq_Query request, sq_Path = path, sq_Limit = gq_Limit request\<rparr> rev r") auto
  note E3 = E2 [unfolded sb rbind.simps prod.case]
  have off: "off \<le> int (length (hv_Children view))" using E3 by (auto split: if_split_asm)
  have path': "(if path = ''/'' then [] else path) = path" by (simp add: path_def)
  note B = searchAndBrowse_Inr [OF sb, unfolded SearchRequest.select_convs path']
  let ?total = "int (length (hv_Children view))" and ?stop = "add64 off (gq_ChildLimit request)"
  let ?response = "\<lparr>go_RankingVersion = so_RankingVersion search, go_Results = so_Results search, go_Path = hv_Path view,
    go_Children = drop (nat off) (take (nat (if ?stop > ?total then ?total else ?stop)) (hv_Children view)), go_TotalChildren = ?total,
    go_NextChildCursor = (if gq_ChildLimit request > 0 \<and> (if ?stop > ?total then ?total else ?stop) < ?total
      then catalog_makeCursor hmac key \<lparr>kc_Path = path, kc_Revision = revision, kc_Offset = (if ?stop > ?total then ?total else ?stop)\<rparr> else [])\<rparr>"
  have g: "\<not> (gq_ChildLimit request < 0 \<or> gq_ChildLimit request > SearchLimitMax)" "\<not> off > ?total" using lim off by auto
  have "catalog_Search tx hmac key request r =
      (if int (length (jsonText (catalogResponseJson ?response))) > BrokerResponseMaxBytes then Inl ErrServiceQuota else Inr ?response)"
    unfolding catalog_Search_def path_def [symmetric] Let_def if_not_P [OF g(1)] start rbind.simps prod.case sb if_not_P [OF g(2)] ..
  then have r: "response = ?response" and size: "int (length (jsonText (catalogResponseJson response))) \<le> BrokerResponseMaxBytes"
    unfolding assms by (auto split: if_splits)
  have "hv_Path view = path" using B(4) by (auto simp: browseLocked_def split: option.splits)
  then show ?thesis
    using that [OF path_def start lim B(1-4) off _ _ _ _ size] B(5) unfolding r by (simp add: min_def)
qed

lemma child_page:
  assumes mac: "mac32 hmac" and s: "catalog_Search tx hmac key request (w_reg w) = Inr r" and lim: "0 < gq_ChildLimit request"
    and start: "catalogStart hmac key request p = Inr (rv, int off)" and path: "p = (if gq_Path request = ''/'' then [] else gq_Path request)"
    and xs: "\<And>v. browseLocked (w_reg w) p = Inr v \<Longrightarrow> hv_Children v = xs"
    and small: "int (length xs) + SearchLimitMax \<le> max_int64" "rg_revision (w_reg w) < 2 ^ 64"
  shows "off \<le> length xs" and "\<exists>n. (off < length xs \<longrightarrow> 0 < n) \<and> off + n \<le> length xs \<and> go_Children r = take n (drop off xs) \<and>
    (case next_child_cursor r of None \<Rightarrow> off + n = length xs
     | Some c \<Rightarrow> off + n < length xs \<and> lists hmac key w xs (off + n) c)"
proof -
  have A: "off \<le> length xs \<and> (\<exists>n. (off < length xs \<longrightarrow> 0 < n) \<and> off + n \<le> length xs \<and> go_Children r = take n (drop off xs) \<and>
    (case next_child_cursor r of None \<Rightarrow> off + n = length xs
     | Some c \<Rightarrow> off + n < length xs \<and> lists hmac key w xs (off + n) c))"
    using s
  proof (rule catalog_Search_Inr)
    fix rev o' path view
    assume P: "path = (if gq_Path request = ''/'' then [] else gq_Path request)" "catalogStart hmac key request path = Inr (rev, o')"
      "gq_ChildLimit request \<le> SearchLimitMax" "list_path path" "browseLocked (w_reg w) path = Inr view" "o' \<le> int (length (hv_Children view))"
      and ch: "go_Children r = drop (nat o') (take (nat (min (add64 o' (gq_ChildLimit request)) (int (length (hv_Children view))))) (hv_Children view))"
      and nx: "go_NextChildCursor r = (if gq_ChildLimit request > 0 \<and> add64 o' (gq_ChildLimit request) < int (length (hv_Children view))
         then catalog_makeCursor hmac key \<lparr>kc_Path = path, kc_Revision = rg_revision (w_reg w), kc_Offset = add64 o' (gq_ChildLimit request)\<rparr> else [])"
    have pp: "path = p" using P(1) path by simp
    have o': "o' = int off" using P(2) start pp by simp
    have v: "hv_Children view = xs" using P(5) pp xs by simp
    let ?L = "nat (gq_ChildLimit request)"
    have L: "gq_ChildLimit request = int ?L" "0 < ?L" "?L \<le> 100" using lim P(3) by (auto simp: SearchLimitMax_def)
    have off: "off \<le> length xs" using P(6) o' v by simp
    have add: "add64 o' (gq_ChildLimit request) = int (off + ?L)"
      using off small(1) L o' by (subst add64_nonneg_id) (auto simp: SearchLimitMax_def)
    define n where "n = min ?L (length xs - off)"
    have items: "go_Children r = take n (drop off xs)"
      unfolding ch [unfolded o'] add [unfolded o'] v n_def using off lim by (simp add: drop_take min_def nat_add_distrib)
    have "case next_child_cursor r of None \<Rightarrow> off + n = length xs
     | Some c \<Rightarrow> off + n < length xs \<and> lists hmac key w xs (off + n) c"
    proof (cases "off + ?L < length xs")
      case True
      let ?c = "\<lparr>kc_Path = p, kc_Revision = rg_revision (w_reg w), kc_Offset = int (off + ?L)\<rparr>"
      have "int off + gq_ChildLimit request < int (length xs)" using True L(1) by linarith
      then have nx': "go_NextChildCursor r = catalog_makeCursor hmac key ?c" using nx add v True lim pp by simp
      have "catalog_parseCursor hmac key (catalog_makeCursor hmac key ?c) = Some ?c"
        using P(4) pp small True by (intro catalog_parse_make) (auto simp: SearchLimitMax_def)
      then have "lists hmac key w xs (off + ?L) (go_NextChildCursor r)"
        unfolding lists_def nx' using mac True small P(4) pp xs by auto
      moreover have "go_NextChildCursor r \<noteq> []" by (simp add: nx' catalog_makeCursor_def)
      ultimately show ?thesis using True by (simp add: next_child_cursor_def n_def)
    next
      case False
      then have "\<not> int off + gq_ChildLimit request < int (length xs)" using L(1) by linarith
      then show ?thesis using False nx add v off by (simp add: next_child_cursor_def n_def)
    qed
    then show ?thesis using off items L(2) n_def by (intro conjI exI [of _ n]) auto
  qed
  show "off \<le> length xs" using A by blast
  show "\<exists>n. (off < length xs \<longrightarrow> 0 < n) \<and> off + n \<le> length xs \<and> go_Children r = take n (drop off xs) \<and>
    (case next_child_cursor r of None \<Rightarrow> off + n = length xs
     | Some c \<Rightarrow> off + n < length xs \<and> lists hmac key w xs (off + n) c)" using A by blast
qed

interpretation catalog_pages: pager "\<lambda>xs. xs" go_Children next_child_cursor "lists hmac key" "listed tx hmac key" "reg_step sha256"
  for hmac key tx sha256
proof
  fix w xs off token r w'
  assume l: "lists hmac key w xs off token" and pg: "listed tx hmac key token w r w'"
  obtain p rv where c: "catalog_parseCursor hmac key token = Some \<lparr>kc_Path = p, kc_Revision = rv, kc_Offset = int off\<rparr>"
    and rest: "rv < rg_revision (w_reg w) \<or>
         (rv = rg_revision (w_reg w) \<and> (\<forall>v. browseLocked (w_reg w) p = Inr v \<longrightarrow> hv_Children v = xs))"
    and ok: "mac32 hmac" "off < length xs" "int (length xs) + SearchLimitMax \<le> max_int64" "list_path p" "rv < 2 ^ 64"
    using l by (auto simp: lists_def)
  obtain request where rq: "gq_ChildCursor request = token" "token \<noteq> []" "0 < gq_ChildLimit request"
    "catalog_Search tx hmac key request (w_reg w) = Inr r" "w' = w" using pg by (auto simp: listed_def)
  define path where "path = (if gq_Path request = ''/'' then [] else gq_Path request)"
  obtain ev eo where start: "catalogStart hmac key request path = Inr (ev, eo)" and ev: "ev = None \<or> ev = Some (rg_revision (w_reg w))"
    using rq(4) by (rule catalog_Search_Inr) (auto simp: path_def)
  have st: "path = p" "ev = Some rv" "eo = int off"
    using start rq(1,2) c by (auto simp: catalogStart_def split: if_splits)
  then have rv: "rv = rg_revision (w_reg w)" using ev by simp
  then have xs: "browseLocked (w_reg w) p = Inr v \<Longrightarrow> hv_Children v = xs" for v using rest by blast
  have "catalogStart hmac key request p = Inr (Some rv, int off)" using start st by simp
  from child_page(2) [OF ok(1) rq(4,3) this _ xs ok(3)] ok(2,5) rv st(1)
  show "\<exists>n. 0 < n \<and> off + n \<le> length xs \<and> go_Children r = take n (drop off xs) \<and>
      (case next_child_cursor r of None \<Rightarrow> off + n = length xs
       | Some c' \<Rightarrow> off + n < length xs \<and> lists hmac key w' xs (off + n) c')"
    unfolding rq(5) path_def by auto
next
  fix w xs off token w'
  assume l: "lists hmac key w xs off token" and st: "reg_step sha256 w w'"
  show "lists hmac key w' xs off token"
    using l reg_step_revision [OF st] unfolding lists_def same_listing_def by (metis order.strict_trans)
qed

text \<open>C24: A listing is complete or refused.  A client that asks for the children of a path and follows the cursors to the
  end, while others install, remove and lease in between, has received every child of the path at the revision
  of its first request exactly once and in order: a page of a later revision is never mixed in, because its cursor
  is refused.\<close>

theorem catalog_listing_complete:
  assumes mac: "mac32 hmac" and first: "gq_ChildCursor request = []" "0 < gq_ChildLimit request"
    and s: "catalog_Search tx hmac key request (w_reg w) = Inr r"
    and view: "browseLocked (w_reg w) (if gq_Path request = ''/'' then [] else gq_Path request) = Inr view"
    and small: "int (length (hv_Children view)) + SearchLimitMax \<le> max_int64" "rg_revision (w_reg w) < 2 ^ 64"
    and walk: "catalog_pages.walk tx hmac key sha256 w (next_child_cursor r) rs w'"
  shows "concat (map go_Children (r # rs)) = hv_Children view"
proof -
  let ?p = "if gq_Path request = ''/'' then [] else gq_Path request"
  have st: "catalogStart hmac key request ?p = Inr (None, int 0)" using first by (simp add: catalogStart_def)
  have xs: "hv_Children v = hv_Children view" if "browseLocked (w_reg w) ?p = Inr v" for v using that view by simp
  obtain n where n: "go_Children r = take n (hv_Children view)"
    "case next_child_cursor r of None \<Rightarrow> n = length (hv_Children view)
     | Some c \<Rightarrow> n < length (hv_Children view) \<and> lists hmac key w (hv_Children view) n c"
    using child_page(2) [OF mac s first(2) st refl xs small] unfolding drop_0 add_0 by blast
  show ?thesis
  proof (cases "next_child_cursor r")
    case None
    then show ?thesis using n catalog_pages.walk_None [OF walk] by simp
  next
    case (Some c)
    then have "concat (map go_Children rs) = drop n (hv_Children view)"
      using catalog_pages.walk_items [OF walk Some] n(2) by simp
    then show ?thesis using n(1) by simp
  qed
qed

section \<open>A listing to evaluate\<close>

definition demo_listing :: CatalogSearchRequest where
  "demo_listing = \<lparr>gq_Query = [], gq_Path = ''/'', gq_Limit = 1, gq_ChildLimit = 1, gq_ChildCursor = []\<rparr>"

definition plain_env :: text_env where
  "plain_env = \<lparr>tx_NFC = (\<lambda>s. s), tx_Fold = (\<lambda>s. s), tx_IsLetter = (\<lambda>r. False), tx_IsNumber = (\<lambda>r. False),
     tx_IsUpper = (\<lambda>r. False), tx_IsLower = (\<lambda>r. False)\<rparr>"

definition demo_children :: "HierarchyEntry list" where
  "demo_children = [\<lparr>he_Path = ''git'', he_CapabilityID = [], he_Name = [], he_Description = [], he_Operations = 0\<rparr>]"

definition demo_listed :: CatalogSearchResponse where
  "demo_listed = \<lparr>go_RankingVersion = SearchRankingVersion, go_Results = [], go_Path = [], go_Children = demo_children,
     go_TotalChildren = 1, go_NextChildCursor = []\<rparr>"

lemma demo_root: "browseLocked (w_reg demo_world) [] = Inr \<lparr>hv_Path = [], hv_CapabilityID = [], hv_Children = demo_children\<rparr>"
  "\<not> rg_closed (w_reg demo_world)" "rg_revision (w_reg demo_world) = 0"
  by code_simp+

lemma demo_blank: "normalizeSearchQuery plain_env [] =
    Inr \<lparr>nt_exact = [], nt_tokens = [], nt_tokenSet = [], nt_tokenBytes = 0, nt_qualifiedIdentifier = False\<rparr>"
  by (simp add: normalizeSearchQuery_def normalizeSearchText_def plain_env_def trimFunc_def normalizeExact_def tokenizeSearchText_def
    runes_def flushToken_def validString_def SearchQueryMaxBytes_def)

lemma demo_list: "catalog_Search plain_env hmac key demo_listing (w_reg demo_world) = Inr demo_listed"
proof -
  have "jsonWeight (catalogResponseJson demo_listed) \<le> 5000"
    by (simp add: catalogResponseJson_def demo_listed_def SearchRankingVersion_def nullableArr_def demo_children_def hierarchyEntryJson_def
      JInt_def intText_def natText.simps [of 0] natText.simps [of "Suc 0"] omitStr_def)
  then have size: "\<not> int (length (jsonText (catalogResponseJson demo_listed))) > BrokerResponseMaxBytes"
    using length_jsonText(1) [of "catalogResponseJson demo_listed"] by (simp add: BrokerResponseMaxBytes_def)
  have sb: "searchAndBrowse plain_env \<lparr>sq_Query = [], sq_Path = [], sq_Limit = 1\<rparr> None (w_reg demo_world) =
      Inr (\<lparr>so_RankingVersion = SearchRankingVersion, so_Results = []\<rparr>, \<lparr>hv_Path = [], hv_CapabilityID = [], hv_Children = demo_children\<rparr>, 0)"
    by (simp add: searchAndBrowse_def demo_blank demo_root SearchLimitMax_def MaxHierarchyPathBytes_def validString_def searchLocked_def)
  have len: "length demo_children = 1" "demo_children \<noteq> []" by (simp_all add: demo_children_def)
  show ?thesis
    using size
    by (simp add: catalog_Search_def demo_listing_def SearchLimitMax_def catalogStart_def sb len add64_nonneg_id max_int64_def
      demo_listed_def [symmetric] del: One_nat_def)
qed

theorem catalog_listing_complete_witness:
  "concat (map go_Children [demo_listed]) = demo_children"
proof -
  have mac: "mac32 (\<lambda>k m. replicate 32 (CHR ''m''))" by (simp add: mac32_def)
  have "next_child_cursor demo_listed = None" by (simp add: next_child_cursor_def demo_listed_def)
  then have w: "catalog_pages.walk plain_env (\<lambda>k m. replicate 32 (CHR ''m'')) [] (\<lambda>x. x) demo_world (next_child_cursor demo_listed) [] demo_world"
    using catalog_pages.walk_done by simp
  show ?thesis
    using catalog_listing_complete [OF mac _ _ demo_list _ _ _ w] demo_root
    by (simp add: demo_listing_def demo_children_def SearchLimitMax_def max_int64_def)
qed

end
