(* ===== verification/Yaml.thy ===== *)
theory Yaml
  imports Json Limits
begin

text \<open>
  Bounded YAML, \<^verbatim>\<open>internal/capability/yaml.go\<close>: the byte scanner that runs before the parser, the check of the node tree
  that runs after it, and the accessors for mappings, sequences and strings.  The parser itself (\<^verbatim>\<open>gopkg.in/yaml.v3\<close>)
  is the parameter \<open>yaml\<close>: the results of the first and of the second \<^verbatim>\<open>Decode\<close> of a decoder over the bytes.
\<close>

section \<open>Nodes\<close>

datatype yaml_kind = DocumentNode | SequenceNode | MappingNode | ScalarNode | AliasNode

datatype yaml_node = YNode (yn_kind: yaml_kind) (yn_tag: string) (yn_value: string) (yn_anchor: string) (yn_content: "yaml_node list")

type_synonym yaml_parser = "bytes \<Rightarrow> yaml_node res \<times> yaml_node res"

record yamlLimits =
  yl_bytes :: int
  yl_depth :: int
  yl_nodes :: int

section \<open>Scanning lines\<close>

definition leadingSpaces :: "string \<Rightarrow> int" where
  "leadingSpaces line = int (length (takeWhile (\<lambda>c. c = CHR '' '') line))"

record scanState =
  sc_nodes :: int
  sc_flowDelta :: int
  sc_singleQuoted :: bool
  sc_doubleQuoted :: bool
  sc_escaped :: bool
  sc_lastSignificant :: char

definition scanResult :: "scanState \<Rightarrow> int \<times> int \<times> bool" where
  "scanResult st =
     (sc_nodes st, sc_flowDelta st, sc_lastSignificant st = CHR ''|'' \<or> sc_lastSignificant st = CHR ''>'')"

text \<open>The effect of a character outside quotes; \<open>first\<close> tells the first character of the line, \<open>rest\<close> what follows.\<close>

definition scanPlain :: "bool \<Rightarrow> char \<Rightarrow> string \<Rightarrow> scanState \<Rightarrow> scanState" where
  "scanPlain first c rest st =
     (let st' =
        (if c = CHR 0x27 then st\<lparr>sc_singleQuoted := True\<rparr>
         else if c = CHR 0x22 then st\<lparr>sc_doubleQuoted := True\<rparr>
         else if c = CHR ''{'' \<or> c = CHR ''['' then st\<lparr>sc_nodes := sc_nodes st + 1, sc_flowDelta := sc_flowDelta st + 1\<rparr>
         else if c = CHR ''}'' \<or> c = CHR '']'' then st\<lparr>sc_flowDelta := sc_flowDelta st - 1\<rparr>
         else if c = CHR '':'' \<or> c = CHR '','' then st\<lparr>sc_nodes := sc_nodes st + 1\<rparr>
         else if c = CHR ''-'' \<and> first \<and> (rest = [] \<or> hd rest = CHR '' '') then st\<lparr>sc_nodes := sc_nodes st + 1\<rparr>
         else st)
      in if c \<noteq> CHR '' '' \<and> c \<noteq> CHR 0x09 then st'\<lparr>sc_lastSignificant := c\<rparr> else st')"

fun scanChars :: "bool \<Rightarrow> string \<Rightarrow> scanState \<Rightarrow> int \<times> int \<times> bool" where
  "scanChars first [] st = scanResult st"
| "scanChars first (c # rest) st =
     (if sc_doubleQuoted st then
        (if sc_escaped st then scanChars False rest (st\<lparr>sc_escaped := False\<rparr>)
         else if c = CHR 0x5C then scanChars False rest (st\<lparr>sc_escaped := True\<rparr>)
         else if c = CHR 0x22 then scanChars False rest (st\<lparr>sc_doubleQuoted := False\<rparr>)
         else scanChars False rest st)
      else if sc_singleQuoted st then
        (if c = CHR 0x27 then
           (if rest \<noteq> [] \<and> hd rest = CHR 0x27 then scanChars False rest st
            else scanChars False rest (st\<lparr>sc_singleQuoted := False\<rparr>))
         else scanChars False rest st)
      else if c = CHR ''#'' then scanResult st
      else scanChars False rest (scanPlain first c rest st))"

definition scanYAMLLine :: "string \<Rightarrow> int \<times> int \<times> bool" where
  "scanYAMLLine line =
     scanChars True line
       \<lparr>sc_nodes = 1, sc_flowDelta = 0, sc_singleQuoted = False, sc_doubleQuoted = False, sc_escaped = False,
        sc_lastSignificant = CHR 0x00\<rparr>"

section \<open>Preflight\<close>

record preflightState =
  pf_indentStack :: "int list"
  pf_flowDepth :: int
  pf_nodes :: int
  pf_blockIndent :: int

text \<open>The stack of indentations is kept with its top in front.\<close>

fun popIndent :: "int \<Rightarrow> int list \<Rightarrow> int list" where
  "popIndent indent (t # second # stack) =
     (if indent \<le> t then popIndent indent (second # stack) else t # second # stack)"
| "popIndent indent stack = stack"

definition preflightLine :: "yamlLimits \<Rightarrow> string \<Rightarrow> preflightState \<Rightarrow> preflightState res" where
  "preflightLine limits rawLine st =
     (let line = trimSuffix rawLine [CHR 0x0D]; indent = leadingSpaces line; trimmed = trimFunc isSpace line
      in if trimmed = [] \<or> hd trimmed = CHR ''#'' then Inr st
         else if pf_blockIndent st \<ge> 0 \<and> indent > pf_blockIndent st then Inr st
         else let popped = popIndent indent (pf_indentStack st);
                  stack = (if indent > hd popped then indent # popped else popped)
              in if int (length stack) - 1 + pf_flowDepth st > yl_depth limits
                 then Inl (OtherError ''YAML nesting exceeds the limit before parsing'')
                 else let (lineNodes, lineFlow, beginsBlock) = scanYAMLLine trimmed;
                          nodes = pf_nodes st + lineNodes;
                          flowDepth = (if pf_flowDepth st + lineFlow < 0 then 0 else pf_flowDepth st + lineFlow)
                      in if nodes > yl_nodes limits then Inl (OtherError ''YAML syntax exceeds the limit before parsing'')
                         else if int (length stack) - 1 + flowDepth > yl_depth limits
                         then Inl (OtherError ''YAML nesting exceeds the limit before parsing'')
                         else Inr \<lparr>pf_indentStack = stack, pf_flowDepth = flowDepth, pf_nodes = nodes,
                                   pf_blockIndent = (if beginsBlock then indent else -1)\<rparr>)"

fun preflightLines :: "yamlLimits \<Rightarrow> string list \<Rightarrow> preflightState \<Rightarrow> unit res" where
  "preflightLines limits [] st = Inr ()"
| "preflightLines limits (l # ls) st = rbind (preflightLine limits l st) (preflightLines limits ls)"

definition preflightYAML :: "bytes \<Rightarrow> yamlLimits \<Rightarrow> unit res" where
  "preflightYAML data limits =
     preflightLines limits (splitOn (CHR 0x0A) data)
       \<lparr>pf_indentStack = [-1], pf_flowDepth = 0, pf_nodes = 0, pf_blockIndent = -1\<rparr>"

section \<open>Checking the node tree\<close>

fun checkKeys :: "yaml_node list \<Rightarrow> string list \<Rightarrow> unit res" where
  "checkKeys (k # v # rest) seen =
     (if yn_value k = ''<<'' then Inl (OtherError ''YAML merge keys are not allowed'')
      else if yn_kind k \<noteq> ScalarNode \<or> yn_tag k \<noteq> ''!!str'' then Inl (OtherError ''YAML mapping keys must be strings'')
      else if yn_value k \<in> set seen then Inl (OtherError ''duplicate YAML mapping key'')
      else checkKeys rest (yn_value k # seen))"
| "checkKeys content seen = Inr ()"

text \<open>The counter behind the pointer \<^verbatim>\<open>count\<close> is passed in and returned.\<close>

fun validateYAMLNode :: "yaml_node \<Rightarrow> int \<Rightarrow> yamlLimits \<Rightarrow> int \<Rightarrow> int res"
  and validateYAMLNodes :: "yaml_node list \<Rightarrow> int \<Rightarrow> yamlLimits \<Rightarrow> int \<Rightarrow> int res" where
  "validateYAMLNode (YNode kind tag value anchor content) depth limits cnt =
     (if depth > yl_depth limits then Inl (OtherError ''YAML nesting exceeds the limit'')
      else if cnt + 1 > yl_nodes limits then Inl (OtherError ''YAML syntax exceeds the limit'')
      else if kind = AliasNode \<or> anchor \<noteq> [] then Inl (OtherError ''YAML anchors and aliases are not allowed'')
      else if kind = MappingNode \<and> odd (length content) then Inl (OtherError ''invalid YAML mapping'')
      else rbind (if kind = MappingNode then checkKeys content [] else Inr ()) (\<lambda>_.
        validateYAMLNodes content (depth + 1) limits (cnt + 1)))"
| "validateYAMLNodes [] depth limits cnt = Inr cnt"
| "validateYAMLNodes (child # rest) depth limits cnt =
     rbind (validateYAMLNode child depth limits cnt) (\<lambda>n. validateYAMLNodes rest depth limits n)"

definition parseBoundedYAML :: "yaml_parser \<Rightarrow> bytes \<Rightarrow> yamlLimits \<Rightarrow> yaml_node res" where
  "parseBoundedYAML yaml data limits =
     (if int (length data) > yl_bytes limits then Inl (OtherError ''encoded YAML exceeds the limit'')
      else if \<not> validString data then Inl (OtherError ''YAML is not valid UTF-8'')
      else if indexByte data (CHR 0x00) \<ge> 0 then Inl (OtherError ''YAML contains a NUL byte'')
      else rbind (preflightYAML data limits) (\<lambda>_.
        case yaml data of
          (Inl e, extra) \<Rightarrow> Inl (OtherError ''invalid YAML'')
        | (Inr document, extra) \<Rightarrow>
          if (case extra of Inl e \<Rightarrow> False | Inr x \<Rightarrow> yn_content x \<noteq> [])
          then Inl (OtherError ''multiple YAML documents are not allowed'')
          else if length (yn_content document) \<noteq> 1 then Inl (OtherError ''YAML document is empty'')
          else rbind (validateYAMLNode (hd (yn_content document)) 1 limits 0) (\<lambda>_. Inr (hd (yn_content document)))))"

section \<open>Accessors\<close>

text \<open>
  A field that is absent from a map is a nil pointer, \<^const>\<open>None\<close>.  A mapping of odd length, which the check of the tree
  excludes, would make Go panic.
\<close>

fun mappingFields :: "string list \<Rightarrow> string \<Rightarrow> yaml_node list \<Rightarrow> (string, yaml_node) gomap \<Rightarrow> (string, yaml_node) gomap res" where
  "mappingFields allowed path [] result = Inr result"
| "mappingFields allowed path (k # rest) result =
     (if yn_value k \<notin> set allowed then Inl (PackageError ''package_manifest_unknown_field'' (path @ ''.'' @ yn_value k))
      else case rest of
             [] \<Rightarrow> Inl (OtherError ''panic: index out of range'')
           | v # rest' \<Rightarrow> mappingFields allowed path rest' (put (yn_value k) v result))"

definition mapping :: "yaml_node \<Rightarrow> string \<Rightarrow> string list \<Rightarrow> (string, yaml_node) gomap res" where
  "mapping node path allowed =
     (if yn_kind node \<noteq> MappingNode then Inl (PackageError ''package_manifest_type_invalid'' path)
      else mappingFields allowed path (yn_content node) [])"

definition requiredField :: "(string, yaml_node) gomap \<Rightarrow> string \<Rightarrow> string \<Rightarrow> yaml_node res" where
  "requiredField flds name path =
     of_option (PackageError ''package_manifest_required_field'' (path @ ''.'' @ name)) (get flds name)"

definition scalarString :: "yaml_node option \<Rightarrow> string \<Rightarrow> string res" where
  "scalarString node path =
     (case node of None \<Rightarrow> Inl (PackageError ''package_manifest_type_invalid'' path)
      | Some n \<Rightarrow> if yn_kind n \<noteq> ScalarNode \<or> yn_tag n \<noteq> ''!!str'' then Inl (PackageError ''package_manifest_type_invalid'' path)
                 else Inr (yn_value n))"

definition optionalString :: "(string, yaml_node) gomap \<Rightarrow> string \<Rightarrow> string \<Rightarrow> string res" where
  "optionalString flds name path =
     (case get flds name of None \<Rightarrow> Inr [] | Some n \<Rightarrow> scalarString (Some n) (path @ ''.'' @ name))"

definition sequence :: "yaml_node option \<Rightarrow> string \<Rightarrow> yaml_node list res" where
  "sequence node path =
     (case node of None \<Rightarrow> Inr []
      | Some n \<Rightarrow> if yn_kind n \<noteq> SequenceNode then Inl (PackageError ''package_manifest_type_invalid'' path)
                 else Inr (yn_content n))"

end
