(* ===== verification/Manifest.thy ===== *)
theory Manifest
  imports Yaml Patterns Records
begin

text \<open>
  Parsing and validating a package manifest, \<^verbatim>\<open>internal/capability/manifest.go\<close>.  Unicode normalisation to NFC
  (\<^verbatim>\<open>golang.org/x/text/unicode/norm\<close>) is the parameter \<open>nfc\<close>, the YAML parser the parameter \<open>yaml\<close>.  A loop over the
  items of a sequence is \<open>foldItems\<close> over the state that the loop carries; a Go map used as a set is the list of its
  members.
\<close>

section \<open>Loops and errors\<close>

fun foldItems :: "(nat \<Rightarrow> 'a \<Rightarrow> 's \<Rightarrow> 's res) \<Rightarrow> nat \<Rightarrow> 'a list \<Rightarrow> 's \<Rightarrow> 's res" where
  "foldItems f i [] st = Inr st"
| "foldItems f i (x # xs) st = rbind (f i x st) (foldItems f (Suc i) xs)"

definition manifestAPIVersion :: string where "manifestAPIVersion = ''tappet.gearboxlogic.dev/v1alpha1''"
definition manifestKind :: string where "manifestKind = ''Capability''"

definition countLimitError :: "string \<Rightarrow> error" where
  "countLimitError fieldPath = PackageError ''package_count_limit_exceeded'' fieldPath"

definition duplicateError :: "string \<Rightarrow> error" where
  "duplicateError fieldPath = PackageError ''package_duplicate_reference'' fieldPath"

definition indexed :: "string \<Rightarrow> nat \<Rightarrow> string" where
  "indexed path i = path @ ''['' @ natText i @ '']''"

section \<open>Fields\<close>

definition requiredString :: "(string, yaml_node) gomap \<Rightarrow> string \<Rightarrow> string \<Rightarrow> string res" where
  "requiredString flds name path =
     rbind (requiredField flds name path) (\<lambda>node. scalarString (Some node) (path @ ''.'' @ name))"

definition validateRequiredText :: "string \<Rightarrow> string \<Rightarrow> int \<Rightarrow> unit res" where
  "validateRequiredText fieldPath value maxBytes =
     (if value = [] then Inl (PackageError ''package_field_invalid'' fieldPath)
      else if \<not> validString value then Inl (PackageError ''package_field_invalid'' fieldPath)
      else if int (length value) > maxBytes then Inl (PackageError ''package_field_limit_exceeded'' fieldPath)
      else Inr ())"

definition requiredNormalizedID ::
  "(string \<Rightarrow> string) \<Rightarrow> (string, yaml_node) gomap \<Rightarrow> string \<Rightarrow> string \<Rightarrow> int \<Rightarrow> string res" where
  "requiredNormalizedID nfc flds name itemPath maxBytes =
     rbind (requiredString flds name itemPath) (\<lambda>raw.
       let value = nfc raw
       in rbind (validateRequiredText (itemPath @ ''.'' @ name) value maxBytes) (\<lambda>_.
          if \<not> localIDPattern value then Inl (PackageError ''package_identifier_invalid'' (itemPath @ ''.'' @ name))
          else Inr value))"

definition parseStringItem :: "(string \<Rightarrow> string) \<Rightarrow> string \<Rightarrow> int \<Rightarrow> nat \<Rightarrow> yaml_node \<Rightarrow> string list \<Rightarrow> string list res" where
  "parseStringItem nfc fieldPath maxItemBytes i item result =
     rbind (scalarString (Some item) (indexed fieldPath i)) (\<lambda>raw.
       let value = nfc raw
       in if int (length value) > maxItemBytes
          then Inl (PackageError ''package_field_limit_exceeded'' (indexed fieldPath i))
          else Inr (result @ [value]))"

definition parseStringSequence ::
  "(string \<Rightarrow> string) \<Rightarrow> yaml_node option \<Rightarrow> string \<Rightarrow> int \<Rightarrow> int \<Rightarrow> string list res" where
  "parseStringSequence nfc node fieldPath maxItems maxItemBytes =
     rbind (sequence node fieldPath) (\<lambda>items.
       if int (length items) > maxItems then Inl (countLimitError fieldPath)
       else foldItems (parseStringItem nfc fieldPath maxItemBytes) 0 items [])"

definition normalizePackagePath :: "(string \<Rightarrow> string) \<Rightarrow> string \<Rightarrow> int \<Rightarrow> string \<Rightarrow> string res" where
  "normalizePackagePath nfc raw maxBytes fieldPath =
     (let value = nfc raw
      in rbind (validateRequiredText fieldPath value maxBytes) (\<lambda>_.
         if containsString value [CHR 0x5C] \<or> hasPrefix value ''/'' \<or> CHR 0x00 \<in> set value
         then Inl (PackageError ''package_path_invalid'' fieldPath)
         else let cleaned = pathClean value
              in if cleaned = ''.'' \<or> cleaned = ''..'' \<or> hasPrefix cleaned ''../'' \<or> cleaned \<noteq> value
                 then Inl (PackageError ''package_path_invalid'' fieldPath)
                 else Inr cleaned))"

section \<open>Metadata\<close>

definition parseTag :: "(string \<Rightarrow> string) \<Rightarrow> nat \<Rightarrow> string \<Rightarrow> string list \<times> int \<Rightarrow> (string list \<times> int) res" where
  "parseTag nfc i raw st =
     (let tag = nfc raw; (tags, tagBytes) = st
      in if tag = [] then Inl (PackageError ''package_field_invalid'' (indexed ''manifest.metadata.tags'' i))
         else if tag \<in> set tags then Inl (PackageError ''package_duplicate_reference'' (indexed ''manifest.metadata.tags'' i))
         else Inr (tags @ [tag], tagBytes + int (length tag)))"

definition parseTags :: "(string \<Rightarrow> string) \<Rightarrow> (string, yaml_node) gomap \<Rightarrow> string list res" where
  "parseTags nfc flds =
     rbind (parseStringSequence nfc (get flds ''tags'') ''manifest.metadata.tags'' MaxTags MaxTagBytes) (\<lambda>raw.
     rbind (foldItems (parseTag nfc) 0 raw ([], 0)) (\<lambda>(tags, tagBytes).
       if tagBytes > MaxAllTagsBytes then Inl (PackageError ''package_field_limit_exceeded'' ''manifest.metadata.tags'')
       else Inr tags))"

definition parseMetadata :: "(string \<Rightarrow> string) \<Rightarrow> yaml_node \<Rightarrow> Metadata res" where
  "parseMetadata nfc node =
     (let path = ''manifest.metadata''
      in rbind (mapping node path [''id'', ''name'', ''version'', ''description'', ''tags'']) (\<lambda>flds.
         rbind (requiredString flds ''id'' path) (\<lambda>rawID.
         rbind (requiredString flds ''name'' path) (\<lambda>rawName.
         rbind (requiredString flds ''version'' path) (\<lambda>rawVersion.
         rbind (requiredString flds ''description'' path) (\<lambda>rawDescription.
           let ident = nfc rawID; name = nfc rawName; version = nfc rawVersion; description = nfc rawDescription
           in rbind (validateRequiredText ''manifest.metadata.id'' ident MaxCapabilityIDBytes) (\<lambda>_.
              if \<not> capabilityIDPattern ident then Inl (PackageError ''package_capability_id_invalid'' ''manifest.metadata.id'')
              else
              rbind (validateRequiredText ''manifest.metadata.name'' name MaxNameBytes) (\<lambda>_.
              rbind (validateRequiredText ''manifest.metadata.version'' version MaxVersionBytes) (\<lambda>_.
              if \<not> semverPattern version then Inl (PackageError ''package_version_invalid'' ''manifest.metadata.version'')
              else
              rbind (validateRequiredText ''manifest.metadata.description'' description MaxDescriptionBytes) (\<lambda>_.
              rbind (parseTags nfc flds) (\<lambda>tags.
                Inr \<lparr>md_ID = ident, md_Name = name, md_Version = version, md_Description = description, md_Tags = tags\<rparr>)))))))))))"

section \<open>Specification\<close>

text \<open>Each loop carries the identifiers (or paths) seen so far beside its result.\<close>

definition parseProvider ::
  "(string \<Rightarrow> string) \<Rightarrow> nat \<Rightarrow> yaml_node \<Rightarrow> string list \<times> ProviderBinding list \<Rightarrow> (string list \<times> ProviderBinding list) res" where
  "parseProvider nfc i item st =
     (let itemPath = indexed ''manifest.spec.providers'' i; (seen, result) = st
      in rbind (mapping item itemPath [''id'', ''type'', ''serverRef'']) (\<lambda>flds.
         rbind (requiredNormalizedID nfc flds ''id'' itemPath MaxProviderIDBytes) (\<lambda>ident.
         if ident \<in> set seen then Inl (duplicateError (itemPath @ ''.id''))
         else
         rbind (requiredString flds ''type'' itemPath) (\<lambda>providerType.
         rbind (validateRequiredText (itemPath @ ''.type'') providerType MaxProviderTypeBytes) (\<lambda>_.
         if providerType \<noteq> ''mcp'' then Inl (PackageError ''package_provider_type_unsupported'' (itemPath @ ''.type''))
         else
         rbind (requiredString flds ''serverRef'' itemPath) (\<lambda>rawRef.
           let serverRef = nfc rawRef
           in rbind (validateRequiredText (itemPath @ ''.serverRef'') serverRef MaxServerRefBytes) (\<lambda>_.
              Inr (seen @ [ident], result @ [\<lparr>pb_ID = ident, pb_Type = providerType, pb_ServerRef = serverRef\<rparr>]))))))))"

definition parseProviders :: "(string \<Rightarrow> string) \<Rightarrow> yaml_node option \<Rightarrow> ProviderBinding list res" where
  "parseProviders nfc node =
     rbind (sequence node ''manifest.spec.providers'') (\<lambda>items.
       if int (length items) > MaxProviders then Inl (countLimitError ''manifest.spec.providers'')
       else rbind (foldItems (parseProvider nfc) 0 items ([], [])) (\<lambda>(seen, result). Inr result))"

definition parseOperation ::
  "(string \<Rightarrow> string) \<Rightarrow> string list \<Rightarrow> nat \<Rightarrow> yaml_node \<Rightarrow> string list \<times> Operation list \<Rightarrow> (string list \<times> Operation list) res" where
  "parseOperation nfc providers i item st =
     (let itemPath = indexed ''manifest.spec.operations'' i; (seen, result) = st
      in rbind (mapping item itemPath [''id'', ''description'', ''provider'', ''target'']) (\<lambda>flds.
         rbind (requiredNormalizedID nfc flds ''id'' itemPath MaxOperationIDBytes) (\<lambda>ident.
         if ident \<in> set seen then Inl (duplicateError (itemPath @ ''.id''))
         else
         rbind (requiredString flds ''description'' itemPath) (\<lambda>rawDescription.
           let description = nfc rawDescription
           in rbind (validateRequiredText (itemPath @ ''.description'') description MaxOperationDescription) (\<lambda>_.
              rbind (requiredNormalizedID nfc flds ''provider'' itemPath MaxProviderAliasBytes) (\<lambda>provider.
              if provider \<notin> set providers then Inl (PackageError ''package_reference_invalid'' (itemPath @ ''.provider''))
              else
              rbind (requiredString flds ''target'' itemPath) (\<lambda>rawTarget.
                let target = nfc rawTarget
                in rbind (validateRequiredText (itemPath @ ''.target'') target MaxOperationTargetBytes) (\<lambda>_.
                   Inr (seen @ [ident],
                        result @ [\<lparr>op_ID = ident, op_Description = description, op_Provider = provider, op_Target = target\<rparr>]))))))))) "

definition parseOperations :: "(string \<Rightarrow> string) \<Rightarrow> yaml_node option \<Rightarrow> string list \<Rightarrow> Operation list res" where
  "parseOperations nfc node providers =
     rbind (sequence node ''manifest.spec.operations'') (\<lambda>items.
       if int (length items) > MaxOperations then Inl (countLimitError ''manifest.spec.operations'')
       else rbind (foldItems (parseOperation nfc providers) 0 items ([], [])) (\<lambda>(seen, result). Inr result))"

definition parseResource ::
  "(string \<Rightarrow> string) \<Rightarrow> string \<Rightarrow> nat \<Rightarrow> yaml_node \<Rightarrow> string list \<times> string list \<times> SkillResource list \<Rightarrow>
   (string list \<times> string list \<times> SkillResource list) res" where
  "parseResource nfc itemPath i item st =
     (let resourcePath = indexed (itemPath @ ''.resources'') i; (seenIDs, seenPaths, result) = st
      in rbind (mapping item resourcePath [''id'', ''kind'', ''path'']) (\<lambda>flds.
         rbind (requiredNormalizedID nfc flds ''id'' resourcePath MaxResourceIDBytes) (\<lambda>ident.
         if ident \<in> set seenIDs then Inl (duplicateError (resourcePath @ ''.id''))
         else
         rbind (requiredString flds ''kind'' resourcePath) (\<lambda>kind.
         if int (length kind) > MaxResourceKindBytes \<or> kind \<noteq> ''reference''
         then Inl (PackageError ''package_resource_kind_unsupported'' (resourcePath @ ''.kind''))
         else
         rbind (requiredString flds ''path'' resourcePath) (\<lambda>rawPath.
         rbind (normalizePackagePath nfc rawPath MaxResourcePathBytes (resourcePath @ ''.path'')) (\<lambda>localPath.
         if localPath \<in> set seenPaths then Inl (duplicateError (resourcePath @ ''.path''))
         else Inr (seenIDs @ [ident], seenPaths @ [localPath],
                   result @ [\<lparr>sr_ID = ident, sr_Kind = kind, sr_Path = localPath\<rparr>])))))))"

definition parseSkillDeclaration ::
  "(string \<Rightarrow> string) \<Rightarrow> nat \<Rightarrow> yaml_node \<Rightarrow> string list \<times> int \<times> SkillDeclaration list \<Rightarrow>
   (string list \<times> int \<times> SkillDeclaration list) res" where
  "parseSkillDeclaration nfc i item st =
     (let itemPath = indexed ''manifest.spec.skills'' i; (seenPaths, totalResources, result) = st
      in rbind (mapping item itemPath [''path'', ''resources'']) (\<lambda>flds.
         rbind (requiredString flds ''path'' itemPath) (\<lambda>rawPath.
         rbind (normalizePackagePath nfc rawPath MaxSkillPathBytes (itemPath @ ''.path'')) (\<lambda>skillPath.
         if skillPath \<in> set seenPaths then Inl (duplicateError (itemPath @ ''.path''))
         else
         rbind (sequence (get flds ''resources'') (itemPath @ ''.resources'')) (\<lambda>resourceNodes.
         if int (length resourceNodes) > MaxResourcesPerSkill then Inl (countLimitError (itemPath @ ''.resources''))
         else if totalResources + int (length resourceNodes) > MaxSkillResources
         then Inl (countLimitError ''manifest.spec.skills.resources'')
         else
         rbind (foldItems (parseResource nfc itemPath) 0 resourceNodes ([], [], [])) (\<lambda>(seenIDs, seenResourcePaths, resources).
           Inr (seenPaths @ [skillPath], totalResources + int (length resourceNodes),
                result @ [\<lparr>sd_Path = skillPath, sd_Resources = resources\<rparr>])))))))"

definition parseSkills :: "(string \<Rightarrow> string) \<Rightarrow> yaml_node option \<Rightarrow> SkillDeclaration list res" where
  "parseSkills nfc node =
     rbind (sequence node ''manifest.spec.skills'') (\<lambda>items.
       if int (length items) > MaxSkills then Inl (countLimitError ''manifest.spec.skills'')
       else rbind (foldItems (parseSkillDeclaration nfc) 0 items ([], 0, [])) (\<lambda>(seenPaths, totalResources, result). Inr result))"

definition parseContextReference ::
  "(string \<Rightarrow> string) \<Rightarrow> nat \<Rightarrow> yaml_node \<Rightarrow> string list \<times> string list \<times> ContextReference list \<Rightarrow>
   (string list \<times> string list \<times> ContextReference list) res" where
  "parseContextReference nfc i item st =
     (let itemPath = indexed ''manifest.spec.context'' i; (seenIDs, seenPaths, result) = st
      in rbind (mapping item itemPath [''id'', ''path'']) (\<lambda>flds.
         rbind (requiredNormalizedID nfc flds ''id'' itemPath MaxContextIDBytes) (\<lambda>ident.
         if ident \<in> set seenIDs then Inl (duplicateError (itemPath @ ''.id''))
         else
         rbind (requiredString flds ''path'' itemPath) (\<lambda>rawPath.
         rbind (normalizePackagePath nfc rawPath MaxContextPathBytes (itemPath @ ''.path'')) (\<lambda>localPath.
         if localPath \<in> set seenPaths then Inl (duplicateError (itemPath @ ''.path''))
         else Inr (seenIDs @ [ident], seenPaths @ [localPath], result @ [\<lparr>cr_ID = ident, cr_Path = localPath\<rparr>]))))))"

definition parseContext :: "(string \<Rightarrow> string) \<Rightarrow> yaml_node option \<Rightarrow> ContextReference list res" where
  "parseContext nfc node =
     rbind (sequence node ''manifest.spec.context'') (\<lambda>items.
       if int (length items) > MaxContextReferences then Inl (countLimitError ''manifest.spec.context'')
       else rbind (foldItems (parseContextReference nfc) 0 items ([], [], [])) (\<lambda>(seenIDs, seenPaths, result). Inr result))"

definition validateParent :: "string \<Rightarrow> string \<Rightarrow> unit res" where
  "validateParent parent capabilityID =
     (if parent = [] then Inr ()
      else if int (length parent) > MaxHierarchyPathBytes \<or> \<not> capabilityIDPattern parent
      then Inl (PackageError ''package_parent_invalid'' ''manifest.spec.parent'')
      else if \<not> hasPrefix capabilityID (parent @ ''.'') then Inl (PackageError ''package_parent_invalid'' ''manifest.spec.parent'')
      else Inr ())"

definition parseSpec :: "(string \<Rightarrow> string) \<Rightarrow> yaml_node \<Rightarrow> string \<Rightarrow> Spec res" where
  "parseSpec nfc node capabilityID =
     rbind (mapping node ''manifest.spec'' [''parent'', ''skills'', ''operations'', ''context'', ''providers'']) (\<lambda>flds.
     rbind (optionalString flds ''parent'' ''manifest.spec'') (\<lambda>rawParent.
       let parent = nfc rawParent
       in rbind (validateParent parent capabilityID) (\<lambda>_.
          rbind (parseProviders nfc (get flds ''providers'')) (\<lambda>providers.
          rbind (parseOperations nfc (get flds ''operations'') (map pb_ID providers)) (\<lambda>operations.
          rbind (parseSkills nfc (get flds ''skills'')) (\<lambda>skills.
          rbind (parseContext nfc (get flds ''context'')) (\<lambda>contextRefs.
            Inr \<lparr>sp_Parent = parent, sp_Skills = skills, sp_Operations = operations, sp_Context = contextRefs,
                 sp_Providers = providers\<rparr>)))))))"

section \<open>Sizes\<close>

definition baseCardJson :: "Manifest \<Rightarrow> json" where
  "baseCardJson m =
     (let md = mf_Metadata m
      in JObj ([(''id'', JStr (md_ID md)), (''name'', JStr (md_Name md)), (''version'', JStr (md_Version md)),
                (''description'', JStr (md_Description md))] @ omitStr ''path'' (sp_Parent (mf_Spec m)) @
               omitArr ''tags'' (map JStr (md_Tags md))))"

definition resourceJson :: "SkillResource \<Rightarrow> json" where
  "resourceJson r = JObj [(''ID'', JStr (sr_ID r)), (''Kind'', JStr (sr_Kind r)), (''Path'', JStr (sr_Path r))]"

definition skillDeclarationJson :: "SkillDeclaration \<Rightarrow> json" where
  "skillDeclarationJson s = JObj [(''Path'', JStr (sd_Path s)), (''Resources'', JArr (map resourceJson (sd_Resources s)))]"

definition structureItems :: "Spec \<Rightarrow> json list" where
  "structureItems spec =
     concat (map (\<lambda>item. skillDeclarationJson item # map resourceJson (sd_Resources item)) (sp_Skills spec)) @
     map (\<lambda>x. JObj [(''ID'', JStr (op_ID x)), (''Description'', JStr (op_Description x)), (''Provider'', JStr (op_Provider x)),
                    (''Target'', JStr (op_Target x))]) (sp_Operations spec) @
     map (\<lambda>x. JObj [(''ID'', JStr (cr_ID x)), (''Path'', JStr (cr_Path x))]) (sp_Context spec) @
     map (\<lambda>x. JObj [(''ID'', JStr (pb_ID x)), (''Type'', JStr (pb_Type x)), (''ServerRef'', JStr (pb_ServerRef x))]) (sp_Providers spec)"

definition addItemSize :: "nat \<Rightarrow> json \<Rightarrow> int \<Rightarrow> int res" where
  "addItemSize i item soFar =
     (let encoded = int (length (jsonText item))
      in if encoded > MaxStructureItemBytes
         then Inl (PackageError ''package_structure_limit_exceeded'' (indexed ''manifest.structure'' i))
         else Inr (soFar + encoded))"

definition validateNormalizedSize :: "Manifest \<Rightarrow> unit res" where
  "validateNormalizedSize manifest =
     (if int (length (jsonText (baseCardJson manifest))) > MaxBaseCardBytes
      then Inl (PackageError ''package_structure_limit_exceeded'' ''manifest.metadata'')
      else rbind (foldItems addItemSize 0 (structureItems (mf_Spec manifest)) 0) (\<lambda>total.
           if total > MaxStructureBytes then Inl (PackageError ''package_structure_limit_exceeded'' ''manifest.spec'')
           else Inr ()))"

section \<open>Manifests\<close>

definition manifestLimits :: yamlLimits where
  "manifestLimits = \<lparr>yl_bytes = ManifestMaxBytes, yl_depth = ManifestMaxDepth, yl_nodes = ManifestMaxNodes\<rparr>"

definition ParseManifest :: "yaml_parser \<Rightarrow> (string \<Rightarrow> string) \<Rightarrow> bytes \<Rightarrow> Manifest res" where
  "ParseManifest yaml nfc data =
     (case parseBoundedYAML yaml data manifestLimits of
        Inl e \<Rightarrow> Inl (PackageError ''package_manifest_invalid'' ''tappet.yaml'')
      | Inr root \<Rightarrow>
        rbind (mapping root ''manifest'' [''apiVersion'', ''kind'', ''metadata'', ''spec'']) (\<lambda>flds.
        rbind (requiredField flds ''apiVersion'' ''manifest'') (\<lambda>apiNode.
        rbind (scalarString (Some apiNode) ''manifest.apiVersion'') (\<lambda>apiVersion.
        if apiVersion \<noteq> manifestAPIVersion
        then Inl (PackageError ''package_manifest_version_unsupported'' ''manifest.apiVersion'')
        else
        rbind (requiredField flds ''kind'' ''manifest'') (\<lambda>kindNode.
        rbind (scalarString (Some kindNode) ''manifest.kind'') (\<lambda>kind.
        if kind \<noteq> manifestKind then Inl (PackageError ''package_manifest_kind_unsupported'' ''manifest.kind'')
        else
        rbind (requiredField flds ''metadata'' ''manifest'') (\<lambda>metadataNode.
        rbind (parseMetadata nfc metadataNode) (\<lambda>metadata.
        rbind (requiredField flds ''spec'' ''manifest'') (\<lambda>specNode.
        rbind (parseSpec nfc specNode (md_ID metadata)) (\<lambda>spec.
          let manifest = \<lparr>mf_APIVersion = apiVersion, mf_Kind = kind, mf_Metadata = metadata, mf_Spec = spec\<rparr>
          in rbind (validateNormalizedSize manifest) (\<lambda>_. Inr manifest)))))))))))"

end
