(* ===== verification/Yaml_Props.thy ===== *)
theory Yaml_Props
  imports Yaml
begin

text \<open>
  What bounded YAML guarantees: the check of the node tree accepts exactly the trees within the limits that have no
  aliases, no anchors and only mappings with distinct string keys, and a mapping that passed it behaves as a finite map.
\<close>

section \<open>The accepted trees\<close>

fun node_count :: "yaml_node \<Rightarrow> int" and nodes_count :: "yaml_node list \<Rightarrow> int" where
  "node_count (YNode kind tag value anchor content) = 1 + nodes_count content"
| "nodes_count [] = 0"
| "nodes_count (n # ns) = node_count n + nodes_count ns"

fun node_height :: "yaml_node \<Rightarrow> int" and nodes_height :: "yaml_node list \<Rightarrow> int" where
  "node_height (YNode kind tag value anchor content) = 1 + nodes_height content"
| "nodes_height [] = 0"
| "nodes_height (n # ns) = max (node_height n) (nodes_height ns)"

fun key_nodes :: "yaml_node list \<Rightarrow> yaml_node list" where
  "key_nodes (k # v # rest) = k # key_nodes rest"
| "key_nodes content = []"

definition keys_clean :: "yaml_node list \<Rightarrow> bool" where
  "keys_clean content \<longleftrightarrow>
     even (length content) \<and>
     list_all (\<lambda>k. yn_kind k = ScalarNode \<and> yn_tag k = ''!!str'' \<and> yn_value k \<noteq> ''<<'') (key_nodes content) \<and>
     distinct (map yn_value (key_nodes content))"

fun node_clean :: "yaml_node \<Rightarrow> bool" and nodes_clean :: "yaml_node list \<Rightarrow> bool" where
  "node_clean (YNode kind tag value anchor content) \<longleftrightarrow>
     kind \<noteq> AliasNode \<and> anchor = [] \<and> (kind = MappingNode \<longrightarrow> keys_clean content) \<and> nodes_clean content"
| "nodes_clean [] \<longleftrightarrow> True"
| "nodes_clean (n # ns) \<longleftrightarrow> node_clean n \<and> nodes_clean ns"

lemma node_count_pos [simp]: "0 < node_count n"
  and nodes_count_nonneg [simp]: "0 \<le> nodes_count ns"
  by (induction n and ns rule: node_count_nodes_count.induct) auto

lemma node_height_pos [simp]: "0 < node_height n"
  and nodes_height_nonneg [simp]: "0 \<le> nodes_height ns"
  by (induction n and ns rule: node_height_nodes_height.induct) auto

lemma checkKeys_iff:
  "checkKeys content seen = Inr () \<longleftrightarrow>
     list_all (\<lambda>k. yn_kind k = ScalarNode \<and> yn_tag k = ''!!str'' \<and> yn_value k \<noteq> ''<<'') (key_nodes content) \<and>
     distinct (map yn_value (key_nodes content)) \<and> set (map yn_value (key_nodes content)) \<inter> set seen = {}"
  by (induction content seen rule: checkKeys.induct) auto

lemma validateYAMLNode_iff:
  "validateYAMLNode n depth limits cnt = Inr r \<longleftrightarrow>
     depth + node_height n - 1 \<le> yl_depth limits \<and> cnt + node_count n \<le> yl_nodes limits \<and> node_clean n \<and> r = cnt + node_count n"
  and validateYAMLNodes_iff:
  "depth - 1 \<le> yl_depth limits \<Longrightarrow> cnt \<le> yl_nodes limits \<Longrightarrow>
   validateYAMLNodes ns depth limits cnt = Inr r \<longleftrightarrow>
     depth + nodes_height ns - 1 \<le> yl_depth limits \<and> cnt + nodes_count ns \<le> yl_nodes limits \<and> nodes_clean ns \<and>
     r = cnt + nodes_count ns"
proof (induction n depth limits cnt and ns depth limits cnt arbitrary: r and r
    rule: validateYAMLNode_validateYAMLNodes.induct)
  case (1 kind tag v anchor content depth limits cnt)
  show ?case
  proof (cases "depth \<le> yl_depth limits \<and> cnt + 1 \<le> yl_nodes limits")
    case True
    let ?ok = "kind \<noteq> AliasNode \<and> anchor = [] \<and> (kind = MappingNode \<longrightarrow> keys_clean content)"
    have node: "validateYAMLNode (YNode kind tag v anchor content) depth limits cnt = Inr r \<longleftrightarrow>
        ?ok \<and> validateYAMLNodes content (depth + 1) limits (cnt + 1) = Inr r"
      using True by (simp add: rbind_eq_Inr checkKeys_iff keys_clean_def)
    show ?thesis
    proof (cases ?ok)
      case ok: True
      have "validateYAMLNodes content (depth + 1) limits (cnt + 1) = Inr r \<longleftrightarrow>
        depth + 1 + nodes_height content - 1 \<le> yl_depth limits \<and> cnt + 1 + nodes_count content \<le> yl_nodes limits \<and>
        nodes_clean content \<and> r = cnt + 1 + nodes_count content"
        using True ok by (intro 1) (auto simp: keys_clean_def)
      with node ok show ?thesis by (simp add: add.assoc)
    next
      case False
      with node show ?thesis by auto
    qed
  next
    case False
    then have "\<not> (depth + node_height (YNode kind tag v anchor content) - 1 \<le> yl_depth limits \<and>
      cnt + node_count (YNode kind tag v anchor content) \<le> yl_nodes limits)"
      using nodes_count_nonneg [of content] nodes_height_nonneg [of content] by (auto simp del: nodes_count_nonneg nodes_height_nonneg)
    with False show ?thesis by auto
  qed
next
  case (3 child rest depth limits cnt)
  let ?ok = "depth + node_height child - 1 \<le> yl_depth limits \<and> cnt + node_count child \<le> yl_nodes limits \<and> node_clean child"
  have child: "validateYAMLNode child depth limits cnt = Inr n \<longleftrightarrow> ?ok \<and> n = cnt + node_count child" for n
    by (simp add: 3)
  show ?case
  proof (cases ?ok)
    case True
    then have "validateYAMLNode child depth limits cnt = Inr (cnt + node_count child)" by (simp add: child)
    with True 3 show ?thesis by (auto simp: add.assoc)
  next
    case False
    then have "\<not> (\<exists>n. validateYAMLNode child depth limits cnt = Inr n)" by (simp add: child)
    moreover have "\<not> (depth + nodes_height (child # rest) - 1 \<le> yl_depth limits \<and>
        cnt + nodes_count (child # rest) \<le> yl_nodes limits \<and> node_clean child)"
      using False nodes_count_nonneg [of rest] by (auto simp del: nodes_count_nonneg)
    ultimately show ?thesis by (auto simp: res_simps)
  qed
qed auto

lemma indexByte_mem: "0 \<le> indexByte s c \<longleftrightarrow> c \<in> set s"
  by (induction s) (auto simp: Let_def)

section \<open>Bounded YAML\<close>

text \<open>Bounded YAML accepts exactly: bytes within the byte limit that are UTF-8 without NUL and pass the scanner, that the
  parser reads as one document with one root, where the tree of the root is no deeper than the depth limit, has no more
  nodes than the node limit, no alias, no anchor and no merge key, and only mappings with distinct string keys.
\<close>

theorem parseBoundedYAML_spec:
  "parseBoundedYAML yaml data limits = Inr root \<longleftrightarrow>
     int (length data) \<le> yl_bytes limits \<and> validString data \<and> CHR 0x00 \<notin> set data \<and> preflightYAML data limits = Inr () \<and>
     (\<exists>document extra. yaml data = (Inr document, extra) \<and> yn_content document = [root] \<and>
        (case extra of Inl e \<Rightarrow> True | Inr x \<Rightarrow> yn_content x = [])) \<and>
     node_height root \<le> yl_depth limits \<and> node_count root \<le> yl_nodes limits \<and> node_clean root"
  unfolding parseBoundedYAML_def
  by (auto simp: indexByte_mem res_simps validateYAMLNode_iff length_Suc_conv split: prod.splits sum.splits)

text \<open>A mapping that passed the check is read as the finite map of its pairs.\<close>

fun node_pairs :: "yaml_node list \<Rightarrow> (string \<times> yaml_node) list" where
  "node_pairs (k # v # rest) = (yn_value k, v) # node_pairs rest"
| "node_pairs content = []"

lemma fst_node_pairs: "map fst (node_pairs content) = map yn_value (key_nodes content)"
  by (induction content rule: node_pairs.induct) auto

lemma mappingFields_iff:
  "even (length content) \<Longrightarrow>
   mappingFields allowed path content m = Inr flds \<longleftrightarrow>
     set (map fst (node_pairs content)) \<subseteq> set allowed \<and> flds = fold (\<lambda>(k, v). put k v) (node_pairs content) m"
proof (induction content arbitrary: m rule: node_pairs.induct)
  case (1 k v rest)
  then show ?case by (auto split: if_splits)
qed auto

lemma fold_put_get: "distinct (map fst ps) \<Longrightarrow> get (fold (\<lambda>(k, v). put k v) ps m) = get m ++ map_of ps"
proof (induction ps arbitrary: m)
  case (Cons p ps)
  obtain a b where p: "p = (a, b)" by fastforce
  have "get (put a b m) = (get m)(a \<mapsto> b)" by (auto simp: gomap_simps fun_eq_iff)
  moreover have "map_of ps a = None" using Cons.prems by (simp add: p map_of_eq_None_iff)
  ultimately show ?case using Cons by (auto simp: p map_add_def fun_eq_iff split: option.splits)
qed simp

lemma mapping_fields:
  assumes "mapping node path allowed = Inr flds" and "node_clean node"
  shows "get flds = map_of (node_pairs (yn_content node))" and "dom (get flds) \<subseteq> set allowed"
    and "yn_kind node = MappingNode"
proof -
  obtain kind tag v content where n: "node = YNode kind tag v [] content"
    using assms(2) by (cases node) auto
  have k: "kind = MappingNode" "keys_clean content" and mf: "mappingFields allowed path content [] = Inr flds"
    using assms by (auto simp: n mapping_def split: if_splits)
  have flds: "set (map fst (node_pairs content)) \<subseteq> set allowed" "flds = fold (\<lambda>(k, v). put k v) (node_pairs content) []"
    using mf k(2) by (auto simp: mappingFields_iff keys_clean_def)
  show *: "get flds = map_of (node_pairs (yn_content node))"
    using k(2) by (auto simp: n flds(2) fold_put_get fst_node_pairs keys_clean_def)
  show "dom (get flds) \<subseteq> set allowed" using flds(1) by (auto simp: * n dom_map_of_conv_image_fst)
  show "yn_kind node = MappingNode" using k by (simp add: n)
qed

text \<open>
  The scanner treats the second quote of a doubled quote as the end of a single-quoted scalar: what follows is charged
  although it is quoted, and a quoted number sign hides the rest of the line.
\<close>

lemma scan_doubled_quote:
  "scanYAMLLine ([CHR 0x27] @ ''its: x'' @ [CHR 0x27]) = (1, 0, False)"
  "scanYAMLLine ([CHR 0x27] @ ''it'' @ [CHR 0x27, CHR 0x27] @ ''s: x'' @ [CHR 0x27]) = (2, 0, False)"
  "scanYAMLLine (''['' @ [CHR 0x27] @ ''a'' @ [CHR 0x27, CHR 0x27] @ ''#'' @ [CHR 0x27] @ '', [[x]]]'') = (2, 1, False)"
  by (simp_all add: scanYAMLLine_def scanPlain_def scanResult_def)

end
