(* ===== verification/Paths.thy ===== *)
theory Paths
  imports GoStrings
begin

text \<open>
  Slash-separated relative paths without empty, \<^verbatim>\<open>.\<close> and \<^verbatim>\<open>..\<close> elements, and how \<^verbatim>\<open>path.Clean\<close> and \<^verbatim>\<open>path.Join\<close> treat
  them.  Manifest paths and the loader's file accesses both reduce to them.
\<close>

definition plain_elem :: "string \<Rightarrow> bool" where
  "plain_elem e \<longleftrightarrow> e \<noteq> [] \<and> e \<noteq> ''.'' \<and> e \<noteq> ''..''"

definition plain_path :: "string \<Rightarrow> bool" where
  "plain_path p \<longleftrightarrow> list_all plain_elem (splitOn slash p)"

lemma plain_path_relative: "plain_path p \<Longrightarrow> p \<noteq> [] \<and> hd p \<noteq> slash"
  by (cases p) (auto simp: plain_path_def plain_elem_def split: if_splits)

lemma clean_elems_plain: "list_all plain_elem es \<Longrightarrow> clean_elems rooted acc es = rev acc @ es"
  by (induction es arbitrary: acc) (auto simp: plain_elem_def)

lemma pathClean_plain: "plain_path p \<Longrightarrow> pathClean p = p"
  using plain_path_relative [of p] by (simp add: pathClean_def plain_path_def clean_elems_plain Let_def)

lemma clean_elems_shape:
  "list_all plain_elem ps \<Longrightarrow>
   \<exists>k qs. clean_elems False (ps @ replicate n ''..'') es = replicate k ''..'' @ qs \<and> list_all plain_elem qs"
proof (induction es arbitrary: ps n)
  case Nil
  then show ?case by (intro exI [of _ n] exI [of _ "rev ps"]) simp
next
  case (Cons e es)
  have dots: "\<exists>k qs. clean_elems False (''..'' # replicate n ''..'') es = replicate k ''..'' @ qs \<and> list_all plain_elem qs" for n
    using Cons.IH [of "[]" "Suc n"] by simp
  consider (skip) "e = [] \<or> e = ''.''" | (up) "e = ''..''" | (plain) "plain_elem e"
    by (auto simp: plain_elem_def)
  then show ?case
  proof cases
    case skip
    then show ?thesis using Cons by auto
  next
    case plain
    then show ?thesis using Cons.IH [of "e # ps" n] Cons.prems by (simp add: plain_elem_def)
  next
    case up
    then show ?thesis
    proof (cases ps)
      case Nil
      then show ?thesis using up dots [of n] by (cases n) auto
    next
      case (Cons p qs)
      then show ?thesis using up Cons.IH [of qs n] Cons.prems by (auto simp: plain_elem_def)
    qed
  qed
qed

lemma clean_elems_set: "set (clean_elems rooted acc es) \<subseteq> insert ''..'' (set acc \<union> set es)"
proof (induction es arbitrary: acc)
  case (Cons e es)
  show ?case
    using Cons.IH [of acc] Cons.IH [of "e # acc"] Cons.IH [of "''..'' # acc"] Cons.IH [of "tl acc"] by (cases acc) auto
qed auto

lemma dotdot_prefix: "splitOn slash p = ''..'' # es \<Longrightarrow> p = ''..'' \<or> hasPrefix p ''../''"
proof -
  assume "splitOn slash p = ''..'' # es"
  then have "p = joinWith slash (''..'' # es)" using join_split [of slash p] by simp
  then show ?thesis by (cases es) (auto simp: hasPrefix_iff slash_def)
qed

lemma pathClean_fixed_iff:
  assumes "p \<noteq> []" "hd p \<noteq> slash"
  shows "pathClean p = p \<and> p \<noteq> ''.'' \<and> p \<noteq> ''..'' \<and> \<not> hasPrefix p ''../'' \<longleftrightarrow> plain_path p"
proof
  assume *: "pathClean p = p \<and> p \<noteq> ''.'' \<and> p \<noteq> ''..'' \<and> \<not> hasPrefix p ''../''"
  let ?out = "clean_elems False [] (splitOn slash p)"
  obtain k qs where out: "?out = replicate k ''..'' @ qs" "list_all plain_elem qs"
    using clean_elems_shape [of "[]" 0 "splitOn slash p"] by auto
  have p: "p = joinWith slash ?out" using * assms by (auto simp: pathClean_def Let_def split: if_splits)
  have "?out \<noteq> []" using p assms(1) by auto
  moreover have "\<forall>e \<in> set ?out. slash \<notin> set e"
    using clean_elems_set [of False "[]" "splitOn slash p"] split_parts [of _ slash p] by (auto simp: slash_def)
  ultimately have eq: "splitOn slash p = ?out" using p split_join by metis
  moreover have "k = 0" using dotdot_prefix [of p] * eq out(1) by (cases k) auto
  ultimately show "plain_path p" using out by (simp add: plain_path_def)
next
  assume plain: "plain_path p"
  have "p \<noteq> ''.'' \<and> p \<noteq> ''..''" using plain by (auto simp: plain_path_def plain_elem_def slash_def)
  moreover have "\<not> hasPrefix p ''../''"
    using plain by (auto simp: hasPrefix_iff plain_path_def plain_elem_def slash_def)
  ultimately show "pathClean p = p \<and> p \<noteq> ''.'' \<and> p \<noteq> ''..'' \<and> \<not> hasPrefix p ''../''"
    using pathClean_plain [OF plain] by simp
qed

lemma splitOn_join: "splitOn c (a @ c # b) = splitOn c a @ splitOn c b"
  by (induction a) (auto split: list.splits)

lemma plain_path_join:
  assumes "plain_path a" "plain_path b"
  shows "plain_path (a @ slash # b)" "pathJoin a b = a @ slash # b"
proof -
  show 1: "plain_path (a @ slash # b)" using assms by (simp add: plain_path_def splitOn_join)
  show "pathJoin a b = a @ slash # b"
    using pathClean_plain [OF 1] plain_path_relative [OF assms(1)] plain_path_relative [OF assms(2)]
    by (simp add: pathJoin_def)
qed

end
