(* ===== verification/Manifest_Props.thy ===== *)
theory Manifest_Props
  imports Manifest Yaml_Props Paths Json_Plain
begin

text \<open>
  What a parsed manifest guarantees, and that every manifest with these guarantees can be written and parsed back.
  Of Unicode normalisation only that it is idempotent is used.
\<close>

section \<open>Valid manifests\<close>

definition text_ok :: "(string \<Rightarrow> string) \<Rightarrow> int \<Rightarrow> string \<Rightarrow> bool" where
  "text_ok nfc maxBytes s \<longleftrightarrow> s \<noteq> [] \<and> validString s \<and> int (length s) \<le> maxBytes \<and> nfc s = s"

definition id_ok :: "(string \<Rightarrow> string) \<Rightarrow> int \<Rightarrow> string \<Rightarrow> bool" where
  "id_ok nfc maxBytes s \<longleftrightarrow> text_ok nfc maxBytes s \<and> localIDPattern s"

definition path_ok :: "(string \<Rightarrow> string) \<Rightarrow> int \<Rightarrow> string \<Rightarrow> bool" where
  "path_ok nfc maxBytes s \<longleftrightarrow> text_ok nfc maxBytes s \<and> plain_path s \<and> CHR 0x5C \<notin> set s \<and> CHR 0x00 \<notin> set s"

definition tags_ok :: "(string \<Rightarrow> string) \<Rightarrow> string list \<Rightarrow> bool" where
  "tags_ok nfc tags \<longleftrightarrow>
     int (length tags) \<le> MaxTags \<and> distinct tags \<and> sum_list (map (\<lambda>t. int (length t)) tags) \<le> MaxAllTagsBytes \<and>
     list_all (\<lambda>t. t \<noteq> [] \<and> int (length t) \<le> MaxTagBytes \<and> nfc t = t) tags"

definition metadata_ok :: "(string \<Rightarrow> string) \<Rightarrow> Metadata \<Rightarrow> bool" where
  "metadata_ok nfc md \<longleftrightarrow>
     text_ok nfc MaxCapabilityIDBytes (md_ID md) \<and> capabilityIDPattern (md_ID md) \<and>
     text_ok nfc MaxNameBytes (md_Name md) \<and>
     text_ok nfc MaxVersionBytes (md_Version md) \<and> semverPattern (md_Version md) \<and>
     text_ok nfc MaxDescriptionBytes (md_Description md) \<and> tags_ok nfc (md_Tags md)"

definition provider_ok :: "(string \<Rightarrow> string) \<Rightarrow> ProviderBinding \<Rightarrow> bool" where
  "provider_ok nfc p \<longleftrightarrow>
     id_ok nfc MaxProviderIDBytes (pb_ID p) \<and> pb_Type p = ''mcp'' \<and> text_ok nfc MaxServerRefBytes (pb_ServerRef p)"

definition operation_ok :: "(string \<Rightarrow> string) \<Rightarrow> string list \<Rightarrow> Operation \<Rightarrow> bool" where
  "operation_ok nfc providers x \<longleftrightarrow>
     id_ok nfc MaxOperationIDBytes (op_ID x) \<and> text_ok nfc MaxOperationDescription (op_Description x) \<and>
     id_ok nfc MaxProviderAliasBytes (op_Provider x) \<and> op_Provider x \<in> set providers \<and>
     text_ok nfc MaxOperationTargetBytes (op_Target x)"

definition resource_ok :: "(string \<Rightarrow> string) \<Rightarrow> SkillResource \<Rightarrow> bool" where
  "resource_ok nfc r \<longleftrightarrow>
     id_ok nfc MaxResourceIDBytes (sr_ID r) \<and> sr_Kind r = ''reference'' \<and> path_ok nfc MaxResourcePathBytes (sr_Path r)"

definition skill_ok :: "(string \<Rightarrow> string) \<Rightarrow> SkillDeclaration \<Rightarrow> bool" where
  "skill_ok nfc s \<longleftrightarrow>
     path_ok nfc MaxSkillPathBytes (sd_Path s) \<and> int (length (sd_Resources s)) \<le> MaxResourcesPerSkill \<and>
     list_all (resource_ok nfc) (sd_Resources s) \<and> distinct (map sr_ID (sd_Resources s)) \<and>
     distinct (map sr_Path (sd_Resources s))"

definition context_ok :: "(string \<Rightarrow> string) \<Rightarrow> ContextReference \<Rightarrow> bool" where
  "context_ok nfc c \<longleftrightarrow> id_ok nfc MaxContextIDBytes (cr_ID c) \<and> path_ok nfc MaxContextPathBytes (cr_Path c)"

definition parent_ok :: "(string \<Rightarrow> string) \<Rightarrow> string \<Rightarrow> string \<Rightarrow> bool" where
  "parent_ok nfc capabilityID parent \<longleftrightarrow>
     nfc parent = parent \<and>
     (parent = [] \<or> int (length parent) \<le> MaxHierarchyPathBytes \<and> capabilityIDPattern parent \<and> hasPrefix capabilityID (parent @ ''.''))"

definition resourceCount :: "SkillDeclaration list \<Rightarrow> int" where
  "resourceCount skills = sum_list (map (\<lambda>s. int (length (sd_Resources s))) skills)"

definition spec_ok :: "(string \<Rightarrow> string) \<Rightarrow> string \<Rightarrow> Spec \<Rightarrow> bool" where
  "spec_ok nfc capabilityID sp \<longleftrightarrow>
     parent_ok nfc capabilityID (sp_Parent sp) \<and>
     int (length (sp_Providers sp)) \<le> MaxProviders \<and> list_all (provider_ok nfc) (sp_Providers sp) \<and>
     distinct (map pb_ID (sp_Providers sp)) \<and>
     int (length (sp_Operations sp)) \<le> MaxOperations \<and>
     list_all (operation_ok nfc (map pb_ID (sp_Providers sp))) (sp_Operations sp) \<and> distinct (map op_ID (sp_Operations sp)) \<and>
     int (length (sp_Skills sp)) \<le> MaxSkills \<and> list_all (skill_ok nfc) (sp_Skills sp) \<and> distinct (map sd_Path (sp_Skills sp)) \<and>
     resourceCount (sp_Skills sp) \<le> MaxSkillResources \<and>
     int (length (sp_Context sp)) \<le> MaxContextReferences \<and> list_all (context_ok nfc) (sp_Context sp) \<and>
     distinct (map cr_ID (sp_Context sp)) \<and> distinct (map cr_Path (sp_Context sp))"

definition sizes_ok :: "Manifest \<Rightarrow> bool" where
  "sizes_ok m \<longleftrightarrow>
     int (length (jsonText (baseCardJson m))) \<le> MaxBaseCardBytes \<and>
     list_all (\<lambda>x. int (length (jsonText x)) \<le> MaxStructureItemBytes) (structureItems (mf_Spec m)) \<and>
     sum_list (map (\<lambda>x. int (length (jsonText x))) (structureItems (mf_Spec m))) \<le> MaxStructureBytes"

definition manifest_ok :: "(string \<Rightarrow> string) \<Rightarrow> Manifest \<Rightarrow> bool" where
  "manifest_ok nfc m \<longleftrightarrow>
     mf_APIVersion m = manifestAPIVersion \<and> mf_Kind m = manifestKind \<and> metadata_ok nfc (mf_Metadata m) \<and>
     spec_ok nfc (md_ID (mf_Metadata m)) (mf_Spec m) \<and> sizes_ok m"

lemmas ok_defs = text_ok_def id_ok_def path_ok_def tags_ok_def metadata_ok_def provider_ok_def operation_ok_def resource_ok_def
  skill_ok_def context_ok_def parent_ok_def

section \<open>Loops\<close>

lemma foldItems_inv:
  "foldItems f i xs st = Inr st' \<Longrightarrow> P i st \<Longrightarrow>
   (\<And>j x s s'. x \<in> set xs \<Longrightarrow> f j x s = Inr s' \<Longrightarrow> P j s \<Longrightarrow> P (Suc j) s') \<Longrightarrow> P (i + length xs) st'"
proof (induction xs arbitrary: i st)
  case (Cons x xs)
  obtain s where s: "f i x st = Inr s" "foldItems f (Suc i) xs s = Inr st'" using Cons.prems(1) by (auto simp: res_simps)
  have "P (Suc i + length xs) st'"
  proof (rule Cons.IH [OF s(2)])
    show "P (Suc i) s" using Cons.prems(3) [OF _ s(1) Cons.prems(2)] by simp
  qed (use Cons.prems(3) in auto)
  then show ?case by simp
qed simp

lemma foldItems_build:
  "(\<And>j us y vs. ys = us @ y # vs \<Longrightarrow> f j (nd y) (st (pre @ us)) = Inr (st (pre @ us @ [y]))) \<Longrightarrow>
   foldItems f i (map nd ys) (st pre) = Inr (st (pre @ ys))"
proof (induction ys arbitrary: i pre)
  case (Cons y ys)
  have "f i (nd y) (st pre) = Inr (st (pre @ [y]))" using Cons.prems [of "[]" y ys i] by simp
  moreover have "foldItems f (Suc i) (map nd ys) (st (pre @ [y])) = Inr (st ((pre @ [y]) @ ys))"
  proof (rule Cons.IH)
    fix j us x vs assume "ys = us @ x # vs"
    then show "f j (nd x) (st ((pre @ [y]) @ us)) = Inr (st ((pre @ [y]) @ us @ [x]))"
      using Cons.prems [of "y # us" x vs j] by simp
  qed
  ultimately show ?case by simp
qed simp

section \<open>Fields\<close>

lemma validateRequiredText_iff:
  "validateRequiredText fieldPath s maxBytes = Inr u \<longleftrightarrow> s \<noteq> [] \<and> validString s \<and> int (length s) \<le> maxBytes"
  by (auto simp: validateRequiredText_def)

lemma containsString_single: "containsString s [c] \<longleftrightarrow> c \<in> set s"
  by (induction s) (auto simp: hasPrefix_def)

lemma normalizePackagePath_iff:
  assumes "nfc (nfc raw) = nfc raw"
  shows "normalizePackagePath nfc raw maxBytes fieldPath = Inr p \<longleftrightarrow> p = nfc raw \<and> path_ok nfc maxBytes p"
proof -
  let ?v = "nfc raw"
  show ?thesis
  proof (cases "?v = [] \<or> hd ?v = slash")
    case True
    then have "hasPrefix ?v ''/'' \<or> ?v = []" by (cases ?v) (auto simp: hasPrefix_def slash_def)
    moreover have "\<not> plain_path ?v" using True plain_path_relative by blast
    ultimately show ?thesis
      by (auto simp: normalizePackagePath_def Let_def rbind_eq_Inr validateRequiredText_iff path_ok_def)
  next
    case False
    then have "\<not> hasPrefix ?v ''/''" by (cases ?v) (auto simp: hasPrefix_def slash_def)
    then have "normalizePackagePath nfc raw maxBytes fieldPath = Inr p \<longleftrightarrow>
      (?v \<noteq> [] \<and> validString ?v \<and> int (length ?v) \<le> maxBytes) \<and> CHR 0x5C \<notin> set ?v \<and> CHR 0x00 \<notin> set ?v \<and>
      (pathClean ?v = ?v \<and> ?v \<noteq> ''.'' \<and> ?v \<noteq> ''..'' \<and> \<not> hasPrefix ?v ''../'') \<and> p = ?v"
      by (auto simp: normalizePackagePath_def Let_def rbind_eq_Inr validateRequiredText_iff containsString_single)
    moreover have "pathClean ?v = ?v \<and> ?v \<noteq> ''.'' \<and> ?v \<noteq> ''..'' \<and> \<not> hasPrefix ?v ''../'' \<longleftrightarrow> plain_path ?v"
      using False by (intro pathClean_fixed_iff) auto
    ultimately show ?thesis unfolding path_ok_def text_ok_def using assms by metis
  qed
qed

lemma requiredNormalizedID_ok:
  assumes "requiredNormalizedID nfc flds name itemPath maxBytes = Inr s" and "\<And>x. nfc (nfc x) = nfc x"
  shows "id_ok nfc maxBytes s"
  using assms by (auto simp: requiredNormalizedID_def Let_def res_simps validateRequiredText_iff ok_defs split: if_splits)

lemma parseStringSequence_ok:
  assumes "parseStringSequence nfc node fieldPath maxItems maxItemBytes = Inr raw" and idem: "\<And>x. nfc (nfc x) = nfc x"
  shows "int (length raw) \<le> maxItems \<and> list_all (\<lambda>t. int (length t) \<le> maxItemBytes \<and> nfc t = t) raw"
proof -
  let ?Q = "\<lambda>n result. length result = n \<and> list_all (\<lambda>t. int (length t) \<le> maxItemBytes \<and> nfc t = t) result"
  obtain items where items: "int (length items) \<le> maxItems"
    "foldItems (parseStringItem nfc fieldPath maxItemBytes) 0 items [] = Inr raw"
    using assms(1) by (auto simp: parseStringSequence_def res_simps not_less split: if_splits)
  have "?Q (0 + length items) raw"
    by (rule foldItems_inv [OF items(2)]) (auto simp: parseStringItem_def res_simps Let_def idem split: if_splits)
  then show ?thesis using items by auto
qed

lemma parseTags_ok:
  assumes "parseTags nfc flds = Inr tags" and idem: "\<And>x. nfc (nfc x) = nfc x"
  shows "tags_ok nfc tags"
proof -
  obtain raw b where raw: "parseStringSequence nfc (get flds ''tags'') ''manifest.metadata.tags'' MaxTags MaxTagBytes = Inr raw"
    and fold: "foldItems (parseTag nfc) 0 raw ([], 0) = Inr (tags, b)" and b: "b \<le> MaxAllTagsBytes"
    using assms(1) by (auto simp: parseTags_def res_simps split: if_splits)
  note raw_ok = parseStringSequence_ok [OF raw idem]
  let ?P = "\<lambda>n st. length (fst st) = n \<and> distinct (fst st) \<and> snd st = sum_list (map (\<lambda>t. int (length t)) (fst st)) \<and>
    list_all (\<lambda>t. t \<noteq> [] \<and> int (length t) \<le> MaxTagBytes \<and> nfc t = t) (fst st)"
  have "?P (0 + length raw) (tags, b)"
  proof (rule foldItems_inv [OF fold])
    fix j x s s' assume x: "x \<in> set raw" and step: "parseTag nfc j x s = Inr s'" and inv: "?P j s"
    have "nfc x = x" "int (length x) \<le> MaxTagBytes" using raw_ok x by (auto simp: list_all_iff)
    then have "s' = (fst s @ [x], snd s + int (length x)) \<and> x \<noteq> [] \<and> x \<notin> set (fst s)"
      using step by (auto simp: parseTag_def Let_def split: if_splits prod.splits)
    then show "?P (Suc j) s'" using inv \<open>nfc x = x\<close> \<open>int (length x) \<le> MaxTagBytes\<close> by simp
  qed simp
  then show ?thesis using raw_ok b by (auto simp: tags_ok_def)
qed

lemma parseMetadata_ok:
  assumes "parseMetadata nfc node = Inr md" and idem: "\<And>x. nfc (nfc x) = nfc x"
  shows "metadata_ok nfc md"
  using assms(1)
  by (auto simp: parseMetadata_def Let_def res_simps validateRequiredText_iff metadata_ok_def text_ok_def idem parseTags_ok [OF _ idem]
      split: if_splits)

section \<open>Parsed manifests are valid\<close>

lemma parseProviders_ok:
  assumes "parseProviders nfc node = Inr ps" and idem: "\<And>x. nfc (nfc x) = nfc x"
  shows "int (length ps) \<le> MaxProviders \<and> list_all (provider_ok nfc) ps \<and> distinct (map pb_ID ps)"
proof -
  obtain items seen where items: "int (length items) \<le> MaxProviders"
    and fold: "foldItems (parseProvider nfc) 0 items ([], []) = Inr (seen, ps)"
    using assms(1) by (auto simp: parseProviders_def res_simps not_less split: if_splits)
  let ?P = "\<lambda>n st. length (snd st) = n \<and> fst st = map pb_ID (snd st) \<and> distinct (fst st) \<and> list_all (provider_ok nfc) (snd st)"
  have "?P (0 + length items) (seen, ps)"
  proof (rule foldItems_inv [OF fold])
    fix j x s s' assume step: "parseProvider nfc j x s = Inr s'" and inv: "?P j s"
    obtain p where "s' = (fst s @ [pb_ID p], snd s @ [p])" "pb_ID p \<notin> set (fst s)" "provider_ok nfc p"
      using step requiredNormalizedID_ok [OF _ idem] idem
      by (cases s) (fastforce simp: parseProvider_def Let_def res_simps validateRequiredText_iff provider_ok_def text_ok_def
          split: if_splits)
    then show "?P (Suc j) s'" using inv by auto
  qed simp
  then show ?thesis using items by auto
qed

lemma parseOperations_ok:
  assumes "parseOperations nfc node providers = Inr ops" and idem: "\<And>x. nfc (nfc x) = nfc x"
  shows "int (length ops) \<le> MaxOperations \<and> list_all (operation_ok nfc providers) ops \<and> distinct (map op_ID ops)"
proof -
  obtain items seen where items: "int (length items) \<le> MaxOperations"
    and fold: "foldItems (parseOperation nfc providers) 0 items ([], []) = Inr (seen, ops)"
    using assms(1) by (auto simp: parseOperations_def res_simps not_less split: if_splits)
  let ?P = "\<lambda>n st. length (snd st) = n \<and> fst st = map op_ID (snd st) \<and> distinct (fst st) \<and>
    list_all (operation_ok nfc providers) (snd st)"
  have "?P (0 + length items) (seen, ops)"
  proof (rule foldItems_inv [OF fold])
    fix j x s s' assume step: "parseOperation nfc providers j x s = Inr s'" and inv: "?P j s"
    obtain p where "s' = (fst s @ [op_ID p], snd s @ [p])" "op_ID p \<notin> set (fst s)" "operation_ok nfc providers p"
      using step requiredNormalizedID_ok [OF _ idem] idem
      by (cases s) (fastforce simp: parseOperation_def Let_def res_simps validateRequiredText_iff operation_ok_def text_ok_def
          split: if_splits)
    then show "?P (Suc j) s'" using inv by auto
  qed simp
  then show ?thesis using items by auto
qed

lemma parseResources_ok:
  assumes fold: "foldItems (parseResource nfc itemPath) 0 items ([], [], []) = Inr (ids, paths, rs)" and idem: "\<And>x. nfc (nfc x) = nfc x"
  shows "length rs = length items \<and> list_all (resource_ok nfc) rs \<and> distinct (map sr_ID rs) \<and> distinct (map sr_Path rs)"
proof -
  let ?P = "\<lambda>n (ids, paths, rs). length rs = n \<and> ids = map sr_ID rs \<and> paths = map sr_Path rs \<and> distinct ids \<and> distinct paths \<and>
    list_all (resource_ok nfc) rs"
  have "?P (0 + length items) (ids, paths, rs)"
  proof (rule foldItems_inv [OF fold])
    fix j x s s' assume step: "parseResource nfc itemPath j x s = Inr s'" and inv: "?P j s"
    obtain a b c where s: "s = (a, b, c)" by (cases s)
    obtain p where "s' = (a @ [sr_ID p], b @ [sr_Path p], c @ [p])" "sr_ID p \<notin> set a" "sr_Path p \<notin> set b" "resource_ok nfc p"
      using step requiredNormalizedID_ok [OF _ idem]
      by (fastforce simp: s parseResource_def Let_def res_simps normalizePackagePath_iff [OF idem] resource_ok_def split: if_splits)
    then show "?P (Suc j) s'" using inv by (auto simp: s)
  qed simp
  then show ?thesis by auto
qed

lemma parseSkills_ok:
  assumes "parseSkills nfc node = Inr ss" and idem: "\<And>x. nfc (nfc x) = nfc x"
  shows "int (length ss) \<le> MaxSkills \<and> list_all (skill_ok nfc) ss \<and> distinct (map sd_Path ss) \<and> resourceCount ss \<le> MaxSkillResources"
proof -
  obtain items seen n where items: "int (length items) \<le> MaxSkills"
    and fold: "foldItems (parseSkillDeclaration nfc) 0 items ([], 0, []) = Inr (seen, n, ss)"
    using assms(1) by (auto simp: parseSkills_def res_simps not_less split: if_splits)
  let ?P = "\<lambda>n (seen, m, ss). length ss = n \<and> seen = map sd_Path ss \<and> distinct seen \<and> list_all (skill_ok nfc) ss \<and>
    m = resourceCount ss \<and> m \<le> MaxSkillResources"
  have "?P (0 + length items) (seen, n, ss)"
  proof (rule foldItems_inv [OF fold])
    show "?P 0 ([], 0, [])" by (simp add: resourceCount_def MaxSkillResources_def)
  next
    fix j x s s' assume step: "parseSkillDeclaration nfc j x s = Inr s'" and inv: "?P j s"
    obtain a b c where s: "s = (a, b, c)" by (cases s)
    obtain path nodes ids paths rs where new: "s' = (a @ [path], b + int (length nodes), c @ [\<lparr>sd_Path = path, sd_Resources = rs\<rparr>])"
      "path \<notin> set a" "path_ok nfc MaxSkillPathBytes path" "int (length nodes) \<le> MaxResourcesPerSkill"
      "b + int (length nodes) \<le> MaxSkillResources"
      "foldItems (parseResource nfc (indexed ''manifest.spec.skills'' j)) 0 nodes ([], [], []) = Inr (ids, paths, rs)"
      using step
      by (auto simp: s parseSkillDeclaration_def Let_def res_simps normalizePackagePath_iff [OF idem] not_less split: if_splits)
    then show "?P (Suc j) s'"
      using inv parseResources_ok [OF new(6) idem] by (auto simp: s skill_ok_def resourceCount_def)
  qed
  then show ?thesis using items by auto
qed

lemma parseContext_ok:
  assumes "parseContext nfc node = Inr cs" and idem: "\<And>x. nfc (nfc x) = nfc x"
  shows "int (length cs) \<le> MaxContextReferences \<and> list_all (context_ok nfc) cs \<and> distinct (map cr_ID cs) \<and> distinct (map cr_Path cs)"
proof -
  obtain items ids paths where items: "int (length items) \<le> MaxContextReferences"
    and fold: "foldItems (parseContextReference nfc) 0 items ([], [], []) = Inr (ids, paths, cs)"
    using assms(1) by (auto simp: parseContext_def res_simps not_less split: if_splits)
  let ?P = "\<lambda>n (ids, paths, cs). length cs = n \<and> ids = map cr_ID cs \<and> paths = map cr_Path cs \<and> distinct ids \<and> distinct paths \<and>
    list_all (context_ok nfc) cs"
  have "?P (0 + length items) (ids, paths, cs)"
  proof (rule foldItems_inv [OF fold])
    fix j x s s' assume step: "parseContextReference nfc j x s = Inr s'" and inv: "?P j s"
    obtain a b c where s: "s = (a, b, c)" by (cases s)
    obtain p where "s' = (a @ [cr_ID p], b @ [cr_Path p], c @ [p])" "cr_ID p \<notin> set a" "cr_Path p \<notin> set b" "context_ok nfc p"
      using step requiredNormalizedID_ok [OF _ idem]
      by (fastforce simp: s parseContextReference_def Let_def res_simps normalizePackagePath_iff [OF idem] context_ok_def split: if_splits)
    then show "?P (Suc j) s'" using inv by (auto simp: s)
  qed simp
  then show ?thesis using items by auto
qed

lemma parseSpec_ok:
  assumes "parseSpec nfc node capabilityID = Inr sp" and idem: "\<And>x. nfc (nfc x) = nfc x"
  shows "spec_ok nfc capabilityID sp"
proof -
  obtain f raw ps ops ss cs where parts: "validateParent (nfc raw) capabilityID = Inr ()" "parseProviders nfc (get f ''providers'') = Inr ps"
    "parseOperations nfc (get f ''operations'') (map pb_ID ps) = Inr ops" "parseSkills nfc (get f ''skills'') = Inr ss"
    "parseContext nfc (get f ''context'') = Inr cs"
    and sp: "sp = \<lparr>sp_Parent = nfc raw, sp_Skills = ss, sp_Operations = ops, sp_Context = cs, sp_Providers = ps\<rparr>"
    using assms(1) by (auto simp: parseSpec_def Let_def res_simps)
  have "parent_ok nfc capabilityID (nfc raw)"
    using parts(1) idem by (auto simp: validateParent_def parent_ok_def split: if_splits)
  then show ?thesis
    using parseProviders_ok [OF parts(2) idem] parseOperations_ok [OF parts(3) idem] parseSkills_ok [OF parts(4) idem]
      parseContext_ok [OF parts(5) idem]
    by (simp add: spec_ok_def sp)
qed

lemma foldItems_sizes:
  "foldItems addItemSize i items n = Inr m \<longleftrightarrow>
     list_all (\<lambda>x. int (length (jsonText x)) \<le> MaxStructureItemBytes) items \<and>
     m = n + sum_list (map (\<lambda>x. int (length (jsonText x))) items)"
  by (induction items arbitrary: i n) (auto simp: addItemSize_def Let_def)

lemma validateNormalizedSize_iff: "validateNormalizedSize m = Inr () \<longleftrightarrow> sizes_ok m"
  by (auto simp: validateNormalizedSize_def sizes_ok_def rbind_eq_Inr foldItems_sizes)

section \<open>Valid manifests parse back\<close>

definition strNode :: "string \<Rightarrow> yaml_node" where
  "strNode s = YNode ScalarNode ''!!str'' s [] []"

definition seqNode :: "yaml_node list \<Rightarrow> yaml_node" where
  "seqNode ns = YNode SequenceNode ''!!seq'' [] [] ns"

definition mapNode :: "(string \<times> yaml_node) list \<Rightarrow> yaml_node" where
  "mapNode ps = YNode MappingNode ''!!map'' [] [] (concat (map (\<lambda>(k, v). [strNode k, v]) ps))"

definition providerNode :: "ProviderBinding \<Rightarrow> yaml_node" where
  "providerNode p = mapNode [(''id'', strNode (pb_ID p)), (''type'', strNode (pb_Type p)), (''serverRef'', strNode (pb_ServerRef p))]"

definition operationNode :: "Operation \<Rightarrow> yaml_node" where
  "operationNode x =
     mapNode [(''id'', strNode (op_ID x)), (''description'', strNode (op_Description x)), (''provider'', strNode (op_Provider x)),
              (''target'', strNode (op_Target x))]"

definition resourceNode :: "SkillResource \<Rightarrow> yaml_node" where
  "resourceNode r = mapNode [(''id'', strNode (sr_ID r)), (''kind'', strNode (sr_Kind r)), (''path'', strNode (sr_Path r))]"

definition skillNode :: "SkillDeclaration \<Rightarrow> yaml_node" where
  "skillNode s = mapNode [(''path'', strNode (sd_Path s)), (''resources'', seqNode (map resourceNode (sd_Resources s)))]"

definition contextNode :: "ContextReference \<Rightarrow> yaml_node" where
  "contextNode c = mapNode [(''id'', strNode (cr_ID c)), (''path'', strNode (cr_Path c))]"

definition metadataNode :: "Metadata \<Rightarrow> yaml_node" where
  "metadataNode md =
     mapNode [(''id'', strNode (md_ID md)), (''name'', strNode (md_Name md)), (''version'', strNode (md_Version md)),
              (''description'', strNode (md_Description md)), (''tags'', seqNode (map strNode (md_Tags md)))]"

definition specNode :: "Spec \<Rightarrow> yaml_node" where
  "specNode sp =
     mapNode [(''parent'', strNode (sp_Parent sp)), (''skills'', seqNode (map skillNode (sp_Skills sp))),
              (''operations'', seqNode (map operationNode (sp_Operations sp))),
              (''context'', seqNode (map contextNode (sp_Context sp))),
              (''providers'', seqNode (map providerNode (sp_Providers sp)))]"

definition manifestNode :: "Manifest \<Rightarrow> yaml_node" where
  "manifestNode m =
     mapNode [(''apiVersion'', strNode (mf_APIVersion m)), (''kind'', strNode (mf_Kind m)),
              (''metadata'', metadataNode (mf_Metadata m)), (''spec'', specNode (mf_Spec m))]"

lemma node_pairs_mapNode: "node_pairs (concat (map (\<lambda>(k, v). [strNode k, v]) ps)) = ps"
  by (induction ps) (auto simp: strNode_def)

lemma mapping_mapNode:
  assumes "set (map fst ps) \<subseteq> set allowed" "distinct (map fst ps)"
  shows "\<exists>flds. mapping (mapNode ps) path allowed = Inr flds \<and> get flds = map_of ps"
proof -
  have "even (length (concat (map (\<lambda>(k, v). [strNode k, v]) ps)))" by (induction ps) auto
  from mappingFields_iff [OF this, of allowed path "[]" "fold (\<lambda>(k, v). put k v) ps []"]
  have "mapping (mapNode ps) path allowed = Inr (fold (\<lambda>(k, v). put k v) ps [])"
    using assms(1) by (simp add: mapNode_def mapping_def node_pairs_mapNode)
  moreover have "get (fold (\<lambda>(k, v). put k v) ps []) = map_of ps" using fold_put_get [OF assms(2), of "[]"] by simp
  ultimately show ?thesis by blast
qed

lemma scalarString_strNode [simp]: "scalarString (Some (strNode s)) path = Inr s"
  by (simp add: scalarString_def strNode_def)

lemma sequence_seqNode [simp]: "sequence (Some (seqNode ns)) path = Inr ns"
  by (simp add: sequence_def seqNode_def)

lemma requiredNormalizedID_back:
  assumes "get flds name = Some (strNode s)" "id_ok nfc maxBytes s"
  shows "requiredNormalizedID nfc flds name path maxBytes = Inr s"
proof -
  have "validateRequiredText (path @ ''.'' @ name) s maxBytes = Inr ()" using assms(2) by (simp add: ok_defs validateRequiredText_iff)
  then show ?thesis
    using assms by (simp add: requiredNormalizedID_def requiredString_def requiredField_def of_option_def ok_defs Let_def)
qed

lemma validateRequiredText_back: "text_ok nfc maxBytes s \<Longrightarrow> validateRequiredText path s maxBytes = Inr ()"
  by (simp add: validateRequiredText_iff text_ok_def)

lemma requiredString_back: "get flds name = Some (strNode s) \<Longrightarrow> requiredString flds name path = Inr s"
  by (simp add: requiredString_def requiredField_def of_option_def)

lemma normalizePackagePath_back: "path_ok nfc maxBytes s \<Longrightarrow> normalizePackagePath nfc s maxBytes fieldPath = Inr s"
  by (subst normalizePackagePath_iff) (auto simp: path_ok_def text_ok_def)

lemmas parse_back = requiredNormalizedID_back validateRequiredText_back requiredString_back normalizePackagePath_back

lemma parseProviders_back:
  assumes "int (length ps) \<le> MaxProviders" "list_all (provider_ok nfc) ps" "distinct (map pb_ID ps)"
  shows "parseProviders nfc (Some (seqNode (map providerNode ps))) = Inr ps"
proof -
  let ?st = "\<lambda>us. (map pb_ID us, us)"
  have "foldItems (parseProvider nfc) 0 (map providerNode ps) (?st []) = Inr (?st ([] @ ps))"
  proof (rule foldItems_build)
    fix j us y vs assume ps: "ps = us @ y # vs"
    let ?path = "indexed ''manifest.spec.providers'' j"
    obtain f where f: "mapping (providerNode y) ?path [''id'', ''type'', ''serverRef''] = Inr f"
      "get f = map_of [(''id'', strNode (pb_ID y)), (''type'', strNode (pb_Type y)), (''serverRef'', strNode (pb_ServerRef y))]"
      unfolding providerNode_def
      using mapping_mapNode [of "[(''id'', strNode (pb_ID y)), (''type'', strNode (pb_Type y)), (''serverRef'', strNode (pb_ServerRef y))]"
          "[''id'', ''type'', ''serverRef'']" ?path] by auto
    have y: "id_ok nfc MaxProviderIDBytes (pb_ID y)" "pb_Type y = ''mcp''" "text_ok nfc MaxServerRefBytes (pb_ServerRef y)"
      "nfc (pb_ServerRef y) = pb_ServerRef y" "pb_ID y \<notin> set (map pb_ID us)"
      using assms ps by (auto simp: provider_ok_def text_ok_def)
    have "validateRequiredText (?path @ ''.type'') ''mcp'' MaxProviderTypeBytes = Inr ()"
      by (simp add: validateRequiredText_iff MaxProviderTypeBytes_def validString_def byteN_def)
    then show "parseProvider nfc j (providerNode y) (?st ([] @ us)) = Inr (?st ([] @ us @ [y]))"
      using y f by (simp add: parseProvider_def Let_def parse_back)
  qed
  then show ?thesis using assms(1) by (simp add: parseProviders_def)
qed

lemma parseOperations_back:
  assumes "int (length xs) \<le> MaxOperations" "list_all (operation_ok nfc providers) xs" "distinct (map op_ID xs)"
  shows "parseOperations nfc (Some (seqNode (map operationNode xs))) providers = Inr xs"
proof -
  let ?st = "\<lambda>us. (map op_ID us, us)"
  have "foldItems (parseOperation nfc providers) 0 (map operationNode xs) (?st []) = Inr (?st ([] @ xs))"
  proof (rule foldItems_build)
    fix j us y vs assume xs: "xs = us @ y # vs"
    let ?path = "indexed ''manifest.spec.operations'' j"
    let ?ps = "[(''id'', strNode (op_ID y)), (''description'', strNode (op_Description y)), (''provider'', strNode (op_Provider y)),
      (''target'', strNode (op_Target y))]"
    obtain f where f: "mapping (operationNode y) ?path [''id'', ''description'', ''provider'', ''target''] = Inr f" "get f = map_of ?ps"
      unfolding operationNode_def using mapping_mapNode [of ?ps "[''id'', ''description'', ''provider'', ''target'']" ?path] by auto
    have y: "id_ok nfc MaxOperationIDBytes (op_ID y)" "text_ok nfc MaxOperationDescription (op_Description y)"
      "id_ok nfc MaxProviderAliasBytes (op_Provider y)" "op_Provider y \<in> set providers" "text_ok nfc MaxOperationTargetBytes (op_Target y)"
      "nfc (op_Description y) = op_Description y" "nfc (op_Target y) = op_Target y" "op_ID y \<notin> set (map op_ID us)"
      using assms xs by (auto simp: operation_ok_def text_ok_def)
    then show "parseOperation nfc providers j (operationNode y) (?st ([] @ us)) = Inr (?st ([] @ us @ [y]))"
      using f by (simp add: parseOperation_def Let_def parse_back)
  qed
  then show ?thesis using assms(1) by (simp add: parseOperations_def)
qed

lemma parseResources_back:
  assumes "list_all (resource_ok nfc) rs" "distinct (map sr_ID rs)" "distinct (map sr_Path rs)"
  shows "foldItems (parseResource nfc itemPath) 0 (map resourceNode rs) ([], [], []) = Inr (map sr_ID rs, map sr_Path rs, rs)"
proof -
  let ?st = "\<lambda>us. (map sr_ID us, map sr_Path us, us)"
  have "foldItems (parseResource nfc itemPath) 0 (map resourceNode rs) (?st []) = Inr (?st ([] @ rs))"
  proof (rule foldItems_build)
    fix j us y vs assume rs: "rs = us @ y # vs"
    let ?path = "indexed (itemPath @ ''.resources'') j"
    let ?ps = "[(''id'', strNode (sr_ID y)), (''kind'', strNode (sr_Kind y)), (''path'', strNode (sr_Path y))]"
    obtain f where f: "mapping (resourceNode y) ?path [''id'', ''kind'', ''path''] = Inr f" "get f = map_of ?ps"
      unfolding resourceNode_def using mapping_mapNode [of ?ps "[''id'', ''kind'', ''path'']" ?path] by auto
    have y: "id_ok nfc MaxResourceIDBytes (sr_ID y)" "sr_Kind y = ''reference''" "path_ok nfc MaxResourcePathBytes (sr_Path y)"
      "sr_ID y \<notin> set (map sr_ID us)" "sr_Path y \<notin> set (map sr_Path us)"
      using assms rs by (auto simp: resource_ok_def)
    then show "parseResource nfc itemPath j (resourceNode y) (?st ([] @ us)) = Inr (?st ([] @ us @ [y]))"
      using f by (simp add: parseResource_def Let_def parse_back MaxResourceKindBytes_def)
  qed
  then show ?thesis by simp
qed

lemma parseSkills_back:
  assumes "int (length ss) \<le> MaxSkills" "list_all (skill_ok nfc) ss" "distinct (map sd_Path ss)" "resourceCount ss \<le> MaxSkillResources"
  shows "parseSkills nfc (Some (seqNode (map skillNode ss))) = Inr ss"
proof -
  let ?st = "\<lambda>us. (map sd_Path us, resourceCount us, us)"
  have "foldItems (parseSkillDeclaration nfc) 0 (map skillNode ss) (?st []) = Inr (?st ([] @ ss))"
  proof (rule foldItems_build)
    fix j us y vs assume ss: "ss = us @ y # vs"
    let ?path = "indexed ''manifest.spec.skills'' j"
    let ?ps = "[(''path'', strNode (sd_Path y)), (''resources'', seqNode (map resourceNode (sd_Resources y)))]"
    obtain f where f: "mapping (skillNode y) ?path [''path'', ''resources''] = Inr f" "get f = map_of ?ps"
      unfolding skillNode_def using mapping_mapNode [of ?ps "[''path'', ''resources'']" ?path] by auto
    have y: "path_ok nfc MaxSkillPathBytes (sd_Path y)" "int (length (sd_Resources y)) \<le> MaxResourcesPerSkill"
      "list_all (resource_ok nfc) (sd_Resources y)" "distinct (map sr_ID (sd_Resources y))" "distinct (map sr_Path (sd_Resources y))"
      "sd_Path y \<notin> set (map sd_Path us)"
      using assms ss by (auto simp: skill_ok_def)
    have "0 \<le> resourceCount vs" unfolding resourceCount_def by (intro sum_list_nonneg) auto
    then have n: "resourceCount us + int (length (sd_Resources y)) \<le> MaxSkillResources"
      using assms(4) by (simp add: ss resourceCount_def)
    show "parseSkillDeclaration nfc j (skillNode y) (?st ([] @ us)) = Inr (?st ([] @ us @ [y]))"
      using y f n parseResources_back [OF y(3-5), of ?path]
      by (simp add: parseSkillDeclaration_def Let_def parse_back resourceCount_def)
  qed
  then show ?thesis using assms(1) by (simp add: parseSkills_def resourceCount_def)
qed

lemma parseContext_back:
  assumes "int (length cs) \<le> MaxContextReferences" "list_all (context_ok nfc) cs" "distinct (map cr_ID cs)" "distinct (map cr_Path cs)"
  shows "parseContext nfc (Some (seqNode (map contextNode cs))) = Inr cs"
proof -
  let ?st = "\<lambda>us. (map cr_ID us, map cr_Path us, us)"
  have "foldItems (parseContextReference nfc) 0 (map contextNode cs) (?st []) = Inr (?st ([] @ cs))"
  proof (rule foldItems_build)
    fix j us y vs assume cs: "cs = us @ y # vs"
    let ?path = "indexed ''manifest.spec.context'' j"
    let ?ps = "[(''id'', strNode (cr_ID y)), (''path'', strNode (cr_Path y))]"
    obtain f where f: "mapping (contextNode y) ?path [''id'', ''path''] = Inr f" "get f = map_of ?ps"
      unfolding contextNode_def using mapping_mapNode [of ?ps "[''id'', ''path'']" ?path] by auto
    have "id_ok nfc MaxContextIDBytes (cr_ID y)" "path_ok nfc MaxContextPathBytes (cr_Path y)"
      "cr_ID y \<notin> set (map cr_ID us)" "cr_Path y \<notin> set (map cr_Path us)"
      using assms cs by (auto simp: context_ok_def)
    then show "parseContextReference nfc j (contextNode y) (?st ([] @ us)) = Inr (?st ([] @ us @ [y]))"
      using f by (simp add: parseContextReference_def Let_def parse_back)
  qed
  then show ?thesis using assms(1) by (simp add: parseContext_def)
qed

lemma parseTags_back:
  assumes "tags_ok nfc tags" "get flds ''tags'' = Some (seqNode (map strNode tags))"
  shows "parseTags nfc flds = Inr tags"
proof -
  have t: "nfc t = t \<and> t \<noteq> [] \<and> int (length t) \<le> MaxTagBytes" if "t \<in> set tags" for t
    using assms(1) that by (auto simp: tags_ok_def list_all_iff)
  have "foldItems (parseStringItem nfc ''manifest.metadata.tags'' MaxTagBytes) 0 (map strNode tags) [] = Inr ([] @ tags)"
  proof (rule foldItems_build [where st = "\<lambda>us. us"])
    fix j us y vs assume "tags = us @ y # vs"
    then show "parseStringItem nfc ''manifest.metadata.tags'' MaxTagBytes j (strNode y) ([] @ us) = Inr ([] @ us @ [y])"
      using t [of y] by (simp add: parseStringItem_def Let_def)
  qed
  moreover have "foldItems (parseTag nfc) 0 (map (\<lambda>t. t) tags) ((\<lambda>us. (us, sum_list (map (\<lambda>t. int (length t)) us))) []) =
    Inr ((\<lambda>us. (us, sum_list (map (\<lambda>t. int (length t)) us))) ([] @ tags))"
  proof (rule foldItems_build)
    fix j us y vs assume "tags = us @ y # vs"
    then show "parseTag nfc j y ([] @ us, sum_list (map (\<lambda>t. int (length t)) ([] @ us))) =
      Inr ([] @ us @ [y], sum_list (map (\<lambda>t. int (length t)) ([] @ us @ [y])))"
      using t [of y] assms(1) by (simp add: parseTag_def Let_def tags_ok_def)
  qed
  ultimately show ?thesis
    using assms by (simp add: parseTags_def parseStringSequence_def tags_ok_def)
qed

lemma parseMetadata_back: "metadata_ok nfc md \<Longrightarrow> parseMetadata nfc (metadataNode md) = Inr md"
proof -
  assume md: "metadata_ok nfc md"
  let ?ps = "[(''id'', strNode (md_ID md)), (''name'', strNode (md_Name md)), (''version'', strNode (md_Version md)),
    (''description'', strNode (md_Description md)), (''tags'', seqNode (map strNode (md_Tags md)))]"
  obtain f where f: "mapping (metadataNode md) ''manifest.metadata'' [''id'', ''name'', ''version'', ''description'', ''tags''] = Inr f"
    "get f = map_of ?ps"
    unfolding metadataNode_def
    using mapping_mapNode [of ?ps "[''id'', ''name'', ''version'', ''description'', ''tags'']" "''manifest.metadata''"] by auto
  have "parseTags nfc f = Inr (md_Tags md)" using md f by (intro parseTags_back) (auto simp: metadata_ok_def)
  moreover have "nfc (md_ID md) = md_ID md" "nfc (md_Name md) = md_Name md" "nfc (md_Version md) = md_Version md"
    "nfc (md_Description md) = md_Description md"
    using md by (auto simp: metadata_ok_def text_ok_def)
  ultimately show ?thesis using md f unfolding metadata_ok_def
    by (simp add: parseMetadata_def Let_def parse_back validateRequiredText_back [of nfc])
qed

lemma parseSpec_back: "spec_ok nfc capabilityID sp \<Longrightarrow> parseSpec nfc (specNode sp) capabilityID = Inr sp"
proof -
  assume sp: "spec_ok nfc capabilityID sp"
  let ?ps = "[(''parent'', strNode (sp_Parent sp)), (''skills'', seqNode (map skillNode (sp_Skills sp))),
    (''operations'', seqNode (map operationNode (sp_Operations sp))), (''context'', seqNode (map contextNode (sp_Context sp))),
    (''providers'', seqNode (map providerNode (sp_Providers sp)))]"
  obtain f where f: "mapping (specNode sp) ''manifest.spec'' [''parent'', ''skills'', ''operations'', ''context'', ''providers''] = Inr f"
    "get f = map_of ?ps"
    unfolding specNode_def
    using mapping_mapNode [of ?ps "[''parent'', ''skills'', ''operations'', ''context'', ''providers'']" "''manifest.spec''"] by auto
  have "validateParent (sp_Parent sp) capabilityID = Inr ()" "nfc (sp_Parent sp) = sp_Parent sp"
    using sp by (auto simp: spec_ok_def parent_ok_def validateParent_def)
  then show ?thesis
    using sp f unfolding spec_ok_def
    by (simp add: parseSpec_def Let_def optionalString_def parseProviders_back parseOperations_back parseSkills_back parseContext_back)
qed

section \<open>The trees of valid manifests keep the limits of YAML\<close>

lemma nodes_count_sum: "nodes_count ns = sum_list (map node_count ns)"
  by (induction ns) auto

lemma nodes_height_le: "nodes_height ns \<le> h \<longleftrightarrow> 0 \<le> h \<and> list_all (\<lambda>n. node_height n \<le> h) ns"
proof (induction ns)
  case (Cons n ns)
  then show ?case using node_height_pos [of n] by auto
qed simp

lemma nodes_clean_iff: "nodes_clean ns \<longleftrightarrow> list_all node_clean ns"
  by (induction ns) auto

lemma strNode_shape [simp]: "node_count (strNode s) = 1" "node_height (strNode s) = 1" "node_clean (strNode s)"
  by (simp_all add: strNode_def)

lemma seqNode_shape [simp]:
  "node_count (seqNode ns) = 1 + sum_list (map node_count ns)" "node_height (seqNode ns) = 1 + nodes_height ns"
  "node_clean (seqNode ns) \<longleftrightarrow> list_all node_clean ns"
  by (simp_all add: seqNode_def nodes_count_sum nodes_clean_iff)

lemma key_nodes_mapNode: "key_nodes (concat (map (\<lambda>(k, v). [strNode k, v]) ps)) = map (\<lambda>(k, v). strNode k) ps"
  by (induction ps) auto

lemma mapNode_count [simp]: "node_count (mapNode ps) = 1 + sum_list (map (\<lambda>(k, v). 1 + node_count v) ps)"
  unfolding mapNode_def by simp (induction ps; auto)

lemma mapNode_height: "list_all (\<lambda>(k, v). node_height v \<le> h - 1) ps \<Longrightarrow> 2 \<le> h \<Longrightarrow> node_height (mapNode ps) \<le> h"
  using nodes_height_le [of "concat (map (\<lambda>(k, v). [strNode k, v]) ps)" "h - 1"] by (force simp: mapNode_def list_all_iff)

lemma mapNode_clean:
  "distinct (map fst ps) \<Longrightarrow> ''<<'' \<notin> set (map fst ps) \<Longrightarrow> list_all (\<lambda>(k, v). node_clean v) ps \<Longrightarrow> node_clean (mapNode ps)"
proof -
  assume ps: "distinct (map fst ps)" "''<<'' \<notin> set (map fst ps)" "list_all (\<lambda>(k, v). node_clean v) ps"
  have "even (length (concat (map (\<lambda>(k, v). [strNode k, v]) ps)))" by (induction ps) auto
  moreover have "map yn_value (map (\<lambda>(k, v). strNode k) ps) = map fst ps" by (auto simp: strNode_def)
  moreover have "list_all (\<lambda>k. yn_kind k = ScalarNode \<and> yn_tag k = ''!!str'' \<and> yn_value k \<noteq> ''<<'') (map (\<lambda>(k, v). strNode k) ps)"
    using ps(2) by (force simp: list_all_iff strNode_def)
  ultimately have "keys_clean (concat (map (\<lambda>(k, v). [strNode k, v]) ps))"
    using ps(1) by (simp only: keys_clean_def key_nodes_mapNode)
  then show ?thesis using ps(3) by (auto simp: mapNode_def nodes_clean_iff list_all_iff)
qed

lemma leaf_nodes:
  "node_count (providerNode p) = 7" "node_height (providerNode p) \<le> 2" "node_clean (providerNode p)"
  "node_count (operationNode x) = 9" "node_height (operationNode x) \<le> 2" "node_clean (operationNode x)"
  "node_count (resourceNode r) = 7" "node_height (resourceNode r) \<le> 2" "node_clean (resourceNode r)"
  "node_count (contextNode c) = 5" "node_height (contextNode c) \<le> 2" "node_clean (contextNode c)"
  by (simp_all add: providerNode_def operationNode_def resourceNode_def contextNode_def mapNode_clean mapNode_height)

lemma height_seq: "(\<And>x. node_height (f x) \<le> k) \<Longrightarrow> 0 \<le> k \<Longrightarrow> k < h \<Longrightarrow> node_height (seqNode (map f xs)) \<le> h"
  using nodes_height_le [of "map f xs" k] by (force simp: list_all_iff)

lemma clean_seq: "(\<And>x. node_clean (f x)) \<Longrightarrow> node_clean (seqNode (map f xs))"
  by (simp add: list_all_iff)

lemma skill_node:
  "node_count (skillNode s) = 5 + 7 * int (length (sd_Resources s))" "node_height (skillNode s) \<le> 4" "node_clean (skillNode s)"
proof -
  show "node_count (skillNode s) = 5 + 7 * int (length (sd_Resources s))"
    by (simp add: skillNode_def leaf_nodes comp_def sum_list_triv)
  show "node_height (skillNode s) \<le> 4"
    unfolding skillNode_def using height_seq [OF leaf_nodes(8), of 3] by (intro mapNode_height) (simp_all del: seqNode_shape)
  show "node_clean (skillNode s)"
    unfolding skillNode_def using clean_seq [OF leaf_nodes(9)] by (intro mapNode_clean) auto
qed

lemma manifestNode_fits:
  assumes "manifest_ok nfc m"
  shows "node_height (manifestNode m) \<le> ManifestMaxDepth" and "node_count (manifestNode m) \<le> ManifestMaxNodes"
    and "node_clean (manifestNode m)"
proof -
  let ?sp = "mf_Spec m"
  note heights = height_seq [of providerNode 2 5, OF leaf_nodes(2)] height_seq [of operationNode 2 5, OF leaf_nodes(5)]
    height_seq [of contextNode 2 5, OF leaf_nodes(11)] height_seq [of skillNode 4 5, OF skill_node(2)]
    height_seq [of strNode 1 5, OF eq_refl [OF strNode_shape(2)]]
  note cleans = clean_seq [of providerNode, OF leaf_nodes(3)] clean_seq [of operationNode, OF leaf_nodes(6)]
    clean_seq [of contextNode, OF leaf_nodes(12)] clean_seq [of skillNode, OF skill_node(3)] clean_seq [of strNode, OF strNode_shape(3)]
  have md: "node_height (metadataNode (mf_Metadata m)) \<le> 6"
    unfolding metadataNode_def using heights by (intro mapNode_height) (simp_all del: seqNode_shape)
  have md': "node_clean (metadataNode (mf_Metadata m))"
    unfolding metadataNode_def using cleans by (intro mapNode_clean) (simp_all del: seqNode_shape)
  have sp: "node_height (specNode ?sp) \<le> 6"
    unfolding specNode_def using heights by (intro mapNode_height) (simp_all del: seqNode_shape)
  have sp': "node_clean (specNode ?sp)"
    unfolding specNode_def using cleans by (intro mapNode_clean) (simp_all del: seqNode_shape)
  have "node_height (manifestNode m) \<le> 7" unfolding manifestNode_def using md sp by (intro mapNode_height) auto
  then show "node_height (manifestNode m) \<le> ManifestMaxDepth" by (simp add: ManifestMaxDepth_def)
  show "node_clean (manifestNode m)" unfolding manifestNode_def using md' sp' by (intro mapNode_clean) auto
  have res: "sum_list (map (node_count \<circ> skillNode) ss) = 5 * int (length ss) + 7 * resourceCount ss" for ss
    by (induction ss) (auto simp: skill_node resourceCount_def)
  have "int (length (md_Tags (mf_Metadata m))) \<le> 16" "int (length (sp_Providers ?sp)) \<le> 32" "int (length (sp_Operations ?sp)) \<le> 128"
    "int (length (sp_Skills ?sp)) \<le> 32" "resourceCount (sp_Skills ?sp) \<le> 128" "int (length (sp_Context ?sp)) \<le> 128"
    using assms
    by (auto simp: manifest_ok_def metadata_ok_def tags_ok_def spec_ok_def MaxTags_def MaxProviders_def MaxOperations_def MaxSkills_def
        MaxSkillResources_def MaxContextReferences_def)
  then show "node_count (manifestNode m) \<le> ManifestMaxNodes"
    by (simp add: manifestNode_def metadataNode_def specNode_def leaf_nodes comp_def sum_list_triv res [unfolded comp_def] ManifestMaxNodes_def)
qed

section \<open>Manifests\<close>

lemma ParseManifest_back:
  assumes "manifest_ok nfc m" and "parseBoundedYAML yaml data manifestLimits = Inr (manifestNode m)"
  shows "ParseManifest yaml nfc data = Inr m"
proof -
  let ?ps = "[(''apiVersion'', strNode (mf_APIVersion m)), (''kind'', strNode (mf_Kind m)),
    (''metadata'', metadataNode (mf_Metadata m)), (''spec'', specNode (mf_Spec m))]"
  obtain f where f: "mapping (manifestNode m) ''manifest'' [''apiVersion'', ''kind'', ''metadata'', ''spec''] = Inr f"
    "get f = map_of ?ps"
    unfolding manifestNode_def using mapping_mapNode [of ?ps "[''apiVersion'', ''kind'', ''metadata'', ''spec'']" "''manifest''"] by auto
  have "validateNormalizedSize m = Inr ()" using assms(1) by (simp add: validateNormalizedSize_iff manifest_ok_def)
  then show ?thesis
    using assms f unfolding manifest_ok_def
    by (cases m) (simp add: ParseManifest_def requiredField_def of_option_def parseMetadata_back parseSpec_back Let_def)
qed

subsection \<open>An example\<close>

definition demo_manifest :: Manifest where
  "demo_manifest =
     \<lparr>mf_APIVersion = manifestAPIVersion, mf_Kind = manifestKind,
      mf_Metadata = \<lparr>md_ID = ''git.log'', md_Name = ''Git log'', md_Version = ''1.0.2'', md_Description = ''History'', md_Tags = [''vcs'']\<rparr>,
      mf_Spec =
        \<lparr>sp_Parent = ''git'',
         sp_Skills = [\<lparr>sd_Path = ''skills/log'', sd_Resources = [\<lparr>sr_ID = ''guide'', sr_Kind = ''reference'', sr_Path = ''guide.md''\<rparr>]\<rparr>],
         sp_Operations = [\<lparr>op_ID = ''show'', op_Description = ''Show'', op_Provider = ''git'', op_Target = ''git_show''\<rparr>],
         sp_Context = [\<lparr>cr_ID = ''notes'', cr_Path = ''notes.md''\<rparr>],
         sp_Providers = [\<lparr>pb_ID = ''git'', pb_Type = ''mcp'', pb_ServerRef = ''git-server''\<rparr>]\<rparr>\<rparr>"

definition demo_yaml :: yaml_parser where
  "demo_yaml data = (Inr (YNode DocumentNode [] [] [] [manifestNode demo_manifest]), Inl (OtherError ''EOF''))"

lemma demo_metadata_ok: "metadata_ok (\<lambda>s. s) (mf_Metadata demo_manifest)"
  by code_simp

lemma demo_spec_ok: "spec_ok (\<lambda>s. s) ''git.log'' (mf_Spec demo_manifest)"
  by code_simp

lemma demo_sizes:
  "jsonWeight (baseCardJson demo_manifest) \<le> 4096" "list_all (\<lambda>x. jsonWeight x \<le> 1000) (structureItems (mf_Spec demo_manifest))"
  "length (structureItems (mf_Spec demo_manifest)) = 5"
  by (simp_all add: demo_manifest_def baseCardJson_def structureItems_def resourceJson_def skillDeclarationJson_def omitStr_def omitArr_def)

lemma weight_sizes:
  assumes "list_all (\<lambda>x. jsonWeight x \<le> w) items"
  shows "list_all (\<lambda>x. int (length (jsonText x)) \<le> int w) items"
    and "sum_list (map (\<lambda>x. int (length (jsonText x))) items) \<le> int (length items * w)"
proof -
  show 1: "list_all (\<lambda>x. int (length (jsonText x)) \<le> int w) items"
    using assms length_jsonText(1) by (auto simp: list_all_iff intro: order_trans)
  then show "sum_list (map (\<lambda>x. int (length (jsonText x))) items) \<le> int (length items * w)"
    by (induction items) auto
qed

lemma demo_manifest_ok: "manifest_ok (\<lambda>s. s) demo_manifest"
proof -
  have "sizes_ok demo_manifest"
    using weight_sizes [OF demo_sizes(2)] demo_sizes(1,3) length_jsonText(1) [of "baseCardJson demo_manifest"]
    by (auto simp: sizes_ok_def MaxBaseCardBytes_def MaxStructureItemBytes_def MaxStructureBytes_def list_all_iff)
  moreover have "md_ID (mf_Metadata demo_manifest) = ''git.log''" "mf_APIVersion demo_manifest = manifestAPIVersion"
    "mf_Kind demo_manifest = manifestKind" by (simp_all add: demo_manifest_def)
  ultimately show ?thesis using demo_metadata_ok demo_spec_ok by (simp add: manifest_ok_def)
qed

lemma preflight_empty: "preflightYAML [] limits = Inr ()"
  by (simp add: preflightYAML_def preflightLine_def trimFunc_def trimSuffix_def hasSuffix_def)

lemma demo_parseBounded: "parseBoundedYAML demo_yaml [] manifestLimits = Inr (manifestNode demo_manifest)"
  using manifestNode_fits [OF demo_manifest_ok]
  by (simp add: parseBoundedYAML_def demo_yaml_def manifestLimits_def validateYAMLNode_iff rbind_eq_Inr ManifestMaxBytes_def preflight_empty validString_def)

subsection \<open>Parsing is sound and complete\<close>

lemma ParseManifest_ok:
  assumes "ParseManifest yaml nfc data = Inr m" and "\<And>x. nfc (nfc x) = nfc x"
  shows "manifest_ok nfc m"
proof -
  have "mf_APIVersion m = manifestAPIVersion" "mf_Kind m = manifestKind" "sizes_ok m"
    "\<exists>n. parseMetadata nfc n = Inr (mf_Metadata m)" "\<exists>n. parseSpec nfc n (md_ID (mf_Metadata m)) = Inr (mf_Spec m)"
    using assms(1)
    by (auto simp: ParseManifest_def Let_def rbind_eq_Inr validateNormalizedSize_iff split: if_splits sum.splits)
  then show ?thesis using parseMetadata_ok parseSpec_ok assms(2) unfolding manifest_ok_def by blast
qed

text \<open>C36: Whatever bytes are parsed, a manifest that is returned is valid: identifiers match their patterns, every text is normalised,
  UTF-8 and within its limit, every path stays inside the package, identifiers, paths and tags are unique, every operation
  names a declared provider, the parent is a proper dotted prefix of the identifier, and the counts and encoded sizes keep
  their limits.  Normalisation to NFC is idempotent, as Unicode requires.\<close>

theorem ParseManifest_valid:
  assumes "ParseManifest yaml nfc data = Inr m" and "\<And>x. nfc (nfc x) = nfc x"
  shows "manifest_ok nfc m"
  using assms by (rule ParseManifest_ok)

theorem ParseManifest_valid_witness: "manifest_ok (\<lambda>s. s) demo_manifest"
  using ParseManifest_valid [OF ParseManifest_back [OF demo_manifest_ok demo_parseBounded]] by simp

text \<open>C37: Every valid manifest can be written: bytes that keep the byte checks and that YAML reads as one document holding the tree of
  the manifest parse to exactly that manifest.  Its tree always keeps the limits on depth and nodes.\<close>

theorem ParseManifest_roundtrip:
  assumes "manifest_ok nfc m"
    and "int (length data) \<le> ManifestMaxBytes" "validString data" "CHR 0x00 \<notin> set data" "preflightYAML data manifestLimits = Inr ()"
    and "yaml data = (Inr (YNode DocumentNode tag v anchor [manifestNode m]), Inl eof)"
  shows "ParseManifest yaml nfc data = Inr m"
proof (rule ParseManifest_back [OF assms(1)])
  show "parseBoundedYAML yaml data manifestLimits = Inr (manifestNode m)"
    using assms manifestNode_fits [OF assms(1)]
    by (simp add: parseBoundedYAML_def manifestLimits_def indexByte_mem validateYAMLNode_iff rbind_eq_Inr)
qed

theorem ParseManifest_roundtrip_witness: "ParseManifest demo_yaml (\<lambda>s. s) [] = Inr demo_manifest"
  by (rule ParseManifest_roundtrip [OF demo_manifest_ok _ _ _ preflight_empty demo_yaml_def])
    (simp_all add: ManifestMaxBytes_def validString_def)

end
