(* ===== verification/Skill.thy ===== *)
theory Skill
  imports Manifest
begin

text \<open>
  Validating a staged \<^verbatim>\<open>SKILL.md\<close>, \<^verbatim>\<open>internal/capability/skill.go\<close>.  Unicode normalisation, lower case and the character
  classes of package \<^verbatim>\<open>unicode\<close> are the fields of a record \<open>skill_env\<close>.
\<close>

definition maxAgentSkillNameCharacters :: int where "maxAgentSkillNameCharacters = 64"
definition maxAgentSkillDescriptionChars :: int where "maxAgentSkillDescriptionChars = 1024"
definition maxAgentSkillCompatibilityChars :: int where "maxAgentSkillCompatibilityChars = 500"

record skill_env =
  se_NFC :: "string \<Rightarrow> string"
  se_NFKC :: "string \<Rightarrow> string"
  se_ToLower :: "string \<Rightarrow> string"
  se_IsLetter :: "nat \<Rightarrow> bool"
  se_IsDigit :: "nat \<Rightarrow> bool"

section \<open>Frontmatter\<close>

definition newline :: char where "newline = CHR 0x0A"
definition carriageReturn :: char where "carriageReturn = CHR 0x0D"

function frontmatterLoop :: "bytes \<Rightarrow> nat \<Rightarrow> (bytes \<times> bytes) res" where
  "frontmatterLoop data lineStart =
     (if lineStart > 0 \<and> lineStart \<le> length data
      then let lineEndOffset = indexByte (drop lineStart data) newline;
               lineEnd = (if lineEndOffset \<ge> 0 then lineStart + nat lineEndOffset else length data);
               line = trimSuffix (take (lineEnd - lineStart) (drop lineStart data)) [carriageReturn];
               front = nat (indexByte data newline + 1)
           in if line = ''---''
              then let bodyStart = (if lineEnd < length data then lineEnd + 1 else lineEnd)
                   in Inr (take (lineStart - front) (drop front data), drop bodyStart data)
              else if lineEndOffset < 0 then Inl (OtherError ''frontmatter is not closed with ---'')
              else frontmatterLoop data (lineEnd + 1)
      else Inl (OtherError ''frontmatter is not closed with ---''))"
  by pat_completeness auto
termination
  by (relation "measure (\<lambda>(data, lineStart). Suc (length data) - lineStart)") auto

declare frontmatterLoop.simps [simp del]

definition splitSkillFrontmatter :: "bytes \<Rightarrow> (bytes \<times> bytes) res" where
  "splitSkillFrontmatter data =
     (if \<not> hasPrefix data (''---'' @ [newline]) \<and> \<not> hasPrefix data (''---'' @ [carriageReturn, newline])
      then Inl (OtherError ''must start with YAML frontmatter delimiter'')
      else frontmatterLoop data (nat (indexByte data newline + 1)))"

section \<open>Metadata\<close>

definition validateAgentSkillName :: "skill_env \<Rightarrow> string \<Rightarrow> string \<Rightarrow> unit res" where
  "validateAgentSkillName env name directoryName =
     (if name = [] then Inl (OtherError ''name must be a non-empty string'')
      else if int (length (runes name)) > maxAgentSkillNameCharacters \<or> int (length name) > MaxSkillNameBytes
      then Inl (OtherError ''name exceeds the limit'')
      else if name \<noteq> se_ToLower env name then Inl (OtherError ''name must be lowercase'')
      else if hasPrefix name ''-'' \<or> hasSuffix name ''-'' then Inl (OtherError ''name cannot start or end with a hyphen'')
      else if containsString name ''--'' then Inl (OtherError ''name cannot contain consecutive hyphens'')
      else if \<not> list_all (\<lambda>r. r = 45 \<or> se_IsLetter env r \<or> se_IsDigit env r) (runes name)
      then Inl (OtherError ''name may contain only Unicode letters, digits, and hyphens'')
      else if se_NFKC env directoryName \<noteq> name then Inl (OtherError ''directory name must match skill name'')
      else Inr ())"

text \<open>A mapping of odd length, which bounded YAML excludes, would make Go panic.\<close>

fun skillMetadataPairs :: "(string \<Rightarrow> string) \<Rightarrow> yaml_node list \<Rightarrow> (string, string) gomap \<Rightarrow> (string, string) gomap res" where
  "skillMetadataPairs nfc (k # v # rest) metadata =
     (if yn_kind k \<noteq> ScalarNode \<or> yn_kind v \<noteq> ScalarNode
      then Inl (PackageError ''package_skill_metadata_invalid'' ''skill.frontmatter.metadata'')
      else skillMetadataPairs nfc rest (put (nfc (yn_value k)) (nfc (yn_value v)) metadata))"
| "skillMetadataPairs nfc [] metadata = Inr metadata"
| "skillMetadataPairs nfc [k] metadata = Inl (OtherError ''panic: index out of range'')"

definition parseSkillMetadataMap :: "(string \<Rightarrow> string) \<Rightarrow> yaml_node option \<Rightarrow> (string, string) gomap option res" where
  "parseSkillMetadataMap nfc node =
     (case node of None \<Rightarrow> Inr None
      | Some n \<Rightarrow>
        if yn_kind n \<noteq> MappingNode then Inl (PackageError ''package_skill_metadata_invalid'' ''skill.frontmatter.metadata'')
        else rbind (skillMetadataPairs nfc (yn_content n) []) (\<lambda>m. Inr (Some m)))"

section \<open>Documents\<close>

definition skillLimits :: yamlLimits where
  "skillLimits = \<lparr>yl_bytes = SkillFrontmatterMax, yl_depth = ManifestMaxDepth, yl_nodes = ManifestMaxNodes\<rparr>"

definition ParseSkill :: "yaml_parser \<Rightarrow> skill_env \<Rightarrow> bytes \<Rightarrow> string \<Rightarrow> SkillDocument res" where
  "ParseSkill yaml env data skillPath =
     (let file = skillPath @ ''/SKILL.md''; invalid = PackageError ''package_skill_metadata_invalid'' file
      in if int (length data) > SkillMaxBytes then Inl (PackageError ''package_skill_limit_exceeded'' file)
         else if \<not> validString data then Inl (PackageError ''package_skill_invalid'' file)
         else case splitSkillFrontmatter data of
           Inl e \<Rightarrow> Inl (PackageError ''package_skill_invalid'' file)
         | Inr (frontmatter, body) \<Rightarrow>
           if int (length frontmatter) > SkillFrontmatterMax
           then Inl (PackageError ''package_skill_frontmatter_limit_exceeded'' file)
           else case parseBoundedYAML yaml frontmatter skillLimits of
             Inl e \<Rightarrow> Inl (PackageError ''package_skill_frontmatter_invalid'' file)
           | Inr root \<Rightarrow>
             rbind (mapping root ''skill.frontmatter''
                      [''name'', ''description'', ''license'', ''allowed-tools'', ''metadata'', ''compatibility'']) (\<lambda>flds.
             rbind (requiredString flds ''name'' ''skill.frontmatter'') (\<lambda>rawName.
             rbind (requiredString flds ''description'' ''skill.frontmatter'') (\<lambda>rawDescription.
             rbind (optionalString flds ''license'' ''skill.frontmatter'') (\<lambda>rawLicense.
             rbind (optionalString flds ''allowed-tools'' ''skill.frontmatter'') (\<lambda>rawAllowedTools.
             rbind (optionalString flds ''compatibility'' ''skill.frontmatter'') (\<lambda>rawCompatibility.
               let name = se_NFKC env (trimFunc isSpace rawName);
                   description = se_NFC env (trimFunc isSpace rawDescription);
                   license = se_NFC env rawLicense;
                   allowedTools = se_NFC env rawAllowedTools;
                   compatibility = se_NFC env rawCompatibility
               in case validateAgentSkillName env name (pathBase skillPath) of
                    Inl e \<Rightarrow> Inl invalid
                  | Inr u \<Rightarrow>
                    if description = [] then Inl invalid
                    else if int (length (runes description)) > maxAgentSkillDescriptionChars \<or>
                            int (length description) > MaxSkillDescription then Inl invalid
                    else if int (length (runes compatibility)) > maxAgentSkillCompatibilityChars then Inl invalid
                    else rbind (parseSkillMetadataMap (se_NFC env) (get flds ''metadata'')) (\<lambda>metadata.
                      Inr \<lparr>doc_Metadata =
                             \<lparr>sm_Name = name, sm_Description = description, sm_License = license, sm_AllowedTools = allowedTools,
                              sm_Compatibility = compatibility, sm_Metadata = metadata\<rparr>,
                           doc_Body = trimFunc isSpace body\<rparr>))))))))"

end
