(* ===== verification/Skill_Props.thy ===== *)
theory Skill_Props
  imports Skill Manifest_Props
begin

text \<open>
  What a parsed \<^verbatim>\<open>SKILL.md\<close> guarantees: the frontmatter is exactly the text between the first two delimiter lines, and the
  metadata keeps its limits and names the directory of the skill.
\<close>

section \<open>Lines\<close>

definition delimiter :: "string \<Rightarrow> bool" where
  "delimiter l \<longleftrightarrow> l = ''---'' \<or> l = ''---'' @ [carriageReturn]"

lemma trim_delimiter: "trimSuffix l [carriageReturn] = ''---'' \<longleftrightarrow> delimiter l"
proof -
  have "hasSuffix l [carriageReturn] \<longleftrightarrow> (\<exists>u. l = u @ [carriageReturn])"
    by (auto simp: hasSuffix_def) (metis append_take_drop_id)
  then show ?thesis
    by (auto simp: trimSuffix_def delimiter_def carriageReturn_def)
qed

lemma indexByte_split:
  assumes "c \<notin> set l" shows "indexByte (l @ c # rest) c = int (length l)" and "indexByte l c = -1"
  using assms by (induction l) (auto simp: Let_def)

text \<open>
  The text after the first line is complete lines that are no delimiter, then a delimiter line, which the end of the data
  may cut short, then the body.
\<close>

definition closed_front :: "bytes \<Rightarrow> bytes \<Rightarrow> bytes \<Rightarrow> bool" where
  "closed_front text front body \<longleftrightarrow>
     (\<exists>ls d rest. text = front @ d @ rest \<and> front = concat (map (\<lambda>l. l @ [newline]) ls) \<and>
        list_all (\<lambda>l. newline \<notin> set l \<and> \<not> delimiter l) ls \<and> delimiter d \<and>
        (rest = [] \<and> body = [] \<or> rest = newline # body))"

lemma delimiter_line: "delimiter d \<Longrightarrow> newline \<notin> set d"
  by (auto simp: delimiter_def newline_def carriageReturn_def)

lemma split_line: "newline \<notin> set xs \<or> (\<exists>l rest. xs = l @ newline # rest \<and> newline \<notin> set l)"
  by (metis split_list_first)

lemma line_unique:
  assumes "a @ newline # b = c @ newline # d" "newline \<notin> set a" "newline \<notin> set c" shows "a = c \<and> b = d"
  using assms
proof (induction a arbitrary: c)
  case Nil
  then show ?case by (cases c) auto
next
  case (Cons x a)
  then show ?case by (cases c) auto
qed

lemma closed_front_last: "newline \<notin> set xs \<Longrightarrow> closed_front xs front body \<longleftrightarrow> front = [] \<and> body = [] \<and> delimiter xs"
proof
  assume n: "newline \<notin> set xs" and "closed_front xs front body"
  then obtain ls d rest where x: "xs = front @ d @ rest" "front = concat (map (\<lambda>l. l @ [newline]) ls)" "delimiter d"
    "rest = [] \<and> body = [] \<or> rest = newline # body"
    by (auto simp: closed_front_def)
  have "ls = []" using n x by (cases ls) auto
  moreover have "rest = []" using n x by auto
  ultimately show "front = [] \<and> body = [] \<and> delimiter xs" using x by auto
next
  assume n: "newline \<notin> set xs" and "front = [] \<and> body = [] \<and> delimiter xs"
  then show "closed_front xs front body"
    unfolding closed_front_def by (intro exI [of _ "[]"] exI [of _ xs]) auto
qed

lemma closed_front_line:
  assumes n: "newline \<notin> set l"
  shows "closed_front (l @ newline # xs) front body \<longleftrightarrow>
    (if delimiter l then front = [] \<and> body = xs else \<exists>f. front = l @ newline # f \<and> closed_front xs f body)"
proof
  assume "closed_front (l @ newline # xs) front body"
  then obtain ls d rest where x: "l @ newline # xs = front @ d @ rest" "front = concat (map (\<lambda>l. l @ [newline]) ls)"
    "list_all (\<lambda>l. newline \<notin> set l \<and> \<not> delimiter l) ls" "delimiter d" "rest = [] \<and> body = [] \<or> rest = newline # body"
    by (auto simp: closed_front_def)
  show "if delimiter l then front = [] \<and> body = xs else \<exists>f. front = l @ newline # f \<and> closed_front xs f body"
  proof (cases ls)
    case Nil
    have "rest \<noteq> []" using x Nil delimiter_line [OF x(4)] by (metis append_Nil append_Nil2 concat.simps(1) in_set_conv_decomp list.map(1))
    then have "l @ newline # xs = d @ newline # body" using x Nil by simp
    then have "l = d \<and> xs = body" using n delimiter_line [OF x(4)] by (intro line_unique) auto
    then show ?thesis using x Nil by simp
  next
    case (Cons k ks)
    then have "l @ newline # xs = k @ newline # (concat (map (\<lambda>l. l @ [newline]) ks) @ d @ rest)" using x by simp
    then have e: "l = k \<and> xs = concat (map (\<lambda>l. l @ [newline]) ks) @ d @ rest" using n x(3) Cons by (intro line_unique) auto
    then have "closed_front xs (concat (map (\<lambda>l. l @ [newline]) ks)) body" using x Cons unfolding closed_front_def by auto
    then show ?thesis using e x Cons by auto
  qed
next
  assume r: "if delimiter l then front = [] \<and> body = xs else \<exists>f. front = l @ newline # f \<and> closed_front xs f body"
  show "closed_front (l @ newline # xs) front body"
  proof (cases "delimiter l")
    case True
    then show ?thesis using r unfolding closed_front_def by (intro exI [of _ "[]"] exI [of _ l] exI [of _ "newline # xs"]) simp
  next
    case False
    then obtain f ls d rest where "front = l @ newline # f" "xs = f @ d @ rest" "f = concat (map (\<lambda>l. l @ [newline]) ls)"
      "list_all (\<lambda>l. newline \<notin> set l \<and> \<not> delimiter l) ls" "delimiter d" "rest = [] \<and> body = [] \<or> rest = newline # body"
      using r by (auto simp: closed_front_def)
    then show ?thesis
      using False n unfolding closed_front_def by (intro exI [of _ "l # ls"] exI [of _ d] exI [of _ rest]) auto
  qed
qed

lemma frontmatterLoop_spec:
  assumes "data = pre @ seen @ xs" "pre \<noteq> []" "nat (indexByte data newline + 1) = length pre"
  shows "frontmatterLoop data (length (pre @ seen)) = Inr (front, body) \<longleftrightarrow>
    (\<exists>f. front = seen @ f \<and> closed_front xs f body)"
  using assms
proof (induction "length xs" arbitrary: seen xs rule: less_induct)
  case less
  let ?start = "length (pre @ seen)"
  have drop: "drop ?start data = xs" "?start > 0" "?start \<le> length data" using less.prems by auto
  consider (last) "newline \<notin> set xs" | (line) l rest where "xs = l @ newline # rest" "newline \<notin> set l"
    using split_line by blast
  then show ?case
  proof cases
    case last
    then have "indexByte xs newline = -1" by (rule indexByte_split)
    then show ?thesis
      using less.prems drop closed_front_last [OF last]
      by (subst frontmatterLoop.simps) (auto simp: trim_delimiter Let_def)
  next
    case line
    have i: "indexByte xs newline = int (length l)" using line indexByte_split by blast
    have step: "frontmatterLoop data ?start = (if delimiter l then Inr (seen, rest) else frontmatterLoop data (length (pre @ seen @ l @ [newline])))"
      using less.prems drop i line by (subst frontmatterLoop.simps) (auto simp: trim_delimiter Let_def add.assoc)
    show ?thesis
    proof (cases "delimiter l")
      case True
      then show ?thesis using step closed_front_line [OF line(2)] line(1) by auto
    next
      case False
      have "frontmatterLoop data (length (pre @ (seen @ l @ [newline]))) = Inr (front, body) \<longleftrightarrow>
          (\<exists>f. front = (seen @ l @ [newline]) @ f \<and> closed_front rest f body)"
        by (rule less.hyps) (use less.prems line in auto)
      then show ?thesis using step False closed_front_line [OF line(2)] line(1) by auto
    qed
  qed
qed

lemma first_line:
  "hasPrefix data (''---'' @ [newline]) \<or> hasPrefix data (''---'' @ [carriageReturn, newline]) \<longleftrightarrow>
     (\<exists>head more. data = head @ newline # more \<and> delimiter head)" (is "?p \<or> ?q \<longleftrightarrow> _")
proof
  assume "?p \<or> ?q"
  then obtain t where "data = ''---'' @ newline # t \<or> data = (''---'' @ [carriageReturn]) @ newline # t"
    by (auto simp: hasPrefix_iff)
  then show "\<exists>head more. data = head @ newline # more \<and> delimiter head" unfolding delimiter_def by blast
qed (auto simp: hasPrefix_iff delimiter_def)

text \<open>The frontmatter of a skill document is exactly the text between its first line, which must be a delimiter, and the first later
  line that is one; the body is everything after that line.  A document without both delimiters is refused.\<close>

theorem splitSkillFrontmatter_spec:
  "splitSkillFrontmatter data = Inr (front, body) \<longleftrightarrow>
     (\<exists>head more. data = head @ newline # more \<and> delimiter head \<and> closed_front more front body)"
proof
  have loop: "frontmatterLoop data (length (head @ [newline])) = Inr (front, body) \<longleftrightarrow> closed_front more front body"
    and start: "nat (indexByte data newline + 1) = length (head @ [newline])"
    if "data = head @ newline # more" "delimiter head" for head more
  proof -
    show i: "nat (indexByte data newline + 1) = length (head @ [newline])"
      using indexByte_split(1) [OF delimiter_line [OF that(2)], of more] that(1) by simp
    show "frontmatterLoop data (length (head @ [newline])) = Inr (front, body) \<longleftrightarrow> closed_front more front body"
      using frontmatterLoop_spec [of data "head @ [newline]" "[]" more front body] that i by simp
  qed
  {
    assume s: "splitSkillFrontmatter data = Inr (front, body)"
    then obtain head more where d: "data = head @ newline # more" "delimiter head"
      using first_line [of data] by (auto simp: splitSkillFrontmatter_def split: if_splits)
    then show "\<exists>head more. data = head @ newline # more \<and> delimiter head \<and> closed_front more front body"
      using s loop [OF d] start [OF d] by (auto simp: splitSkillFrontmatter_def split: if_splits)
  }
  assume "\<exists>head more. data = head @ newline # more \<and> delimiter head \<and> closed_front more front body"
  then obtain head more where d: "data = head @ newline # more" "delimiter head" "closed_front more front body" by blast
  then have "hasPrefix data (''---'' @ [newline]) \<or> hasPrefix data (''---'' @ [carriageReturn, newline])"
    unfolding first_line by blast
  then show "splitSkillFrontmatter data = Inr (front, body)"
    using loop [OF d(1,2)] start [OF d(1,2)] d(3) by (auto simp: splitSkillFrontmatter_def)
qed

section \<open>Documents\<close>

definition skill_name_ok :: "skill_env \<Rightarrow> string \<Rightarrow> bool" where
  "skill_name_ok env name \<longleftrightarrow>
     name \<noteq> [] \<and> int (length (runes name)) \<le> maxAgentSkillNameCharacters \<and> int (length name) \<le> MaxSkillNameBytes \<and>
     se_ToLower env name = name \<and> \<not> hasPrefix name ''-'' \<and> \<not> hasSuffix name ''-'' \<and> \<not> containsString name ''--'' \<and>
     list_all (\<lambda>r. r = 45 \<or> se_IsLetter env r \<or> se_IsDigit env r) (runes name)"

lemma validateAgentSkillName_iff:
  "validateAgentSkillName env name directoryName = Inr u \<longleftrightarrow> skill_name_ok env name \<and> se_NFKC env directoryName = name"
  by (auto simp: validateAgentSkillName_def skill_name_ok_def)

definition demo_skill_env :: skill_env where
  "demo_skill_env =
     \<lparr>se_NFC = (\<lambda>s. s), se_NFKC = (\<lambda>s. s), se_ToLower = (\<lambda>s. s), se_IsLetter = (\<lambda>r. 97 \<le> r \<and> r \<le> 122), se_IsDigit = (\<lambda>r. False)\<rparr>"

definition demo_skill :: bytes where
  "demo_skill = ''---'' @ [newline] @ ''---'' @ [newline] @ '' Use''"

definition demo_skill_yaml :: yaml_parser where
  "demo_skill_yaml data =
     (Inr (YNode DocumentNode [] [] [] [mapNode [(''name'', strNode ''log''), (''description'', strNode ''Git log'')]]), Inl (OtherError ''EOF''))"

definition demo_document :: SkillDocument where
  "demo_document =
     \<lparr>doc_Metadata = \<lparr>sm_Name = ''log'', sm_Description = ''Git log'', sm_License = [], sm_AllowedTools = [], sm_Compatibility = [],
        sm_Metadata = None\<rparr>, doc_Body = ''Use''\<rparr>"

lemma demo_split: "splitSkillFrontmatter demo_skill = Inr ([], '' Use'')"
  unfolding splitSkillFrontmatter_def demo_skill_def
  by (simp add: hasPrefix_def newline_def) (subst frontmatterLoop.simps, simp add: newline_def carriageReturn_def trimSuffix_def hasSuffix_def)

lemma demo_runes: "validString demo_skill" "runes ''log'' = [108, 111, 103]" "runes ''Git log'' = [71, 105, 116, 32, 108, 111, 103]"
  "runes [] = []" "trimFunc isSpace ''log'' = ''log''" "trimFunc isSpace ''Git log'' = ''Git log''" "trimFunc isSpace '' Use'' = ''Use''"
  by (simp_all add: validString_def demo_skill_def newline_def runes_def trimFunc_def byteN_def isSpace_def char_of_def bit_Suc_0_iff)

lemma demo_skill_root:
  "parseBoundedYAML demo_skill_yaml [] skillLimits = Inr (mapNode [(''name'', strNode ''log''), (''description'', strNode ''Git log'')])"
proof -
  have "node_height (mapNode [(''name'', strNode ''log''), (''description'', strNode ''Git log'')]) \<le> 2"
    by (rule mapNode_height) simp_all
  then show ?thesis
    by (simp add: parseBoundedYAML_def demo_skill_yaml_def skillLimits_def validateYAMLNode_iff rbind_eq_Inr preflight_empty validString_def
        mapNode_clean SkillFrontmatterMax_def ManifestMaxDepth_def ManifestMaxNodes_def)
qed

lemma demo_fields:
  "\<exists>f. mapping (mapNode [(''name'', strNode ''log''), (''description'', strNode ''Git log'')]) ''skill.frontmatter''
     [''name'', ''description'', ''license'', ''allowed-tools'', ''metadata'', ''compatibility''] = Inr f \<and>
   get f = map_of [(''name'', strNode ''log''), (''description'', strNode ''Git log'')]"
  by (rule mapping_mapNode) auto

lemma demo_ParseSkill: "ParseSkill demo_skill_yaml demo_skill_env demo_skill ''skills/log'' = Inr demo_document"
proof -
  obtain f where f: "mapping (mapNode [(''name'', strNode ''log''), (''description'', strNode ''Git log'')]) ''skill.frontmatter''
     [''name'', ''description'', ''license'', ''allowed-tools'', ''metadata'', ''compatibility''] = Inr f"
   "get f = map_of [(''name'', strNode ''log''), (''description'', strNode ''Git log'')]"
    using demo_fields by blast
  have "int (length demo_skill) \<le> SkillMaxBytes" by (simp add: demo_skill_def SkillMaxBytes_def)
  moreover have "validateAgentSkillName demo_skill_env ''log'' (pathBase ''skills/log'') = Inr ()"
    by (simp add: validateAgentSkillName_def demo_skill_env_def demo_runes pathBase_def slash_def maxAgentSkillNameCharacters_def
        MaxSkillNameBytes_def hasPrefix_def hasSuffix_def)
  ultimately show ?thesis
    using demo_runes demo_split demo_skill_root f
    by (simp add: ParseSkill_def Let_def SkillFrontmatterMax_def requiredString_back optionalString_def parseSkillMetadataMap_def
        demo_document_def maxAgentSkillDescriptionChars_def MaxSkillDescription_def maxAgentSkillCompatibilityChars_def
        demo_skill_env_def)
qed

text \<open>A skill document that is returned comes from bounded UTF-8 bytes; its name is the normalised name of the skill's directory, lower
  case, of letters, digits and single inner hyphens; name, description and compatibility keep their limits, and its body is
  the text after the frontmatter.\<close>

theorem ParseSkill_valid:
  assumes "ParseSkill yaml env data skillPath = Inr doc"
  shows "int (length data) \<le> SkillMaxBytes \<and> validString data \<and>
    (\<exists>front body. splitSkillFrontmatter data = Inr (front, body) \<and> int (length front) \<le> SkillFrontmatterMax \<and>
       doc_Body doc = trimFunc isSpace body) \<and>
    skill_name_ok env (sm_Name (doc_Metadata doc)) \<and> sm_Name (doc_Metadata doc) = se_NFKC env (pathBase skillPath) \<and>
    sm_Description (doc_Metadata doc) \<noteq> [] \<and> int (length (sm_Description (doc_Metadata doc))) \<le> MaxSkillDescription \<and>
    int (length (runes (sm_Description (doc_Metadata doc)))) \<le> maxAgentSkillDescriptionChars \<and>
    int (length (runes (sm_Compatibility (doc_Metadata doc)))) \<le> maxAgentSkillCompatibilityChars"
proof -
  obtain front body where s: "splitSkillFrontmatter data = Inr (front, body)" "int (length front) \<le> SkillFrontmatterMax"
    "int (length data) \<le> SkillMaxBytes" "validString data"
    using assms by (auto simp: ParseSkill_def Let_def split: if_splits sum.splits prod.splits)
  show ?thesis
    using assms s
    by (auto simp: ParseSkill_def Let_def rbind_eq_Inr validateAgentSkillName_iff split: if_splits sum.splits)
qed

theorem ParseSkill_valid_witness: "skill_name_ok demo_skill_env ''log'' \<and> se_NFKC demo_skill_env (pathBase ''skills/log'') = ''log''"
  using ParseSkill_valid [OF demo_ParseSkill] by (simp add: demo_document_def)

end
