(* ===== verification/Loader.thy ===== *)
theory Loader
  imports Skill
begin

text \<open>
  Loading packages from a directory into the snapshot store: \<^verbatim>\<open>source.go\<close>, \<^verbatim>\<open>source_unix.go\<close> and \<^verbatim>\<open>loader.go\<close> of
  \<^verbatim>\<open>internal/capability\<close>.

  The operating system is the record \<open>os_env\<close> of the calls the code makes: its handles have the type \<open>'fd\<close>, every open
  is relative to a handle with \<^verbatim>\<open>O_NOFOLLOW\<close>, and a file delivers the bytes of its \<open>reader\<close>, which need not agree
  with the size that \<^verbatim>\<open>fstat\<close> reported.  Handles are not counted: closing one only matters through the error it may
  return.  The hook \<^verbatim>\<open>afterStage\<close> is set by tests only.
\<close>

record 'fd os_env =
  os_Abs :: "string \<Rightarrow> string res"
  os_EvalSymlinks :: "string \<Rightarrow> string res"
  os_openDirectory :: "string \<Rightarrow> 'fd res"
  os_Dup :: "'fd \<Rightarrow> 'fd res"
  os_ReadDir :: "'fd \<Rightarrow> string list res"
  os_openatDirectory :: "'fd \<Rightarrow> string \<Rightarrow> 'fd res"
  os_openatFile :: "'fd \<Rightarrow> string \<Rightarrow> 'fd res"
  os_Fstat :: "'fd \<Rightarrow> (bool \<times> int) res"
  os_reader :: "'fd \<Rightarrow> reader"
  os_Close :: "'fd \<Rightarrow> error option"

record loader_env =
  le_sha256 :: "bytes \<Rightarrow> digest"
  le_mime :: "string \<Rightarrow> string"
  le_yaml :: yaml_parser
  le_text :: skill_env

section \<open>Sources\<close>

definition validatePackageComponent :: "string \<Rightarrow> unit res" where
  "validatePackageComponent name =
     (if name = [] \<or> name = ''.'' \<or> name = ''..'' \<or> slash \<in> set name \<or> CHR 0x5C \<in> set name
      then Inl (OtherError ''invalid package directory name'') else Inr ())"

definition splitSafePath :: "string \<Rightarrow> string list res" where
  "splitSafePath relative =
     (if relative = [] \<or> relative \<noteq> pathClean relative \<or> hasPrefix relative ''/'' \<or> containsString relative [CHR 0x5C]
      then Inl (OtherError ''unsafe package-relative path'')
      else let parts = splitOn slash relative in rbind (rmap validatePackageComponent parts) (\<lambda>_. Inr parts))"

definition sortedPackageNames :: "string list \<Rightarrow> string list res" where
  "sortedPackageNames names = rbind (rmap validatePackageComponent names) (\<lambda>_. Inr (sort names))"

definition openPackageRoot :: "'fd os_env \<Rightarrow> string \<Rightarrow> 'fd res" where
  "openPackageRoot os rootPath =
     (case os_Abs os rootPath of
        Inl e \<Rightarrow> Inl (OtherError ''resolve package root'')
      | Inr absolute \<Rightarrow>
        (case os_EvalSymlinks os absolute of
           Inl e \<Rightarrow> Inl (OtherError ''resolve canonical package root'')
         | Inr canonical \<Rightarrow>
           (case os_openDirectory os canonical of Inl e \<Rightarrow> Inl (OtherError ''open package root'') | Inr fd \<Rightarrow> Inr fd)))"

definition PackageNames :: "'fd os_env \<Rightarrow> 'fd \<Rightarrow> string list res" where
  "PackageNames os root =
     (case os_Dup os root of
        Inl e \<Rightarrow> Inl (OtherError ''duplicate package root handle'')
      | Inr fd \<Rightarrow>
        (case os_ReadDir os fd of
           Inl e \<Rightarrow> Inl (OtherError ''enumerate package root'')
         | Inr entries \<Rightarrow> sortedPackageNames (filter (\<lambda>n. n \<noteq> ''.'' \<and> n \<noteq> ''..'') entries)))"

definition OpenPackage :: "'fd os_env \<Rightarrow> 'fd \<Rightarrow> string \<Rightarrow> 'fd res" where
  "OpenPackage os root name =
     rbind (validatePackageComponent name) (\<lambda>_.
       case os_openatDirectory os root name of Inl e \<Rightarrow> Inl (OtherError ''open package directory'') | Inr fd \<Rightarrow> Inr fd)"

fun openDirectories :: "'fd os_env \<Rightarrow> 'fd \<Rightarrow> string list \<Rightarrow> 'fd res" where
  "openDirectories os directoryFD [] = Inr directoryFD"
| "openDirectories os directoryFD (component # rest) =
     (case os_openatDirectory os directoryFD component of
        Inl e \<Rightarrow> Inl (OtherError ''open package path component'')
      | Inr nextFD \<Rightarrow> openDirectories os nextFD rest)"

definition OpenRegularFile :: "'fd os_env \<Rightarrow> 'fd \<Rightarrow> string \<Rightarrow> ('fd \<times> int) res" where
  "OpenRegularFile os directory relative =
     rbind (splitSafePath relative) (\<lambda>parts.
       case os_Dup os directory of
         Inl e \<Rightarrow> Inl (OtherError ''duplicate package directory handle'')
       | Inr directoryFD \<Rightarrow>
         rbind (openDirectories os directoryFD (butlast parts)) (\<lambda>parentFD.
           case os_openatFile os parentFD (last parts) of
             Inl e \<Rightarrow> Inl (OtherError ''open package artifact'')
           | Inr fd \<Rightarrow>
             (case os_Fstat os fd of
                Inl e \<Rightarrow> Inl (OtherError ''inspect package artifact'')
              | Inr (isRegular, sz) \<Rightarrow>
                if \<not> isRegular then Inl (OtherError ''package artifact is not a regular file'') else Inr (fd, sz))))"

section \<open>The artifacts of a manifest\<close>

definition manifestFileName :: string where "manifestFileName = ''tappet.yaml''"

record artifactSpec =
  as_path :: string
  as_kind :: ArtifactKind
  as_id :: string
  as_maximum :: int

record 'fd artifactSource =
  src_spec :: artifactSpec
  src_file :: 'fd
  src_size :: int

text \<open>The closure \<^verbatim>\<open>add\<close> keeps the paths seen so far, which start with the manifest's, and the specifications so far.\<close>

definition addSpec :: "artifactSpec \<Rightarrow> string list \<times> artifactSpec list \<Rightarrow> (string list \<times> artifactSpec list) res" where
  "addSpec spec st =
     (case st of (seen, specs) \<Rightarrow>
        if as_path spec \<in> set seen then Inl (PackageError ''package_duplicate_artifact'' (as_path spec))
        else Inr (as_path spec # seen, specs @ [spec]))"

definition skillFile :: "SkillDeclaration \<Rightarrow> string" where
  "skillFile skill = pathJoin (sd_Path skill) ''SKILL.md''"

definition resourceFile :: "SkillDeclaration \<Rightarrow> SkillResource \<Rightarrow> string" where
  "resourceFile skill resource = pathJoin (sd_Path skill) (sr_Path resource)"

definition declaredSpecs :: "Manifest \<Rightarrow> artifactSpec list" where
  "declaredSpecs manifest =
     concat (map (\<lambda>skill.
       \<lparr>as_path = skillFile skill, as_kind = ArtifactSkill, as_id = sd_Path skill, as_maximum = SkillMaxBytes\<rparr> #
       map (\<lambda>resource. \<lparr>as_path = resourceFile skill resource, as_kind = ArtifactSkillResource,
                         as_id = sd_Path skill @ ''/'' @ sr_ID resource, as_maximum = ArtifactMaxBytes\<rparr>)
         (sd_Resources skill)) (sp_Skills (mf_Spec manifest))) @
     map (\<lambda>contextRef. \<lparr>as_path = cr_Path contextRef, as_kind = ArtifactContext, as_id = cr_ID contextRef,
                         as_maximum = ArtifactMaxBytes\<rparr>) (sp_Context (mf_Spec manifest))"

definition artifactSpecs :: "Manifest \<Rightarrow> artifactSpec list res" where
  "artifactSpecs manifest =
     rbind (foldItems (\<lambda>i. addSpec) 0 (declaredSpecs manifest) ([manifestFileName], [])) (\<lambda>(seen, specs). Inr specs)"

section \<open>Normalising a staged package\<close>

text \<open>Go reads the zero value of a map for an absent key.\<close>

definition stagedAt :: "stagingTransaction \<Rightarrow> string \<Rightarrow> stagedArtifact" where
  "stagedAt t name =
     (case get (tx_artifacts t) name of None \<Rightarrow> \<lparr>sa_data = [], sa_digest = replicate 32 (CHR 0x00)\<rparr> | Some a \<Rightarrow> a)"

definition addArtifact :: "Artifact \<Rightarrow> Record \<Rightarrow> Record" where
  "addArtifact a r = r\<lparr>rc_artifacts := put (ar_Ref a) a (rc_artifacts r)\<rparr>"

definition normalizeResource ::
  "loader_env \<Rightarrow> Manifest \<Rightarrow> string \<Rightarrow> stagingTransaction \<Rightarrow> SkillDeclaration \<Rightarrow> nat \<Rightarrow> SkillResource \<Rightarrow> Skill \<times> Record \<Rightarrow>
   (Skill \<times> Record) res" where
  "normalizeResource env manifest manifestDigest t skill i resource st =
     (let (skillRecord, r) = st; resourcePath = resourceFile skill resource; staged = stagedAt t resourcePath
      in if \<not> validString (sa_data staged) then Inl (PackageError ''package_artifact_invalid'' resourcePath)
         else let descriptor = newArtifact (le_sha256 env) (le_mime env) manifest manifestDigest ArtifactSkillResource (sr_ID resource)
                                 resourcePath staged
              in Inr (skillRecord\<lparr>sk_Resources := sk_Resources skillRecord @ [descriptor]\<rparr>, addArtifact descriptor r))"

definition normalizeSkill ::
  "loader_env \<Rightarrow> Manifest \<Rightarrow> string \<Rightarrow> stagingTransaction \<Rightarrow> nat \<Rightarrow> SkillDeclaration \<Rightarrow> Record \<Rightarrow> Record res" where
  "normalizeSkill env manifest manifestDigest t i skill r =
     (let staged = stagedAt t (skillFile skill)
      in rbind (ParseSkill (le_yaml env) (le_text env) (sa_data staged) (sd_Path skill)) (\<lambda>document.
           let descriptor = newArtifact (le_sha256 env) (le_mime env) manifest manifestDigest ArtifactSkill (sm_Name (doc_Metadata document))
                              (skillFile skill) staged;
               skillRecord = \<lparr>sk_Path = sd_Path skill, sk_Metadata = doc_Metadata document, sk_Artifact = descriptor, sk_Resources = []\<rparr>
           in rbind (foldItems (normalizeResource env manifest manifestDigest t skill) 0 (sd_Resources skill)
                       (skillRecord, addArtifact descriptor r)) (\<lambda>(skillRecord', r').
                Inr (r'\<lparr>rc_skills := rc_skills r' @ [skillRecord']\<rparr>))))"

definition normalizeContext ::
  "loader_env \<Rightarrow> Manifest \<Rightarrow> string \<Rightarrow> stagingTransaction \<Rightarrow> nat \<Rightarrow> ContextReference \<Rightarrow> Record \<Rightarrow> Record res" where
  "normalizeContext env manifest manifestDigest t i contextRef r =
     (let staged = stagedAt t (cr_Path contextRef)
      in if \<not> validString (sa_data staged) then Inl (PackageError ''package_artifact_invalid'' (cr_Path contextRef))
         else let descriptor = newArtifact (le_sha256 env) (le_mime env) manifest manifestDigest ArtifactContext (cr_ID contextRef)
                                 (cr_Path contextRef) staged
              in Inr (addArtifact descriptor (r\<lparr>rc_context := rc_context r @ [descriptor]\<rparr>)))"

definition normalizeStagedPackage :: "loader_env \<Rightarrow> Manifest \<Rightarrow> stagingTransaction \<Rightarrow> Record res" where
  "normalizeStagedPackage env manifest t =
     (let manifestArtifact = stagedAt t manifestFileName;
          manifestDigest = hexEncode (sa_digest manifestArtifact);
          r = \<lparr>rc_metadata = mf_Metadata manifest, rc_parent = sp_Parent (mf_Spec manifest), rc_manifestDigest = manifestDigest,
               rc_skills = [], rc_operations = sp_Operations (mf_Spec manifest), rc_context = [],
               rc_providers = sp_Providers (mf_Spec manifest), rc_artifacts = [], rc_snapshot = None\<rparr>;
          manifestDescriptor = newArtifact (le_sha256 env) (le_mime env) manifest manifestDigest ArtifactManifest ''manifest''
                                 manifestFileName manifestArtifact
      in rbind (foldItems (normalizeSkill env manifest manifestDigest t) 0 (sp_Skills (mf_Spec manifest))
                  (addArtifact manifestDescriptor r)) (\<lambda>r1.
         rbind (foldItems (normalizeContext env manifest manifestDigest t) 0 (sp_Context (mf_Spec manifest)) r1) (\<lambda>r2.
           Inr (sortRecord r2))))"

section \<open>Loading one package\<close>

text \<open>\<open>sbind\<close> sequences operations that return a result and the state of the store in both cases.\<close>

definition sbind :: "'a res \<times> 's \<Rightarrow> ('a \<Rightarrow> 's \<Rightarrow> 'b res \<times> 's) \<Rightarrow> 'b res \<times> 's" where
  "sbind m f = (case m of (r, s) \<Rightarrow> (case r of Inl e \<Rightarrow> (Inl e, s) | Inr x \<Rightarrow> f x s))"

definition update_or :: "error \<Rightarrow> 's res \<Rightarrow> 's \<Rightarrow> unit res \<times> 's" where
  "update_or e r s = (case r of Inl _ \<Rightarrow> (Inl e, s) | Inr s' \<Rightarrow> (Inr (), s'))"

definition packageFile :: "string \<Rightarrow> string \<Rightarrow> string" where
  "packageFile packageName path = packageName @ ''/'' @ path"

definition loadManifest ::
  "loader_env \<Rightarrow> 'fd os_env \<Rightarrow> 'fd \<Rightarrow> string \<Rightarrow> nat \<Rightarrow> snapshot_system \<Rightarrow> Manifest res \<times> snapshot_system" where
  "loadManifest env os directory packageName transaction s =
     (let file = packageFile packageName manifestFileName
      in case OpenRegularFile os directory manifestFileName of
        Inl e \<Rightarrow> (Inl (PackageError ''package_manifest_artifact_invalid'' file), s)
      | Inr (manifestFile, manifestSize) \<Rightarrow>
        if manifestSize > ManifestMaxBytes then (Inl (PackageError ''package_manifest_limit_exceeded'' file), s)
        else sbind (update_or (PackageError ''package_staging_capacity_exhausted'' packageName)
                      (sys_reserve transaction manifestSize s) s) (\<lambda>_ s.
             sbind (update_or (PackageError ''package_manifest_staging_failed'' file)
                      (sys_stage (le_sha256 env) transaction manifestFileName (os_reader os manifestFile) manifestSize ManifestMaxBytes s) s)
               (\<lambda>_ s.
             if os_Close os manifestFile \<noteq> None then (Inl (PackageError ''package_manifest_staging_failed'' file), s)
             else let manifestBytes = (case get (sys_txns s) transaction of None \<Rightarrow> []
                        | Some t \<Rightarrow> (case transaction_bytes manifestFileName t of None \<Rightarrow> [] | Some b \<Rightarrow> b))
                  in case ParseManifest (le_yaml env) (se_NFC (le_text env)) manifestBytes of
                       Inl e \<Rightarrow> (Inl e, s)
                     | Inr manifest \<Rightarrow>
                       if md_ID (mf_Metadata manifest) \<noteq> packageName
                       then (Inl (PackageError ''package_directory_mismatch'' packageName), s)
                       else (Inr manifest, s))))"

fun openSources :: "'fd os_env \<Rightarrow> 'fd \<Rightarrow> string \<Rightarrow> artifactSpec list \<Rightarrow> int \<Rightarrow> ('fd artifactSource list \<times> int) res" where
  "openSources os directory packageName [] remainingSize = Inr ([], remainingSize)"
| "openSources os directory packageName (spec # specs) remainingSize =
     (case OpenRegularFile os directory (as_path spec) of
        Inl e \<Rightarrow> Inl (PackageError ''package_artifact_invalid'' (packageFile packageName (as_path spec)))
      | Inr (file, sz) \<Rightarrow>
        if sz > as_maximum spec then Inl (PackageError ''package_artifact_limit_exceeded'' (packageFile packageName (as_path spec)))
        else rbind (openSources os directory packageName specs (add64 remainingSize sz)) (\<lambda>(sources, remaining).
               Inr (\<lparr>src_spec = spec, src_file = file, src_size = sz\<rparr> # sources, remaining)))"

fun stageSources ::
  "loader_env \<Rightarrow> 'fd os_env \<Rightarrow> string \<Rightarrow> nat \<Rightarrow> 'fd artifactSource list \<Rightarrow> snapshot_system \<Rightarrow> unit res \<times> snapshot_system" where
  "stageSources env os packageName transaction [] s = (Inr (), s)"
| "stageSources env os packageName transaction (source # sources) s =
     (let failed = PackageError ''package_artifact_staging_failed'' (packageFile packageName (as_path (src_spec source)))
      in sbind (update_or failed
                  (sys_stage (le_sha256 env) transaction (as_path (src_spec source)) (os_reader os (src_file source)) (src_size source)
                     (as_maximum (src_spec source)) s) s) (\<lambda>_ s.
           if os_Close os (src_file source) \<noteq> None then (Inl failed, s)
           else stageSources env os packageName transaction sources s))"

definition loadStaged ::
  "loader_env \<Rightarrow> 'fd os_env \<Rightarrow> 'fd \<Rightarrow> string \<Rightarrow> nat \<Rightarrow> snapshot_system \<Rightarrow> Record res \<times> snapshot_system" where
  "loadStaged env os directory packageName transaction s =
     sbind (loadManifest env os directory packageName transaction s) (\<lambda>manifest s.
     sbind (artifactSpecs manifest, s) (\<lambda>specs s.
     sbind (openSources os directory packageName specs 0, s) (\<lambda>(sources, remainingSize) s.
     sbind (update_or (PackageError ''package_staging_capacity_exhausted'' packageName) (sys_reserve transaction remainingSize s) s) (\<lambda>_ s.
     sbind (stageSources env os packageName transaction sources s) (\<lambda>_ s.
     sbind (case get (sys_txns s) transaction of None \<Rightarrow> (Inl (OtherError ''panic: nil transaction''), s)
            | Some t \<Rightarrow> (normalizeStagedPackage env manifest t, s)) (\<lambda>r s.
     case sys_commit transaction s of
       (Inl e, s') \<Rightarrow> (Inl (PackageError ''package_snapshot_commit_failed'' packageName), s')
     | (Inr snapshot, s') \<Rightarrow> (Inr (r\<lparr>rc_snapshot := Some snapshot\<rparr>), s')))))))"

definition loadFromRoot ::
  "loader_env \<Rightarrow> 'fd os_env \<Rightarrow> 'fd \<Rightarrow> string \<Rightarrow> snapshot_system \<Rightarrow> Record res \<times> snapshot_system" where
  "loadFromRoot env os root packageName s =
     (case validatePackageComponent packageName of
        Inl e \<Rightarrow> (Inl (PackageError ''package_directory_invalid'' packageName), s)
      | Inr u \<Rightarrow>
        (case OpenPackage os root packageName of
           Inl e \<Rightarrow> (Inl (PackageError ''package_directory_invalid'' packageName), s)
         | Inr directory \<Rightarrow>
           let (s1, transaction) = sys_begin s;
               (result, s2) = loadStaged env os directory packageName transaction s1
           in (result, case result of Inl e \<Rightarrow> sys_abort transaction s2 | Inr r \<Rightarrow> s2)))"

section \<open>Loading\<close>

definition NewLoader :: "string \<Rightarrow> snapshot_system option \<Rightarrow> string res" where
  "NewLoader rootPath store =
     (if rootPath = [] then Inl (OtherError ''capability package root is required'')
      else if store = None then Inl (OtherError ''snapshot store is required'')
      else Inr rootPath)"

definition Load :: "loader_env \<Rightarrow> 'fd os_env \<Rightarrow> string \<Rightarrow> string \<Rightarrow> snapshot_system \<Rightarrow> Record res \<times> snapshot_system" where
  "Load env os rootPath name s =
     (case openPackageRoot os rootPath of
        Inl e \<Rightarrow> (Inl (PackageError ''package_root_invalid'' rootPath), s)
      | Inr root \<Rightarrow> loadFromRoot env os root name s)"

fun loadNames ::
  "loader_env \<Rightarrow> 'fd os_env \<Rightarrow> 'fd \<Rightarrow> string list \<Rightarrow> string list \<Rightarrow> Record list \<Rightarrow> snapshot_system \<Rightarrow> Record list res \<times> snapshot_system" where
  "loadNames env os root [] seenIDs records s = (Inr records, s)"
| "loadNames env os root (name # names) seenIDs records s =
     (case loadFromRoot env os root name s of
        (Inl e, s') \<Rightarrow> (Inl e, fold Record_release records s')
      | (Inr r, s') \<Rightarrow>
        if md_ID (rc_metadata r) \<in> set seenIDs
        then (Inl (PackageError ''package_duplicate_capability'' name), fold Record_release records (Record_release r s'))
        else loadNames env os root names (md_ID (rc_metadata r) # seenIDs) (records @ [r]) s')"

definition LoadAll :: "loader_env \<Rightarrow> 'fd os_env \<Rightarrow> string \<Rightarrow> snapshot_system \<Rightarrow> Record list res \<times> snapshot_system" where
  "LoadAll env os rootPath s =
     (case openPackageRoot os rootPath of
        Inl e \<Rightarrow> (Inl (PackageError ''package_root_invalid'' rootPath), s)
      | Inr root \<Rightarrow>
        (case PackageNames os root of
           Inl e \<Rightarrow> (Inl (PackageError ''package_root_invalid'' rootPath), s)
         | Inr names \<Rightarrow>
           sbind (loadNames env os root names [] [] s) (\<lambda>records s. (Inr (sort_key (\<lambda>r. md_ID (rc_metadata r)) records), s))))"

end
