(* ===== verification/Loader_Stage.thy ===== *)
theory Loader_Stage
  imports Loader Manifest_Props
begin

text \<open>
  A transaction while a package is being staged: the store is the one before it, apart from the bytes it has reserved, and
  every operation of the loader is a step of the snapshot system.
\<close>

section \<open>A transaction that is being filled\<close>

definition staging :: "(bytes \<Rightarrow> digest) \<Rightarrow> snapshot_system \<Rightarrow> nat \<Rightarrow> snapshot_system \<Rightarrow> stagingTransaction \<Rightarrow> bool" where
  "staging sha256 s0 a s t \<longleftrightarrow>
     sys_inv sha256 s \<and> (sys_step sha256)\<^sup>*\<^sup>* s0 s \<and> get (sys_txns s) a = Some t \<and> \<not> tx_closed t \<and>
     sys_snaps s = sys_snaps s0 \<and> sys_leases s = sys_leases s0 \<and>
     sys_store s = (sys_store s0)\<lparr>st_stagingReserved := st_stagingReserved (sys_store s0) + tx_reserved t,
       st_snapshotReserved := st_snapshotReserved (sys_store s0) + tx_reserved t\<rparr>"

lemma stagingD:
  assumes "staging sha256 s0 a s t"
  shows "sys_inv sha256 s" "(sys_step sha256)\<^sup>*\<^sup>* s0 s" "get (sys_txns s) a = Some t" "\<not> tx_closed t"
    "sys_snaps s = sys_snaps s0" "sys_leases s = sys_leases s0" "tx_ok sha256 t"
  using assms by (auto simp: staging_def sys_inv_def heaps_ok_def)

lemma staging_begin:
  assumes "sys_inv sha256 s0" "sys_begin s0 = (s, a)"
  shows "staging sha256 s0 a s begin_transaction"
proof -
  have "s = s0\<lparr>sys_txns := put a begin_transaction (sys_txns s0)\<rparr>" using assms(2) by (auto simp: sys_begin_def Let_def)
  moreover have "sys_inv sha256 s" using sys_begin_inv [OF assms(1)] assms(2) by simp
  moreover have "sys_step sha256 s0 s" using sys_step.step_begin [of sha256 s0] assms(2) by simp
  ultimately show ?thesis by (auto simp: staging_def begin_transaction_def gomap_simps)
qed

lemma staging_reserve:
  assumes st: "staging sha256 s0 a s t" and r: "sys_reserve a sz s = Inr s'" and sz: "sz \<le> 2 ^ 61"
  shows "staging sha256 s0 a s' (t\<lparr>tx_reserved := tx_reserved t + sz, tx_packageSize := tx_packageSize t + sz\<rparr>)"
proof -
  note d = stagingD [OF st]
  note i = sys_reserve_inv [OF d(1,3,4) sz r]
  obtain st' t' where r': "reserve sz (sys_store s) t = Inr (st', t')" and s': "sys_store s' = st'"
    using r d(3) by (auto simp: sys_reserve_def res_simps)
  have "0 \<le> st_snapshotUsed (sys_store s)" using d(1) store_ok_used_nonneg by (auto simp: sys_inv_def)
  moreover have "0 \<le> msum open_reserved (sys_txns s)" using d(1) open_reserved_nonneg by (auto simp: sys_inv_def)
  moreover have "0 \<le> tx_packageSize t" "tx_packageSize t \<le> PackageArtifactMax" "tx_reserved t = tx_packageSize t"
    using d(7) by (auto simp: tx_ok_def)
  ultimately have "st' = (sys_store s)\<lparr>st_stagingReserved := st_stagingReserved (sys_store s) + sz,
      st_snapshotReserved := st_snapshotReserved (sys_store s) + sz\<rparr>"
    using reserve_exact [OF r' sz] d(1) by (auto simp: sys_inv_def quota_ok_def limits_ok_def)
  moreover have "sys_step sha256 s s'" using sys_step.step_reserve [OF d(3,4) sz r] .
  ultimately show ?thesis using st i d s' by (auto simp: staging_def intro: rtranclp.rtrancl_into_rtrancl)
qed

lemma staging_stage:
  assumes st: "staging sha256 s0 a s t" and r: "sys_stage sha256 a name rd sz maximum s = Inr s'"
    and fits: "tx_staged t + sz \<le> tx_reserved t"
  obtains data where "int (length data) = sz" "data = take (nat sz) (fst rd)" "get (tx_artifacts t) name = None"
    "staging sha256 s0 a s' (t\<lparr>tx_artifacts := put name \<lparr>sa_data = data, sa_digest = sha256 data\<rparr> (tx_artifacts t)\<rparr>)"
proof -
  note d = stagingD [OF st]
  obtain t' where r': "stageReserved sha256 name rd sz maximum t = Inr t'" and s': "s' = s\<lparr>sys_txns := put a t' (sys_txns s)\<rparr>"
    using r d(3) by (auto simp: sys_stage_def res_simps)
  obtain data where data: "int (length data) = sz" "get (tx_artifacts t) name = None" "take (length data) (fst rd) = data"
    "t' = t\<lparr>tx_artifacts := put name \<lparr>sa_data = data, sa_digest = sha256 data\<rparr> (tx_artifacts t)\<rparr>"
    using stageReserved_Inr [OF r'] by metis
  have inv: "sys_inv sha256 s'" using sys_stage_inv [OF d(1,3) fits r] .
  have step: "(sys_step sha256)\<^sup>*\<^sup>* s0 s'" using d(2) sys_step.step_stage [OF d(3) fits r] by (rule rtranclp.rtrancl_into_rtrancl)
  have "staging sha256 s0 a s' t'" using st inv step by (auto simp: staging_def s' data(4) gomap_simps)
  moreover have "data = take (nat sz) (fst rd)" using data(1,3) by (metis nat_int)
  ultimately show ?thesis using that [OF data(1) _ data(2)] data(4) by simp
qed

lemma tx_staged_put:
  "tx_ok sha256 t \<Longrightarrow> get (tx_artifacts t) name = None \<Longrightarrow>
   tx_staged (t\<lparr>tx_artifacts := put name x (tx_artifacts t)\<rparr>) = tx_staged t + int (length (sa_data x))"
  by (simp add: tx_staged_def tx_ok_def msum_put)

lemma staging_abort:
  assumes st: "staging sha256 s0 a s t"
  shows "sys_inv sha256 (sys_abort a s)" "(sys_step sha256)\<^sup>*\<^sup>* s0 (sys_abort a s)" "sys_store (sys_abort a s) = sys_store s0"
    "sys_snaps (sys_abort a s) = sys_snaps s0" "sys_leases (sys_abort a s) = sys_leases s0"
proof -
  note d = stagingD [OF st]
  show "sys_inv sha256 (sys_abort a s)" using d(1) by (rule sys_abort_inv)
  show "(sys_step sha256)\<^sup>*\<^sup>* s0 (sys_abort a s)" using d(2) sys_step.step_abort by (rule rtranclp.rtrancl_into_rtrancl)
  show "sys_store (sys_abort a s) = sys_store s0" "sys_snaps (sys_abort a s) = sys_snaps s0" "sys_leases (sys_abort a s) = sys_leases s0"
    using st by (auto simp: staging_def sys_abort_def abort_transaction_def)
qed

lemma staging_commit:
  assumes st: "staging sha256 s0 a s t"
  obtains b s' where "sys_commit a s = (Inr b, s')" "b = fresh (sys_snaps s0)" "sys_inv sha256 s'" "(sys_step sha256)\<^sup>*\<^sup>* s0 s'"
    "sys_leases s' = sys_leases s0"
    "sys_snaps s' = put b \<lparr>sn_digests = map (\<lambda>(name, x). (name, sa_digest x)) (tx_artifacts t), sn_once = False\<rparr> (sys_snaps s0)"
    "\<And>d x. object_data (sys_store s') d = Some x \<longleftrightarrow> object_data (fst (commit_objects (tx_artifacts t) (sys_store s0))) d = Some x"
    "st_limits (sys_store s') = st_limits (sys_store s0) \<and> st_stagingReserved (sys_store s') = st_stagingReserved (sys_store s0) \<and>
     st_snapshotReserved (sys_store s') = st_snapshotReserved (sys_store s0)"
proof -
  note d = stagingD [OF st]
  obtain b s' where c: "sys_commit a s = (Inr b, s')" using sys_commit_eq [OF d(1,3,4)] by auto
  have s': "b = fresh (sys_snaps s0)" "sys_leases s' = sys_leases s0"
    "sys_snaps s' = put b \<lparr>sn_digests = map (\<lambda>(name, x). (name, sa_digest x)) (tx_artifacts t), sn_once = False\<rparr> (sys_snaps s0)"
    "sys_store s' = (fst (commit_objects (tx_artifacts t) (sys_store s)))\<lparr>
          st_stagingReserved := st_stagingReserved (sys_store s) - tx_reserved t,
          st_snapshotReserved := st_snapshotReserved (sys_store s) - tx_reserved t\<rparr>"
    using sys_commit_eq [OF d(1,3,4)] c d(5,6) by auto
  have "sys_inv sha256 s'" using sys_commit_inv [OF d(1), of a] c by simp
  moreover have "(sys_step sha256)\<^sup>*\<^sup>* s0 s'" using d(2) sys_step.step_commit [of sha256 s a] c by (auto intro: rtranclp.rtrancl_into_rtrancl)
  moreover have "object_data (fst (commit_objects xs (st\<lparr>st_stagingReserved := p, st_snapshotReserved := q\<rparr>))) e =
      object_data (fst (commit_objects xs st)) e" for xs st p q e
  proof (induction xs arbitrary: st)
    case (Cons x xs)
    obtain n y where x: "x = (n, y)" by force
    have "retain_object (sa_digest y) (sa_data y) (st\<lparr>st_stagingReserved := p, st_snapshotReserved := q\<rparr>) =
      (retain_object (sa_digest y) (sa_data y) st)\<lparr>st_stagingReserved := p, st_snapshotReserved := q\<rparr>"
      by (simp add: retain_object_def split: option.splits)
    then show ?case using Cons.IH by (simp add: x case_prod_beta Let_def)
  qed simp
  ultimately show ?thesis
    using that [OF c s'(1) _ _ s'(2,3)] st s'(4) by (auto simp: staging_def)
qed

end
