(* ===== verification/Loader_Inv.thy ===== *)
theory Loader_Inv
  imports Loader_Stage
begin

text \<open>
  What the phases of loading a package establish: the artifacts of a manifest are opened and staged within what was
  reserved for them, and the record describes exactly the staged bytes.
\<close>

section \<open>The artifacts of a manifest\<close>

lemma foldItems_addSpec:
  "foldItems (\<lambda>i. addSpec) i xs (seen, acc) = Inr (seen', acc') \<Longrightarrow>
   acc' = acc @ xs \<and> distinct (map as_path xs) \<and> set (map as_path xs) \<inter> set seen = {}"
proof (induction xs arbitrary: i seen acc)
  case (Cons x xs)
  have "addSpec x (seen, acc) = (if as_path x \<in> set seen then Inl (PackageError ''package_duplicate_artifact'' (as_path x))
      else Inr (as_path x # seen, acc @ [x]))"
    by (simp add: addSpec_def)
  then have "as_path x \<notin> set seen" and "foldItems (\<lambda>i. addSpec) (Suc i) xs (as_path x # seen, acc @ [x]) = Inr (seen', acc')"
    using Cons.prems by (auto split: if_splits)
  then show ?case using Cons.IH by fastforce
qed simp

lemma artifactSpecs_Inr:
  "artifactSpecs m = Inr specs \<Longrightarrow> specs = declaredSpecs m \<and> distinct (manifestFileName # map as_path specs)"
  using foldItems_addSpec [of 0 "declaredSpecs m" "[manifestFileName]" "[]"] by (auto simp: artifactSpecs_def res_simps)

lemma length_declaredSpecs:
  "int (length (declaredSpecs m)) =
     int (length (sp_Skills (mf_Spec m))) + resourceCount (sp_Skills (mf_Spec m)) + int (length (sp_Context (mf_Spec m)))"
proof -
  have "int (length (concat (map (\<lambda>s. f s # map (g s) (sd_Resources s)) ss))) = int (length ss) + resourceCount ss"
    for f :: "SkillDeclaration \<Rightarrow> artifactSpec" and g ss
    by (induction ss) (auto simp: resourceCount_def)
  then show ?thesis by (simp add: declaredSpecs_def)
qed

lemma declaredSpecs_maximum: "spec \<in> set (declaredSpecs m) \<Longrightarrow> as_maximum spec \<le> 4194304"
  by (auto simp: declaredSpecs_def SkillMaxBytes_def ArtifactMaxBytes_def)

text \<open>Every path of a valid manifest is plain, so that the file system layer never refuses it.\<close>

lemma declaredSpecs_plain:
  assumes "manifest_ok nfc m" "spec \<in> set (declaredSpecs m)"
  shows "plain_path (as_path spec) \<and> CHR 0x5C \<notin> set (as_path spec)"
proof -
  have sk: "plain_path (sd_Path s) \<and> CHR 0x5C \<notin> set (sd_Path s)" if "s \<in> set (sp_Skills (mf_Spec m))" for s
    using assms(1) that by (auto simp: manifest_ok_def spec_ok_def skill_ok_def path_ok_def list_all_iff)
  have rs: "plain_path (sr_Path r) \<and> CHR 0x5C \<notin> set (sr_Path r)"
    if "s \<in> set (sp_Skills (mf_Spec m))" "r \<in> set (sd_Resources s)" for s r
    using assms(1) that by (auto simp: manifest_ok_def spec_ok_def skill_ok_def resource_ok_def path_ok_def list_all_iff)
  have cs: "plain_path (cr_Path c) \<and> CHR 0x5C \<notin> set (cr_Path c)" if "c \<in> set (sp_Context (mf_Spec m))" for c
    using assms(1) that by (auto simp: manifest_ok_def spec_ok_def context_ok_def path_ok_def list_all_iff)
  have md: "plain_path ''SKILL.md''" "CHR 0x5C \<noteq> slash" by (simp_all add: plain_path_def plain_elem_def slash_def)
  show ?thesis
    using assms(2) sk rs cs md by (auto simp: declaredSpecs_def skillFile_def resourceFile_def plain_path_join)
qed

lemma rmap_unit: "rmap f xs = Inr ys \<longleftrightarrow> list_all (\<lambda>x. f x = Inr ()) xs \<and> ys = replicate (length xs) ()"
  by (induction xs arbitrary: ys) (auto simp: res_simps)

lemma splitSafePath_iff:
  "splitSafePath p = Inr parts \<longleftrightarrow> plain_path p \<and> CHR 0x5C \<notin> set p \<and> parts = splitOn slash p"
proof
  assume s: "splitSafePath p = Inr parts"
  then have "list_all (\<lambda>e. validatePackageComponent e = Inr ()) (splitOn slash p)" "CHR 0x5C \<notin> set p" "parts = splitOn slash p"
    by (auto simp: splitSafePath_def Let_def rbind_eq_Inr rmap_unit containsString_single split: if_splits)
  then show "plain_path p \<and> CHR 0x5C \<notin> set p \<and> parts = splitOn slash p"
    by (auto simp: plain_path_def plain_elem_def validatePackageComponent_def list_all_iff split: if_splits)
next
  assume p: "plain_path p \<and> CHR 0x5C \<notin> set p \<and> parts = splitOn slash p"
  have sub: "set e \<subseteq> set p" if "e \<in> set (splitOn slash p)" for e
    using that by (induction p arbitrary: e) (fastforce split: if_splits list.splits)+
  have "list_all (\<lambda>e. validatePackageComponent e = Inr ()) (splitOn slash p)"
    using p sub split_parts [of _ slash p] by (auto simp: validatePackageComponent_def list_all_iff plain_path_def plain_elem_def)
  moreover have "\<not> hasPrefix p ''/''" "p \<noteq> []"
    using plain_path_relative [of p] p by (auto simp: hasPrefix_iff slash_def)
  ultimately show "splitSafePath p = Inr parts"
    using p pathClean_plain [of p] by (auto simp: splitSafePath_def Let_def rbind_eq_Inr rmap_unit containsString_single)
qed

section \<open>Opening and staging\<close>

definition fstat_ok :: "'fd os_env \<Rightarrow> bool" where
  "fstat_ok os \<longleftrightarrow> (\<forall>fd r n. os_Fstat os fd = Inr (r, n) \<longrightarrow> 0 \<le> n)"

lemma OpenRegularFile_Inr:
  assumes "OpenRegularFile os d p = Inr (fd, n)"
  obtains parts directoryFD parentFD where "splitSafePath p = Inr parts" "os_Dup os d = Inr directoryFD"
    "openDirectories os directoryFD (butlast parts) = Inr parentFD" "os_openatFile os parentFD (last parts) = Inr fd"
    "os_Fstat os fd = Inr (True, n)"
proof -
  obtain parts where 1: "splitSafePath p = Inr parts" using assms by (auto simp: OpenRegularFile_def rbind_eq_Inr)
  obtain directoryFD where 2: "os_Dup os d = Inr directoryFD"
    using assms 1 by (cases "os_Dup os d") (auto simp: OpenRegularFile_def)
  obtain parentFD where 3: "openDirectories os directoryFD (butlast parts) = Inr parentFD"
    using assms 1 2 by (auto simp: OpenRegularFile_def rbind_eq_Inr)
  obtain fd' where 4: "os_openatFile os parentFD (last parts) = Inr fd'"
    using assms 1 2 3 by (cases "os_openatFile os parentFD (last parts)") (auto simp: OpenRegularFile_def)
  have "fd' = fd \<and> os_Fstat os fd = Inr (True, n)"
    using assms 1 2 3 4 by (cases "os_Fstat os fd'") (auto simp: OpenRegularFile_def split: prod.splits if_splits)
  then show ?thesis using that 1 2 3 4 by blast
qed

lemma OpenRegularFile_size: "fstat_ok os \<Longrightarrow> OpenRegularFile os d p = Inr (fd, n) \<Longrightarrow> 0 \<le> n"
  by (elim OpenRegularFile_Inr) (simp add: fstat_ok_def)

definition sizes :: "'fd artifactSource list \<Rightarrow> int" where
  "sizes sources = sum_list (map src_size sources)"

lemma openSources_Inr:
  assumes "openSources os d pkg specs n = Inr (sources, m)" "fstat_ok os" "list_all (\<lambda>s. as_maximum s \<le> 4194304) specs"
    "0 \<le> n" "n + 4194304 * int (length specs) \<le> 2 ^ 61"
  shows "map src_spec sources = specs \<and> m = n + sizes sources \<and> m \<le> n + 4194304 * int (length specs) \<and>
    list_all (\<lambda>s. OpenRegularFile os d (as_path (src_spec s)) = Inr (src_file s, src_size s) \<and> 0 \<le> src_size s) sources"
  using assms
proof (induction specs arbitrary: n sources)
  case (Cons spec specs)
  obtain fd sz rest where o: "OpenRegularFile os d (as_path spec) = Inr (fd, sz)" "sz \<le> as_maximum spec"
    "openSources os d pkg specs (add64 n sz) = Inr (rest, m)" "sources = \<lparr>src_spec = spec, src_file = fd, src_size = sz\<rparr> # rest"
    using Cons.prems(1) by (auto simp: rbind_eq_Inr split: sum.splits prod.splits if_splits)
  have sz: "0 \<le> sz" "sz \<le> 4194304" using OpenRegularFile_size [OF Cons.prems(2) o(1)] o(2) Cons.prems(3) by auto
  have add: "add64 n sz = n + sz" using sz Cons.prems(4,5) by (intro add64_id) auto
  have "map src_spec rest = specs \<and> m = n + sz + sizes rest \<and> m \<le> n + sz + 4194304 * int (length specs) \<and>
    list_all (\<lambda>s. OpenRegularFile os d (as_path (src_spec s)) = Inr (src_file s, src_size s) \<and> 0 \<le> src_size s) rest"
    by (rule Cons.IH) (use o(3) add sz Cons.prems in auto)
  then show ?case using o sz by (simp add: sizes_def)
qed (auto simp: sizes_def)

definition stagedFile :: "loader_env \<Rightarrow> 'fd os_env \<Rightarrow> 'fd \<Rightarrow> int \<Rightarrow> stagedArtifact" where
  "stagedFile env os fd n =
     \<lparr>sa_data = take (nat n) (fst (os_reader os fd)), sa_digest = le_sha256 env (take (nat n) (fst (os_reader os fd)))\<rparr>"

lemma stageSources_staging:
  assumes "stageSources env os pkg a sources s = (res, s')" "staging (le_sha256 env) s0 a s t"
    "tx_staged t + sizes sources \<le> tx_reserved t" "list_all (\<lambda>s. 0 \<le> src_size s) sources"
  shows "\<exists>t'. staging (le_sha256 env) s0 a s' t' \<and>
    (res = Inr () \<longrightarrow> get (tx_artifacts t') =
       get (tx_artifacts t) ++ map_of (map (\<lambda>s. (as_path (src_spec s), stagedFile env os (src_file s) (src_size s))) sources) \<and>
       distinct (map (\<lambda>s. as_path (src_spec s)) sources) \<and>
       set (map (\<lambda>s. as_path (src_spec s)) sources) \<inter> dom (get (tx_artifacts t)) = {})"
  using assms
proof (induction sources arbitrary: s t)
  case (Cons x xs)
  let ?path = "as_path (src_spec x)"
  let ?stage = "sys_stage (le_sha256 env) a ?path (os_reader os (src_file x)) (src_size x) (as_maximum (src_spec x)) s"
  show ?case
  proof (cases ?stage)
    case (Inl e)
    then have "res \<noteq> Inr ()" "s' = s" using Cons.prems(1) by (auto simp: sbind_def update_or_def Let_def)
    then show ?thesis using Cons.prems(2) by blast
  next
    case (Inr s1)
    have rest: "0 \<le> sizes xs" "sizes (x # xs) = src_size x + sizes xs" using Cons.prems(4)
      by (auto simp: sizes_def list_all_iff intro!: sum_list_nonneg)
    then have fits: "tx_staged t + src_size x \<le> tx_reserved t" using Cons.prems(3) by simp
    obtain data where data: "int (length data) = src_size x" "data = take (nat (src_size x)) (fst (os_reader os (src_file x)))"
      "get (tx_artifacts t) ?path = None"
      "staging (le_sha256 env) s0 a s1
         (t\<lparr>tx_artifacts := put ?path \<lparr>sa_data = data, sa_digest = le_sha256 env data\<rparr> (tx_artifacts t)\<rparr>)"
      using staging_stage [OF Cons.prems(2) Inr fits] by blast
    let ?t = "t\<lparr>tx_artifacts := put ?path (stagedFile env os (src_file x) (src_size x)) (tx_artifacts t)\<rparr>"
    have x: "\<lparr>sa_data = data, sa_digest = le_sha256 env data\<rparr> = stagedFile env os (src_file x) (src_size x)"
      by (simp add: stagedFile_def data(2))
    have st: "staging (le_sha256 env) s0 a s1 ?t" using data(4) by (simp only: x)
    show ?thesis
    proof (cases "os_Close os (src_file x) = None")
      case False
      then have "res \<noteq> Inr ()" "s' = s1" using Cons.prems(1) Inr by (auto simp: sbind_def update_or_def Let_def)
      then show ?thesis using st by blast
    next
      case True
      then have rec: "stageSources env os pkg a xs s1 = (res, s')"
        using Cons.prems(1) Inr by (simp add: sbind_def update_or_def Let_def)
      have "tx_staged ?t = tx_staged t + src_size x"
        using tx_staged_put [OF stagingD(7) [OF Cons.prems(2)] data(3), of "stagedFile env os (src_file x) (src_size x)"] data(1)
        by (simp flip: x)
      then obtain t' where t': "staging (le_sha256 env) s0 a s' t'"
        "res = Inr () \<Longrightarrow> get (tx_artifacts t') =
         get (tx_artifacts ?t) ++ map_of (map (\<lambda>s. (as_path (src_spec s), stagedFile env os (src_file s) (src_size s))) xs) \<and>
         distinct (map (\<lambda>s. as_path (src_spec s)) xs) \<and> set (map (\<lambda>s. as_path (src_spec s)) xs) \<inter> dom (get (tx_artifacts ?t)) = {}"
        using Cons.IH [OF rec st] Cons.prems(3,4) rest by auto
      let ?rest = "map_of (map (\<lambda>s. (as_path (src_spec s), stagedFile env os (src_file s) (src_size s))) xs)"
      have keys: "dom ?rest = set (map (\<lambda>s. as_path (src_spec s)) xs)" by (simp add: dom_map_of_conv_image_fst image_image)
      show ?thesis
      proof (intro exI [of _ t'] conjI impI t'(1))
        assume ok: "res = Inr ()"
        have disj: "set (map (\<lambda>s. as_path (src_spec s)) xs) \<inter> insert ?path (dom (get (tx_artifacts t))) = {}"
          using t'(2) [OF ok] by (auto simp: dom_def gomap_simps split: if_splits)
        show "get (tx_artifacts t') = get (tx_artifacts t) ++
            map_of (map (\<lambda>s. (as_path (src_spec s), stagedFile env os (src_file s) (src_size s))) (x # xs))"
        proof -
          have "?path \<notin> dom ?rest" unfolding keys using disj by auto
          then have "?rest ?path = None" by (simp add: domIff)
          moreover have "get (tx_artifacts t') = get (tx_artifacts ?t) ++ ?rest" using t'(2) [OF ok] by blast
          ultimately show ?thesis by (auto simp: fun_eq_iff map_add_def gomap_simps split: option.splits)
        qed
        show "distinct (map (\<lambda>s. as_path (src_spec s)) (x # xs))" using t'(2) [OF ok] disj by auto
        show "set (map (\<lambda>s. as_path (src_spec s)) (x # xs)) \<inter> dom (get (tx_artifacts t)) = {}" using disj data(3) by auto
      qed
    qed
  qed
qed auto

end
