(* ===== verification/Loader_Record.thy ===== *)
theory Loader_Record
  imports Loader_Inv Registry_Props
begin

text \<open>The record that loading builds describes the staged bytes, and loading a package either commits them or leaves no trace.\<close>

section \<open>The record describes what was staged\<close>

text \<open>The parts of a record that are not artifacts, and what the manifest parser has checked of its operations.\<close>

definition head_of :: "Record \<Rightarrow> Metadata \<times> Operation list \<times> ProviderBinding list" where
  "head_of r = (rc_metadata r, rc_operations r, rc_providers r)"

lemma head_of_updates [simp]:
  "head_of (r\<lparr>rc_artifacts := x\<rparr>) = head_of r" "head_of (r\<lparr>rc_context := y\<rparr>) = head_of r" "head_of (r\<lparr>rc_skills := z\<rparr>) = head_of r"
  by (simp_all add: head_of_def)

definition operations_ok :: "Record \<Rightarrow> bool" where
  "operations_ok r \<longleftrightarrow>
     distinct (map op_ID (rc_operations r)) \<and> md_ID (rc_metadata r) \<noteq> [] \<and>
     list_all (\<lambda>x. op_ID x \<noteq> [] \<and> dot \<notin> set (op_ID x) \<and> op_Provider x \<in> pb_ID ` set (rc_providers r)) (rc_operations r)"

definition describes :: "stagingTransaction \<Rightarrow> Artifact \<Rightarrow> bool" where
  "describes t a \<longleftrightarrow>
     ar_SHA256 a = hexEncode (sa_digest (stagedAt t (ar_Path a))) \<and> ar_Bytes a = int (length (sa_data (stagedAt t (ar_Path a))))"

definition arts_ok :: "stagingTransaction \<Rightarrow> string set \<Rightarrow> Record \<Rightarrow> bool" where
  "arts_ok t paths r \<longleftrightarrow> list_all (\<lambda>(ref, a). ref = ar_Ref a \<and> ar_Path a \<in> paths \<and> describes t a) (rc_artifacts r)"

lemma arts_ok_cong: "rc_artifacts r' = rc_artifacts r \<Longrightarrow> arts_ok t paths r' = arts_ok t paths r"
  by (simp add: arts_ok_def)

lemma arts_ok_add:
  "arts_ok t paths r \<Longrightarrow> p \<in> paths \<Longrightarrow> arts_ok t paths (addArtifact (newArtifact sha256 mime m dg kind aid p (stagedAt t p)) r)"
  by (auto simp: arts_ok_def addArtifact_def describes_def newArtifact_def Let_def list_all_iff dest!: set_put_subset [THEN subsetD])

lemma normalizeResource_ok:
  assumes "normalizeResource env m dg t skill i res (sk, r) = Inr (sk', r')" "resourceFile skill res \<in> paths"
  shows "arts_ok t paths r \<longrightarrow> arts_ok t paths r'" "head_of r' = head_of r"
proof -
  have r': "r' = addArtifact (newArtifact (le_sha256 env) (le_mime env) m dg ArtifactSkillResource (sr_ID res) (resourceFile skill res)
      (stagedAt t (resourceFile skill res))) r"
    using assms(1) by (auto simp: normalizeResource_def Let_def split: if_splits)
  show "arts_ok t paths r \<longrightarrow> arts_ok t paths r'" using arts_ok_add [OF _ assms(2)] by (auto simp: r')
  show "head_of r' = head_of r" by (simp add: r' addArtifact_def)
qed

lemma normalizeSkill_ok:
  assumes "normalizeSkill env m dg t i skill r = Inr r'" "skillFile skill \<in> paths" "\<forall>res \<in> set (sd_Resources skill). resourceFile skill res \<in> paths"
  shows "arts_ok t paths r \<longrightarrow> arts_ok t paths r'" "head_of r' = head_of r"
proof -
  let ?a = "\<lambda>doc :: SkillDocument. newArtifact (le_sha256 env) (le_mime env) m dg ArtifactSkill (sm_Name (doc_Metadata doc)) (skillFile skill)
    (stagedAt t (skillFile skill))"
  let ?sk = "\<lambda>doc :: SkillDocument. \<lparr>sk_Path = sd_Path skill, sk_Metadata = doc_Metadata doc, sk_Artifact = ?a doc, sk_Resources = []\<rparr>"
  obtain doc sk' r2 where steps:
    "foldItems (normalizeResource env m dg t skill) 0 (sd_Resources skill) (?sk doc, addArtifact (?a doc) r) = Inr (sk', r2)"
    "r' = r2\<lparr>rc_skills := rc_skills r2 @ [sk']\<rparr>"
    using assms(1) by (auto simp: normalizeSkill_def Let_def rbind_eq_Inr)
  let ?P = "\<lambda>n st. (arts_ok t paths r \<longrightarrow> arts_ok t paths (snd st)) \<and> head_of (snd st) = head_of r"
  have "?P (0 + length (sd_Resources skill)) (sk', r2)"
  proof (rule foldItems_inv [OF steps(1)])
    show "?P 0 (?sk doc, addArtifact (?a doc) r)" using arts_ok_add [OF _ assms(2)] by simp (simp add: addArtifact_def)
  next
    fix j x s s' assume "x \<in> set (sd_Resources skill)" "normalizeResource env m dg t skill j x s = Inr s'" "?P j s"
    then show "?P (Suc j) s'"
      using normalizeResource_ok [of env m dg t skill j x "fst s" "snd s" "fst s'" "snd s'" paths] assms(3) by simp
  qed
  then show "arts_ok t paths r \<longrightarrow> arts_ok t paths r'" "head_of r' = head_of r"
    using steps(2) by (auto simp: arts_ok_def)
qed

lemma normalizeContext_ok:
  assumes "normalizeContext env m dg t i c r = Inr r'" "cr_Path c \<in> paths"
  shows "arts_ok t paths r \<longrightarrow> arts_ok t paths r'" "head_of r' = head_of r"
proof -
  let ?a = "newArtifact (le_sha256 env) (le_mime env) m dg ArtifactContext (cr_ID c) (cr_Path c) (stagedAt t (cr_Path c))"
  have r': "r' = addArtifact ?a (r\<lparr>rc_context := rc_context r @ [?a]\<rparr>)"
    using assms(1) by (auto simp: normalizeContext_def Let_def split: if_splits)
  show "arts_ok t paths r \<longrightarrow> arts_ok t paths r'"
    using arts_ok_add [OF _ assms(2), of t "r\<lparr>rc_context := rc_context r @ [?a]\<rparr>"] by (auto simp: r' arts_ok_def)
  show "head_of r' = head_of r" by (simp add: r' addArtifact_def)
qed

lemma declaredSpecs_image:
  "as_path ` set (declaredSpecs m) =
     (\<Union>s \<in> set (sp_Skills (mf_Spec m)). insert (skillFile s) (resourceFile s ` set (sd_Resources s))) \<union>
     cr_Path ` set (sp_Context (mf_Spec m))"
  by (simp add: declaredSpecs_def image_Un image_UN image_image)

lemma normalizeStagedPackage_ok:
  assumes "normalizeStagedPackage env m t = Inr r"
  shows "arts_ok t (insert manifestFileName (as_path ` set (declaredSpecs m))) r" "rc_metadata r = mf_Metadata m"
    "rc_operations r = sort_key op_ID (sp_Operations (mf_Spec m))" "rc_providers r = sort_key pb_ID (sp_Providers (mf_Spec m))"
proof -
  let ?paths = "insert manifestFileName (as_path ` set (declaredSpecs m))"
  let ?dg = "hexEncode (sa_digest (stagedAt t manifestFileName))"
  obtain r0 r1 r2 where steps: "foldItems (normalizeSkill env m ?dg t) 0 (sp_Skills (mf_Spec m)) r0 = Inr r1"
    "foldItems (normalizeContext env m ?dg t) 0 (sp_Context (mf_Spec m)) r1 = Inr r2" "r = sortRecord r2"
    "r0 = addArtifact (newArtifact (le_sha256 env) (le_mime env) m ?dg ArtifactManifest ''manifest'' manifestFileName
        (stagedAt t manifestFileName))
      \<lparr>rc_metadata = mf_Metadata m, rc_parent = sp_Parent (mf_Spec m), rc_manifestDigest = ?dg, rc_skills = [],
       rc_operations = sp_Operations (mf_Spec m), rc_context = [], rc_providers = sp_Providers (mf_Spec m), rc_artifacts = [],
       rc_snapshot = None\<rparr>"
    using assms by (auto simp: normalizeStagedPackage_def Let_def rbind_eq_Inr)
  let ?P = "\<lambda>n (r :: Record). arts_ok t ?paths r \<and> head_of r = (mf_Metadata m, sp_Operations (mf_Spec m), sp_Providers (mf_Spec m))"
  have 0: "?P 0 r0" unfolding steps(4) by (intro conjI arts_ok_add) (simp_all add: arts_ok_def addArtifact_def head_of_def)
  have 1: "?P (0 + length (sp_Skills (mf_Spec m))) r1"
  proof (rule foldItems_inv [OF steps(1)])
    show "?P 0 r0" using 0 .
  next
    fix j x s s' assume x: "x \<in> set (sp_Skills (mf_Spec m))" "normalizeSkill env m ?dg t j x s = Inr s'" "?P j s"
    have p: "skillFile x \<in> ?paths" "\<forall>res \<in> set (sd_Resources x). resourceFile x res \<in> ?paths" using x(1) by (auto simp: declaredSpecs_image)
    show "?P (Suc j) s'" using normalizeSkill_ok [OF x(2) p] x(3) by simp
  qed
  have "?P (0 + length (sp_Context (mf_Spec m))) r2"
  proof (rule foldItems_inv [OF steps(2)])
    show "?P 0 r1" using 1 .
  next
    fix j x s s' assume x: "x \<in> set (sp_Context (mf_Spec m))" "normalizeContext env m ?dg t j x s = Inr s'" "?P j s"
    have p: "cr_Path x \<in> ?paths" using x(1) by (auto simp: declaredSpecs_image)
    show "?P (Suc j) s'" using normalizeContext_ok [OF x(2) p] x(3) by simp
  qed
  then show "arts_ok t ?paths r" "rc_metadata r = mf_Metadata m" "rc_operations r = sort_key op_ID (sp_Operations (mf_Spec m))"
    "rc_providers r = sort_key pb_ID (sp_Providers (mf_Spec m))"
    by (auto simp: steps(3) arts_ok_def head_of_def sortRecord_def)
qed

section \<open>Loading one package\<close>

lemma sbind_Inl [simp]: "sbind (Inl e, s) f = (Inl e, s)"
  by (simp add: sbind_def)

lemma sbind_Inr [simp]: "sbind (Inr x, s) f = f x s"
  by (simp add: sbind_def)

lemma update_or_simps [simp]: "update_or e (Inl e') s = (Inl e, s)" "update_or e (Inr s') s = (Inr (), s')"
  by (simp_all add: update_or_def)

text \<open>The outcome of a phase: the transaction is still being staged, and a result satisfies \<open>Q\<close>.\<close>

definition outcome ::
  "(bytes \<Rightarrow> digest) \<Rightarrow> snapshot_system \<Rightarrow> nat \<Rightarrow> ('a \<Rightarrow> stagingTransaction \<Rightarrow> bool) \<Rightarrow> 'a res \<times> snapshot_system \<Rightarrow> bool" where
  "outcome sha256 s0 a Q m \<longleftrightarrow>
     (\<exists>t. staging sha256 s0 a (snd m) t \<and> (\<forall>x. fst m = Inr x \<longrightarrow> Q x t))"

lemma outcome_fail: "staging sha256 s0 a s t \<Longrightarrow> outcome sha256 s0 a Q (Inl e, s)"
  by (auto simp: outcome_def)

lemma outcome_sbind:
  assumes "outcome sha256 s0 a Q m" "\<And>x s t. m = (Inr x, s) \<Longrightarrow> staging sha256 s0 a s t \<Longrightarrow> Q x t \<Longrightarrow> outcome sha256 s0 a R (f x s)"
  shows "outcome sha256 s0 a R (sbind m f)"
proof -
  obtain r s where m: "m = (r, s)" by force
  obtain t where t: "staging sha256 s0 a s t" "\<And>x. r = Inr x \<Longrightarrow> Q x t" using assms(1) by (auto simp: outcome_def m)
  show ?thesis
    using t assms(2) [OF _ t(1)] by (cases r) (auto simp: m intro: outcome_fail)
qed

definition manifest_staged :: "loader_env \<Rightarrow> 'fd os_env \<Rightarrow> 'fd \<Rightarrow> string \<Rightarrow> Manifest \<Rightarrow> stagingTransaction \<Rightarrow> bool" where
  "manifest_staged env os d pkg m t \<longleftrightarrow>
     md_ID (mf_Metadata m) = pkg \<and>
     (\<exists>fd n. OpenRegularFile os d manifestFileName = Inr (fd, n) \<and>
        tx_artifacts t = [(manifestFileName, stagedFile env os fd n)] \<and> tx_reserved t = n \<and> tx_staged t = n \<and>
        ParseManifest (le_yaml env) (se_NFC (le_text env)) (sa_data (stagedFile env os fd n)) = Inr m)"

lemma loadManifest_outcome:
  assumes st: "staging (le_sha256 env) s0 a s begin_transaction"
  shows "outcome (le_sha256 env) s0 a (manifest_staged env os d pkg) (loadManifest env os d pkg a s)"
proof (cases "OpenRegularFile os d manifestFileName")
  case (Inl e)
  then show ?thesis using st by (auto simp: loadManifest_def Let_def intro: outcome_fail)
next
  case (Inr p)
  obtain fd n where p: "p = (fd, n)" by force
  note loadManifest = loadManifest_def [of env os d pkg a s, unfolded Let_def Inr p sum.case prod.case]
  show ?thesis
  proof (cases "n > ManifestMaxBytes")
    case True
    then show ?thesis using st by (auto simp: loadManifest intro: outcome_fail)
  next
    case False
    then have small: "n \<le> 2 ^ 61" by (simp add: ManifestMaxBytes_def)
    show ?thesis
    proof (cases "sys_reserve a n s")
      case (Inl e)
      then show ?thesis using st False by (auto simp: loadManifest intro: outcome_fail)
    next
      case res: (Inr s1)
      note st1 = staging_reserve [OF st res small]
      let ?stage = "sys_stage (le_sha256 env) a manifestFileName (os_reader os fd) n ManifestMaxBytes s1"
      show ?thesis
      proof (cases ?stage)
        case (Inl e)
        then show ?thesis using st1 False res by (auto simp: loadManifest intro: outcome_fail)
      next
        case stg: (Inr s2)
        let ?t = "\<lparr>tx_reserved = n, tx_artifacts = [(manifestFileName, stagedFile env os fd n)], tx_closed = False, tx_packageSize = n\<rparr>"
        have st2: "staging (le_sha256 env) s0 a s2 ?t" and len: "int (length (sa_data (stagedFile env os fd n))) = n"
          using staging_stage [OF st1 stg] by (auto simp: begin_transaction_def tx_staged_def stagedFile_def)
        show ?thesis
        proof (cases "os_Close os fd = None")
          case False
          then show ?thesis using st2 \<open>\<not> n > ManifestMaxBytes\<close> res stg by (auto simp: loadManifest intro: outcome_fail)
        next
          case True
          have "transaction_bytes manifestFileName ?t = Some (sa_data (stagedFile env os fd n))" by (simp add: transaction_bytes_def)
          then have eq: "loadManifest env os d pkg a s =
            (case ParseManifest (le_yaml env) (se_NFC (le_text env)) (sa_data (stagedFile env os fd n)) of
               Inl e \<Rightarrow> (Inl e, s2)
             | Inr manifest \<Rightarrow> if md_ID (mf_Metadata manifest) \<noteq> pkg then (Inl (PackageError ''package_directory_mismatch'' pkg), s2)
                 else (Inr manifest, s2))"
            using \<open>\<not> n > ManifestMaxBytes\<close> res stg True stagingD(3) [OF st2] by (simp add: loadManifest)
          show ?thesis
            unfolding eq outcome_def using st2 Inr p len
            by (intro exI [of _ ?t]) (auto simp: manifest_staged_def tx_staged_def split: sum.splits if_splits)
        qed
      qed
    qed
  qed
qed

end
