(* ===== verification/Loader_Package.thy ===== *)
theory Loader_Package
  imports Loader_Record
begin

text \<open>Loading a package commits exactly the files of its manifest, or leaves the store as it was.\<close>

section \<open>The staged package\<close>

definition package_staged :: "loader_env \<Rightarrow> 'fd os_env \<Rightarrow> 'fd \<Rightarrow> string \<Rightarrow> Manifest \<Rightarrow> stagingTransaction \<Rightarrow> bool" where
  "package_staged env os d pkg m t \<longleftrightarrow>
     md_ID (mf_Metadata m) = pkg \<and>
     (\<exists>fd n. OpenRegularFile os d manifestFileName = Inr (fd, n) \<and>
        ParseManifest (le_yaml env) (se_NFC (le_text env)) (sa_data (stagedFile env os fd n)) = Inr m) \<and>
     dom (get (tx_artifacts t)) = insert manifestFileName (as_path ` set (declaredSpecs m)) \<and>
     (\<forall>p x. get (tx_artifacts t) p = Some x \<longrightarrow>
        (\<exists>fd n. OpenRegularFile os d p = Inr (fd, n) \<and> x = stagedFile env os fd n))"

definition load_done ::
  "loader_env \<Rightarrow> 'fd os_env \<Rightarrow> 'fd \<Rightarrow> string \<Rightarrow> snapshot_system \<Rightarrow> nat \<Rightarrow> Record res \<times> snapshot_system \<Rightarrow> bool" where
  "load_done env os d pkg s0 a m \<longleftrightarrow>
     (case fst m of
        Inl e \<Rightarrow> \<exists>t. staging (le_sha256 env) s0 a (snd m) t
      | Inr r \<Rightarrow> \<exists>r0 man t s1 b. r = r0\<lparr>rc_snapshot := Some b\<rparr> \<and> staging (le_sha256 env) s0 a s1 t \<and>
          package_staged env os d pkg man t \<and> normalizeStagedPackage env man t = Inr r0 \<and> sys_commit a s1 = (Inr b, snd m))"

lemma load_done_fail: "staging (le_sha256 env) s0 a s t \<Longrightarrow> load_done env os d pkg s0 a (Inl e, s)"
  by (auto simp: load_done_def)

lemma load_done_sbind:
  assumes "outcome (le_sha256 env) s0 a Q m"
    and "\<And>x s t. staging (le_sha256 env) s0 a s t \<Longrightarrow> Q x t \<Longrightarrow> load_done env os d pkg s0 a (f x s)"
  shows "load_done env os d pkg s0 a (sbind m f)"
proof -
  obtain r s where m: "m = (r, s)" by force
  obtain t where t: "staging (le_sha256 env) s0 a s t" "\<And>x. r = Inr x \<Longrightarrow> Q x t" using assms(1) by (auto simp: outcome_def m)
  show ?thesis using t assms(2) [OF t(1)] by (cases r) (auto simp: m intro: load_done_fail)
qed

lemma outcome_pure: "staging sha256 s0 a s t \<Longrightarrow> (\<And>x. r = Inr x \<Longrightarrow> Q x t) \<Longrightarrow> outcome sha256 s0 a Q (r, s)"
  by (auto simp: outcome_def)

lemma outcome_reserve:
  assumes "staging sha256 s0 a s t" "sz \<le> 2 ^ 61"
    and "Q () (t\<lparr>tx_reserved := tx_reserved t + sz, tx_packageSize := tx_packageSize t + sz\<rparr>)"
  shows "outcome sha256 s0 a Q (update_or e (sys_reserve a sz s) s)"
  using assms staging_reserve [OF assms(1) _ assms(2)]
  by (cases "sys_reserve a sz s") (auto simp: outcome_def)

lemma loadStaged_done:
  assumes st: "staging (le_sha256 env) s0 a s begin_transaction" and fs: "fstat_ok os"
    and idem: "\<And>x. se_NFC (le_text env) (se_NFC (le_text env) x) = se_NFC (le_text env) x"
  shows "load_done env os d pkg s0 a (loadStaged env os d pkg a s)"
  unfolding loadStaged_def
proof (rule load_done_sbind [OF loadManifest_outcome [OF st]])
  fix m s1 t1 assume st1: "staging (le_sha256 env) s0 a s1 t1" and m: "manifest_staged env os d pkg m t1"
  then obtain fd0 n0 where man: "OpenRegularFile os d manifestFileName = Inr (fd0, n0)" "md_ID (mf_Metadata m) = pkg"
    "tx_artifacts t1 = [(manifestFileName, stagedFile env os fd0 n0)]" "tx_reserved t1 = n0" "tx_staged t1 = n0"
    "ParseManifest (le_yaml env) (se_NFC (le_text env)) (sa_data (stagedFile env os fd0 n0)) = Inr m"
    by (auto simp: manifest_staged_def)
  have ok: "manifest_ok (se_NFC (le_text env)) m" using ParseManifest_ok [OF man(6) idem] .
  show "load_done env os d pkg s0 a (sbind (artifactSpecs m, s1) (\<lambda>specs s.
     sbind (openSources os d pkg specs 0, s) (\<lambda>(sources, remainingSize) s.
     sbind (update_or (PackageError ''package_staging_capacity_exhausted'' pkg) (sys_reserve a remainingSize s) s) (\<lambda>_ s.
     sbind (stageSources env os pkg a sources s) (\<lambda>_ s.
     sbind (case get (sys_txns s) a of None \<Rightarrow> (Inl (OtherError ''panic: nil transaction''), s)
            | Some t \<Rightarrow> (normalizeStagedPackage env m t, s)) (\<lambda>r s.
     case sys_commit a s of
       (Inl e, s') \<Rightarrow> (Inl (PackageError ''package_snapshot_commit_failed'' pkg), s')
     | (Inr snapshot, s') \<Rightarrow> (Inr (r\<lparr>rc_snapshot := Some snapshot\<rparr>), s')))))))"
  proof (cases "artifactSpecs m")
    case (Inl e)
    then show ?thesis using st1 by (auto intro: load_done_fail)
  next
    case specs: (Inr specs)
    have sp: "specs = declaredSpecs m" "distinct (manifestFileName # map as_path specs)" using artifactSpecs_Inr [OF specs] by auto
    show ?thesis
    proof (cases "openSources os d pkg specs 0")
      case (Inl e)
      then show ?thesis using st1 specs by (auto intro: load_done_fail)
    next
      case src: (Inr p)
      obtain sources total where p: "p = (sources, total)" by force
      have len: "int (length specs) \<le> 288"
        using ok unfolding sp(1) length_declaredSpecs
        by (simp add: manifest_ok_def spec_ok_def MaxSkills_def MaxSkillResources_def MaxContextReferences_def)
      have opened: "map src_spec sources = specs" "total = sizes sources" "total \<le> 4194304 * int (length specs)"
        "list_all (\<lambda>s. OpenRegularFile os d (as_path (src_spec s)) = Inr (src_file s, src_size s) \<and> 0 \<le> src_size s) sources"
        using openSources_Inr [OF src [unfolded p] fs] len declaredSpecs_maximum sp(1) by (auto simp: list_all_iff)
      have paths: "map (\<lambda>s. as_path (src_spec s)) sources = map as_path specs" using arg_cong [OF opened(1), of "map as_path"] by (simp add: comp_def)
      let ?files = "map (\<lambda>s. (as_path (src_spec s), stagedFile env os (src_file s) (src_size s))) sources"
      let ?Q1 = "\<lambda>(u :: unit) t. tx_artifacts t = tx_artifacts t1 \<and> tx_staged t + sizes sources \<le> tx_reserved t"
      let ?Q2 = "\<lambda>(u :: unit) t. get (tx_artifacts t) = get (tx_artifacts t1) ++ map_of ?files"
      have small: "total \<le> 2 ^ 61" using opened(3) len by simp
      have reserve: "outcome (le_sha256 env) s0 a ?Q1 (update_or (PackageError ''package_staging_capacity_exhausted'' pkg) (sys_reserve a total s1) s1)"
        by (rule outcome_reserve [OF st1 small]) (use man opened(2) in \<open>simp add: tx_staged_def\<close>)
      have stage: "outcome (le_sha256 env) s0 a ?Q2 (stageSources env os pkg a sources s2)"
        if "staging (le_sha256 env) s0 a s2 t2" "?Q1 () t2" for s2 t2
        using stageSources_staging [of env os pkg a sources s2 _ _ s0 t2] that opened(4)
        by (cases "stageSources env os pkg a sources s2") (force simp: outcome_def list_all_iff)
      have final: "load_done env os d pkg s0 a (sbind (case get (sys_txns s3) a of None \<Rightarrow> (Inl (OtherError ''panic: nil transaction''), s3)
            | Some t \<Rightarrow> (normalizeStagedPackage env m t, s3)) (\<lambda>r s.
          case sys_commit a s of
            (Inl e, s') \<Rightarrow> (Inl (PackageError ''package_snapshot_commit_failed'' pkg), s')
          | (Inr snapshot, s') \<Rightarrow> (Inr (r\<lparr>rc_snapshot := Some snapshot\<rparr>), s')))"
        if st3: "staging (le_sha256 env) s0 a s3 t3" and q: "?Q2 () t3" for s3 t3
      proof (cases "normalizeStagedPackage env m t3")
        case (Inl e)
        then show ?thesis using st3 stagingD(3) [OF st3] by (auto intro: load_done_fail)
      next
        case (Inr r0)
        obtain b s' where c: "sys_commit a s3 = (Inr b, s')" using staging_commit [OF st3] by metis
        have "package_staged env os d pkg m t3"
        proof -
          have dom: "dom (map_of ?files) = as_path ` set (declaredSpecs m)"
            using arg_cong [OF paths, of set] by (simp add: dom_map_of_conv_image_fst image_image sp(1))
          have "\<exists>fd n. OpenRegularFile os d p = Inr (fd, n) \<and> x = stagedFile env os fd n" if "get (tx_artifacts t3) p = Some x" for p x
          proof (cases "map_of ?files p")
            case None
            then show ?thesis using that man by (auto simp: q map_add_def split: if_splits)
          next
            case (Some y)
            then have "(p, y) \<in> set ?files" by (rule map_of_SomeD)
            then show ?thesis using that Some opened(4) by (auto simp: q map_add_def list_all_iff)
          qed
          moreover have "dom (get (tx_artifacts t3)) = insert manifestFileName (as_path ` set (declaredSpecs m))"
            unfolding q dom_map_add dom by (auto simp: man(3))
          ultimately show ?thesis using man by (auto simp: package_staged_def)
        qed
        then show ?thesis using Inr st3 c stagingD(3) [OF st3] by (simp add: load_done_def) blast
      qed
      show ?thesis
        unfolding specs src p sbind_Inr prod.case
        by (rule load_done_sbind [OF reserve], rule load_done_sbind [OF stage], assumption, assumption, rule final)
    qed
  qed
qed

section \<open>Loading from a root\<close>

lemma loadFromRoot_Inl:
  assumes inv: "sys_inv (le_sha256 env) s" and fs: "fstat_ok os"
    and idem: "\<And>x. se_NFC (le_text env) (se_NFC (le_text env) x) = se_NFC (le_text env) x"
    and load: "loadFromRoot env os root pkg s = (Inl e, s')"
  shows "sys_inv (le_sha256 env) s' \<and> (sys_step (le_sha256 env))\<^sup>*\<^sup>* s s' \<and> sys_store s' = sys_store s \<and> sys_snaps s' = sys_snaps s \<and>
    sys_leases s' = sys_leases s"
proof (cases "\<exists>u d. validatePackageComponent pkg = Inr u \<and> OpenPackage os root pkg = Inr d")
  case False
  then have "s' = s" using load by (auto simp: loadFromRoot_def split: sum.splits)
  then show ?thesis using inv by simp
next
  case True
  then obtain u d where d: "validatePackageComponent pkg = Inr u" "OpenPackage os root pkg = Inr d" by blast
  obtain s1 a where b: "sys_begin s = (s1, a)" by force
  obtain res s2 where l: "loadStaged env os d pkg a s1 = (res, s2)" by force
  have res: "res = Inl e" "s' = sys_abort a s2" using load d b l by (auto simp: loadFromRoot_def split: sum.splits)
  obtain t where t: "staging (le_sha256 env) s a s2 t"
    using loadStaged_done [OF staging_begin [OF inv b] fs idem, of d pkg] res l by (auto simp: load_done_def)
  show ?thesis using staging_abort [OF t] res(2) by simp
qed

definition bytes_in_play :: "'fd os_env \<Rightarrow> snapshot_system \<Rightarrow> bytes set" where
  "bytes_in_play os s =
     {x. \<exists>d. object_data (sys_store s) d = Some x} \<union> {x. \<exists>k fd. x = take k (fst (os_reader os fd))}"

text \<open>A load adds objects and snapshots and reserves nothing for longer than it runs.\<close>

definition grows :: "'fd os_env \<Rightarrow> snapshot_system \<Rightarrow> snapshot_system \<Rightarrow> bool" where
  "grows os s s' \<longleftrightarrow>
     (\<forall>d x. object_data (sys_store s) d = Some x \<longrightarrow> object_data (sys_store s') d = Some x) \<and>
     bytes_in_play os s' \<subseteq> bytes_in_play os s \<and>
     (\<forall>b sn. get (sys_snaps s) b = Some sn \<longrightarrow> get (sys_snaps s') b = Some sn) \<and> sys_leases s' = sys_leases s \<and>
     st_limits (sys_store s') = st_limits (sys_store s) \<and>
     st_stagingReserved (sys_store s') = st_stagingReserved (sys_store s) \<and>
     st_snapshotReserved (sys_store s') = st_snapshotReserved (sys_store s)"

text \<open>What a loaded record promises: its snapshot is new and holds, under the path of every artifact, the bytes of that file.\<close>

definition loaded :: "'fd os_env \<Rightarrow> 'fd \<Rightarrow> string \<Rightarrow> snapshot_system \<Rightarrow> Record \<Rightarrow> snapshot_system \<Rightarrow> bool" where
  "loaded os root pkg s r s' \<longleftrightarrow>
     md_ID (rc_metadata r) = pkg \<and> record_backed s' r \<and> operations_ok r \<and>
     (\<exists>b sn. rc_snapshot r = Some b \<and> get (sys_snaps s) b = None \<and> sys_snaps s' = put b sn (sys_snaps s)) \<and>
     (\<exists>d. OpenPackage os root pkg = Inr d \<and>
        (\<forall>ref x. Record_Artifact r ref = Some x \<longrightarrow>
           (\<exists>fd n. OpenRegularFile os d (ar_Path x) = Inr (fd, n) \<and>
              Record_ReadArtifact s' r ref = Some (take (nat n) (fst (os_reader os fd))))))"

lemma manifest_operations_ok:
  assumes "manifest_ok nfc m" "rc_metadata r = mf_Metadata m" "rc_operations r = sort_key op_ID (sp_Operations (mf_Spec m))"
    "rc_providers r = sort_key pb_ID (sp_Providers (mf_Spec m))"
  shows "operations_ok r"
proof -
  have "distinct (map op_ID (sort_key op_ID xs)) = distinct (map op_ID xs)" for xs :: "Operation list"
    by (simp add: distinct_map distinct_sort)
  moreover have "md_ID (mf_Metadata m) \<noteq> []" using assms(1) by (auto simp: manifest_ok_def metadata_ok_def text_ok_def)
  ultimately show ?thesis
    using assms by (auto simp: operations_ok_def manifest_ok_def spec_ok_def operation_ok_def id_ok_def localIDPattern_iff list_all_iff
        id_segment_no_dot id_segment_def)
qed

lemma loadFromRoot_Inr:
  assumes inv: "sys_inv (le_sha256 env) s" and fs: "fstat_ok os"
    and idem: "\<And>x. se_NFC (le_text env) (se_NFC (le_text env) x) = se_NFC (le_text env) x"
    and inj: "inj_on (le_sha256 env) (bytes_in_play os s)"
    and load: "loadFromRoot env os root pkg s = (Inr r, s')"
  shows "sys_inv (le_sha256 env) s' \<and> (sys_step (le_sha256 env))\<^sup>*\<^sup>* s s' \<and> grows os s s' \<and> loaded os root pkg s r s'"
proof -
  obtain d where d: "OpenPackage os root pkg = Inr d" and v: "validatePackageComponent pkg = Inr ()"
    using load by (auto simp: loadFromRoot_def split: sum.splits)
  obtain s1 a where b: "sys_begin s = (s1, a)" by force
  have l: "loadStaged env os d pkg a s1 = (Inr r, s')" using load d b v by (auto simp: loadFromRoot_def split: sum.splits prod.splits)
  obtain r0 man t s2 sid where c: "r = r0\<lparr>rc_snapshot := Some sid\<rparr>" "staging (le_sha256 env) s a s2 t"
    "package_staged env os d pkg man t" "normalizeStagedPackage env man t = Inr r0" "sys_commit a s2 = (Inr sid, s')"
    using loadStaged_done [OF staging_begin [OF inv b] fs idem, of d pkg] l by (auto simp: load_done_def)
  let ?sn = "\<lparr>sn_digests = map (\<lambda>(name, x). (name, sa_digest x)) (tx_artifacts t), sn_once = False\<rparr>"
  have s': "sid = fresh (sys_snaps s)" "sys_inv (le_sha256 env) s'" "(sys_step (le_sha256 env))\<^sup>*\<^sup>* s s'" "sys_leases s' = sys_leases s"
    "sys_snaps s' = put sid ?sn (sys_snaps s)"
    "\<And>d x. object_data (sys_store s') d = Some x \<longleftrightarrow> object_data (fst (commit_objects (tx_artifacts t) (sys_store s))) d = Some x"
    "st_limits (sys_store s') = st_limits (sys_store s) \<and> st_stagingReserved (sys_store s') = st_stagingReserved (sys_store s) \<and>
     st_snapshotReserved (sys_store s') = st_snapshotReserved (sys_store s)"
    using staging_commit [OF c(2)] c(5) by (metis Inr_inject prod.inject)+
  note arts = normalizeStagedPackage_ok [OF c(4)]
  have sn: "get (sys_snaps s') sid = Some ?sn" by (simp add: s'(5) gomap_simps)
  have play: "x \<in> bytes_in_play os s" if "object_data (sys_store s') d = Some x" for d x
  proof -
    have "(\<exists>d. object_data (sys_store s) d = Some x) \<or> (\<exists>n z. (n, z) \<in> set (tx_artifacts t) \<and> sa_data z = x)"
      using that object_data_commit_source unfolding s'(6) by blast
    then show ?thesis
    proof
      assume "\<exists>n z. (n, z) \<in> set (tx_artifacts t) \<and> sa_data z = x"
      then obtain n z where z: "(n, z) \<in> set (tx_artifacts t)" "sa_data z = x" by blast
      have "keys_ok (tx_artifacts t)" using stagingD(7) [OF c(2)] by (simp add: tx_ok_def)
      then have "get (tx_artifacts t) n = Some z" using z(1) by (simp add: keys_ok_get)
      then obtain fd k where "z = stagedFile env os fd k" using c(3) unfolding package_staged_def by blast
      then have "x = take (nat k) (fst (os_reader os fd))" using z(2) by (simp add: stagedFile_def)
      then show ?thesis unfolding bytes_in_play_def by blast
    qed (auto simp: bytes_in_play_def)
  qed
  have files: "\<exists>fd n. OpenRegularFile os d (ar_Path x) = Inr (fd, n) \<and> get (sn_digests ?sn) (ar_Path x) = Some (sa_digest (stagedFile env os fd n)) \<and>
      object_data (sys_store s') (sa_digest (stagedFile env os fd n)) = Some (sa_data (stagedFile env os fd n)) \<and>
      ar_SHA256 x = hexEncode (sa_digest (stagedFile env os fd n)) \<and> ar_Bytes x = int (length (sa_data (stagedFile env os fd n)))"
    if x: "(ref, x) \<in> set (rc_artifacts r)" for ref x
  proof -
    have "ar_Path x \<in> dom (get (tx_artifacts t))" and ds: "describes t x"
      using x arts(1) c(3) by (auto simp: c(1) arts_ok_def list_all_iff package_staged_def)
    then obtain y where y: "get (tx_artifacts t) (ar_Path x) = Some y" by auto
    then obtain fd n where f: "OpenRegularFile os d (ar_Path x) = Inr (fd, n)" "y = stagedFile env os fd n"
      using c(3) unfolding package_staged_def by blast
    have dg: "get (sn_digests ?sn) (ar_Path x) = Some (sa_digest y)" by (simp add: get_digests y)
    have "0 < total_refs s' (sa_digest y)" by (rule snapshot_refs_pos [OF sn _ dg]) simp
    then obtain ob where ob: "get (st_objects (sys_store s')) (sa_digest y) = Some ob" "le_sha256 env (ob_data ob) = sa_digest y"
      using store_ok_object [of "le_sha256 env" "total_refs s'"] s'(2) by (auto simp: sys_inv_def)
    then have data: "object_data (sys_store s') (sa_digest y) = Some (ob_data ob)" by (simp add: object_data_def)
    then have "ob_data ob \<in> bytes_in_play os s" by (rule play)
    moreover have "sa_data y \<in> bytes_in_play os s" "sa_digest y = le_sha256 env (sa_data y)"
      by (auto simp: f(2) stagedFile_def bytes_in_play_def)
    ultimately have "ob_data ob = sa_data y" using inj ob(2) by (auto dest: inj_onD)
    moreover have "stagedAt t (ar_Path x) = y" by (simp add: stagedAt_def y)
    ultimately show ?thesis using ds f dg data by (auto simp: describes_def)
  qed
  have backed: "record_backed s' r"
    using files sn by (fastforce simp: record_backed_def c(1) artifact_in_def list_all_iff)
  moreover have "\<exists>fd n. OpenRegularFile os d (ar_Path x) = Inr (fd, n) \<and> Record_ReadArtifact s' r ref = Some (take (nat n) (fst (os_reader os fd)))"
    if "Record_Artifact r ref = Some x" for ref x
  proof -
    have g: "get (rc_artifacts r) ref = Some x" using that by (simp add: Record_Artifact_def)
    show ?thesis using files [OF map_of_SomeD [OF g]] g sn
      by (auto simp: Record_ReadArtifact_def c(1) sys_Read_def snapshot_Read_def object_data_def stagedFile_def)
  qed
  moreover have "md_ID (rc_metadata r) = pkg" using arts(2) c(1,3) by (auto simp: package_staged_def)
  moreover have "grows os s s'"
    unfolding grows_def
  proof (intro conjI allI impI)
    show "bytes_in_play os s' \<subseteq> bytes_in_play os s" using play unfolding bytes_in_play_def [of os s'] by (auto simp: bytes_in_play_def)
    show "get (sys_snaps s') b = Some sn" if "get (sys_snaps s) b = Some sn" for b sn
      using that by (auto simp: s'(1,5) gomap_simps)
    show "object_data (sys_store s') e = Some x" if "object_data (sys_store s) e = Some x" for e x
      unfolding s'(6) using that by (rule object_data_commit)
  qed (use s'(4,7) in auto)
  moreover have "operations_ok r"
  proof -
    obtain data where m: "ParseManifest (le_yaml env) (se_NFC (le_text env)) data = Inr man" using c(3) by (auto simp: package_staged_def)
    show ?thesis using manifest_operations_ok [OF ParseManifest_ok [OF m idem]] arts(2-4) by (simp add: c(1))
  qed
  ultimately show ?thesis using s' d c(1) unfolding loaded_def by auto
qed

end
