(* ===== verification/Loader_All.thy ===== *)
theory Loader_All
  imports Loader_Package
begin

text \<open>
  Loading all packages of a directory: the registry that starts from them holds exactly the packages found, and a failure
  anywhere leaves nothing of the load in the store.
\<close>

section \<open>Sums over maps\<close>

lemma msum_dom: "keys_ok m \<Longrightarrow> msum f m = (\<Sum>k \<in> dom (map_of m). f (the (map_of m k)))"
proof (induction m)
  case (Cons p m)
  obtain k v where p: "p = (k, v)" by force
  have k: "k \<notin> fst ` set m" "keys_ok m" using Cons.prems by (auto simp: p keys_ok_def)
  then have "k \<notin> dom (map_of m)" by (simp add: dom_map_of_conv_image_fst)
  have dom: "dom (map_of (p # m)) = insert k (dom (map_of m))" by (auto simp: p dom_def)
  have "(\<Sum>j \<in> dom (map_of (p # m)). f (the (map_of (p # m) j))) = f v + (\<Sum>j \<in> dom (map_of m). f (the (map_of (p # m) j)))"
    unfolding dom using \<open>k \<notin> dom (map_of m)\<close> by (subst sum.insert) (auto simp: p finite_dom_map_of)
  also have "(\<Sum>j \<in> dom (map_of m). f (the (map_of (p # m) j))) = (\<Sum>j \<in> dom (map_of m). f (the (map_of m j)))"
    using \<open>k \<notin> dom (map_of m)\<close> by (intro sum.cong) (auto simp: p)
  finally show ?case using Cons.IH [OF k(2)] by (simp only: p msum_Cons)
qed simp

lemma length_dom: "keys_ok m \<Longrightarrow> length m = card (dom (map_of m))"
  using distinct_card [of "map fst m"] by (simp add: keys_ok_def dom_map_of_conv_image_fst)

section \<open>Released snapshots\<close>

text \<open>Nothing of a load remains: no snapshot that it added is live, and what was there before is as it was.\<close>

definition no_trace :: "'fd os_env \<Rightarrow> (bytes \<Rightarrow> digest) \<Rightarrow> snapshot_system \<Rightarrow> snapshot_system \<Rightarrow> bool" where
  "no_trace os sha256 s s' \<longleftrightarrow>
     sys_inv sha256 s' \<and> bytes_in_play os s' \<subseteq> bytes_in_play os s \<and> sys_leases s' = sys_leases s \<and>
     (\<forall>b sn. get (sys_snaps s) b = Some sn \<longrightarrow> get (sys_snaps s') b = Some sn) \<and>
     (\<forall>b sn. get (sys_snaps s) b = None \<longrightarrow> get (sys_snaps s') b = Some sn \<longrightarrow> sn_once sn) \<and>
     st_limits (sys_store s') = st_limits (sys_store s) \<and>
     st_stagingReserved (sys_store s') = st_stagingReserved (sys_store s) \<and>
     st_snapshotReserved (sys_store s') = st_snapshotReserved (sys_store s)"

lemma no_trace_refs:
  assumes inv: "sys_inv sha256 s" and nt: "no_trace os sha256 s s'"
  shows "total_refs s' = total_refs s"
proof
  fix d
  have k: "keys_ok (sys_snaps s)" "keys_ok (sys_snaps s')" using inv nt by (auto simp: sys_inv_def no_trace_def heaps_ok_def)
  have "(\<Sum>b \<in> dom (get (sys_snaps s')). snap_refs d (the (get (sys_snaps s') b))) =
      (\<Sum>b \<in> dom (get (sys_snaps s)). snap_refs d (the (get (sys_snaps s) b)))"
  proof (rule sum.mono_neutral_cong_right)
    show "dom (get (sys_snaps s)) \<subseteq> dom (get (sys_snaps s'))" using nt unfolding no_trace_def by blast
    show "\<forall>b \<in> dom (get (sys_snaps s')) - dom (get (sys_snaps s)). snap_refs d (the (get (sys_snaps s') b)) = 0"
    proof
      fix b assume "b \<in> dom (get (sys_snaps s')) - dom (get (sys_snaps s))"
      then obtain sn where sn: "get (sys_snaps s') b = Some sn" "get (sys_snaps s) b = None" by auto
      then have "sn_once sn" using nt unfolding no_trace_def by blast
      then show "snap_refs d (the (get (sys_snaps s') b)) = 0" by (simp add: sn(1) snap_refs_def)
    qed
    show "snap_refs d (the (get (sys_snaps s') b)) = snap_refs d (the (get (sys_snaps s) b))" if b: "b \<in> dom (get (sys_snaps s))" for b
    proof -
      obtain sn where sn: "get (sys_snaps s) b = Some sn" using b by auto
      then have "get (sys_snaps s') b = Some sn" using nt unfolding no_trace_def by blast
      then show ?thesis by (simp add: sn)
    qed
  qed (simp add: finite_dom_map_of)
  then show "total_refs s' d = total_refs s d"
    using k nt by (simp add: total_refs_def msum_dom no_trace_def)
qed

lemma no_trace_objects:
  assumes inv: "sys_inv sha256 s" and nt: "no_trace os sha256 s s'" and inj: "inj_on sha256 (bytes_in_play os s)"
  shows "get (st_objects (sys_store s')) = get (st_objects (sys_store s))"
proof
  fix d
  note refs = no_trace_refs [OF inv nt]
  have ok: "store_ok sha256 (total_refs s) (sys_store s)" "store_ok sha256 (total_refs s) (sys_store s')"
    using inv nt refs by (auto simp: sys_inv_def no_trace_def)
  show "get (st_objects (sys_store s')) d = get (st_objects (sys_store s)) d"
  proof (cases "get (st_objects (sys_store s)) d")
    case None
    then have "get (st_objects (sys_store s')) d = None" using ok unfolding store_ok_def by blast
    then show ?thesis using None by simp
  next
    case (Some ob)
    then have "total_refs s d \<noteq> 0" using ok(1) unfolding store_ok_def by force
    then obtain ob' where ob': "get (st_objects (sys_store s')) d = Some ob'" using ok(2) unfolding store_ok_def by force
    have sha: "sha256 (ob_data ob) = d" "sha256 (ob_data ob') = d" "ob_refs ob = ob_refs ob'"
      using ok Some ob' unfolding store_ok_def by auto
    have "object_data (sys_store s) d = Some (ob_data ob)" "object_data (sys_store s') d = Some (ob_data ob')"
      using Some ob' by (simp_all add: object_data_def)
    then have "ob_data ob \<in> bytes_in_play os s" "ob_data ob' \<in> bytes_in_play os s"
      using nt unfolding no_trace_def bytes_in_play_def by blast+
    then have "ob_data ob = ob_data ob'" using inj sha by (metis inj_onD)
    then show ?thesis using Some ob' sha(3) by simp
  qed
qed

lemma no_trace_stats:
  assumes inv: "sys_inv sha256 s" and nt: "no_trace os sha256 s s'" and inj: "inj_on sha256 (bytes_in_play os s)"
  shows "store_Stats (sys_store s') = store_Stats (sys_store s)"
proof -
  note obj = no_trace_objects [OF assms]
  have "keys_ok (st_objects (sys_store s))" "keys_ok (st_objects (sys_store s'))"
    "st_snapshotUsed (sys_store s) = msum (\<lambda>ob. int (length (ob_data ob))) (st_objects (sys_store s))"
    "st_snapshotUsed (sys_store s') = msum (\<lambda>ob. int (length (ob_data ob))) (st_objects (sys_store s'))"
    using inv nt by (auto simp: sys_inv_def no_trace_def store_ok_def)
  then show ?thesis using nt obj by (simp add: store_Stats_def msum_dom length_dom no_trace_def)
qed

section \<open>Loading the packages one by one\<close>

definition loaded_all :: "'fd os_env \<Rightarrow> (bytes \<Rightarrow> digest) \<Rightarrow> snapshot_system \<Rightarrow> Record list \<Rightarrow> snapshot_system \<Rightarrow> bool" where
  "loaded_all os sha256 s0 records s \<longleftrightarrow>
     sys_inv sha256 s \<and> (sys_step sha256)\<^sup>*\<^sup>* s0 s \<and> grows os s0 s \<and>
     list_all (record_backed s) records \<and> list_all operations_ok records \<and> distinct (map rc_snapshot records) \<and>
     (\<forall>b. get (sys_snaps s0) b = None \<longrightarrow> (get (sys_snaps s) b = None \<longleftrightarrow> Some b \<notin> rc_snapshot ` set records)) \<and>
     (\<forall>r \<in> set records. \<exists>b. rc_snapshot r = Some b \<and> get (sys_snaps s0) b = None)"

lemma grows_trans: "grows os s s' \<Longrightarrow> grows os s' s'' \<Longrightarrow> grows os s s''"
  unfolding grows_def by (metis subset_trans)

lemma record_backed_grows: "record_backed s r \<Longrightarrow> grows os s s' \<Longrightarrow> record_backed s' r"
  by (auto simp: record_backed_def grows_def artifact_in_def list_all_iff split: option.splits) fastforce+

lemma release_no_trace:
  assumes inv: "sys_inv sha256 s" "bytes_in_play os s \<subseteq> bytes_in_play os s0" "sys_leases s = sys_leases s0"
      "st_limits (sys_store s) = st_limits (sys_store s0)"
      "st_stagingReserved (sys_store s) = st_stagingReserved (sys_store s0)"
      "st_snapshotReserved (sys_store s) = st_snapshotReserved (sys_store s0)"
    and old: "\<And>b sn. get (sys_snaps s0) b = Some sn \<Longrightarrow> get (sys_snaps s) b = Some sn"
    and new: "\<And>b sn. get (sys_snaps s0) b = None \<Longrightarrow> get (sys_snaps s) b = Some sn \<Longrightarrow> sn_once sn \<or> Some b \<in> rc_snapshot ` set records"
    and ids: "\<And>r b. r \<in> set records \<Longrightarrow> rc_snapshot r = Some b \<Longrightarrow> get (sys_snaps s0) b = None"
  shows "no_trace os sha256 s0 (fold Record_release records s)"
  using assms
proof (induction records arbitrary: s)
  case Nil
  then show ?case by (auto simp: no_trace_def)
next
  case (Cons r records)
  show ?case
  proof (cases "rc_snapshot r")
    case None
    have "no_trace os sha256 s0 (fold Record_release records s)"
    proof (rule Cons.IH)
      show "sn_once sn \<or> Some b \<in> rc_snapshot ` set records" if "get (sys_snaps s0) b = None" "get (sys_snaps s) b = Some sn" for b sn
        using Cons.prems(8) [OF that] None by auto
      show "get (sys_snaps s0) b = None" if "q \<in> set records" "rc_snapshot q = Some b" for q b using Cons.prems(9) [of q b] that by simp
    qed (use Cons.prems(1-7) in auto)
    moreover have "Record_release r s = s" using None by (simp add: Record_release_def)
    ultimately show ?thesis by simp
  next
    case (Some b)
    let ?s = "sys_release_snapshot b s"
    have none: "get (sys_snaps s0) b = None" using Cons.prems(9) [of r b] Some by simp
    have frame: "sys_leases ?s = sys_leases s" "st_limits (sys_store ?s) = st_limits (sys_store s)"
      "st_stagingReserved (sys_store ?s) = st_stagingReserved (sys_store s)"
      "st_snapshotReserved (sys_store ?s) = st_snapshotReserved (sys_store s)"
      by (auto simp: sys_release_snapshot_def snapshot_release_def split: option.splits prod.splits)
    have play: "bytes_in_play os ?s \<subseteq> bytes_in_play os s"
      by (auto simp: bytes_in_play_def sys_release_snapshot_def snapshot_release_def dest: object_data_fold_release
          split: option.splits prod.splits if_splits)
    have snaps: "get (sys_snaps ?s) c = (if c = b then map_option (\<lambda>sn. sn\<lparr>sn_once := True\<rparr>) (get (sys_snaps s) b) else get (sys_snaps s) c)" for c
      by (cases "get (sys_snaps s) b") (auto simp: sys_release_snapshot_def snapshot_release_def gomap_simps)
    have "no_trace os sha256 s0 (fold Record_release records ?s)"
    proof (rule Cons.IH)
      show "sys_inv sha256 ?s" using Cons.prems(1) by (rule sys_release_snapshot_inv)
      show "bytes_in_play os ?s \<subseteq> bytes_in_play os s0" using play Cons.prems(2) by blast
      show "get (sys_snaps ?s) c = Some sn" if "get (sys_snaps s0) c = Some sn" for c sn
        using that none Cons.prems(7) [OF that] by (auto simp: snaps)
      show "sn_once sn \<or> Some c \<in> rc_snapshot ` set records" if "get (sys_snaps s0) c = None" "get (sys_snaps ?s) c = Some sn" for c sn
        using that Cons.prems(8) [of c] Some by (auto simp: snaps split: if_splits)
      show "get (sys_snaps s0) b = None" if "q \<in> set records" "rc_snapshot q = Some b" for q b using Cons.prems(9) [of q b] that by simp
    qed (use Cons.prems(3-6) frame in auto)
    moreover have "Record_release r s = ?s" using Some by (simp add: Record_release_def)
    ultimately show ?thesis by simp
  qed
qed

definition ids :: "Record list \<Rightarrow> string list" where
  "ids records = map (\<lambda>r. md_ID (rc_metadata r)) records"

lemma loaded_all_new:
  "loaded_all os sha256 s0 records s \<Longrightarrow> get (sys_snaps s0) b = None \<Longrightarrow> get (sys_snaps s) b = Some sn \<Longrightarrow> Some b \<in> rc_snapshot ` set records"
  unfolding loaded_all_def by (metis option.distinct(1))

lemma loaded_all_snoc:
  assumes all: "loaded_all os sha256 s0 records s" and inv: "sys_inv sha256 s'" and st: "(sys_step sha256)\<^sup>*\<^sup>* s s'" and g: "grows os s s'" and l: "loaded os root pkg s r s'"
  shows "loaded_all os sha256 s0 (records @ [r]) s'"
proof -
  obtain b sn where b: "rc_snapshot r = Some b" "get (sys_snaps s) b = None" "sys_snaps s' = put b sn (sys_snaps s)"
    using l by (auto simp: loaded_def)
  have g0: "grows os s0 s'" using grows_trans all g by (auto simp: loaded_all_def)
  have none: "get (sys_snaps s0) b = None"
  proof (rule ccontr)
    assume "get (sys_snaps s0) b \<noteq> None"
    then show False using all b(2) by (auto simp: loaded_all_def grows_def)
  qed
  have "Some b \<notin> rc_snapshot ` set records" using all none b(2) unfolding loaded_all_def by blast
  moreover have "list_all (record_backed s') (records @ [r])"
    using all l record_backed_grows [OF _ g] by (auto simp: loaded_all_def loaded_def list_all_iff)
  moreover have "get (sys_snaps s') c = None \<longleftrightarrow> get (sys_snaps s) c = None \<and> c \<noteq> b" for c by (simp add: b(3) gomap_simps)
  ultimately show ?thesis
    using all g0 inv st l b(1) none unfolding loaded_all_def by (auto simp: loaded_def)
qed

lemma loadNames_cases:
  assumes fs: "fstat_ok os" and idem: "\<And>x. se_NFC (le_text env) (se_NFC (le_text env) x) = se_NFC (le_text env) x"
    and inj: "inj_on (le_sha256 env) (bytes_in_play os s0)"
    and "loaded_all os (le_sha256 env) s0 records s" and "set seenIDs = set (ids records)" and "distinct (ids records)"
    and "loadNames env os root names seenIDs records s = (res, s')"
  shows "case res of Inl e \<Rightarrow> no_trace os (le_sha256 env) s0 s'
    | Inr rs \<Rightarrow> loaded_all os (le_sha256 env) s0 rs s' \<and> ids rs = ids records @ names \<and> distinct (ids rs)"
  using assms(4-)
proof (induction names arbitrary: seenIDs records s)
  case Nil
  then show ?case by auto
next
  case (Cons name names)
  have inv: "sys_inv (le_sha256 env) s" and g: "grows os s0 s" using Cons.prems(1) by (auto simp: loaded_all_def)
  have inj': "inj_on (le_sha256 env) (bytes_in_play os s)" using inj g by (auto simp: grows_def intro: inj_on_subset)
  have ids0: "get (sys_snaps s0) b = None" if "q \<in> set records" "rc_snapshot q = Some b" for q b
    using Cons.prems(1) that by (fastforce simp: loaded_all_def)
  obtain r1 s1 where load: "loadFromRoot env os root name s = (r1, s1)" by force
  show ?case
  proof (cases r1)
    case (Inl e)
    then have s1: "sys_inv (le_sha256 env) s1" "sys_store s1 = sys_store s" "sys_snaps s1 = sys_snaps s" "sys_leases s1 = sys_leases s"
      using loadFromRoot_Inl [OF inv fs idem] load by auto
    have res: "res = Inl e" "s' = fold Record_release records s1" using Cons.prems(4) load Inl by auto
    have "bytes_in_play os s1 = bytes_in_play os s" using s1(2) by (simp add: bytes_in_play_def)
    then have "no_trace os (le_sha256 env) s0 (fold Record_release records s1)"
      using s1 g loaded_all_new [OF Cons.prems(1)] ids0
      by (intro release_no_trace) (auto simp: grows_def)
    then show ?thesis by (simp add: res)
  next
    case (Inr r)
    then have s1: "sys_inv (le_sha256 env) s1" "(sys_step (le_sha256 env))\<^sup>*\<^sup>* s s1" "grows os s s1" "loaded os root name s r s1"
      using loadFromRoot_Inr [OF inv fs idem inj'] load by auto
    have id: "md_ID (rc_metadata r) = name" using s1(4) by (simp add: loaded_def)
    note all = loaded_all_snoc [OF Cons.prems(1) s1]
    show ?thesis
    proof (cases "name \<in> set seenIDs")
      case True
      then have res: "res = Inl (PackageError ''package_duplicate_capability'' name)" "s' = fold Record_release (r # records) s1"
        using Cons.prems(4) load Inr id by auto
      have "no_trace os (le_sha256 env) s0 (fold Record_release (r # records) s1)"
      proof (rule release_no_trace)
        show "sn_once sn \<or> Some b \<in> rc_snapshot ` set (r # records)" if "get (sys_snaps s0) b = None" "get (sys_snaps s1) b = Some sn" for b sn
          using loaded_all_new [OF all that] by auto
        show "get (sys_snaps s0) b = None" if "q \<in> set (r # records)" "rc_snapshot q = Some b" for q b
          using all that by (fastforce simp: loaded_all_def)
      qed (use s1(1) all in \<open>auto simp: loaded_all_def grows_def\<close>)
      then show ?thesis by (simp add: res)
    next
      case False
      then have rest: "loadNames env os root names (name # seenIDs) (records @ [r]) s1 = (res, s')" using Cons.prems(4) load Inr id by simp
      have seen: "set (name # seenIDs) = set (ids (records @ [r]))" "distinct (ids (records @ [r]))"
        using Cons.prems(2,3) False id by (auto simp: ids_def)
      have "ids (records @ [r]) = ids records @ [name]" using id by (simp add: ids_def)
      then show ?thesis using Cons.IH [OF all seen rest] by (cases res) auto
    qed
  qed
qed

section \<open>A registry from loaded packages\<close>

lemma loaded_all_fresh: "loaded_all os sha256 s0 records s \<Longrightarrow> fresh_records s (map Some records)"
proof -
  assume l: "loaded_all os sha256 s0 records s"
  have "\<forall>r \<in> set records. rc_snapshot r \<noteq> None" using l by (auto simp: loaded_all_def)
  then have "List.map_filter (\<lambda>x. Option.bind x rc_snapshot) (map Some records) = map (\<lambda>r. the (rc_snapshot r)) records"
    by (induction records) (auto simp: List.map_filter_simps)
  moreover have "distinct (map (\<lambda>r. the (rc_snapshot r)) records)"
    using l \<open>\<forall>r \<in> set records. rc_snapshot r \<noteq> None\<close> unfolding loaded_all_def distinct_map
    by (auto simp: inj_on_def)
  ultimately show ?thesis using l by (auto simp: fresh_records_def loaded_all_def list_all_iff)
qed

lemma addAll_loaded:
  assumes "distinct (ids rs)" "\<forall>r \<in> set rs. rc_snapshot r \<noteq> None" "\<forall>r \<in> set rs. get (rg_entries g) (md_ID (rc_metadata r)) = None"
    and "\<And>c a. get (rg_entries g) c = Some a \<Longrightarrow> a \<le> rg_next g"
  shows "\<exists>g'. addAll (map Some rs) g = (None, g') \<and> rg_closed g' = rg_closed g \<and>
    (\<forall>c. reg_map \<lparr>w_reg = g', w_leases = ls, w_sys = s\<rparr> c =
       (case map_of (map (\<lambda>r. (md_ID (rc_metadata r), r)) rs) c of
          Some r \<Rightarrow> Some r | None \<Rightarrow> reg_map \<lparr>w_reg = g, w_leases = ls, w_sys = s\<rparr> c))"
  using assms
proof (induction rs arbitrary: g)
  case (Cons r rs)
  let ?g = "publish (md_ID (rc_metadata r)) r g"
  have add: "addLocked (Some r) g = Inr ?g" using Cons.prems(2,3) by (simp add: addLocked_def)
  have "\<forall>q \<in> set rs. get (rg_entries ?g) (md_ID (rc_metadata q)) = None" using Cons.prems(1,3) by (auto simp: gomap_simps ids_def image_iff)
  moreover have "a \<le> rg_next ?g" if "get (rg_entries ?g) c = Some a" for c a
    using that Cons.prems(4) [of c a] by (auto simp: gomap_simps split: if_splits)
  ultimately obtain g' where g': "addAll (map Some rs) ?g = (None, g')" "rg_closed g' = rg_closed ?g"
    "\<forall>c. reg_map \<lparr>w_reg = g', w_leases = ls, w_sys = s\<rparr> c =
       (case map_of (map (\<lambda>r. (md_ID (rc_metadata r), r)) rs) c of
          Some r \<Rightarrow> Some r | None \<Rightarrow> reg_map \<lparr>w_reg = ?g, w_leases = ls, w_sys = s\<rparr> c)"
    using Cons.IH [of ?g] Cons.prems(1,2) by (auto simp: ids_def)
  have m: "reg_map \<lparr>w_reg = ?g, w_leases = ls, w_sys = s\<rparr> c =
      (if c = md_ID (rc_metadata r) then Some r else reg_map \<lparr>w_reg = g, w_leases = ls, w_sys = s\<rparr> c)" for c
    using Cons.prems(4) [of c]
    by (cases "get (rg_entries g) c") (auto simp: reg_map_def publish_def Let_def gomap_simps)
  have none: "map_of (map (\<lambda>r. (md_ID (rc_metadata r), r)) rs) (md_ID (rc_metadata r)) = None"
    using Cons.prems(1) by (auto simp: map_of_eq_None_iff ids_def)
  show ?case
    using g' add m none by (intro exI [of _ g']) (auto simp: publish_def Let_def split: option.splits)
qed simp

end
