(* ===== verification/Loader_Props.thy ===== *)
theory Loader_Props
  imports Loader_All
begin

text \<open>
  The properties of package loading: a load commits the files of the package or restores the store, and a broker that
  starts from a directory of packages either has all of them in its registry or nothing in its store.
\<close>

section \<open>Reading the result of a load of all packages\<close>

lemma loaded_all_start: "sys_inv sha256 s \<Longrightarrow> loaded_all os sha256 s [] s"
  by (simp add: loaded_all_def grows_def)

lemma no_trace_start: "sys_inv sha256 s \<Longrightarrow> no_trace os sha256 s s"
  by (simp add: no_trace_def)

lemma sort_key_ids: "sorted (ids records) \<Longrightarrow> sort_key (\<lambda>r. md_ID (rc_metadata r)) records = records"
  unfolding ids_def by (induction records) (auto simp: insort_is_Cons)

lemma PackageNames_sorted: "PackageNames os root = Inr names \<Longrightarrow> sorted names"
  by (auto simp: PackageNames_def sortedPackageNames_def res_simps split: sum.splits)

lemma LoadAll_cases:
  assumes "sys_inv (le_sha256 env) s" and "fstat_ok os"
    and "\<And>x. se_NFC (le_text env) (se_NFC (le_text env) x) = se_NFC (le_text env) x"
    and "inj_on (le_sha256 env) (bytes_in_play os s)" and load: "LoadAll env os rootPath s = (res, s')"
  shows "case res of Inl e \<Rightarrow> no_trace os (le_sha256 env) s s'
    | Inr rs \<Rightarrow> \<exists>root. openPackageRoot os rootPath = Inr root \<and> PackageNames os root = Inr (ids rs) \<and>
        loaded_all os (le_sha256 env) s rs s' \<and> distinct (ids rs)"
proof (cases "\<exists>root names. openPackageRoot os rootPath = Inr root \<and> PackageNames os root = Inr names")
  case False
  then show ?thesis using load assms(1) by (auto simp: LoadAll_def no_trace_start split: sum.splits)
next
  case True
  then obtain root names where r: "openPackageRoot os rootPath = Inr root" "PackageNames os root = Inr names" by blast
  obtain res1 s1 where l: "loadNames env os root names [] [] s = (res1, s1)" by force
  note c = loadNames_cases [OF assms(2-4) loaded_all_start [OF assms(1)] _ _ l]
  show ?thesis
  proof (cases res1)
    case (Inl e)
    then have "res = Inl e" "s' = s1" using load r l by (auto simp: LoadAll_def)
    then show ?thesis using c Inl by (simp add: ids_def)
  next
    case (Inr rs)
    then have rs: "loaded_all os (le_sha256 env) s rs s1" "ids rs = names" "distinct (ids rs)" using c by (auto simp: ids_def)
    have "sorted (ids rs)" using PackageNames_sorted [OF r(2)] rs(2) by simp
    then have "res = Inr rs" "s' = s1" using load r l Inr sort_key_ids by (auto simp: LoadAll_def)
    then show ?thesis using rs r by auto
  qed
qed

lemma NewRegistry_loaded:
  assumes "loaded_all os sha256 s0 rs s" "distinct (ids rs)"
  shows "\<exists>w. NewRegistry (map Some rs) s = (None, w) \<and> reg_inv sha256 w \<and> w_sys w = s \<and>
    reg_abs w = (False, map_of (map (\<lambda>r. (md_ID (rc_metadata r), r)) rs))"
proof -
  have snap: "\<forall>r \<in> set rs. rc_snapshot r \<noteq> None" using assms(1) by (auto simp: loaded_all_def)
  obtain g where g: "addAll (map Some rs) emptyRegistry = (None, g)" "rg_closed g = rg_closed emptyRegistry"
    "\<And>c. reg_map \<lparr>w_reg = g, w_leases = [], w_sys = s\<rparr> c =
       (case map_of (map (\<lambda>r. (md_ID (rc_metadata r), r)) rs) c of
          Some r \<Rightarrow> Some r | None \<Rightarrow> reg_map \<lparr>w_reg = emptyRegistry, w_leases = [], w_sys = s\<rparr> c)"
    using addAll_loaded [OF assms(2) snap, of emptyRegistry "[]" s] by (auto simp: emptyRegistry_def)
  let ?w = "\<lparr>w_reg = rebuildHierarchyLocked g, w_leases = [], w_sys = s\<rparr>"
  have new: "NewRegistry (map Some rs) s = (None, ?w)" by (simp add: NewRegistry_def g(1))
  have "reg_inv sha256 ?w"
    using NewRegistry_inv [OF _ loaded_all_fresh [OF assms(1)], of sha256] assms(1) new by (simp add: loaded_all_def)
  moreover have "reg_map ?w = reg_map \<lparr>w_reg = g, w_leases = [], w_sys = s\<rparr>"
    by (rule reg_map_cong) (simp_all add: rebuildHierarchyLocked_def)
  moreover have "reg_map \<lparr>w_reg = g, w_leases = [], w_sys = s\<rparr> = map_of (map (\<lambda>r. (md_ID (rc_metadata r), r)) rs)"
    by (rule ext, subst g(3)) (auto simp: reg_map_def emptyRegistry_def split: option.splits)
  moreover have "rg_closed (rebuildHierarchyLocked g) = False" using g(2) by (simp add: rebuildHierarchyLocked_def emptyRegistry_def)
  ultimately show ?thesis using new by (intro exI [of _ ?w]) (simp add: reg_abs_def)
qed

section \<open>A directory of packages\<close>

definition bare_manifest :: Manifest where
  "bare_manifest =
     \<lparr>mf_APIVersion = manifestAPIVersion, mf_Kind = manifestKind,
      mf_Metadata = \<lparr>md_ID = ''a'', md_Name = ''A'', md_Version = ''1.0.0'', md_Description = ''A'', md_Tags = []\<rparr>,
      mf_Spec = \<lparr>sp_Parent = [], sp_Skills = [], sp_Operations = [], sp_Context = [\<lparr>cr_ID = ''n'', cr_Path = ''n''\<rparr>], sp_Providers = []\<rparr>\<rparr>"

definition bare_env :: loader_env where
  "bare_env =
     \<lparr>le_sha256 = (\<lambda>x. x), le_mime = (\<lambda>x. []),
      le_yaml = (\<lambda>data. (Inr (YNode DocumentNode [] [] [] [manifestNode bare_manifest]), Inl (OtherError ''EOF''))),
      le_text = \<lparr>se_NFC = (\<lambda>s. s), se_NFKC = (\<lambda>s. s), se_ToLower = (\<lambda>s. s), se_IsLetter = (\<lambda>r. True), se_IsDigit = (\<lambda>r. False)\<rparr>\<rparr>"

text \<open>A file system with one package of an empty manifest file and a context file.\<close>

definition bare_os :: "string os_env" where
  "bare_os =
     \<lparr>os_Abs = Inr, os_EvalSymlinks = Inr, os_openDirectory = Inr, os_Dup = Inr, os_ReadDir = (\<lambda>d. Inr (if d = ''pkg'' then [''a''] else [''a'', ''b''])),
      os_openatDirectory = (\<lambda>d n. Inr (d @ ''/'' @ n)), os_openatFile = (\<lambda>d n. Inr (d @ ''/'' @ n)),
      os_Fstat = (\<lambda>f. Inr (True, if f = ''pkg/a/n'' then 2 else 0)),
      os_reader = (\<lambda>f. (if f = ''pkg/a/n'' then ''hi'' else [], None)), os_Close = (\<lambda>f. None)\<rparr>"

definition bare_sys :: snapshot_system where
  "bare_sys = sys_init \<lparr>st_limits = demo_limits, st_stagingReserved = 0, st_snapshotReserved = 0, st_snapshotUsed = 0, st_objects = []\<rparr>"

lemma bare_LoadAll: "case fst (LoadAll bare_env bare_os ''pkg'' bare_sys) of Inl e \<Rightarrow> False | Inr rs \<Rightarrow> True"
  by code_simp

lemma bare_Load: "case fst (loadFromRoot bare_env bare_os ''pkg'' ''a'' bare_sys) of Inl e \<Rightarrow> False | Inr r \<Rightarrow> Record_Artifact r [] = None"
  by code_simp

lemma bare_Load_b: "case fst (loadFromRoot bare_env bare_os ''two'' ''b'' bare_sys) of Inl e \<Rightarrow> e = PackageError ''package_directory_mismatch'' ''b'' | Inr rs \<Rightarrow> False"
  by code_simp

lemma bare_mismatch: "case fst (LoadAll bare_env bare_os ''two'' bare_sys) of Inl e \<Rightarrow> e = PackageError ''package_directory_mismatch'' ''b'' | Inr rs \<Rightarrow> False"
  by code_simp

lemma bare_ok:
  "sys_inv (le_sha256 bare_env) bare_sys" "fstat_ok bare_os" "se_NFC (le_text bare_env) (se_NFC (le_text bare_env) x) = se_NFC (le_text bare_env) x"
  "inj_on (le_sha256 bare_env) A"
proof -
  show "sys_inv (le_sha256 bare_env) bare_sys"
    unfolding bare_sys_def by (rule sys_init_inv [OF _ demo_limits_ok]) (simp add: NewSnapshotStore_def demo_limits_def)
qed (auto simp: bare_env_def bare_os_def fstat_ok_def inj_on_def)

section \<open>Properties\<close>

text \<open>C5: A load that succeeds keeps the store's invariant, is a sequence of the store's own steps, adds one snapshot to the
  store and takes nothing away from it; the record it returns has the identity of the package directory, and reading any of
  its artifacts gives the bytes of the file of that path in the package. SHA-256 is only asked to be injective on the bytes
  that are in the store or come from the file system, and NFC normalisation to be idempotent.\<close>

theorem load_commits_package:
  assumes "sys_inv (le_sha256 env) s" and "fstat_ok os"
    and "\<And>x. se_NFC (le_text env) (se_NFC (le_text env) x) = se_NFC (le_text env) x"
    and "inj_on (le_sha256 env) (bytes_in_play os s)"
    and "loadFromRoot env os root pkg s = (Inr r, s')"
  shows "sys_inv (le_sha256 env) s' \<and> (sys_step (le_sha256 env))\<^sup>*\<^sup>* s s' \<and> grows os s s' \<and> loaded os root pkg s r s'"
  using assms by (rule loadFromRoot_Inr)

theorem load_commits_package_witness:
  "\<exists>r s'. loadFromRoot bare_env bare_os ''pkg'' ''a'' bare_sys = (Inr r, s') \<and> loaded bare_os ''pkg'' ''a'' bare_sys r s'"
proof -
  obtain res s' where l: "loadFromRoot bare_env bare_os ''pkg'' ''a'' bare_sys = (res, s')" by force
  then obtain r where r: "res = Inr r" using bare_Load by (cases res) auto
  show ?thesis using load_commits_package [OF bare_ok l [unfolded r]] l r by blast
qed

text \<open>A load that fails, at whatever step, has put back every byte it reserved: the store, the snapshots and the leases
  are those from before the load.\<close>

theorem load_failure_restores:
  assumes "sys_inv (le_sha256 env) s" and "fstat_ok os"
    and "\<And>x. se_NFC (le_text env) (se_NFC (le_text env) x) = se_NFC (le_text env) x"
    and "loadFromRoot env os root pkg s = (Inl e, s')"
  shows "sys_inv (le_sha256 env) s' \<and> (sys_step (le_sha256 env))\<^sup>*\<^sup>* s s' \<and> sys_store s' = sys_store s \<and> sys_snaps s' = sys_snaps s \<and>
    sys_leases s' = sys_leases s"
  using assms by (rule loadFromRoot_Inl)

theorem load_failure_restores_witness:
  "\<exists>e s'. loadFromRoot bare_env bare_os ''two'' ''b'' bare_sys = (Inl e, s') \<and> sys_store s' = sys_store bare_sys"
proof -
  obtain res s' where l: "loadFromRoot bare_env bare_os ''two'' ''b'' bare_sys = (res, s')" by force
  then obtain e where e: "res = Inl e" using bare_Load_b by (cases res) auto
  show ?thesis using load_failure_restores [OF bare_ok(1-3) l [unfolded e]] l e by blast
qed

text \<open>C6: When loading all packages of a directory succeeds, the records returned are the packages found there, in order and
  without repetition, each backed by a live snapshot; the registry built from them is created without an error, satisfies its
  invariant, and maps every identity to the record of its package and nothing else.\<close>

theorem LoadAll_boots_registry:
  assumes "sys_inv (le_sha256 env) s" and "fstat_ok os"
    and "\<And>x. se_NFC (le_text env) (se_NFC (le_text env) x) = se_NFC (le_text env) x"
    and "inj_on (le_sha256 env) (bytes_in_play os s)"
    and "LoadAll env os rootPath s = (Inr records, s')"
  shows "\<exists>root w. openPackageRoot os rootPath = Inr root \<and> PackageNames os root = Inr (map (\<lambda>r. md_ID (rc_metadata r)) records) \<and>
    list_all (record_backed s') records \<and>
    NewRegistry (map Some records) s' = (None, w) \<and> reg_inv (le_sha256 env) w \<and> w_sys w = s' \<and>
    reg_abs w = (False, map_of (map (\<lambda>r. (md_ID (rc_metadata r), r)) records))"
proof -
  obtain root where r: "openPackageRoot os rootPath = Inr root" "PackageNames os root = Inr (ids records)"
    "loaded_all os (le_sha256 env) s records s'" "distinct (ids records)"
    using LoadAll_cases [OF assms] by auto
  then show ?thesis using NewRegistry_loaded [OF r(3,4)] by (auto simp: ids_def loaded_all_def)
qed

theorem LoadAll_boots_registry_witness:
  "\<exists>records s' w. LoadAll bare_env bare_os ''pkg'' bare_sys = (Inr records, s') \<and> NewRegistry (map Some records) s' = (None, w) \<and>
     map (\<lambda>r. md_ID (rc_metadata r)) records = [''a'']"
proof -
  obtain res s' where l: "LoadAll bare_env bare_os ''pkg'' bare_sys = (res, s')" by force
  then obtain rs where rs: "res = Inr rs" using bare_LoadAll by (cases res) auto
  have "PackageNames bare_os root = Inr names \<Longrightarrow> openPackageRoot bare_os ''pkg'' = Inr root \<Longrightarrow> names = [''a'']" for root names
    by (auto simp: PackageNames_def openPackageRoot_def bare_os_def sortedPackageNames_def res_simps split: sum.splits)
  then show ?thesis using LoadAll_boots_registry [OF bare_ok l [unfolded rs]] l rs by blast
qed

text \<open>C22: When loading all packages fails, whichever package it fails at, the packages loaded before it are released again:
  every snapshot that the load added is released, the older ones and their leases are as they were, and the store's
  statistics (objects, bytes used, bytes reserved) are those from before.\<close>

theorem LoadAll_failure_no_trace:
  assumes "sys_inv (le_sha256 env) s" and "fstat_ok os"
    and "\<And>x. se_NFC (le_text env) (se_NFC (le_text env) x) = se_NFC (le_text env) x"
    and "inj_on (le_sha256 env) (bytes_in_play os s)"
    and "LoadAll env os rootPath s = (Inl e, s')"
  shows "no_trace os (le_sha256 env) s s' \<and> store_Stats (sys_store s') = store_Stats (sys_store s)"
  using LoadAll_cases [OF assms] no_trace_stats [OF assms(1) _ assms(4)] by auto

theorem LoadAll_failure_no_trace_witness:
  "\<exists>e s'. LoadAll bare_env bare_os ''two'' bare_sys = (Inl e, s') \<and> store_Stats (sys_store s') = store_Stats (sys_store bare_sys)"
proof -
  obtain res s' where l: "LoadAll bare_env bare_os ''two'' bare_sys = (res, s')" by force
  then obtain e where e: "res = Inl e" using bare_mismatch by (cases res) auto
  show ?thesis using LoadAll_failure_no_trace [OF bare_ok l [unfolded e]] l e by blast
qed

end
