(* ===== verification/Config.thy ===== *)
theory Config
  imports Json
begin

text \<open>
  The configuration, \<^verbatim>\<open>internal/config/config.go\<close> and \<^verbatim>\<open>config_deprecated.go\<close>: the two generations of the format, the
  adaptation of the first to the second, the defaults that loading fills in, and the choice of a transport for a provider.
  Fetching and decoding the file is the work of a third-party library; its result is an argument.
\<close>

section \<open>Data\<close>

record StdioMCPClientConfig =
  si_Command :: string
  si_Env :: "(string, string) gomap"
  si_Args :: "string list"

record SSEMCPClientConfig =
  ss_URL :: string
  ss_Headers :: "(string, string) gomap"

record StreamableMCPClientConfig =
  sh_URL :: string
  sh_Headers :: "(string, string) gomap"
  sh_Timeout :: int

definition MCPClientTypeStdio :: string where "MCPClientTypeStdio = ''stdio''"
definition MCPClientTypeSSE :: string where "MCPClientTypeSSE = ''sse''"
definition MCPClientTypeStreamable :: string where "MCPClientTypeStreamable = ''streamable-http''"
definition MCPServerTypeSSE :: string where "MCPServerTypeSSE = ''sse''"

record ToolFilterConfig =
  tf_Mode :: string
  tf_List :: "string list"

text \<open>An \<^verbatim>\<open>optional.Field[bool]\<close> is an option; \<^verbatim>\<open>AuthTokens\<close> is one as well, since the code tells a nil slice from an empty one.\<close>

record OptionsV2 =
  ov_PanicIfInvalid :: "bool option"
  ov_LogEnabled :: "bool option"
  ov_LazyLoad :: "bool option"
  ov_RecursiveLazyLoad :: "bool option"
  ov_AuthTokens :: "string list option"
  ov_ToolFilter :: "ToolFilterConfig option"

definition emptyOptions :: OptionsV2 where
  "emptyOptions = \<lparr>ov_PanicIfInvalid = None, ov_LogEnabled = None, ov_LazyLoad = None, ov_RecursiveLazyLoad = None,
                   ov_AuthTokens = None, ov_ToolFilter = None\<rparr>"

record MCPProxyConfigV2 =
  px_BaseURL :: string
  px_Addr :: string
  px_Name :: string
  px_Version :: string
  px_Type :: string
  px_HierarchyPath :: string
  px_CapabilityPath :: string
  px_Options :: "OptionsV2 option"

record MCPClientConfigV2 =
  cc_TransportType :: string
  cc_Command :: string
  cc_Args :: "string list"
  cc_Env :: "(string, string) gomap"
  cc_URL :: string
  cc_Headers :: "(string, string) gomap"
  cc_Timeout :: int
  cc_Options :: "OptionsV2 option"

definition emptyClientConfig :: MCPClientConfigV2 where
  "emptyClientConfig = \<lparr>cc_TransportType = [], cc_Command = [], cc_Args = [], cc_Env = [], cc_URL = [], cc_Headers = [], cc_Timeout = 0,
                        cc_Options = None\<rparr>"

text \<open>The dynamic types that \<^verbatim>\<open>ParseMCPClientConfigV2\<close> and its predecessor return as \<^verbatim>\<open>any\<close>.\<close>

datatype clientInfo = StdioClient StdioMCPClientConfig | SSEClient SSEMCPClientConfig | StreamableClient StreamableMCPClientConfig

definition ParseMCPClientConfigV2 :: "MCPClientConfigV2 \<Rightarrow> clientInfo res" where
  "ParseMCPClientConfigV2 conf =
     (if cc_Command conf \<noteq> [] \<or> cc_TransportType conf = MCPClientTypeStdio then
        (if cc_Command conf = [] then Inl (OtherError ''command is required for stdio transport'')
         else Inr (StdioClient \<lparr>si_Command = cc_Command conf, si_Env = cc_Env conf, si_Args = cc_Args conf\<rparr>))
      else if cc_URL conf \<noteq> [] then
        (if cc_TransportType conf = MCPClientTypeStreamable
         then Inr (StreamableClient \<lparr>sh_URL = cc_URL conf, sh_Headers = cc_Headers conf, sh_Timeout = cc_Timeout conf\<rparr>)
         else Inr (SSEClient \<lparr>ss_URL = cc_URL conf, ss_Headers = cc_Headers conf\<rparr>))
      else Inl (OtherError ''invalid server type''))"

section \<open>The first generation\<close>

record MCPClientConfigV1 =
  c1_Type :: string
  c1_Config :: string
  c1_PanicIfInvalid :: bool
  c1_LogEnabled :: bool
  c1_AuthTokens :: "string list option"

record MCPProxyConfigV1 =
  p1_BaseURL :: string
  p1_Addr :: string
  p1_Name :: string
  p1_Version :: string
  p1_GlobalAuthTokens :: "string list option"

text \<open>Decoding of the fields: a null keeps what is there, an object is merged into a map that is there already.\<close>

definition decodeString :: "json \<Rightarrow> string option" where
  "decodeString v = (case v of JStr s \<Rightarrow> Some s | JNull \<Rightarrow> Some [] | _ \<Rightarrow> None)"

definition decodeStrings :: "json \<Rightarrow> string list option" where
  "decodeStrings v = (case v of JArr xs \<Rightarrow> traverse decodeString xs | _ \<Rightarrow> None)"

fun decodeStringMembers :: "(string \<times> json) list \<Rightarrow> (string, string) gomap \<Rightarrow> (string, string) gomap option" where
  "decodeStringMembers [] m = Some m"
| "decodeStringMembers ((k, v) # ms) m =
     (case decodeString v of None \<Rightarrow> None | Some s \<Rightarrow> decodeStringMembers ms (put k s m))"

definition decodeStringMap :: "json \<Rightarrow> (string, string) gomap \<Rightarrow> (string, string) gomap option" where
  "decodeStringMap v m = (case v of JObj ms \<Rightarrow> decodeStringMembers ms m | _ \<Rightarrow> None)"

definition stdioField :: "string \<Rightarrow> json \<Rightarrow> StdioMCPClientConfig \<Rightarrow> StdioMCPClientConfig option" where
  "stdioField k v c =
     (if k = ''command'' then map_option (\<lambda>s. c\<lparr>si_Command := s\<rparr>) (decodeString v)
      else if k = ''env'' then map_option (\<lambda>m. c\<lparr>si_Env := m\<rparr>) (decodeStringMap v (si_Env c))
      else if k = ''args'' then map_option (\<lambda>xs. c\<lparr>si_Args := xs\<rparr>) (decodeStrings v)
      else Some c)"

definition sseField :: "string \<Rightarrow> json \<Rightarrow> SSEMCPClientConfig \<Rightarrow> SSEMCPClientConfig option" where
  "sseField k v c =
     (if k = ''url'' then map_option (\<lambda>s. c\<lparr>ss_URL := s\<rparr>) (decodeString v)
      else if k = ''headers'' then map_option (\<lambda>m. c\<lparr>ss_Headers := m\<rparr>) (decodeStringMap v (ss_Headers c))
      else Some c)"

definition streamableField :: "string \<Rightarrow> json \<Rightarrow> StreamableMCPClientConfig \<Rightarrow> StreamableMCPClientConfig option" where
  "streamableField k v c =
     (if k = ''url'' then map_option (\<lambda>s. c\<lparr>sh_URL := s\<rparr>) (decodeString v)
      else if k = ''headers'' then map_option (\<lambda>m. c\<lparr>sh_Headers := m\<rparr>) (decodeStringMap v (sh_Headers c))
      else if k = ''timeout'' then
        (case v of JNum s \<Rightarrow> map_option (\<lambda>i. c\<lparr>sh_Timeout := i\<rparr>) (parseInt64 s) | _ \<Rightarrow> None)
      else Some c)"

definition unmarshalConfig :: "(string \<Rightarrow> json \<Rightarrow> 'a \<Rightarrow> 'a option) \<Rightarrow> 'a \<Rightarrow> string \<Rightarrow> 'a res" where
  "unmarshalConfig step zero data =
     (case decodeStruct step zero data of None \<Rightarrow> Inl (OtherError ''json: cannot unmarshal'') | Some c \<Rightarrow> Inr c)"

definition ParseMCPClientConfigV1 :: "MCPClientConfigV1 \<Rightarrow> clientInfo res" where
  "ParseMCPClientConfigV1 conf =
     (if c1_Type conf = MCPClientTypeStdio
      then rbind (unmarshalConfig stdioField \<lparr>si_Command = [], si_Env = [], si_Args = []\<rparr> (c1_Config conf)) (\<lambda>c. Inr (StdioClient c))
      else if c1_Type conf = MCPClientTypeSSE
      then rbind (unmarshalConfig sseField \<lparr>ss_URL = [], ss_Headers = []\<rparr> (c1_Config conf)) (\<lambda>c. Inr (SSEClient c))
      else if c1_Type conf = MCPClientTypeStreamable
      then rbind (unmarshalConfig streamableField \<lparr>sh_URL = [], sh_Headers = [], sh_Timeout = 0\<rparr> (c1_Config conf))
             (\<lambda>c. Inr (StreamableClient c))
      else Inl (OtherError ''invalid client type''))"

section \<open>Loading\<close>

text \<open>A pointer in a map of the configuration is nil where the file has a null.\<close>

record Config =
  cf_McpProxy :: "MCPProxyConfigV2 option"
  cf_McpServers :: "(string, MCPClientConfigV2 option) gomap"

record FullConfig =
  fc_DeprecatedServerV1 :: "MCPProxyConfigV1 option"
  fc_DeprecatedClientsV1 :: "(string, MCPClientConfigV1 option) gomap"
  fc_McpProxy :: "MCPProxyConfigV2 option"
  fc_McpServers :: "(string, MCPClientConfigV2 option) gomap"

definition panicNil :: "'a res" where
  "panicNil = Inl (OtherError ''panic: nil pointer dereference'')"

definition adaptProxy :: "MCPProxyConfigV1 \<Rightarrow> MCPProxyConfigV2" where
  "adaptProxy v1 =
     \<lparr>px_BaseURL = p1_BaseURL v1, px_Addr = p1_Addr v1, px_Name = p1_Name v1, px_Version = p1_Version v1, px_Type = [],
      px_HierarchyPath = [], px_CapabilityPath = [],
      px_Options = Some (emptyOptions\<lparr>ov_AuthTokens := p1_GlobalAuthTokens v1\<rparr>)\<rparr>"

definition tokens :: "string list option \<Rightarrow> string list" where
  "tokens t = (case t of None \<Rightarrow> [] | Some xs \<Rightarrow> xs)"

definition adaptOptions :: "MCPProxyConfigV1 option \<Rightarrow> MCPClientConfigV1 \<Rightarrow> OptionsV2" where
  "adaptOptions server client =
     (let options = emptyOptions\<lparr>ov_AuthTokens := c1_AuthTokens client\<rparr>
      in case server of None \<Rightarrow> options
         | Some v1 \<Rightarrow>
           if tokens (p1_GlobalAuthTokens v1) = [] then options
           else options\<lparr>ov_AuthTokens := Some (tokens (c1_AuthTokens client) @ tokens (p1_GlobalAuthTokens v1))\<rparr>)"

definition adaptInfo :: "clientInfo \<Rightarrow> OptionsV2 \<Rightarrow> MCPClientConfigV2" where
  "adaptInfo info options =
     (case info of
        StdioClient v \<Rightarrow> emptyClientConfig\<lparr>cc_Command := si_Command v, cc_Args := si_Args v, cc_Env := si_Env v, cc_Options := Some options\<rparr>
      | SSEClient v \<Rightarrow> emptyClientConfig\<lparr>cc_URL := ss_URL v, cc_Headers := ss_Headers v, cc_Options := Some options\<rparr>
      | StreamableClient v \<Rightarrow>
        emptyClientConfig\<lparr>cc_URL := sh_URL v, cc_Headers := sh_Headers v, cc_Timeout := sh_Timeout v, cc_Options := Some options\<rparr>)"

fun adaptClients ::
  "MCPProxyConfigV1 option \<Rightarrow> (string \<times> MCPClientConfigV1 option) list \<Rightarrow> (string, MCPClientConfigV2 option) gomap \<Rightarrow>
   (string, MCPClientConfigV2 option) gomap res" where
  "adaptClients server [] result = Inr result"
| "adaptClients server ((name, None) # rest) result = panicNil"
| "adaptClients server ((name, Some client) # rest) result =
     (case ParseMCPClientConfigV1 client of
        Inl e \<Rightarrow> adaptClients server rest result
      | Inr info \<Rightarrow> adaptClients server rest (put name (Some (adaptInfo info (adaptOptions server client))) result))"

definition adaptMCPClientConfigV1ToV2 :: "FullConfig \<Rightarrow> FullConfig res" where
  "adaptMCPClientConfigV1ToV2 conf =
     (let proxy = (case fc_McpProxy conf of Some p \<Rightarrow> Some p | None \<Rightarrow> map_option adaptProxy (fc_DeprecatedServerV1 conf))
      in rbind (if fc_DeprecatedClientsV1 conf \<noteq> [] \<and> fc_McpServers conf = []
                then adaptClients (fc_DeprecatedServerV1 conf) (fc_DeprecatedClientsV1 conf) [] else Inr (fc_McpServers conf))
           (\<lambda>servers. Inr (conf\<lparr>fc_McpProxy := proxy, fc_McpServers := servers, fc_DeprecatedServerV1 := None, fc_DeprecatedClientsV1 := []\<rparr>)))"

definition inherit :: "'a option \<Rightarrow> 'a option \<Rightarrow> 'a option" where
  "inherit own shared = (case own of None \<Rightarrow> shared | Some x \<Rightarrow> Some x)"

definition inheritOptions :: "OptionsV2 \<Rightarrow> MCPClientConfigV2 \<Rightarrow> MCPClientConfigV2" where
  "inheritOptions proxy client =
     (let own = (case cc_Options client of None \<Rightarrow> emptyOptions | Some x \<Rightarrow> x)
      in client\<lparr>cc_Options := Some (own\<lparr>ov_AuthTokens := inherit (ov_AuthTokens own) (ov_AuthTokens proxy),
           ov_PanicIfInvalid := inherit (ov_PanicIfInvalid own) (ov_PanicIfInvalid proxy),
           ov_LogEnabled := inherit (ov_LogEnabled own) (ov_LogEnabled proxy),
           ov_LazyLoad := inherit (ov_LazyLoad own) (ov_LazyLoad proxy)\<rparr>)\<rparr>)"

definition inheritEntry :: "OptionsV2 \<Rightarrow> string \<times> MCPClientConfigV2 option \<Rightarrow> (string \<times> MCPClientConfigV2 option) res" where
  "inheritEntry proxy e = (case snd e of None \<Rightarrow> panicNil | Some client \<Rightarrow> Inr (fst e, Some (inheritOptions proxy client)))"

text \<open>\<open>file\<close> is what the configuration library read and decoded.\<close>

definition Load_config :: "FullConfig res \<Rightarrow> Config res" where
  "Load_config file =
     rbind file (\<lambda>conf0. rbind (adaptMCPClientConfigV1ToV2 conf0) (\<lambda>conf.
       case fc_McpProxy conf of None \<Rightarrow> Inl (OtherError ''mcpProxy is required'')
       | Some proxy \<Rightarrow>
         let options = (case px_Options proxy of None \<Rightarrow> emptyOptions | Some x \<Rightarrow> x);
             kind = (if px_Type proxy = [] then MCPServerTypeSSE else px_Type proxy)
         in rbind (rmap (inheritEntry options) (fc_McpServers conf)) (\<lambda>servers.
              Inr \<lparr>cf_McpProxy = Some (proxy\<lparr>px_Options := Some options, px_Type := kind\<rparr>), cf_McpServers = servers\<rparr>)))"

section \<open>What the adaptation keeps\<close>

text \<open>The transport that a provider of the first generation gets after the adaptation.\<close>

definition adaptedTransport :: "clientInfo \<Rightarrow> clientInfo" where
  "adaptedTransport info =
     (case info of StreamableClient v \<Rightarrow> SSEClient \<lparr>ss_URL = sh_URL v, ss_Headers = sh_Headers v\<rparr> | _ \<Rightarrow> info)"

fun usable :: "clientInfo \<Rightarrow> bool" where
  "usable (StdioClient v) = (si_Command v \<noteq> [])"
| "usable (SSEClient v) = (ss_URL v \<noteq> [])"
| "usable (StreamableClient v) = (sh_URL v \<noteq> [])"

lemma ParseV2_adaptInfo:
  "ParseMCPClientConfigV2 (adaptInfo info options) =
     (if usable info then Inr (adaptedTransport info) else Inl (OtherError ''invalid server type''))"
  by (cases info)
    (auto simp: ParseMCPClientConfigV2_def adaptInfo_def emptyClientConfig_def adaptedTransport_def MCPClientTypeStdio_def MCPClientTypeStreamable_def)

lemma ParseV2_inherit: "ParseMCPClientConfigV2 (inheritOptions proxy client) = ParseMCPClientConfigV2 client"
  by (simp add: ParseMCPClientConfigV2_def inheritOptions_def Let_def)

lemma adaptClients_get:
  assumes "adaptClients server es result = Inr servers" "distinct (map fst es)" "set (map fst es) \<inter> dom (get result) = {}"
  shows "get servers name =
    (case map_of es name of
       Some (Some client) \<Rightarrow>
         (case ParseMCPClientConfigV1 client of Inl e \<Rightarrow> None | Inr info \<Rightarrow> Some (Some (adaptInfo info (adaptOptions server client))))
     | _ \<Rightarrow> get result name)"
  using assms
proof (induction es arbitrary: result)
  case (Cons e es)
  obtain n c where e: "e = (n, Some c)" using Cons.prems(1) by (cases e; cases "snd e") (auto simp: panicNil_def)
  have n: "get result n = None" "n \<notin> fst ` set es" using Cons.prems(2,3) by (auto simp: e)
  then have m: "map_of es n = None" by (simp add: map_of_eq_None_iff)
  show ?case
  proof (cases "ParseMCPClientConfigV1 c")
    case (Inl x)
    then show ?thesis using Cons.IH [of result] Cons.prems m n by (auto simp: e split: option.splits)
  next
    case (Inr info)
    let ?result = "put n (Some (adaptInfo info (adaptOptions server c))) result"
    have "dom (get ?result) = insert n (dom (get result))" by (auto simp: gomap_simps dom_def)
    then have "set (map fst es) \<inter> dom (get ?result) = {}" using Cons.prems(3) n(2) by (auto simp: e)
    then show ?thesis using Cons.IH [of ?result] Cons.prems Inr m n by (auto simp: e gomap_simps split: option.splits)
  qed
qed simp

end
