(* ===== verification/Providers.thy ===== *)
theory Providers
  imports Config
begin

text \<open>
  The registry of provider clients, \<^verbatim>\<open>internal/hierarchy/hierarchy.go\<close>.  Callers of \<^verbatim>\<open>ExecuteMappedTool\<close> run
  concurrently; each is at one of a few places of the code, and between two places lies one critical section of
  \<^verbatim>\<open>r.mu\<close>, one operation on a channel or one call of the third-party client.  Clients are identities: what they
  do is outside of this repository, and the registry only starts, calls and closes them.
\<close>

section \<open>Data\<close>

text \<open>
  \<open>ErrFactory c\<close> is an error of the client factory; \<open>c\<close> tells whether \<^verbatim>\<open>errors.Is\<close> finds the mark that the caller who
  started the provider gave up.  \<open>PanicNilClient\<close> is the call through a nil interface, which a factory that returns neither a client nor
  an error would lead to.
\<close>

datatype provider_error = ErrClosed | ErrClosedWhileStarting | ErrConfigNotFound string | ErrContext | ErrFactory bool
  | PanicNilClient

record providerLoad =
  ld_done :: bool
  ld_client :: "nat option"
  ld_err :: "provider_error option"
  ld_initiatingCallerCanceled :: bool

text \<open>Loads and mutexes are pointers, so the maps hold addresses; a mutex is the channel that holds its token or not.\<close>

record ServerRegistry =
  sr_clients :: "(string, nat) gomap"
  sr_clientLoads :: "(string, nat) gomap"
  sr_clientMutex :: "(string, nat) gomap"
  sr_serverConfigs :: "(string, MCPClientConfigV2) gomap"
  sr_closed :: bool

text \<open>Where a caller of \<^verbatim>\<open>ExecuteMappedTool\<close> is.\<close>

datatype place =
    GetServer
  | WaitLoad nat
  | Starting nat
  | CleanUp nat provider_error
  | GotClient nat
  | WaitMutex nat nat
  | TookToken nat nat
  | Calling nat nat
  | Returned "provider_error + nat"

record caller =
  ca_server :: string
  ca_place :: place
  ca_canceled :: bool

text \<open>
  The registry with the heap of its loads and mutexes, the callers, the clients that a factory has returned so far, those
  that \<^verbatim>\<open>Close\<close> has taken and not closed yet, and those that were closed.
\<close>

record providers =
  pv_reg :: ServerRegistry
  pv_loads :: "(nat, providerLoad) gomap"
  pv_mutexes :: "(nat, bool) gomap"
  pv_callers :: "(nat, caller) gomap"
  pv_started :: "nat list"
  pv_closing :: "nat list"
  pv_stopped :: "nat list"

section \<open>Getting a client\<close>

definition newServerRegistry :: "(string, MCPClientConfigV2) gomap \<Rightarrow> ServerRegistry" where
  "newServerRegistry serverConfigs =
     \<lparr>sr_clients = [], sr_clientLoads = [], sr_clientMutex = [], sr_serverConfigs = serverConfigs, sr_closed = False\<rparr>"

definition newLoad :: providerLoad where
  "newLoad = \<lparr>ld_done = False, ld_client = None, ld_err = None, ld_initiatingCallerCanceled = False\<rparr>"

text \<open>The first critical section of the loop in \<^verbatim>\<open>GetOrLoadServer\<close>.\<close>

definition enterServer :: "string \<Rightarrow> providers \<Rightarrow> place \<times> providers" where
  "enterServer serverName w =
     (let r = pv_reg w
      in if sr_closed r then (Returned (Inl ErrClosed), w)
         else case get (sr_clients r) serverName of Some client \<Rightarrow> (GotClient client, w)
         | None \<Rightarrow>
           (case get (sr_clientLoads r) serverName of Some l \<Rightarrow> (WaitLoad l, w)
            | None \<Rightarrow>
              (case get (sr_serverConfigs r) serverName of None \<Rightarrow> (Returned (Inl (ErrConfigNotFound serverName)), w)
               | Some cfg \<Rightarrow>
                 let l = fresh (pv_loads w)
                 in (Starting l, w\<lparr>pv_loads := put l newLoad (pv_loads w),
                                   pv_reg := r\<lparr>sr_clientLoads := put serverName l (sr_clientLoads r)\<rparr>\<rparr>))))"

text \<open>What a caller returns from the wait for a load that is done.\<close>

definition loadResult :: "bool \<Rightarrow> providerLoad \<Rightarrow> place" where
  "loadResult canceled l =
     (if canceled then Returned (Inl ErrContext)
      else if ld_initiatingCallerCanceled l then GetServer
      else case ld_err l of Some e \<Rightarrow> Returned (Inl e)
      | None \<Rightarrow> (case ld_client l of Some c \<Rightarrow> GotClient c | None \<Rightarrow> Returned (Inl PanicNilClient)))"

definition startFailure :: "ServerRegistry \<Rightarrow> provider_error option \<Rightarrow> provider_error option" where
  "startFailure r err = (if err = None \<and> sr_closed r then Some ErrClosedWhileStarting else err)"

text \<open>
  The second critical section, after the factory has returned a client, an error or both, with the decision what to do
  after it.
\<close>

definition finishServer :: "string \<Rightarrow> nat \<Rightarrow> nat option \<Rightarrow> provider_error option \<Rightarrow> providers \<Rightarrow> place \<times> providers" where
  "finishServer serverName l mcpClient err w =
     (let r = pv_reg w; err' = startFailure r err;
          clients = (case (err', mcpClient) of (None, Some c) \<Rightarrow> put serverName c (sr_clients r) | _ \<Rightarrow> sr_clients r);
          done = \<lparr>ld_done = True, ld_client = (if err' = None then mcpClient else None), ld_err = err',
                  ld_initiatingCallerCanceled = (err = Some (ErrFactory True))\<rparr>;
          w' = w\<lparr>pv_reg := r\<lparr>sr_clients := clients, sr_clientLoads := del serverName (sr_clientLoads r)\<rparr>,
                 pv_loads := put l done (pv_loads w),
                 pv_started := pv_started w @ (case mcpClient of None \<Rightarrow> [] | Some c \<Rightarrow> [c])\<rparr>
      in (case (err', mcpClient) of
            (Some e, Some c) \<Rightarrow> CleanUp c e
          | (Some e, None) \<Rightarrow> Returned (Inl e)
          | (None, Some c) \<Rightarrow> GotClient c
          | (None, None) \<Rightarrow> Returned (Inl PanicNilClient), w'))"

section \<open>Calling a client\<close>

definition GetClientMutex :: "string \<Rightarrow> providers \<Rightarrow> nat \<times> providers" where
  "GetClientMutex serverName w =
     (case get (sr_clientMutex (pv_reg w)) serverName of Some m \<Rightarrow> (m, w)
      | None \<Rightarrow>
        let m = fresh (pv_mutexes w)
        in (m, w\<lparr>pv_mutexes := put m True (pv_mutexes w),
                 pv_reg := (pv_reg w)\<lparr>sr_clientMutex := put serverName m (sr_clientMutex (pv_reg w))\<rparr>\<rparr>))"

definition Unlock :: "nat \<Rightarrow> providers \<Rightarrow> providers" where
  "Unlock m w = w\<lparr>pv_mutexes := put m True (pv_mutexes w)\<rparr>"

definition takeToken :: "nat \<Rightarrow> providers \<Rightarrow> providers" where
  "takeToken m w = w\<lparr>pv_mutexes := put m False (pv_mutexes w)\<rparr>"

section \<open>Closing\<close>

definition providers_Close :: "providers \<Rightarrow> providers" where
  "providers_Close w =
     (if sr_closed (pv_reg w) then w
      else w\<lparr>pv_reg := (pv_reg w)\<lparr>sr_closed := True, sr_clients := [], sr_clientLoads := [], sr_clientMutex := []\<rparr>,
             pv_closing := pv_closing w @ map snd (sr_clients (pv_reg w))\<rparr>)"

definition stopClient :: "nat \<Rightarrow> providers \<Rightarrow> providers" where
  "stopClient c w = w\<lparr>pv_stopped := pv_stopped w @ [c]\<rparr>"

section \<open>Runs\<close>

definition at_place :: "nat \<Rightarrow> caller \<Rightarrow> place \<Rightarrow> providers \<Rightarrow> providers" where
  "at_place i k p w = w\<lparr>pv_callers := put i (k\<lparr>ca_place := p\<rparr>) (pv_callers w)\<rparr>"

text \<open>
  The factory may return an error with or without a client, or else a client; the client is a new one.
\<close>

definition factory_result :: "nat option \<Rightarrow> provider_error option \<Rightarrow> providers \<Rightarrow> bool" where
  "factory_result mcpClient err w \<longleftrightarrow>
     (err = None \<longrightarrow> mcpClient \<noteq> None) \<and> (case mcpClient of None \<Rightarrow> True | Some c \<Rightarrow> c \<notin> set (pv_started w))"

inductive prov_step :: "providers \<Rightarrow> providers \<Rightarrow> bool" where
  prov_call: "i = fresh (pv_callers w) \<Longrightarrow>
     prov_step w (w\<lparr>pv_callers := put i \<lparr>ca_server = name, ca_place = GetServer, ca_canceled = False\<rparr> (pv_callers w)\<rparr>)"
| prov_cancel: "get (pv_callers w) i = Some k \<Longrightarrow>
     prov_step w (w\<lparr>pv_callers := put i (k\<lparr>ca_canceled := True\<rparr>) (pv_callers w)\<rparr>)"
| prov_enter: "get (pv_callers w) i = Some k \<Longrightarrow> ca_place k = GetServer \<Longrightarrow> enterServer (ca_server k) w = (p, w') \<Longrightarrow>
     prov_step w (at_place i k p w')"
| prov_wait_canceled: "get (pv_callers w) i = Some k \<Longrightarrow> ca_place k = WaitLoad l \<Longrightarrow> ca_canceled k \<Longrightarrow>
     prov_step w (at_place i k (Returned (Inl ErrContext)) w)"
| prov_wait_done: "get (pv_callers w) i = Some k \<Longrightarrow> ca_place k = WaitLoad l \<Longrightarrow> get (pv_loads w) l = Some d \<Longrightarrow> ld_done d \<Longrightarrow>
     prov_step w (at_place i k (loadResult (ca_canceled k) d) w)"
| prov_started: "get (pv_callers w) i = Some k \<Longrightarrow> ca_place k = Starting l \<Longrightarrow> factory_result mcpClient err w \<Longrightarrow>
     finishServer (ca_server k) l mcpClient err w = (p, w') \<Longrightarrow> prov_step w (at_place i k p w')"
| prov_cleaned: "get (pv_callers w) i = Some k \<Longrightarrow> ca_place k = CleanUp c e \<Longrightarrow>
     prov_step w (at_place i k (Returned (Inl e)) (stopClient c w))"
| prov_mutex: "get (pv_callers w) i = Some k \<Longrightarrow> ca_place k = GotClient c \<Longrightarrow> GetClientMutex (ca_server k) w = (m, w') \<Longrightarrow>
     prov_step w (at_place i k (WaitMutex c m) w')"
| prov_lock_canceled: "get (pv_callers w) i = Some k \<Longrightarrow> ca_place k = WaitMutex c m \<Longrightarrow> ca_canceled k \<Longrightarrow>
     prov_step w (at_place i k (Returned (Inl ErrContext)) w)"
| prov_token: "get (pv_callers w) i = Some k \<Longrightarrow> ca_place k = WaitMutex c m \<Longrightarrow> get (pv_mutexes w) m = Some True \<Longrightarrow>
     prov_step w (at_place i k (TookToken c m) (takeToken m w))"
| prov_token_canceled: "get (pv_callers w) i = Some k \<Longrightarrow> ca_place k = TookToken c m \<Longrightarrow> ca_canceled k \<Longrightarrow>
     prov_step w (at_place i k (Returned (Inl ErrContext)) (Unlock m w))"
| prov_locked: "get (pv_callers w) i = Some k \<Longrightarrow> ca_place k = TookToken c m \<Longrightarrow> \<not> ca_canceled k \<Longrightarrow>
     prov_step w (at_place i k (Calling c m) w)"
| prov_called: "get (pv_callers w) i = Some k \<Longrightarrow> ca_place k = Calling c m \<Longrightarrow>
     prov_step w (at_place i k (Returned (Inr c)) (Unlock m w))"
| prov_close: "prov_step w (providers_Close w)"
| prov_stop: "c \<in> set (pv_closing w) \<Longrightarrow> prov_step w (stopClient c (w\<lparr>pv_closing := remove1 c (pv_closing w)\<rparr>))"

definition prov_init :: "(string, MCPClientConfigV2) gomap \<Rightarrow> providers" where
  "prov_init serverConfigs =
     \<lparr>pv_reg = newServerRegistry serverConfigs, pv_loads = [], pv_mutexes = [], pv_callers = [], pv_started = [], pv_closing = [],
      pv_stopped = []\<rparr>"

inductive prov_reachable :: "(string, MCPClientConfigV2) gomap \<Rightarrow> providers \<Rightarrow> bool" for cfgs where
  prov_reach_init: "prov_reachable cfgs (prov_init cfgs)"
| prov_reach_step: "prov_reachable cfgs w \<Longrightarrow> prov_step w w' \<Longrightarrow> prov_reachable cfgs w'"

end
