(* ===== verification/Providers_Inv.thy ===== *)
theory Providers_Inv
  imports Providers "HOL-Library.Multiset"
begin

text \<open>
  The invariant of the provider registry: how many callers start a load, hold a mutex or clean up a client is counted by
  the state of the load, of the mutex and of the clients, and every caller is where the maps of the registry say.
\<close>

section \<open>Counting callers\<close>

definition callers_at :: "(place \<Rightarrow> bool) \<Rightarrow> providers \<Rightarrow> int" where
  "callers_at P w = msum (\<lambda>k. of_bool (P (ca_place k))) (pv_callers w)"

fun holds :: "nat \<Rightarrow> place \<Rightarrow> bool" where
  "holds m (TookToken c m') \<longleftrightarrow> m' = m"
| "holds m (Calling c m') \<longleftrightarrow> m' = m"
| "holds m _ \<longleftrightarrow> False"

fun cleans :: "nat \<Rightarrow> place \<Rightarrow> bool" where
  "cleans c (CleanUp c' e) \<longleftrightarrow> c' = c"
| "cleans c _ \<longleftrightarrow> False"

lemma callers_at_move:
  assumes "keys_ok (pv_callers w)" "get (pv_callers w) i = Some k" "pv_callers w' = pv_callers w"
  shows "callers_at P (at_place i k p w') = callers_at P w - of_bool (P (ca_place k)) + of_bool (P p)"
  using assms by (simp add: callers_at_def at_place_def msum_put)

lemma callers_at_one:
  assumes "keys_ok (pv_callers w)" "callers_at P w \<le> 1" "get (pv_callers w) i = Some k" "get (pv_callers w) j = Some k'"
    "P (ca_place k)" "P (ca_place k')"
  shows "i = j"
proof (rule ccontr)
  assume "i \<noteq> j"
  let ?f = "\<lambda>k. of_bool (P (ca_place k)) :: int"
  have "msum ?f (del i (pv_callers w)) = callers_at P w - 1" using assms by (simp add: callers_at_def msum_del)
  moreover have "?f k' \<le> msum ?f (del i (pv_callers w))"
    using assms(4) \<open>i \<noteq> j\<close> by (intro msum_ge) (auto simp: gomap_simps)
  ultimately show False using assms(2,6) by simp
qed

lemma callers_at_pos:
  assumes keys: "keys_ok (pv_callers w)"
    and pos: "0 < callers_at P w"
  shows "\<exists>i k. get (pv_callers w) i = Some k \<and> P (ca_place k)"
proof (rule ccontr)
  assume none: "\<nexists>i k. get (pv_callers w) i = Some k \<and> P (ca_place k)"
  have "callers_at P w = 0" unfolding callers_at_def using none keys by (intro msum_zero) (auto simp: keys_ok_get)
  then show False using pos by simp
qed

section \<open>The invariant\<close>

definition starting :: "providers \<Rightarrow> (nat \<times> string) set" where
  "starting w = {(l, n). \<exists>i k. get (pv_callers w) i = Some k \<and> ca_place k = Starting l \<and> ca_server k = n}"

definition served :: "providers \<Rightarrow> string \<Rightarrow> nat \<Rightarrow> bool" where
  "served w n c \<longleftrightarrow> sr_closed (pv_reg w) \<or> get (sr_clients (pv_reg w)) n = Some c"

definition guarded :: "providers \<Rightarrow> string \<Rightarrow> nat \<Rightarrow> bool" where
  "guarded w n m \<longleftrightarrow> get (pv_mutexes w) m \<noteq> None \<and> (sr_closed (pv_reg w) \<or> get (sr_clientMutex (pv_reg w)) n = Some m)"

definition wait_ok :: "providers \<Rightarrow> string \<Rightarrow> nat \<Rightarrow> bool" where
  "wait_ok w n l \<longleftrightarrow>
     (case get (pv_loads w) l of None \<Rightarrow> False
      | Some d \<Rightarrow>
        if ld_done d then ld_err d = None \<longrightarrow> (\<exists>c. ld_client d = Some c \<and> served w n c) else (l, n) \<in> starting w)"

fun place_ok :: "providers \<Rightarrow> string \<Rightarrow> place \<Rightarrow> bool" where
  "place_ok w n (WaitLoad l) = wait_ok w n l"
| "place_ok w n (Starting l) = (sr_closed (pv_reg w) \<or> get (sr_clientLoads (pv_reg w)) n = Some l)"
| "place_ok w n (GotClient c) = served w n c"
| "place_ok w n (WaitMutex c m) = (served w n c \<and> guarded w n m)"
| "place_ok w n (TookToken c m) = (served w n c \<and> guarded w n m)"
| "place_ok w n (Calling c m) = (served w n c \<and> guarded w n m)"
| "place_ok w n _ = True"

definition load_count :: "providers \<Rightarrow> nat \<Rightarrow> int" where
  "load_count w l = (case get (pv_loads w) l of None \<Rightarrow> 0 | Some d \<Rightarrow> of_bool (\<not> ld_done d))"

definition mutex_count :: "providers \<Rightarrow> nat \<Rightarrow> int" where
  "mutex_count w m = (case get (pv_mutexes w) m of None \<Rightarrow> 0 | Some t \<Rightarrow> of_bool (\<not> t))"

definition client_count :: "providers \<Rightarrow> nat \<Rightarrow> int" where
  "client_count w c =
     int (count (mset (pv_started w)) c) - msum (\<lambda>x. of_bool (x = c)) (sr_clients (pv_reg w)) -
     int (count (mset (pv_closing w)) c) - int (count (mset (pv_stopped w)) c)"

definition maps_ok :: "providers \<Rightarrow> bool" where
  "maps_ok w \<longleftrightarrow>
     keys_ok (sr_clients (pv_reg w)) \<and> distinct (pv_started w) \<and>
     (\<forall>n l. get (sr_clientLoads (pv_reg w)) n = Some l \<longrightarrow> get (sr_clients (pv_reg w)) n = None \<and> (l, n) \<in> starting w) \<and>
     (\<forall>n m. get (sr_clientMutex (pv_reg w)) n = Some m \<longrightarrow> get (pv_mutexes w) m \<noteq> None) \<and>
     (sr_closed (pv_reg w) \<longrightarrow> sr_clients (pv_reg w) = [] \<and> sr_clientLoads (pv_reg w) = [])"

definition prov_inv :: "providers \<Rightarrow> bool" where
  "prov_inv w \<longleftrightarrow>
     keys_ok (pv_callers w) \<and> maps_ok w \<and>
     (\<forall>l. callers_at (\<lambda>p. p = Starting l) w = load_count w l) \<and>
     (\<forall>m. callers_at (holds m) w = mutex_count w m) \<and>
     (\<forall>c. callers_at (cleans c) w = client_count w c) \<and>
     (\<forall>i k. get (pv_callers w) i = Some k \<longrightarrow> place_ok w (ca_server k) (ca_place k))"

text \<open>A caller moves to another place, while the rest of the state becomes \<open>w'\<close>.\<close>

lemma inv_move:
  assumes inv: "prov_inv w" and k: "get (pv_callers w) i = Some k" and frame: "pv_callers w' = pv_callers w"
    and load: "\<And>l. load_count w' l = load_count w l - of_bool (ca_place k = Starting l) + of_bool (p = Starting l)"
    and mutex: "\<And>m. mutex_count w' m = mutex_count w m - of_bool (holds m (ca_place k)) + of_bool (holds m p)"
    and client: "\<And>c. client_count w' c = client_count w c - of_bool (cleans c (ca_place k)) + of_bool (cleans c p)"
    and maps: "maps_ok (at_place i k p w')" and own: "place_ok (at_place i k p w') (ca_server k) p"
    and others: "\<And>j k'. j \<noteq> i \<Longrightarrow> get (pv_callers w) j = Some k' \<Longrightarrow> place_ok w (ca_server k') (ca_place k') \<Longrightarrow>
      place_ok (at_place i k p w') (ca_server k') (ca_place k')"
  shows "prov_inv (at_place i k p w')"
proof -
  have keys: "keys_ok (pv_callers w)" using inv by (simp add: prov_inv_def)
  have "load_count (at_place i k p w') = load_count w'" "mutex_count (at_place i k p w') = mutex_count w'"
    "client_count (at_place i k p w') = client_count w'"
    by (simp_all add: fun_eq_iff load_count_def mutex_count_def client_count_def at_place_def)
  moreover have "place_ok (at_place i k p w') (ca_server k') (ca_place k')" if "get (pv_callers (at_place i k p w')) j = Some k'" for j k'
  proof (cases "j = i")
    case True
    then have "k' = k\<lparr>ca_place := p\<rparr>" using that by (simp add: at_place_def gomap_simps)
    then show ?thesis using own by simp
  next
    case False
    then have "get (pv_callers w) j = Some k'" using that by (simp add: at_place_def gomap_simps frame)
    moreover have "place_ok w (ca_server k') (ca_place k')" using calculation inv by (simp add: prov_inv_def)
    ultimately show ?thesis using others False by blast
  qed
  moreover have "keys_ok (pv_callers (at_place i k p w'))" using keys by (auto simp: at_place_def frame)
  ultimately show ?thesis
    using inv maps load mutex client by (simp add: prov_inv_def callers_at_move [OF keys k frame])
qed

text \<open>The callers that start a provider are the same unless the caller that moves is or becomes one of them.\<close>

lemma starting_move:
  assumes "get (pv_callers w) i = Some k" "pv_callers w' = pv_callers w"
  shows "starting (at_place i k p w') =
    {(l, n). (l, n) \<in> starting w \<and> (\<exists>j k'. j \<noteq> i \<and> get (pv_callers w) j = Some k' \<and> ca_place k' = Starting l \<and> ca_server k' = n)} \<union>
    {(l, n). p = Starting l \<and> n = ca_server k}"
  unfolding starting_def using assms by (fastforce simp: at_place_def gomap_simps split: if_splits)

lemma starting_same:
  assumes k: "get (pv_callers w) i = Some k" and frame: "pv_callers w' = pv_callers w"
    and "\<And>l. p \<noteq> Starting l" "\<And>l. ca_place k \<noteq> Starting l"
  shows "starting (at_place i k p w') = starting w"
proof -
  have "j \<noteq> i" if "get (pv_callers w) j = Some k'" "ca_place k' = Starting l" for j k' l using that k assms(4) [of l] by auto
  then show ?thesis unfolding starting_move [OF k frame] using assms(3) unfolding starting_def by blast
qed

section \<open>Steps that change only the place of a caller\<close>

lemma at_place_simps [simp]:
  "pv_reg (at_place i k p w) = pv_reg w" "pv_loads (at_place i k p w) = pv_loads w" "pv_mutexes (at_place i k p w) = pv_mutexes w"
  "pv_started (at_place i k p w) = pv_started w" "pv_closing (at_place i k p w) = pv_closing w" "pv_stopped (at_place i k p w) = pv_stopped w"
  by (simp_all add: at_place_def)

lemma place_ok_cong:
  assumes "pv_reg w' = pv_reg w" "pv_loads w' = pv_loads w" "\<And>m. get (pv_mutexes w') m = None \<longleftrightarrow> get (pv_mutexes w) m = None"
    "starting w' = starting w"
  shows "place_ok w' n p = place_ok w n p"
  using assms by (cases p) (auto simp: wait_ok_def served_def guarded_def split: option.splits)

lemma maps_ok_cong:
  assumes "pv_reg w' = pv_reg w" "pv_started w' = pv_started w" "\<And>m. get (pv_mutexes w') m = None \<longleftrightarrow> get (pv_mutexes w) m = None"
    "starting w' = starting w"
  shows "maps_ok w' = maps_ok w"
  using assms by (simp add: maps_ok_def)

lemma inv_stroll:
  assumes inv: "prov_inv w" and k: "get (pv_callers w) i = Some k" and frame: "pv_callers w' = pv_callers w" "pv_reg w' = pv_reg w"
      "pv_loads w' = pv_loads w" "\<And>m. get (pv_mutexes w') m = None \<longleftrightarrow> get (pv_mutexes w) m = None" "pv_started w' = pv_started w"
    and not: "\<And>l. p \<noteq> Starting l" "\<And>l. ca_place k \<noteq> Starting l"
    and mutex: "\<And>m. mutex_count w' m = mutex_count w m - of_bool (holds m (ca_place k)) + of_bool (holds m p)"
    and client: "\<And>c. client_count w' c = client_count w c - of_bool (cleans c (ca_place k)) + of_bool (cleans c p)"
    and own: "place_ok w (ca_server k) p"
  shows "prov_inv (at_place i k p w')"
proof -
  note st = starting_same [OF k frame(1) not]
  have ok: "place_ok (at_place i k p w') n q = place_ok w n q" for n q by (rule place_ok_cong) (simp_all add: frame st)
  have "maps_ok (at_place i k p w') = maps_ok w" by (rule maps_ok_cong) (simp_all add: frame st)
  then show ?thesis
    using inv own not by (intro inv_move [OF inv k frame(1)]) (auto simp: mutex client ok load_count_def frame prov_inv_def)
qed

end
