(* ===== verification/Providers_Steps.thy ===== *)
theory Providers_Steps
  imports Providers_Inv
begin

text \<open>Every step of the provider registry keeps the invariant.\<close>

section \<open>Reading the invariant\<close>

lemma prov_invD:
  assumes "prov_inv w"
  shows "keys_ok (pv_callers w)" "maps_ok w" "callers_at (\<lambda>p. p = Starting l) w = load_count w l"
    "callers_at (holds m) w = mutex_count w m" "callers_at (cleans c) w = client_count w c"
    "get (pv_callers w) i = Some k \<Longrightarrow> place_ok w (ca_server k) (ca_place k)"
  using assms by (simp_all add: prov_inv_def)

lemma callers_at_ge:
  assumes "get (pv_callers w) i = Some k" "P (ca_place k)" shows "1 \<le> callers_at P w"
  using msum_ge [of "pv_callers w" i k "\<lambda>k. of_bool (P (ca_place k))"] assms by (simp add: callers_at_def)

lemma load_countD: "load_count w l \<le> 1" "1 \<le> load_count w l \<Longrightarrow> \<exists>d. get (pv_loads w) l = Some d \<and> \<not> ld_done d"
  by (auto simp: load_count_def split: option.splits if_splits)

lemma mutex_countD: "mutex_count w m \<le> 1" "1 \<le> mutex_count w m \<Longrightarrow> get (pv_mutexes w) m = Some False"
  by (auto simp: mutex_count_def split: option.splits if_splits)

lemma starting_load:
  assumes "prov_inv w" "(l, n) \<in> starting w"
  shows "\<exists>d. get (pv_loads w) l = Some d \<and> \<not> ld_done d"
proof -
  obtain i k where "get (pv_callers w) i = Some k" "ca_place k = Starting l" using assms(2) by (auto simp: starting_def)
  then have "1 \<le> callers_at (\<lambda>p. p = Starting l) w" by (rule callers_at_ge)
  then show ?thesis using load_countD(2) prov_invD(3) [OF assms(1)] by simp
qed

lemma starter_unique:
  assumes inv: "prov_inv w" and "get (pv_callers w) i = Some k" "ca_place k = Starting l"
    and "get (pv_callers w) j = Some k'" "ca_place k' = Starting l"
  shows "i = j"
  using callers_at_one [OF prov_invD(1) [OF inv], of "\<lambda>p. p = Starting l" i k j k'] assms load_countD(1) [of w l]
  by (simp add: prov_invD(3) [OF inv])

section \<open>Steps\<close>

lemma inv_same_maps:
  assumes inv: "prov_inv w" and same: "pv_reg w' = pv_reg w" "pv_loads w' = pv_loads w" "pv_mutexes w' = pv_mutexes w"
      "pv_started w' = pv_started w" "pv_closing w' = pv_closing w" "pv_stopped w' = pv_stopped w"
    and "keys_ok (pv_callers w')" "starting w' = starting w" "\<And>P. \<not> P GetServer \<Longrightarrow> callers_at P w' = callers_at P w"
    and place: "\<And>i k. get (pv_callers w') i = Some k \<Longrightarrow> place_ok w (ca_server k) (ca_place k)"
  shows "prov_inv w'"
proof -
  have "place_ok w' n p = place_ok w n p" for n p by (rule place_ok_cong) (simp_all add: same assms)
  moreover have "maps_ok w' = maps_ok w" by (rule maps_ok_cong) (simp_all add: same assms)
  moreover have "load_count w' = load_count w" "mutex_count w' = mutex_count w" "client_count w' = client_count w"
    by (simp_all add: fun_eq_iff load_count_def mutex_count_def client_count_def same)
  ultimately show ?thesis using inv assms(7-) by (simp add: prov_inv_def)
qed

lemma starting_put:
  assumes "\<And>l n. ca_place k' = Starting l \<and> ca_server k' = n \<longleftrightarrow> (\<exists>k. get (pv_callers w) i = Some k \<and> ca_place k = Starting l \<and> ca_server k = n)"
  shows "starting (w\<lparr>pv_callers := put i k' (pv_callers w)\<rparr>) = starting w"
proof (rule set_eqI)
  fix x :: "nat \<times> string"
  obtain l n where x: "x = (l, n)" by force
  let ?at = "\<lambda>k. ca_place k = Starting l \<and> ca_server k = n"
  have "(\<exists>j k. (if j = i then Some k' else get (pv_callers w) j) = Some k \<and> ?at k) \<longleftrightarrow>
      ?at k' \<or> (\<exists>j k. j \<noteq> i \<and> get (pv_callers w) j = Some k \<and> ?at k)" by auto
  also have "\<dots> \<longleftrightarrow> (\<exists>j k. get (pv_callers w) j = Some k \<and> ?at k)" unfolding assms by (intro iffI; elim disjE exE conjE) (blast | metis)+
  finally show "x \<in> starting (w\<lparr>pv_callers := put i k' (pv_callers w)\<rparr>) \<longleftrightarrow> x \<in> starting w"
    by (simp add: starting_def x gomap_simps)
qed

lemma inv_call:
  assumes inv: "prov_inv w" and i: "i = fresh (pv_callers w)"
  shows "prov_inv (w\<lparr>pv_callers := put i \<lparr>ca_server = name, ca_place = GetServer, ca_canceled = False\<rparr> (pv_callers w)\<rparr>)"
proof -
  have keys: "keys_ok (pv_callers w)" using inv by (rule prov_invD)
  have none: "get (pv_callers w) i = None" by (simp add: i)
  show ?thesis
  proof (rule inv_same_maps [OF inv])
    show "callers_at P (w\<lparr>pv_callers := put i \<lparr>ca_server = name, ca_place = GetServer, ca_canceled = False\<rparr> (pv_callers w)\<rparr>) = callers_at P w"
      if "\<not> P GetServer" for P using that none keys by (simp add: callers_at_def msum_put)
    show "starting (w\<lparr>pv_callers := put i \<lparr>ca_server = name, ca_place = GetServer, ca_canceled = False\<rparr> (pv_callers w)\<rparr>) = starting w"
      by (rule starting_put) (simp add: none)
  qed (use keys prov_invD(6) [OF inv] in \<open>auto simp: gomap_simps split: if_splits\<close>)
qed

lemma inv_cancel:
  assumes inv: "prov_inv w" and k: "get (pv_callers w) i = Some k"
  shows "prov_inv (w\<lparr>pv_callers := put i (k\<lparr>ca_canceled := True\<rparr>) (pv_callers w)\<rparr>)"
proof -
  have keys: "keys_ok (pv_callers w)" using inv by (rule prov_invD)
  show ?thesis
  proof (rule inv_same_maps [OF inv])
    show "callers_at P (w\<lparr>pv_callers := put i (k\<lparr>ca_canceled := True\<rparr>) (pv_callers w)\<rparr>) = callers_at P w" for P
      using k keys by (simp add: callers_at_def msum_put)
    show "starting (w\<lparr>pv_callers := put i (k\<lparr>ca_canceled := True\<rparr>) (pv_callers w)\<rparr>) = starting w"
      by (rule starting_put) (simp add: k)
  qed (use keys k prov_invD(6) [OF inv] in \<open>auto simp: gomap_simps split: if_splits\<close>)
qed

lemma inv_load:
  assumes inv: "prov_inv w" and k: "get (pv_callers w) i = Some k" "ca_place k = GetServer"
    and fresh_start: "\<not> sr_closed (pv_reg w)" "get (sr_clients (pv_reg w)) (ca_server k) = None" "get (sr_clientLoads (pv_reg w)) (ca_server k) = None"
  defines "l \<equiv> fresh (pv_loads w)"
  defines "w' \<equiv> w\<lparr>pv_loads := put l newLoad (pv_loads w),
      pv_reg := (pv_reg w)\<lparr>sr_clientLoads := put (ca_server k) l (sr_clientLoads (pv_reg w))\<rparr>\<rparr>"
  shows "prov_inv (at_place i k (Starting l) w')"
proof -
  have frame: "pv_callers w' = pv_callers w" by (simp add: w'_def)
  have new: "get (pv_loads w) l = None" by (simp add: l_def)
  have "j \<noteq> i" if "get (pv_callers w) j = Some k'" "ca_place k' = Starting l'" for j k' l' using that k by auto
  then have st: "starting (at_place i k (Starting l) w') = starting w \<union> {(l, ca_server k)}"
    unfolding starting_move [OF k(1) frame] unfolding starting_def by blast
  have maps: "maps_ok w" using inv by (rule prov_invD)
  show ?thesis
  proof (rule inv_move [OF inv k(1) frame])
    show "load_count w' m = load_count w m - of_bool (ca_place k = Starting m) + of_bool (Starting l = Starting m)" for m
      using new by (auto simp: load_count_def w'_def gomap_simps newLoad_def k(2))
    show "maps_ok (at_place i k (Starting l) w')"
      using maps fresh_start unfolding maps_ok_def st by (auto simp: w'_def gomap_simps)
    show "place_ok (at_place i k (Starting l) w') (ca_server k') (ca_place k')"
      if "j \<noteq> i" "get (pv_callers w) j = Some k'" "place_ok w (ca_server k') (ca_place k')" for j k'
    proof (cases "ca_place k'")
      case (Starting l')
      then have "get (sr_clientLoads (pv_reg w)) (ca_server k') = Some l'" using that(3) fresh_start by simp
      then have "ca_server k' \<noteq> ca_server k" using fresh_start by auto
      then show ?thesis using that(3) Starting fresh_start by (simp add: w'_def gomap_simps)
    next
      case (WaitLoad l')
      then have "l' \<noteq> l" using that(3) new by (auto simp: wait_ok_def)
      then show ?thesis using that(3) by (auto simp: WaitLoad wait_ok_def st [unfolded w'_def] w'_def gomap_simps served_def split: option.splits)
    qed (use that(3) in \<open>auto simp: served_def guarded_def w'_def\<close>)
  qed (simp_all add: k mutex_count_def client_count_def w'_def gomap_simps)
qed

lemma inv_enter:
  assumes inv: "prov_inv w" and k: "get (pv_callers w) i = Some k" "ca_place k = GetServer" and e: "enterServer (ca_server k) w = (p, w')"
  shows "prov_inv (at_place i k p w')"
proof (cases "\<exists>l. p = Starting l")
  case True
  then show ?thesis
    using e inv_load [OF inv k] by (auto simp: enterServer_def Let_def split: if_splits option.splits)
next
  case False
  then have p: "w' = w" "p = Returned (Inl ErrClosed) \<or> p = Returned (Inl (ErrConfigNotFound (ca_server k))) \<or>
      (\<exists>c. p = GotClient c \<and> served w (ca_server k) c) \<or> (\<exists>l. p = WaitLoad l \<and> get (sr_clientLoads (pv_reg w)) (ca_server k) = Some l)"
    using e by (auto simp: enterServer_def Let_def served_def split: if_splits option.splits)
  have wait: "wait_ok w (ca_server k) l" if "get (sr_clientLoads (pv_reg w)) (ca_server k) = Some l" for l
  proof -
    have "(l, ca_server k) \<in> starting w" using prov_invD(2) [OF inv] that by (simp add: maps_ok_def)
    then show ?thesis using starting_load [OF inv, of l "ca_server k"] by (auto simp: wait_ok_def)
  qed
  show ?thesis
    unfolding p(1) by (rule inv_stroll [OF inv k(1)]) (use p(2) False k(2) wait in \<open>auto\<close>)
qed

lemma inv_wait:
  assumes inv: "prov_inv w" and k: "get (pv_callers w) i = Some k" "ca_place k = WaitLoad l" and d: "get (pv_loads w) l = Some d" "ld_done d"
  shows "prov_inv (at_place i k (loadResult (ca_canceled k) d) w)"
proof -
  have "wait_ok w (ca_server k) l" using prov_invD(6) [OF inv k(1)] k(2) by simp
  then have "ld_err d = None \<Longrightarrow> \<exists>c. ld_client d = Some c \<and> served w (ca_server k) c" using d by (simp add: wait_ok_def)
  then show ?thesis
    by (intro inv_stroll [OF inv k(1)]) (auto simp: k(2) loadResult_def split: option.splits)
qed

lemma inv_mutex:
  assumes inv: "prov_inv w" and k: "get (pv_callers w) i = Some k" "ca_place k = GotClient c" and g: "GetClientMutex (ca_server k) w = (m, w')"
  shows "prov_inv (at_place i k (WaitMutex c m) w')"
proof (cases "get (sr_clientMutex (pv_reg w)) (ca_server k)")
  case (Some m')
  then have "w' = w" "m' = m" using g by (auto simp: GetClientMutex_def)
  moreover have "get (pv_mutexes w) m \<noteq> None" using prov_invD(2) [OF inv] Some calculation by (auto simp: maps_ok_def)
  ultimately show ?thesis
    using Some prov_invD(6) [OF inv k(1)] by (intro inv_stroll [OF inv k(1)]) (auto simp: k(2) guarded_def)
next
  case None
  then have w': "m = fresh (pv_mutexes w)" "w' = w\<lparr>pv_mutexes := put m True (pv_mutexes w),
      pv_reg := (pv_reg w)\<lparr>sr_clientMutex := put (ca_server k) m (sr_clientMutex (pv_reg w))\<rparr>\<rparr>"
    using g by (auto simp: GetClientMutex_def Let_def)
  have frame: "pv_callers w' = pv_callers w" by (simp add: w')
  have new: "get (pv_mutexes w) m = None" by (simp add: w')
  have st: "starting (at_place i k (WaitMutex c m) w') = starting w" by (rule starting_same [OF k(1) frame]) (simp_all add: k(2))
  have g: "guarded (at_place i k (WaitMutex c m) w') n m'" if "guarded w n m'" for n m'
    using that None by (auto simp: guarded_def w'(2) gomap_simps)
  show ?thesis
  proof (rule inv_move [OF inv k(1) frame])
    show "mutex_count w' q = mutex_count w q - of_bool (holds q (ca_place k)) + of_bool (holds q (WaitMutex c m))" for q
      using new by (auto simp: mutex_count_def w'(2) gomap_simps k(2) split: option.splits)
    show "maps_ok (at_place i k (WaitMutex c m) w')"
      using prov_invD(2) [OF inv] unfolding maps_ok_def st by (auto simp: w'(2) gomap_simps)
    show "place_ok (at_place i k (WaitMutex c m) w') (ca_server k') (ca_place k')"
      if "j \<noteq> i" "get (pv_callers w) j = Some k'" "place_ok w (ca_server k') (ca_place k')" for j k'
      using that(3) g by (cases "ca_place k'") (auto simp: st [unfolded w'(2)] wait_ok_def served_def w'(2) split: option.splits)
    show "place_ok (at_place i k (WaitMutex c m) w') (ca_server k) (WaitMutex c m)"
      using prov_invD(6) [OF inv k(1)] by (simp add: k(2) served_def guarded_def w'(2) gomap_simps)
  qed (auto simp: k(2) load_count_def client_count_def w'(2))
qed

lemma inv_finish:
  assumes inv: "prov_inv w" and k: "get (pv_callers w) i = Some k" "ca_place k = Starting l"
    and f: "factory_result mcpClient err w" and fin: "finishServer (ca_server k) l mcpClient err w = (p, w')"
  shows "prov_inv (at_place i k p w')"
proof -
  let ?r = "pv_reg w" and ?n = "ca_server k"
  define e where "e = startFailure ?r err"
  define d where "d = \<lparr>ld_done = True, ld_client = (if e = None then mcpClient else None), ld_err = e,
    ld_initiatingCallerCanceled = (err = Some (ErrFactory True))\<rparr>"
  define clients where "clients = (case (e, mcpClient) of (None, Some c) \<Rightarrow> put ?n c (sr_clients ?r) | _ \<Rightarrow> sr_clients ?r)"
  have w': "w' = w\<lparr>pv_reg := ?r\<lparr>sr_clients := clients, sr_clientLoads := del ?n (sr_clientLoads ?r)\<rparr>, pv_loads := put l d (pv_loads w),
      pv_started := pv_started w @ (case mcpClient of None \<Rightarrow> [] | Some c \<Rightarrow> [c])\<rparr>"
    using fin by (simp add: finishServer_def Let_def e_def d_def clients_def)
  have p: "p = (case (e, mcpClient) of (Some x, Some c) \<Rightarrow> CleanUp c x | (Some x, None) \<Rightarrow> Returned (Inl x)
      | (None, Some c) \<Rightarrow> GotClient c | (None, None) \<Rightarrow> Returned (Inl PanicNilClient))"
    using fin by (simp add: finishServer_def Let_def e_def)
  have client: "e = None \<Longrightarrow> \<exists>c. mcpClient = Some c" "e = None \<Longrightarrow> \<not> sr_closed ?r"
    using f by (auto simp: e_def startFailure_def factory_result_def split: if_splits)
  have maps: "maps_ok w" using inv by (rule prov_invD)
  have none: "get (sr_clients ?r) ?n = None"
  proof (cases "sr_closed ?r")
    case False
    then have "get (sr_clientLoads ?r) ?n = Some l" using prov_invD(6) [OF inv k(1)] k(2) by simp
    then show ?thesis using maps by (simp add: maps_ok_def)
  qed (use maps in \<open>simp add: maps_ok_def\<close>)
  have get_clients: "get clients n = (if e = None \<and> n = ?n then mcpClient else get (sr_clients ?r) n)" for n
    using none client by (auto simp: clients_def gomap_simps split: option.splits)
  have frame: "pv_callers w' = pv_callers w" by (simp add: w')
  have not: "\<And>l. p \<noteq> Starting l" by (auto simp: p split: option.splits)
  have load: "get (pv_loads w) l \<noteq> None" "\<And>x. get (pv_loads w) l = Some x \<Longrightarrow> \<not> ld_done x"
    using starting_load [OF inv, of l ?n] k by (auto simp: starting_def)
  have st: "(m, n) \<in> starting (at_place i k p w') \<longleftrightarrow> (m, n) \<in> starting w \<and> m \<noteq> l" for m n
  proof -
    have "j = i \<longleftrightarrow> m = l" if "get (pv_callers w) j = Some k'" "ca_place k' = Starting m" for j k'
      using that k starter_unique [OF inv k that(1)] by auto
    then show ?thesis unfolding starting_move [OF k(1) frame] using not unfolding starting_def by blast
  qed
  have served: "served (at_place i k p w') n c" if "served w n c" "n \<noteq> ?n \<or> sr_closed ?r \<or> get (sr_clients ?r) ?n \<noteq> None" for n c
    using that none by (auto simp: served_def w' get_clients)
  show ?thesis
  proof (rule inv_move [OF inv k(1) frame])
    show "load_count w' m = load_count w m - of_bool (ca_place k = Starting m) + of_bool (p = Starting m)" for m
      using load not by (auto simp: load_count_def w' gomap_simps k(2) d_def split: option.splits)
    show "client_count w' c = client_count w c - of_bool (cleans c (ca_place k)) + of_bool (cleans c p)" for c
    proof (cases e)
      case None
      then obtain c' where c': "mcpClient = Some c'" using client by blast
      then have "msum (\<lambda>x. of_bool (x = c)) clients = msum (\<lambda>x. of_bool (x = c)) (sr_clients ?r) + of_bool (c' = c)"
        using None maps none by (simp add: clients_def msum_put maps_ok_def)
      then show ?thesis by (simp add: client_count_def w' k(2) p None c')
    next
      case (Some x)
      then show ?thesis by (auto simp: client_count_def w' k(2) p clients_def split: option.splits)
    qed
    have started: "distinct (pv_started w')" using maps f by (auto simp: w' maps_ok_def factory_result_def split: option.splits)
    show "maps_ok (at_place i k p w')"
      unfolding maps_ok_def
    proof (intro conjI allI impI)
      show "keys_ok (sr_clients (pv_reg (at_place i k p w')))"
        using maps by (auto simp: w' clients_def maps_ok_def split: option.splits)
      show "distinct (pv_started (at_place i k p w'))" using started by simp
      fix n m assume m: "get (sr_clientLoads (pv_reg (at_place i k p w'))) n = Some m"
      then have nm: "n \<noteq> ?n" "get (sr_clientLoads ?r) n = Some m" by (auto simp: w' gomap_simps split: if_splits)
      then have s: "(m, n) \<in> starting w" "get (sr_clients ?r) n = None" using maps by (auto simp: maps_ok_def)
      then have "m \<noteq> l"
        using starter_unique [OF inv k] k nm(1) by (auto simp: starting_def)
      then show "get (sr_clients (pv_reg (at_place i k p w'))) n = None" "(m, n) \<in> starting (at_place i k p w')"
        using s nm(1) by (simp_all add: st) (simp add: w' get_clients)
    next
      assume "sr_closed (pv_reg (at_place i k p w'))"
      then have c: "sr_closed ?r" by (simp add: w')
      then show "sr_clients (pv_reg (at_place i k p w')) = []" "sr_clientLoads (pv_reg (at_place i k p w')) = []"
        using maps client(2) by (auto simp: w' clients_def maps_ok_def split: option.splits)
    qed (use maps in \<open>auto simp: w' maps_ok_def\<close>)
    show "place_ok (at_place i k p w') ?n p"
      using client by (auto simp: p served_def w' get_clients split: option.splits)
    show "place_ok (at_place i k p w') (ca_server k') (ca_place k')"
      if j: "j \<noteq> i" "get (pv_callers w) j = Some k'" "place_ok w (ca_server k') (ca_place k')" for j k'
    proof -
      have sv: "served (at_place i k p w') (ca_server k') c" if "served w (ca_server k') c" for c
        using that none by (intro served) (auto simp: served_def)
      have gd: "guarded (at_place i k p w') (ca_server k') m" if "guarded w (ca_server k') m" for m
        using that by (simp add: guarded_def w')
      show ?thesis
      proof (cases "ca_place k'")
        case (WaitLoad m)
        show ?thesis
        proof (cases "m = l")
          case True
          have "(l, ca_server k') \<in> starting w" using j(3) load WaitLoad True by (auto simp: wait_ok_def split: option.splits if_splits)
          then have "ca_server k' = ?n" using starter_unique [OF inv k] k by (auto simp: starting_def)
          then show ?thesis using client by (auto simp: WaitLoad True wait_ok_def w' gomap_simps d_def served_def get_clients split: option.splits)
        next
          case False
          then show ?thesis using j(3) sv unfolding WaitLoad place_ok.simps wait_ok_def st
            by (auto simp: w' gomap_simps split: option.splits)
        qed
      next
        case (Starting m)
        then have "m \<noteq> l" using starter_unique [OF inv k j(2)] j(1) by auto
        then show ?thesis using j(3) k prov_invD(6) [OF inv k(1)] by (auto simp: Starting w' gomap_simps)
      qed (use j(3) sv gd in auto)
    qed
  qed (simp add: k(2) p mutex_count_def w' split: option.splits)
qed

lemma inv_close:
  assumes inv: "prov_inv w" shows "prov_inv (providers_Close w)"
proof (cases "sr_closed (pv_reg w)")
  case False
  let ?w = "providers_Close w"
  have w: "?w = w\<lparr>pv_reg := (pv_reg w)\<lparr>sr_closed := True, sr_clients := [], sr_clientLoads := [], sr_clientMutex := []\<rparr>,
      pv_closing := pv_closing w @ map snd (sr_clients (pv_reg w))\<rparr>" using False by (simp add: providers_Close_def)
  have st: "starting ?w = starting w" by (simp add: w starting_def)
  have "int (count (mset (map snd m)) c) = msum (\<lambda>x. of_bool (x = c)) m" for c and m :: "(string, nat) gomap" by (induction m) auto
  then have "client_count ?w = client_count w" by (simp add: fun_eq_iff client_count_def w)
  moreover have "callers_at P ?w = callers_at P w" for P by (simp add: callers_at_def w)
  moreover have "load_count ?w = load_count w" "mutex_count ?w = mutex_count w" by (simp_all add: fun_eq_iff load_count_def mutex_count_def w)
  moreover have "place_ok ?w n p" if "place_ok w n p" for n p
    using that by (cases p) (auto simp: wait_ok_def served_def guarded_def w st [unfolded w] split: option.splits)
  moreover have "maps_ok ?w" using inv by (auto simp: prov_inv_def maps_ok_def w)
  ultimately show ?thesis using inv by (simp add: prov_inv_def) (simp add: w)
qed (use inv in \<open>simp add: providers_Close_def\<close>)

lemma inv_stop:
  assumes inv: "prov_inv w" and c: "c \<in> set (pv_closing w)"
  shows "prov_inv (stopClient c (w\<lparr>pv_closing := remove1 c (pv_closing w)\<rparr>))" (is "prov_inv ?w")
proof -
  have "starting ?w = starting w" by (simp add: starting_def stopClient_def)
  moreover have "place_ok ?w n p = place_ok w n p" for n p by (rule place_ok_cong) (simp_all add: stopClient_def starting_def)
  moreover have "maps_ok ?w = maps_ok w" by (rule maps_ok_cong) (simp_all add: stopClient_def starting_def)
  moreover have "0 < count (mset (pv_closing w)) c" using c by simp
  then have "client_count ?w = client_count w" by (auto simp: fun_eq_iff client_count_def stopClient_def mset_remove1)
  moreover have "callers_at P ?w = callers_at P w" for P by (simp add: callers_at_def stopClient_def)
  moreover have "load_count ?w = load_count w" "mutex_count ?w = mutex_count w"
    by (simp_all add: fun_eq_iff load_count_def mutex_count_def stopClient_def)
  ultimately show ?thesis using inv by (simp add: prov_inv_def) (simp add: stopClient_def)
qed

lemma prov_step_inv: "prov_step w w' \<Longrightarrow> prov_inv w \<Longrightarrow> prov_inv w'"
proof (induction rule: prov_step.induct)
  case (prov_cleaned w i k c e)
  then show ?case
    by (intro inv_stroll) (auto simp: stopClient_def client_count_def mutex_count_def)
next
  case (prov_token w i k c m)
  then show ?case
    using prov_invD(6) [OF prov_token(4) prov_token(1)]
    by (intro inv_stroll) (auto simp: takeToken_def client_count_def mutex_count_def gomap_simps split: option.splits)
next
  case (prov_token_canceled w i k c m)
  have "get (pv_mutexes w) m = Some False"
    using callers_at_ge [of w i k "holds m"] prov_token_canceled mutex_countD(2) by (simp add: prov_invD(4))
  then show ?case
    using prov_token_canceled by (intro inv_stroll) (auto simp: Unlock_def client_count_def mutex_count_def gomap_simps split: option.splits)
next
  case (prov_called w i k c m)
  have "get (pv_mutexes w) m = Some False"
    using callers_at_ge [of w i k "holds m"] prov_called mutex_countD(2) by (simp add: prov_invD(4))
  then show ?case
    using prov_called by (intro inv_stroll) (auto simp: Unlock_def client_count_def mutex_count_def gomap_simps split: option.splits)
next
  case (prov_locked w i k c m)
  then show ?case using prov_invD(6) [OF prov_locked(4) prov_locked(1)] by (intro inv_stroll) auto
qed (auto intro: inv_call inv_cancel inv_enter inv_wait inv_finish inv_mutex inv_close inv_stop inv_stroll)

lemma prov_reachable_inv: "prov_reachable cfgs w \<Longrightarrow> prov_inv w"
proof (induction rule: prov_reachable.induct)
  case prov_reach_init
  show ?case
    by (simp add: prov_init_def newServerRegistry_def prov_inv_def maps_ok_def callers_at_def load_count_def mutex_count_def client_count_def)
qed (auto intro: prov_step_inv)

end
