(* ===== verification/Providers_Props.thy ===== *)
theory Providers_Props
  imports Providers_Steps
begin

text \<open>
  The properties of the provider registry: one start per provider, one call at a time, no client left running, and callers
  that only ever wait for somebody who is at work.
\<close>

section \<open>The error of a load\<close>

definition marks_ok :: "providers \<Rightarrow> bool" where
  "marks_ok w \<longleftrightarrow> (\<forall>l d. get (pv_loads w) l = Some d \<longrightarrow> ld_err d = Some (ErrFactory True) \<longrightarrow> ld_initiatingCallerCanceled d)"

lemma marks_ok_put: "marks_ok w \<Longrightarrow> pv_loads w' = put l d (pv_loads w) \<Longrightarrow>
    (ld_err d = Some (ErrFactory True) \<longrightarrow> ld_initiatingCallerCanceled d) \<Longrightarrow> marks_ok w'"
  by (auto simp: marks_ok_def gomap_simps)

lemma marks_ok_same: "marks_ok w \<Longrightarrow> pv_loads w' = pv_loads w \<Longrightarrow> marks_ok w'"
  by (simp add: marks_ok_def)

lemma prov_step_marks: "prov_step w w' \<Longrightarrow> marks_ok w \<Longrightarrow> marks_ok w'"
proof (induction rule: prov_step.induct)
  case (prov_enter w i k p w')
  then have "pv_loads w' = pv_loads w \<or> pv_loads w' = put (fresh (pv_loads w)) newLoad (pv_loads w)"
    by (auto simp: enterServer_def Let_def split: if_splits option.splits)
  then show ?case
    using prov_enter(4) marks_ok_put [of w "at_place i k p w'"] marks_ok_same [of w "at_place i k p w'"] by (auto simp: newLoad_def)
next
  case (prov_started w i k l c err p w')
  have "pv_loads w' = put l \<lparr>ld_done = True, ld_client = (if startFailure (pv_reg w) err = None then c else None),
      ld_err = startFailure (pv_reg w) err, ld_initiatingCallerCanceled = (err = Some (ErrFactory True))\<rparr> (pv_loads w)"
    using prov_started(4) by (auto simp: finishServer_def Let_def)
  then show ?case by (intro marks_ok_put [OF prov_started(5)]) (auto simp: startFailure_def split: if_splits)
next
  case (prov_mutex w i k c m w')
  then show ?case by (elim marks_ok_same) (auto simp: GetClientMutex_def Let_def split: option.splits)
qed (auto elim!: marks_ok_same simp: stopClient_def takeToken_def Unlock_def providers_Close_def)

lemma prov_reachable_marks: "prov_reachable cfgs w \<Longrightarrow> marks_ok w"
proof (induction rule: prov_reachable.induct)
  case prov_reach_init
  show ?case by (simp add: prov_init_def marks_ok_def)
qed (rule prov_step_marks)

section \<open>A run\<close>

text \<open>Two callers of one provider: the first starts it while the second waits, and the first then calls it.\<close>

definition demo_configs :: "(string, MCPClientConfigV2) gomap" where
  "demo_configs = [(''a'', emptyClientConfig\<lparr>cc_Command := ''p''\<rparr>)]"

definition demo_done :: providerLoad where
  "demo_done = \<lparr>ld_done = True, ld_client = Some 7, ld_err = None, ld_initiatingCallerCanceled = False\<rparr>"

definition demo_caller :: "place \<Rightarrow> caller" where
  "demo_caller p = \<lparr>ca_server = ''a'', ca_place = p, ca_canceled = False\<rparr>"

definition demo_state :: "place \<Rightarrow> place \<Rightarrow> providerLoad \<Rightarrow> (nat, bool) gomap \<Rightarrow> ServerRegistry \<Rightarrow> nat list \<Rightarrow> nat list \<Rightarrow> providers" where
  "demo_state p q l ms r started closing =
     \<lparr>pv_reg = r, pv_loads = [(0, l)], pv_mutexes = ms, pv_callers = [(0, demo_caller p), (1, demo_caller q)], pv_started = started,
      pv_closing = closing, pv_stopped = []\<rparr>"

definition demo_registry :: "(string, nat) gomap \<Rightarrow> (string, nat) gomap \<Rightarrow> (string, nat) gomap \<Rightarrow> bool \<Rightarrow> ServerRegistry" where
  "demo_registry clients loads mutexes closed =
     \<lparr>sr_clients = clients, sr_clientLoads = loads, sr_clientMutex = mutexes, sr_serverConfigs = demo_configs, sr_closed = closed\<rparr>"

lemmas demo_run = demo_state_def demo_registry_def demo_caller_def demo_configs_def demo_done_def at_place_def

lemma reach_by: "prov_reachable cfgs w \<Longrightarrow> prov_step w w' \<Longrightarrow> w' = w'' \<Longrightarrow> prov_reachable cfgs w''"
  by (auto intro: prov_reach_step)

lemma enter_by: "get (pv_callers w) i = Some k \<Longrightarrow> ca_place k = GetServer \<Longrightarrow>
    prov_step w (case enterServer (ca_server k) w of (p, w') \<Rightarrow> at_place i k p w')"
  by (cases "enterServer (ca_server k) w") (auto intro: prov_enter)

lemma started_by: "get (pv_callers w) i = Some k \<Longrightarrow> ca_place k = Starting l \<Longrightarrow> factory_result c err w \<Longrightarrow>
    prov_step w (case finishServer (ca_server k) l c err w of (p, w') \<Rightarrow> at_place i k p w')"
  by (cases "finishServer (ca_server k) l c err w") (auto intro: prov_started)

lemma mutex_by: "get (pv_callers w) i = Some k \<Longrightarrow> ca_place k = GotClient c \<Longrightarrow>
    prov_step w (case GetClientMutex (ca_server k) w of (m, w') \<Rightarrow> at_place i k (WaitMutex c m) w')"
  by (cases "GetClientMutex (ca_server k) w") (auto intro: prov_mutex)

lemma demo_waiting:
  "prov_reachable demo_configs (demo_state (Starting 0) (WaitLoad 0) newLoad [] (demo_registry [] [(''a'', 0)] [] False) [] [])"
proof -
  let ?w = "\<lambda>cs ls r. \<lparr>pv_reg = demo_registry [] r [] False, pv_loads = ls, pv_mutexes = [], pv_callers = cs, pv_started = [],
     pv_closing = [], pv_stopped = []\<rparr>"
  have "prov_reachable demo_configs (?w [] [] [])"
    using prov_reach_init [of demo_configs] by (simp add: prov_init_def newServerRegistry_def demo_registry_def)
  then have "prov_reachable demo_configs (?w [(0, demo_caller GetServer)] [] [])"
    by (rule reach_by [OF _ prov_call [of 0 _ "''a''"]]) (simp_all add: fresh_def demo_caller_def)
  then have "prov_reachable demo_configs (?w [(0, demo_caller GetServer), (1, demo_caller GetServer)] [] [])"
    by (rule reach_by [OF _ prov_call [of 1 _ "''a''"]]) (simp_all add: fresh_def demo_caller_def)
  then have "prov_reachable demo_configs (?w [(0, demo_caller (Starting 0)), (1, demo_caller GetServer)] [(0, newLoad)] [(''a'', 0)])"
    by (rule reach_by [OF _ enter_by [of _ 0 "demo_caller GetServer"]]) (simp_all add: demo_run fresh_def enterServer_def)
  then have "prov_reachable demo_configs (?w [(0, demo_caller (Starting 0)), (1, demo_caller (WaitLoad 0))] [(0, newLoad)] [(''a'', 0)])"
    by (rule reach_by [OF _ enter_by [of _ 1 "demo_caller GetServer"]]) (simp_all add: demo_run enterServer_def)
  then show ?thesis by (simp add: demo_state_def)
qed

lemma demo_calling:
  "prov_reachable demo_configs
     (demo_state (Calling 7 0) (GotClient 7) demo_done [(0, False)] (demo_registry [(''a'', 7)] [] [(''a'', 0)] False) [7] [])"
proof -
  let ?s = "\<lambda>p q l ms mx. demo_state p q l ms (demo_registry [(''a'', 7)] [] mx False) [7] []"
  have "prov_reachable demo_configs (?s (GotClient 7) (WaitLoad 0) demo_done [] [])"
    by (rule reach_by [OF demo_waiting started_by [of _ 0 "demo_caller (Starting 0)" 0 "Some 7" None]])
      (simp_all add: demo_run factory_result_def finishServer_def startFailure_def Let_def)
  then have "prov_reachable demo_configs (?s (GotClient 7) (GotClient 7) demo_done [] [])"
    by (rule reach_by [OF _ prov_wait_done [of _ 1 "demo_caller (WaitLoad 0)" 0 demo_done]]) (simp_all add: demo_run loadResult_def)
  then have "prov_reachable demo_configs (?s (WaitMutex 7 0) (GotClient 7) demo_done [(0, True)] [(''a'', 0)])"
    by (rule reach_by [OF _ mutex_by [of _ 0 "demo_caller (GotClient 7)" 7]]) (simp_all add: demo_run GetClientMutex_def fresh_def)
  then have "prov_reachable demo_configs (?s (TookToken 7 0) (GotClient 7) demo_done [(0, False)] [(''a'', 0)])"
    by (rule reach_by [OF _ prov_token [of _ 0 "demo_caller (WaitMutex 7 0)" 7 0]]) (simp_all add: demo_run takeToken_def)
  then show ?thesis
    by (rule reach_by [OF _ prov_locked [of _ 0 "demo_caller (TookToken 7 0)" 7 0]]) (simp_all add: demo_run)
qed

section \<open>Properties\<close>

text \<open>The client that a caller has got from the registry.\<close>

fun obtained :: "place \<Rightarrow> nat option" where
  "obtained (GotClient c) = Some c"
| "obtained (WaitMutex c m) = Some c"
| "obtained (TookToken c m) = Some c"
| "obtained (Calling c m) = Some c"
| "obtained _ = None"

lemma obtained_served: "place_ok w n p \<Longrightarrow> obtained p = Some c \<Longrightarrow> served w n c"
  by (cases p) auto

lemma starting_open:
  assumes "prov_inv w" "\<not> sr_closed (pv_reg w)" "get (pv_callers w) i = Some k" "ca_place k = Starting l"
  shows "get (sr_clientLoads (pv_reg w)) (ca_server k) = Some l" "get (sr_clients (pv_reg w)) (ca_server k) = None"
  using prov_invD(2,6) [OF assms(1)] assms(2-4) by (fastforce simp: maps_ok_def)+

text \<open>C7: As long as the registry is open, a provider is started by one caller at a time and only while it has no client;
  every caller that has obtained a client, from the registry, by starting it or by waiting for another caller's start,
  has obtained the one that is installed, so all callers of a provider share one client.\<close>

theorem provider_single_flight:
  assumes reach: "prov_reachable cfgs w" and "\<not> sr_closed (pv_reg w)" and i: "get (pv_callers w) i = Some k"
  shows "(\<forall>l. ca_place k = Starting l \<longrightarrow> get (sr_clients (pv_reg w)) (ca_server k) = None \<and>
      (\<forall>j k' l'. get (pv_callers w) j = Some k' \<and> ca_place k' = Starting l' \<and> ca_server k' = ca_server k \<longrightarrow> j = i)) \<and>
    (\<forall>c. obtained (ca_place k) = Some c \<longrightarrow> get (sr_clients (pv_reg w)) (ca_server k) = Some c)"
proof -
  note inv = prov_reachable_inv [OF reach]
  have "j = i" if "ca_place k = Starting l" "get (pv_callers w) j = Some k'" "ca_place k' = Starting l'" "ca_server k' = ca_server k" for j k' l l'
    using starting_open(1) [OF inv assms(2) i that(1)] starting_open(1) [OF inv assms(2) that(2,3)] that(4)
      starter_unique [OF inv i that(1) that(2)] that(3) by auto
  moreover have "get (sr_clients (pv_reg w)) (ca_server k) = Some c" if "obtained (ca_place k) = Some c" for c
    using obtained_served [OF prov_invD(6) [OF inv i] that] assms(2) by (simp add: served_def)
  ultimately show ?thesis using starting_open(2) [OF inv assms(2) i] by blast
qed

theorem provider_single_flight_witness:
  "get (sr_clients (demo_registry [] [(''a'', 0)] [] False)) ''a'' = None \<and> get (sr_clients (demo_registry [(''a'', 7)] [] [(''a'', 0)] False)) ''a'' = Some 7"
proof
  let ?s = "demo_state (Starting 0) (WaitLoad 0) newLoad [] (demo_registry [] [(''a'', 0)] [] False) [] []"
  have "get (pv_callers ?s) 0 = Some (demo_caller (Starting 0))" "\<not> sr_closed (pv_reg ?s)" by (simp_all add: demo_run)
  then have "get (sr_clients (pv_reg ?s)) (ca_server (demo_caller (Starting 0))) = None"
    using provider_single_flight [OF demo_waiting] by (metis caller.select_convs(2) demo_caller_def)
  then show "get (sr_clients (demo_registry [] [(''a'', 0)] [] False)) ''a'' = None" by (simp add: demo_run)
next
  let ?s = "demo_state (Calling 7 0) (GotClient 7) demo_done [(0, False)] (demo_registry [(''a'', 7)] [] [(''a'', 0)] False) [7] []"
  have "get (pv_callers ?s) 1 = Some (demo_caller (GotClient 7))" "\<not> sr_closed (pv_reg ?s)" by (simp_all add: demo_run)
  then have "get (sr_clients (pv_reg ?s)) (ca_server (demo_caller (GotClient 7))) = Some 7"
    using provider_single_flight [OF demo_calling] by (metis caller.select_convs(2) demo_caller_def obtained.simps(1))
  then show "get (sr_clients (demo_registry [(''a'', 7)] [] [(''a'', 0)] False)) ''a'' = Some 7" by (simp add: demo_run)
qed

text \<open>C8: As long as the registry is open, at most one caller at a time is in a call of a provider, whatever was canceled
  before.\<close>

theorem provider_calls_serialized:
  assumes reach: "prov_reachable cfgs w" and "\<not> sr_closed (pv_reg w)"
    and "get (pv_callers w) i = Some k" "ca_place k = Calling c m" and "get (pv_callers w) j = Some k'" "ca_place k' = Calling c' m'"
    and "ca_server k = ca_server k'"
  shows "i = j \<and> c = c'"
proof -
  note inv = prov_reachable_inv [OF reach]
  have "guarded w (ca_server k) m \<and> guarded w (ca_server k') m'" using prov_invD(6) [OF inv assms(3)] prov_invD(6) [OF inv assms(5)] assms(4,6) by simp
  then have "m = m'" using assms(2,7) by (auto simp: guarded_def)
  moreover have "callers_at (holds m) w \<le> 1" using prov_invD(4) [OF inv] mutex_countD(1) by simp
  ultimately have "i = j" using callers_at_one [OF prov_invD(1) [OF inv] _ assms(3,5), of "holds m"] assms(4,6) by simp
  then show ?thesis using assms(3-6) by simp
qed

theorem provider_calls_serialized_witness: "\<not> (\<exists>k m. get (pv_callers (demo_state (Calling 7 0) (GotClient 7) demo_done [(0, False)]
    (demo_registry [(''a'', 7)] [] [(''a'', 0)] False) [7] [])) 1 = Some k \<and> ca_place k = Calling 7 m \<and> ca_server k = ''a'')"
  using provider_calls_serialized [OF demo_calling, of 0 "demo_caller (Calling 7 0)" 7 0 1] by (auto simp: demo_run)

text \<open>C9: No client is lost or closed twice: a client that a factory has returned is installed, or taken by Close and not
  closed yet, or in the hands of one caller that cleans it up after a failed start, or closed, and exactly one of these, exactly
  once.  After Close, when nobody is starting or cleaning up a provider and Close has gone through its clients, every
  client was closed exactly once.\<close>

theorem provider_no_leak:
  assumes reach: "prov_reachable cfgs w"
  shows "distinct (pv_started w) \<and>
    (\<forall>c \<in> set (pv_started w).
       msum (\<lambda>x. of_bool (x = c)) (sr_clients (pv_reg w)) + int (count (mset (pv_closing w)) c) + int (count (mset (pv_stopped w)) c) +
       msum (\<lambda>k. of_bool (cleans c (ca_place k))) (pv_callers w) = 1) \<and>
    (sr_closed (pv_reg w) \<and> pv_closing w = [] \<and> (\<forall>i k c e. get (pv_callers w) i = Some k \<longrightarrow> ca_place k \<noteq> CleanUp c e) \<longrightarrow>
       mset (pv_stopped w) = mset (pv_started w))"
proof (intro conjI ballI impI)
  note inv = prov_reachable_inv [OF reach]
  have count: "msum (\<lambda>k. of_bool (cleans c (ca_place k))) (pv_callers w) = client_count w c" for c
    using prov_invD(5) [OF inv] by (simp add: callers_at_def)
  show d: "distinct (pv_started w)" using prov_invD(2) [OF inv] by (simp add: maps_ok_def)
  show "msum (\<lambda>x. of_bool (x = c)) (sr_clients (pv_reg w)) + int (count (mset (pv_closing w)) c) + int (count (mset (pv_stopped w)) c) +
       msum (\<lambda>k. of_bool (cleans c (ca_place k))) (pv_callers w) = 1" if "c \<in> set (pv_started w)" for c
    using that d by (simp add: count client_count_def distinct_count_atmost_1)
  assume e: "sr_closed (pv_reg w) \<and> pv_closing w = [] \<and> (\<forall>i k c e. get (pv_callers w) i = Some k \<longrightarrow> ca_place k \<noteq> CleanUp c e)"
  have "cleans c (ca_place k) = False" if "(i, k) \<in> set (pv_callers w)" for i k c
    using e that keys_ok_get [OF prov_invD(1) [OF inv]] by (cases "ca_place k") auto
  then have "client_count w c = 0" for c unfolding count [symmetric] by (intro msum_zero) auto
  moreover have "sr_clients (pv_reg w) = []" using prov_invD(2) [OF inv] e by (simp add: maps_ok_def)
  ultimately show "mset (pv_stopped w) = mset (pv_started w)" using e by (intro multiset_eqI) (simp add: client_count_def)
qed

theorem provider_no_leak_witness:
  "distinct (pv_started (demo_state (Calling 7 0) (GotClient 7) demo_done [(0, False)] (demo_registry [(''a'', 7)] [] [(''a'', 0)] False) [7] []))"
  using provider_no_leak [OF demo_calling] by blast

text \<open>C21: Nobody waits in vain.  A caller that waits for a start either finds it done and goes on, and then it does not fail
  because somebody else gave up the start, or another caller is starting the same provider.  A caller that waits for its turn
  either finds the provider free, or another caller holds it.  A caller whose context has ended can return from either wait
  at once.\<close>

theorem provider_waiters_progress:
  assumes reach: "prov_reachable cfgs w" and i: "get (pv_callers w) i = Some k"
  shows "(\<forall>l. ca_place k = WaitLoad l \<longrightarrow>
      (\<exists>p. prov_step w (at_place i k p w) \<and> p \<noteq> WaitLoad l \<and> p \<noteq> Returned (Inl (ErrFactory True))) \<or>
      (\<exists>j k'. get (pv_callers w) j = Some k' \<and> ca_place k' = Starting l \<and> ca_server k' = ca_server k)) \<and>
    (\<forall>c m. ca_place k = WaitMutex c m \<longrightarrow>
      prov_step w (at_place i k (TookToken c m) (takeToken m w)) \<or>
      (\<exists>j k'. get (pv_callers w) j = Some k' \<and> holds m (ca_place k'))) \<and>
    (ca_canceled k \<and> (\<exists>l. ca_place k = WaitLoad l) \<or> ca_canceled k \<and> (\<exists>c m. ca_place k = WaitMutex c m) \<longrightarrow>
      prov_step w (at_place i k (Returned (Inl ErrContext)) w))"
proof (intro conjI allI impI)
  note inv = prov_reachable_inv [OF reach]
  fix l assume l: "ca_place k = WaitLoad l"
  then obtain d where d: "get (pv_loads w) l = Some d" "\<not> ld_done d \<Longrightarrow> (l, ca_server k) \<in> starting w"
    using prov_invD(6) [OF inv i] by (auto simp: wait_ok_def split: option.splits if_splits)
  show "(\<exists>p. prov_step w (at_place i k p w) \<and> p \<noteq> WaitLoad l \<and> p \<noteq> Returned (Inl (ErrFactory True))) \<or>
      (\<exists>j k'. get (pv_callers w) j = Some k' \<and> ca_place k' = Starting l \<and> ca_server k' = ca_server k)"
  proof (cases "ld_done d")
    case True
    have "loadResult (ca_canceled k) d \<noteq> WaitLoad l \<and> loadResult (ca_canceled k) d \<noteq> Returned (Inl (ErrFactory True))"
      using prov_reachable_marks [OF reach] d(1) by (auto simp: loadResult_def marks_ok_def split: option.splits)
    then show ?thesis using prov_wait_done [OF i l d(1) True] by blast
  qed (use d in \<open>auto simp: starting_def\<close>)
next
  note inv = prov_reachable_inv [OF reach]
  fix c m assume m: "ca_place k = WaitMutex c m"
  then have g: "guarded w (ca_server k) m" using prov_invD(6) [OF inv i] by auto
  show "prov_step w (at_place i k (TookToken c m) (takeToken m w)) \<or>
      (\<exists>j k'. get (pv_callers w) j = Some k' \<and> holds m (ca_place k'))"
  proof (cases "get (pv_mutexes w) m = Some True")
    case False
    then have "mutex_count w m = 1" using g by (cases "get (pv_mutexes w) m") (auto simp: guarded_def mutex_count_def)
    then show ?thesis using callers_at_pos [OF prov_invD(1) [OF inv], of "holds m"] prov_invD(4) [OF inv] by auto
  qed (use prov_token [OF i m] in blast)
next
  assume "ca_canceled k \<and> (\<exists>l. ca_place k = WaitLoad l) \<or> ca_canceled k \<and> (\<exists>c m. ca_place k = WaitMutex c m)"
  then show "prov_step w (at_place i k (Returned (Inl ErrContext)) w)" using prov_wait_canceled [OF i] prov_lock_canceled [OF i] by blast
qed

theorem provider_waiters_progress_witness:
  "\<exists>j k'. get (pv_callers (demo_state (Starting 0) (WaitLoad 0) newLoad [] (demo_registry [] [(''a'', 0)] [] False) [] [])) j = Some k' \<and>
     ca_place k' = Starting 0"
proof -
  let ?s = "demo_state (Starting 0) (WaitLoad 0) newLoad [] (demo_registry [] [(''a'', 0)] [] False) [] []"
  have i: "get (pv_callers ?s) 1 = Some (demo_caller (WaitLoad 0))" "ca_place (demo_caller (WaitLoad 0)) = WaitLoad 0" by (simp_all add: demo_run)
  have "\<exists>j k'. get (pv_callers ?s) j = Some k' \<and> ca_place k' = Starting 0"
  proof (cases "\<exists>p. prov_step ?s (at_place 1 (demo_caller (WaitLoad 0)) p ?s) \<and> p \<noteq> WaitLoad 0 \<and> p \<noteq> Returned (Inl (ErrFactory True))")
    case False
    then show ?thesis using provider_waiters_progress [OF demo_waiting i(1)] i(2) by blast
  qed (auto intro!: exI [of _ 0] simp: demo_run)
  then show ?thesis .
qed

section \<open>After Close\<close>

text \<open>
  Close forgets the mutexes together with the clients.  A caller that had got its client before then makes a new mutex, so
  after Close two callers can be in calls of the same client at once.
\<close>

lemma close_unserialized:
  "\<exists>w k k'. prov_reachable demo_configs w \<and> get (pv_callers w) 0 = Some k \<and> ca_place k = Calling 7 0 \<and>
     get (pv_callers w) 1 = Some k' \<and> ca_place k' = Calling 7 1"
proof -
  let ?s = "\<lambda>q ms mx. demo_state (Calling 7 0) q demo_done ms (demo_registry [] [] mx True) [7] [7]"
  have "prov_reachable demo_configs (?s (GotClient 7) [(0, False)] [])"
    by (rule reach_by [OF demo_calling prov_close]) (simp add: demo_run providers_Close_def)
  then have "prov_reachable demo_configs (?s (WaitMutex 7 1) [(0, False), (1, True)] [(''a'', 1)])"
    by (rule reach_by [OF _ mutex_by [of _ 1 "demo_caller (GotClient 7)" 7]]) (simp_all add: demo_run GetClientMutex_def fresh_def)
  then have "prov_reachable demo_configs (?s (TookToken 7 1) [(0, False), (1, False)] [(''a'', 1)])"
    by (rule reach_by [OF _ prov_token [of _ 1 "demo_caller (WaitMutex 7 1)" 7 1]]) (simp_all add: demo_run takeToken_def)
  then have "prov_reachable demo_configs (?s (Calling 7 1) [(0, False), (1, False)] [(''a'', 1)])"
    by (rule reach_by [OF _ prov_locked [of _ 1 "demo_caller (TookToken 7 1)" 7 1]]) (simp_all add: demo_run)
  moreover have "get (pv_callers (?s (Calling 7 1) ms mx)) 0 = Some (demo_caller (Calling 7 0))"
    "get (pv_callers (?s (Calling 7 1) ms mx)) 1 = Some (demo_caller (Calling 7 1))" for ms mx by (simp_all add: demo_run)
  ultimately show ?thesis by (intro exI conjI) (assumption | simp add: demo_caller_def)+
qed

end
