(* ===== verification/Config_Props.thy ===== *)
theory Config_Props
  imports Config
begin

text \<open>What loading a configuration of the first generation keeps of its providers.\<close>

lemma rmap_inheritEntry:
  "rmap (inheritEntry options) es = Inr es' \<Longrightarrow>
   get es' name = map_option (map_option (inheritOptions options)) (get es name) \<and> (\<forall>e \<in> set es. snd e \<noteq> None)"
  by (induction es arbitrary: es') (auto simp: inheritEntry_def panicNil_def res_simps split: option.splits)

definition demo_v1 :: FullConfig where
  "demo_v1 = \<lparr>fc_DeprecatedServerV1 = Some \<lparr>p1_BaseURL = [], p1_Addr = [], p1_Name = ''t'', p1_Version = [], p1_GlobalAuthTokens = None\<rparr>,
     fc_DeprecatedClientsV1 = [(''s'', Some \<lparr>c1_Type = ''streamable-http'', c1_Config = ''{\"url\":\"u\"}'', c1_PanicIfInvalid = False,
        c1_LogEnabled = False, c1_AuthTokens = None\<rparr>)],
     fc_McpProxy = None, fc_McpServers = []\<rparr>"

lemma demo_v1_loads: "case Load_config (Inr demo_v1) of Inl e \<Rightarrow> False | Inr c \<Rightarrow> True"
  by code_simp

lemma demo_v1_parses:
  "ParseMCPClientConfigV1 \<lparr>c1_Type = ''streamable-http'', c1_Config = ''{\"url\":\"u\"}'', c1_PanicIfInvalid = False, c1_LogEnabled = False,
     c1_AuthTokens = None\<rparr> = Inr (StreamableClient \<lparr>sh_URL = ''u'', sh_Headers = [], sh_Timeout = 0\<rparr>)"
  by code_simp

text \<open>C38: When a file of the first generation is loaded, every provider whose entry can be parsed and names a command or a URL is
  in the result under its name, and the broker makes of it a client with the same endpoint: the same command, arguments and
  environment, or the same URL and headers.  The transport is the one of the entry for a command and for SSE; a streamable HTTP
  provider becomes an SSE provider.\<close>

theorem Load_config_transport:
  assumes load: "Load_config (Inr file) = Inr conf" and "fc_McpServers file = []" and "keys_ok (fc_DeprecatedClientsV1 file)"
    and client: "get (fc_DeprecatedClientsV1 file) name = Some (Some client)" and info: "ParseMCPClientConfigV1 client = Inr info" and "usable info"
  shows "\<exists>c. get (cf_McpServers conf) name = Some (Some c) \<and> ParseMCPClientConfigV2 c = Inr (adaptedTransport info)"
proof -
  have ne: "fc_DeprecatedClientsV1 file \<noteq> []" using client by auto
  obtain conf1 where c1: "adaptMCPClientConfigV1ToV2 file = Inr conf1" using load by (auto simp: Load_config_def res_simps)
  then obtain servers where s: "adaptClients (fc_DeprecatedServerV1 file) (fc_DeprecatedClientsV1 file) [] = Inr servers" "fc_McpServers conf1 = servers"
    using ne assms(2) by (auto simp: adaptMCPClientConfigV1ToV2_def Let_def res_simps)
  obtain options where r: "rmap (inheritEntry options) servers = Inr (cf_McpServers conf)"
    using load s(2) by (cases "fc_McpProxy conf1") (auto simp: Load_config_def c1 Let_def res_simps)
  have "get servers name = Some (Some (adaptInfo info (adaptOptions (fc_DeprecatedServerV1 file) client)))"
    using adaptClients_get [OF s(1)] assms(3) client info by (simp add: keys_ok_def)
  then have "get (cf_McpServers conf) name = Some (Some (inheritOptions options (adaptInfo info (adaptOptions (fc_DeprecatedServerV1 file) client))))"
    using rmap_inheritEntry [OF r, of name] by simp
  then show ?thesis using assms(6) by (auto simp: ParseV2_inherit ParseV2_adaptInfo)
qed

theorem Load_config_transport_witness:
  "\<exists>conf c. Load_config (Inr demo_v1) = Inr conf \<and> get (cf_McpServers conf) ''s'' = Some (Some c) \<and>
     ParseMCPClientConfigV2 c = Inr (SSEClient \<lparr>ss_URL = ''u'', ss_Headers = []\<rparr>)"
proof -
  obtain conf where l: "Load_config (Inr demo_v1) = Inr conf" using demo_v1_loads by (auto split: sum.splits)
  have "\<exists>c. get (cf_McpServers conf) ''s'' = Some (Some c) \<and>
      ParseMCPClientConfigV2 c = Inr (adaptedTransport (StreamableClient \<lparr>sh_URL = ''u'', sh_Headers = [], sh_Timeout = 0\<rparr>))"
    by (rule Load_config_transport [OF l _ _ _ demo_v1_parses]) (simp_all add: demo_v1_def keys_ok_def)
  then show ?thesis using l by (auto simp: adaptedTransport_def)
qed

end
