(* ===== verification/Broker.thy ===== *)
theory Broker
  imports Registry_Props Loader_Props
begin

text \<open>
  The backend of the two tools that the broker offers, \<^verbatim>\<open>internal/server/backend.go\<close>: browsing the installed capabilities and
  executing one of their operations.  Each call of the registry is one critical section; a request makes its calls in this order.
\<close>

section \<open>Browsing\<close>

text \<open>The maps of the response: a child is a category or a capability, a tool is an operation with the path to call it.\<close>

datatype childView = Category | Leaf (tool_count: int) (capability: string)

record toolView =
  tv_description :: string
  tv_tool_path :: string
  tv_capability_id :: string
  tv_operation_id :: string

record browseResponse =
  br_path :: string
  br_children :: "(string, childView) gomap"
  br_tools :: "(string, toolView) gomap"

record browseState =
  bs_children :: "(string, childView) gomap"
  bs_tools :: "(string, toolView) gomap"
  bs_allChildrenAreLeaves :: bool

definition legacyToolPath :: "Record \<Rightarrow> Operation \<Rightarrow> string" where
  "legacyToolPath r operation =
     (if length (rc_operations r) = 1 then
        (if rc_parent r = [] then op_Target operation else rc_parent r @ ''.'' @ op_Target operation)
      else md_ID (rc_metadata r) @ ''.'' @ op_ID operation)"

definition lastPathSegment :: "string \<Rightarrow> string" where
  "lastPathSegment path = (let separator = lastIndexByte path dot in if separator \<ge> 0 then drop (nat (separator + 1)) path else path)"

definition toolEntry :: "Record \<Rightarrow> string \<Rightarrow> Operation \<Rightarrow> toolView" where
  "toolEntry r capabilityID operation =
     \<lparr>tv_description = op_Description operation, tv_tool_path = legacyToolPath r operation, tv_capability_id = capabilityID,
      tv_operation_id = op_ID operation\<rparr>"

fun aggregateTools :: "Record \<Rightarrow> string \<Rightarrow> Operation list \<Rightarrow> (string, toolView) gomap \<Rightarrow> (string, toolView) gomap res" where
  "aggregateTools r capabilityID [] tools = Inr tools"
| "aggregateTools r capabilityID (operation # operations) tools =
     (if get tools (op_Target operation) \<noteq> None then Inl (OtherError ''duplicate operation target'')
      else aggregateTools r capabilityID operations (put (op_Target operation) (toolEntry r capabilityID operation) tools))"

text \<open>What happens while the lease of a child is held.\<close>

definition browseLeaf :: "Record \<Rightarrow> HierarchyEntry \<Rightarrow> browseState \<Rightarrow> browseState res" where
  "browseLeaf r child st =
     (let operations = rc_operations r;
          childName = (if length operations = 1 then op_Target (hd operations) else lastPathSegment (he_Path child))
      in if get (bs_children st) childName \<noteq> None then Inl (OtherError ''duplicate hierarchy child name'')
         else rbind (aggregateTools r (he_CapabilityID child) operations (bs_tools st)) (\<lambda>tools.
                Inr (st\<lparr>bs_children := put childName (Leaf (int (length operations)) (he_CapabilityID child)) (bs_children st),
                        bs_tools := tools\<rparr>)))"

text \<open>\<open>withRecord\<close>: look up a capability, use its record, release the lease.\<close>

definition withRecord :: "string \<Rightarrow> (Record \<Rightarrow> 'a res) \<Rightarrow> world \<Rightarrow> 'a res \<times> world" where
  "withRecord capabilityID use w =
     (case Lookup capabilityID w of Inl e \<Rightarrow> (Inl e, w)
      | Inr (w1, lease) \<Rightarrow>
        (case leaseRecord lease w1 of None \<Rightarrow> Inl (OtherError ''panic: nil record'') | Some r \<Rightarrow> use r, leaseRelease lease w1))"

fun browseChildren :: "HierarchyEntry list \<Rightarrow> browseState \<Rightarrow> world \<Rightarrow> browseState res \<times> world" where
  "browseChildren [] st w = (Inr st, w)"
| "browseChildren (child # rest) st w =
     (if he_CapabilityID child = []
      then browseChildren rest (st\<lparr>bs_allChildrenAreLeaves := False,
                                   bs_children := put (lastPathSegment (he_Path child)) Category (bs_children st)\<rparr>) w
      else sbind (withRecord (he_CapabilityID child) (\<lambda>r. browseLeaf r child st) w) (browseChildren rest))"

definition ownTools :: "string \<Rightarrow> Record \<Rightarrow> (string, toolView) gomap" where
  "ownTools capabilityID r = fold (\<lambda>operation. put (op_Target operation) (toolEntry r capabilityID operation)) (rc_operations r) []"

definition capability_Browse :: "string \<Rightarrow> world \<Rightarrow> browseResponse res \<times> world" where
  "capability_Browse requestedPath w =
     (case Browse (w_reg w) requestedPath of Inl e \<Rightarrow> (Inl e, w)
      | Inr view \<Rightarrow>
        sbind (browseChildren (hv_Children view) \<lparr>bs_children = [], bs_tools = [], bs_allChildrenAreLeaves = (hv_Children view \<noteq> [])\<rparr> w)
          (\<lambda>st w.
            let response = \<lparr>br_path = hv_Path view, br_children = bs_children st, br_tools = []\<rparr>
            in if hv_CapabilityID view \<noteq> []
               then withRecord (hv_CapabilityID view) (\<lambda>r. Inr (response\<lparr>br_tools := ownTools (hv_CapabilityID view) r\<rparr>)) w
               else if bs_allChildrenAreLeaves st then (Inr (response\<lparr>br_tools := bs_tools st\<rparr>), w)
               else (Inr response, w)))"

section \<open>Executing\<close>

text \<open>
  \<open>run path server tool\<close> stands for \<^verbatim>\<open>ExecuteMappedTool\<close> together with what everybody else does to the registry during the call.
\<close>

definition capability_Execute ::
  "(string \<Rightarrow> string \<Rightarrow> string \<Rightarrow> world \<Rightarrow> 'r res \<times> world) \<Rightarrow> string \<Rightarrow> world \<Rightarrow> 'r res \<times> world" where
  "capability_Execute run toolPath w =
     (case ResolveToolPath toolPath w of Inl e \<Rightarrow> (Inl e, w)
      | Inr (w1, lease) \<Rightarrow>
        (case Option.bind (get (w_leases w1) lease) ls_invocation of None \<Rightarrow> (Inl (OtherError ''panic: nil lease''), w1)
         | Some iv \<Rightarrow>
           if pb_Type (iv_binding iv) \<noteq> ''mcp''
           then (Inl (OtherError ''capability provider type is not executable by the MCP adapter''), leaseRelease lease w1)
           else let (result, w2) = run (iv_capabilityID iv @ ''/'' @ op_ID (iv_operation iv)) (pb_ServerRef (iv_binding iv))
                                     (op_Target (iv_operation iv)) w1
                in (result, leaseRelease lease w2)))"

section \<open>Requests leave nothing behind\<close>

definition unchanged :: "(bytes \<Rightarrow> digest) \<Rightarrow> world \<Rightarrow> world \<Rightarrow> bool" where
  "unchanged sha256 w w' \<longleftrightarrow>
     reg_reachable sha256 w' \<and> reg_abs w' = reg_abs w \<and> (\<forall>b. lease_live w' b \<longleftrightarrow> lease_live w b)"

lemma unchanged_refl: "reg_reachable sha256 w \<Longrightarrow> unchanged sha256 w w"
  by (simp add: unchanged_def)

lemma unchanged_trans: "unchanged sha256 w w' \<Longrightarrow> unchanged sha256 w' w'' \<Longrightarrow> unchanged sha256 w w''"
  by (simp add: unchanged_def)

lemma release_new_lease:
  assumes "leased cid iv w w1 b" and reach: "reg_reachable sha256 w1"
  shows "unchanged sha256 w (leaseRelease b w1)"
proof -
  obtain a g where g: "get (rg_gens (w_reg w)) a = Some g" and n: "newLease a g iv w = (w1, b)"
    using assms(1) by (auto simp: leased_def)
  note N = newLease_frame [OF g n]
  have "reg_reachable sha256 (leaseRelease b w1)" using reach step_Release by (rule reg_next)
  moreover have "reg_abs (leaseRelease b w1) = reg_abs w"
    unfolding reg_abs_def using N reg_map_cong [of "leaseRelease b w1" w] by simp
  moreover have "lease_live (leaseRelease b w1) c \<longleftrightarrow> lease_live w c" for c
    unfolding lease_live_def leaseRelease_leases N(7) using N(5) get_fresh [of "w_leases w"] by (auto simp: gomap_simps)
  ultimately show ?thesis by (simp add: unchanged_def)
qed

lemma withRecord_spec:
  assumes reach: "reg_reachable sha256 w" and u: "withRecord cid use w = (res, w')"
  shows "unchanged sha256 w w' \<and> res = rbind (lookup_spec cid (reg_abs w)) use"
proof (cases "Lookup cid w")
  case (Inl e)
  note inv = reg_reachable_inv [OF reach]
  have "lookup_spec cid (reg_abs w) = Inl e"
    using Inl by (cases "lookup_spec cid (reg_abs w)") (auto simp: Lookup_def liveGeneration_spec(1) [OF inv])
  then show ?thesis using u Inl reach by (auto simp: withRecord_def unchanged_refl)
next
  case (Inr p)
  obtain w1 b where p: "p = (w1, b)" by force
  have l: "leased cid None w w1 b" using Inr p by (simp add: Lookup_leased)
  obtain a g where g: "get (rg_gens (w_reg w)) a = Some g" "newLease a g None w = (w1, b)"
      "\<not> rg_closed (w_reg w)" "get (rg_entries (w_reg w)) cid = Some a"
    using l by (auto simp: leased_def)
  have r: "lookup_spec cid (reg_abs w) = Inr (gn_record g)" "leaseRecord b w1 = Some (gn_record g)"
    using g newLease_view [OF g(1), of None] by (simp_all add: lookup_spec_Inr reg_map_def lease_view_def)
  have "reg_reachable sha256 w1" using reach step_Lookup Inr p by (auto intro: reg_next)
  then have "unchanged sha256 w (leaseRelease b w1)" by (rule release_new_lease [OF l])
  then show ?thesis using u Inr p r by (auto simp: withRecord_def)
qed

end
