(* ===== verification/Broker_Props.thy ===== *)
theory Broker_Props
  imports Broker
begin

text \<open>The properties of the backend: what browsing lists can be executed, and an execution holds its lease for as long as it runs.\<close>

section \<open>The tools that browsing lists\<close>

definition listed :: "(string \<Rightarrow> Record option) \<Rightarrow> string \<Rightarrow> toolView \<Rightarrow> bool" where
  "listed m name t \<longleftrightarrow>
     (\<exists>cid r operation. m cid = Some r \<and> operation \<in> set (rc_operations r) \<and> name = op_Target operation \<and> t = toolEntry r cid operation)"

definition all_listed :: "(string \<Rightarrow> Record option) \<Rightarrow> (string, toolView) gomap \<Rightarrow> bool" where
  "all_listed m tools \<longleftrightarrow> (\<forall>name t. get tools name = Some t \<longrightarrow> listed m name t)"

lemma all_listed_put: "all_listed m tools \<Longrightarrow> m cid = Some r \<Longrightarrow> operation \<in> set (rc_operations r) \<Longrightarrow>
    all_listed m (put (op_Target operation) (toolEntry r cid operation) tools)"
  by (auto simp: all_listed_def listed_def gomap_simps)

lemma aggregateTools_listed:
  "aggregateTools r cid ops tools = Inr tools' \<Longrightarrow> all_listed m tools \<Longrightarrow> m cid = Some r \<Longrightarrow> set ops \<subseteq> set (rc_operations r) \<Longrightarrow>
   all_listed m tools'"
  by (induction ops arbitrary: tools) (auto intro: all_listed_put split: if_splits)

lemma ownTools_listed: "m cid = Some r \<Longrightarrow> all_listed m (ownTools cid r)"
proof -
  assume r: "m cid = Some r"
  have "all_listed m (fold (\<lambda>operation. put (op_Target operation) (toolEntry r cid operation)) ops tools)"
    if "all_listed m tools" "set ops \<subseteq> set (rc_operations r)" for ops tools
    using that by (induction ops arbitrary: tools) (auto intro: all_listed_put r)
  from this [of "[]" "rc_operations r"] show ?thesis by (simp add: ownTools_def all_listed_def)
qed

lemma lookup_spec_map: "lookup_spec cid (reg_abs w) = Inr r \<Longrightarrow> reg_map w cid = Some r"
  by (auto simp: reg_abs_def of_option_def split: if_splits option.splits)

lemma browseChildren_spec:
  assumes "reg_reachable sha256 w" "browseChildren cs st w = (res, w')" "all_listed (reg_map w) (bs_tools st)"
  shows "unchanged sha256 w w' \<and> (\<forall>st'. res = Inr st' \<longrightarrow> all_listed (reg_map w) (bs_tools st'))"
  using assms
proof (induction cs arbitrary: st w)
  case Nil
  then show ?case by (auto simp: unchanged_refl)
next
  case (Cons c cs)
  show ?case
  proof (cases "he_CapabilityID c = []")
    case True
    let ?st = "st\<lparr>bs_allChildrenAreLeaves := False, bs_children := put (lastPathSegment (he_Path c)) Category (bs_children st)\<rparr>"
    show ?thesis using Cons.IH [OF Cons.prems(1), of ?st] Cons.prems(2,3) True by simp
  next
    case False
    obtain r1 w1 where u: "withRecord (he_CapabilityID c) (\<lambda>r. browseLeaf r c st) w = (r1, w1)" by force
    note U = withRecord_spec [OF Cons.prems(1) u]
    have w1: "reg_reachable sha256 w1" "reg_map w1 = reg_map w" using U by (auto simp: unchanged_def reg_abs_def)
    show ?thesis
    proof (cases r1)
      case (Inl e)
      then show ?thesis using Cons.prems(2) False u U by auto
    next
      case (Inr st1)
      then obtain r where r: "reg_map w (he_CapabilityID c) = Some r" "browseLeaf r c st = Inr st1"
        using U lookup_spec_map by (auto simp: res_simps)
      have "all_listed (reg_map w) (bs_tools st1)"
        using r(2) aggregateTools_listed [OF _ Cons.prems(3) r(1)] by (auto simp: browseLeaf_def Let_def res_simps split: if_splits)
      then have "unchanged sha256 w1 w' \<and> (\<forall>st'. res = Inr st' \<longrightarrow> all_listed (reg_map w) (bs_tools st'))"
        using Cons.IH [OF w1(1), of st1] w1(2) Cons.prems(2) False u Inr by simp
      then show ?thesis using U unchanged_trans by blast
    qed
  qed
qed

lemma capability_Browse_spec:
  assumes reach: "reg_reachable sha256 w" and b: "capability_Browse path w = (res, w')"
  shows "unchanged sha256 w w' \<and> (\<forall>v. res = Inr v \<longrightarrow> all_listed (reg_map w) (br_tools v))"
proof (cases "Browse (w_reg w) path")
  case (Inl e)
  then show ?thesis using b reach by (auto simp: capability_Browse_def unchanged_refl)
next
  case (Inr view)
  let ?st = "\<lparr>bs_children = [], bs_tools = [], bs_allChildrenAreLeaves = (hv_Children view \<noteq> [])\<rparr>"
  obtain r1 w1 where c: "browseChildren (hv_Children view) ?st w = (r1, w1)" by force
  have C: "unchanged sha256 w w1" "\<And>st'. r1 = Inr st' \<Longrightarrow> all_listed (reg_map w) (bs_tools st')"
    using browseChildren_spec [OF reach c] by (auto simp: all_listed_def)
  have w1: "reg_reachable sha256 w1" "reg_map w1 = reg_map w" using C by (auto simp: unchanged_def reg_abs_def)
  show ?thesis
  proof (cases r1)
    case (Inl e)
    then show ?thesis using b Inr c C by (auto simp: capability_Browse_def)
  next
    case st: (Inr st)
    let ?v = "\<lparr>br_path = hv_Path view, br_children = bs_children st, br_tools = []\<rparr>"
    show ?thesis
    proof (cases "hv_CapabilityID view = []")
      case True
      then have "w' = w1" "res = Inr (?v\<lparr>br_tools := bs_tools st\<rparr>) \<or> res = Inr ?v"
        using b Inr c st by (auto simp: capability_Browse_def Let_def split: if_splits)
      then show ?thesis using C(1) C(2) [OF st] by (auto simp: all_listed_def)
    next
      case False
      then have u: "withRecord (hv_CapabilityID view) (\<lambda>r. Inr (?v\<lparr>br_tools := ownTools (hv_CapabilityID view) r\<rparr>)) w1 = (res, w')"
        using b Inr c st by (simp add: capability_Browse_def Let_def)
      note U = withRecord_spec [OF w1(1) u]
      have "all_listed (reg_map w) (br_tools v)" if "res = Inr v" for v
      proof -
        have "rbind (lookup_spec (hv_CapabilityID view) (reg_abs w1)) (\<lambda>r. Inr (?v\<lparr>br_tools := ownTools (hv_CapabilityID view) r\<rparr>)) = Inr v"
          using U that by simp
        then obtain r where r: "lookup_spec (hv_CapabilityID view) (reg_abs w1) = Inr r" "v = ?v\<lparr>br_tools := ownTools (hv_CapabilityID view) r\<rparr>"
          by (auto simp: res_simps)
        show ?thesis using ownTools_listed [of "reg_map w" "hv_CapabilityID view" r] lookup_spec_map [OF r(1)] r(2) by (simp add: w1(2))
      qed
      then show ?thesis using U C(1) unchanged_trans by blast
    qed
  qed
qed

section \<open>Paths of tools\<close>

text \<open>No other capability answers to the path.\<close>

definition unshadowed :: "(string \<Rightarrow> Record option) \<Rightarrow> string \<Rightarrow> string \<Rightarrow> string \<Rightarrow> bool" where
  "unshadowed m path cid oid \<longleftrightarrow> legacy_matches path m \<subseteq> {(cid, oid)} \<and> (m path \<noteq> None \<longrightarrow> path = cid)"

lemma resolve_spec_ok:
  assumes "reg_map w cid = Some r" "\<not> rg_closed (w_reg w)" "operations_ok r" "x \<in> set (rc_operations r)"
  shows "\<exists>p. resolve_spec cid (op_ID x) (reg_abs w) = Inr (r, \<lparr>iv_capabilityID = cid, iv_operation = x, iv_binding = p\<rparr>)"
proof -
  have "find (\<lambda>y. op_ID y = op_ID x) xs = Some x" if "distinct (map op_ID xs)" "x \<in> set xs" for xs
    using that by (induction xs) auto
  then have "find (\<lambda>y. op_ID y = op_ID x) (rc_operations r) = Some x" using assms(3,4) by (simp add: operations_ok_def)
  moreover obtain p where "find (\<lambda>p. pb_ID p = op_Provider x) (rc_providers r) = Some p"
  proof (cases "find (\<lambda>p. pb_ID p = op_Provider x) (rc_providers r)")
    case None
    then show ?thesis using assms(3,4) by (fastforce simp: operations_ok_def list_all_iff find_None_iff)
  qed (use that in auto)
  ultimately show ?thesis using assms(1,2) by (simp add: resolve_spec_def reg_abs_def of_option_def)
qed

lemma toolpath_spec_listed:
  assumes r: "reg_map w cid = Some r" and x: "x \<in> set (rc_operations r)" and op: "\<not> rg_closed (w_reg w)" "md_ID (rc_metadata r) = cid"
    and ok: "operations_ok r" and un: "unshadowed (reg_map w) (legacyToolPath r x) cid (op_ID x)"
  shows "toolpath_spec (legacyToolPath r x) (reg_abs w) = resolve_spec cid (op_ID x) (reg_abs w)"
proof (cases "rc_operations r = [x]")
  case True
  then have "legacyToolPath r x = legacyPath r x" by (simp add: legacyToolPath_def legacyPath_def)
  then have "(cid, op_ID x) \<in> legacy_matches (legacyToolPath r x) (reg_map w)" using r True by (auto simp: legacy_matches_def)
  then have "legacy_matches (legacyToolPath r x) (reg_map w) = {(cid, op_ID x)}" using un by (auto simp: unshadowed_def)
  then show ?thesis by (simp add: toolpath_spec_def reg_abs_def)
next
  case False
  then have len: "length (rc_operations r) \<noteq> 1" using x by (cases "rc_operations r") auto
  then have path: "legacyToolPath r x = cid @ dot # op_ID x" using op(2) by (simp add: legacyToolPath_def dot_def)
  have ne: "cid \<noteq> []" "op_ID x \<noteq> []" "dot \<notin> set (op_ID x)" using ok x op(2) by (auto simp: operations_ok_def list_all_iff)
  have "(cid, op_ID x) \<notin> legacy_matches (legacyToolPath r x) (reg_map w)" using r len by (auto simp: legacy_matches_def)
  then have M: "legacy_matches (legacyToolPath r x) (reg_map w) = {}" using un by (auto simp: unshadowed_def)
  have "reg_map w (legacyToolPath r x) = None" using un path by (auto simp: unshadowed_def)
  then have "toolpath_spec (legacyToolPath r x) (reg_abs w) = split_spec (legacyToolPath r x) (reg_abs w)"
    using M by (simp add: toolpath_spec_def reg_abs_def)
  also have "\<dots> = resolve_spec cid (op_ID x) (reg_abs w)"
    using ne by (simp add: split_spec_def path lastIndexByte_append nat_add_distrib)
  finally show ?thesis .
qed

lemma listed_paths_resolve:
  assumes reach: "reg_reachable sha256 w" and b: "capability_Browse path w = (res, w')"
    and ok: "\<forall>cid r. reg_map w cid = Some r \<longrightarrow> operations_ok r"
  shows "unchanged sha256 w w' \<and>
    (\<forall>v name t. res = Inr v \<and> get (br_tools v) name = Some t \<and>
        unshadowed (reg_map w) (tv_tool_path t) (tv_capability_id t) (tv_operation_id t) \<longrightarrow>
      (\<exists>w1 lease iv. ResolveToolPath (tv_tool_path t) w' = Inr (w1, lease) \<and>
         Option.bind (get (w_leases w1) lease) ls_invocation = Some iv \<and> iv_capabilityID iv = tv_capability_id t \<and>
         op_ID (iv_operation iv) = tv_operation_id t \<and> op_Target (iv_operation iv) = name))"
proof (intro conjI allI impI)
  show u: "unchanged sha256 w w'" using capability_Browse_spec [OF reach b] by simp
  have w': "reg_reachable sha256 w'" "reg_map w' = reg_map w" "rg_closed (w_reg w') = rg_closed (w_reg w)"
    using u by (auto simp: unchanged_def reg_abs_def)
  fix v name t
  assume t: "res = Inr v \<and> get (br_tools v) name = Some t \<and>
    unshadowed (reg_map w) (tv_tool_path t) (tv_capability_id t) (tv_operation_id t)"
  then obtain cid r x where x: "reg_map w cid = Some r" "x \<in> set (rc_operations r)" "name = op_Target x" "t = toolEntry r cid x"
    using capability_Browse_spec [OF reach b] unfolding all_listed_def listed_def by blast
  note inv = reg_reachable_inv [OF w'(1)]
  obtain a g where g: "get (rg_entries (w_reg w')) cid = Some a" "get (rg_gens (w_reg w')) a = Some g" "gn_record g = r"
    using x(1) liveGeneration_spec(2) [OF inv, of cid r] w'(2) by auto
  moreover have "entries_ok w'" using inv by (simp add: reg_inv_def)
  ultimately have e: "\<not> rg_closed (w_reg w')" "md_ID (rc_metadata r) = cid" by (fastforce simp: entries_ok_def)+
  obtain p where p: "toolpath_spec (tv_tool_path t) (reg_abs w') = Inr (r, \<lparr>iv_capabilityID = cid, iv_operation = x, iv_binding = p\<rparr>)"
    using toolpath_spec_listed [of w' cid r x] resolve_spec_ok [of w' cid r x] x e ok t w'(2) by (auto simp: toolEntry_def)
  obtain w1 lease where l: "ResolveToolPath (tv_tool_path t) w' = Inr (w1, lease)"
    using ResolveToolPath_view [OF w'(1), of "tv_tool_path t"] p by (cases "ResolveToolPath (tv_tool_path t) w'") auto
  then show "\<exists>w1 lease iv. ResolveToolPath (tv_tool_path t) w' = Inr (w1, lease) \<and>
         Option.bind (get (w_leases w1) lease) ls_invocation = Some iv \<and> iv_capabilityID iv = tv_capability_id t \<and>
         op_ID (iv_operation iv) = tv_operation_id t \<and> op_Target (iv_operation iv) = name"
    using ResolveToolPath_view [OF w'(1), of "tv_tool_path t"] p x by (auto simp: lease_view_def toolEntry_def)
qed

section \<open>One package\<close>

lemma demo_world_map: "reg_abs demo_world = (False, [''git.log'' \<mapsto> demo_record])"
proof -
  have "rg_entries (w_reg demo_world) = [(''git.log'', 1)]" "record_at demo_world 1 = Some demo_record"
    "\<not> rg_closed (w_reg demo_world)" by code_simp+
  then show ?thesis by (auto simp: reg_abs_def reg_map_def fun_eq_iff)
qed

lemma demo_legacy: "legacy_matches ''git.git_log'' [''git.log'' \<mapsto> demo_record] = {(''git.log'', ''log'')}"
  by (auto simp: legacy_matches_def demo_record_def legacyPath_def split: if_splits)

lemma demo_operations_ok: "operations_ok demo_record"
  by code_simp

lemma demo_Browse:
  "case capability_Browse ''git'' demo_world of (Inl e, w) \<Rightarrow> False
   | (Inr v, w) \<Rightarrow> (case get (br_tools v) ''git_log'' of None \<Rightarrow> False
      | Some t \<Rightarrow> tv_tool_path t = ''git.git_log'' \<and> tv_capability_id t = ''git.log'' \<and> tv_operation_id t = ''log'')"
  by code_simp

section \<open>Properties\<close>

text \<open>C11: Browsing changes nothing and leaves no lease behind, whether it succeeds or fails; and every tool that it lists can be
  executed: unless another installed capability answers to the same path, resolving the listed path leases the listed operation
  of the listed capability, whose target is the name under which the tool is listed.  The records are only asked what the
  manifest parser has checked of their operations.\<close>

theorem browse_paths_resolve:
  assumes reach: "reg_reachable sha256 w" and b: "capability_Browse path w = (res, w')"
    and ok: "\<forall>cid r. reg_map w cid = Some r \<longrightarrow> operations_ok r"
  shows "unchanged sha256 w w' \<and>
    (\<forall>v name t. res = Inr v \<and> get (br_tools v) name = Some t \<and>
        unshadowed (reg_map w) (tv_tool_path t) (tv_capability_id t) (tv_operation_id t) \<longrightarrow>
      (\<exists>w1 lease iv. ResolveToolPath (tv_tool_path t) w' = Inr (w1, lease) \<and>
         Option.bind (get (w_leases w1) lease) ls_invocation = Some iv \<and> iv_capabilityID iv = tv_capability_id t \<and>
         op_ID (iv_operation iv) = tv_operation_id t \<and> op_Target (iv_operation iv) = name))"
  using assms by (rule listed_paths_resolve)

theorem browse_paths_resolve_witness:
  "\<exists>w1 lease iv. ResolveToolPath ''git.git_log'' (snd (capability_Browse ''git'' demo_world)) = Inr (w1, lease) \<and>
     Option.bind (get (w_leases w1) lease) ls_invocation = Some iv \<and> iv_capabilityID iv = ''git.log'' \<and> op_ID (iv_operation iv) = ''log''"
proof -
  obtain res w' where b: "capability_Browse ''git'' demo_world = (res, w')" by force
  then obtain v t where v: "res = Inr v" "get (br_tools v) ''git_log'' = Some t" "tv_tool_path t = ''git.git_log''"
      "tv_capability_id t = ''git.log''" "tv_operation_id t = ''log''"
    using demo_Browse by (auto split: sum.splits option.splits)
  have m: "reg_map demo_world = [''git.log'' \<mapsto> demo_record]" using demo_world_map by (simp add: reg_abs_def)
  have ok: "\<forall>cid r. reg_map demo_world cid = Some r \<longrightarrow> operations_ok r" using demo_operations_ok by (simp add: m)
  have "unshadowed (reg_map demo_world) (tv_tool_path t) (tv_capability_id t) (tv_operation_id t)"
    by (simp add: unshadowed_def m v(3-5) demo_legacy)
  then have "\<exists>w1 lease iv. ResolveToolPath (tv_tool_path t) w' = Inr (w1, lease) \<and>
      Option.bind (get (w_leases w1) lease) ls_invocation = Some iv \<and> iv_capabilityID iv = tv_capability_id t \<and>
      op_ID (iv_operation iv) = tv_operation_id t \<and> op_Target (iv_operation iv) = ''git_log''"
    using browse_paths_resolve [OF demo_world_reachable b ok] v(1,2) by blast
  then show ?thesis unfolding v(3-5) b snd_conv by blast
qed

text \<open>C12: Executing a path calls the provider that the resolved operation is bound to, with the operation's target, and only for a
  provider of type mcp; a path that does not resolve is refused with the resolver's error.  Whatever everybody else does to the
  registry during the call, the lease is held until the call has returned, and then it is released.\<close>

theorem execute_holds_lease:
  assumes reach: "reg_reachable sha256 w" and x: "capability_Execute run path w = (res, w')"
    and others: "\<And>l s t v. reg_reachable sha256 v \<Longrightarrow> reg_reachable sha256 (snd (run l s t v))"
  shows "reg_reachable sha256 w' \<and>
    (case toolpath_spec path (reg_abs w) of
       Inl e \<Rightarrow> res = Inl e \<and> w' = w
     | Inr (r, iv) \<Rightarrow>
       if pb_Type (iv_binding iv) \<noteq> ''mcp'' then (\<exists>e. res = Inl e) \<and> unchanged sha256 w w'
       else \<exists>w1 lease. ResolveToolPath path w = Inr (w1, lease) \<and> lease_live w1 lease \<and> leaseRecord lease w1 = Some r \<and>
         res = fst (run (iv_capabilityID iv @ ''/'' @ op_ID (iv_operation iv)) (pb_ServerRef (iv_binding iv)) (op_Target (iv_operation iv)) w1) \<and>
         w' = leaseRelease lease (snd (run (iv_capabilityID iv @ ''/'' @ op_ID (iv_operation iv)) (pb_ServerRef (iv_binding iv))
           (op_Target (iv_operation iv)) w1)) \<and> \<not> lease_live w' lease)"
proof (cases "ResolveToolPath path w")
  case (Inl e)
  then have "toolpath_spec path (reg_abs w) = Inl e"
    using ResolveToolPath_view [OF reach, of path] by (cases "toolpath_spec path (reg_abs w)") auto
  then show ?thesis using x Inl reach by (auto simp: capability_Execute_def)
next
  case (Inr p)
  obtain w1 b where p: "p = (w1, b)" by force
  obtain r iv where s: "toolpath_spec path (reg_abs w) = Inr (r, iv)"
    using ResolveToolPath_view [OF reach, of path] Inr by (cases "toolpath_spec path (reg_abs w)") auto
  have v: "leaseRecord b w1 = Some r" "Option.bind (get (w_leases w1) b) ls_invocation = Some iv" "lease_live w1 b"
    using ResolveToolPath_view [OF reach, of path] Inr p s by (auto simp: lease_view_def)
  have r1: "reg_reachable sha256 w1" using reach step_ResolveToolPath Inr p by (auto intro: reg_next)
  obtain cid iv' where l: "leased cid iv' w w1 b"
    using ResolveToolPath_leased [of path w w1 b] ResolveOperation_leased [of _ _ w w1 b] Inr p by blast
  show ?thesis
  proof (cases "pb_Type (iv_binding iv) = ''mcp''")
    case False
    then have "(\<exists>e. res = Inl e) \<and> w' = leaseRelease b w1" using x Inr p v(2) by (auto simp: capability_Execute_def)
    then show ?thesis using release_new_lease [OF l r1] False s by (auto simp: unchanged_def)
  next
    case True
    let ?run = "run (iv_capabilityID iv @ ''/'' @ op_ID (iv_operation iv)) (pb_ServerRef (iv_binding iv)) (op_Target (iv_operation iv)) w1"
    have w': "res = fst ?run" "w' = leaseRelease b (snd ?run)" using x Inr p v(2) True by (auto simp: capability_Execute_def split: prod.splits)
    have "reg_reachable sha256 w'" unfolding w' using others [OF r1] step_Release by (rule reg_next)
    moreover have "\<not> lease_live w' b" unfolding w' by (auto simp: lease_live_def leaseRelease_leases gomap_simps split: option.splits)
    ultimately show ?thesis using s True w' Inr p v by auto
  qed
qed

theorem execute_holds_lease_witness:
  "fst (capability_Execute (\<lambda>l s t w. (Inr (l, s, t), w)) ''git.git_log'' demo_world) = Inr (''git.log/log'', ''git'', ''git_log'')"
proof -
  let ?run = "\<lambda>l s t w. (Inr (l, s, t) :: (string \<times> string \<times> string) res, w :: world)"
  obtain res w' where x: "capability_Execute ?run ''git.git_log'' demo_world = (res, w')" by force
  have "toolpath_spec ''git.git_log'' (reg_abs demo_world) = resolve_spec ''git.log'' ''log'' (reg_abs demo_world)"
    by (simp add: toolpath_spec_def demo_world_map demo_legacy)
  then have "\<exists>r. toolpath_spec ''git.git_log'' (reg_abs demo_world) = Inr (r, \<lparr>iv_capabilityID = ''git.log'',
       iv_operation = \<lparr>op_ID = ''log'', op_Description = ''d'', op_Provider = ''p'', op_Target = ''git_log''\<rparr>,
       iv_binding = \<lparr>pb_ID = ''p'', pb_Type = ''mcp'', pb_ServerRef = ''git''\<rparr>\<rparr>)"
    by (simp add: resolve_spec_def demo_world_map of_option_def demo_record_def)
  then show ?thesis
    using execute_holds_lease [OF demo_world_reachable x] x by auto
qed

end
