(* ===== verification/Boot.thy ===== *)
theory Boot
  imports Broker_Props
begin

text \<open>From a directory of packages to a tool call: the loader, the store, the registry and the backend together.\<close>

lemma sys_reachable_steps: "sys_reachable sha256 l s \<Longrightarrow> (sys_step sha256)\<^sup>*\<^sup>* s s' \<Longrightarrow> sys_reachable sha256 l s'"
  by (rotate_tac, induction rule: rtranclp_induct) (auto intro: sys_reachable.intros)

lemma booted_registry:
  assumes st: "NewSnapshotStore l = Inr st" "limits_ok l" and fs: "fstat_ok os"
    and idem: "\<And>x. se_NFC (le_text env) (se_NFC (le_text env) x) = se_NFC (le_text env) x"
    and inj: "inj_on (le_sha256 env) (bytes_in_play os (sys_init st))"
    and load: "LoadAll env os rootPath (sys_init st) = (Inr records, s)" and new: "NewRegistry (map Some records) s = (e, w)"
  shows "e = None \<and> reg_reachable (le_sha256 env) w \<and> (\<forall>cid r. reg_map w cid = Some r \<longrightarrow> operations_ok r) \<and>
    (\<exists>root names. openPackageRoot os rootPath = Inr root \<and> PackageNames os root = Inr names \<and> dom (reg_map w) = set names)"
proof -
  note inv = sys_init_inv [OF st]
  obtain root where r: "openPackageRoot os rootPath = Inr root" "PackageNames os root = Inr (ids records)"
    "loaded_all os (le_sha256 env) (sys_init st) records s" "distinct (ids records)"
    using LoadAll_cases [OF inv fs idem inj load] by auto
  obtain w' where w: "NewRegistry (map Some records) s = (None, w')"
      "reg_abs w' = (False, map_of (map (\<lambda>r. (md_ID (rc_metadata r), r)) records))"
    using NewRegistry_loaded [OF r(3,4)] by blast
  have "sys_reachable (le_sha256 env) l s"
    using sys_reachable_steps [OF reach_init [OF st(1)]] r(3) by (simp add: loaded_all_def)
  then have "reg_reachable (le_sha256 env) (snd (NewRegistry (map Some records) s))"
    using st(2) loaded_all_fresh [OF r(3)] by (rule reg_start)
  moreover have m: "reg_map w' = map_of (map (\<lambda>r. (md_ID (rc_metadata r), r)) records)" using w(2) by (simp add: reg_abs_def)
  moreover have "operations_ok x" if "reg_map w' cid = Some x" for cid x
  proof -
    have "(cid, x) \<in> set (map (\<lambda>r. (md_ID (rc_metadata r), r)) records)" using that by (intro map_of_SomeD) (simp add: m)
    then show ?thesis using r(3) by (auto simp: loaded_all_def list_all_iff)
  qed
  moreover have "dom (reg_map w') = set (ids records)"
    unfolding m dom_map_of_conv_image_fst by (simp add: ids_def image_image)
  ultimately show ?thesis using w(1) new r(1,2) by auto
qed

section \<open>A package with a tool\<close>

definition tool_manifest :: Manifest where
  "tool_manifest = bare_manifest\<lparr>mf_Spec := (mf_Spec bare_manifest)\<lparr>
     sp_Operations := [\<lparr>op_ID = ''o'', op_Description = ''O'', op_Provider = ''p'', op_Target = ''t''\<rparr>],
     sp_Providers := [\<lparr>pb_ID = ''p'', pb_Type = ''mcp'', pb_ServerRef = ''s''\<rparr>]\<rparr>\<rparr>"

definition tool_env :: loader_env where
  "tool_env = bare_env\<lparr>le_yaml := (\<lambda>data. (Inr (YNode DocumentNode [] [] [] [manifestNode tool_manifest]), Inl (OtherError ''EOF'')))\<rparr>"

definition tool_boot :: "Record list res \<times> snapshot_system" where
  "tool_boot = LoadAll tool_env bare_os ''pkg'' bare_sys"

lemma tool_listed:
  "case tool_boot of (Inl e, s) \<Rightarrow> False
   | (Inr records, s) \<Rightarrow>
     let w0 = snd (NewRegistry (map Some records) s)
     in rg_entries (w_reg w0) = [(''a'', 1)] \<and>
        map_option (\<lambda>g. rc_operations (gn_record g)) (get (rg_gens (w_reg w0)) 1) = Some (sp_Operations (mf_Spec tool_manifest)) \<and>
       (case capability_Browse [] w0 of (Inl e, w) \<Rightarrow> False
        | (Inr v, w) \<Rightarrow> (case get (br_tools v) ''t'' of None \<Rightarrow> False
           | Some t \<Rightarrow> tv_tool_path t = ''t'' \<and> tv_capability_id t = ''a'' \<and> tv_operation_id t = ''o''))"
  by code_simp

lemma tool_ok:
  "fstat_ok bare_os" "se_NFC (le_text tool_env) (se_NFC (le_text tool_env) x) = se_NFC (le_text tool_env) x" "inj_on (le_sha256 tool_env) A"
  using bare_ok by (simp_all add: tool_env_def)

lemma bare_store: "\<exists>st. NewSnapshotStore demo_limits = Inr st \<and> bare_sys = sys_init st"
  by (simp add: bare_sys_def NewSnapshotStore_def demo_limits_def)

end
