(* ===== verification/Json_Scan.thy ===== *)
theory Json_Scan
  imports Json
begin

text \<open>
  The scan of a provider's message before it is decoded, \<^verbatim>\<open>internal/client/json_validation.go\<close>: it walks the tokens of
  \<^verbatim>\<open>json.Decoder\<close> and refuses duplicate object members, too much nesting and too many nodes.
\<close>

section \<open>Tokens\<close>

text \<open>\<^verbatim>\<open>json.Decoder.Token\<close>: the state says what may come next, the stack holds the states of the enclosing values.\<close>

datatype tokenState =
  TopValue | ArrayStart | ArrayValue | ArrayComma | ObjectStart | ObjectKey | ObjectColon | ObjectValue | ObjectComma

record decoder =
  dc_rest :: string
  dc_state :: tokenState
  dc_stack :: "tokenState list"

datatype token = Delim char | StringToken string | ScalarToken

datatype scan_error = ScanEOF | ScanSyntax | ScanDuplicate | ScanDepth | ScanNodes

definition tokenValueAllowed :: "tokenState \<Rightarrow> bool" where
  "tokenValueAllowed st \<longleftrightarrow> st = TopValue \<or> st = ArrayStart \<or> st = ArrayValue \<or> st = ObjectValue"

definition tokenValueEnd :: "tokenState \<Rightarrow> tokenState" where
  "tokenValueEnd st =
     (if st = ArrayStart \<or> st = ArrayValue then ArrayComma else if st = ObjectValue then ObjectComma else st)"

text \<open>A scalar at the front: a string, a literal or a number.\<close>

definition decodeScalar :: "string \<Rightarrow> (token \<times> string) option" where
  "decodeScalar s =
     (case s of [] \<Rightarrow> None
      | c # t \<Rightarrow>
        if c = CHR 0x22 then map_option (\<lambda>(x, r). (StringToken x, r)) (parseStr (Suc (length t)) t)
        else if hasPrefix s ''null'' then Some (ScalarToken, drop 4 s)
        else if hasPrefix s ''true'' then Some (ScalarToken, drop 4 s)
        else if hasPrefix s ''false'' then Some (ScalarToken, drop 5 s)
        else map_option (\<lambda>(x, r). (ScalarToken, r)) (parseNum s))"

definition openValue :: "tokenState \<Rightarrow> string \<Rightarrow> decoder \<Rightarrow> decoder" where
  "openValue st rest d = d\<lparr>dc_rest := rest, dc_state := st, dc_stack := dc_state d # dc_stack d\<rparr>"

definition closeValue :: "string \<Rightarrow> decoder \<Rightarrow> decoder" where
  "closeValue rest d = d\<lparr>dc_rest := rest, dc_state := tokenValueEnd (hd (dc_stack d)), dc_stack := tl (dc_stack d)\<rparr>"

text \<open>Everything but a colon and a comma, which \<^verbatim>\<open>Token\<close> skips where they are due.\<close>

definition tokenAt :: "string \<Rightarrow> decoder \<Rightarrow> scan_error + token \<times> decoder" where
  "tokenAt s d =
     (case s of [] \<Rightarrow> Inl ScanEOF
      | c # t \<Rightarrow>
        if c = CHR ''['' then (if tokenValueAllowed (dc_state d) then Inr (Delim c, openValue ArrayStart t d) else Inl ScanSyntax)
        else if c = CHR '']'' then
          (if dc_state d = ArrayStart \<or> dc_state d = ArrayComma then Inr (Delim c, closeValue t d) else Inl ScanSyntax)
        else if c = CHR ''{'' then (if tokenValueAllowed (dc_state d) then Inr (Delim c, openValue ObjectStart t d) else Inl ScanSyntax)
        else if c = CHR ''}'' then
          (if dc_state d = ObjectStart \<or> dc_state d = ObjectComma then Inr (Delim c, closeValue t d) else Inl ScanSyntax)
        else if c = CHR 0x22 \<and> (dc_state d = ObjectStart \<or> dc_state d = ObjectKey) then
          (case decodeScalar s of None \<Rightarrow> Inl ScanSyntax | Some (x, r) \<Rightarrow> Inr (x, d\<lparr>dc_rest := r, dc_state := ObjectColon\<rparr>))
        else if tokenValueAllowed (dc_state d) then
          (case decodeScalar s of None \<Rightarrow> Inl ScanSyntax
           | Some (x, r) \<Rightarrow> Inr (x, d\<lparr>dc_rest := r, dc_state := tokenValueEnd (dc_state d)\<rparr>))
        else Inl ScanSyntax)"

function Token :: "decoder \<Rightarrow> scan_error + token \<times> decoder" where
  "Token d =
     (case skipws (dc_rest d) of [] \<Rightarrow> Inl ScanEOF
      | c # t \<Rightarrow>
        if c = CHR '':'' then
          (if dc_state d = ObjectColon then Token (d\<lparr>dc_rest := t, dc_state := ObjectValue\<rparr>) else Inl ScanSyntax)
        else if c = CHR '','' then
          (if dc_state d = ArrayComma then Token (d\<lparr>dc_rest := t, dc_state := ArrayValue\<rparr>)
           else if dc_state d = ObjectComma then Token (d\<lparr>dc_rest := t, dc_state := ObjectKey\<rparr>)
           else Inl ScanSyntax)
        else tokenAt (c # t) d)"
  by pat_completeness auto
termination
proof (relation "measure (\<lambda>d. length (dc_rest d))")
  have "length t < length s" if "skipws s = c # t" for s t and c :: char
    using that length_dropWhile_le [of is_ws s] by (simp add: skipws_def)
  then show "\<And>d c t. skipws (dc_rest d) = c # t \<Longrightarrow> c = CHR '':'' \<Longrightarrow> dc_state d = ObjectColon \<Longrightarrow>
      (d\<lparr>dc_rest := t, dc_state := ObjectValue\<rparr>, d) \<in> measure (\<lambda>d. length (dc_rest d))"
    "\<And>d c t. skipws (dc_rest d) = c # t \<Longrightarrow> c \<noteq> CHR '':'' \<Longrightarrow> c = CHR '','' \<Longrightarrow> dc_state d = ArrayComma \<Longrightarrow>
      (d\<lparr>dc_rest := t, dc_state := ArrayValue\<rparr>, d) \<in> measure (\<lambda>d. length (dc_rest d))"
    "\<And>d c t. skipws (dc_rest d) = c # t \<Longrightarrow> c \<noteq> CHR '':'' \<Longrightarrow> c = CHR '','' \<Longrightarrow> dc_state d \<noteq> ArrayComma \<Longrightarrow> dc_state d = ObjectComma \<Longrightarrow>
      (d\<lparr>dc_rest := t, dc_state := ObjectKey\<rparr>, d) \<in> measure (\<lambda>d. length (dc_rest d))"
    by auto
qed simp

declare Token.simps [simp del]

definition More :: "decoder \<Rightarrow> bool" where
  "More d = (case skipws (dc_rest d) of [] \<Rightarrow> False | c # t \<Rightarrow> c \<noteq> CHR '']'' \<and> c \<noteq> CHR ''}'')"

section \<open>The scan\<close>

record jsonScanState =
  js_maxDepth :: int
  js_maxNodes :: int
  js_nodes :: int

definition addNode :: "jsonScanState \<Rightarrow> scan_error + jsonScanState" where
  "addNode s =
     (let s' = s\<lparr>js_nodes := js_nodes s + 1\<rparr> in if js_nodes s' > js_maxNodes s' then Inl ScanNodes else Inr s')"

text \<open>The closing delimiter of an object or an array.\<close>

definition closing :: "char \<Rightarrow> decoder \<Rightarrow> jsonScanState \<Rightarrow> scan_error + decoder \<times> jsonScanState" where
  "closing c d s =
     (case Token d of Inl e \<Rightarrow> Inl e
      | Inr (t, d') \<Rightarrow> if t = Delim c then Inr (d', s) else Inl ScanSyntax)"

text \<open>\<open>n\<close> bounds the number of values and members that are still scanned.\<close>

fun scanJSONValue :: "nat \<Rightarrow> decoder \<Rightarrow> jsonScanState \<Rightarrow> int \<Rightarrow> scan_error + decoder \<times> jsonScanState"
  and scanMembers :: "nat \<Rightarrow> decoder \<Rightarrow> jsonScanState \<Rightarrow> int \<Rightarrow> string list \<Rightarrow> scan_error + decoder \<times> jsonScanState"
  and scanItems :: "nat \<Rightarrow> decoder \<Rightarrow> jsonScanState \<Rightarrow> int \<Rightarrow> scan_error + decoder \<times> jsonScanState" where
  "scanJSONValue 0 d s depth = Inl ScanSyntax"
| "scanJSONValue (Suc n) d s depth =
     (case Token d of Inl e \<Rightarrow> Inl e
      | Inr (t, d1) \<Rightarrow>
        (case t of
           Delim c \<Rightarrow>
             if depth > js_maxDepth s then Inl ScanDepth
             else rbind (addNode s) (\<lambda>s1.
               if c = CHR ''{'' then rbind (scanMembers n d1 s1 depth []) (\<lambda>(d2, s2). closing (CHR ''}'') d2 s2)
               else if c = CHR ''['' then rbind (scanItems n d1 s1 depth) (\<lambda>(d2, s2). closing (CHR '']'') d2 s2)
               else Inl ScanSyntax)
         | _ \<Rightarrow> rbind (addNode s) (\<lambda>s1. Inr (d1, s1))))"
| "scanMembers n d s depth members =
     (if \<not> More d then Inr (d, s)
      else case n of 0 \<Rightarrow> Inl ScanSyntax
      | Suc m \<Rightarrow>
        (case Token d of Inl e \<Rightarrow> Inl e
         | Inr (t, d1) \<Rightarrow>
           (case t of
              StringToken key \<Rightarrow>
                rbind (addNode s) (\<lambda>s1.
                  if key \<in> set members then Inl ScanDuplicate
                  else rbind (scanJSONValue m d1 s1 (depth + 1)) (\<lambda>(d2, s2). scanMembers m d2 s2 depth (key # members)))
            | _ \<Rightarrow> Inl ScanSyntax)))"
| "scanItems n d s depth =
     (if \<not> More d then Inr (d, s)
      else case n of 0 \<Rightarrow> Inl ScanSyntax
      | Suc m \<Rightarrow> rbind (scanJSONValue m d s (depth + 1)) (\<lambda>(d2, s2). scanItems m d2 s2 depth))"

definition rejectJSONMembersWithLimits :: "string \<Rightarrow> int \<Rightarrow> int \<Rightarrow> scan_error + unit" where
  "rejectJSONMembersWithLimits data maxDepth maxNodes =
     rbind (scanJSONValue (2 * length data + 2) \<lparr>dc_rest = data, dc_state = TopValue, dc_stack = []\<rparr>
              \<lparr>js_maxDepth = maxDepth, js_maxNodes = maxNodes, js_nodes = 0\<rparr> 1)
       (\<lambda>(d, s). case Token d of Inl ScanEOF \<Rightarrow> Inr () | Inl e \<Rightarrow> Inl e | Inr _ \<Rightarrow> Inl ScanSyntax)"

end
