(* ===== verification/Json_Scan_Props.thy ===== *)
theory Json_Scan_Props
  imports Json_Scan
begin

text \<open>The scan accepts exactly the JSON texts without duplicate members, within the limits on nesting and nodes.\<close>

section \<open>The specification on values\<close>

fun jnodes :: "json \<Rightarrow> int" and jnodesItems :: "json list \<Rightarrow> int" and jnodesMembers :: "(string \<times> json) list \<Rightarrow> int" where
  "jnodes (JArr xs) = 1 + jnodesItems xs"
| "jnodes (JObj ms) = 1 + jnodesMembers ms"
| "jnodes _ = 1"
| "jnodesItems [] = 0"
| "jnodesItems (x # xs) = jnodes x + jnodesItems xs"
| "jnodesMembers [] = 0"
| "jnodesMembers ((k, v) # ms) = 1 + jnodes v + jnodesMembers ms"

text \<open>No object with a duplicate member, and no more than \<open>D\<close> arrays and objects inside each other.\<close>

fun plainJson :: "int \<Rightarrow> json \<Rightarrow> bool" and plainItems :: "int \<Rightarrow> json list \<Rightarrow> bool" and plainMembers :: "int \<Rightarrow> (string \<times> json) list \<Rightarrow> bool" where
  "plainJson D (JArr xs) = (1 \<le> D \<and> plainItems (D - 1) xs)"
| "plainJson D (JObj ms) = (1 \<le> D \<and> distinct (map fst ms) \<and> plainMembers (D - 1) ms)"
| "plainJson D _ = True"
| "plainItems D [] = True"
| "plainItems D (x # xs) = (plainJson D x \<and> plainItems D xs)"
| "plainMembers D [] = True"
| "plainMembers D ((k, v) # ms) = (plainJson D v \<and> plainMembers D ms)"

lemma jnodes_pos: "1 \<le> jnodes v" "0 \<le> jnodesItems xs" "0 \<le> jnodesMembers ms"
  by (induction v and xs and ms rule: jnodes_jnodesItems_jnodesMembers.induct) auto

section \<open>Tokens\<close>

abbreviation dec :: "string \<Rightarrow> tokenState \<Rightarrow> tokenState list \<Rightarrow> decoder" where
  "dec s st stk \<equiv> \<lparr>dc_rest = s, dc_state = st, dc_stack = stk\<rparr>"

lemma Token_other: "skipws s = c # t \<Longrightarrow> c \<noteq> CHR '':'' \<Longrightarrow> c \<noteq> CHR '','' \<Longrightarrow> Token (dec s st stk) = tokenAt (c # t) (dec s st stk)"
  by (subst Token.simps) simp

lemma Token_Nil: "skipws s = [] \<Longrightarrow> Token (dec s st stk) = Inl ScanEOF"
  by (subst Token.simps) simp

lemma Token_colon: "Token (dec s ObjectColon stk) =
    (case skipws s of [] \<Rightarrow> Inl ScanEOF | c # t \<Rightarrow> if c = CHR '':'' then Token (dec t ObjectValue stk) else Inl ScanSyntax)"
  by (subst Token.simps) (auto simp: tokenAt_def tokenValueAllowed_def split: list.splits)

lemma Token_comma:
  "skipws s = CHR '','' # t \<Longrightarrow> Token (dec s ArrayComma stk) = Token (dec t ArrayValue stk)"
  "skipws s = CHR '','' # t \<Longrightarrow> Token (dec s ObjectComma stk) = Token (dec t ObjectKey stk)"
  by (subst Token.simps, simp)+

lemma Token_stray:
  "skipws s = c # t \<Longrightarrow> c = CHR '':'' \<or> c = CHR '','' \<Longrightarrow> st \<noteq> ObjectColon \<Longrightarrow> st \<noteq> ArrayComma \<Longrightarrow> st \<noteq> ObjectComma \<Longrightarrow>
   Token (dec s st stk) = Inl ScanSyntax"
  by (subst Token.simps) auto

text \<open>Where a value may start, the token is its scalar or its opening delimiter.\<close>

lemma parseNum_none: "x \<noteq> CHR ''-'' \<Longrightarrow> \<not> is_digit x \<Longrightarrow> parseNum (x # t) = None"
  by (simp add: parseNum_def hasPrefix_def digits_def)

lemma decodeScalar_none:
  assumes "x \<in> {CHR '':'', CHR '','', CHR '']'', CHR ''}'', CHR ''['', CHR ''{''}"
  shows "decodeScalar (x # t) = None"
proof -
  have "x \<noteq> CHR 0x22" "x \<noteq> CHR ''n''" "x \<noteq> CHR ''t''" "x \<noteq> CHR ''f''" "x \<noteq> CHR ''-''" using assms by auto
  moreover have "\<not> is_digit x" using assms by (elim insertE emptyE) (simp_all add: is_digit_def byteN_def)
  ultimately show ?thesis by (simp add: decodeScalar_def hasPrefix_def parseNum_none)
qed

lemma Token_value:
  assumes "tokenValueAllowed st" "skipws s = c # t"
  shows "Token (dec s st stk) =
    (if c = CHR ''['' then Inr (Delim c, dec t ArrayStart (st # stk))
     else if c = CHR ''{'' then Inr (Delim c, dec t ObjectStart (st # stk))
     else if c = CHR '']'' \<and> st = ArrayStart then Inr (Delim c, closeValue t (dec s st stk))
     else case decodeScalar (c # t) of None \<Rightarrow> Inl ScanSyntax | Some (x, r) \<Rightarrow> Inr (x, dec r (tokenValueEnd st) stk))"
proof -
  have st: "st \<noteq> ObjectColon" "st \<noteq> ArrayComma" "st \<noteq> ObjectComma" "st \<noteq> ObjectStart" "st \<noteq> ObjectKey"
    using assms(1) by (auto simp: tokenValueAllowed_def)
  show ?thesis
  proof (cases "c = CHR '':'' \<or> c = CHR '',''")
    case True
    then have "decodeScalar (c # t) = None" "c \<noteq> CHR ''[''" "c \<noteq> CHR ''{''" "c \<noteq> CHR '']''"
      by (auto intro: decodeScalar_none)
    then show ?thesis using Token_stray [OF assms(2) True st(1-3), of stk] by simp
  next
    case False
    then have e: "Token (dec s st stk) = tokenAt (c # t) (dec s st stk)" using Token_other [OF assms(2)] by simp
    consider "c = CHR '']''" | "c = CHR ''}''" | "c \<noteq> CHR '']''" "c \<noteq> CHR ''}''" by blast
    then show ?thesis
      unfolding e using assms(1) st by cases (simp_all add: tokenAt_def openValue_def decodeScalar_none split: option.splits)
  qed
qed

lemma Token_key:
  assumes "st = ObjectStart \<or> st = ObjectKey" "skipws s = c # t"
  shows "Token (dec s st stk) =
    (if c = CHR 0x22 then (case decodeScalar (c # t) of None \<Rightarrow> Inl ScanSyntax | Some (x, r) \<Rightarrow> Inr (x, dec r ObjectColon stk))
     else if c = CHR ''}'' \<and> st = ObjectStart then Inr (Delim c, closeValue t (dec s st stk)) else Inl ScanSyntax)"
proof (cases "c = CHR '':'' \<or> c = CHR '',''")
  case True
  moreover from True have "c \<noteq> CHR 0x22" "c \<noteq> CHR ''}''" by auto
  ultimately show ?thesis using Token_stray [OF assms(2) True, of st stk] assms(1) by auto
next
  case False
  then have e: "Token (dec s st stk) = tokenAt (c # t) (dec s st stk)" using Token_other [OF assms(2)] by simp
  show ?thesis
    unfolding e using assms(1) by (elim disjE) (simp_all add: tokenAt_def tokenValueAllowed_def split: option.splits)
qed

lemma Token_close:
  assumes "skipws s = c # t"
  shows "st = ArrayStart \<or> st = ArrayComma \<Longrightarrow> c = CHR '']'' \<Longrightarrow> Token (dec s st (p # stk)) = Inr (Delim c, dec t (tokenValueEnd p) stk)"
    and "st = ObjectStart \<or> st = ObjectComma \<Longrightarrow> c = CHR ''}'' \<Longrightarrow> Token (dec s st (p # stk)) = Inr (Delim c, dec t (tokenValueEnd p) stk)"
  using Token_other [OF assms, of st "p # stk"] by (auto simp: tokenAt_def closeValue_def)

text \<open>After a value only a comma or the closing delimiter of its own kind can follow.\<close>

lemma Token_after:
  assumes "skipws s = c # t" "c \<noteq> CHR '',''"
  shows "c \<noteq> CHR '']'' \<Longrightarrow> Token (dec s ArrayComma stk) = Inl ScanSyntax"
    and "c \<noteq> CHR ''}'' \<Longrightarrow> Token (dec s ObjectComma stk) = Inl ScanSyntax"
proof -
  show "c \<noteq> CHR '']'' \<Longrightarrow> Token (dec s ArrayComma stk) = Inl ScanSyntax"
    using assms by (subst Token.simps) (simp add: tokenAt_def tokenValueAllowed_def)
  show "c \<noteq> CHR ''}'' \<Longrightarrow> Token (dec s ObjectComma stk) = Inl ScanSyntax"
    using assms by (subst Token.simps) (simp add: tokenAt_def tokenValueAllowed_def)
qed

section \<open>The scan follows the decoder\<close>

fun ok :: "'e + 'a \<Rightarrow> 'a option" where
  "ok (Inl e) = None"
| "ok (Inr x) = Some x"

lemma ok_rbind [simp]: "ok (rbind m f) = Option.bind (ok m) (\<lambda>x. ok (f x))"
  by (cases m) simp_all

definition grown :: "int \<Rightarrow> jsonScanState \<Rightarrow> jsonScanState" where
  "grown k S = S\<lparr>js_nodes := js_nodes S + k\<rparr>"

definition fits :: "int \<Rightarrow> jsonScanState \<Rightarrow> bool" where
  "fits k S \<longleftrightarrow> js_nodes S + k \<le> js_maxNodes S"

lemma grown_simps [simp]:
  "js_maxDepth (grown k S) = js_maxDepth S" "grown j (grown k S) = grown (k + j) S"
  "fits j (grown k S) \<longleftrightarrow> fits (k + j) S"
  by (simp_all add: grown_def fits_def add.assoc)

lemma ok_addNode [simp]: "ok (addNode S) = (if fits 1 S then Some (grown 1 S) else None)"
  by (simp add: addNode_def grown_def fits_def Let_def)

lemma fits_mono: "fits k S \<Longrightarrow> j \<le> k \<Longrightarrow> fits j S"
  by (simp add: fits_def)

definition valueOutcome :: "jsonScanState \<Rightarrow> int \<Rightarrow> tokenState \<Rightarrow> tokenState list \<Rightarrow> (json \<times> string) option \<Rightarrow> (decoder \<times> jsonScanState) option" where
  "valueOutcome S depth st stk p =
     (case p of None \<Rightarrow> None
      | Some (v, r) \<Rightarrow>
        if plainJson (js_maxDepth S - depth + 1) v \<and> fits (jnodes v) S then Some (dec r (tokenValueEnd st) stk, grown (jnodes v) S) else None)"

definition itemsOutcome :: "jsonScanState \<Rightarrow> int \<Rightarrow> tokenState \<Rightarrow> tokenState list \<Rightarrow> (json list \<times> string) option \<Rightarrow> (decoder \<times> jsonScanState) option" where
  "itemsOutcome S depth st stk p =
     (case p of None \<Rightarrow> None
      | Some (vs, r) \<Rightarrow>
        if plainItems (js_maxDepth S - depth) vs \<and> fits (jnodesItems vs) S then Some (dec r (tokenValueEnd st) stk, grown (jnodesItems vs) S) else None)"

definition membersOutcome :: "jsonScanState \<Rightarrow> int \<Rightarrow> string list \<Rightarrow> tokenState \<Rightarrow> tokenState list \<Rightarrow> ((string \<times> json) list \<times> string) option \<Rightarrow> (decoder \<times> jsonScanState) option" where
  "membersOutcome S depth ks st stk p =
     (case p of None \<Rightarrow> None
      | Some (ms, r) \<Rightarrow>
        if plainMembers (js_maxDepth S - depth) ms \<and> distinct (map fst ms) \<and> set (map fst ms) \<inter> set ks = {} \<and> fits (jnodesMembers ms) S
        then Some (dec r (tokenValueEnd st) stk, grown (jnodesMembers ms) S) else None)"

text \<open>The rest of an array from one of its items on, and of an object from one of its members on.\<close>

definition scanFromItem :: "nat \<Rightarrow> decoder \<Rightarrow> jsonScanState \<Rightarrow> int \<Rightarrow> scan_error + decoder \<times> jsonScanState" where
  "scanFromItem m d S depth =
     rbind (scanJSONValue m d S (depth + 1)) (\<lambda>(d2, s2). rbind (scanItems m d2 s2 depth) (\<lambda>(d3, s3). closing (CHR '']'') d3 s3))"

definition scanFromMember :: "nat \<Rightarrow> decoder \<Rightarrow> jsonScanState \<Rightarrow> int \<Rightarrow> string list \<Rightarrow> scan_error + decoder \<times> jsonScanState" where
  "scanFromMember m d S depth ks =
     (case Token d of Inr (StringToken k, d1) \<Rightarrow>
        rbind (addNode S) (\<lambda>s1. if k \<in> set ks then Inl ScanDuplicate
          else rbind (scanJSONValue m d1 s1 (depth + 1)) (\<lambda>(d2, s2).
                 rbind (scanMembers m d2 s2 depth (k # ks)) (\<lambda>(d3, s3). closing (CHR ''}'') d3 s3)))
      | _ \<Rightarrow> Inl ScanSyntax)"

lemma ok_closing:
  "ok (closing c d S) = (case Token d of Inr (Delim x, d') \<Rightarrow> if x = c then Some (d', S) else None | _ \<Rightarrow> None)"
  by (auto simp: closing_def split: sum.splits token.splits)

lemma scanJSONValue_Token: "Token d = Token d' \<Longrightarrow> scanJSONValue n d S k = scanJSONValue n d' S k"
  by (cases n) simp_all

lemma scanFromItem_Token: "Token d = Token d' \<Longrightarrow> scanFromItem n d S k = scanFromItem n d' S k"
  using scanJSONValue_Token [of d d'] by (simp add: scanFromItem_def)

lemma scanFromMember_Token: "Token d = Token d' \<Longrightarrow> scanFromMember n d S k ks = scanFromMember n d' S k ks"
  by (simp add: scanFromMember_def)

text \<open>The loop of an array and its closing bracket, after the opening bracket or after an item.\<close>

lemma items_then_close:
  "ok (rbind (scanItems n d S depth) (\<lambda>(d2, s2). closing (CHR '']'') d2 s2)) =
   (if More d then (case n of 0 \<Rightarrow> None | Suc m \<Rightarrow> ok (scanFromItem m d S depth)) else ok (closing (CHR '']'') d S))"
  by (cases n) (auto simp: scanFromItem_def split_def Option.bind_assoc)

lemma members_then_close:
  "ok (rbind (scanMembers n d S depth ks) (\<lambda>(d2, s2). closing (CHR ''}'') d2 s2)) =
   (if More d then (case n of 0 \<Rightarrow> None | Suc m \<Rightarrow> ok (scanFromMember m d S depth ks)) else ok (closing (CHR ''}'') d S))"
  by (cases n) (auto simp: scanFromMember_def split_def split: sum.splits token.splits)

lemma scan_Token_error: "Token d = Inl e \<Longrightarrow> ok (scanJSONValue n d S k) = None"
  by (cases n) simp_all

lemma scanFrom_error:
  "Token d = Inl e \<Longrightarrow> ok (scanFromItem n d S k) = None" "Token d = Inl e \<Longrightarrow> ok (scanFromMember n d S k ks) = None"
  by (simp_all add: scanFromItem_def scanFromMember_def scan_Token_error)

definition follows :: "nat \<Rightarrow> bool" where
  "follows n \<longleftrightarrow> (\<forall>s st stk S depth. tokenValueAllowed st \<longrightarrow>
     ok (scanJSONValue n (dec s st stk) S depth) = valueOutcome S depth st stk (parseValue n s))"

definition followsItem :: "nat \<Rightarrow> bool" where
  "followsItem n \<longleftrightarrow> (\<forall>s st p stk S depth. st = ArrayStart \<or> st = ArrayValue \<longrightarrow>
     ok (scanFromItem n (dec s st (p # stk)) S depth) = itemsOutcome S depth p stk (parseItems (Suc n) s))"

definition followsMember :: "nat \<Rightarrow> bool" where
  "followsMember n \<longleftrightarrow> (\<forall>s st p stk S depth ks. st = ObjectStart \<or> st = ObjectKey \<longrightarrow>
     ok (scanFromMember n (dec s st (p # stk)) S depth ks) = membersOutcome S depth ks p stk (parseMembers (Suc n) s))"

lemma More_Cons: "skipws s = c # t \<Longrightarrow> More (dec s st stk) \<longleftrightarrow> c \<noteq> CHR '']'' \<and> c \<noteq> CHR ''}''"
  by (simp add: More_def)

lemma rest_items:
  assumes "\<forall>m. n = Suc m \<longrightarrow> followsItem m"
  shows "ok (rbind (scanItems n (dec r ArrayComma (p # stk)) S depth) (\<lambda>(d2, s2). closing (CHR '']'') d2 s2)) =
    (case skipws r of [] \<Rightarrow> None
     | c # u \<Rightarrow> if c = CHR '']'' then Some (dec u (tokenValueEnd p) stk, S)
                else if c = CHR '','' then itemsOutcome S depth p stk (parseItems n u) else None)"
proof (cases "skipws r")
  case Nil
  then show ?thesis unfolding items_then_close by (simp add: More_def ok_closing Token_Nil)
next
  case (Cons c u)
  consider (close) "c = CHR '']''" | (brace) "c = CHR ''}''" | (comma) "c = CHR '',''" | (other) "c \<notin> {CHR '']'', CHR ''}'', CHR '',''}"
    by blast
  then show ?thesis
  proof cases
    case close
    then show ?thesis
      unfolding items_then_close More_Cons [OF Cons] using Token_close(1) [OF Cons, of ArrayComma p stk] Cons by (simp add: ok_closing)
  next
    case brace
    then show ?thesis
      unfolding items_then_close More_Cons [OF Cons] using Token_after(1) [OF Cons, of "p # stk"] Cons by (simp add: ok_closing)
  next
    case comma
    have "ok (scanFromItem m (dec r ArrayComma (p # stk)) S depth) = itemsOutcome S depth p stk (parseItems (Suc m) u)" if "n = Suc m" for m
    proof -
      have "scanFromItem m (dec r ArrayComma (p # stk)) S depth = scanFromItem m (dec u ArrayValue (p # stk)) S depth"
        using Token_comma(1) [of r u] Cons comma by (intro scanFromItem_Token) simp
      then show ?thesis using assms that by (simp add: followsItem_def)
    qed
    then show ?thesis
      unfolding items_then_close More_Cons [OF Cons] using comma Cons
      by (cases n) (simp_all add: itemsOutcome_def del: parseItems.simps(2))
  next
    case other
    then show ?thesis
      unfolding items_then_close More_Cons [OF Cons] using Token_after(1) [OF Cons, of "p # stk"] Cons
      by (cases n) (simp_all add: scanFrom_error)
  qed
qed

lemma rest_members:
  assumes "\<forall>m. n = Suc m \<longrightarrow> followsMember m"
  shows "ok (rbind (scanMembers n (dec r ObjectComma (p # stk)) S depth ks) (\<lambda>(d2, s2). closing (CHR ''}'') d2 s2)) =
    (case skipws r of [] \<Rightarrow> None
     | c # u \<Rightarrow> if c = CHR ''}'' then Some (dec u (tokenValueEnd p) stk, S)
                else if c = CHR '','' then membersOutcome S depth ks p stk (parseMembers n u) else None)"
proof (cases "skipws r")
  case Nil
  then show ?thesis unfolding members_then_close by (simp add: More_def ok_closing Token_Nil)
next
  case (Cons c u)
  consider (close) "c = CHR ''}''" | (brace) "c = CHR '']''" | (comma) "c = CHR '',''" | (other) "c \<notin> {CHR '']'', CHR ''}'', CHR '',''}"
    by blast
  then show ?thesis
  proof cases
    case close
    then show ?thesis
      unfolding members_then_close More_Cons [OF Cons] using Token_close(2) [OF Cons, of ObjectComma p stk] Cons by (simp add: ok_closing)
  next
    case brace
    then show ?thesis
      unfolding members_then_close More_Cons [OF Cons] using Token_after(2) [OF Cons, of "p # stk"] Cons by (simp add: ok_closing)
  next
    case comma
    have "ok (scanFromMember m (dec r ObjectComma (p # stk)) S depth ks) = membersOutcome S depth ks p stk (parseMembers (Suc m) u)" if "n = Suc m" for m
    proof -
      have "scanFromMember m (dec r ObjectComma (p # stk)) S depth ks = scanFromMember m (dec u ObjectKey (p # stk)) S depth ks"
        using Token_comma(2) [of r u] Cons comma by (intro scanFromMember_Token) simp
      then show ?thesis using assms that by (simp add: followsMember_def)
    qed
    then show ?thesis
      unfolding members_then_close More_Cons [OF Cons] using comma Cons
      by (cases n) (simp_all add: membersOutcome_def del: parseMembers.simps(2))
  next
    case other
    then show ?thesis
      unfolding members_then_close More_Cons [OF Cons] using Token_after(2) [OF Cons, of "p # stk"] Cons
      by (cases n) (simp_all add: scanFrom_error)
  qed
qed

text \<open>From the next value on, in an array and in an object.\<close>

lemma item_step:
  assumes V: "follows n" and I: "\<forall>m. n = Suc m \<longrightarrow> followsItem m"
  shows "followsItem n"
  unfolding followsItem_def
proof (intro allI impI)
  fix s st p stk and S :: jsonScanState and depth
  assume st: "st = ArrayStart \<or> st = ArrayValue"
  then have "tokenValueAllowed st" and e: "tokenValueEnd st = ArrayComma" by (auto simp: tokenValueAllowed_def tokenValueEnd_def)
  then have v: "ok (scanJSONValue n (dec s st (p # stk)) S (depth + 1)) = valueOutcome S (depth + 1) st (p # stk) (parseValue n s)"
    using V by (simp add: follows_def)
  show "ok (scanFromItem n (dec s st (p # stk)) S depth) = itemsOutcome S depth p stk (parseItems (Suc n) s)"
  proof (cases "parseValue n s")
    case None
    then show ?thesis by (simp add: scanFromItem_def v valueOutcome_def itemsOutcome_def)
  next
    case (Some vr)
    obtain x r where vr: "vr = (x, r)" by (cases vr)
    show ?thesis
    proof (cases "plainJson (js_maxDepth S - depth) x \<and> fits (jnodes x) S")
      case True
      have "ok (scanFromItem n (dec s st (p # stk)) S depth) =
          ok (rbind (scanItems n (dec r ArrayComma (p # stk)) (grown (jnodes x) S) depth) (\<lambda>(d2, s2). closing (CHR '']'') d2 s2))"
        using True by (simp add: scanFromItem_def v valueOutcome_def Some vr e)
      then show ?thesis
        unfolding rest_items [OF I] using True Some vr jnodes_pos
        by (auto simp: itemsOutcome_def split: list.splits option.splits)
    next
      case False
      moreover have "\<not> fits (jnodes x + k) S" if "\<not> fits (jnodes x) S" "0 \<le> k" for k
        using that fits_mono [of "jnodes x + k" S "jnodes x"] by auto
      ultimately show ?thesis
        using jnodes_pos(2) by (auto simp: scanFromItem_def v valueOutcome_def itemsOutcome_def Some vr split: list.splits option.splits)
    qed
  qed
qed

lemma colon_value:
  assumes "follows n"
  shows "ok (scanJSONValue n (dec t ObjectColon stk) S depth) =
    valueOutcome S depth ObjectValue stk (case skipws t of [] \<Rightarrow> None | c # u \<Rightarrow> if c = CHR '':'' then parseValue n u else None)"
proof (cases "skipws t")
  case Nil
  then show ?thesis by (simp add: Token_Nil scan_Token_error valueOutcome_def)
next
  case (Cons c u)
  show ?thesis
  proof (cases "c = CHR '':''")
    case True
    then have "scanJSONValue n (dec t ObjectColon stk) S depth = scanJSONValue n (dec u ObjectValue stk) S depth"
      using Cons by (intro scanJSONValue_Token) (simp add: Token_colon)
    then show ?thesis using assms Cons True by (simp add: follows_def tokenValueAllowed_def)
  next
    case False
    then have "Token (dec t ObjectColon stk) = Inl ScanSyntax" using Cons by (simp add: Token_colon)
    then show ?thesis using Cons False by (simp add: scan_Token_error valueOutcome_def)
  qed
qed

lemma decodeScalar_quote:
  "decodeScalar (CHR 0x22 # t) = map_option (\<lambda>(x, r). (StringToken x, r)) (parseStr (Suc (length t)) t)"
  by (simp add: decodeScalar_def)

text \<open>A member whose name is already parsed.\<close>

lemma member_value:
  assumes V: "follows n" and M: "\<forall>m. n = Suc m \<longrightarrow> followsMember m"
  shows "ok (rbind (addNode S) (\<lambda>s1. if k \<in> set ks then Inl ScanDuplicate
          else rbind (scanJSONValue n (dec t ObjectColon (p # stk)) s1 (depth + 1)) (\<lambda>(d2, s2).
                 rbind (scanMembers n d2 s2 depth (k # ks)) (\<lambda>(d3, s3). closing (CHR ''}'') d3 s3)))) =
    membersOutcome S depth ks p stk
      (case skipws t of [] \<Rightarrow> None
       | c # u \<Rightarrow> if c \<noteq> CHR '':'' then None
         else case parseValue n u of None \<Rightarrow> None
         | Some (v, x) \<Rightarrow>
           (case skipws x of [] \<Rightarrow> None
            | d # y \<Rightarrow> if d = CHR ''}'' then Some ([(k, v)], y)
                       else if d = CHR '','' then map_option (\<lambda>(ms, r). ((k, v) # ms, r)) (parseMembers n y) else None))"
    (is "?lhs = membersOutcome S depth ks p stk ?parsed")
proof (cases "\<exists>c u v x. skipws t = c # u \<and> c = CHR '':'' \<and> parseValue n u = Some (v, x)")
  case False
  have no: "parseValue n u = None" if "skipws t = CHR '':'' # u" for u
    using False that by (cases "parseValue n u") auto
  then have "?parsed = None" by (cases "skipws t") auto
  moreover have "(case skipws t of [] \<Rightarrow> None | c # u \<Rightarrow> if c = CHR '':'' then parseValue n u else None) = None"
    using no by (cases "skipws t") auto
  ultimately show ?thesis by (simp add: colon_value [OF V] membersOutcome_def valueOutcome_def)
next
  case True
  then obtain u v x where t: "skipws t = CHR '':'' # u" and v: "parseValue n u = Some (v, x)" by blast
  have end_eq: "tokenValueEnd ObjectValue = ObjectComma" by (simp add: tokenValueEnd_def)
  show ?thesis
  proof (cases "plainJson (js_maxDepth S - depth) v \<and> fits (1 + jnodes v) S \<and> k \<notin> set ks")
    case True
    then have "fits 1 S" using fits_mono [of "1 + jnodes v" S 1] jnodes_pos(1) [of v] by simp
    then have "?lhs = ok (rbind (scanMembers n (dec x ObjectComma (p # stk)) (grown (1 + jnodes v) S) depth (k # ks)) (\<lambda>(d3, s3). closing (CHR ''}'') d3 s3))"
      using True by (simp add: colon_value [OF V] valueOutcome_def t v end_eq)
    then show ?thesis
      unfolding rest_members [OF M] using True t v
      by (auto simp: membersOutcome_def add.assoc split: list.splits option.splits)
  next
    case False
    have "\<not> fits (1 + (jnodes v + j)) S" if "\<not> fits (1 + jnodes v) S" "0 \<le> j" for j
      using that fits_mono [of "1 + (jnodes v + j)" S "1 + jnodes v"] by auto
    then show ?thesis
      using False t v jnodes_pos(3)
      by (auto simp: colon_value [OF V] valueOutcome_def membersOutcome_def add.assoc split: list.splits option.splits)
  qed
qed

lemma member_step:
  assumes V: "follows n" and M: "\<forall>m. n = Suc m \<longrightarrow> followsMember m"
  shows "followsMember n"
  unfolding followsMember_def
proof (intro allI impI)
  fix s st p stk and S :: jsonScanState and depth ks
  assume st: "st = ObjectStart \<or> st = ObjectKey"
  show "ok (scanFromMember n (dec s st (p # stk)) S depth ks) = membersOutcome S depth ks p stk (parseMembers (Suc n) s)"
  proof (cases "skipws s")
    case Nil
    then show ?thesis by (simp add: scanFrom_error Token_Nil membersOutcome_def)
  next
    case (Cons c t)
    note key = Token_key [OF st Cons, of "p # stk"]
    consider "c \<noteq> CHR 0x22" | "c = CHR 0x22" "parseStr (Suc (length t)) t = None"
      | k r where "c = CHR 0x22" "parseStr (Suc (length t)) t = Some (k, r)" by (cases "parseStr (Suc (length t)) t") auto
    then show ?thesis
    proof cases
      case 1
      then have "ok (scanFromMember n (dec s st (p # stk)) S depth ks) = None" by (simp add: scanFromMember_def key)
      then show ?thesis using Cons 1 by (simp add: membersOutcome_def)
    next
      case 2
      then have "ok (scanFromMember n (dec s st (p # stk)) S depth ks) = None" by (simp add: scanFromMember_def key decodeScalar_quote)
      then show ?thesis using Cons 2 by (simp add: membersOutcome_def)
    next
      case 3
      then have "Token (dec s st (p # stk)) = Inr (StringToken k, dec r ObjectColon (p # stk))"
        by (simp add: key decodeScalar_quote)
      then show ?thesis using member_value [OF V M, of S k ks r p stk depth] Cons 3 by (simp add: scanFromMember_def)
    qed
  qed
qed

text \<open>An array and an object after their opening delimiter.\<close>

lemma parseValue_bad: "skipws s = c # t \<Longrightarrow> c \<in> {CHR '':'', CHR '','', CHR '']'', CHR ''}''} \<Longrightarrow> parseValue n s = None"
  using decodeScalar_none [of c t] unfolding decodeScalar_def
  by (cases n) (simp, elim insertE emptyE, simp_all split: if_splits)

lemma parseItems_bad:
  "skipws s = [] \<Longrightarrow> parseItems n s = None" "skipws s = CHR ''}'' # t \<Longrightarrow> parseItems n s = None"
proof -
  assume "skipws s = []"
  then have "parseValue m s = None" for m by (cases m) simp_all
  then show "parseItems n s = None" by (cases n) simp_all
next
  assume "skipws s = CHR ''}'' # t"
  then have "parseValue m s = None" for m by (rule parseValue_bad) simp
  then show "parseItems n s = None" by (cases n) simp_all
qed

lemma parseMembers_bad: "\<not> hasPrefix (skipws s) [CHR 0x22] \<Longrightarrow> parseMembers n s = None"
  by (cases n) (auto simp: hasPrefix_def split: list.splits)

lemma array_rest:
  assumes "\<forall>m. n = Suc m \<longrightarrow> followsItem m" "fits 0 S"
  shows "ok (rbind (scanItems n (dec t ArrayStart (p # stk)) S depth) (\<lambda>(d2, s2). closing (CHR '']'') d2 s2)) =
    itemsOutcome S depth p stk (if hasPrefix (skipws t) '']'' then Some ([], tl (skipws t)) else parseItems n t)"
proof (cases "skipws t")
  case Nil
  then show ?thesis unfolding items_then_close
    by (simp add: More_def ok_closing Token_Nil hasPrefix_def parseItems_bad itemsOutcome_def)
next
  case (Cons c u)
  consider (close) "c = CHR '']''" | (brace) "c = CHR ''}''" | (other) "c \<noteq> CHR '']''" "c \<noteq> CHR ''}''" by blast
  then show ?thesis
  proof cases
    case close
    then show ?thesis
      unfolding items_then_close More_Cons [OF Cons] using Token_close(1) [OF Cons, of ArrayStart p stk] Cons assms(2)
      by (simp add: ok_closing hasPrefix_def itemsOutcome_def grown_def)
  next
    case brace
    then have "Token (dec t ArrayStart (p # stk)) = Inl ScanSyntax"
      using Token_value [OF _ Cons, of ArrayStart "p # stk"] by (simp add: tokenValueAllowed_def decodeScalar_none)
    then show ?thesis
      unfolding items_then_close More_Cons [OF Cons] using brace Cons
      by (simp add: ok_closing hasPrefix_def parseItems_bad itemsOutcome_def)
  next
    case other
    then show ?thesis
      unfolding items_then_close More_Cons [OF Cons] using Cons assms(1)
      by (cases n) (simp_all add: hasPrefix_def followsItem_def itemsOutcome_def del: parseItems.simps(2))
  qed
qed

lemma object_rest:
  assumes "\<forall>m. n = Suc m \<longrightarrow> followsMember m" "fits 0 S"
  shows "ok (rbind (scanMembers n (dec t ObjectStart (p # stk)) S depth []) (\<lambda>(d2, s2). closing (CHR ''}'') d2 s2)) =
    membersOutcome S depth [] p stk (if hasPrefix (skipws t) ''}'' then Some ([], tl (skipws t)) else parseMembers n t)"
proof (cases "skipws t")
  case Nil
  then show ?thesis unfolding members_then_close
    by (simp add: More_def ok_closing Token_Nil hasPrefix_def parseMembers_bad membersOutcome_def)
next
  case (Cons c u)
  consider (close) "c = CHR ''}''" | (brace) "c = CHR '']''" | (other) "c \<noteq> CHR '']''" "c \<noteq> CHR ''}''" by blast
  then show ?thesis
  proof cases
    case close
    then show ?thesis
      unfolding members_then_close More_Cons [OF Cons] using Token_close(2) [OF Cons, of ObjectStart p stk] Cons assms(2)
      by (simp add: ok_closing hasPrefix_def membersOutcome_def grown_def)
  next
    case brace
    then have "Token (dec t ObjectStart (p # stk)) = Inl ScanSyntax"
      using Token_key [OF _ Cons, of ObjectStart "p # stk"] by simp
    then show ?thesis
      unfolding members_then_close More_Cons [OF Cons] using brace Cons
      by (simp add: ok_closing hasPrefix_def parseMembers_bad membersOutcome_def)
  next
    case other
    then show ?thesis
      unfolding members_then_close More_Cons [OF Cons] using Cons assms(1)
      by (cases n) (simp_all add: hasPrefix_def followsMember_def membersOutcome_def del: parseMembers.simps(2))
  qed
qed

lemma parseValue_scalar:
  assumes "skipws s = c # t" "c \<noteq> CHR ''[''" "c \<noteq> CHR ''{''"
  shows "map_option snd (parseValue (Suc n) s) = map_option snd (decodeScalar (c # t))"
    and "parseValue (Suc n) s = Some (v, r) \<Longrightarrow> jnodes v = 1 \<and> plainJson D v"
    and "decodeScalar (c # t) = Some (x, r) \<Longrightarrow> x \<noteq> Delim d"
  using assms by (auto simp: decodeScalar_def option.map_comp comp_def split_def split: if_splits)

lemma value_array:
  assumes I: "\<forall>m. n = Suc m \<longrightarrow> followsItem m" and st: "tokenValueAllowed st" and s: "skipws s = CHR ''['' # t"
  shows "ok (scanJSONValue (Suc n) (dec s st stk) S depth) = valueOutcome S depth st stk (parseValue (Suc n) s)"
proof (cases "depth \<le> js_maxDepth S \<and> fits 1 S")
  case True
  then have "ok (scanJSONValue (Suc n) (dec s st stk) S depth) =
      ok (rbind (scanItems n (dec t ArrayStart (st # stk)) (grown 1 S) depth) (\<lambda>(d2, s2). closing (CHR '']'') d2 s2))"
    using Token_value [OF st s] by simp
  then show ?thesis
    using array_rest [OF I, of "grown 1 S" t st stk depth] True s
    by (auto simp: itemsOutcome_def valueOutcome_def split: option.splits)
next
  case False
  moreover have "\<not> fits (1 + k) S" if "\<not> fits 1 S" "0 \<le> k" for k using that fits_mono [of "1 + k" S 1] by auto
  ultimately show ?thesis
    using Token_value [OF st s] s jnodes_pos(2) by (auto simp: valueOutcome_def split: option.splits if_splits)
qed

lemma value_object:
  assumes M: "\<forall>m. n = Suc m \<longrightarrow> followsMember m" and st: "tokenValueAllowed st" and s: "skipws s = CHR ''{'' # t"
  shows "ok (scanJSONValue (Suc n) (dec s st stk) S depth) = valueOutcome S depth st stk (parseValue (Suc n) s)"
proof (cases "depth \<le> js_maxDepth S \<and> fits 1 S")
  case True
  then have "ok (scanJSONValue (Suc n) (dec s st stk) S depth) =
      ok (rbind (scanMembers n (dec t ObjectStart (st # stk)) (grown 1 S) depth []) (\<lambda>(d2, s2). closing (CHR ''}'') d2 s2))"
    using Token_value [OF st s] by simp
  then show ?thesis
    using object_rest [OF M, of "grown 1 S" t st stk depth] True s
    by (auto simp: membersOutcome_def valueOutcome_def split: option.splits)
next
  case False
  moreover have "\<not> fits (1 + k) S" if "\<not> fits 1 S" "0 \<le> k" for k using that fits_mono [of "1 + k" S 1] by auto
  ultimately show ?thesis
    using Token_value [OF st s] s jnodes_pos(3) by (auto simp: valueOutcome_def split: option.splits if_splits)
qed

lemma value_scalar:
  assumes st: "tokenValueAllowed st" and s: "skipws s = c # t" "c \<noteq> CHR ''[''" "c \<noteq> CHR ''{''"
  shows "ok (scanJSONValue (Suc n) (dec s st stk) S depth) = valueOutcome S depth st stk (parseValue (Suc n) s)"
proof (cases "decodeScalar (c # t)")
  case None
  then have "parseValue (Suc n) s = None" using parseValue_scalar(1) [OF s, of n] by simp
  then show ?thesis using Token_value [OF st s(1)] s None by (auto simp: valueOutcome_def split: if_splits)
next
  case (Some xr)
  obtain x r where xr: "xr = (x, r)" by (cases xr)
  obtain v where v: "parseValue (Suc n) s = Some (v, r)" using parseValue_scalar(1) [OF s, of n] Some xr by auto
  have "c \<noteq> CHR '']''" using Some decodeScalar_none [of c t] by auto
  then have "Token (dec s st stk) = Inr (x, dec r (tokenValueEnd st) stk)" using Token_value [OF st s(1)] s Some xr by simp
  moreover have "\<not> (\<exists>d. x = Delim d)" using parseValue_scalar(3) [OF s] Some xr by blast
  moreover have "jnodes v = 1" "plainJson D v" for D using parseValue_scalar(2) [OF s v] by auto
  ultimately show ?thesis using v by (cases x) (simp_all add: valueOutcome_def del: parseValue.simps)
qed

lemma value_step:
  assumes "\<forall>m. n = Suc m \<longrightarrow> followsItem m" "\<forall>m. n = Suc m \<longrightarrow> followsMember m"
  shows "follows (Suc n)"
  unfolding follows_def
proof (intro allI impI)
  fix s st stk and S :: jsonScanState and depth
  assume st: "tokenValueAllowed st"
  show "ok (scanJSONValue (Suc n) (dec s st stk) S depth) = valueOutcome S depth st stk (parseValue (Suc n) s)"
  proof (cases "skipws s")
    case Nil
    then show ?thesis by (simp add: Token_Nil valueOutcome_def)
  next
    case (Cons c t)
    then show ?thesis
      using value_array [OF assms(1) st] value_object [OF assms(2) st] value_scalar [OF st] by blast
  qed
qed

lemma scan_follows: "follows n \<and> followsItem n \<and> followsMember n"
proof (induction n rule: less_induct)
  case (less n)
  have V: "follows n"
  proof (cases n)
    case 0
    then show ?thesis by (simp add: follows_def valueOutcome_def)
  next
    case (Suc k)
    then show ?thesis using less value_step by simp
  qed
  then show ?case using item_step [OF V] member_step [OF V] less by simp
qed

lemma ok_Inr: "ok m = Some x \<longleftrightarrow> m = Inr x" for m :: "'e + 'a"
  by (cases m) simp_all

lemma Token_end: "Token (dec r TopValue []) = Inl ScanEOF \<longleftrightarrow> skipws r = []"
proof (cases "skipws r")
  case (Cons c t)
  then show ?thesis
    using Token_value [OF _ Cons, of TopValue "[]"] by (auto simp: tokenValueAllowed_def split: option.splits)
qed (simp add: Token_Nil)

lemma reject_iff:
  "rejectJSONMembersWithLimits data maxDepth maxNodes = Inr () \<longleftrightarrow>
   (\<exists>v. parseJson data = Some v \<and> plainJson maxDepth v \<and> jnodes v \<le> maxNodes)"
proof -
  define S where "S = \<lparr>js_maxDepth = maxDepth, js_maxNodes = maxNodes, js_nodes = 0\<rparr>"
  have top: "tokenValueAllowed TopValue" "tokenValueEnd TopValue = TopValue" by (simp_all add: tokenValueAllowed_def tokenValueEnd_def)
  have v: "ok (scanJSONValue (2 * length data + 2) (dec data TopValue []) S 1) =
      valueOutcome S 1 TopValue [] (parseValue (2 * length data + 2) data)"
    using scan_follows top(1) unfolding follows_def by blast
  have eof: "ok (case Token d of Inl ScanEOF \<Rightarrow> Inr () | Inl e \<Rightarrow> Inl e | Inr x \<Rightarrow> Inl ScanSyntax) = Some () \<longleftrightarrow> Token d = Inl ScanEOF" for d
    by (auto split: sum.splits scan_error.splits)
  have "rejectJSONMembersWithLimits data maxDepth maxNodes = Inr () \<longleftrightarrow>
      Option.bind (valueOutcome S 1 TopValue [] (parseValue (2 * length data + 2) data))
        (\<lambda>(d, s). ok (case Token d of Inl ScanEOF \<Rightarrow> Inr () | Inl e \<Rightarrow> Inl e | Inr x \<Rightarrow> Inl ScanSyntax)) = Some ()"
    unfolding ok_Inr [symmetric] rejectJSONMembersWithLimits_def ok_rbind S_def [symmetric] v
    by (simp add: split_def del: parseValue.simps scanJSONValue.simps)
  then show ?thesis
    unfolding parseJson_def using eof Token_end top(2)
    by (auto simp: valueOutcome_def S_def fits_def simp del: parseValue.simps split: option.splits if_splits)
qed

text \<open>C18: The scan of a provider message accepts a text exactly when it is one JSON value, no object in it has two
  members with the same name, no more than the given number of arrays and objects lie inside each other, and
  its values and member names together are no more than the given number.
\<close>

theorem scan_accepts:
  "rejectJSONMembersWithLimits data maxDepth maxNodes = Inr () \<longleftrightarrow>
   (\<exists>v. parseJson data = Some v \<and> plainJson maxDepth v \<and> jnodes v \<le> maxNodes)"
  by (rule reject_iff)

end
