(* ===== verification/Validation.thy ===== *)
theory Validation
  imports Json_Scan
begin

text \<open>
  The verdict that the readers of a provider connection share, the rest of
  \<^verbatim>\<open>internal/client/json_validation.go\<close>: the first failure, and the JSON-RPC errors of the provider with
  the original bytes of their data, by the canonical text of the request identifier.
\<close>

datatype client_error =
  LimitExceeded | JSONInvalid scan_error | EndOfFile | ReadFault string | EventOverflow | MarshalFailed | ContextDone | TransportError string

record ProviderRPCError =
  re_code :: int
  re_message :: string
  re_data :: string

text \<open>\<^verbatim>\<open>done\<close> is closed when the error is set; a nil validation is \<^const>\<open>None\<close>.\<close>

record responseValidation =
  rv_err :: "client_error option"
  rv_rpcErrors :: "(string, ProviderRPCError) gomap"

definition newResponseValidation :: responseValidation where
  "newResponseValidation = \<lparr>rv_err = None, rv_rpcErrors = []\<rparr>"

definition fail_validation :: "client_error \<Rightarrow> responseValidation option \<Rightarrow> responseValidation option" where
  "fail_validation e v = map_option (\<lambda>w. if rv_err w = None then w\<lparr>rv_err := Some e\<rparr> else w) v"

definition maxProviderJSONDepth :: int where "maxProviderJSONDepth = 128"
definition maxProviderJSONNodes :: int where "maxProviderJSONNodes = 1048576"

definition RejectDuplicateJSONMembers :: "string \<Rightarrow> scan_error + unit" where
  "RejectDuplicateJSONMembers data = rejectJSONMembersWithLimits data maxProviderJSONDepth maxProviderJSONNodes"

section \<open>Raw members\<close>

text \<open>\<^verbatim>\<open>json.RawMessage\<close>: the members of an object with the bytes of their values.\<close>

definition rawText :: "string \<Rightarrow> string \<Rightarrow> string" where
  "rawText s rest = take (length (skipws s) - length rest) (skipws s)"

fun rawMembers :: "nat \<Rightarrow> string \<Rightarrow> (string \<times> string) list option" where
  "rawMembers 0 s = None"
| "rawMembers (Suc n) s =
     (case skipws s of [] \<Rightarrow> None
      | q # s' \<Rightarrow>
        if q \<noteq> CHR 0x22 then None
        else case parseStr (Suc (length s')) s' of None \<Rightarrow> None
        | Some (k, t) \<Rightarrow>
          (case skipws t of [] \<Rightarrow> None
           | c # u \<Rightarrow>
             if c \<noteq> CHR '':'' then None
             else case parseValue (2 * length u + 2) u of None \<Rightarrow> None
             | Some (v, x) \<Rightarrow>
               (case skipws x of [] \<Rightarrow> None
                | d # y \<Rightarrow>
                  if d = CHR ''}'' then Some [(k, rawText u x)]
                  else if d = CHR '','' then map_option ((#) (k, rawText u x)) (rawMembers n y)
                  else None)))"

definition rawObject :: "string \<Rightarrow> (string \<times> string) list option" where
  "rawObject s =
     (case skipws s of [] \<Rightarrow> None
      | c # t \<Rightarrow>
        if c \<noteq> CHR ''{'' then None
        else if hasPrefix (skipws t) ''}'' then Some [] else rawMembers (Suc (length t)) t)"

text \<open>Decoding an object into a struct with raw members: names match up to ASCII case, later members win.\<close>

fun decodeRaw :: "(string \<Rightarrow> string \<Rightarrow> 'a \<Rightarrow> 'a option) \<Rightarrow> (string \<times> string) list \<Rightarrow> 'a \<Rightarrow> 'a option" where
  "decodeRaw step [] x = Some x"
| "decodeRaw step ((k, v) # ms) x = Option.bind (step (map lowerByte k) v x) (decodeRaw step ms)"

definition decodeRawStruct :: "(string \<Rightarrow> string \<Rightarrow> 'a \<Rightarrow> 'a option) \<Rightarrow> 'a \<Rightarrow> string \<Rightarrow> 'a option" where
  "decodeRawStruct step zero s =
     (case parseJson s of
        Some (JObj _) \<Rightarrow> Option.bind (rawObject s) (\<lambda>ms. decodeRaw step ms zero)
      | Some JNull \<Rightarrow> Some zero
      | _ \<Rightarrow> None)"

text \<open>\<^verbatim>\<open>json.Compact\<close>: the text of a value without the white space outside of its strings.\<close>

fun compactText :: "bool \<Rightarrow> string \<Rightarrow> string" where
  "compactText inString [] = []"
| "compactText False (c # s) =
     (if is_ws c then compactText False s else c # compactText (c = CHR 0x22) s)"
| "compactText True (c # s) =
     (if c = CHR 0x5C then (case s of [] \<Rightarrow> [c] | d # t \<Rightarrow> c # d # compactText True t)
      else c # compactText (c \<noteq> CHR 0x22) s)"

definition canonicalJSON :: "string \<Rightarrow> string option" where
  "canonicalJSON data = (if parseJson data = None then None else Some (compactText False data))"

section \<open>JSON-RPC errors of the provider\<close>

record rpcEnvelope =
  ev_id :: string
  ev_error :: "ProviderRPCError option"

definition zeroRPCError :: ProviderRPCError where
  "zeroRPCError = \<lparr>re_code = 0, re_message = [], re_data = []\<rparr>"

definition rpcErrorField :: "string \<Rightarrow> string \<Rightarrow> ProviderRPCError \<Rightarrow> ProviderRPCError option" where
  "rpcErrorField k raw e =
     (if k = ''code'' then
        (case parseJson raw of Some JNull \<Rightarrow> Some e
         | Some (JNum s) \<Rightarrow> map_option (\<lambda>i. e\<lparr>re_code := i\<rparr>) (parseInt64 s) | _ \<Rightarrow> None)
      else if k = ''message'' then
        (case parseJson raw of Some JNull \<Rightarrow> Some e | Some (JStr s) \<Rightarrow> Some (e\<lparr>re_message := s\<rparr>) | _ \<Rightarrow> None)
      else if k = ''data'' then Some (e\<lparr>re_data := raw\<rparr>)
      else Some e)"

definition envelopeField :: "string \<Rightarrow> string \<Rightarrow> rpcEnvelope \<Rightarrow> rpcEnvelope option" where
  "envelopeField k raw e =
     (if k = ''id'' then Some (e\<lparr>ev_id := raw\<rparr>)
      else if k = ''error'' then
        (if parseJson raw = Some JNull then Some (e\<lparr>ev_error := None\<rparr>)
         else map_option (\<lambda>x. e\<lparr>ev_error := Some x\<rparr>)
                (decodeRawStruct rpcErrorField (case ev_error e of None \<Rightarrow> zeroRPCError | Some x \<Rightarrow> x) raw))
      else Some e)"

definition recordRPCError :: "string \<Rightarrow> responseValidation option \<Rightarrow> responseValidation option" where
  "recordRPCError data v =
     (case v of None \<Rightarrow> None
      | Some w \<Rightarrow>
        (case decodeRawStruct envelopeField \<lparr>ev_id = [], ev_error = None\<rparr> data of None \<Rightarrow> v
         | Some env \<Rightarrow>
           (case ev_error env of None \<Rightarrow> v
            | Some rpcErr \<Rightarrow>
              if ev_id env = [] then v
              else case canonicalJSON (ev_id env) of None \<Rightarrow> v
              | Some key \<Rightarrow> Some (w\<lparr>rv_rpcErrors := put key rpcErr (rv_rpcErrors w)\<rparr>))))"

text \<open>\<open>encoded\<close> is \<^verbatim>\<open>json.Marshal\<close> of the response's identifier.\<close>

definition takeRPCError :: "string option \<Rightarrow> responseValidation option \<Rightarrow> ProviderRPCError option \<times> responseValidation option" where
  "takeRPCError encoded v =
     (case v of None \<Rightarrow> (None, v)
      | Some w \<Rightarrow>
        (case Option.bind encoded canonicalJSON of None \<Rightarrow> (None, v)
         | Some key \<Rightarrow> (get (rv_rpcErrors w) key, Some (w\<lparr>rv_rpcErrors := del key (rv_rpcErrors w)\<rparr>))))"

section \<open>One message\<close>

definition looksLikeJSON :: "string \<Rightarrow> bool" where
  "looksLikeJSON trimmed = (case trimmed of [] \<Rightarrow> False | c # t \<Rightarrow> c = CHR ''{'' \<or> c = CHR ''['')"

definition validateJSONMessage :: "string \<Rightarrow> responseValidation option \<Rightarrow> client_error option \<times> responseValidation option" where
  "validateJSONMessage data v =
     (let trimmed = trimFunc isSpace data
      in if \<not> looksLikeJSON trimmed then (None, v)
         else case RejectDuplicateJSONMembers trimmed of
                Inl e \<Rightarrow> (Some (JSONInvalid e), fail_validation (JSONInvalid e) v)
              | Inr _ \<Rightarrow> (None, recordRPCError trimmed v))"

end
