(* ===== verification/Frames.thy ===== *)
theory Frames
  imports Validation "HOL-Library.Sublist"
begin

text \<open>
  Readers that hand out a byte stream frame by frame: a frame is fetched whole, checked, and only then copied
  into the buffers of the caller.  The stdio and event-stream readers of \<^verbatim>\<open>internal/client/response_limit.go\<close>
  and the request reader of \<^verbatim>\<open>internal/server/protocol_validation.go\<close> share this \<^verbatim>\<open>Read\<close>; what a caller
  gets from it depends on the frames only, whatever buffers are passed.
\<close>

record 's framed =
  fr_source :: 's
  fr_pending :: string
  fr_pendingErr :: "client_error option"

type_synonym 's fetch = "'s \<Rightarrow> (string \<times> client_error option) \<times> 's"

definition newFramed :: "'s \<Rightarrow> 's framed" where
  "newFramed s = \<lparr>fr_source = s, fr_pending = [], fr_pendingErr = None\<rparr>"

text \<open>\<open>copyOut k\<close> copies as much of the pending frame as fits into a buffer of \<open>k\<close> bytes.\<close>

definition copyOut :: "nat \<Rightarrow> 's framed \<Rightarrow> (string \<times> client_error option) \<times> 's framed" where
  "copyOut k r = ((take k (fr_pending r), None), r\<lparr>fr_pending := drop k (fr_pending r)\<rparr>)"

definition ReadFramed :: "'s fetch \<Rightarrow> nat \<Rightarrow> 's framed \<Rightarrow> (string \<times> client_error option) \<times> 's framed" where
  "ReadFramed fetch k r =
     (if k = 0 then (([], None), r)
      else if fr_pending r = [] then
        (case fr_pendingErr r of
           Some e \<Rightarrow> (([], Some e), r\<lparr>fr_pendingErr := None\<rparr>)
         | None \<Rightarrow>
           (case fetch (fr_source r) of ((frame, err), s) \<Rightarrow>
              if frame = [] then (([], err), r\<lparr>fr_source := s\<rparr>)
              else copyOut k (r\<lparr>fr_source := s, fr_pending := frame, fr_pendingErr := err\<rparr>)))
      else copyOut k r)"

text \<open>A caller that reads with buffers of the sizes \<open>ks\<close> until the first error: its bytes, the error and the source then.\<close>

fun readAll :: "'s fetch \<Rightarrow> nat list \<Rightarrow> 's framed \<Rightarrow> string \<times> client_error option \<times> 's" where
  "readAll fetch [] r = ([], None, fr_source r)"
| "readAll fetch (k # ks) r =
     (case ReadFramed fetch k r of
        ((b, Some e), r') \<Rightarrow> (b, Some e, fr_source r')
      | ((b, None), r') \<Rightarrow> (case readAll fetch ks r' of (bs, e, s) \<Rightarrow> (b @ bs, e, s)))"

locale frame_source =
  fixes fetch :: "'s fetch" and rank :: "'s \<Rightarrow> nat"
  assumes productive: "fetch s = (([], e), s') \<Longrightarrow> e \<noteq> None"
    and progress: "fetch s = ((frame, None), s') \<Longrightarrow> rank s' < rank s"
begin

text \<open>Everything the source delivers, the error it ends with and its state at the end.\<close>

function delivered :: "'s \<Rightarrow> string \<times> client_error \<times> 's" where
  "delivered s =
     (case fetch s of ((frame, None), s') \<Rightarrow> (case delivered s' of (d, e, t) \<Rightarrow> (frame @ d, e, t))
      | ((frame, Some e), s') \<Rightarrow> (frame, e, s'))"
  by pat_completeness auto
termination
  by (relation "measure rank") (auto dest: progress [OF sym])

declare delivered.simps [simp del]

definition view :: "'s framed \<Rightarrow> string \<times> client_error \<times> 's" where
  "view r =
     (case fr_pendingErr r of Some e \<Rightarrow> (fr_pending r, e, fr_source r)
      | None \<Rightarrow> (case delivered (fr_source r) of (d, e, t) \<Rightarrow> (fr_pending r @ d, e, t)))"

lemma view_new [simp]: "view (newFramed s) = delivered s"
  by (simp add: view_def newFramed_def split: prod.splits)

lemma copyOut_view:
  "0 < k \<Longrightarrow> fr_pending r \<noteq> [] \<Longrightarrow> copyOut k r = ((b, e), r') \<Longrightarrow>
   e = None \<and> b \<noteq> [] \<and> view r = (b @ fst (view r'), snd (view r'))"
  by (auto simp: copyOut_def view_def split: option.splits prod.splits)

lemma Read_view:
  assumes "0 < k" "ReadFramed fetch k r = ((b, e), r')"
  shows "case e of None \<Rightarrow> b \<noteq> [] \<and> view r = (b @ fst (view r'), snd (view r')) | Some x \<Rightarrow> b = [] \<and> view r = ([], x, fr_source r')"
proof (cases "fr_pending r = [] \<and> fr_pendingErr r = None")
  case True
  obtain frame err s where f: "fetch (fr_source r) = ((frame, err), s)" by (metis prod.exhaust)
  show ?thesis
  proof (cases "frame = []")
    case True': True
    then obtain x where "err = Some x" using productive f by blast
    then show ?thesis using assms True True' f
      by (auto simp: ReadFramed_def view_def delivered.simps [of "fr_source r"])
  next
    case False
    have "view r = view (r\<lparr>fr_source := s, fr_pending := frame, fr_pendingErr := err\<rparr>)"
      using True f by (auto simp: view_def delivered.simps [of "fr_source r"] split: option.splits prod.splits)
    then show ?thesis
      using copyOut_view [of k "r\<lparr>fr_source := s, fr_pending := frame, fr_pendingErr := err\<rparr>" b e r'] assms True False f
      by (auto simp: ReadFramed_def)
  qed
next
  case False
  then consider "fr_pending r \<noteq> []" | x where "fr_pending r = []" "fr_pendingErr r = Some x" by auto
  then show ?thesis
  proof cases
    case 1
    then show ?thesis using assms copyOut_view [of k r b e r'] by (simp add: ReadFramed_def)
  next
    case 2
    then have "b = []" "e = Some x" "fr_source r' = fr_source r" using assms by (auto simp: ReadFramed_def)
    then show ?thesis using 2 by (simp add: view_def)
  qed
qed

text \<open>With buffers that are not empty the caller gets the delivered bytes in order, then the error and nothing else.\<close>

lemma readAll_view:
  assumes "\<forall>k \<in> set ks. 0 < k" "readAll fetch ks r = (out, e, t)"
  shows "prefix out (fst (view r))" "e = Some x \<Longrightarrow> view r = (out, x, t)" "length (fst (view r)) < length ks \<Longrightarrow> e \<noteq> None"
  using assms
proof (induction ks arbitrary: r out e t)
  case (Cons k ks)
  {
    case 1
    show ?case using Cons.IH(1) 1 Read_view [of k r] by (fastforce split: prod.splits option.splits)
  next
    case 2
    show ?case using Cons.IH(2) 2 Read_view [of k r] by (fastforce split: prod.splits option.splits)
  next
    case 3
    obtain b err r' where R: "ReadFramed fetch k r = ((b, err), r')" by (metis prod.exhaust)
    show ?case
    proof (cases err)
      case None
      obtain bs e' t' where rest: "readAll fetch ks r' = (bs, e', t')" by (metis prod.exhaust)
      have "b \<noteq> []" "view r = (b @ fst (view r'), snd (view r'))" using Read_view [OF _ R] 3 None by auto
      then have "length (fst (view r')) < length ks" using 3(1) by (cases b) auto
      then show ?thesis using Cons.IH(3) [OF _ _ rest] 3 R None rest by auto
    qed (use 3 R in auto)
  }
qed auto

text \<open>The state of a source that keeps an accumulating relation to where it started.\<close>

lemma delivered_keeps:
  assumes "delivered s = (out, e, t)" "R s s" "\<And>a b c f x. R a b \<Longrightarrow> fetch b = ((f, x), c) \<Longrightarrow> R a c"
  shows "R s t"
proof -
  have "R s b \<Longrightarrow> delivered b = (out', e, t) \<Longrightarrow> R s t" for b out'
  proof (induction b arbitrary: out' rule: delivered.induct)
    case (1 b)
    obtain f x c where f: "fetch b = ((f, x), c)" by (metis prod.exhaust)
    then have "R s c" using assms(3) 1(2) by blast
    then show ?case using 1 f by (cases x) (fastforce simp: delivered.simps [of b] split: prod.splits)+
  qed
  then show ?thesis using assms(1,2) by blast
qed

end

text \<open>
  A source whose input splits into frames that are passed on or refused: the first refused frame ends the
  delivery.  \<open>final\<close> is the error at the end of the input.
\<close>

definition stops :: "('f \<Rightarrow> client_error \<Rightarrow> bool) \<Rightarrow> client_error \<Rightarrow> 'f list \<Rightarrow> client_error \<Rightarrow> bool" where
  "stops refusal endErr refused e = (case refused of [] \<Rightarrow> e = endErr | f # _ \<Rightarrow> refusal f e)"

locale checked_frames = frame_source fetch rank for fetch :: "'s fetch" and rank :: "'s \<Rightarrow> nat" +
  fixes frames :: "'s \<Rightarrow> 'f list" and bytes_of :: "'f \<Rightarrow> string" and good :: "'f \<Rightarrow> bool"
    and refusal :: "'f \<Rightarrow> client_error \<Rightarrow> bool" and final :: "'s \<Rightarrow> client_error"
  assumes nothing_left: "frames s = [] \<Longrightarrow> \<exists>s'. fetch s = (([], Some (final s)), s')"
    and refused: "frames s = f # fs \<Longrightarrow> \<not> good f \<Longrightarrow> \<exists>e s'. fetch s = (([], Some e), s') \<and> refusal f e"
    and passed: "frames s = f # fs \<Longrightarrow> good f \<Longrightarrow>
      (\<exists>s'. fetch s = ((bytes_of f, None), s') \<and> frames s' = fs \<and> final s' = final s) \<or>
      (\<exists>s'. fetch s = ((bytes_of f, Some (final s)), s') \<and> fs = [])"
begin

lemma delivered_frames:
  "delivered s = (out, e, t) \<Longrightarrow>
   out = concat (map bytes_of (takeWhile good (frames s))) \<and> stops refusal (final s) (dropWhile good (frames s)) e"
proof (induction s arbitrary: out e t rule: delivered.induct)
  case (1 s)
  show ?case
  proof (cases "frames s")
    case Nil
    then show ?thesis using nothing_left [OF Nil] 1(2) by (auto simp: delivered.simps [of s] stops_def)
  next
    case (Cons f fs)
    show ?thesis
    proof (cases "good f")
      case True
      from passed [OF Cons True] show ?thesis
      proof
        assume "\<exists>s'. fetch s = ((bytes_of f, None), s') \<and> frames s' = fs \<and> final s' = final s"
        then obtain s' where s': "fetch s = ((bytes_of f, None), s')" "frames s' = fs" "final s' = final s" by blast
        obtain d x t' where d: "delivered s' = (d, x, t')" by (metis prod.exhaust)
        have IH: "d = concat (map bytes_of (takeWhile good (frames s'))) \<and> stops refusal (final s') (dropWhile good (frames s')) x"
          using 1(1) [OF s'(1) [symmetric] refl refl d] by blast
        then show ?thesis using 1(2) s' d Cons True by (simp add: delivered.simps [of s])
      next
        assume "\<exists>s'. fetch s = ((bytes_of f, Some (final s)), s') \<and> fs = []"
        then show ?thesis using 1(2) Cons True by (auto simp: delivered.simps [of s] stops_def)
      qed
    next
      case False
      then show ?thesis using refused [OF Cons False] 1(2) Cons by (auto simp: delivered.simps [of s] stops_def)
    qed
  qed
qed

text \<open>A caller with enough buffers that are not empty gets exactly the frames before the first refused one.\<close>

lemma readAll_frames:
  assumes "\<forall>k \<in> set ks. 0 < k" "length (concat (map bytes_of (takeWhile good (frames s)))) < length ks"
  shows "\<exists>e t. readAll fetch ks (newFramed s) = (concat (map bytes_of (takeWhile good (frames s))), Some e, t) \<and>
    stops refusal (final s) (dropWhile good (frames s)) e"
proof -
  obtain out e t where r: "readAll fetch ks (newFramed s) = (out, e, t)" by (metis prod.exhaust)
  obtain d x t' where d: "delivered s = (d, x, t')" by (metis prod.exhaust)
  note df = delivered_frames [OF d]
  have "e \<noteq> None" using readAll_view(3) [OF assms(1) r] assms(2) df d by simp
  then obtain y where y: "e = Some y" by blast
  then have "delivered s = (out, y, t)" using readAll_view(2) [OF assms(1) r] by simp
  then show ?thesis using df d r y by simp
qed

end

end
