(* ===== verification/Response_Limit.thy ===== *)
theory Response_Limit
  imports Frames
begin

text \<open>
  The readers that bound and check what a provider sends, \<^verbatim>\<open>internal/client/response_limit.go\<close>: one line of
  its standard output, one server-sent event or one HTTP body at a time.

  A stream is the bytes the provider still sends and the error that follows them (\<open>EndOfFile\<close> at its end).
  \<open>src_closed\<close> says that the reader closed the body, \<open>src_limit\<close> that it gave the limit signal.
\<close>

record stream =
  src_rest :: string
  src_err :: client_error
  src_closed :: bool
  src_limit :: bool
  src_validation :: "responseValidation option"

definition LF :: char where "LF = CHR 0x0A"
definition CR :: char where "CR = CHR 0x0D"

section \<open>Server-sent events\<close>

datatype scanned = Complete string string | Cut string | TooBig string

fun readEventLoop :: "int \<Rightarrow> bool \<Rightarrow> string \<Rightarrow> string \<Rightarrow> scanned" where
  "readEventLoop maxBytes atLineStart event [] = Cut event"
| "readEventLoop maxBytes atLineStart event (c # rest) =
     (if int (length event) = maxBytes then TooBig rest
      else if c \<noteq> CR \<and> c \<noteq> LF then readEventLoop maxBytes False (event @ [c]) rest
      else case (c, rest) of
        (_, d # rest') \<Rightarrow>
          if c = CR \<and> d = LF then
            (if int (length event) + 1 = maxBytes then TooBig rest
             else if atLineStart then Complete (event @ [c, d]) rest'
             else readEventLoop maxBytes True (event @ [c, d]) rest')
          else if atLineStart then Complete (event @ [c]) rest
          else readEventLoop maxBytes True (event @ [c]) rest
      | (_, []) \<Rightarrow> if atLineStart then Complete (event @ [c]) rest else readEventLoop maxBytes True (event @ [c]) rest)"

text \<open>\<^verbatim>\<open>bytes.ReplaceAll\<close> of the line ends: first of the pairs, then of the single carriage returns.\<close>

fun replaceCRLF :: "string \<Rightarrow> string" where
  "replaceCRLF (c # d # s) = (if c = CR \<and> d = LF then LF # replaceCRLF s else c # replaceCRLF (d # s))"
| "replaceCRLF s = s"

definition replaceCR :: "string \<Rightarrow> string" where
  "replaceCR s = map (\<lambda>c. if c = CR then LF else c) s"

fun dataLines :: "string list \<Rightarrow> string list" where
  "dataLines [] = []"
| "dataLines (line # ls) =
     (if \<not> hasPrefix line ''data:'' then dataLines ls
      else (let d = trimPrefix line ''data:'' in if hasPrefix d '' '' then tl d else d) # dataLines ls)"

definition eventData :: "string \<Rightarrow> string" where
  "eventData event = joinWith LF (dataLines (splitOn LF (replaceCR (replaceCRLF event))))"

definition validateSSEEvent :: "string \<Rightarrow> responseValidation option \<Rightarrow> client_error option \<times> responseValidation option" where
  "validateSSEEvent event v = validateJSONMessage (eventData event) v"

definition readEvent :: "int \<Rightarrow> stream fetch" where
  "readEvent maxBytes b =
     (case readEventLoop maxBytes True [] (src_rest b) of
        Cut event \<Rightarrow> ((event, Some (src_err b)), b\<lparr>src_rest := []\<rparr>)
      | TooBig rest \<Rightarrow> (([], Some LimitExceeded), b\<lparr>src_rest := rest, src_closed := True\<rparr>)
      | Complete event rest \<Rightarrow>
        (case validateSSEEvent event (src_validation b) of
           (Some e, v) \<Rightarrow> (([], Some e), b\<lparr>src_rest := rest, src_closed := True, src_validation := v\<rparr>)
         | (None, v) \<Rightarrow> ((event, None), b\<lparr>src_rest := rest, src_validation := v\<rparr>)))"

definition sse_Read :: "int \<Rightarrow> nat \<Rightarrow> stream framed \<Rightarrow> (string \<times> client_error option) \<times> stream framed" where
  "sse_Read maxBytes = ReadFramed (readEvent maxBytes)"

section \<open>Lines of standard output\<close>

text \<open>\<^verbatim>\<open>bufio.Reader.ReadSlice\<close> with the default buffer of 4096 bytes.\<close>

datatype sliceEnd = Delimited | BufferFull | SliceError

definition bufferSize :: nat where "bufferSize = 4096"

definition readSlice :: "string \<Rightarrow> string \<times> sliceEnd \<times> string" where
  "readSlice s =
     (let buffer = take bufferSize s; n = length (takeWhile (\<lambda>c. c \<noteq> LF) buffer)
      in if n < length buffer then (take (Suc n) s, Delimited, drop (Suc n) s)
         else if length s \<ge> bufferSize then (buffer, BufferFull, drop bufferSize s)
         else (s, SliceError, []))"

function readLineLoop :: "int \<Rightarrow> string \<Rightarrow> string \<Rightarrow> scanned" where
  "readLineLoop maxBytes line s =
     (case readSlice s of (fragment, e, rest) \<Rightarrow>
        if int (length line) + int (length fragment) > maxBytes then TooBig rest
        else case e of
          Delimited \<Rightarrow> Complete (line @ fragment) rest
        | BufferFull \<Rightarrow> readLineLoop maxBytes (line @ fragment) rest
        | SliceError \<Rightarrow> Cut (line @ fragment))"
  by pat_completeness auto
termination
  by (relation "measure (\<lambda>(_, _, s). length s)") (auto simp: readSlice_def bufferSize_def Let_def split: if_splits)

declare readLineLoop.simps [simp del]

definition validateLine :: "string \<Rightarrow> client_error option \<Rightarrow> responseValidation option \<Rightarrow> (string \<times> client_error option) \<times> responseValidation option" where
  "validateLine line readErr v =
     (if line = [] then ((line, readErr), v)
      else case validateJSONMessage line v of
        (Some e, v') \<Rightarrow> (([], Some e), v')
      | (None, v') \<Rightarrow> ((line, readErr), v'))"

definition readLine :: "int \<Rightarrow> stream fetch" where
  "readLine maxBytes r =
     (case readLineLoop maxBytes [] (src_rest r) of
        TooBig rest \<Rightarrow> (([], Some LimitExceeded), r\<lparr>src_rest := rest, src_limit := True\<rparr>)
      | Complete line rest \<Rightarrow>
        (case validateLine line None (src_validation r) of (x, v) \<Rightarrow> (x, r\<lparr>src_rest := rest, src_validation := v\<rparr>))
      | Cut line \<Rightarrow>
        (case validateLine line (Some (src_err r)) (src_validation r) of (x, v) \<Rightarrow> (x, r\<lparr>src_rest := [], src_validation := v\<rparr>)))"

definition line_Read :: "int \<Rightarrow> nat \<Rightarrow> stream framed \<Rightarrow> (string \<times> client_error option) \<times> stream framed" where
  "line_Read maxBytes = ReadFramed (readLine maxBytes)"

section \<open>A whole body\<close>

record limitedBody =
  lb_stream :: stream
  lb_loaded :: bool
  lb_pending :: string
  lb_pendingErr :: "client_error option"

definition newResponseLimitedBody :: "stream \<Rightarrow> limitedBody" where
  "newResponseLimitedBody s = \<lparr>lb_stream = s, lb_loaded = False, lb_pending = [], lb_pendingErr = None\<rparr>"

text \<open>\<^verbatim>\<open>io.ReadAll(io.LimitReader(body, n))\<close>: the error of the stream counts only when it is met before \<open>n\<close> bytes.\<close>

definition readLimited :: "int \<Rightarrow> stream \<Rightarrow> (client_error + string) \<times> stream" where
  "readLimited n s =
     (if n \<le> 0 then (Inr [], s)
      else if int (length (src_rest s)) \<ge> n then (Inr (take (nat n) (src_rest s)), s\<lparr>src_rest := drop (nat n) (src_rest s)\<rparr>)
      else (if src_err s = EndOfFile then Inr (src_rest s) else Inl (src_err s), s\<lparr>src_rest := []\<rparr>))"

definition load_body :: "int \<Rightarrow> limitedBody \<Rightarrow> limitedBody" where
  "load_body maxBytes b =
     (case readLimited (add64 maxBytes 1) (lb_stream b) of
        (Inl e, s) \<Rightarrow> b\<lparr>lb_loaded := True, lb_stream := s, lb_pendingErr := Some e\<rparr>
      | (Inr data, s) \<Rightarrow>
        if int (length data) > maxBytes then
          b\<lparr>lb_loaded := True, lb_stream := s\<lparr>src_closed := True\<rparr>, lb_pendingErr := Some LimitExceeded\<rparr>
        else case validateJSONMessage data (src_validation s) of
          (Some e, v) \<Rightarrow>
            b\<lparr>lb_loaded := True, lb_stream := s\<lparr>src_closed := True, src_validation := v\<rparr>, lb_pendingErr := Some e\<rparr>
        | (None, v) \<Rightarrow> b\<lparr>lb_loaded := True, lb_stream := s\<lparr>src_validation := v\<rparr>, lb_pending := data\<rparr>)"

definition body_Read :: "int \<Rightarrow> nat \<Rightarrow> limitedBody \<Rightarrow> (string \<times> client_error option) \<times> limitedBody" where
  "body_Read maxBytes k b0 =
     (if k = 0 then (([], None), b0)
      else let b = (if lb_loaded b0 then b0 else load_body maxBytes b0)
           in if lb_pending b \<noteq> [] then ((take k (lb_pending b), None), b\<lparr>lb_pending := drop k (lb_pending b)\<rparr>)
              else case lb_pendingErr b of
                Some e \<Rightarrow> (([], Some e), b\<lparr>lb_pendingErr := None\<rparr>)
              | None \<Rightarrow> (([], Some EndOfFile), b))"

section \<open>Responses\<close>

text \<open>A response of the server, with the media type of its content type.\<close>

record httpResponse =
  rs_mediaType :: string
  rs_contentLength :: int
  rs_body :: stream

datatype boundedBody = EventBody "stream framed" | WholeBody limitedBody

text \<open>The second component is the body of a refused response, which is closed.\<close>

definition roundTrip :: "int \<Rightarrow> client_error + httpResponse \<Rightarrow> (client_error + boundedBody) \<times> stream option" where
  "roundTrip maxBytes response =
     (case response of
        Inl e \<Rightarrow> (Inl e, None)
      | Inr r \<Rightarrow>
        if rs_mediaType r = ''text/event-stream'' then (Inr (EventBody (newFramed (rs_body r))), None)
        else if rs_contentLength r > maxBytes then (Inl LimitExceeded, Some ((rs_body r)\<lparr>src_closed := True\<rparr>))
        else (Inr (WholeBody (newResponseLimitedBody (rs_body r))), None))"

end
