(* ===== verification/Response_Limit_Lines.thy ===== *)
theory Response_Limit_Lines
  imports Response_Limit
begin

text \<open>The lines of a text as the readers of \<^verbatim>\<open>bufio\<close> deliver them.\<close>

definition firstLine :: "string \<Rightarrow> string" where
  "firstLine s = takeWhile (\<lambda>c. c \<noteq> LF) s @ (if LF \<in> set s then [LF] else [])"

definition otherLines :: "string \<Rightarrow> string" where
  "otherLines s = drop (length (firstLine s)) s"

lemma first_other: "firstLine s @ otherLines s = s"
  by (induction s) (auto simp: firstLine_def otherLines_def)

lemma otherLines_less: "firstLine s \<noteq> [] \<Longrightarrow> length (otherLines s) < length s"
  by (metis add_less_same_cancel2 first_other length_append length_greater_0_conv less_add_same_cancel2)

lemma firstLine_append: "LF \<notin> set a \<Longrightarrow> firstLine (a @ s) = a @ firstLine s \<and> otherLines (a @ s) = otherLines s"
  by (auto simp: firstLine_def otherLines_def takeWhile_append)

lemma firstLine_no: "LF \<notin> set s \<Longrightarrow> firstLine s = s \<and> otherLines s = []"
proof -
  assume "LF \<notin> set s"
  moreover from this have "takeWhile (\<lambda>c. c \<noteq> LF) s = s" by (auto simp: takeWhile_eq_all_conv)
  ultimately show ?thesis by (simp add: firstLine_def otherLines_def del: takeWhile_eq_all_conv)
qed

lemma firstLine_cut: "a = takeWhile (\<lambda>c. c \<noteq> LF) s \<Longrightarrow> length a < length s \<Longrightarrow> firstLine s = take (Suc (length a)) s \<and> otherLines s = drop (Suc (length a)) s \<and> LF \<in> set s"
proof (induction s arbitrary: a)
  case (Cons c s)
  then show ?case by (cases "c = LF") (auto simp: firstLine_def otherLines_def)
qed simp

lemma length_firstLine: "s \<noteq> [] \<Longrightarrow> firstLine s \<noteq> []"
  by (cases s) (auto simp: firstLine_def)

text \<open>The lines of a text, each with its line feed; only the last one may have none.\<close>

function splitLines :: "string \<Rightarrow> string list" where
  "splitLines s = (if s = [] then [] else firstLine s # splitLines (otherLines s))"
  by pat_completeness auto
termination
  by (relation "measure length") (auto simp: otherLines_def length_firstLine)

declare splitLines.simps [simp del]

lemma splitLines_Nil [simp]: "splitLines [] = []"
  by (simp add: splitLines.simps)

lemma splitLines_ne: "s \<noteq> [] \<Longrightarrow> splitLines s = firstLine s # splitLines (otherLines s)"
  by (simp add: splitLines.simps)

lemma concat_splitLines: "concat (splitLines s) = s"
  by (induction s rule: splitLines.induct) (simp add: splitLines.simps first_other)

end
