(* ===== verification/Response_Limit_Props.thy ===== *)
theory Response_Limit_Props
  imports Response_Limit Response_Limit_Lines Json_Scan_Props
begin

text \<open>What the readers of a provider connection deliver, as a function of what the provider sends.\<close>

section \<open>Messages\<close>

definition messageOk :: "string \<Rightarrow> bool" where
  "messageOk data \<longleftrightarrow>
     (let t = trimFunc isSpace data
      in looksLikeJSON t \<longrightarrow> (\<exists>v. parseJson t = Some v \<and> plainJson maxProviderJSONDepth v \<and> jnodes v \<le> maxProviderJSONNodes))"

lemma validate_cases:
  obtains (accepted) v' where "messageOk data" "validateJSONMessage data v = (None, v')"
  | (rejected) e where "\<not> messageOk data" "validateJSONMessage data v = (Some (JSONInvalid e), fail_validation (JSONInvalid e) v)"
proof -
  define t where "t = trimFunc isSpace data"
  have r: "RejectDuplicateJSONMembers t = Inr () \<longleftrightarrow>
      (\<exists>v. parseJson t = Some v \<and> plainJson maxProviderJSONDepth v \<and> jnodes v \<le> maxProviderJSONNodes)"
    by (simp add: RejectDuplicateJSONMembers_def reject_iff)
  consider "\<not> looksLikeJSON t" | "looksLikeJSON t" "RejectDuplicateJSONMembers t = Inr ()"
    | e where "looksLikeJSON t" "RejectDuplicateJSONMembers t = Inl e"
    by (cases "RejectDuplicateJSONMembers t") auto
  then show thesis
  proof cases
    case 1
    then show ?thesis using accepted by (simp add: messageOk_def validateJSONMessage_def t_def)
  next
    case 2
    then show ?thesis using accepted r by (simp add: messageOk_def validateJSONMessage_def t_def)
  next
    case 3
    then have "RejectDuplicateJSONMembers t \<noteq> Inr ()" by simp
    then show ?thesis using rejected 3 r by (simp add: messageOk_def validateJSONMessage_def t_def)
  qed
qed

section \<open>Lines\<close>

lemma takeWhile_take_le: "length (takeWhile P (take n s)) < length (take n s) \<Longrightarrow> takeWhile P (take n s) = takeWhile P s"
proof (induction s arbitrary: n)
  case (Cons a s)
  show ?case
  proof (cases n)
    case (Suc m)
    then show ?thesis using Cons.IH [of m] Cons.prems by (cases "P a") (simp_all only: take_Suc_Cons takeWhile.simps length_Cons if_True if_False Suc_less_eq)
  qed (use Cons.prems in simp)
qed simp

lemma readSlice_cases:
  obtains (delimited) "readSlice s = (firstLine s, Delimited, otherLines s)" "LF \<in> set s"
  | (full) a where "readSlice s = (a, BufferFull, drop (length a) s)" "LF \<notin> set a" "s = a @ drop (length a) s" "a \<noteq> []"
  | (short) "readSlice s = (s, SliceError, [])" "LF \<notin> set s"
proof -
  define b where "b = take bufferSize s"
  define w where "w = takeWhile (\<lambda>c. c \<noteq> LF) b"
  consider "length w < length b" | "\<not> length w < length b" "length s \<ge> bufferSize" | "\<not> length w < length b" "length s < bufferSize" by linarith
  then show thesis
  proof cases
    case 1
    then have w: "w = takeWhile (\<lambda>c. c \<noteq> LF) s" using takeWhile_take_le [of "\<lambda>c. c \<noteq> LF" bufferSize s] by (simp add: w_def b_def)
    moreover have "length w < length s" using 1 by (simp add: b_def)
    ultimately have "firstLine s = take (Suc (length w)) s" "otherLines s = drop (Suc (length w)) s" "LF \<in> set s"
      using firstLine_cut by blast+
    then show ?thesis using delimited 1 by (simp add: readSlice_def w_def b_def Let_def)
  next
    case 2
    then have "w = b" unfolding w_def by (metis length_takeWhile_le nth_equalityI linorder_neqE_nat not_le takeWhile_eq_take take_all)
    then have "LF \<notin> set b" unfolding w_def by (metis (mono_tags) set_takeWhileD)
    moreover have "b \<noteq> []" using 2 by (auto simp: b_def bufferSize_def)
    ultimately show ?thesis using full [of b] 2 by (simp add: readSlice_def w_def b_def min_def Let_def)
  next
    case 3
    then have "w = b" unfolding w_def by (metis length_takeWhile_le nth_equalityI linorder_neqE_nat not_le takeWhile_eq_take take_all)
    then have "LF \<notin> set b" unfolding w_def by (metis (mono_tags) set_takeWhileD)
    then show ?thesis using short 3 by (simp add: readSlice_def w_def b_def Let_def)
  qed
qed

text \<open>The fragments of the buffered reader do not matter: a line is refused exactly when it is too long.\<close>

lemma readLineLoop_line:
  "if int (length line + length (firstLine s)) \<le> maxBytes
   then readLineLoop maxBytes line s = (if LF \<in> set s then Complete (line @ firstLine s) (otherLines s) else Cut (line @ firstLine s))
   else \<exists>rest. readLineLoop maxBytes line s = TooBig rest"
proof (induction "length s" arbitrary: line s rule: less_induct)
  case less
  show ?case
  proof (cases s rule: readSlice_cases)
    case delimited
    then show ?thesis by (subst (1 2) readLineLoop.simps) auto
  next
    case (full a)
    then have "length (drop (length a) s) < length s" by (metis append_self_conv2 length_append length_greater_0_conv less_add_same_cancel2)
    note IH = less [OF this, of "line @ a"]
    have "firstLine s = a @ firstLine (drop (length a) s)" "otherLines s = otherLines (drop (length a) s)" "LF \<in> set s \<longleftrightarrow> LF \<in> set (drop (length a) s)"
      using firstLine_append [OF full(2), of "drop (length a) s"] full by (metis | metis Un_iff set_append)+
    then show ?thesis using IH full by (subst (1 2) readLineLoop.simps) (auto simp: add.assoc)
  next
    case short
    then show ?thesis by (subst (1 2) readLineLoop.simps) (auto simp: firstLine_no)
  qed
qed

definition lineOk :: "int \<Rightarrow> string \<Rightarrow> bool" where
  "lineOk maxBytes l \<longleftrightarrow> int (length l) \<le> maxBytes \<and> messageOk l"

definition lineRefusal :: "int \<Rightarrow> string \<Rightarrow> client_error \<Rightarrow> bool" where
  "lineRefusal maxBytes l e \<longleftrightarrow> (if int (length l) > maxBytes then e = LimitExceeded else \<exists>x. e = JSONInvalid x)"

lemma readLine_cases:
  assumes "src_rest r \<noteq> []"
  obtains (long) r' where "\<not> int (length (firstLine (src_rest r))) \<le> maxBytes" "readLine maxBytes r = (([], Some LimitExceeded), r')"
  | (bad) x r' where "int (length (firstLine (src_rest r))) \<le> maxBytes" "\<not> messageOk (firstLine (src_rest r))"
      "readLine maxBytes r = (([], Some (JSONInvalid x)), r')"
  | (last_line) r' where "lineOk maxBytes (firstLine (src_rest r))" "otherLines (src_rest r) = []" "firstLine (src_rest r) = src_rest r"
      "readLine maxBytes r = ((firstLine (src_rest r), Some (src_err r)), r')"
  | (line) r' where "lineOk maxBytes (firstLine (src_rest r))" "src_rest r' = otherLines (src_rest r)" "src_err r' = src_err r"
      "readLine maxBytes r = ((firstLine (src_rest r), None), r')"
proof (cases "int (length (firstLine (src_rest r))) \<le> maxBytes")
  case False
  then obtain rest where "readLineLoop maxBytes [] (src_rest r) = TooBig rest" using readLineLoop_line [of "[]" "src_rest r" maxBytes] by auto
  then show ?thesis using long False by (simp add: readLine_def)
next
  case True
  note loop = readLineLoop_line [of "[]" "src_rest r" maxBytes]
  have ne: "firstLine (src_rest r) \<noteq> []" using assms length_firstLine by blast
  show ?thesis
  proof (cases "firstLine (src_rest r)" "src_validation r" rule: validate_cases)
    case (accepted v')
    show ?thesis
    proof (cases "LF \<in> set (src_rest r)")
      case True': True
      then have "readLine maxBytes r = ((firstLine (src_rest r), None), r\<lparr>src_rest := otherLines (src_rest r), src_validation := v'\<rparr>)"
        using loop True accepted ne by (simp add: readLine_def validateLine_def)
      then show ?thesis
        using line [of "r\<lparr>src_rest := otherLines (src_rest r), src_validation := v'\<rparr>"] True accepted by (simp add: lineOk_def)
    next
      case False
      then have "readLine maxBytes r = ((firstLine (src_rest r), Some (src_err r)), r\<lparr>src_rest := [], src_validation := v'\<rparr>)"
        using loop True accepted ne by (simp add: readLine_def validateLine_def)
      then show ?thesis using last_line True accepted firstLine_no [OF False] by (simp add: lineOk_def)
    qed
  next
    case (rejected e)
    then have "\<exists>r'. readLine maxBytes r = (([], Some (JSONInvalid e)), r')"
      using loop True ne by (auto simp: readLine_def validateLine_def)
    then show ?thesis using bad True rejected by blast
  qed
qed

lemma readLine_Nil: "src_rest r = [] \<Longrightarrow> \<exists>e r'. readLine maxBytes r = (([], Some e), r') \<and> (0 \<le> maxBytes \<longrightarrow> e = src_err r)"
  using readLineLoop_line [of "[]" "[]" maxBytes] firstLine_no [of "[]"] by (auto simp: readLine_def validateLine_def split: if_splits)

interpretation ln: checked_frames "readLine (int n)" "\<lambda>r. length (src_rest r)"
    "\<lambda>r. splitLines (src_rest r)" "\<lambda>l. l" "lineOk (int n)" "lineRefusal (int n)" src_err for n
proof
  fix s :: stream and e s'
  assume a: "readLine (int n) s = (([], e), s')"
  show "e \<noteq> None"
  proof (cases "src_rest s = []")
    case True
    then show ?thesis using a readLine_Nil [OF True, of "int n"] by auto
  next
    case False
    then show ?thesis using a length_firstLine [OF False] by (cases rule: readLine_cases [OF False, of "int n"]) auto
  qed
next
  fix s :: stream and frame s'
  assume a: "readLine (int n) s = ((frame, None), s')"
  have ne: "src_rest s \<noteq> []" using a readLine_Nil [of s "int n"] by auto
  then show "length (src_rest s') < length (src_rest s)"
    using a length_firstLine [OF ne] first_other [of "src_rest s"]
    by (cases rule: readLine_cases [OF ne, of "int n"]) (auto simp: otherLines_def)
next
  fix s :: stream
  assume "splitLines (src_rest s) = []"
  then have "src_rest s = []" using concat_splitLines [of "src_rest s"] by simp
  then show "\<exists>s'. readLine (int n) s = (([], Some (src_err s)), s')" using readLine_Nil [of s "int n"] by auto
next
  fix s :: stream and f fs
  assume f: "splitLines (src_rest s) = f # fs" "\<not> lineOk (int n) f"
  then have ne: "src_rest s \<noteq> []" by auto
  have "f = firstLine (src_rest s)" using f(1) splitLines_ne [OF ne] by simp
  then show "\<exists>e s'. readLine (int n) s = (([], Some e), s') \<and> lineRefusal (int n) f e"
    using f(2) by (cases rule: readLine_cases [OF ne, of "int n"]) (auto simp: lineOk_def lineRefusal_def)
next
  fix s :: stream and f fs
  assume f: "splitLines (src_rest s) = f # fs" "lineOk (int n) f"
  then have ne: "src_rest s \<noteq> []" by auto
  have "f = firstLine (src_rest s)" "fs = splitLines (otherLines (src_rest s))" using f(1) splitLines_ne [OF ne] by simp_all
  then show "(\<exists>s'. readLine (int n) s = ((f, None), s') \<and> splitLines (src_rest s') = fs \<and> src_err s' = src_err s) \<or>
      (\<exists>s'. readLine (int n) s = ((f, Some (src_err s)), s') \<and> fs = [])"
    using f(2) by (cases rule: readLine_cases [OF ne, of "int n"]) (auto simp: lineOk_def)
qed

section \<open>Events\<close>

text \<open>A line of an event stream ends with a carriage return, a line feed or both; an event ends with a blank line.\<close>

fun nextLine :: "string \<Rightarrow> string \<times> string" where
  "nextLine [] = ([], [])"
| "nextLine (c # s) =
     (if c = LF then ([c], s)
      else if c = CR then (if hasPrefix s [LF] then ([c, LF], tl s) else ([c], s))
      else (case nextLine s of (l, r) \<Rightarrow> (c # l, r)))"

definition ended :: "string \<Rightarrow> bool" where
  "ended l \<longleftrightarrow> l \<noteq> [] \<and> (last l = CR \<or> last l = LF)"

definition blank :: "string \<Rightarrow> bool" where
  "blank l \<longleftrightarrow> l = [CR] \<or> l = [LF] \<or> l = [CR, LF]"

lemma nextLine_shorter: "nextLine s = (l, r) \<Longrightarrow> l @ r = s" for s
proof (induction s arbitrary: l r)
  case (Cons c s)
  then show ?case by (cases s) (auto simp: hasPrefix_def split: if_splits prod.splits)
qed simp

lemma nextLine_less: "nextLine s = (l, r) \<Longrightarrow> ended l \<Longrightarrow> length r < length s"
  using nextLine_shorter [of s l r] by (auto simp: ended_def)

text \<open>The first event of a text, whether it is complete, and what follows it; \<open>atStart\<close> says that a line begins.\<close>

function firstEvent :: "bool \<Rightarrow> string \<Rightarrow> string \<times> bool \<times> string" where
  "firstEvent atStart s =
     (case nextLine s of (l, r) \<Rightarrow>
        if \<not> ended l then (l, False, r)
        else if atStart \<and> blank l then (l, True, r)
        else (case firstEvent True r of (e, complete, rest) \<Rightarrow> (l @ e, complete, rest)))"
  by pat_completeness auto
termination
  by (relation "measure (\<lambda>(_, s). length s)") (auto dest: nextLine_less [OF sym])

declare firstEvent.simps [simp del]

lemma firstEvent_char:
  assumes "c \<noteq> CR" "c \<noteq> LF"
  shows "firstEvent b (c # s) = (case firstEvent False s of (e, complete, rest) \<Rightarrow> (c # e, complete, rest))"
proof -
  obtain l r where n: "nextLine s = (l, r)" by fastforce
  have e: "ended (c # l) \<longleftrightarrow> ended l" and b: "\<not> blank (c # l)" using assms by (auto simp: ended_def blank_def)
  show ?thesis
    unfolding firstEvent.simps [of b] firstEvent.simps [of False s] using assms n e b by (simp split: prod.splits)
qed

lemma firstEvent_break:
  assumes "c = LF \<or> (c = CR \<and> \<not> hasPrefix s [LF])"
  shows "firstEvent b (c # s) = (if b then ([c], True, s) else (case firstEvent True s of (e, complete, rest) \<Rightarrow> (c # e, complete, rest)))"
proof -
  have "nextLine (c # s) = ([c], s)" using assms by (auto simp: CR_def LF_def)
  then show ?thesis unfolding firstEvent.simps [of b] using assms by (auto simp: ended_def blank_def split: prod.splits)
qed

lemma firstEvent_pair:
  "firstEvent b (CR # LF # s) = (if b then ([CR, LF], True, s) else (case firstEvent True s of (e, complete, rest) \<Rightarrow> (CR # LF # e, complete, rest)))"
proof -
  have "nextLine (CR # LF # s) = ([CR, LF], s)" by (auto simp: CR_def LF_def hasPrefix_def)
  then show ?thesis unfolding firstEvent.simps [of b] by (auto simp: ended_def blank_def split: prod.splits)
qed

lemma firstEvent_Nil: "firstEvent b [] = ([], False, [])"
  by (simp add: firstEvent.simps ended_def)

text \<open>The loop over the characters refuses an event exactly when it is too long.\<close>

definition eventOutcome :: "int \<Rightarrow> string \<Rightarrow> string \<times> bool \<times> string \<Rightarrow> scanned \<Rightarrow> bool" where
  "eventOutcome maxBytes event f out =
     (case f of (e, complete, rest) \<Rightarrow>
        if int (length event) + int (length e) \<le> maxBytes
        then out = (if complete then Complete (event @ e) rest else Cut (event @ e))
        else \<exists>rest'. out = TooBig rest')"

lemma eventOutcome_shift:
  "eventOutcome maxBytes (event @ x) f out \<Longrightarrow> eventOutcome maxBytes event (case f of (e, complete, rest) \<Rightarrow> (x @ e, complete, rest)) out"
  by (auto simp: eventOutcome_def split: prod.splits if_splits)

lemma eventOutcome_big:
  "int (length event) + int (length x) > maxBytes \<Longrightarrow> eventOutcome maxBytes event (case f of (e, complete, rest) \<Rightarrow> (x @ e, complete, rest)) (TooBig r)"
  by (auto simp: eventOutcome_def split: prod.splits if_splits)

lemma readEventLoop_event:
  "int (length event) \<le> maxBytes \<Longrightarrow> eventOutcome maxBytes event (firstEvent b s) (readEventLoop maxBytes b event s)"
proof (induction "length s" arbitrary: b event s rule: less_induct)
  case less
  show ?case
  proof (cases s)
    case Nil
    then show ?thesis using less.prems by (simp add: firstEvent_Nil eventOutcome_def)
  next
    case (Cons c t)
    consider (char) "c \<noteq> CR" "c \<noteq> LF" | (pair) u where "c = CR" "t = LF # u" | (brk) "c = LF \<or> (c = CR \<and> \<not> hasPrefix t [LF])"
      by (cases t) (auto simp: hasPrefix_def)
    then show ?thesis
    proof cases
      case char
      show ?thesis
      proof (cases "int (length event) = maxBytes")
        case True
        then show ?thesis using char Cons eventOutcome_big [of maxBytes event "[c]" "firstEvent False t" t] by (simp add: firstEvent_char)
      next
        case False
        then have "eventOutcome maxBytes (event @ [c]) (firstEvent False t) (readEventLoop maxBytes False (event @ [c]) t)"
          using less Cons by simp
        then show ?thesis using eventOutcome_shift [of maxBytes event "[c]"] char Cons False by (simp add: firstEvent_char)
      qed
    next
      case pair
      consider "int (length event) = maxBytes" | "int (length event) + 1 = maxBytes" | "int (length event) + 2 \<le> maxBytes" using less.prems by linarith
      then show ?thesis
      proof cases
        case 1
        then show ?thesis using pair Cons eventOutcome_big [of maxBytes event "[CR, LF]" "firstEvent True u" t]
          by (auto simp: firstEvent_pair eventOutcome_def)
      next
        case 2
        then show ?thesis using pair Cons eventOutcome_big [of maxBytes event "[CR, LF]" "firstEvent True u" t]
          by (auto simp: firstEvent_pair eventOutcome_def)
      next
        case 3
        then have "eventOutcome maxBytes (event @ [CR, LF]) (firstEvent True u) (readEventLoop maxBytes True (event @ [CR, LF]) u)"
          using less Cons pair by simp
        then show ?thesis using eventOutcome_shift [of maxBytes event "[CR, LF]"] pair Cons 3 by (auto simp: firstEvent_pair eventOutcome_def)
      qed
    next
      case brk
      have loop: "readEventLoop maxBytes b event s =
          (if int (length event) = maxBytes then TooBig t else if b then Complete (event @ [c]) t else readEventLoop maxBytes True (event @ [c]) t)"
      proof (cases t)
        case Nil
        then show ?thesis using brk Cons by auto
      next
        case (Cons d u)
        then have "\<not> (c = CR \<and> d = LF)" using brk by (auto simp: hasPrefix_def CR_def LF_def)
        then show ?thesis
          unfolding \<open>s = c # t\<close> readEventLoop.simps(2) [of maxBytes b event c t] using brk Cons
          by (auto simp del: readEventLoop.simps)
      qed
      show ?thesis
      proof (cases "int (length event) = maxBytes")
        case True
        then show ?thesis unfolding loop Cons firstEvent_break [OF brk]
          using eventOutcome_big [of maxBytes event "[c]" "firstEvent True t" t] by (cases b) (simp_all add: eventOutcome_def)
      next
        case False
        then have "eventOutcome maxBytes (event @ [c]) (firstEvent True t) (readEventLoop maxBytes True (event @ [c]) t)"
          using less Cons by simp
        then show ?thesis unfolding loop unfolding Cons firstEvent_break [OF brk]
          using eventOutcome_shift [of maxBytes event "[c]" "firstEvent True t"] False less.prems
          by (cases b) (simp_all add: eventOutcome_def [of _ _ "([c], True, t)"])
      qed
    qed
  qed
qed

lemma firstEvent_split: "firstEvent b s = (e, complete, r) \<Longrightarrow> e @ r = s" for s
proof (induction b s arbitrary: e complete r rule: firstEvent.induct)
  case (1 b s)
  obtain l t where n: "nextLine s = (l, t)" by fastforce
  obtain e' c' r' where f: "firstEvent True t = (e', c', r')" by (metis prod.exhaust)
  then have "ended l \<Longrightarrow> \<not> (b \<and> blank l) \<Longrightarrow> e' @ r' = t" using 1(1) [OF n [symmetric]] by blast
  then show ?case using 1(2) n f nextLine_shorter [OF n] by (auto simp: firstEvent.simps [of b] split: if_splits)
qed

lemma firstEvent_ne: "s \<noteq> [] \<Longrightarrow> firstEvent b s = (e, complete, r) \<Longrightarrow> e \<noteq> []"
proof -
  assume "s \<noteq> []" and f: "firstEvent b s = (e, complete, r)"
  moreover obtain l t where n: "nextLine s = (l, t)" by fastforce
  ultimately have "l \<noteq> []" by (cases s) (auto split: if_splits prod.splits)
  then show "e \<noteq> []" using f n by (auto simp: firstEvent.simps [of b] split: if_splits prod.splits)
qed

lemma firstEvent_less: "s \<noteq> [] \<Longrightarrow> firstEvent b s = (e, complete, r) \<Longrightarrow> length r < length s"
  using firstEvent_split [of b s e complete r] firstEvent_ne [of s b e complete r] by auto

text \<open>The events of a text, each with the mark whether it is complete; only the last one may be cut off.\<close>

function splitEvents :: "string \<Rightarrow> (string \<times> bool) list" where
  "splitEvents s =
     (if s = [] then [] else
      case firstEvent True s of (e, complete, r) \<Rightarrow> (e, complete) # (if complete then splitEvents r else []))"
  by pat_completeness auto
termination
  by (relation "measure length") (auto dest: firstEvent_less [OF _ sym])

declare splitEvents.simps [simp del]

text \<open>A complete event has to pass the scan; one that the end of the stream cuts off is not scanned.\<close>

definition eventOk :: "int \<Rightarrow> string \<times> bool \<Rightarrow> bool" where
  "eventOk maxBytes ev \<longleftrightarrow> int (length (fst ev)) \<le> maxBytes \<and> (snd ev \<longrightarrow> messageOk (eventData (fst ev)))"

definition eventRefusal :: "int \<Rightarrow> string \<times> bool \<Rightarrow> client_error \<Rightarrow> bool" where
  "eventRefusal maxBytes ev e \<longleftrightarrow> (if int (length (fst ev)) > maxBytes then e = LimitExceeded else \<exists>x. e = JSONInvalid x)"

lemma readEvent_cases:
  assumes f: "firstEvent True (src_rest s) = (e, complete, r)"
  obtains (long) s' where "int n < int (length e)" "readEvent (int n) s = (([], Some LimitExceeded), s')"
  | (bad) x s' where "int (length e) \<le> int n" "complete" "\<not> messageOk (eventData e)" "readEvent (int n) s = (([], Some (JSONInvalid x)), s')"
  | (cut) s' where "int (length e) \<le> int n" "\<not> complete" "readEvent (int n) s = ((e, Some (src_err s)), s')"
  | (event) s' where "int (length e) \<le> int n" "complete" "messageOk (eventData e)" "src_rest s' = r" "src_err s' = src_err s" "readEvent (int n) s = ((e, None), s')"
proof -
  have out: "eventOutcome (int n) [] (e, complete, r) (readEventLoop (int n) True [] (src_rest s))"
    using readEventLoop_event [of "[]" "int n" True "src_rest s"] f by simp
  show thesis
  proof (cases "int (length e) \<le> int n")
    case False
    then obtain rest where "readEventLoop (int n) True [] (src_rest s) = TooBig rest" using out by (auto simp: eventOutcome_def)
    then show ?thesis using long False by (simp add: readEvent_def)
  next
    case True
    show ?thesis
    proof (cases complete)
      case False
      then have "readEventLoop (int n) True [] (src_rest s) = Cut e" using out True by (simp add: eventOutcome_def)
      then show ?thesis using cut True False by (simp add: readEvent_def)
    next
      case c: True
      then have l: "readEventLoop (int n) True [] (src_rest s) = Complete e r" using out True by (simp add: eventOutcome_def)
      show ?thesis
      proof (cases "eventData e" "src_validation s" rule: validate_cases)
        case (accepted v')
        then show ?thesis using event [of "s\<lparr>src_rest := r, src_validation := v'\<rparr>"] l True c by (simp add: readEvent_def validateSSEEvent_def)
      next
        case (rejected x)
        then show ?thesis using bad l True c by (simp add: readEvent_def validateSSEEvent_def)
      qed
    qed
  qed
qed

interpretation ev: checked_frames "readEvent (int n)" "\<lambda>r. length (src_rest r)"
    "\<lambda>r. splitEvents (src_rest r)" fst "eventOk (int n)" "eventRefusal (int n)" src_err for n
proof
  fix s :: stream and e s'
  assume a: "readEvent (int n) s = (([], e), s')"
  obtain x c r where f: "firstEvent True (src_rest s) = (x, c, r)" by (metis prod.exhaust)
  have "complete \<Longrightarrow> x \<noteq> []" if "complete = c" for complete
    using f firstEvent_ne [of "src_rest s" True x c r] firstEvent_Nil [of True] that by (cases "src_rest s = []") auto
  then show "e \<noteq> None" using a by (cases rule: readEvent_cases [OF f, of n]) auto
next
  fix s :: stream and frame s'
  assume a: "readEvent (int n) s = ((frame, None), s')"
  obtain x c r where f: "firstEvent True (src_rest s) = (x, c, r)" by (metis prod.exhaust)
  have "c \<Longrightarrow> length r < length (src_rest s)"
    using f firstEvent_less [of "src_rest s" True x c r] firstEvent_Nil [of True] by (cases "src_rest s = []") auto
  then show "length (src_rest s') < length (src_rest s)" using a by (cases rule: readEvent_cases [OF f, of n]) auto
next
  fix s :: stream
  assume "splitEvents (src_rest s) = []"
  then have e: "src_rest s = []" by (auto simp: splitEvents.simps [of "src_rest s"] split: if_splits prod.splits)
  then show "\<exists>s'. readEvent (int n) s = (([], Some (src_err s)), s')" by (simp add: readEvent_def)
next
  fix s :: stream and f fs
  assume a: "splitEvents (src_rest s) = f # fs" "\<not> eventOk (int n) f"
  obtain x c r where g: "firstEvent True (src_rest s) = (x, c, r)" by (metis prod.exhaust)
  then have "f = (x, c)" using a(1) by (auto simp: splitEvents.simps [of "src_rest s"] split: if_splits)
  then show "\<exists>e s'. readEvent (int n) s = (([], Some e), s') \<and> eventRefusal (int n) f e"
    using a(2) by (cases rule: readEvent_cases [OF g, of n]) (auto simp: eventOk_def eventRefusal_def)
next
  fix s :: stream and f fs
  assume a: "splitEvents (src_rest s) = f # fs" "eventOk (int n) f"
  obtain x c r where g: "firstEvent True (src_rest s) = (x, c, r)" by (metis prod.exhaust)
  then have "f = (x, c)" "fs = (if c then splitEvents r else [])" using a(1) by (auto simp: splitEvents.simps [of "src_rest s"] split: if_splits)
  then show "(\<exists>s'. readEvent (int n) s = ((fst f, None), s') \<and> splitEvents (src_rest s') = fs \<and> src_err s' = src_err s) \<or>
      (\<exists>s'. readEvent (int n) s = ((fst f, Some (src_err s)), s') \<and> fs = [])"
    using a(2) by (cases rule: readEvent_cases [OF g, of n]) (auto simp: eventOk_def)
qed

section \<open>What a caller reads\<close>

text \<open>C14: Whatever buffers the caller passes, the stdio reader hands out exactly the lines the provider wrote before
  the first line that is longer than the limit or whose JSON the scan refuses, unchanged and in order, and then
  fails with the error of that line, or ends as the stream does when there is no such line.
\<close>

theorem stdio_lines_exact:
  assumes "0 \<le> maxBytes" "\<forall>k \<in> set ks. 0 < k" "length (src_rest r) < length ks"
  shows "\<exists>e t. readAll (readLine maxBytes) ks (newFramed r) =
      (concat (takeWhile (lineOk maxBytes) (splitLines (src_rest r))), Some e, t) \<and>
    stops (lineRefusal maxBytes) (src_err r) (dropWhile (lineOk maxBytes) (splitLines (src_rest r))) e \<and>
    concat (splitLines (src_rest r)) = src_rest r"
proof -
  obtain n where n: "maxBytes = int n" using assms(1) nonneg_int_cases by blast
  have "length (concat (takeWhile P (splitLines (src_rest r)))) \<le> length (src_rest r)" for P
    by (metis append.assoc concat_append concat_splitLines le_add1 length_append takeWhile_dropWhile_id)
  from this [of "lineOk (int n)"] show ?thesis
    using ln.readAll_frames [OF assms(2), of n r] assms(3) n concat_splitLines [of "src_rest r"] by simp
qed

text \<open>A provider that writes one line and a second, unfinished one, read four bytes at a time.\<close>

theorem stdio_lines_exact_witness:
  "\<exists>e t. readAll (readLine 64) (replicate 12 4)
      (newFramed \<lparr>src_rest = ''ready'' @ [LF] @ ''[1]'', src_err = EndOfFile, src_closed = False, src_limit = False,
         src_validation = Some newResponseValidation\<rparr>) =
      (concat (takeWhile (lineOk 64) [''ready'' @ [LF], ''[1]'']), Some e, t) \<and>
    stops (lineRefusal 64) EndOfFile (dropWhile (lineOk 64) [''ready'' @ [LF], ''[1]'']) e"
proof -
  have "splitLines (''ready'' @ [LF] @ ''[1]'') = [''ready'' @ [LF], ''[1]'']"
    by (simp add: splitLines.simps firstLine_def otherLines_def LF_def)
  then show ?thesis
    using stdio_lines_exact [of 64 "replicate 12 4"
        "\<lparr>src_rest = ''ready'' @ [LF] @ ''[1]'', src_err = EndOfFile, src_closed = False, src_limit = False,
           src_validation = Some newResponseValidation\<rparr>"] by auto
qed

lemma splitEvents_prefix: "length (concat (map fst (takeWhile P (splitEvents s)))) \<le> length s"
proof (induction s rule: splitEvents.induct)
  case (1 s)
  obtain e c r where f: "firstEvent True s = (e, c, r)" by (metis prod.exhaust)
  show ?case
  proof (cases "s = []")
    case False
    then have "c \<Longrightarrow> length (concat (map fst (takeWhile P (splitEvents r)))) \<le> length r" using 1 f by auto
    then show ?thesis using False f firstEvent_split [OF f] by (auto simp: splitEvents.simps [of s])
  qed (simp add: splitEvents.simps)
qed

text \<open>C15: The event reader hands out exactly the events before the first one that is too long or whose data the scan
  refuses, and then fails with the error of that event.  The scan is applied to the events that end with a blank
  line: bytes that the end of the stream cuts off are handed out unscanned.
\<close>

theorem sse_events_exact:
  assumes "0 \<le> maxBytes" "\<forall>k \<in> set ks. 0 < k" "length (src_rest r) < length ks"
  shows "\<exists>e t. readAll (readEvent maxBytes) ks (newFramed r) =
      (concat (map fst (takeWhile (eventOk maxBytes) (splitEvents (src_rest r)))), Some e, t) \<and>
    stops (eventRefusal maxBytes) (src_err r) (dropWhile (eventOk maxBytes) (splitEvents (src_rest r))) e"
proof -
  obtain n where n: "maxBytes = int n" using assms(1) nonneg_int_cases by blast
  then show ?thesis
    using ev.readAll_frames [OF assms(2), of n r] assms(3) splitEvents_prefix [of "eventOk (int n)" "src_rest r"] by force
qed

definition dup_event :: string where
  "dup_event = ''data: {'' @ [CHR 0x22, CHR ''q'', CHR 0x22] @ '':1,'' @ [CHR 0x22, CHR ''q'', CHR 0x22] @ '':2}''"

text \<open>The end of the stream cuts off a message with a duplicate member, which is handed out all the same.\<close>

theorem sse_events_exact_witness:
  "\<exists>e t. readAll (readEvent 64) (replicate 40 4)
      (newFramed \<lparr>src_rest = dup_event, src_err = EndOfFile, src_closed = False, src_limit = False, src_validation = None\<rparr>) =
      (dup_event, Some e, t) \<and> e = EndOfFile"
proof -
  have s: "splitEvents dup_event = [(dup_event, False)]"
    by (simp add: dup_event_def splitEvents.simps firstEvent.simps ended_def LF_def CR_def)
  have "eventOk 64 (dup_event, False)" "length dup_event < 40" by (simp_all add: eventOk_def dup_event_def)
  then show ?thesis
    using sse_events_exact [of 64 "replicate 40 4"
        "\<lparr>src_rest = dup_event, src_err = EndOfFile, src_closed = False, src_limit = False, src_validation = None\<rparr>"] s
    by (auto simp: stops_def)
qed

section \<open>Bodies\<close>

lemma body_Read_loaded:
  "lb_loaded b \<Longrightarrow> 0 < k \<Longrightarrow> body_Read maxBytes k b =
     (if lb_pending b \<noteq> [] then ((take k (lb_pending b), None), b\<lparr>lb_pending := drop k (lb_pending b)\<rparr>)
      else case lb_pendingErr b of Some e \<Rightarrow> (([], Some e), b\<lparr>lb_pendingErr := None\<rparr>) | None \<Rightarrow> (([], Some EndOfFile), b))"
  by (simp add: body_Read_def)

text \<open>A body is handed out whole or not at all.\<close>

lemma load_body_outcome:
  assumes "0 \<le> maxBytes" "maxBytes < max_int64" and s: "lb_stream b = s" "lb_pending b = []" "lb_pendingErr b = None"
  shows "lb_loaded (load_body maxBytes b)"
    and "int (length (src_rest s)) > maxBytes \<Longrightarrow> lb_pending (load_body maxBytes b) = [] \<and> lb_pendingErr (load_body maxBytes b) = Some LimitExceeded"
    and "int (length (src_rest s)) \<le> maxBytes \<Longrightarrow> src_err s \<noteq> EndOfFile \<Longrightarrow>
      lb_pending (load_body maxBytes b) = [] \<and> lb_pendingErr (load_body maxBytes b) = Some (src_err s)"
    and "int (length (src_rest s)) \<le> maxBytes \<Longrightarrow> src_err s = EndOfFile \<Longrightarrow> messageOk (src_rest s) \<Longrightarrow>
      lb_pending (load_body maxBytes b) = src_rest s \<and> lb_pendingErr (load_body maxBytes b) = None"
    and "int (length (src_rest s)) \<le> maxBytes \<Longrightarrow> src_err s = EndOfFile \<Longrightarrow> \<not> messageOk (src_rest s) \<Longrightarrow>
      lb_pending (load_body maxBytes b) = [] \<and> (\<exists>x. lb_pendingErr (load_body maxBytes b) = Some (JSONInvalid x))"
proof -
  have add: "add64 maxBytes 1 = maxBytes + 1" using assms(1,2) by (simp add: add64_def wrap64_def max_int64_def)
  show "lb_loaded (load_body maxBytes b)" by (auto simp: load_body_def split: prod.splits sum.splits option.splits)
  show "lb_pending (load_body maxBytes b) = [] \<and> lb_pendingErr (load_body maxBytes b) = Some LimitExceeded"
    if "int (length (src_rest s)) > maxBytes"
    using that assms by (simp add: load_body_def readLimited_def add)
  show "lb_pending (load_body maxBytes b) = [] \<and> lb_pendingErr (load_body maxBytes b) = Some (src_err s)"
    if "int (length (src_rest s)) \<le> maxBytes" "src_err s \<noteq> EndOfFile"
    using that assms by (simp add: load_body_def readLimited_def add)
  have r: "readLimited (maxBytes + 1) s = (Inr (src_rest s), s\<lparr>src_rest := []\<rparr>)" if "int (length (src_rest s)) \<le> maxBytes" "src_err s = EndOfFile"
    using that assms(1) by (simp add: readLimited_def)
  show "lb_pending (load_body maxBytes b) = src_rest s \<and> lb_pendingErr (load_body maxBytes b) = None"
    if "int (length (src_rest s)) \<le> maxBytes" "src_err s = EndOfFile" "messageOk (src_rest s)"
    using that r s by (cases "src_rest s" "src_validation s" rule: validate_cases) (simp_all add: load_body_def add)
  show "lb_pending (load_body maxBytes b) = [] \<and> (\<exists>x. lb_pendingErr (load_body maxBytes b) = Some (JSONInvalid x))"
    if "int (length (src_rest s)) \<le> maxBytes" "src_err s = EndOfFile" "\<not> messageOk (src_rest s)"
    using that r s by (cases "src_rest s" "src_validation s" rule: validate_cases) (simp_all add: load_body_def add)
qed

end
