(* ===== verification/Provider_Events.thy ===== *)
theory Provider_Events
  imports Validation
begin

text \<open>
  The queue between the reader of a provider connection and the handlers of its notifications,
  \<^verbatim>\<open>internal/client/provider_events.go\<close>, as a transition system: \<^verbatim>\<open>enqueue\<close> runs under the mutex but its send
  and its addition to the byte count are separate steps, since a worker may receive the event in between; a
  worker takes an event from the channel, then subtracts its bytes under the mutex, then calls the handler.
\<close>

definition maxProviderQueuedEvents :: nat where "maxProviderQueuedEvents = 256"
definition maxProviderQueuedEventBytes :: int where "maxProviderQueuedEventBytes = 16777216"
definition maxProviderEventHandlers :: nat where "maxProviderEventHandlers = 16"

record queuedProviderEvent =
  qe_notification :: string
  qe_bytes :: int

datatype worker = Idle | Holding queuedProviderEvent | Handling queuedProviderEvent | Exited

text \<open>
  \<open>pq_adding\<close> is the event of the \<^verbatim>\<open>enqueue\<close> that holds the mutex between its send and its addition.
  \<open>pq_failing\<close> holds the errors of the calls that are on their way to \<^verbatim>\<open>fail\<close>, after the unlock.
  \<open>pq_accepted\<close>, \<open>pq_received\<close> and \<open>pq_overflows\<close> record the events that were sent and received and the calls of
  \<^verbatim>\<open>overflow\<close>.
\<close>

record providerEventQueue =
  pq_validation :: "responseValidation option"
  pq_queue :: "queuedProviderEvent list"
  pq_done :: bool
  pq_started :: bool
  pq_workers :: "worker list"
  pq_bytes :: int
  pq_adding :: "queuedProviderEvent option"
  pq_handler :: bool
  pq_failing :: "client_error list"
  pq_overflowed :: bool
  pq_overflows :: nat
  pq_accepted :: "queuedProviderEvent list"
  pq_received :: "queuedProviderEvent list"

definition newProviderEventQueue :: "responseValidation option \<Rightarrow> providerEventQueue" where
  "newProviderEventQueue v =
     \<lparr>pq_validation = v, pq_queue = [], pq_done = False, pq_started = False, pq_workers = [], pq_bytes = 0, pq_adding = None,
      pq_handler = False, pq_failing = [], pq_overflowed = False, pq_overflows = 0, pq_accepted = [], pq_received = []\<rparr>"

definition start_events :: "providerEventQueue \<Rightarrow> providerEventQueue" where
  "start_events q =
     (if pq_started q then q else q\<lparr>pq_started := True, pq_workers := replicate maxProviderEventHandlers Idle\<rparr>)"

definition stop_events :: "providerEventQueue \<Rightarrow> providerEventQueue" where
  "stop_events q = q\<lparr>pq_done := True\<rparr>"

definition setHandler :: "bool \<Rightarrow> providerEventQueue \<Rightarrow> providerEventQueue" where
  "setHandler h q = q\<lparr>pq_handler := h\<rparr>"

text \<open>\<^verbatim>\<open>fail\<close>: the error is recorded, and the first failure stops the queue and closes the connection.\<close>

definition fail_events :: "client_error \<Rightarrow> providerEventQueue \<Rightarrow> providerEventQueue" where
  "fail_events e q =
     (let q' = q\<lparr>pq_failing := remove1 e (pq_failing q), pq_validation := fail_validation e (pq_validation q)\<rparr>
      in if pq_overflowed q' then q' else (stop_events q')\<lparr>pq_overflowed := True, pq_overflows := pq_overflows q' + 1\<rparr>)"

definition failing :: "client_error \<Rightarrow> providerEventQueue \<Rightarrow> providerEventQueue" where
  "failing e q = q\<lparr>pq_failing := e # pq_failing q\<rparr>"

text \<open>
  \<^verbatim>\<open>enqueue\<close> up to the end of its select: \<open>encoded\<close> is \<^verbatim>\<open>json.Marshal\<close> of the notification, \<open>preferDone\<close> the
  choice of the select when both the send and \<^verbatim>\<open>done\<close> are ready.
\<close>

definition enqueue :: "string \<Rightarrow> string option \<Rightarrow> bool \<Rightarrow> providerEventQueue \<Rightarrow> providerEventQueue" where
  "enqueue notification encoded preferDone q =
     (case encoded of None \<Rightarrow> failing MarshalFailed q
      | Some text \<Rightarrow>
        let event = \<lparr>qe_notification = notification, qe_bytes = int (length text)\<rparr>;
            room = length (pq_queue q) < maxProviderQueuedEvents
        in if qe_bytes event > maxProviderQueuedEventBytes \<or> pq_bytes q > maxProviderQueuedEventBytes - qe_bytes event
           then failing EventOverflow q
           else if room \<and> \<not> (pq_done q \<and> preferDone) then
             q\<lparr>pq_queue := pq_queue q @ [event], pq_adding := Some event, pq_accepted := pq_accepted q @ [event]\<rparr>
           else if pq_done q then q
           else failing EventOverflow q)"

text \<open>The rest of a successful \<^verbatim>\<open>enqueue\<close>: the addition and the unlock.\<close>

definition enqueue_end :: "providerEventQueue \<Rightarrow> providerEventQueue" where
  "enqueue_end q =
     (case pq_adding q of None \<Rightarrow> q | Some event \<Rightarrow> q\<lparr>pq_bytes := pq_bytes q + qe_bytes event, pq_adding := None\<rparr>)"

text \<open>The steps of \<^verbatim>\<open>run\<close> for worker \<open>i\<close>.\<close>

definition run_receive :: "nat \<Rightarrow> providerEventQueue \<Rightarrow> providerEventQueue" where
  "run_receive i q =
     q\<lparr>pq_queue := tl (pq_queue q), pq_workers := (pq_workers q)[i := Holding (hd (pq_queue q))],
       pq_received := pq_received q @ [hd (pq_queue q)]\<rparr>"

definition run_subtract :: "nat \<Rightarrow> queuedProviderEvent \<Rightarrow> providerEventQueue \<Rightarrow> providerEventQueue" where
  "run_subtract i event q =
     q\<lparr>pq_bytes := pq_bytes q - qe_bytes event, pq_workers := (pq_workers q)[i := if pq_handler q then Handling event else Idle]\<rparr>"

definition run_next :: "nat \<Rightarrow> worker \<Rightarrow> providerEventQueue \<Rightarrow> providerEventQueue" where
  "run_next i w q = q\<lparr>pq_workers := (pq_workers q)[i := w]\<rparr>"

definition worker_is :: "nat \<Rightarrow> worker \<Rightarrow> providerEventQueue \<Rightarrow> bool" where
  "worker_is i w q \<longleftrightarrow> i < length (pq_workers q) \<and> pq_workers q ! i = w"

inductive events_step :: "providerEventQueue \<Rightarrow> providerEventQueue \<Rightarrow> bool" where
  start: "events_step q (start_events q)"
| stop: "events_step q (stop_events q)"
| handler: "pq_adding q = None \<Longrightarrow> events_step q (setHandler h q)"
| enqueue: "pq_adding q = None \<Longrightarrow> events_step q (enqueue notification encoded preferDone q)"
| unencoded: "events_step q (enqueue notification None preferDone q)"
| fails: "e \<in> set (pq_failing q) \<Longrightarrow> events_step q (fail_events e q)"
| added: "events_step q (enqueue_end q)"
| receive: "worker_is i Idle q \<Longrightarrow> pq_queue q \<noteq> [] \<Longrightarrow> events_step q (run_receive i q)"
| subtract: "worker_is i (Holding event) q \<Longrightarrow> pq_adding q = None \<Longrightarrow> events_step q (run_subtract i event q)"
| handled: "worker_is i (Handling event) q \<Longrightarrow> events_step q (run_next i Idle q)"
| exits: "worker_is i Idle q \<Longrightarrow> pq_done q \<Longrightarrow> events_step q (run_next i Exited q)"

inductive events_reachable :: "responseValidation option \<Rightarrow> providerEventQueue \<Rightarrow> bool" for v where
  new: "events_reachable v (newProviderEventQueue v)"
| step: "events_reachable v q \<Longrightarrow> events_step q q' \<Longrightarrow> events_reachable v q'"

end
