(* ===== verification/Provider_Events_Props.thy ===== *)
theory Provider_Events_Props
  imports Provider_Events
begin

text \<open>The queue of notifications keeps its bounds whatever the reader, the workers and the handlers do.\<close>

fun held :: "worker \<Rightarrow> int" where
  "held (Holding e) = qe_bytes e"
| "held w = 0"

definition adding :: "providerEventQueue \<Rightarrow> int" where
  "adding q = (case pq_adding q of None \<Rightarrow> 0 | Some e \<Rightarrow> qe_bytes e)"

text \<open>The bytes of the events that are in the channel or taken from it and not yet subtracted.\<close>

definition waiting_bytes :: "providerEventQueue \<Rightarrow> int" where
  "waiting_bytes q = sum_list (map qe_bytes (pq_queue q)) + sum_list (map held (pq_workers q))"

definition accounts :: "providerEventQueue \<Rightarrow> bool" where
  "accounts q \<longleftrightarrow> pq_bytes q + adding q = waiting_bytes q \<and> 0 \<le> pq_bytes q \<and> pq_bytes q + adding q \<le> maxProviderQueuedEventBytes \<and>
     (\<forall>e \<in> set (pq_queue q). 0 \<le> qe_bytes e) \<and> (\<forall>w \<in> set (pq_workers q). 0 \<le> held w) \<and>
     (\<forall>e. pq_adding q = Some e \<longrightarrow> e \<in> set (pq_queue q) \<or> Holding e \<in> set (pq_workers q))"

definition orderly :: "providerEventQueue \<Rightarrow> bool" where
  "orderly q \<longleftrightarrow> length (pq_queue q) \<le> maxProviderQueuedEvents \<and> pq_accepted q = pq_received q @ pq_queue q \<and>
     length (pq_workers q) = (if pq_started q then maxProviderEventHandlers else 0) \<and>
     pq_overflows q = (if pq_overflowed q then 1 else 0) \<and> (pq_overflowed q \<longrightarrow> pq_done q) \<and>
     (pq_overflowed q \<longrightarrow> (\<forall>w. pq_validation q = Some w \<longrightarrow> rv_err w \<noteq> None))"

lemma held_update:
  "i < length ws \<Longrightarrow> sum_list (map held (ws[i := w])) = sum_list (map held ws) - held (ws ! i) + held w"
  by (induction ws arbitrary: i) (auto split: nat.splits)

lemma sum_list_map_nonneg: "(\<forall>x \<in> set xs. 0 \<le> f x) \<Longrightarrow> 0 \<le> sum_list (map f xs)" for f :: "'a \<Rightarrow> int"
  by (induction xs) auto

lemma sum_list_member_le: "(\<forall>x \<in> set xs. 0 \<le> f x) \<Longrightarrow> x \<in> set xs \<Longrightarrow> f x \<le> sum_list (map f xs)" for f :: "'a \<Rightarrow> int"
proof (induction xs)
  case (Cons y ys)
  then show ?case using sum_list_map_nonneg [of ys f] by auto
qed simp

lemma fail_sets: "fail_validation e v = Some w \<Longrightarrow> rv_err w \<noteq> None"
  by (cases v) (auto simp: fail_validation_def split: if_splits)

lemmas events_defs = start_events_def stop_events_def setHandler_def fail_events_def failing_def enqueue_end_def
  run_receive_def run_subtract_def run_next_def worker_is_def Let_def

lemma orderly_step: "events_step q q' \<Longrightarrow> orderly q \<Longrightarrow> orderly q'"
proof (induction rule: events_step.induct)
  case (enqueue q notification encoded preferDone)
  then show ?case by (cases encoded) (auto simp: orderly_def enqueue_def events_defs)
next
  case (receive i q)
  then show ?case by (cases "pq_queue q") (auto simp: orderly_def events_defs)
next
  case (fails e q)
  then show ?case using fail_sets [of e "pq_validation q"] by (auto simp: orderly_def events_defs)
qed (auto simp: orderly_def enqueue_def events_defs split: option.splits)

lemma accounts_enqueue:
  assumes "pq_adding q = None" "accounts q"
  shows "accounts (enqueue notification encoded preferDone q)"
  using assms by (cases encoded) (auto simp: accounts_def enqueue_def failing_def adding_def waiting_bytes_def Let_def)

lemma accounts_receive:
  assumes "worker_is i Idle q" "pq_queue q = e # es" "accounts q"
  shows "accounts (run_receive i q)"
proof -
  have i: "i < length (pq_workers q)" "pq_workers q ! i = Idle" using assms(1) by (auto simp: worker_is_def)
  have "waiting_bytes (run_receive i q) = waiting_bytes q"
    using assms(2) i held_update [OF i(1)] by (simp add: waiting_bytes_def run_receive_def)
  moreover have "Holding x \<in> set ((pq_workers q)[i := Holding e])" if "Holding x \<in> set (pq_workers q)" for x
    using that i by (metis in_set_conv_nth length_list_update nth_list_update_neq worker.distinct(1))
  moreover have "Holding e \<in> set ((pq_workers q)[i := Holding e])" using i(1) by (rule set_update_memI)
  ultimately show ?thesis
    using assms(2,3) i set_update_subset_insert [of "pq_workers q" i "Holding e"]
    by (auto simp: accounts_def adding_def run_receive_def dest: subsetD)
qed

lemma accounts_worker:
  assumes w0: "worker_is i w0 q" and q: "accounts q" and lock: "pq_adding q = None \<or> (\<forall>e. w0 \<noteq> Holding e)" and w: "held w = 0"
  shows "accounts (q\<lparr>pq_bytes := pq_bytes q - held w0, pq_workers := (pq_workers q)[i := w]\<rparr>)"
proof -
  have i: "i < length (pq_workers q)" "pq_workers q ! i = w0" using w0 by (auto simp: worker_is_def)
  have kept: "Holding x \<in> set ((pq_workers q)[i := w])" if "Holding x \<in> set (pq_workers q)" "\<forall>e. w0 \<noteq> Holding e" for x
    using that i by (metis in_set_conv_nth length_list_update nth_list_update_neq)
  have "held w0 \<le> sum_list (map held (pq_workers q))"
    using sum_list_member_le [of "pq_workers q" held w0] q i nth_mem [OF i(1)] by (simp add: accounts_def)
  moreover have "0 \<le> sum_list (map qe_bytes (pq_queue q))" using sum_list_map_nonneg [of "pq_queue q" qe_bytes] q by (simp add: accounts_def)
  moreover have "0 \<le> held w0" using q i nth_mem [OF i(1)] by (auto simp: accounts_def)
  moreover have "held w0 = 0" if "pq_adding q \<noteq> None" using lock that by (cases w0) auto
  ultimately show ?thesis
    using q lock w kept i held_update [OF i(1), of w] set_update_subset_insert [of "pq_workers q" i w]
    by (auto simp: accounts_def adding_def waiting_bytes_def dest: subsetD split: option.splits)
qed

lemma run_next_worker: "held w0 = 0 \<Longrightarrow> run_next i w q = q\<lparr>pq_bytes := pq_bytes q - held w0, pq_workers := (pq_workers q)[i := w]\<rparr>"
  by (simp add: run_next_def)

lemma accounts_step: "events_step q q' \<Longrightarrow> orderly q \<Longrightarrow> accounts q \<Longrightarrow> accounts q'"
proof (induction rule: events_step.induct)
  case (enqueue q notification encoded preferDone)
  then show ?case by (simp add: accounts_enqueue)
next
  case (receive i q)
  then show ?case by (cases "pq_queue q") (auto intro: accounts_receive)
next
  case (subtract i event q)
  then show ?case using accounts_worker [of i "Holding event" q "if pq_handler q then Handling event else Idle"] by (simp add: run_subtract_def)
next
  case (handled i event q)
  then show ?case using accounts_worker [of i "Handling event" q Idle] run_next_worker [of "Handling event"] by simp
next
  case (exits i q)
  then show ?case using accounts_worker [of i Idle q Exited] run_next_worker [of Idle] by simp
next
  case (start q)
  then show ?case by (auto simp: accounts_def orderly_def start_events_def adding_def waiting_bytes_def sum_list_replicate)
next
  case (added q)
  then show ?case
    using sum_list_map_nonneg [of "pq_queue q" qe_bytes] by (auto simp: accounts_def enqueue_end_def adding_def waiting_bytes_def split: option.splits)
qed (auto simp: accounts_def enqueue_def events_defs adding_def waiting_bytes_def)

lemma events_invariant: "events_reachable v q \<Longrightarrow> orderly q \<and> accounts q"
proof (induction rule: events_reachable.induct)
  case new
  then show ?case by (simp add: orderly_def accounts_def newProviderEventQueue_def adding_def waiting_bytes_def maxProviderQueuedEventBytes_def)
next
  case (step q q')
  then show ?case using orderly_step accounts_step by blast
qed

text \<open>C16: Whatever a provider sends and however slow its handlers are, at most 256 notifications wait, the bytes of
  those that wait or were taken and not yet counted off are what the counter says and at most 16 MiB, at most 16
  handlers run at a time, no notification is lost, doubled or overtaken on its way to a worker, and the first
  overflow closes the connection once and marks it as failed.
\<close>

theorem events_bounded:
  assumes "events_reachable v q"
  shows "length (pq_queue q) \<le> 256 \<and> waiting_bytes q \<le> 16777216 \<and> (pq_adding q = None \<longrightarrow> pq_bytes q = waiting_bytes q) \<and>
    length (filter (\<lambda>w. w \<noteq> Exited) (pq_workers q)) \<le> 16 \<and> pq_accepted q = pq_received q @ pq_queue q \<and>
    pq_overflows q = (if pq_overflowed q then 1 else 0) \<and>
    (pq_overflowed q \<longrightarrow> pq_done q \<and> (\<forall>w. pq_validation q = Some w \<longrightarrow> rv_err w \<noteq> None))"
proof -
  note I = events_invariant [OF assms]
  have "length (filter (\<lambda>w. w \<noteq> Exited) (pq_workers q)) \<le> 16"
    using I length_filter_le [of "\<lambda>w. w \<noteq> Exited" "pq_workers q"]
    by (auto simp: orderly_def maxProviderEventHandlers_def split: if_splits)
  then show ?thesis
    using I by (auto simp: orderly_def accounts_def adding_def maxProviderQueuedEvents_def maxProviderQueuedEventBytes_def)
qed

text \<open>A notification that a worker has taken while the addition of its bytes is still to come.\<close>

definition busy_queue :: providerEventQueue where
  "busy_queue = run_receive 3 (enqueue ''progress'' (Some ''{}'') False (start_events (newProviderEventQueue (Some newResponseValidation))))"

theorem events_bounded_witness:
  "pq_adding busy_queue \<noteq> None \<and> waiting_bytes busy_queue = 2 \<and> pq_bytes busy_queue = 0 \<and>
   pq_accepted busy_queue = pq_received busy_queue @ pq_queue busy_queue"
proof -
  define q0 where "q0 = start_events (newProviderEventQueue (Some newResponseValidation))"
  define q1 where "q1 = enqueue ''progress'' (Some ''{}'') False q0"
  have "events_reachable (Some newResponseValidation) q0"
    unfolding q0_def by (rule events_reachable.step [OF events_reachable.new events_step.start])
  moreover have q1: "q1 = q0\<lparr>pq_queue := [\<lparr>qe_notification = ''progress'', qe_bytes = 2\<rparr>],
      pq_adding := Some \<lparr>qe_notification = ''progress'', qe_bytes = 2\<rparr>, pq_accepted := [\<lparr>qe_notification = ''progress'', qe_bytes = 2\<rparr>]\<rparr>"
    by (simp add: q1_def q0_def enqueue_def start_events_def newProviderEventQueue_def maxProviderQueuedEventBytes_def maxProviderQueuedEvents_def Let_def)
  moreover have "events_step q0 q1"
    unfolding q1_def by (rule events_step.enqueue) (simp add: q0_def start_events_def newProviderEventQueue_def)
  moreover have "worker_is 3 Idle q1" "pq_queue q1 \<noteq> []"
    by (simp_all add: q1 q0_def worker_is_def start_events_def newProviderEventQueue_def maxProviderEventHandlers_def)
  ultimately have "events_reachable (Some newResponseValidation) busy_queue"
    unfolding busy_queue_def q0_def [symmetric] q1_def [symmetric] using events_reachable.step events_step.receive by blast
  from events_bounded [OF this] have acc: "pq_accepted busy_queue = pq_received busy_queue @ pq_queue busy_queue" by blast
  have e: "busy_queue = run_receive 3 q1" by (simp add: busy_queue_def q1_def q0_def)
  have "pq_workers busy_queue = (replicate 16 Idle)[3 := Holding \<lparr>qe_notification = ''progress'', qe_bytes = 2\<rparr>]"
    "pq_queue busy_queue = []" "pq_bytes busy_queue = 0" "pq_adding busy_queue \<noteq> None"
    unfolding e by (simp_all add: q1 q0_def run_receive_def start_events_def newProviderEventQueue_def maxProviderEventHandlers_def)
  then show ?thesis using acc held_update [of 3 "replicate 16 Idle"] by (simp add: waiting_bytes_def sum_list_replicate)
qed

end
