(* ===== verification/Client_Transport.thy ===== *)
theory Client_Transport
  imports Provider_Events Config
begin

text \<open>
  The transports of a provider client: the stdio transport that kills its process when a line is too long
  (\<^verbatim>\<open>limitedStdioTransport\<close>, \<^verbatim>\<open>internal/client/response_limit.go\<close>), the transport that gives up when the readers
  refused a message and keeps the provider's own errors (\<^verbatim>\<open>responseValidatingTransport\<close>,
  \<^verbatim>\<open>internal/client/response_validation_transport.go\<close>), and the client that hides tools with unsafe annotations
  (\<^verbatim>\<open>internal/client/client.go\<close>).  The operating system's processes and the transports of mcp-go are arguments:
  what they answer.
\<close>

section \<open>Waiting for a response\<close>

text \<open>
  A select over a failure signal, the response and the context wakes with one of the alternatives that are ready;
  the second, non-blocking look at the signal comes later.
\<close>

datatype 'r wake = WakeSignal | WakeResponse "client_error + 'r" | WakeContext

definition wake_ready :: "bool \<Rightarrow> (client_error + 'r) option \<Rightarrow> bool \<Rightarrow> 'r wake \<Rightarrow> bool" where
  "wake_ready signalled response contextDone w =
     (case w of WakeSignal \<Rightarrow> signalled | WakeResponse r \<Rightarrow> response = Some r | WakeContext \<Rightarrow> contextDone)"

definition awaitLimitedStdioResponse :: "'r wake \<Rightarrow> bool \<Rightarrow> client_error + 'r" where
  "awaitLimitedStdioResponse w limitClosed =
     (case w of
        WakeSignal \<Rightarrow> Inl LimitExceeded
      | WakeResponse result \<Rightarrow> if limitClosed then Inl LimitExceeded else result
      | WakeContext \<Rightarrow> if limitClosed then Inl LimitExceeded else Inl ContextDone)"

text \<open>\<open>failed\<close> and \<open>failedLater\<close> are the validation's error when the select wakes and at the second look.\<close>

definition sendRequestOnce :: "'r wake \<Rightarrow> client_error option \<Rightarrow> client_error option \<Rightarrow> client_error + 'r" where
  "sendRequestOnce w failed failedLater =
     (case w of
        WakeSignal \<Rightarrow> Inl (the failed)
      | WakeResponse result \<Rightarrow> (case failedLater of Some e \<Rightarrow> Inl e | None \<Rightarrow> result)
      | WakeContext \<Rightarrow> (case failedLater of Some e \<Rightarrow> Inl e | None \<Rightarrow> Inl ContextDone))"

section \<open>The stdio transport\<close>

text \<open>Handlers are numbered; the last two fields are those that the inner transport of mcp-go has.\<close>

record limitedStdioTransport =
  lt_started :: bool
  lt_closed :: bool
  lt_inner :: bool
  lt_process :: bool
  lt_limit :: bool
  lt_kills :: nat
  lt_waits :: nat
  lt_notificationHandler :: "nat option"
  lt_requestHandler :: "nat option"
  lt_innerNotification :: "nat option"
  lt_innerRequest :: "nat option"

definition newLimitedStdioTransport :: limitedStdioTransport where
  "newLimitedStdioTransport =
     \<lparr>lt_started = False, lt_closed = False, lt_inner = False, lt_process = False, lt_limit = False, lt_kills = 0, lt_waits = 0,
      lt_notificationHandler = None, lt_requestHandler = None, lt_innerNotification = None, lt_innerRequest = None\<rparr>"

text \<open>How far the operating system and mcp-go let \<^verbatim>\<open>Start\<close> go.\<close>

datatype launch = NoPipes string | NoProcess string | NoSession string | Launched

definition installInboundHandlers :: "limitedStdioTransport \<Rightarrow> limitedStdioTransport" where
  "installInboundHandlers t =
     (let t1 = (if lt_notificationHandler t \<noteq> None then t\<lparr>lt_innerNotification := lt_notificationHandler t\<rparr> else t)
      in if lt_requestHandler t1 \<noteq> None then t1\<lparr>lt_innerRequest := lt_requestHandler t1\<rparr> else t1)"

definition SetNotificationHandler :: "nat option \<Rightarrow> limitedStdioTransport \<Rightarrow> limitedStdioTransport" where
  "SetNotificationHandler h t =
     (let t' = t\<lparr>lt_notificationHandler := h\<rparr> in if lt_inner t' then t'\<lparr>lt_innerNotification := h\<rparr> else t')"

definition SetRequestHandler :: "nat option \<Rightarrow> limitedStdioTransport \<Rightarrow> limitedStdioTransport" where
  "SetRequestHandler h t =
     (let t' = t\<lparr>lt_requestHandler := h\<rparr> in if lt_inner t' then t'\<lparr>lt_innerRequest := h\<rparr> else t')"

text \<open>A new inner transport has no handlers of its own.\<close>

definition attachInner :: "limitedStdioTransport \<Rightarrow> limitedStdioTransport" where
  "attachInner t = installInboundHandlers (t\<lparr>lt_process := True, lt_inner := True, lt_innerNotification := None, lt_innerRequest := None\<rparr>)"

definition Start :: "launch \<Rightarrow> limitedStdioTransport \<Rightarrow> client_error option \<times> limitedStdioTransport" where
  "Start l t =
     (if lt_started t then (None, t)
      else if lt_closed t then (Some (TransportError ''stdio transport is closed''), t)
      else case l of
        NoPipes e \<Rightarrow> (Some (TransportError e), t)
      | NoProcess e \<Rightarrow> (Some (TransportError e), t)
      | NoSession e \<Rightarrow>
          (Some (TransportError e), (attachInner t)\<lparr>lt_kills := lt_kills t + 1, lt_waits := lt_waits t + 1\<rparr>)
      | Launched \<Rightarrow> (None, (attachInner t)\<lparr>lt_started := True\<rparr>))"

definition signalLimit :: "limitedStdioTransport \<Rightarrow> limitedStdioTransport" where
  "signalLimit t =
     (if lt_limit t then t
      else let t' = t\<lparr>lt_limit := True\<rparr> in if lt_process t' then t'\<lparr>lt_kills := lt_kills t' + 1\<rparr> else t')"

text \<open>\<open>w\<close> is how the select wakes and \<open>limitLater\<close> whether the limit is signalled at the second look.\<close>

definition stdio_SendRequest :: "'r wake \<Rightarrow> bool \<Rightarrow> limitedStdioTransport \<Rightarrow> client_error + 'r" where
  "stdio_SendRequest w limitLater t =
     (if \<not> lt_inner t then Inl (TransportError ''stdio transport is not started'')
      else if lt_limit t then Inl LimitExceeded
      else awaitLimitedStdioResponse w limitLater)"

definition stdio_SendNotification :: "client_error option \<Rightarrow> limitedStdioTransport \<Rightarrow> client_error option" where
  "stdio_SendNotification sent t =
     (if \<not> lt_inner t then Some (TransportError ''stdio transport is not started'')
      else if lt_limit t then Some LimitExceeded else sent)"

definition stdio_Close :: "client_error option \<Rightarrow> client_error option \<Rightarrow> limitedStdioTransport \<Rightarrow> client_error list \<times> limitedStdioTransport" where
  "stdio_Close closeResult waitResult t =
     (if lt_closed t then ([], t)
      else let t' = t\<lparr>lt_closed := True, lt_waits := lt_waits t + (if lt_process t then 1 else 0)\<rparr>;
               closeErr = (if lt_inner t then closeResult else None);
               waitErr = (if lt_process t \<and> \<not> lt_limit t then waitResult else None)
           in (List.map_filter (\<lambda>x. x) [closeErr, waitErr], t'))"

definition stdio_CloseFailed ::
  "bool \<Rightarrow> client_error option \<Rightarrow> bool \<Rightarrow> client_error option \<Rightarrow> limitedStdioTransport \<Rightarrow> client_error list \<times> limitedStdioTransport" where
  "stdio_CloseFailed contextDone killResult alreadyDone waitResult t =
     (let t' = t\<lparr>lt_closed := True\<rparr>
      in if \<not> lt_process t' then ([], t')
         else if contextDone then ([ContextDone], t')
         else (if killResult = None \<or> alreadyDone then [] else List.map_filter (\<lambda>x. x) [killResult, waitResult],
               t'\<lparr>lt_kills := lt_kills t' + 1, lt_waits := lt_waits t' + 1\<rparr>))"

section \<open>The validating transport\<close>

text \<open>
  \<open>je_data\<close> is the encoding of the error's data, \<open>rp_id\<close> that of the identifier.  \<open>unsupported\<close> decodes the
  data of a refused protocol version (supported versions, requested version), \<open>unsupportedCode\<close> and \<open>callMethod\<close>
  are constants of mcp-go.
\<close>

record rpcError =
  je_code :: int
  je_message :: string
  je_data :: string

record rpcResponse =
  rp_id :: "string option"
  rp_result :: string
  rp_error :: "rpcError option"

record mcp_lib =
  ml_unsupportedCode :: int
  ml_callMethod :: string
  ml_versionData :: "string \<Rightarrow> (string list \<times> string) option"

datatype outcome =
  Response "rpcResponse option" | Failed client_error | UnsupportedVersion string "string list" | ProviderError ProviderRPCError

definition unsupportedVersionData :: "mcp_lib \<Rightarrow> string \<Rightarrow> (string list \<times> string) option" where
  "unsupportedVersionData lib encoded =
     (if encoded = [] then None
      else case ml_versionData lib encoded of None \<Rightarrow> None
      | Some (supported, requested) \<Rightarrow> if supported = [] then None else Some (supported, requested))"

text \<open>What follows one answer: \<^const>\<open>None\<close> to send the request again.\<close>

definition afterResponse :: "mcp_lib \<Rightarrow> string \<Rightarrow> bool \<Rightarrow> rpcResponse \<Rightarrow> rpcError \<Rightarrow> ProviderRPCError option \<Rightarrow> outcome option" where
  "afterResponse lib reqMethod firstAttempt response err rpcErr =
     (let version =
            (if je_code err = ml_unsupportedCode lib then
               (case Option.bind rpcErr (\<lambda>e. unsupportedVersionData lib (re_data e)) of
                  Some d \<Rightarrow> Some d
                | None \<Rightarrow> unsupportedVersionData lib (je_data err))
             else None)
      in case version of
           Some (supported, requested) \<Rightarrow>
             if firstAttempt \<and> requested \<in> set supported then None else Some (UnsupportedVersion requested supported)
         | None \<Rightarrow>
             if reqMethod = ml_callMethod lib then
               Some (ProviderError (case rpcErr of Some e \<Rightarrow> e
                 | None \<Rightarrow> \<lparr>re_code = je_code err, re_message = je_message err, re_data = je_data err\<rparr>))
             else Some (Response (Some response)))"

text \<open>\<open>once i\<close> is attempt \<open>i\<close>: its result and the validation after it.\<close>

fun sendAttempts ::
  "mcp_lib \<Rightarrow> string \<Rightarrow> (nat \<Rightarrow> responseValidation option \<Rightarrow> (client_error + rpcResponse option) \<times> responseValidation option) \<Rightarrow>
   nat list \<Rightarrow> responseValidation option \<Rightarrow> outcome \<times> responseValidation option" where
  "sendAttempts lib reqMethod once [] v = (UnsupportedVersion [] [], v)"
| "sendAttempts lib reqMethod once (i # is) v =
     (case once i v of
        (Inl e, v1) \<Rightarrow> (Failed e, v1)
      | (Inr None, v1) \<Rightarrow> (Response None, v1)
      | (Inr (Some response), v1) \<Rightarrow>
        (case rp_error response of None \<Rightarrow> (Response (Some response), v1)
         | Some err \<Rightarrow>
           (case takeRPCError (rp_id response) v1 of (rpcErr, v2) \<Rightarrow>
              (case afterResponse lib reqMethod (i = 0) response err rpcErr of
                 None \<Rightarrow> sendAttempts lib reqMethod once is v2
               | Some out \<Rightarrow> (out, v2)))))"

definition validating_SendRequest ::
  "mcp_lib \<Rightarrow> string \<Rightarrow> (nat \<Rightarrow> responseValidation option \<Rightarrow> (client_error + rpcResponse option) \<times> responseValidation option) \<Rightarrow>
   responseValidation option \<Rightarrow> outcome \<times> responseValidation option" where
  "validating_SendRequest lib reqMethod once v = sendAttempts lib reqMethod once [0, 1] v"

definition validating_SendNotification :: "client_error option \<Rightarrow> responseValidation \<Rightarrow> client_error option" where
  "validating_SendNotification sent v = (case rv_err v of Some e \<Rightarrow> Some e | None \<Rightarrow> sent)"

text \<open>Starting, closing and the handler act on the event queue beside the inner transport.\<close>

definition validating_Start :: "client_error option \<Rightarrow> providerEventQueue \<Rightarrow> client_error option \<times> providerEventQueue" where
  "validating_Start started q = (case started of Some e \<Rightarrow> (Some e, q) | None \<Rightarrow> (None, start_events q))"

definition validating_Close :: "client_error option \<Rightarrow> providerEventQueue \<Rightarrow> client_error option \<times> providerEventQueue" where
  "validating_Close closed q = (closed, stop_events q)"

section \<open>The client\<close>

text \<open>\<open>unsafe\<close> is \<^verbatim>\<open>mcp.ValidateParamHeaderAnnotations\<close>; the client remembers the tools it refused.\<close>

definition ListTools ::
  "('t \<Rightarrow> string) \<Rightarrow> ('t \<Rightarrow> client_error option) \<Rightarrow> client_error + 't list \<Rightarrow> (string, client_error) gomap \<Rightarrow>
   (client_error + 't list) \<times> (string, client_error) gomap" where
  "ListTools name unsafe listed invalid =
     (case listed of Inl e \<Rightarrow> (Inl e, invalid)
      | Inr tools \<Rightarrow>
        (Inr (filter (\<lambda>t. unsafe t = None) tools),
         fold (\<lambda>t m. case unsafe t of Some e \<Rightarrow> put (name t) e m | None \<Rightarrow> m) tools []))"

definition CallTool :: "string \<Rightarrow> (client_error + 'r) \<Rightarrow> (string, client_error) gomap \<Rightarrow> client_error + 'r" where
  "CallTool name call invalid = (case get invalid name of Some e \<Rightarrow> Inl e | None \<Rightarrow> call)"

text \<open>\<^verbatim>\<open>runPingTask\<close>: the failures in a row after each ping, until the context ends.\<close>

fun pingFailures :: "nat \<Rightarrow> bool list \<Rightarrow> nat list" where
  "pingFailures failCount [] = []"
| "pingFailures failCount (alive # rs) = (let n = (if alive then 0 else failCount + 1) in n # pingFailures n rs)"

section \<open>Making a client\<close>

datatype clientTransport =
  StdioTransport string "string list" "string list" int
| SSETransport string "(string, string) gomap" int
| StreamableTransport string "(string, string) gomap" time int

record Client =
  cl_name :: string
  cl_needPing :: bool
  cl_needManualStart :: bool
  cl_transport :: clientTransport

definition maxProviderMessageBytes :: int where "maxProviderMessageBytes = 16777216"

text \<open>\<open>refused\<close> is the error with which mcp-go refuses an HTTP endpoint.\<close>

definition newMCPClient :: "(string \<Rightarrow> error option) \<Rightarrow> string \<Rightarrow> MCPClientConfigV2 \<Rightarrow> int \<Rightarrow> Client res" where
  "newMCPClient refused name conf maxResponseBytes =
     rbind (ParseMCPClientConfigV2 conf) (\<lambda>info.
       case info of
         StdioClient c \<Rightarrow>
           Inr \<lparr>cl_name = name, cl_needPing = False, cl_needManualStart = True,
                cl_transport = StdioTransport (si_Command c) (map (\<lambda>(k, v). k @ ''='' @ v) (si_Env c)) (si_Args c) maxResponseBytes\<rparr>
       | SSEClient c \<Rightarrow>
           (case refused (ss_URL c) of Some e \<Rightarrow> Inl e
            | None \<Rightarrow> Inr \<lparr>cl_name = name, cl_needPing = True, cl_needManualStart = True,
                           cl_transport = SSETransport (ss_URL c) (ss_Headers c) maxResponseBytes\<rparr>)
       | StreamableClient c \<Rightarrow>
           (case refused (sh_URL c) of Some e \<Rightarrow> Inl e
            | None \<Rightarrow> Inr \<lparr>cl_name = name, cl_needPing = True, cl_needManualStart = True,
                           cl_transport = StreamableTransport (sh_URL c) (sh_Headers c) (sh_Timeout c) maxResponseBytes\<rparr>))"

definition NewMCPClient :: "(string \<Rightarrow> error option) \<Rightarrow> string \<Rightarrow> MCPClientConfigV2 \<Rightarrow> Client res" where
  "NewMCPClient refused name conf = newMCPClient refused name conf maxProviderMessageBytes"

definition NewMCPClientWithResponseLimit :: "(string \<Rightarrow> error option) \<Rightarrow> string \<Rightarrow> MCPClientConfigV2 \<Rightarrow> int \<Rightarrow> Client res" where
  "NewMCPClientWithResponseLimit refused name conf maxResponseBytes =
     (if maxResponseBytes \<le> 0 then Inl (OtherError ''maximum response bytes must be positive'')
      else newMCPClient refused name conf maxResponseBytes)"

text \<open>
  \<^verbatim>\<open>CloseFailed\<close> of a stdio client: the queue stops, the process is killed and reaped.  The arguments after the
  first are what killing and waiting return.
\<close>

definition client_CloseFailed ::
  "bool \<Rightarrow> client_error option \<Rightarrow> bool \<Rightarrow> client_error option \<Rightarrow> providerEventQueue \<times> limitedStdioTransport \<Rightarrow>
   client_error list \<times> providerEventQueue \<times> limitedStdioTransport" where
  "client_CloseFailed contextDone killResult alreadyDone waitResult c =
     (if contextDone then ([ContextDone], c)
      else case stdio_CloseFailed False killResult alreadyDone waitResult (snd c) of
        (errs, t) \<Rightarrow> (errs, stop_events (fst c), t))"

end
