(* ===== verification/Json_Append.thy ===== *)
theory Json_Append
  imports Validation Json_Plain "HOL-Library.Sublist"
begin

text \<open>
  Parsing looks only at the text of the value: what is left over is a suffix, and a value is read in the same way when
  more text follows it.  So an object that is written member by member is decoded into the texts of its members.
\<close>

section \<open>What is left\<close>

lemma suffix_skipws: "suffix (skipws s) s"
  by (simp add: skipws_def suffix_dropWhile)

lemma suffix_skipws_Cons: "skipws s = c # t \<Longrightarrow> suffix t s"
  by (metis suffix_ConsD suffix_skipws)

lemma getu4_suffix: "getu4 s = Some (r, u) \<Longrightarrow> suffix u s"
proof (induction s rule: getu4.induct)
  case (1 a b c d r)
  then show ?case by (auto simp: suffix_def split: option.splits list.splits)
qed simp_all

lemma joinSurrogate_suffix: "joinSurrogate r s = (r', t) \<Longrightarrow> suffix t s"
  using getu4_suffix [of "drop 2 s"] suffix_drop [of 2 s] suffix_order.trans
  by (fastforce simp: joinSurrogate_def split: if_splits option.splits)

lemma parseStr_suffix: "parseStr n s = Some (x, r) \<Longrightarrow> suffix r s"
proof (induction n s arbitrary: x r rule: parseStr.induct)
  case (3 n c s)
  have sub: "suffix r (c # s)" if "suffix r t" "suffix t s" for t using that suffix_order.trans suffix_ConsI by metis
  consider (q) "c = CHR 0x22" | (esc) "c = CHR 0x5C" | (ctl) "c \<noteq> CHR 0x22" "c \<noteq> CHR 0x5C" "byteN c < 32"
    | (ascii) "c \<noteq> CHR 0x22" "c \<noteq> CHR 0x5C" "\<not> byteN c < 32" "byteN c < 128"
    | (rune) "c \<noteq> CHR 0x22" "c \<noteq> CHR 0x5C" "\<not> byteN c < 32" "\<not> byteN c < 128" by blast
  then show ?case
  proof cases
    case q
    then show ?thesis using 3(6) by (auto intro: suffix_ConsI)
  next
    case esc
    then obtain d t where s: "s = d # t" using 3(6) by (cases s) auto
    have t: "suffix t s" using s by (simp add: suffix_ConsI)
    show ?thesis
    proof (cases "d = CHR ''u''")
      case True
      then obtain r0 u r' u' y where g: "getu4 t = Some (r0, u)" "joinSurrogate r0 u = (r', u')" "parseStr n u' = Some (y, r)"
        using 3(6) esc s by (auto split: option.splits prod.splits)
      then have "suffix r u'" using 3(1) esc s True by fastforce
      then show ?thesis using sub [of u'] joinSurrogate_suffix [OF g(2)] getu4_suffix [OF g(1)] t suffix_order.trans by metis
    next
      case False
      then obtain e y where "escChar d = Some e" "parseStr n t = Some (y, r)" using 3(6) esc s by (auto split: option.splits)
      then show ?thesis using 3(2) esc s False sub [of t] t by fastforce
    qed
  next
    case ctl
    then show ?thesis using 3(6) by simp
  next
    case ascii
    then obtain y where "parseStr n s = Some (y, r)" using 3(6) by auto
    then show ?thesis using 3(3) ascii sub [of s] by fastforce
  next
    case rune
    show ?thesis
    proof (cases "decodeRune (map byteN (c # s))")
      case None
      then obtain y where "parseStr n s = Some (y, r)" using 3(6) rune by (auto split: option.splits)
      then show ?thesis using 3(4) rune None sub [of s] by fastforce
    next
      case (Some rw)
      then obtain rr w y where w: "rw = (rr, w)" "parseStr n (drop (w - 1) s) = Some (y, r)" using 3(6) rune by (auto split: option.splits prod.splits)
      then have "suffix r (drop (w - 1) s)" using 3(5) [OF rune Some w(1) [symmetric] w(2)] by simp
      then show ?thesis using sub [of "drop (w - 1) s"] suffix_drop by blast
    qed
  qed
qed simp_all

lemma digits_suffix: "digits s = (d, t) \<Longrightarrow> suffix t s"
  by (auto simp: digits_def suffix_dropWhile)

lemma parseFrac_suffix: "parseFrac s = Some (f, u) \<Longrightarrow> suffix u s"
  by (auto simp: parseFrac_def dest!: digits_suffix intro: suffix_ConsI split: list.splits if_splits prod.splits)

lemma parseExp_suffix:
  assumes "parseExp s = Some (f, u)"
  shows "suffix u s"
proof (cases "\<exists>c t. s = c # t \<and> (c = CHR ''e'' \<or> c = CHR ''E'')")
  case True
  then obtain c t where s: "s = c # t" "c = CHR ''e'' \<or> c = CHR ''E''" by blast
  then obtain k d where "digits (drop k t) = (d, u)" using assms by (auto simp: parseExp_def Let_def split: if_splits prod.splits)
  then show ?thesis using digits_suffix suffix_drop [of k t] s suffix_ConsI suffix_order.trans by metis
next
  case False
  then show ?thesis using assms by (auto simp: parseExp_def split: list.splits)
qed

lemma parseNum_suffix:
  assumes "parseNum s = Some (x, r)"
  shows "suffix r s"
proof -
  define k where "k = length (if hasPrefix s ''-'' then ''-'' else [])"
  obtain d t where d: "digits (drop k s) = (d, t)" by fastforce
  define w where "w = (if hasPrefix d ''0'' then drop 1 d @ t else t)"
  define sign where "sign = (if hasPrefix s ''-'' then ''-'' else [])"
  have eq: "parseNum s = (if d = [] then None else case parseFrac w of None \<Rightarrow> None
      | Some (f, u) \<Rightarrow> (case parseExp u of None \<Rightarrow> None
        | Some (e, v) \<Rightarrow> Some (sign @ (if hasPrefix d ''0'' then ''0'' else d) @ f @ e, v)))"
    unfolding parseNum_def Let_def sign_def [symmetric] d [unfolded k_def sign_def [symmetric]] w_def
    by (auto split: option.splits)
  obtain f u where f: "parseFrac w = Some (f, u)" using assms eq by (cases "parseFrac w") (auto split: if_splits)
  obtain e where g: "parseExp u = Some (e, r)" using assms eq f by (cases "parseExp u") (auto split: if_splits)
  have "d @ t = drop k s" using d by (auto simp: digits_def)
  moreover have "suffix (drop 1 d @ t) (d @ t)" by (rule suffixI [of _ "take 1 d"]) (simp add: append_assoc [symmetric] del: append_assoc)
  ultimately have "suffix w (drop k s)" unfolding w_def by (metis suffix_def)
  then show ?thesis using parseFrac_suffix [OF f] parseExp_suffix [OF g] suffix_drop [of k s] suffix_order.trans by metis
qed

lemma suffix_skip: "skipws s = c # t \<Longrightarrow> suffix r t \<Longrightarrow> suffix r s"
  using suffix_skipws_Cons suffix_order.trans by metis

lemma parse_suffix:
  "parseValue n s = Some (v, r) \<Longrightarrow> suffix r s"
  "parseItems n s = Some (vs, r) \<Longrightarrow> suffix r s"
  "parseMembers n s = Some (ms, r) \<Longrightarrow> suffix r s"
proof (induction n s and n s and n s arbitrary: v r and vs r and ms r rule: parseValue_parseItems_parseMembers.induct)
  case (2 n s)
  obtain c t where s: "skipws s = c # t" using 2(3) by (cases "skipws s") auto
  have tl: "suffix (tl (skipws t)) s" using suffix_skip [OF s] suffix_skipws [of t] suffix_order.trans suffix_tl by metis
  have dr: "suffix (drop k (c # t)) s" for k using s suffix_skipws [of s] suffix_drop suffix_order.trans by metis
  consider (q) "c = CHR 0x22" | (brace) "c = CHR ''{''" | (bracket) "c = CHR ''[''" | (other) "c \<notin> {CHR 0x22, CHR ''{'', CHR ''[''}" by blast
  then show ?case
  proof cases
    case q
    then show ?thesis using 2(3) s parseStr_suffix suffix_skip [OF s] by auto
  next
    case brace
    then show ?thesis using 2(1) [OF s] 2(3) s tl suffix_skip [OF s] by (auto split: if_splits)
  next
    case bracket
    then show ?thesis using 2(2) [OF s] 2(3) s tl suffix_skip [OF s] by (auto split: if_splits)
  next
    case other
    then have "r = drop 4 (c # t) \<or> r = drop 5 (c # t) \<or> (\<exists>x. parseNum (c # t) = Some (x, r))"
      using 2(3) s by (auto simp del: drop_Suc_Cons split: if_splits)
    then show ?thesis using dr [of 4] dr [of 5] dr [of 0] parseNum_suffix [of "c # t" _ r] suffix_order.trans [of r "c # t" s] by auto
  qed
next
  case (4 n s)
  obtain v t where v: "parseValue n s = Some (v, t)" using 4(3) by (cases "parseValue n s") auto
  then have t: "suffix t s" using 4(1) by blast
  obtain c u where c: "skipws t = c # u" using 4(3) v by (cases "skipws t") auto
  then have u: "suffix u s" using suffix_skipws_Cons [OF c] t suffix_order.trans by metis
  show ?case
  proof (cases "c = CHR '']''")
    case True
    then show ?thesis using 4(3) v c u by auto
  next
    case False
    then obtain ws where "parseItems n u = Some (ws, r)" "c = CHR '',''" using 4(3) v c by (auto split: if_splits)
    then show ?thesis using 4(2) [OF v refl c False] u suffix_order.trans by metis
  qed
next
  case (6 n s)
  obtain s' where q: "skipws s = CHR 0x22 # s'" using 6(3) by (cases "skipws s") (auto split: if_splits)
  obtain k t where k: "parseStr (Suc (length s')) s' = Some (k, t)" using 6(3) q by (cases "parseStr (Suc (length s')) s'") auto
  obtain u where u: "skipws t = CHR '':'' # u" using 6(3) q k by (cases "skipws t") (auto split: if_splits)
  have us: "suffix u s" using suffix_skip [OF q] parseStr_suffix [OF k] suffix_skipws_Cons [OF u] suffix_order.trans by metis
  obtain v x where v: "parseValue n u = Some (v, x)" using 6(3) q k u by (cases "parseValue n u") auto
  have xs: "suffix x s" using 6(1) [OF q _ k refl u] v us suffix_order.trans by fastforce
  obtain d y where d: "skipws x = d # y" using 6(3) q k u v by (cases "skipws x") auto
  then have ys: "suffix y s" using suffix_skipws_Cons [OF d] xs suffix_order.trans by metis
  show ?case
  proof (cases "d = CHR ''}''")
    case True
    then show ?thesis using 6(3) q k u v d ys by auto
  next
    case False
    then obtain ws where "parseMembers n y = Some (ws, r)" "d = CHR '',''" using 6(3) q k u v d by (auto split: if_splits)
    then show ?thesis using 6(2) [OF q _ k refl u _ v refl d False] ys suffix_order.trans by fastforce
  qed
qed simp_all

lemma decodeRune_prefix: "decodeRune bs = Some (r, w) \<Longrightarrow> decodeRune (take w bs @ cs) = Some (r, w)"
  by (cases bs) (auto split: list.splits if_splits)

section \<open>Numbers\<close>

text \<open>What may follow a number in the text of a value.\<close>

definition stops :: "string \<Rightarrow> bool" where
  "stops r \<longleftrightarrow> r = [] \<or> hd r \<in> {CHR '','', CHR 0x0A, CHR ''}'', CHR '']''}"

lemma stops_simps [simp]: "stops []" "stops (CHR '','' # r)" "stops (CHR 0x0A # r)" "stops (CHR ''}'' # r)" "stops (CHR '']'' # r)"
  by (simp_all add: stops_def)

lemma stops_char:
  assumes "stops (c # r)"
  shows "\<not> is_digit c" "c \<noteq> CHR ''.''" "c \<noteq> CHR ''e''" "c \<noteq> CHR ''E''" "c \<noteq> CHR ''+''" "c \<noteq> CHR ''-''"
  using assms by (auto simp: stops_def is_digit_def byteN_def)

lemma digits_append:
  assumes "stops r"
  shows "digits (s @ r) = (fst (digits s), snd (digits s) @ r)"
proof (cases r)
  case (Cons c t)
  then have "\<not> is_digit c" using assms stops_char by simp
  then have "takeWhile is_digit (s @ r) = takeWhile is_digit s \<and> dropWhile is_digit (s @ r) = dropWhile is_digit s @ r"
    unfolding Cons by (induction s) auto
  then show ?thesis by (simp add: digits_def)
qed (simp add: digits_def)

lemma parseFrac_append:
  assumes "stops r" and "parseFrac s = Some (f, u)"
  shows "parseFrac (s @ r) = Some (f, u @ r)"
proof (cases s)
  case Nil
  then show ?thesis using assms stops_char by (cases r) (auto simp: parseFrac_def)
next
  case (Cons c t)
  then show ?thesis using assms by (auto simp: parseFrac_def digits_append Let_def split: if_splits prod.splits)
qed

lemma parseExp_append:
  assumes "stops r" and "parseExp s = Some (f, u)"
  shows "parseExp (s @ r) = Some (f, u @ r)"
proof (cases s)
  case Nil
  then show ?thesis using assms stops_char by (cases r) (auto simp: parseExp_def)
next
  case (Cons c t)
  show ?thesis
  proof (cases "c = CHR ''e'' \<or> c = CHR ''E''")
    case True
    let ?p = "\<lambda>x. x = CHR ''+'' \<or> x = CHR ''-''"
    define sign where "sign = take 1 (takeWhile ?p t)"
    have a: "take 1 (takeWhile ?p (t @ r)) = sign" unfolding sign_def
      using assms(1) stops_char by (cases t; cases r) auto
    have "length sign \<le> length t" using length_takeWhile_le [of ?p t] by (simp add: sign_def)
    then have dr: "drop (length sign) (t @ r) = drop (length sign) t @ r" by simp
    obtain d v where d: "digits (drop (length sign) t) = (d, v)" by force
    have "d \<noteq> []" "f = c # sign @ d" "u = v"
      using assms(2) True unfolding parseExp_def Cons Let_def sign_def [symmetric] list.case d by (auto split: if_split_asm)
    moreover have "parseExp (s @ r) = (if d = [] then None else Some (c # sign @ d, v @ r))"
      using True unfolding parseExp_def Cons Let_def append_Cons list.case a dr digits_append [OF assms(1)] d by simp
    ultimately show ?thesis by simp
  next
    case False
    then show ?thesis using assms Cons by (auto simp: parseExp_def)
  qed
qed

lemma parseNum_append:
  assumes r: "stops r" and p: "parseNum s = Some (x, u)"
  shows "parseNum (s @ r) = Some (x, u @ r)"
proof -
  have ne: "s \<noteq> []" using p by (auto simp: parseNum_def hasPrefix_def digits_def)
  then have pre: "hasPrefix (s @ r) ''-'' = hasPrefix s ''-''" by (cases s) (auto simp: hasPrefix_def)
  define sign where "sign = (if hasPrefix s ''-'' then ''-'' else [])"
  have "length sign \<le> length s" using ne by (auto simp: sign_def Suc_le_eq)
  then have dr: "drop (length sign) (s @ r) = drop (length sign) s @ r" by simp
  obtain d t where d: "digits (drop (length sign) s) = (d, t)" by force
  define whole where "whole = (if hasPrefix d ''0'' then (''0'', drop 1 d @ t) else (d, t))"
  obtain f v e where fv: "parseFrac (snd whole) = Some (f, v)" "parseExp v = Some (e, u)" "x = sign @ fst whole @ f @ e" "d \<noteq> []"
    using p unfolding parseNum_def Let_def sign_def [symmetric] d prod.case whole_def [symmetric]
    by (auto split: if_split_asm option.split_asm)
  have w: "(if hasPrefix d ''0'' then (''0'', drop 1 d @ t @ r) else (d, t @ r)) = (fst whole, snd whole @ r)"
    by (simp add: whole_def)
  show ?thesis
    unfolding parseNum_def Let_def pre sign_def [symmetric] dr digits_append [OF r] d
    using fv parseFrac_append [OF r fv(1)] parseExp_append [OF r fv(2)] by (simp add: w)
qed

lemma parseNum_hd: "parseNum (c # s) = Some (x, u) \<Longrightarrow> is_digit c \<or> c = CHR ''-''"
  by (auto simp: parseNum_def Let_def digits_def hasPrefix_def split: if_splits)


section \<open>More text behind a value\<close>

lemma getu4_append: "getu4 s = Some (a, u) \<Longrightarrow> getu4 (s @ r) = Some (a, u @ r)"
  by (cases s rule: getu4.cases) (auto split: option.splits list.splits)

lemma joinSurrogate_append:
  assumes j: "joinSurrogate a s = (b, t)" and p: "parseStr n t = Some (x, u)"
  shows "joinSurrogate a (s @ r) = (b, t @ r)"
proof (cases "\<exists>a2 t2. hasPrefix s [CHR 0x5C, CHR ''u''] \<and> getu4 (drop 2 s) = Some (a2, t2)")
  case True
  then obtain q a2 t2 where s: "s = CHR 0x5C # CHR ''u'' # q" "getu4 q = Some (a2, t2)" by (auto simp: hasPrefix_iff)
  then show ?thesis using j getu4_append [OF s(2), of r] by (auto simp: joinSurrogate_def hasPrefix_def split: if_splits)
next
  case False
  then have t: "t = s" using j by (auto simp: joinSurrogate_def split: if_splits option.splits)
  obtain m c q where s: "n = Suc m" "s = c # q" using p t by (cases n; cases s) auto
  have "\<not> hasPrefix (s @ r) [CHR 0x5C, CHR ''u'']"
    using p False unfolding t s by (cases q) (auto simp: hasPrefix_def split: if_splits option.splits)
  moreover from this have "\<not> hasPrefix s [CHR 0x5C, CHR ''u'']" by (auto simp: hasPrefix_iff)
  ultimately show ?thesis using j t by (auto simp: joinSurrogate_def split: if_splits)
qed

lemma decodeRune_append:
  assumes "decodeRune (b # bs) = d" "x \<in> set bs" "x < 128"
  shows "decodeRune (b # bs @ cs) = d"
proof -
  consider y where "bs = [y]" | y z where "bs = [y, z]" | y z w ds where "bs = y # z # w # ds"
    using assms(2) by (cases bs; cases "tl bs"; cases "tl (tl bs)") auto
  then show ?thesis using assms by cases (auto simp: second_ok_def is_cont_def split: if_splits)
qed

text \<open>The branches of a string that is read.\<close>

lemma parseStr_cases:
  assumes "parseStr n s = Some (x, u)"
  obtains (quote) m where "n = Suc m" "s = CHR 0x22 # u" "x = []"
  | (code) m t a v b w y where "n = Suc m" "s = CHR 0x5C # CHR ''u'' # t" "getu4 t = Some (a, v)" "joinSurrogate a v = (b, w)"
      "parseStr m w = Some (y, u)" "x = map char_of (encodeRune b) @ y"
  | (esc) m d t e y where "n = Suc m" "s = CHR 0x5C # d # t" "d \<noteq> CHR ''u''" "escChar d = Some e" "parseStr m t = Some (y, u)" "x = e # y"
  | (ascii) m c t y where "n = Suc m" "s = c # t" "c \<noteq> CHR 0x22" "c \<noteq> CHR 0x5C" "\<not> byteN c < 32" "byteN c < 128"
      "parseStr m t = Some (y, u)" "x = c # y"
  | (bad) m c t y where "n = Suc m" "s = c # t" "c \<noteq> CHR 0x22" "c \<noteq> CHR 0x5C" "\<not> byteN c < 128" "decodeRune (map byteN (c # t)) = None"
      "parseStr m t = Some (y, u)" "x = map char_of (encodeRune runeError) @ y"
  | (rune) m c t a w y where "n = Suc m" "s = c # t" "c \<noteq> CHR 0x22" "c \<noteq> CHR 0x5C" "\<not> byteN c < 128"
      "decodeRune (map byteN (c # t)) = Some (a, w)" "parseStr m (drop (w - 1) t) = Some (y, u)" "x = take w (c # t) @ y"
proof -
  obtain m c t where n: "n = Suc m" and s: "s = c # t" using assms by (cases n; cases s) auto
  have "byteN (CHR 0x22) = 34" "byteN (CHR 0x5C) = 92" by (simp_all add: byteN_def)
  then consider "c = CHR 0x22" | "c = CHR 0x5C" | "c \<noteq> CHR 0x22 \<and> c \<noteq> CHR 0x5C \<and> \<not> byteN c < 32 \<and> byteN c < 128"
    | "c \<noteq> CHR 0x22 \<and> c \<noteq> CHR 0x5C \<and> \<not> byteN c < 128" using assms n s by (auto split: if_splits)
  then show thesis
  proof cases
    case 1
    then show ?thesis using assms n s quote by auto
  next
    case 2
    then obtain d q where t: "t = d # q" using assms n s by (cases t) auto
    show ?thesis
    proof (cases "d = CHR ''u''")
      case True
      then obtain a v b w y where g: "getu4 q = Some (a, v)" "joinSurrogate a v = (b, w)"
          "parseStr m w = Some (y, u)" "x = map char_of (encodeRune b) @ y"
        using assms n s 2 t by (auto split: option.splits prod.splits)
      show ?thesis by (rule code [OF n _ g]) (use s 2 t True in simp)
    next
      case False
      then obtain e y where g: "escChar d = Some e" "parseStr m q = Some (y, u)" "x = e # y"
        using assms n s 2 t by (auto split: option.splits)
      show ?thesis by (rule esc [OF n _ False g]) (use s 2 t in simp)
    qed
  next
    case 3
    then obtain y where "parseStr m t = Some (y, u)" "x = c # y" using assms n s by auto
    then show ?thesis using ascii [OF n s] 3 by blast
  next
    case 4
    show ?thesis
    proof (cases "decodeRune (map byteN (c # t))")
      case None
      then obtain y where "parseStr m t = Some (y, u)" "x = map char_of (encodeRune runeError) @ y" using assms n s 4 by auto
      then show ?thesis using bad [OF n s _ _ _ None] 4 by blast
    next
      case (Some p)
      obtain a w where p: "p = (a, w)" by (cases p)
      then obtain y where "parseStr m (drop (w - 1) t) = Some (y, u)" "x = take w (c # t) @ y" using assms n s 4 Some by auto
      then show ?thesis using rune [OF n s _ _ _ Some [unfolded p]] 4 by blast
    qed
  qed
qed

lemma parseStr_quote: "parseStr n s = Some (x, u) \<Longrightarrow> CHR 0x22 \<in> set s"
proof (induction n arbitrary: s x u)
  case (Suc n)
  from Suc.prems show ?case
  proof (cases rule: parseStr_cases)
    case (code m t a v b w y)
    then show ?thesis using Suc.IH [of w] set_mono_suffix [OF getu4_suffix [OF code(3)]] set_mono_suffix [OF joinSurrogate_suffix [OF code(4)]] by auto
  next
    case (rune m c t a w y)
    then show ?thesis using Suc.IH [of "drop (w - 1) t"] set_drop_subset [of "w - 1" t] by auto
  qed (use Suc.IH in auto)
qed simp

lemma parseStr_append: "parseStr n s = Some (x, u) \<Longrightarrow> n \<le> m \<Longrightarrow> parseStr m (s @ r) = Some (x, u @ r)"
proof (induction n arbitrary: s x u m)
  case (Suc n)
  obtain k where m: "m = Suc k" "n \<le> k" using Suc.prems(2) by (cases m) auto
  have "byteN (CHR 0x22) = 34" by (simp add: byteN_def)
  then have q: "34 \<in> set (map byteN t)" if "CHR 0x22 \<in> set t" for t using that by (metis imageI list.set_map)
  from Suc.prems(1) show ?case
  proof (cases rule: parseStr_cases)
    case (code n' t a v b w y)
    then have "parseStr k (w @ r) = Some (y, u @ r)" using Suc.IH [of w y u k] m by simp
    then show ?thesis using code getu4_append [OF code(3), of r] joinSurrogate_append [OF code(4,5), of r] by (simp add: m)
  next
    case (esc n' d t e y)
    then show ?thesis using Suc.IH [of t y u k] m by simp
  next
    case (ascii n' c t y)
    then show ?thesis using Suc.IH [of t y u k] m by simp
  next
    case (bad n' c t y)
    have "decodeRune (byteN c # map byteN t @ map byteN r) = None"
      using decodeRune_append [OF _ q [OF parseStr_quote [OF bad(7)]], of "byteN c" _ "map byteN r"] bad(6) by simp
    then show ?thesis using bad Suc.IH [of t y u k] m by (simp del: decodeRune.simps)
  next
    case (rune n' c t a w y)
    have d: "decodeRune (byteN c # map byteN t @ map byteN r) = Some (a, w)"
      using decodeRune_prefix [OF rune(6), of "drop w (map byteN (c # t)) @ map byteN r"]
      by (simp only: append_assoc [symmetric] append_take_drop_id) simp
    have w: "1 \<le> w" "w \<le> Suc (length t)" using decodeRune_width [of "byteN c # map byteN t" a w] rune(6) by simp_all
    then have "drop (w - 1) (t @ r) = drop (w - 1) t @ r" "take w (c # t @ r) = take w (c # t)" by (cases w; simp)+
    then show ?thesis using rune d Suc.IH [of "drop (w - 1) t" y u k] m by (simp del: decodeRune.simps)
  qed (simp add: m)
qed simp

lemma skipws_append: "skipws s = c # t \<Longrightarrow> skipws (s @ r) = c # t @ r"
  unfolding skipws_def by (induction s) auto

lemma parse_blank:
  assumes "skipws t = []"
  shows "parseValue n t = None" "parseItems n t = None" "parseMembers n t = None"
proof -
  have v: "parseValue n t = None" for n using assms by (cases n) simp_all
  show "parseValue n t = None" "parseItems n t = None" "parseMembers n t = None"
    using v assms by (cases n; simp del: parseValue.simps)+
qed

lemma parse_append:
  assumes r: "stops r"
  shows "parseValue n s = Some (v, u) \<Longrightarrow> n \<le> m \<Longrightarrow> parseValue m (s @ r) = Some (v, u @ r)"
    "parseItems n s = Some (vs, u) \<Longrightarrow> n \<le> m \<Longrightarrow> parseItems m (s @ r) = Some (vs, u @ r)"
    "parseMembers n s = Some (ms, u) \<Longrightarrow> n \<le> m \<Longrightarrow> parseMembers m (s @ r) = Some (ms, u @ r)"
proof (induction n s and n s and n s arbitrary: v u m and vs u m and ms u m rule: parseValue_parseItems_parseMembers.induct)
  case (2 n s)
  obtain k where m: "m = Suc k" "n \<le> k" using "2.prems"(2) by (cases m) auto
  obtain c t where s: "skipws s = c # t" using "2.prems"(1) by (cases "skipws s") auto
  note sr = skipws_append [OF s, of r]
  have ne: "skipws t \<noteq> []" if "c = CHR ''{'' \<or> c = CHR ''[''"
  proof
    assume "skipws t = []"
    then show False using "2.prems"(1) s that parse_blank [of t n] by (auto simp: hasPrefix_def)
  qed
  consider (q) "c = CHR 0x22" | (brace) "c = CHR ''{''" | (bracket) "c = CHR ''[''" | (other) "c \<notin> {CHR 0x22, CHR ''{'', CHR ''[''}" by blast
  then show ?case
  proof cases
    case q
    then obtain x where "parseStr (Suc (length t)) t = Some (x, u)" "v = JStr x" using "2.prems"(1) s by auto
    then show ?thesis using parseStr_append [of "Suc (length t)" t x u "Suc (length (t @ r))" r] q sr by (simp add: m)
  next
    case brace
    obtain d y where d: "skipws t = d # y" using ne brace by (cases "skipws t") auto
    show ?thesis
    proof (cases "d = CHR ''}''")
      case True
      then show ?thesis using brace sr skipws_append [OF d] d "2.prems"(1) s by (simp add: m hasPrefix_def)
    next
      case False
      then obtain ms where "parseMembers n t = Some (ms, u)" "v = JObj ms" using "2.prems"(1) s brace d by (auto simp: hasPrefix_def)
      then show ?thesis using "2.IH"(1) [OF s _ brace _, of ms u k] False brace sr skipws_append [OF d] d m by (simp add: hasPrefix_def)
    qed
  next
    case bracket
    obtain d y where d: "skipws t = d # y" using ne bracket by (cases "skipws t") auto
    show ?thesis
    proof (cases "d = CHR '']''")
      case True
      then show ?thesis using bracket sr skipws_append [OF d] d "2.prems"(1) s by (simp add: m hasPrefix_def)
    next
      case False
      then obtain xs where "parseItems n t = Some (xs, u)" "v = JArr xs" using "2.prems"(1) s bracket d by (auto simp: hasPrefix_def)
      then show ?thesis using "2.IH"(2) [OF s _ _ bracket _, of xs u k] False bracket sr skipws_append [OF d] d m by (simp add: hasPrefix_def)
    qed
  next
    case other
    consider (n) "hasPrefix (c # t) ''null''" | (t) "hasPrefix (c # t) ''true''" | (f) "hasPrefix (c # t) ''false''"
      | (num) x where "\<not> hasPrefix (c # t) ''null''" "\<not> hasPrefix (c # t) ''true''" "\<not> hasPrefix (c # t) ''false''"
        "parseNum (c # t) = Some (x, u)" "v = JNum x"
      using "2.prems"(1) s other by (auto split: if_splits)
    then show ?thesis
    proof cases
      case n
      then obtain q where "c = CHR ''n''" "t = ''ull'' @ q" by (auto simp: hasPrefix_iff)
      then show ?thesis using sr "2.prems"(1) s by (simp add: m hasPrefix_def)
    next
      case t
      then obtain q where "c = CHR ''t''" "t = ''rue'' @ q" by (auto simp: hasPrefix_iff)
      then show ?thesis using sr "2.prems"(1) s by (simp add: m hasPrefix_def)
    next
      case f
      then obtain q where "c = CHR ''f''" "t = ''alse'' @ q" by (auto simp: hasPrefix_iff)
      then show ?thesis using sr "2.prems"(1) s by (simp add: m hasPrefix_def)
    next
      case num
      have "is_digit c \<or> c = CHR ''-''" using parseNum_hd [OF num(4)] .
      then have "c \<noteq> CHR ''n''" "c \<noteq> CHR ''t''" "c \<noteq> CHR ''f''" by (auto simp: is_digit_def byteN_def)
      then show ?thesis using parseNum_append [OF r num(4)] other sr num(5) by (simp add: m hasPrefix_def)
    qed
  qed
next
  case (4 n s)
  obtain k where m: "m = Suc k" "n \<le> k" using "4.prems"(2) by (cases m) auto
  obtain v t where v: "parseValue n s = Some (v, t)" using "4.prems"(1) by (cases "parseValue n s") auto
  have v': "parseValue k (s @ r) = Some (v, t @ r)" using "4.IH"(1) [OF v m(2)] .
  obtain c w where c: "skipws t = c # w" using "4.prems"(1) v by (cases "skipws t") auto
  note c' = skipws_append [OF c, of r]
  show ?case
  proof (cases "c = CHR '']''")
    case True
    then show ?thesis using "4.prems"(1) v c v' c' by (simp add: m del: parseValue.simps)
  next
    case False
    then obtain ws where w: "parseItems n w = Some (ws, u)" "c = CHR '',''" "vs = v # ws" using "4.prems"(1) v c by (auto split: if_splits)
    have "parseItems k (w @ r) = Some (ws, u @ r)" using "4.IH"(2) [OF v refl c False w(2) w(1) m(2)] .
    then show ?thesis using w v' c' by (simp add: m del: parseValue.simps)
  qed
next
  case (6 n s)
  obtain k where m: "m = Suc k" "n \<le> k" using "6.prems"(2) by (cases m) auto
  obtain s' where q: "skipws s = CHR 0x22 # s'" using "6.prems"(1) by (cases "skipws s") (auto split: if_splits)
  obtain key t where key: "parseStr (Suc (length s')) s' = Some (key, t)" using "6.prems"(1) q by (cases "parseStr (Suc (length s')) s'") auto
  obtain w where w: "skipws t = CHR '':'' # w" using "6.prems"(1) q key by (cases "skipws t") (auto split: if_splits)
  obtain v x where v: "parseValue n w = Some (v, x)" using "6.prems"(1) q key w by (cases "parseValue n w") auto
  obtain d y where d: "skipws x = d # y" using "6.prems"(1) q key w v by (cases "skipws x") auto
  have key': "parseStr (Suc (length (s' @ r))) (s' @ r) = Some (key, t @ r)" by (rule parseStr_append [OF key]) simp
  have v': "parseValue k (w @ r) = Some (v, x @ r)" using "6.IH"(1) [OF q _ key refl w _ v m(2)] by simp
  note ws = skipws_append [OF q, of r] skipws_append [OF w, of r] skipws_append [OF d, of r]
  show ?case
  proof (cases "d = CHR ''}''")
    case True
    then show ?thesis using "6.prems"(1) q key w v d key' v' ws by (simp add: m del: parseValue.simps parseStr.simps)
  next
    case False
    then obtain ns where y: "parseMembers n y = Some (ns, u)" "d = CHR '',''" "ms = (key, v) # ns"
      using "6.prems"(1) q key w v d by (auto simp del: parseValue.simps parseStr.simps split: if_splits)
    have "parseMembers k (y @ r) = Some (ns, u @ r)" using "6.IH"(2) [OF q _ key refl w _ v refl d False y(2) y(1) m(2)] by simp
    then show ?thesis using y key' v' ws by (simp add: m del: parseValue.simps parseStr.simps)
  qed
qed simp_all

section \<open>Texts of values and of objects\<close>

text \<open>The text of one value, without white space around it.\<close>

definition value_text :: "string \<Rightarrow> json \<Rightarrow> bool" where
  "value_text raw v \<longleftrightarrow> parseJson raw = Some v \<and> raw \<noteq> [] \<and> \<not> is_ws (hd raw) \<and> \<not> is_ws (last raw)"

lemma value_text_whole:
  assumes "value_text raw v" shows "parseValue (2 * length raw + 2) raw = Some (v, [])"
proof -
  obtain w where w: "parseValue (2 * length raw + 2) raw = Some (v, w)" "skipws w = []"
    using assms by (auto simp: value_text_def parseJson_def simp del: parseValue.simps split: option.splits if_splits)
  have "w = []"
  proof (rule ccontr)
    assume ne: "w \<noteq> []"
    then have "last raw = last w" using parse_suffix(1) [OF w(1)] by (auto simp: suffix_def)
    moreover have "\<forall>c \<in> set w. is_ws c" using w(2) by (simp add: skipws_def)
    ultimately show False using assms ne by (simp add: value_text_def)
  qed
  then show ?thesis using w(1) by simp
qed

lemma value_text_parse:
  assumes "value_text raw v" "stops r" "2 * length raw + 2 \<le> n"
  shows "parseValue n (raw @ r) = Some (v, r)"
  using parse_append(1) [OF assms(2) value_text_whole [OF assms(1)] assms(3)] by simp

lemma value_text_skipws: "value_text raw v \<Longrightarrow> skipws (raw @ r) = raw @ r"
  by (cases raw) (auto simp: value_text_def skipws_def)

lemma value_text_raw: "value_text raw v \<Longrightarrow> rawText (raw @ r) r = raw"
  by (simp add: rawText_def value_text_skipws)

text \<open>An object with its members in order; the names are written as they are.\<close>

fun membersText :: "(string \<times> string) list \<Rightarrow> string" where
  "membersText [] = []"
| "membersText ((k, raw) # ms) = [CHR 0x22] @ k @ [CHR 0x22] @ '':'' @ raw @ (if ms = [] then [] else '','' @ membersText ms)"

definition objectText :: "(string \<times> string) list \<Rightarrow> string" where
  "objectText ms = ''{'' @ membersText ms @ ''}''"

definition members_ok :: "(string \<times> string) list \<Rightarrow> (string \<Rightarrow> json) \<Rightarrow> bool" where
  "members_ok ms f \<longleftrightarrow> ms \<noteq> [] \<and> (\<forall>(k, raw) \<in> set ms. list_all plain k \<and> value_text raw (f raw))"

lemma membersText_step:
  fixes ms :: "(string \<times> string) list" and r :: string
  assumes "list_all plain k" "value_text raw v"
  defines "behind \<equiv> (if ms = [] then CHR ''}'' # r else CHR '','' # membersText ms @ CHR ''}'' # r)"
  shows "\<exists>s. skipws (membersText ((k, raw) # ms) @ CHR ''}'' # r) = CHR 0x22 # s \<and>
    parseStr (Suc (length s)) s = Some (k, CHR '':'' # raw @ behind) \<and> stops behind"
  using assms parseStr_plain [OF assms(1), of "Suc (length (k @ CHR 0x22 # CHR '':'' # raw @ behind))" "CHR '':'' # raw @ behind"]
  by (intro exI [of _ "k @ CHR 0x22 # CHR '':'' # raw @ behind"]) simp

lemma rawMembers_text:
  "members_ok ms f \<Longrightarrow> length ms \<le> n \<Longrightarrow> rawMembers n (membersText ms @ CHR ''}'' # r) = Some ms"
proof (induction ms arbitrary: n)
  case (Cons p ms)
  obtain k raw where p: "p = (k, raw)" by (cases p)
  obtain m where n: "n = Suc m" "length ms \<le> m" using Cons.prems(2) by (cases n) auto
  have t: "list_all plain k" "value_text raw (f raw)" using Cons.prems(1) p by (simp_all add: members_ok_def)
  define behind where "behind = (if ms = [] then CHR ''}'' # r else CHR '','' # membersText ms @ CHR ''}'' # r)"
  obtain s where s: "skipws (membersText (p # ms) @ CHR ''}'' # r) = CHR 0x22 # s"
      "parseStr (Suc (length s)) s = Some (k, CHR '':'' # raw @ behind)" "stops behind"
    using membersText_step [OF t, of ms r] unfolding behind_def [symmetric] p [symmetric] by (elim exE conjE) (rule that)
  have v: "parseValue (2 * length (raw @ behind) + 2) (raw @ behind) = Some (f raw, behind)"
    by (rule value_text_parse [OF t(2) s(3)]) simp
  show ?case
  proof (cases "ms = []")
    case True
    then show ?thesis using s v value_text_raw [OF t(2), of behind]
      by (simp add: n p behind_def del: parseValue.simps parseStr.simps membersText.simps)
  next
    case False
    then have "rawMembers m (membersText ms @ CHR ''}'' # r) = Some ms" using Cons.IH [of m] Cons.prems(1) n(2) by (auto simp: members_ok_def)
    then show ?thesis using False s v value_text_raw [OF t(2), of behind]
      by (simp add: n p behind_def del: parseValue.simps parseStr.simps membersText.simps)
  qed
qed (simp add: members_ok_def)

lemma parseMembers_text:
  "members_ok ms f \<Longrightarrow> 2 * length (membersText ms) \<le> n \<Longrightarrow>
    parseMembers n (membersText ms @ CHR ''}'' # r) = Some (map (\<lambda>(k, raw). (k, f raw)) ms, r)"
proof (induction ms arbitrary: n)
  case (Cons p ms)
  obtain k raw where p: "p = (k, raw)" by (cases p)
  obtain m where n: "n = Suc m" "2 * length raw + 2 \<le> m" "2 * length (membersText ms) \<le> m" using Cons.prems(2) p by (cases n) (auto split: if_splits)
  have t: "list_all plain k" "value_text raw (f raw)" using Cons.prems(1) p by (simp_all add: members_ok_def)
  define behind where "behind = (if ms = [] then CHR ''}'' # r else CHR '','' # membersText ms @ CHR ''}'' # r)"
  obtain s where s: "skipws (membersText (p # ms) @ CHR ''}'' # r) = CHR 0x22 # s"
      "parseStr (Suc (length s)) s = Some (k, CHR '':'' # raw @ behind)" "stops behind"
    using membersText_step [OF t, of ms r] unfolding behind_def [symmetric] p [symmetric] by (elim exE conjE) (rule that)
  have v: "parseValue m (raw @ behind) = Some (f raw, behind)" by (rule value_text_parse [OF t(2) s(3) n(2)])
  show ?case
  proof (cases "ms = []")
    case True
    then show ?thesis using s v by (simp add: n p behind_def del: parseValue.simps parseStr.simps membersText.simps)
  next
    case False
    then have "parseMembers m (membersText ms @ CHR ''}'' # r) = Some (map (\<lambda>(k, raw). (k, f raw)) ms, r)"
      using Cons.IH [of m] Cons.prems(1) n(3) by (auto simp: members_ok_def)
    then show ?thesis using False s v by (simp add: n p behind_def del: parseValue.simps parseStr.simps membersText.simps)
  qed
qed (simp add: members_ok_def)

lemma objectText_parse:
  assumes "members_ok ms f"
  shows "rawObject (objectText ms) = Some ms" "value_text (objectText ms) (JObj (map (\<lambda>(k, raw). (k, f raw)) ms))"
proof -
  obtain k raw ms' where ms: "ms = (k, raw) # ms'" using assms by (cases ms) (auto simp: members_ok_def)
  have "length ms \<le> length (membersText ms)" by (induction ms rule: membersText.induct) auto
  then show "rawObject (objectText ms) = Some ms"
    using rawMembers_text [OF assms, of "Suc (length (membersText ms @ ''}''))" "[]"]
    by (simp add: rawObject_def objectText_def hasPrefix_def ms del: rawMembers.simps)
  have "parseMembers (2 * length (objectText ms) + 1) (membersText ms @ ''}'') = Some (map (\<lambda>(k, raw). (k, f raw)) ms, [])"
    using parseMembers_text [OF assms, of "2 * length (objectText ms) + 1" "[]"] by (simp add: objectText_def del: parseMembers.simps)
  moreover have "\<not> hasPrefix (skipws (membersText ms @ ''}'')) ''}''" by (simp add: ms hasPrefix_def)
  ultimately have "parseValue (2 * length (objectText ms) + 2) (objectText ms) = Some (JObj (map (\<lambda>(k, raw). (k, f raw)) ms), [])"
    by (simp add: objectText_def del: parseMembers.simps)
  then show "value_text (objectText ms) (JObj (map (\<lambda>(k, raw). (k, f raw)) ms))"
    by (simp add: value_text_def parseJson_def objectText_def is_ws_def byteN_def skipws_def del: parseValue.simps)
qed

lemma decode_objectText:
  assumes "members_ok ms f" shows "decodeRawStruct step zero (objectText ms) = decodeRaw step ms zero"
  using objectText_parse [OF assms] by (simp add: decodeRawStruct_def value_text_def)

end
