(* ===== verification/Client_Transport_Props.thy ===== *)
theory Client_Transport_Props
  imports Client_Transport Json_Append
begin

text \<open>What a caller of the transports gets: no answer after a refusal, and the provider's own error for a failed call.\<close>

section \<open>Signals\<close>

text \<open>A signal that is given before the select wakes is never lost, whichever alternative the select takes.\<close>

lemma limit_signal_wins:
  assumes "wake_ready limited response contextDone w" "limited \<longrightarrow> limitLater" "limited"
  shows "awaitLimitedStdioResponse w limitLater = Inl LimitExceeded"
  using assms by (cases w) (auto simp: awaitLimitedStdioResponse_def)

lemma validation_signal_wins:
  assumes "wake_ready (failed \<noteq> None) response contextDone w" "failed = Some e" "failedLater = failed"
  shows "sendRequestOnce w failed failedLater = Inl e"
  using assms by (cases w) (auto simp: sendRequestOnce_def)

lemma response_unrefused:
  assumes "wake_ready (failed \<noteq> None) response contextDone w" "sendRequestOnce w failed failedLater = Inr r"
  shows "response = Some (Inr r) \<and> failedLater = None"
  using assms by (cases w) (auto simp: sendRequestOnce_def wake_ready_def split: option.splits)

lemma stdio_limit_final:
  assumes "lt_inner t" "lt_process t" "\<not> lt_limit t"
  shows "stdio_SendRequest w l (signalLimit t) = Inl LimitExceeded" "stdio_SendNotification sent (signalLimit t) = Some LimitExceeded"
    "lt_kills (signalLimit (signalLimit t)) = lt_kills t + 1"
  using assms by (simp_all add: signalLimit_def stdio_SendRequest_def stdio_SendNotification_def Let_def)

lemma stdio_closed: "lt_closed (snd (stdio_Close c w t)) \<and> stdio_Close c' w' (snd (stdio_Close c w t)) = ([], snd (stdio_Close c w t))"
  by (simp add: stdio_Close_def Let_def)

text \<open>Handlers set before or after the start are the handlers of the inner transport.\<close>

definition handlers_installed :: "limitedStdioTransport \<Rightarrow> bool" where
  "handlers_installed t \<longleftrightarrow> (lt_inner t \<longrightarrow> lt_innerNotification t = lt_notificationHandler t \<and> lt_innerRequest t = lt_requestHandler t)"

lemma handlers_kept:
  "handlers_installed newLimitedStdioTransport"
  "handlers_installed t \<Longrightarrow> handlers_installed (SetNotificationHandler h t)"
  "handlers_installed t \<Longrightarrow> handlers_installed (SetRequestHandler h t)"
  "handlers_installed t \<Longrightarrow> handlers_installed (snd (Start l t))"
  "handlers_installed t \<Longrightarrow> handlers_installed (signalLimit t)"
  by (auto simp: handlers_installed_def newLimitedStdioTransport_def SetNotificationHandler_def SetRequestHandler_def Start_def
      attachInner_def installInboundHandlers_def signalLimit_def Let_def split: launch.splits)

section \<open>Failed calls\<close>
















lemma call_never_error_response:
  "fst (sendAttempts lib (ml_callMethod lib) once is v) = Response (Some r) \<Longrightarrow> rp_error r = None"
proof (induction "is" arbitrary: v)
  case (Cons i "is")
  then show ?case
    by (auto simp: afterResponse_def Let_def split: prod.splits sum.splits option.splits if_splits)
qed simp

end
