(* ===== verification/Server_Filter.thy ===== *)
theory Server_Filter
  imports Frames Response_Limit_Lines
begin

text \<open>
  The filters in front of the outward MCP server: the reader of its standard input and the HTTP middleware,
  \<^verbatim>\<open>internal/server/protocol_validation.go\<close> and the middleware of \<^verbatim>\<open>internal/server/server.go\<close>.

  The constants of mcp-go and its test for modern protocol versions are the fields of \<open>protocol\<close>;
  \<open>pt_listenVersion\<close> decodes the parameters of a subscription and reads the protocol version of their metadata.
\<close>

record protocol =
  pt_versionKey :: string
  pt_capabilitiesKey :: string
  pt_isModern :: "string \<Rightarrow> bool"
  pt_listenMethod :: string
  pt_listenVersion :: "string \<Rightarrow> string option"
  pt_jsonrpc :: string
  pt_invalidParams :: int
  pt_methodNotFound :: int

section \<open>Refused messages\<close>

record requestEnvelope =
  rq_id :: string
  rq_method :: string
  rq_params :: string
  rq_meta :: "(string, string) gomap"

definition emptyEnvelope :: requestEnvelope where
  "emptyEnvelope = \<lparr>rq_id = [], rq_method = [], rq_params = [], rq_meta = []\<rparr>"

text \<open>A \<^verbatim>\<open>map[string]json.RawMessage\<close>: later members replace earlier ones.\<close>

definition decodeRawMap :: "string \<Rightarrow> (string, string) gomap \<Rightarrow> (string, string) gomap option" where
  "decodeRawMap raw m =
     (case parseJson raw of
        Some JNull \<Rightarrow> Some []
      | Some (JObj _) \<Rightarrow> map_option (\<lambda>ms. fold (\<lambda>(k, v). put k v) ms m) (rawObject raw)
      | _ \<Rightarrow> None)"

definition paramsField :: "string \<Rightarrow> string \<Rightarrow> requestEnvelope \<Rightarrow> requestEnvelope option" where
  "paramsField k raw e = (if k = ''_meta'' then map_option (\<lambda>m. e\<lparr>rq_meta := m\<rparr>) (decodeRawMap raw (rq_meta e)) else Some e)"

definition metadataField :: "string \<Rightarrow> string \<Rightarrow> requestEnvelope \<Rightarrow> requestEnvelope option" where
  "metadataField k raw e =
     (if k = ''id'' then Some (e\<lparr>rq_id := raw\<rparr>)
      else if k = ''params'' then decodeRawStruct paramsField e raw
      else Some e)"

definition subscriptionField :: "string \<Rightarrow> string \<Rightarrow> requestEnvelope \<Rightarrow> requestEnvelope option" where
  "subscriptionField k raw e =
     (if k = ''id'' then Some (e\<lparr>rq_id := raw\<rparr>)
      else if k = ''method'' then
        (case parseJson raw of Some JNull \<Rightarrow> Some e | Some (JStr s) \<Rightarrow> Some (e\<lparr>rq_method := s\<rparr>) | _ \<Rightarrow> None)
      else if k = ''params'' then Some (e\<lparr>rq_params := raw\<rparr>)
      else Some e)"

text \<open>The string in a raw value; \<^verbatim>\<open>null\<close> leaves the empty string.\<close>

definition rawString :: "string \<Rightarrow> string option" where
  "rawString raw = (case parseJson raw of Some JNull \<Rightarrow> Some [] | Some (JStr s) \<Rightarrow> Some s | _ \<Rightarrow> None)"

definition isRawObject :: "string \<Rightarrow> bool" where
  "isRawObject raw = (case parseJson raw of Some (JObj _) \<Rightarrow> True | _ \<Rightarrow> False)"

definition modernMetadataError :: "protocol \<Rightarrow> string \<Rightarrow> (string \<times> string) option" where
  "modernMetadataError p message =
     (case decodeRawStruct metadataField emptyEnvelope message of None \<Rightarrow> None
      | Some env \<Rightarrow>
        (case Option.bind (get (rq_meta env) (pt_versionKey p)) rawString of None \<Rightarrow> None
         | Some version \<Rightarrow>
           if \<not> pt_isModern p version then None
           else (case get (rq_meta env) (pt_capabilitiesKey p) of
                   Some raw \<Rightarrow> if isRawObject raw then None
                               else Some (rq_id env, ''missing or invalid _meta field '' @ pt_capabilitiesKey p)
                 | None \<Rightarrow> Some (rq_id env, ''missing or invalid _meta field '' @ pt_capabilitiesKey p))))"

definition modernUnsupportedSubscription :: "protocol \<Rightarrow> string \<Rightarrow> (string \<times> string) option" where
  "modernUnsupportedSubscription p message =
     (case decodeRawStruct subscriptionField emptyEnvelope message of None \<Rightarrow> None
      | Some env \<Rightarrow>
        if rq_method env \<noteq> pt_listenMethod p then None
        else case pt_listenVersion p (rq_params env) of None \<Rightarrow> None
        | Some version \<Rightarrow> if pt_isModern p version then Some (rq_id env, version) else None)"

text \<open>\<^verbatim>\<open>json.Marshal\<close> of a raw message: compact, with the characters of HTML escaped.\<close>

fun escapeHTML :: "string \<Rightarrow> string" where
  "escapeHTML (a # b # c # s) =
     (if a = CHR ''<'' \<or> a = CHR ''>'' \<or> a = CHR ''&'' then uesc (byteN a) @ escapeHTML (b # c # s)
      else if byteN a = 226 \<and> byteN b = 128 \<and> (byteN c = 168 \<or> byteN c = 169) then uesc (8064 + byteN c) @ escapeHTML s
      else a # escapeHTML (b # c # s))"
| "escapeHTML (a # s) =
     (if a = CHR ''<'' \<or> a = CHR ''>'' \<or> a = CHR ''&'' then uesc (byteN a) @ escapeHTML s else a # escapeHTML s)"
| "escapeHTML [] = []"

definition modernProtocolErrorResponse :: "protocol \<Rightarrow> string \<Rightarrow> int \<Rightarrow> string \<Rightarrow> string" where
  "modernProtocolErrorResponse p rid code message =
     (let raw = (if rid = [] then ''null'' else rid)
      in ''{'' @ jsonString ''jsonrpc'' @ '':'' @ jsonString (pt_jsonrpc p) @ '','' @
         jsonString ''id'' @ '':'' @ escapeHTML (compactText False raw) @ '','' @
         jsonString ''error'' @ '':'' @ jsonText (JObj [(''code'', JInt code), (''message'', JStr message)]) @ ''}'')"

text \<open>The answer to a message that the filters keep from the server.\<close>

definition refusal :: "protocol \<Rightarrow> string \<Rightarrow> string option" where
  "refusal p message =
     (case modernMetadataError p message of
        Some (rid, text) \<Rightarrow> Some (modernProtocolErrorResponse p rid (pt_invalidParams p) text)
      | None \<Rightarrow>
        map_option (\<lambda>(rid, _). modernProtocolErrorResponse p rid (pt_methodNotFound p) ''Method not found'')
          (modernUnsupportedSubscription p message))"

section \<open>Standard input\<close>

text \<open>\<open>in_written\<close> holds the responses the reader wrote itself; \<open>in_writeErr\<close> is the error of the writer, if it fails.\<close>

record requestInput =
  in_rest :: string
  in_err :: client_error
  in_written :: "string list"
  in_writeErr :: "client_error option"

text \<open>\<^verbatim>\<open>ReadBytes\<close> in the loop of \<^verbatim>\<open>Read\<close>: the first line that is passed on.\<close>

function nextRequest :: "protocol \<Rightarrow> requestInput fetch" where
  "nextRequest p r =
     (let line = firstLine (in_rest r); r1 = r\<lparr>in_rest := otherLines (in_rest r)\<rparr>;
          err = (if LF \<in> set (in_rest r) then None else Some (in_err r))
      in if line = [] then (([], err), r1)
         else case refusal p (trimFunc isSpace line) of
           Some response \<Rightarrow>
             (case in_writeErr r of
                Some e \<Rightarrow> (([], Some e), r1)
              | None \<Rightarrow>
                let r2 = r1\<lparr>in_written := in_written r1 @ [response @ [LF]]\<rparr>
                in case err of Some e \<Rightarrow> (([], Some e), r2) | None \<Rightarrow> nextRequest p r2)
         | None \<Rightarrow> ((line, err), r1))"
  by pat_completeness auto
termination
  by (relation "measure (\<lambda>(_, r). length (in_rest r))") (auto simp: otherLines_less)

declare nextRequest.simps [simp del]

definition request_Read :: "protocol \<Rightarrow> nat \<Rightarrow> requestInput framed \<Rightarrow> (string \<times> client_error option) \<times> requestInput framed" where
  "request_Read p = ReadFramed (nextRequest p)"

section \<open>HTTP\<close>

record httpRequest =
  hr_method :: string
  hr_authorization :: string
  hr_mediaType :: string
  hr_protocolVersion :: string
  hr_mcpMethod :: string
  hr_lastEventID :: string
  hr_body :: "(client_error + string) option"

text \<open>
  What a handler left in the response: its status, the protocol version header and the body; or it panicked, with
  that header, before anything was sent or after a status and a part of the body were.
\<close>

datatype httpReply =
    Replied (status: int) (reply_version: string) (reply_body: string)
  | Panicked (panic_version: string) (sent: "(int \<times> string) option")

text \<open>\<^verbatim>\<open>http.Error\<close>: the text and a line end.\<close>

definition errorReply :: "int \<Rightarrow> string \<Rightarrow> httpReply" where
  "errorReply code message = Replied code [] (message @ [LF])"

text \<open>A handler acts on the state of the server behind it.\<close>

type_synonym 'w handler = "httpRequest \<Rightarrow> 'w \<Rightarrow> httpReply \<times> 'w"

fun chainMiddleware :: "'w handler \<Rightarrow> ('w handler \<Rightarrow> 'w handler) list \<Rightarrow> 'w handler" where
  "chainMiddleware h [] = h"
| "chainMiddleware h (mw # mws) = chainMiddleware (mw h) mws"

definition bearer :: "httpRequest \<Rightarrow> string" where
  "bearer r = trimFunc isSpace (trimPrefix (hr_authorization r) ''Bearer '')"

definition newAuthMiddleware :: "string list \<Rightarrow> 'w handler \<Rightarrow> 'w handler" where
  "newAuthMiddleware toks nxt r w =
     (if toks \<noteq> [] then
        (if bearer r = [] then (errorReply 401 ''Unauthorized'', w)
         else if bearer r \<notin> set toks then (errorReply 401 ''Unauthorized'', w)
         else nxt r w)
      else nxt r w)"

definition loggerMiddleware :: "'w handler \<Rightarrow> 'w handler" where
  "loggerMiddleware nxt r w = nxt r w"

text \<open>A panic is answered with 500 only while nothing was sent; later the text is appended to what was.\<close>

definition recoverMiddleware :: "'w handler \<Rightarrow> 'w handler" where
  "recoverMiddleware nxt r w =
     (case nxt r w of
        (Panicked version None, w') \<Rightarrow> (Replied 500 version (''Internal Server Error'' @ [LF]), w')
      | (Panicked version (Some (code, body)), w') \<Rightarrow> (Replied code version (body @ ''Internal Server Error'' @ [LF]), w')
      | res \<Rightarrow> res)"

definition modernMetadataValidationMiddleware :: "protocol \<Rightarrow> string \<Rightarrow> 'w handler \<Rightarrow> 'w handler" where
  "modernMetadataValidationMiddleware p latest nxt r w =
     (if hr_method r \<noteq> ''POST'' then nxt r w
      else case hr_body r of None \<Rightarrow> nxt r w
      | Some (Inl e) \<Rightarrow> (errorReply 400 ''invalid request body'', w)
      | Some (Inr body) \<Rightarrow>
        (case modernMetadataError p body of
           Some (rid, message) \<Rightarrow> (Replied 400 latest (modernProtocolErrorResponse p rid (pt_invalidParams p) message), w)
         | None \<Rightarrow>
           (case modernUnsupportedSubscription p body of
              Some (rid, version) \<Rightarrow>
                if hr_mediaType r = ''application/json'' \<and> hr_protocolVersion r = version \<and>
                   hr_mcpMethod r = pt_listenMethod p \<and> hr_lastEventID r = []
                then (Replied 404 version (modernProtocolErrorResponse p rid (pt_methodNotFound p) ''Method not found''), w)
                else nxt r w
            | None \<Rightarrow> nxt r w)))"

text \<open>The handler of \<^verbatim>\<open>StartHTTPServer\<close>; the last middleware of the list sees a request first.\<close>

definition httpHandler :: "protocol \<Rightarrow> string \<Rightarrow> bool \<Rightarrow> string list \<Rightarrow> 'w handler \<Rightarrow> 'w handler" where
  "httpHandler p latest logEnabled authTokens base =
     chainMiddleware (modernMetadataValidationMiddleware p latest base)
       ([recoverMiddleware] @ (if logEnabled then [loggerMiddleware] else []) @
        (if authTokens \<noteq> [] then [newAuthMiddleware authTokens] else []))"

end
