(* ===== verification/Server_Filter_Props.thy ===== *)
theory Server_Filter_Props
  imports Server_Filter Json_Plain
begin

text \<open>What reaches the server behind the filters, and what the filters answer themselves.\<close>

section \<open>Standard input\<close>

definition passedOn :: "protocol \<Rightarrow> string \<Rightarrow> bool" where
  "passedOn p line \<longleftrightarrow> refusal p (trimFunc isSpace line) = None"

definition answers :: "protocol \<Rightarrow> string list \<Rightarrow> string list" where
  "answers p ls = List.map_filter (\<lambda>l. map_option (\<lambda>response. response @ [LF]) (refusal p (trimFunc isSpace l))) ls"

lemma answers_simps [simp]:
  "answers p [] = []"
  "passedOn p l \<Longrightarrow> answers p (l # ls) = answers p ls"
  "\<not> passedOn p l \<Longrightarrow> answers p (l # ls) = (the (refusal p (trimFunc isSpace l)) @ [LF]) # answers p ls"
  by (auto simp: answers_def passedOn_def map_filter_simps)

text \<open>One fetch: the refused lines before the next request are answered.\<close>

lemma nextRequest_lines:
  assumes "in_writeErr r = None"
  shows "case dropWhile (\<lambda>l. \<not> passedOn p l) (splitLines (in_rest r)) of
      [] \<Rightarrow> nextRequest p r = (([], Some (in_err r)), r\<lparr>in_rest := [], in_written := in_written r @ answers p (splitLines (in_rest r))\<rparr>)
    | l # ls \<Rightarrow> \<exists>err r'. nextRequest p r = ((l, err), r') \<and> l \<noteq> [] \<and> splitLines (in_rest r') = ls \<and> in_err r' = in_err r \<and> in_writeErr r' = None \<and>
        length (in_rest r') < length (in_rest r) \<and> (err = None \<or> (err = Some (in_err r) \<and> ls = [])) \<and>
        in_written r' @ answers p ls = in_written r @ answers p (splitLines (in_rest r))"
  using assms
proof (induction "length (in_rest r)" arbitrary: r rule: less_induct)
  case less
  show ?case
  proof (cases "in_rest r = []")
    case True
    then show ?thesis by (subst (1 2) nextRequest.simps) (simp add: firstLine_def otherLines_def)
  next
    case False
    define l where "l = firstLine (in_rest r)"
    define rest where "rest = otherLines (in_rest r)"
    have ne: "l \<noteq> []" and sp: "splitLines (in_rest r) = l # splitLines rest" and shorter: "length rest < length (in_rest r)"
      using False length_firstLine splitLines_ne otherLines_less by (auto simp: l_def rest_def)
    have last_line: "rest = []" if "LF \<notin> set (in_rest r)" using firstLine_no [OF that] by (simp add: rest_def)
    show ?thesis
    proof (cases "passedOn p l")
      case True
      then have "nextRequest p r = ((l, if LF \<in> set (in_rest r) then None else Some (in_err r)), r\<lparr>in_rest := rest\<rparr>)"
        using ne by (subst nextRequest.simps) (simp add: l_def rest_def passedOn_def Let_def)
      then show ?thesis using True sp ne last_line less.prems shorter by (auto simp: Let_def)
    next
      case no: False
      then obtain response where resp: "refusal p (trimFunc isSpace l) = Some response" by (auto simp: passedOn_def)
      define r2 where "r2 = r\<lparr>in_rest := rest, in_written := in_written r @ [response @ [LF]]\<rparr>"
      have step: "nextRequest p r = (if LF \<in> set (in_rest r) then nextRequest p r2 else (([], Some (in_err r)), r2))"
        using ne resp less.prems by (subst nextRequest.simps) (simp add: l_def rest_def r2_def Let_def)
      show ?thesis
      proof (cases "LF \<in> set (in_rest r)")
        case True
        have "length (in_rest r2) < length (in_rest r)" "in_writeErr r2 = None" using shorter less.prems by (simp_all add: r2_def)
        note IH = less.hyps [OF this]
        have dw: "dropWhile (\<lambda>l. \<not> passedOn p l) (splitLines (in_rest r)) = dropWhile (\<lambda>l. \<not> passedOn p l) (splitLines rest)"
          using no sp by simp
        have r2: "in_rest r2 = rest" "in_err r2 = in_err r" "in_written r2 = in_written r @ [response @ [LF]]" by (simp_all add: r2_def)
        show ?thesis
        proof (cases "dropWhile (\<lambda>l. \<not> passedOn p l) (splitLines rest)")
          case Nil
          then show ?thesis using IH step True no resp sp unfolding dw r2 by (simp add: r2_def del: dropWhile_eq_Nil_conv)
        next
          case (Cons x xs)
          then show ?thesis using IH step True no resp sp shorter unfolding dw r2 by (auto simp del: dropWhile_eq_Nil_conv)
        qed
      next
        case False
        then show ?thesis using step no resp sp last_line by (simp add: r2_def)
      qed
    qed
  qed
qed

text \<open>A source with a working writer.\<close>

definition passedLines :: "protocol \<Rightarrow> requestInput \<Rightarrow> string list" where
  "passedLines p r = filter (passedOn p) (splitLines (in_rest r))"

lemma filter_dropWhile: "filter P (dropWhile (\<lambda>x. \<not> P x) xs) = filter P xs"
  by (induction xs) auto

lemma nextRequest_failing_writer:
  assumes "in_writeErr r = Some e"
  shows "(\<exists>x r'. nextRequest p r = (([], Some x), r')) \<or>
    (\<exists>l err r'. nextRequest p r = ((l, err), r') \<and> l \<noteq> [] \<and> length (in_rest r') < length (in_rest r))"
proof -
  have "firstLine (in_rest r) = [] \<Longrightarrow> LF \<notin> set (in_rest r)" by (cases "in_rest r") (auto simp: firstLine_def split: if_splits)
  then show ?thesis
    using assms otherLines_less [of "in_rest r"]
    by (cases "firstLine (in_rest r) = []"; cases "refusal p (trimFunc isSpace (firstLine (in_rest r)))")
      (simp_all add: nextRequest.simps [of p r] Let_def)
qed

interpretation rq: frame_source "nextRequest p" "\<lambda>r. length (in_rest r)" for p
proof
  fix s :: requestInput and e s'
  assume "nextRequest p s = (([], e), s')"
  then show "e \<noteq> None"
    using nextRequest_lines [of s p] nextRequest_failing_writer [of s _ p]
    by (cases "in_writeErr s") (auto simp del: dropWhile_eq_Nil_conv split: list.splits)
next
  fix s :: requestInput and frame s'
  assume "nextRequest p s = ((frame, None), s')"
  then show "length (in_rest s') < length (in_rest s)"
    using nextRequest_lines [of s p] nextRequest_failing_writer [of s _ p]
    by (cases "in_writeErr s") (auto simp del: dropWhile_eq_Nil_conv split: list.splits)
qed

lemma delivered_requests:
  "in_writeErr r = None \<Longrightarrow>
   \<exists>t. rq.delivered p r = (concat (passedLines p r), in_err r, t) \<and> in_written t = in_written r @ answers p (splitLines (in_rest r))"
proof (induction "length (in_rest r)" arbitrary: r rule: less_induct)
  case less
  note lines = nextRequest_lines [OF less.prems, of p]
  show ?case
  proof (cases "dropWhile (\<lambda>l. \<not> passedOn p l) (splitLines (in_rest r))")
    case Nil
    then have "passedLines p r = []" using filter_dropWhile [of "passedOn p" "splitLines (in_rest r)"] by (simp add: passedLines_def del: dropWhile_eq_Nil_conv)
    then show ?thesis using lines Nil by (simp add: rq.delivered.simps [of p r] del: dropWhile_eq_Nil_conv)
  next
    case (Cons l ls)
    then have l: "passedOn p l" by (meson hd_dropWhile list.discI list.sel(1) dropWhile_eq_Cons_conv)
    obtain err r' where n: "nextRequest p r = ((l, err), r')" "splitLines (in_rest r') = ls" "in_err r' = in_err r" "in_writeErr r' = None"
        "length (in_rest r') < length (in_rest r)" "err = None \<or> (err = Some (in_err r) \<and> ls = [])"
        "in_written r' @ answers p ls = in_written r @ answers p (splitLines (in_rest r))"
      using lines Cons by auto
    have pl: "passedLines p r = l # passedLines p r'"
      using filter_dropWhile [of "passedOn p" "splitLines (in_rest r)"] Cons l n(2) by (simp add: passedLines_def)
    show ?thesis
    proof (cases err)
      case None
      then show ?thesis using less.hyps [OF n(5,4)] n pl by (auto simp: rq.delivered.simps [of p r])
    next
      case (Some x)
      then show ?thesis using n pl by (auto simp: rq.delivered.simps [of p r] passedLines_def)
    qed
  qed
qed

text \<open>C23: The server behind the reader of standard input gets every request line except the refused ones, unchanged and in
  order, whatever buffers it reads with; each refused line is answered with one error of its own, in order; then the
  input ends with its own error.
\<close>

theorem stdio_requests_filtered:
  assumes "in_writeErr r = None" "\<forall>k \<in> set ks. 0 < k" "length (in_rest r) < length ks"
  shows "\<exists>t. readAll (nextRequest p) ks (newFramed r) =
      (concat (filter (passedOn p) (splitLines (in_rest r))), Some (in_err r), t) \<and>
    in_written t = in_written r @ answers p (splitLines (in_rest r))"
proof -
  obtain t where d: "rq.delivered p r = (concat (passedLines p r), in_err r, t)" "in_written t = in_written r @ answers p (splitLines (in_rest r))"
    using delivered_requests [OF assms(1)] by blast
  obtain out e u where ra: "readAll (nextRequest p) ks (newFramed r) = (out, e, u)" by (metis prod.exhaust)
  have "length (concat (filter P ls)) \<le> length (concat ls)" for P and ls :: "string list" by (induction ls) auto
  then have "length (concat (passedLines p r)) < length ks"
    using assms(3) concat_splitLines [of "in_rest r"] by (metis (no_types) le_less_trans passedLines_def)
  then have "e \<noteq> None" using rq.readAll_view(3) [OF assms(2) ra] d by simp
  then obtain x where x: "e = Some x" by blast
  then show ?thesis using rq.readAll_view(2) [OF assms(2) ra x] d ra by (simp add: passedLines_def)
qed

definition sample_protocol :: protocol where
  "sample_protocol = \<lparr>pt_versionKey = ''v'', pt_capabilitiesKey = ''c'', pt_isModern = (\<lambda>v. v = ''m''), pt_listenMethod = ''l'',
     pt_listenVersion = (\<lambda>_. None), pt_jsonrpc = ''2.0'', pt_invalidParams = -32602, pt_methodNotFound = -32601\<rparr>"

definition sample_request :: string where
  "sample_request = ''{'' @ [CHR 0x22] @ ''id'' @ [CHR 0x22] @ '':1,'' @ [CHR 0x22] @ ''params'' @ [CHR 0x22] @ '':{'' @
     [CHR 0x22] @ ''_meta'' @ [CHR 0x22] @ '':{'' @ [CHR 0x22] @ ''v'' @ [CHR 0x22] @ '':'' @ [CHR 0x22] @ ''m'' @ [CHR 0x22] @ ''}}}''"

lemma sample_invalid: "modernMetadataError sample_protocol sample_request \<noteq> None"
  by code_simp

lemma sample_refused: "refusal sample_protocol sample_request \<noteq> None"
  using sample_invalid by (auto simp: refusal_def)

lemma sample_trim: "trimFunc isSpace sample_request = sample_request"
  by (rule trim_unspaced) (simp add: sample_request_def isSpace_def byteN_def)

text \<open>A request that is passed on and one that the reader answers itself.\<close>

theorem stdio_requests_filtered_witness:
  "\<exists>t. readAll (nextRequest sample_protocol) (replicate 90 7)
      (newFramed \<lparr>in_rest = [LF] @ sample_request, in_err = EndOfFile, in_written = [], in_writeErr = None\<rparr>) =
      ([LF], Some EndOfFile, t) \<and> in_written t = answers sample_protocol [sample_request] \<and> length (in_written t) = 1"
proof -
  have ls: "splitLines ([LF] @ sample_request) = [[LF], sample_request]"
    by (simp add: splitLines.simps firstLine_def otherLines_def LF_def sample_request_def)
  have e: "passedOn sample_protocol [LF]"
    by (simp add: passedOn_def trimFunc_def isSpace_def byteN_def LF_def refusal_def modernMetadataError_def modernUnsupportedSubscription_def
        decodeRawStruct_def parseJson_def skipws_def numeral_2_eq_2)
  have len: "length sample_request < 80" by (simp add: sample_request_def)
  have f: "\<not> passedOn sample_protocol sample_request" using sample_refused by (simp add: passedOn_def sample_trim)
  show ?thesis
    using stdio_requests_filtered [of "\<lparr>in_rest = [LF] @ sample_request, in_err = EndOfFile, in_written = [], in_writeErr = None\<rparr>" "replicate 90 7" sample_protocol]
      ls e f len by auto
qed

section \<open>HTTP\<close>

definition authorized :: "string list \<Rightarrow> httpRequest \<Rightarrow> bool" where
  "authorized toks r \<longleftrightarrow> toks = [] \<or> (bearer r \<noteq> [] \<and> bearer r \<in> set toks)"

text \<open>What the message filter does with a request: its own answer, or none when the request goes on.\<close>

definition filtered :: "protocol \<Rightarrow> string \<Rightarrow> httpRequest \<Rightarrow> httpReply option" where
  "filtered p latest r =
     (case (if hr_method r = ''POST'' then hr_body r else None) of
        None \<Rightarrow> None
      | Some (Inl _) \<Rightarrow> Some (errorReply 400 ''invalid request body'')
      | Some (Inr body) \<Rightarrow>
        (case modernMetadataError p body of
           Some (rid, message) \<Rightarrow> Some (Replied 400 latest (modernProtocolErrorResponse p rid (pt_invalidParams p) message))
         | None \<Rightarrow>
           (case modernUnsupportedSubscription p body of None \<Rightarrow> None
            | Some (rid, version) \<Rightarrow>
              if hr_mediaType r = ''application/json'' \<and> hr_protocolVersion r = version \<and> hr_mcpMethod r = pt_listenMethod p \<and> hr_lastEventID r = []
              then Some (Replied 404 version (modernProtocolErrorResponse p rid (pt_methodNotFound p) ''Method not found''))
              else None)))"

lemma filter_middleware:
  "modernMetadataValidationMiddleware p latest base r w = (case filtered p latest r of Some reply \<Rightarrow> (reply, w) | None \<Rightarrow> base r w)"
  by (auto simp: modernMetadataValidationMiddleware_def filtered_def split: option.splits sum.splits)

lemma filtered_replies: "filtered p latest r \<noteq> Some (Panicked version part)"
  by (auto simp: filtered_def errorReply_def split: option.splits sum.splits if_splits)

text \<open>With tokens configured, a request without one of them is answered with 401 and neither its body nor the
  server's state is touched.  An authorized request is answered by the message filter alone when the filter
  refuses it; every other one reaches the server as it came, and a panic there is answered as
  \<open>recoverMiddleware\<close> says.
\<close>

lemma http_requests_guarded:
  "httpHandler p latest logEnabled toks base r w =
     (if \<not> authorized toks r then (errorReply 401 ''Unauthorized'', w)
      else case filtered p latest r of Some reply \<Rightarrow> (reply, w) | None \<Rightarrow> recoverMiddleware base r w)"
proof -
  have rec: "recoverMiddleware (modernMetadataValidationMiddleware p latest base) r w =
      (case filtered p latest r of Some reply \<Rightarrow> (reply, w) | None \<Rightarrow> recoverMiddleware base r w)"
    using filtered_replies [of p latest r]
    by (auto simp: recoverMiddleware_def filter_middleware split: option.splits httpReply.splits prod.splits)
  show ?thesis
    by (cases logEnabled; cases "toks = []")
      (simp_all add: httpHandler_def newAuthMiddleware_def loggerMiddleware_def authorized_def rec cong: if_cong)
qed

end
