(* ===== verification/Spec2Isabelle.thy ===== *)
theory Spec2Isabelle
  imports Registry_Props Read_Props Describe_Props Describe_Record Search_Props Catalog_Props Manifest_Props Skill_Props Loader_Props Providers_Props Config_Props Boot Json_Scan_Props Response_Limit_Props Provider_Events_Props Client_Transport_Props Server_Filter_Props
begin

text \<open>
  A verification of Tappet, a broker between MCP clients and MCP tool providers written in Go.

  \<^bold>\<open>The program.\<close>  A \<^emph>\<open>capability package\<close> is a directory with a manifest, skill documents and context files.  At start the
  \<^emph>\<open>loader\<close> reads every package through safe directory handles, stages its files in a transaction of the content-addressed
  \<^emph>\<open>snapshot store\<close>, validates the manifest and the skills, and commits a snapshot; the normalised \<^emph>\<open>record\<close> of the package goes
  to the \<^emph>\<open>registry\<close>, which counts references to generations of records, so that a lease keeps a record readable while the
  package is replaced or removed.  Clients search and browse the registry through the \<^emph>\<open>catalog\<close>, fetch descriptions page by
  page from the \<^emph>\<open>projection store\<close>, read artifacts chunk by chunk from the \<^emph>\<open>read lease store\<close>, and call operations through the
  \<^emph>\<open>provider registry\<close>, which starts the client of a provider at its first use.

  \<^bold>\<open>Conventions.\<close>  Strings and byte slices are \<^typ>\<open>string\<close>s of 8-bit characters; a Go map is an association list (\<open>gomap\<close>),
  whose order stands for the order in which a range loop visits it; counters of 64 bits are \<^typ>\<open>int\<close> with the wrap-around
  (\<open>add64\<close>) written out where the code relies on a check; times and durations are nanoseconds.  Fallible code returns \<open>error + 'a\<close>.
  A structure behind a pointer lives at an address of a heap.  A method that locks a mutex for its whole body is one atomic
  function; code with several critical sections is one function per section, and step relations interleave them.  Text that
  only decorates an error or a log line is left out.

  \<^bold>\<open>Parameters.\<close>  SHA-256 and HMAC (where needed: injective on the bytes at hand, 32 bytes long), the YAML decoder (bytes to a node
  tree), Unicode normalisation and character classes (NFC idempotent), MIME types by extension, the operating system (\<open>os_env\<close>:
  what opening, listing and reading return; sizes are not negative), random bytes (a stream that the store consumes), the clock
  (the argument \<open>now\<close> of each operation), what the configuration library reads, and what a client factory returns.

  \<^bold>\<open>Theories.\<close>
  \<^item> \<open>Prelude\<close>, \<open>GoStrings\<close>, \<open>Codec\<close>, \<open>Json\<close>, \<open>Json_Plain\<close>, \<open>Patterns\<close>, \<open>Paths\<close>: Go's maps, integers, \<^verbatim>\<open>strings\<close>, \<^verbatim>\<open>utf8\<close>, \<^verbatim>\<open>path\<close>,
    \<^verbatim>\<open>hex\<close>, \<^verbatim>\<open>base64\<close>, \<^verbatim>\<open>encoding/json\<close> and the regular expressions of the program (by derivatives), with their round trips.
  \<^item> \<open>Limits\<close> (\<^verbatim>\<open>limits.go\<close>, \<^verbatim>\<open>service_limits.go\<close>), \<open>Interfaces\<close>: the locales \<open>artifact_leases\<close> (what the read service relies on in the
    store; interpreted in \<open>Store_System\<close>) and \<open>pager\<close> (what a client that follows cursors relies on; interpreted in
    \<open>Describe_Pager\<close> and \<open>Catalog_Props\<close>).
  \<^item> \<open>Snapshot\<close> (\<^verbatim>\<open>snapshot.go\<close>) and \<open>Store_System\<close>: all operations of the store, their interleavings \<open>sys_step\<close>, and the invariant that
    every object counts exactly the snapshots and leases that name it; hence readability, quota and freedom from leaks.
  \<^item> \<open>Records\<close> (\<^verbatim>\<open>types.go\<close>, \<^verbatim>\<open>record.go\<close>), \<open>Registry\<close> (\<^verbatim>\<open>registry.go\<close>), \<open>Hierarchy\<close>, \<open>Registry_Inv\<close>, \<open>Registry_Steps\<close>, \<open>Registry_Props\<close>: the
    generations with their reference counts, leases, the refinement of a map, reclamation, and the dotted hierarchy in closed form.
    \<^verbatim>\<open>ResolveToolPath\<close> reads the entries and then calls \<^verbatim>\<open>ResolveOperation\<close> in a second critical section; the model runs both at once,
    and since \<^verbatim>\<open>ResolveOperation\<close> with any arguments is a step, what happens in between is covered by the step relation.
  \<^item> \<open>Read_Lease\<close> (\<^verbatim>\<open>read.go\<close>), \<open>Read_Inv\<close>, \<open>Read_Steps\<close>, \<open>Read_Props\<close>: attempts, replays, continuations and expiry; reads reassemble
    artifacts, retries are byte-exact, scopes are isolated, memory is bounded.
  \<^item> \<open>Tokens\<close>, \<open>Describe\<close> (\<^verbatim>\<open>describe.go\<close>), \<open>Describe_Page\<close>, \<open>Describe_Store\<close>, \<open>Describe_Pager\<close>, \<open>Describe_Props\<close>, \<open>Describe_Record\<close>: projections,
    pages that fit the response limit, signed cursors; following them yields every item once and ends.
  \<^item> \<open>Search\<close> (\<^verbatim>\<open>search.go\<close>), \<open>Search_Props\<close>, \<open>Catalog\<close> (\<^verbatim>\<open>catalog.go\<close>), \<open>Catalog_Props\<close>: ranking equals a specification that does not
    depend on the order of maps; listings of children are complete at one revision.
  \<^item> \<open>Yaml\<close> (\<^verbatim>\<open>yaml.go\<close>), \<open>Yaml_Props\<close>, \<open>Manifest\<close> (\<^verbatim>\<open>manifest.go\<close>), \<open>Manifest_Props\<close>, \<open>Skill\<close> (\<^verbatim>\<open>skill.go\<close>), \<open>Skill_Props\<close>: what is accepted is valid,
    and every valid manifest is accepted from its tree.
  \<^item> \<open>Loader\<close> (\<^verbatim>\<open>source.go\<close>, \<^verbatim>\<open>source_unix.go\<close>, \<^verbatim>\<open>loader.go\<close>), \<open>Loader_Stage\<close>, \<open>Loader_Inv\<close>, \<open>Loader_Record\<close>, \<open>Loader_Package\<close>, \<open>Loader_All\<close>,
    \<open>Loader_Props\<close>: a load commits exactly the files of the package or restores the store, and the registry that starts from a
    directory holds exactly its packages.
  \<^item> \<open>Config\<close> (\<^verbatim>\<open>internal/config\<close>), \<open>Config_Props\<close>: both formats, the adaptation of the first to the second, the defaults.
  \<^item> \<open>Providers\<close> (\<^verbatim>\<open>internal/hierarchy/hierarchy.go\<close>), \<open>Providers_Inv\<close>, \<open>Providers_Steps\<close>, \<open>Providers_Props\<close>: concurrent callers of providers;
    one start per provider, one call at a time, no client lost, no caller waiting in vain.

  \<^item> \<open>Broker\<close> (\<^verbatim>\<open>internal/server/backend.go\<close>), \<open>Broker_Props\<close>, \<open>Boot\<close> and this theory: browsing and executing over the registry; what is listed can be
    executed, also in the registry that a directory of packages starts.

  \<^bold>\<open>Bounds and fuel.\<close>  \<open>parseJson\<close> recurses with fuel \<open>2 * length s + 2\<close>, two per character, which is enough for every text (each
  level of nesting consumes a character); \<open>parseStr\<close> takes one per character.  \<open>drawID\<close> tries as often as the code does.  The loop over the
  lines of a skill document decreases the length of the rest.  Everything else recurses over its data.

  \<^bold>\<open>Not modelled.\<close>  The transports to providers and the MCP server around the backend, which adapt third-party libraries; the JSON tool tree that
  packages replace; the context of a starting provider; command lines; the offline structure generator; the conformance client.
\<close>

section \<open>From a directory of packages to a tool call\<close>

text \<open>C4: A broker that starts from a directory of packages offers what is in it.  When all packages load, the registry is created
  without an error and holds exactly the packages of the directory; browsing any path of it leaves no trace; and every tool that it
  lists under a path to which no other package answers is executable: the path resolves to the listed operation of the
  listed package, with a lease that holds its record.\<close>

theorem booted_broker_serves:
  assumes "NewSnapshotStore l = Inr st" and "limits_ok l" and "fstat_ok os"
    and "\<And>x. se_NFC (le_text env) (se_NFC (le_text env) x) = se_NFC (le_text env) x"
    and "inj_on (le_sha256 env) (bytes_in_play os (sys_init st))"
    and "LoadAll env os rootPath (sys_init st) = (Inr records, s)" and "NewRegistry (map Some records) s = (e, w)"
  shows "e = None \<and>
    (\<exists>root names. openPackageRoot os rootPath = Inr root \<and> PackageNames os root = Inr names \<and> dom (reg_map w) = set names) \<and>
    (\<forall>path res w'. capability_Browse path w = (res, w') \<longrightarrow> unchanged (le_sha256 env) w w' \<and>
      (\<forall>v name t. res = Inr v \<and> get (br_tools v) name = Some t \<and>
          unshadowed (reg_map w) (tv_tool_path t) (tv_capability_id t) (tv_operation_id t) \<longrightarrow>
        (\<exists>w1 lease iv. ResolveToolPath (tv_tool_path t) w' = Inr (w1, lease) \<and>
           Option.bind (get (w_leases w1) lease) ls_invocation = Some iv \<and> iv_capabilityID iv = tv_capability_id t \<and>
           op_ID (iv_operation iv) = tv_operation_id t \<and> op_Target (iv_operation iv) = name)))"
proof -
  have b: "e = None" "reg_reachable (le_sha256 env) w" "\<forall>cid r. reg_map w cid = Some r \<longrightarrow> operations_ok r"
    "\<exists>root names. openPackageRoot os rootPath = Inr root \<and> PackageNames os root = Inr names \<and> dom (reg_map w) = set names"
    using booted_registry [OF assms] by blast+
  show ?thesis
  proof (intro conjI allI impI)
    fix path res w' assume c: "capability_Browse path w = (res, w')"
    note l = listed_paths_resolve [OF b(2) c b(3)]
    show "unchanged (le_sha256 env) w w'" using l by (rule conjunct1)
    show "\<exists>w1 lease iv. ResolveToolPath (tv_tool_path t) w' = Inr (w1, lease) \<and>
        Option.bind (get (w_leases w1) lease) ls_invocation = Some iv \<and> iv_capabilityID iv = tv_capability_id t \<and>
        op_ID (iv_operation iv) = tv_operation_id t \<and> op_Target (iv_operation iv) = name"
      if "res = Inr v \<and> get (br_tools v) name = Some t \<and> unshadowed (reg_map w) (tv_tool_path t) (tv_capability_id t) (tv_operation_id t)"
      for v name t using l that by blast
  qed (use b(1,4) in auto)
qed

theorem booted_broker_serves_witness:
  "\<exists>records s w1 lease. tool_boot = (Inr records, s) \<and>
     ResolveToolPath ''t'' (snd (capability_Browse [] (snd (NewRegistry (map Some records) s)))) = Inr (w1, lease)"
proof -
  obtain records s where l: "tool_boot = (Inr records, s)" using tool_listed by (auto split: prod.splits sum.splits)
  obtain e w where n: "NewRegistry (map Some records) s = (e, w)" by force
  obtain res w' where b: "capability_Browse [] w = (res, w')" by force
  have c: "rg_entries (w_reg w) = [(''a'', 1)]"
    "map_option (\<lambda>g. rc_operations (gn_record g)) (get (rg_gens (w_reg w)) 1) = Some (sp_Operations (mf_Spec tool_manifest))"
    using tool_listed by (auto simp: l n Let_def)
  obtain v t where t: "res = Inr v" "get (br_tools v) ''t'' = Some t" "tv_tool_path t = ''t''" "tv_capability_id t = ''a''" "tv_operation_id t = ''o''"
    using tool_listed by (auto simp: l n b Let_def split: sum.splits option.splits)
  obtain r where m: "reg_map w = [''a'' \<mapsto> r]" "rc_operations r = sp_Operations (mf_Spec tool_manifest)"
    using c by (auto simp: reg_map_def fun_eq_iff)
  have "unshadowed (reg_map w) (tv_tool_path t) (tv_capability_id t) (tv_operation_id t)"
    unfolding unshadowed_def t(3-5)
  proof
    have "op_ID x = ''o''" if "rc_operations r = [x]" for x using that m(2) by (auto simp: tool_manifest_def)
    then show "legacy_matches ''t'' (reg_map w) \<subseteq> {(''a'', ''o'')}" by (auto simp: legacy_matches_def m(1) split: if_splits)
  qed (simp add: m(1))
  then have un: "res = Inr v \<and> get (br_tools v) ''t'' = Some t \<and> unshadowed (reg_map w) (tv_tool_path t) (tv_capability_id t) (tv_operation_id t)"
    using t(1,2) by simp
  obtain st where st: "NewSnapshotStore demo_limits = Inr st" "bare_sys = sys_init st" using bare_store by blast
  have load: "LoadAll tool_env bare_os ''pkg'' (sys_init st) = (Inr records, s)" using l by (simp add: tool_boot_def st(2))
  note q = booted_broker_serves [OF st(1) demo_limits_ok tool_ok load n, THEN conjunct2, THEN conjunct2, THEN spec, THEN spec, THEN spec,
    THEN mp, OF b, THEN conjunct2]
  have "\<exists>w1 lease. ResolveToolPath (tv_tool_path t) w' = Inr (w1, lease)" using q un by blast
  then obtain w1 lease where "ResolveToolPath ''t'' (snd (capability_Browse [] (snd (NewRegistry (map Some records) s)))) = Inr (w1, lease)"
    by (auto simp: n b t(3))
  then show ?thesis using l by blast
qed

end
